(* ===== verification/Prelude.thy ===== *)
theory Prelude
  imports Main "HOL-Library.Word" "HOL-Library.Multiset"
begin

text \<open>
  Shared vocabulary of the development: the machine types the firmware uses (\<open>uint8_t\<close>,
  \<open>uint16_t\<close>, \<open>uint32_t\<close>, the keycode types of \<open>keystate.h\<close>), arrays as lists with C's
  indexing, the collections of rewrite rules the component proofs share, and the generic facts on
  lists, words and bits that more than one component needs.
\<close>

unbundle bit_operations_syntax

named_theorems array_simps \<open>reads after writes on arrays\<close>
named_theorems word_facts \<open>facts on machine words shared by the components\<close>

type_synonym u8 = "8 word"
type_synonym u16 = "16 word"
type_synonym u32 = "32 word"

type_synonym logical_keycode = u8
type_synonym hid_keycode = u8

definition NO_KEY :: u8 where
  "NO_KEY = 0xFF"

lemma NO_KEY_max [word_facts]: "x \<le> NO_KEY"
proof -
  have "NO_KEY = (- 1 :: u8)" by (simp add: NO_KEY_def)
  then show ?thesis by (metis word_order.extremum)
qed

lemma less_NO_KEY [word_facts]: "x < NO_KEY \<longleftrightarrow> x \<noteq> NO_KEY"
  using NO_KEY_max [of x] by auto

lemma unat_ucast_8_16 [simp]: "unat (ucast (x :: u8) :: u16) = unat x"
  using unsigned_less [of x, where 'a = nat] by (simp add: unsigned_ucast_eq take_bit_nat_eq_self)

lemma unat_ucast_16_8: "unat (ucast (x :: u16) :: u8) = unat x mod 256"
proof -
  have "unat (ucast x :: u8) = take_bit 8 (unat x)" by (simp only: unsigned_ucast_eq) simp
  then show ?thesis by (simp only: take_bit_eq_mod) simp
qed

lemma unat_pos_iff [word_facts]: "0 < unat (x :: 'a::len word) \<longleftrightarrow> x \<noteq> 0"
  by (simp add: unat_gt_0)

text \<open>A 16-bit value with its top bit clear.\<close>

lemma high_bit_clear:
  assumes "(x :: u16) < 0x8000"
  shows "x AND 0x7FFF = x \<and> x AND 0x8000 = 0"
proof
  have m: "(0x7FFF :: u16) = mask 15" by (simp add: mask_eq_decr_exp)
  have "uint x < 2 ^ 15" using assms by (simp add: word_less_def)
  then show lo: "x AND 0x7FFF = x" by (simp add: m mask_eq_iff)
  have "x AND 0x8000 = (x AND 0x7FFF) AND 0x8000" by (simp only: lo)
  also have "\<dots> = 0" by (simp add: and.assoc)
  finally show "x AND 0x8000 = 0" .
qed

subsection \<open>Arrays numbered from 1\<close>

text \<open>
  \<open>sort.c\<close> sets \<open>base = vbase - 1\<close> so that the elements are numbered from 1; \<open>bget\<close> and
  \<open>bset\<close> are \<open>base[i]\<close> as a value and as the target of an assignment.
\<close>

definition bget :: "'a list \<Rightarrow> nat \<Rightarrow> 'a" where
  "bget a i = a ! (i - 1)"

definition bset :: "'a list \<Rightarrow> nat \<Rightarrow> 'a \<Rightarrow> 'a list" where
  "bset a i v = a[i - 1 := v]"

lemma length_bset [simp]: "length (bset a i v) = length a"
  by (simp add: bset_def)

lemma bget_bset [array_simps]:
  "0 < i \<Longrightarrow> i \<le> length a \<Longrightarrow> 0 < j \<Longrightarrow> bget (bset a i v) j = (if i = j then v else bget a j)"
  by (auto simp: bget_def bset_def nth_list_update)

lemma bset_same [array_simps]: "bset (bset a i v) i w = bset a i w"
  by (simp add: bset_def)

lemma bset_bget [array_simps]: "bset a i (bget a i) = a"
  by (simp add: bset_def bget_def)

subsection \<open>Multisets and prefixes of arrays\<close>

lemma mset_swap_update:
  assumes "i < length xs" "j < length xs"
  shows "mset (xs[i := xs ! j, j := v]) = mset (xs[i := v])"
proof (cases "i = j")
  case False
  have "mset (xs[i := xs ! j, j := v])
      = add_mset v (add_mset (xs ! j) (mset xs - {#xs ! i#}) - {#xs ! j#})"
    using assms False by (simp add: mset_update)
  also have "\<dots> = add_mset v (mset xs - {#xs ! i#})" by simp
  also have "\<dots> = mset (xs[i := v])" using assms by (simp add: mset_update)
  finally show ?thesis .
qed simp

lemma sorted_take_Suc:
  fixes xs :: "'a::linorder list"
  assumes "n < length xs"
  shows "sorted (take (Suc n) xs) \<longleftrightarrow> sorted (take n xs) \<and> (\<forall>i<n. xs ! i \<le> xs ! n)"
proof -
  have "take (Suc n) xs = take n xs @ [xs ! n]"
    using assms by (rule take_Suc_conv_app_nth)
  moreover have "(\<forall>x\<in>set (take n xs). x \<le> xs ! n) \<longleftrightarrow> (\<forall>i<n. xs ! i \<le> xs ! n)"
    using assms by (force simp: in_set_conv_nth)
  ultimately show ?thesis by (auto simp: sorted_append)
qed

text \<open>A single bit of a byte, and small numbers as bytes.\<close>

lemma and_bit_eq_0: "(x :: u8) AND push_bit k 1 = 0 \<longleftrightarrow> \<not> bit x k"
proof
  assume a: "x AND push_bit k 1 = 0"
  show "\<not> bit x k"
  proof
    assume b: "bit x k"
    then have "k < 8" by (auto dest: bit_imp_le_length)
    with b have "bit (x AND push_bit k 1) k" by (simp add: bit_simps)
    with a show False by simp
  qed
next
  assume b: "\<not> bit x k"
  show "x AND push_bit k 1 = 0"
    by (rule bit_word_eqI) (use b in \<open>auto simp: bit_simps\<close>)
qed

lemma u8_of_nat: "n < 256 \<Longrightarrow> unat (of_nat n :: u8) = n"
  by (simp add: unat_of_nat)

lemma u8_of_nat_0: "n < 256 \<Longrightarrow> (of_nat n :: u8) = 0 \<longleftrightarrow> n = 0"
proof
  assume "n < 256" "(of_nat n :: u8) = 0"
  with u8_of_nat [of n] show "n = 0" by (simp only: unsigned_0)
qed simp

end
