(* ===== verification/Sort.thy ===== *)
theory Sort
  imports Prelude "HOL-Library.Monad_Syntax"
begin

text \<open>
  The two byte sorts of \<open>sort.c\<close>. An array is the list of its elements and an operation returns
  the array it leaves behind; \<open>nmemb\<close> is the number of leading elements to sort, so a caller
  whose array is longer keeps the rest. The insertion sort is shown equal to the library's sort on
  the prefix it is given. The heap sort (Floyd's variant, which sifts the hole to a leaf first) is
  modelled on its 16-bit indices, whose doubling wraps around, with \<open>None\<close> where it leaves the array
  or does not end; up to 32767 elements it is shown to do what the same algorithm does on unbounded
  indices, and that one to leave a sorted permutation.
\<close>

subsection \<open>Insertion sort\<close>

text \<open>
  The inner loop: \<open>for(j = i; j > 0 && base[j-1] > val; --j) base[j] = base[j-1];\<close> followed by
  \<open>base[j] = val\<close>.
\<close>

fun insertionsort_shift :: "u8 list \<Rightarrow> u8 \<Rightarrow> nat \<Rightarrow> u8 list" where
  "insertionsort_shift base val 0 = base[0 := val]"
| "insertionsort_shift base val (Suc j) =
     (if base ! j > val then insertionsort_shift (base[Suc j := base ! j]) val j
      else base[Suc j := val])"

definition insertionsort_uint8 :: "u8 list \<Rightarrow> nat \<Rightarrow> u8 list" where
  "insertionsort_uint8 base nmemb =
     fold (\<lambda>i base. insertionsort_shift base (base ! i) i) [1..<nmemb] base"

lemma length_insertionsort_shift [simp]: "length (insertionsort_shift b v j) = length b"
  by (induction b v j rule: insertionsort_shift.induct) auto

lemma mset_insertionsort_shift:
  "j < length b \<Longrightarrow> mset (insertionsort_shift b v j) = mset (b[j := v])"
proof (induction b v j rule: insertionsort_shift.induct)
  case (2 b v j)
  then show ?case
    using mset_swap_update [of "Suc j" b j v] by simp
qed simp

lemma insertionsort_shift_above:
  "j < i \<Longrightarrow> insertionsort_shift b v j ! i = b ! i"
  by (induction b v j rule: insertionsort_shift.induct) auto

lemma drop_insertionsort_shift:
  "j < i \<Longrightarrow> drop i (insertionsort_shift b v j) = drop i b"
  by (induction b v j rule: insertionsort_shift.induct) auto

text \<open>
  Where the prefix below \<open>j\<close> is sorted, everything from \<open>j\<close> up to \<open>i\<close> is above \<open>v\<close>, and
  the gap at \<open>j\<close> hides a sorted array, the loop closes the gap in the right place.
\<close>

lemma sorted_insertionsort_shift:
  assumes "j \<le> i" "i < length b" "sorted (take j b @ drop (Suc j) (take (Suc i) b))"
    and "\<And>k. j < k \<Longrightarrow> k \<le> i \<Longrightarrow> v \<le> b ! k"
  shows "sorted (take (Suc i) (insertionsort_shift b v j))"
  using assms
proof (induction b v j rule: insertionsort_shift.induct)
  case (1 b v)
  let ?t = "take (Suc i) b"
  have "take (Suc i) (b[0 := v]) = v # drop 1 ?t"
    using "1.prems" by (cases b) (auto simp: take_update_swap)
  moreover have "\<forall>x\<in>set (drop 1 ?t). v \<le> x"
    using "1.prems"(2,4) by (fastforce simp: in_set_conv_nth)
  ultimately show ?case using "1.prems"(3) by auto
next
  case (2 b v j)
  let ?lo = "take j b" and ?hi = "drop (Suc (Suc j)) (take (Suc i) b)"
  have split: "take (Suc j) b = ?lo @ [b ! j]"
    using "2.prems" by (simp add: take_Suc_conv_app_nth)
  have sorted: "sorted (?lo @ b ! j # ?hi)"
    using "2.prems"(3) split by simp
  show ?case
  proof (cases "b ! j > v")
    case True
    let ?b = "b[Suc j := b ! j]"
    have "drop (Suc j) (take (Suc i) ?b) = b ! j # ?hi"
      using "2.prems"(1,2) by (simp add: take_update_swap drop_update_swap Cons_nth_drop_Suc [symmetric])
    then have "sorted (take j ?b @ drop (Suc j) (take (Suc i) ?b))"
      using sorted by simp
    moreover have "v \<le> ?b ! k" if "j < k" "k \<le> i" for k
      using that True "2.prems"(1,2,4) by (cases "k = Suc j") auto
    ultimately have "sorted (take (Suc i) (insertionsort_shift ?b v j))"
      using "2.IH" [OF True] "2.prems"(1,2) by simp
    then show ?thesis using True by simp
  next
    case False
    have "take (Suc i) (b[Suc j := v]) = ?lo @ b ! j # v # ?hi"
    proof -
      have "take (Suc i) (b[Suc j := v]) = (take (Suc i) b)[Suc j := v]"
        by (simp add: take_update_swap)
      also have "\<dots> = take (Suc j) (take (Suc i) b) @ v # ?hi"
        using "2.prems"(1,2) by (simp add: upd_conv_take_nth_drop)
      also have "take (Suc j) (take (Suc i) b) = ?lo @ [b ! j]"
        using "2.prems"(1) split by (simp add: min_absorb1)
      finally show ?thesis by simp
    qed
    moreover have "\<forall>x\<in>set ?hi. v \<le> x"
      using "2.prems"(1,2,4) by (fastforce simp: in_set_conv_nth)
    ultimately show ?thesis using sorted False by (auto simp: sorted_append)
  qed
qed

lemma insertionsort_uint8_Suc:
  "0 < n \<Longrightarrow> insertionsort_uint8 b (Suc n)
     = (let b' = insertionsort_uint8 b n in insertionsort_shift b' (b' ! n) n)"
  by (simp add: insertionsort_uint8_def Let_def)

lemma length_insertionsort_uint8 [simp]: "length (insertionsort_uint8 b n) = length b"
proof (induction n)
  case (Suc n)
  then show ?case
    by (cases n) (simp_all add: insertionsort_uint8_Suc Let_def, simp add: insertionsort_uint8_def)
qed (simp add: insertionsort_uint8_def)

lemma insertionsort_uint8_prefix:
  "n \<le> length b \<Longrightarrow> sorted (take n (insertionsort_uint8 b n))
     \<and> mset (insertionsort_uint8 b n) = mset b
     \<and> drop n (insertionsort_uint8 b n) = drop n b"
proof (induction n)
  case (Suc n)
  show ?case
  proof (cases "n = 0")
    case True
    then show ?thesis using Suc.prems
      by (cases b) (simp_all add: insertionsort_uint8_def)
  next
    case False
    let ?b = "insertionsort_uint8 b n"
    have n: "n < length ?b" using Suc.prems by simp
    have eq: "insertionsort_uint8 b (Suc n) = insertionsort_shift ?b (?b ! n) n"
      using False by (simp add: insertionsort_uint8_Suc Let_def)
    have "sorted (take (Suc n) (insertionsort_shift ?b (?b ! n) n))"
      using Suc n by (intro sorted_insertionsort_shift) auto
    moreover have "mset (insertionsort_shift ?b (?b ! n) n) = mset b"
      using Suc n by (simp add: mset_insertionsort_shift)
    moreover have "drop (Suc n) (insertionsort_shift ?b (?b ! n) n) = drop (Suc n) b"
    proof -
      have "drop (Suc n) (insertionsort_shift ?b (?b ! n) n) = drop 1 (drop n ?b)"
        by (simp add: drop_insertionsort_shift)
      also have "drop n ?b = drop n b" using Suc by simp
      finally show ?thesis by simp
    qed
    ultimately show ?thesis by (simp only: eq)
  qed
qed (simp add: insertionsort_uint8_def)

lemma insertionsort_uint8_eq_sort_append:
  assumes "n \<le> length b"
  shows "insertionsort_uint8 b n = sort (take n b) @ drop n b"
proof -
  let ?r = "insertionsort_uint8 b n"
  have *: "sorted (take n ?r)" "mset ?r = mset b" "drop n ?r = drop n b"
    using insertionsort_uint8_prefix [OF assms] by auto
  have "mset (take n ?r) + mset (drop n b) = mset (take n b) + mset (drop n b)"
    using *(2,3) by (metis append_take_drop_id mset_append)
  then have "take n ?r = sort (take n b)"
    using *(1) by (simp add: properties_for_sort)
  then show ?thesis using *(3) by (metis append_take_drop_id)
qed

subsection \<open>Heap sort\<close>

text \<open>\<open>compar(a, b)\<close> is the difference of two bytes as an \<open>int\<close>, so its sign is their order.\<close>

definition compar :: "u8 \<Rightarrow> u8 \<Rightarrow> int" where
  "compar a b = uint a - uint b"

text \<open>
  Elements are numbered from 1 (\<open>base = vbase - 1\<close>) by a \<open>uint16_t\<close>; \<open>nmemb\<close> is a \<open>size_t\<close>, 16 bits
  on the AVR. An access outside the array is undefined: the model ends with \<open>None\<close> there.
\<close>

definition base_at :: "u8 list \<Rightarrow> u16 \<Rightarrow> u8 option" where
  "base_at a i = (if 0 < i \<and> unat i \<le> length a then Some (bget a (unat i)) else None)"

definition base_put :: "u8 list \<Rightarrow> u16 \<Rightarrow> u8 \<Rightarrow> u8 list option" where
  "base_put a i v = (if 0 < i \<and> unat i \<le> length a then Some (bset a (unat i) v) else None)"

text \<open>
  The choice of the larger child, common to both phases: \<open>child_i\<close> or, where there is a right
  sibling and it is larger, \<open>child_i + 1\<close>.
\<close>

definition larger_child :: "u8 list \<Rightarrow> u16 \<Rightarrow> u16 \<Rightarrow> u16 option" where
  "larger_child a nmemb child_i =
     (if child_i < nmemb then do {
        child \<leftarrow> base_at a child_i;
        sibling \<leftarrow> base_at a (child_i + 1);
        Some (if compar child sibling < 0 then child_i + 1 else child_i)
      } else Some child_i)"

text \<open>
  Building the heap: \<open>for (par_i = initval; (child_i = par_i * 2) <= nmemb; par_i = child_i)\<close>. The
  product is assigned to a \<open>uint16_t\<close>, so it wraps from \<open>par_i = 0x8000\<close> on.
\<close>

partial_function (option) heapsort_build_sift :: "u8 list \<Rightarrow> u16 \<Rightarrow> u16 \<Rightarrow> u8 list option" where
  "heapsort_build_sift a nmemb par_i =
     (if par_i * 2 \<le> nmemb then do {
        child_i \<leftarrow> larger_child a nmemb (par_i * 2);
        child \<leftarrow> base_at a child_i;
        par \<leftarrow> base_at a par_i;
        if compar child par \<le> 0 then Some a
        else do {
          a \<leftarrow> base_put a par_i child;
          a \<leftarrow> base_put a child_i par;
          heapsort_build_sift a nmemb child_i
        }
      } else Some a)"

text \<open>\<open>for (initval = nmemb / 2 + 1; --initval; )\<close>: every inner node, the last one first.\<close>

partial_function (option) heapsort_build :: "u8 list \<Rightarrow> u16 \<Rightarrow> u16 \<Rightarrow> u8 list option" where
  "heapsort_build a nmemb initval =
     (let initval = initval - 1 in
      if initval = 0 then Some a
      else do {
        a \<leftarrow> heapsort_build_sift a nmemb initval;
        heapsort_build a nmemb initval
      })"

text \<open>
  Removing the maximum, first loop: the hole at \<open>par_i\<close> moves down to a leaf, the larger child
  always copied over it. The result is the array and the place of the hole.
\<close>

partial_function (option) heapsort_hole_down :: "u8 list \<Rightarrow> u16 \<Rightarrow> u16 \<Rightarrow> (u8 list \<times> u16) option" where
  "heapsort_hole_down a nmemb par_i =
     (if par_i * 2 \<le> nmemb then do {
        child_i \<leftarrow> larger_child a nmemb (par_i * 2);
        child \<leftarrow> base_at a child_i;
        a \<leftarrow> base_put a par_i child;
        heapsort_hole_down a nmemb child_i
      } else Some (a, par_i))"

text \<open>Second loop: from the leaf, the hole moves up until \<open>k\<close> fits.\<close>

partial_function (option) heapsort_hole_up :: "u8 list \<Rightarrow> u8 \<Rightarrow> u16 \<Rightarrow> u8 list option" where
  "heapsort_hole_up a k child_i =
     (let par_i = child_i div 2 in
      if child_i = 1 then base_put a child_i k
      else do {
        par \<leftarrow> base_at a par_i;
        if compar k par < 0 then base_put a child_i k
        else do {
          a \<leftarrow> base_put a child_i par;
          heapsort_hole_up a k par_i
        }
      })"

text \<open>\<open>while (nmemb > 1)\<close>: the maximum goes to the end, its place takes the last element.\<close>

partial_function (option) heapsort_extract :: "u8 list \<Rightarrow> u16 \<Rightarrow> u8 list option" where
  "heapsort_extract a nmemb =
     (if 1 < nmemb then do {
        k \<leftarrow> base_at a nmemb;
        root \<leftarrow> base_at a 1;
        a \<leftarrow> base_put a nmemb root;
        (a, par_i) \<leftarrow> heapsort_hole_down a (nmemb - 1) 1;
        a \<leftarrow> heapsort_hole_up a k par_i;
        heapsort_extract a (nmemb - 1)
      } else Some a)"

definition heapsort_uint8 :: "u8 list \<Rightarrow> u16 \<Rightarrow> u8 list option" where
  "heapsort_uint8 vbase nmemb =
     (if nmemb \<le> 1 then Some vbase
      else do {
        a \<leftarrow> heapsort_build vbase nmemb (nmemb div 2 + 1);
        heapsort_extract a nmemb
      })"

text \<open>
  The bound on the array is needed: from \<open>par_i = 0x8000\<close> the child's number wraps to 0, the byte
  before the array.
\<close>

lemma heapsort_index_wraps:
  "0 < nmemb \<Longrightarrow> heapsort_build_sift a nmemb 0x8000 = None \<and> heapsort_hole_down a nmemb 0x8000 = None"
proof -
  assume "0 < nmemb"
  moreover have "(0x8000 * 2 :: u16) = 0" by simp
  ultimately show ?thesis
    by (simp only: heapsort_build_sift.simps [of a nmemb] heapsort_hole_down.simps [of a nmemb])
      (simp add: larger_child_def base_at_def)
qed

subsection \<open>The same algorithm on unbounded indices\<close>

text \<open>
  The reference for the proofs: the loops of the heap sort on natural numbers, total and without
  wrap-around. The section after it shows that the code agrees with it below \<open>0x8000\<close> elements.
\<close>

definition heap_larger_child :: "u8 list \<Rightarrow> nat \<Rightarrow> nat \<Rightarrow> nat" where
  "heap_larger_child a nmemb child_i =
     (if child_i < nmemb \<and> compar (bget a child_i) (bget a (child_i + 1)) < 0
      then child_i + 1 else child_i)"

text \<open>The guard \<open>0 < par_i\<close>, true wherever the sort starts a sift, makes the function total.\<close>

function heap_sift :: "u8 list \<Rightarrow> nat \<Rightarrow> nat \<Rightarrow> u8 list" where
  "heap_sift a nmemb par_i =
     (if 0 < par_i \<and> par_i * 2 \<le> nmemb then
        let child_i = heap_larger_child a nmemb (par_i * 2) in
        if compar (bget a child_i) (bget a par_i) \<le> 0 then a
        else heap_sift
               (bset (bset a par_i (bget a child_i)) child_i (bget a par_i)) nmemb child_i
      else a)"
  by pat_completeness auto
termination
  by (relation "measure (\<lambda>(a, nmemb, par_i). nmemb - par_i)") (auto simp: heap_larger_child_def Let_def)

definition heap_build :: "u8 list \<Rightarrow> nat \<Rightarrow> u8 list" where
  "heap_build a nmemb = fold (\<lambda>initval a. heap_sift a nmemb initval) (rev [1..<nmemb div 2 + 1]) a"

function heap_hole_down :: "u8 list \<Rightarrow> nat \<Rightarrow> nat \<Rightarrow> u8 list \<times> nat" where
  "heap_hole_down a nmemb par_i =
     (if 0 < par_i \<and> par_i * 2 \<le> nmemb then
        let child_i = heap_larger_child a nmemb (par_i * 2) in
        heap_hole_down (bset a par_i (bget a child_i)) nmemb child_i
      else (a, par_i))"
  by pat_completeness auto
termination
  by (relation "measure (\<lambda>(a, nmemb, par_i). nmemb - par_i)") (auto simp: heap_larger_child_def Let_def)

function heap_hole_up :: "u8 list \<Rightarrow> u8 \<Rightarrow> nat \<Rightarrow> u8 list" where
  "heap_hole_up a k child_i =
     (let par_i = child_i div 2 in
      if child_i \<le> 1 \<or> compar k (bget a par_i) < 0 then bset a child_i k
      else heap_hole_up (bset a child_i (bget a par_i)) k par_i)"
  by pat_completeness auto
termination
  by (relation "measure (\<lambda>(a, k, child_i). child_i)") auto

declare heap_sift.simps [simp del] heap_hole_down.simps [simp del]
  heap_hole_up.simps [simp del]

fun heap_extract :: "u8 list \<Rightarrow> nat \<Rightarrow> u8 list" where
  "heap_extract a 0 = a"
| "heap_extract a (Suc 0) = a"
| "heap_extract a (Suc (Suc m)) =
     (let nmemb = Suc (Suc m);
          k = bget a nmemb;
          a = bset a nmemb (bget a 1);
          nmemb = nmemb - 1;
          (a, par_i) = heap_hole_down a nmemb 1
      in heap_extract (heap_hole_up a k par_i) nmemb)"

definition heap_sort :: "u8 list \<Rightarrow> nat \<Rightarrow> u8 list" where
  "heap_sort vbase nmemb =
     (if nmemb \<le> 1 then vbase else heap_extract (heap_build vbase nmemb) nmemb)"

subsubsection \<open>Heap order\<close>

text \<open>
  \<open>heap_from f n lo\<close>: every node from \<open>lo\<close> on is at least as large as its children among the
  first \<open>n\<close>. \<open>heap_but f n lo p\<close>: the same except at \<open>p\<close>, whose value does not count and whose
  parent dominates its children instead. Both speak of the elements as a function of their number,
  so that the steps of either phase are one fact.
\<close>

definition heap_from :: "(nat \<Rightarrow> u8) \<Rightarrow> nat \<Rightarrow> nat \<Rightarrow> bool" where
  "heap_from f n lo \<longleftrightarrow> (\<forall>i. i \<le> n \<and> lo \<le> i div 2 \<longrightarrow> f i \<le> f (i div 2))"

definition heap_but :: "(nat \<Rightarrow> u8) \<Rightarrow> nat \<Rightarrow> nat \<Rightarrow> nat \<Rightarrow> bool" where
  "heap_but f n lo p \<longleftrightarrow>
     (\<forall>i. i \<le> n \<and> lo \<le> i div 2 \<and> i \<noteq> p \<and> i div 2 \<noteq> p \<longrightarrow> f i \<le> f (i div 2)) \<and>
     (\<forall>i. i \<le> n \<and> i div 2 = p \<and> lo \<le> p div 2 \<longrightarrow> f i \<le> f (p div 2))"

lemma compar_sign: "compar a b < 0 \<longleftrightarrow> a < b" "compar a b \<le> 0 \<longleftrightarrow> a \<le> b"
  by (auto simp: compar_def word_less_def word_le_def)

lemma heap_larger_child:
  fixes a :: "u8 list"
  assumes "0 < p" "p * 2 \<le> n"
  defines "c \<equiv> heap_larger_child a n (p * 2)"
  shows "c div 2 = p" "c \<le> n" "p < c" "i \<le> n \<Longrightarrow> i div 2 = p \<Longrightarrow> bget a i \<le> bget a c"
proof -
  show "c div 2 = p" "c \<le> n" "p < c"
    using assms by (auto simp: heap_larger_child_def)
  assume "i \<le> n" "i div 2 = p"
  then have "i = p * 2 \<or> i = p * 2 + 1 \<and> p * 2 < n" by auto
  then show "bget a i \<le> bget a c"
    by (auto simp: c_def heap_larger_child_def compar_sign)
qed

lemma heap_but_down:
  assumes but: "heap_but f n lo p" and p: "0 < p" "c div 2 = p" "c \<le> n"
    and max: "\<And>i. i \<le> n \<Longrightarrow> i div 2 = p \<Longrightarrow> f i \<le> f c"
    and g: "g p = f c" "\<And>i. 0 < i \<Longrightarrow> i \<noteq> p \<Longrightarrow> i \<noteq> c \<Longrightarrow> g i = f i"
    and lo: "0 < lo"
  shows "heap_but g n lo c"
  unfolding heap_but_def
proof (intro conjI allI impI; elim conjE)
  fix i assume i: "i \<le> n" "lo \<le> i div 2" "i \<noteq> c" "i div 2 \<noteq> c"
  have "0 < i" "0 < i div 2" using i lo by auto
  consider "i = p" | "i \<noteq> p" "i div 2 = p" | "i \<noteq> p" "i div 2 \<noteq> p" by blast
  then show "g i \<le> g (i div 2)"
  proof cases
    case 1
    have "p div 2 \<noteq> p" "p div 2 \<noteq> c" using p by auto
    then show ?thesis using 1 i but p g \<open>0 < i div 2\<close> by (auto simp: heap_but_def)
  next
    case 2
    then show ?thesis using g i max \<open>0 < i\<close> by auto
  next
    case 3
    then show ?thesis using but i g \<open>0 < i\<close> \<open>0 < i div 2\<close> by (auto simp: heap_but_def)
  qed
next
  fix i assume i: "i \<le> n" "i div 2 = c" "lo \<le> c div 2"
  have ne: "i \<noteq> p" "i \<noteq> c" "c \<noteq> p" "0 < i" "lo \<le> i div 2" using i p lo by auto
  then have "f i \<le> f c" using but i by (auto simp: heap_but_def)
  then show "g i \<le> g (c div 2)" using g ne p by simp
qed

lemma heap_but_up:
  assumes but: "heap_but f n 1 p" and p: "1 < p" "p \<le> n"
    and k: "f (p div 2) \<le> k"
    and g: "g p = f (p div 2)" "\<And>i. 0 < i \<Longrightarrow> i \<noteq> p \<Longrightarrow> i \<noteq> p div 2 \<Longrightarrow> g i = f i"
  shows "heap_but g n 1 (p div 2)"
    and "i \<le> n \<Longrightarrow> i div 2 = p div 2 \<Longrightarrow> g i \<le> k"
proof -
  let ?q = "p div 2"
  have q: "0 < ?q" "?q \<noteq> p" using p by auto
  have sib: "f j \<le> f ?q" if "j \<le> n" "j div 2 = ?q" "j \<noteq> p" for j
    using but that q by (auto simp: heap_but_def)
  have gsib: "g j \<le> f ?q" if "j \<le> n" "j div 2 = ?q" for j
  proof (cases "j = p")
    case False
    have "0 < j" "j \<noteq> ?q" using that q by auto
    then show ?thesis using that sib g False by simp
  qed (simp add: g)
  show "i \<le> n \<Longrightarrow> i div 2 = ?q \<Longrightarrow> g i \<le> k"
    using gsib [of i] k by simp
  show "heap_but g n 1 ?q"
    unfolding heap_but_def
  proof (intro conjI allI impI; elim conjE)
    fix j assume j: "j \<le> n" "1 \<le> j div 2" "j \<noteq> ?q" "j div 2 \<noteq> ?q"
    then have "j \<noteq> p" "0 < j" by auto
    then have gj: "g j = f j" using g j by simp
    show "g j \<le> g (j div 2)"
    proof (cases "j div 2 = p")
      case True
      then have "f j \<le> f ?q" using but j q by (auto simp: heap_but_def)
      then show ?thesis using True gj g by simp
    next
      case False
      then show ?thesis using but j gj g \<open>j \<noteq> p\<close> by (auto simp: heap_but_def)
    qed
  next
    fix j assume j: "j \<le> n" "j div 2 = ?q" "1 \<le> ?q div 2"
    then have "?q div 2 \<noteq> p" "?q div 2 \<noteq> ?q" "0 < ?q div 2" "?q \<le> n" using p by auto
    then have "f ?q \<le> f (?q div 2)" "g (?q div 2) = f (?q div 2)"
      using but j q g by (auto simp: heap_but_def)
    then show "g j \<le> g (?q div 2)" using gsib [OF j(1,2)] by simp
  qed
qed

lemma heap_from_fill:
  assumes "heap_but f n lo p" "0 < lo" "0 < p"
    and "\<And>i. i \<le> n \<Longrightarrow> i div 2 = p \<Longrightarrow> f i \<le> k"
    and "lo \<le> p div 2 \<Longrightarrow> k \<le> f (p div 2)"
    and g: "g p = k" "\<And>i. 0 < i \<Longrightarrow> i \<noteq> p \<Longrightarrow> g i = f i"
  shows "heap_from g n lo"
  unfolding heap_from_def
proof (intro allI impI; elim conjE)
  fix i assume i: "i \<le> n" "lo \<le> i div 2"
  then have pos: "0 < i" "0 < i div 2" "i \<noteq> i div 2" using assms(2) by auto
  consider "i = p" | "i \<noteq> p" "i div 2 = p" | "i \<noteq> p" "i div 2 \<noteq> p" by blast
  then show "g i \<le> g (i div 2)"
    by cases (use assms i pos in \<open>auto simp: heap_but_def\<close>)
qed

subsubsection \<open>Building the heap\<close>

lemma bset_swap_update:
  "0 < p \<Longrightarrow> 0 < c \<Longrightarrow> p \<le> length a \<Longrightarrow> c \<le> length a \<Longrightarrow>
     mset (bset (bset a p (bget a c)) c v) = mset (bset a p v)"
  unfolding bset_def bget_def by (rule mset_swap_update) auto

lemma drop_bset: "0 < i \<Longrightarrow> i \<le> n \<Longrightarrow> drop n (bset a i v) = drop n a"
  by (simp add: bset_def)

lemma heap_sift_frame:
  "n \<le> length a \<Longrightarrow> length (heap_sift a n p) = length a
     \<and> mset (heap_sift a n p) = mset a \<and> drop n (heap_sift a n p) = drop n a"
proof (induction a n p rule: heap_sift.induct)
  case (1 a n p)
  let ?c = "heap_larger_child a n (p * 2)"
  let ?a = "bset (bset a p (bget a ?c)) ?c (bget a p)"
  show ?case
  proof (cases "0 < p \<and> p * 2 \<le> n \<and> \<not> compar (bget a ?c) (bget a p) \<le> 0")
    case True
    then have c: "0 < p" "p < ?c" "?c \<le> n" using heap_larger_child(1-3) [of p n a] by auto
    have "mset ?a = mset a"
      using c "1.prems" by (simp add: bset_swap_update bset_bget)
    moreover have "drop n ?a = drop n a" using c by (simp add: drop_bset)
    ultimately show ?thesis
      using "1.IH" [OF _ refl, of] True "1.prems"
      by (simp add: heap_sift.simps [of a n p] Let_def)
  next
    case False
    then show ?thesis by (auto simp: heap_sift.simps [of a n p] Let_def)
  qed
qed

lemma heap_sift_heap:
  "n \<le> length a \<Longrightarrow> 0 < lo \<Longrightarrow> 0 < p \<Longrightarrow> heap_but (bget a) n lo p \<Longrightarrow>
     (lo \<le> p div 2 \<Longrightarrow> bget a p \<le> bget a (p div 2)) \<Longrightarrow>
     heap_from (bget (heap_sift a n p)) n lo"
proof (induction a n p rule: heap_sift.induct)
  case (1 a n p)
  let ?c = "heap_larger_child a n (p * 2)"
  let ?a = "bset (bset a p (bget a ?c)) ?c (bget a p)"
  show ?case
  proof (cases "p * 2 \<le> n")
    case False
    then have "heap_from (bget a) n lo"
      by (intro heap_from_fill [OF "1.prems"(4,2,3)]) (use "1.prems" in auto)
    then show ?thesis using False by (simp add: heap_sift.simps [of a n p])
  next
    case le: True
    note c = heap_larger_child [OF \<open>0 < p\<close> le, where a = a]
    show ?thesis
    proof (cases "bget a ?c \<le> bget a p")
      case True
      then have "heap_from (bget a) n lo"
        by (intro heap_from_fill [OF "1.prems"(4,2,3)])
          (use "1.prems" c(4) in \<open>auto intro: order.trans\<close>)
      then show ?thesis
        using True le by (simp add: heap_sift.simps [of a n p] Let_def compar_sign)
    next
      case False
      have c': "0 < ?c" "?c \<le> length a" "p \<le> length a" "p \<noteq> ?c"
        using c "1.prems" by auto
      then have get: "bget ?a p = bget a ?c" "bget ?a ?c = bget a p"
        "\<And>i. 0 < i \<Longrightarrow> i \<noteq> p \<Longrightarrow> i \<noteq> ?c \<Longrightarrow> bget ?a i = bget a i"
        using "1.prems" by (simp_all add: array_simps)
      have "heap_but (bget ?a) n lo ?c"
        by (rule heap_but_down [OF "1.prems"(4,3) c(1,2,4)]) (use get "1.prems" in auto)
      then have "heap_from (bget (heap_sift ?a n ?c)) n lo"
        using "1.IH" [OF _ refl] "1.prems" le False c(1) c' get by (simp add: compar_sign)
      then show ?thesis
        using False le "1.prems"
        by (simp add: heap_sift.simps [of a n p] Let_def compar_sign)
    qed
  qed
qed

lemma heap_build_heap:
  assumes "n \<le> length a"
  shows "length (heap_build a n) = length a \<and> mset (heap_build a n) = mset a
     \<and> drop n (heap_build a n) = drop n a \<and> heap_from (bget (heap_build a n)) n 1"
proof -
  let ?step = "\<lambda>i a. heap_sift a n i"
  have "length b = length a \<and> mset b = mset a \<and> drop n b = drop n a \<and> heap_from (bget b) n (m + 1)
      \<Longrightarrow> m \<le> n div 2 \<Longrightarrow>
      (let r = fold ?step (rev [1..<m + 1]) b in
       length r = length a \<and> mset r = mset a \<and> drop n r = drop n a \<and> heap_from (bget r) n 1)" for m b
  proof (induction m arbitrary: b)
    case (Suc m)
    have len: "n \<le> length b" using Suc.prems assms by simp
    let ?b = "?step (Suc m) b"
    have "heap_but (bget b) n (Suc m) (Suc m)"
      using Suc.prems(1) by (auto simp: heap_but_def heap_from_def)
    then have "heap_from (bget ?b) n (Suc m)"
      using heap_sift_heap [OF len, of "Suc m" "Suc m"] by simp
    then have "length ?b = length a \<and> mset ?b = mset a \<and> drop n ?b = drop n a
        \<and> heap_from (bget ?b) n (m + 1)"
      using heap_sift_frame [OF len, of "Suc m"] Suc.prems by simp
    then show ?case
      using Suc.IH [of ?b] Suc.prems(2) by (simp add: Let_def)
  qed (simp add: Let_def)
  moreover have "heap_from (bget a) n (n div 2 + 1)"
    by (auto simp: heap_from_def div_le_mono dest: div_le_mono [of _ n 2])
  ultimately show ?thesis by (simp add: heap_build_def Let_def)
qed

subsubsection \<open>Removing the maximum\<close>

lemma heap_hole_down:
  assumes "heap_hole_down a n p = (a', h)" "n \<le> length a" "0 < p" "p \<le> n"
    "heap_but (bget a) n 1 p"
  shows "length a' = length a \<and> 0 < h \<and> h \<le> n \<and> n < h * 2 \<and> heap_but (bget a') n 1 h
     \<and> drop n a' = drop n a \<and> (\<forall>k. mset (bset a' h k) = mset (bset a p k))"
  using assms
proof (induction a n p arbitrary: a' h rule: heap_hole_down.induct)
  case (1 a n p)
  let ?c = "heap_larger_child a n (p * 2)"
  let ?a = "bset a p (bget a ?c)"
  show ?case
  proof (cases "p * 2 \<le> n")
    case False
    then show ?thesis using "1.prems" by (auto simp: heap_hole_down.simps [of a n p])
  next
    case le: True
    note c = heap_larger_child [OF \<open>0 < p\<close> le, where a = a]
    have rec: "heap_hole_down ?a n ?c = (a', h)"
      using "1.prems"(1,3) le by (simp add: heap_hole_down.simps [of a n p] Let_def)
    have get: "bget ?a p = bget a ?c" "\<And>i. 0 < i \<Longrightarrow> i \<noteq> p \<Longrightarrow> i \<noteq> ?c \<Longrightarrow> bget ?a i = bget a i"
      using "1.prems" by (simp_all add: array_simps)
    have but: "heap_but (bget ?a) n 1 ?c"
      by (rule heap_but_down [OF "1.prems"(5,3) c(1,2,4)]) (use get in auto)
    have "length a' = length ?a \<and> 0 < h \<and> h \<le> n \<and> n < h * 2 \<and> heap_but (bget a') n 1 h
        \<and> drop n a' = drop n ?a \<and> (\<forall>k. mset (bset a' h k) = mset (bset ?a ?c k))"
      by (rule "1.IH" [OF _ refl rec]) (use le "1.prems" c but in auto)
    moreover have "mset (bset ?a ?c k) = mset (bset a p k)" for k
      using "1.prems" c(2,3) by (intro bset_swap_update) auto
    ultimately show ?thesis using "1.prems"(3,4) by (simp add: drop_bset)
  qed
qed

lemma heap_hole_up:
  assumes "n \<le> length a" "0 < c" "c \<le> n" "heap_but (bget a) n 1 c"
    "\<And>i. i \<le> n \<Longrightarrow> i div 2 = c \<Longrightarrow> bget a i \<le> k"
  shows "length (heap_hole_up a k c) = length a \<and> heap_from (bget (heap_hole_up a k c)) n 1
     \<and> mset (heap_hole_up a k c) = mset (bset a c k) \<and> drop n (heap_hole_up a k c) = drop n a"
  using assms
proof (induction a k c rule: heap_hole_up.induct)
  case (1 a k c)
  let ?q = "c div 2"
  show ?case
  proof (cases "c \<le> 1 \<or> k < bget a ?q")
    case True
    have "heap_from (bget (bset a c k)) n 1"
      by (rule heap_from_fill [OF "1.prems"(4), of k])
        (use "1.prems" True in \<open>auto simp: array_simps\<close>)
    then show ?thesis using True "1.prems"
      by (auto simp: heap_hole_up.simps [of a k c] Let_def compar_sign drop_bset)
  next
    case False
    let ?a = "bset a c (bget a ?q)"
    have q: "0 < ?q" "?q \<le> n" "1 < c" "bget a ?q \<le> k" using False "1.prems" by auto
    have get: "bget ?a c = bget a ?q" "\<And>i. 0 < i \<Longrightarrow> i \<noteq> c \<Longrightarrow> i \<noteq> ?q \<Longrightarrow> bget ?a i = bget a i"
      using "1.prems" by (simp_all add: array_simps)
    note up = heap_but_up [OF "1.prems"(4) q(3) "1.prems"(3) q(4) get]
    have "mset (bset ?a ?q k) = mset (bset a c k)"
      using "1.prems" q by (intro bset_swap_update) auto
    moreover have "length (heap_hole_up ?a k ?q) = length ?a
        \<and> heap_from (bget (heap_hole_up ?a k ?q)) n 1
        \<and> mset (heap_hole_up ?a k ?q) = mset (bset ?a ?q k)
        \<and> drop n (heap_hole_up ?a k ?q) = drop n ?a"
      by (rule "1.IH" [OF refl]) (use False "1.prems" q up in \<open>auto simp: compar_sign\<close>)
    ultimately show ?thesis using False "1.prems"
      by (simp add: heap_hole_up.simps [of a k c] Let_def compar_sign drop_bset)
  qed
qed

lemma heap_root_max:
  "heap_from f n 1 \<Longrightarrow> 0 < i \<Longrightarrow> i \<le> n \<Longrightarrow> f i \<le> f 1"
proof (induction i rule: less_induct)
  case (less i)
  show ?case
  proof (cases "i = 1")
    case False
    then have "0 < i div 2" "i div 2 < i" using less.prems by auto
    then have "f i \<le> f (i div 2)" "f (i div 2) \<le> f 1"
      using less by (auto simp: heap_from_def)
    then show ?thesis by (rule order.trans)
  qed simp
qed

lemma heap_hole_down_frame:
  "heap_hole_down a n p = (a', h) \<Longrightarrow> 0 < p \<Longrightarrow> p \<le> n \<Longrightarrow> length a' = length a \<and> 0 < h \<and> h \<le> n"
proof (induction a n p rule: heap_hole_down.induct)
  case (1 a n p)
  show ?case
  proof (cases "p * 2 \<le> n")
    case True
    let ?c = "heap_larger_child a n (p * 2)"
    have "p < ?c" "?c \<le> n" using heap_larger_child(1-3) [of p n a] True "1.prems" by auto
    moreover have "heap_hole_down (bset a p (bget a ?c)) n ?c = (a', h)"
      using "1.prems" True by (simp add: heap_hole_down.simps [of a n p] Let_def)
    ultimately show ?thesis using "1.IH" [OF _ refl] "1.prems" True by simp
  next
    case False
    then show ?thesis using "1.prems" by (simp add: heap_hole_down.simps [of a n p])
  qed
qed

text \<open>One round of the \<open>while\<close> loop: the maximum of the first \<open>Suc n\<close> becomes element \<open>Suc n\<close>.\<close>

lemma heap_round:
  assumes "0 < n" "Suc n \<le> length a" "heap_from (bget a) (Suc n) 1"
    and hole: "heap_hole_down (bset a (Suc n) (bget a 1)) n 1 = (a', h)"
  defines "r \<equiv> heap_hole_up a' (bget a (Suc n)) h"
  shows "length r = length a \<and> heap_from (bget r) n 1 \<and> mset r = mset a
     \<and> drop n r = bget a 1 # drop (Suc n) a"
proof -
  let ?a = "bset a (Suc n) (bget a 1)" and ?k = "bget a (Suc n)"
  have get: "\<And>i. 0 < i \<Longrightarrow> i \<le> n \<Longrightarrow> bget ?a i = bget a i" using assms(2) by (simp add: array_simps)
  have "heap_but (bget ?a) n 1 1"
    unfolding heap_but_def
  proof (intro conjI allI impI; elim conjE)
    fix i :: nat assume i: "i \<le> n" "1 \<le> i div 2" "i \<noteq> 1" "i div 2 \<noteq> 1"
    then have "0 < i" "0 < i div 2" "i div 2 \<le> n" by auto
    then show "bget ?a i \<le> bget ?a (i div 2)" using get i assms(3) by (simp add: heap_from_def)
  qed simp
  then have d: "length a' = length a \<and> 0 < h \<and> h \<le> n \<and> n < h * 2 \<and> heap_but (bget a') n 1 h
      \<and> drop n a' = drop n ?a \<and> (\<forall>k. mset (bset a' h k) = mset (bset ?a 1 k))"
    using heap_hole_down [OF hole] assms(1,2) by simp
  have u: "length r = length a' \<and> heap_from (bget r) n 1 \<and> mset r = mset (bset a' h ?k)
      \<and> drop n r = drop n a'"
    unfolding r_def by (rule heap_hole_up) (use d assms(2) in auto)
  have "mset (bset ?a 1 ?k) = mset (bset a (Suc n) ?k)"
    using assms(2) by (intro bset_swap_update) auto
  moreover have "drop n ?a = bget a 1 # drop (Suc n) a"
  proof -
    have "drop n ?a = (drop n a)[0 := bget a 1]"
      using assms(2) by (simp add: bset_def drop_update_swap)
    also have "drop n a = a ! n # drop (Suc n) a"
      using assms(2) by (simp add: Cons_nth_drop_Suc)
    finally show ?thesis by simp
  qed
  ultimately show ?thesis using d u by (simp add: bset_bget)
qed

lemma heap_extract_sorts:
  assumes "n \<le> N" "N \<le> length a" "heap_from (bget a) n 1" "sorted (drop n (take N a))"
    and "\<forall>x\<in>set (take n a). \<forall>y\<in>set (drop n (take N a)). x \<le> y"
  shows "sorted (take N (heap_extract a n)) \<and> mset (heap_extract a n) = mset a
     \<and> drop N (heap_extract a n) = drop N a"
  using assms
proof (induction a n rule: heap_extract.induct)
  case (3 a m)
  let ?n = "Suc m" let ?k = "bget a (Suc ?n)"
  obtain a' h where hole: "heap_hole_down (bset a (Suc ?n) (bget a 1)) ?n 1 = (a', h)"
    by (cases "heap_hole_down (bset a (Suc ?n) (bget a 1)) ?n 1")
  define r where "r = heap_hole_up a' ?k h"
  have r: "length r = length a" "heap_from (bget r) ?n 1" "mset r = mset a"
      "drop ?n r = bget a 1 # drop (Suc ?n) a"
    using heap_round [of ?n a, OF _ _ "3.prems"(3) hole] "3.prems"(1,2) unfolding r_def by auto
  note IH = "3.IH" [of "Suc ?n" ?k "bset a (Suc ?n) (bget a 1)" ?n "(a', h)" a' h, folded r_def]
  have rec: "heap_extract a (Suc ?n) = heap_extract r ?n"
    using hole by (simp add: r_def)
  have tail: "drop ?n (take N r) = bget a 1 # drop (Suc ?n) (take N a)"
    using r(4) "3.prems"(1) Suc_diff_Suc [of ?n N] by (simp add: drop_take flip: Suc_diff_Suc)
  have lastN: "drop N r = drop N a"
  proof -
    have "drop N r = drop (N - ?n) (drop ?n r)" using "3.prems"(1) by simp
    moreover have "N - ?n = Suc (N - Suc ?n)" using "3.prems"(1) by simp
    moreover have "Suc (Suc (N - 2)) = N" using "3.prems"(1) by simp
    ultimately show ?thesis using r(4) "3.prems"(1) by simp
  qed
  have "mset (take ?n r) + mset (drop ?n r) = mset (take (Suc ?n) a) + mset (drop (Suc ?n) a)"
    using r(3) by (metis append_take_drop_id mset_append)
  then have "add_mset (bget a 1) (mset (take ?n r)) = mset (take (Suc ?n) a)"
    using r(4) by simp
  then have "insert (bget a 1) (set (take ?n r)) = set (take (Suc ?n) a)"
    by (metis set_mset_add_mset_insert set_mset_mset)
  then have front: "set (take ?n r) \<subseteq> set (take (Suc ?n) a)" by blast
  have root: "x \<le> bget a 1" if x: "x \<in> set (take (Suc ?n) a)" for x
  proof -
    obtain i where "i < length (take (Suc ?n) a)" "take (Suc ?n) a ! i = x"
      using x unfolding in_set_conv_nth by blast
    then have "i < Suc ?n" "x = bget a (Suc i)" by (auto simp: bget_def)
    then show ?thesis using heap_root_max [OF "3.prems"(3), of "Suc i"] by simp
  qed
  have "bget a 1 \<in> set (take (Suc ?n) a)"
    using "3.prems"(1,2) by (cases a) (auto simp: bget_def)
  then have "sorted (drop ?n (take N r))" "\<forall>x\<in>set (take ?n r). \<forall>y\<in>set (drop ?n (take N r)). x \<le> y"
    using "3.prems"(4,5) tail front root by auto
  then have "sorted (take N (heap_extract r ?n)) \<and> mset (heap_extract r ?n) = mset r
      \<and> drop N (heap_extract r ?n) = drop N r"
    by (intro IH) (use "3.prems" r hole in auto)
  then show ?case using rec r(3) lastN by simp
next
  case (2 a)
  have "take N a = take 1 a @ drop 1 (take N a)"
    using "2.prems"(1) by (metis One_nat_def append_take_drop_id min.absorb1 take_take)
  moreover have "sorted (take 1 a)" by (cases a) auto
  ultimately show ?case using "2.prems"(4,5)
    by (metis One_nat_def heap_extract.simps(2) sorted_append)
qed simp

lemma heap_sort_eq_sort_append:
  assumes "n \<le> length a"
  shows "heap_sort a n = sort (take n a) @ drop n a"
proof (cases "n \<le> 1")
  case True
  then have "sorted (take n a)" by (cases a; cases n) auto
  then show ?thesis using True by (simp add: heap_sort_def sorted_sort_id)
next
  case False
  let ?b = "heap_build a n" let ?r = "heap_extract ?b n"
  note b = heap_build_heap [OF assms]
  have *: "sorted (take n ?r)" "mset ?r = mset a" "drop n ?r = drop n a"
    using heap_extract_sorts [of n n ?b] b assms by auto
  have "mset (take n ?r) + mset (drop n a) = mset (take n a) + mset (drop n a)"
    using *(2,3) by (metis append_take_drop_id mset_append)
  then have "take n ?r = sort (take n a)" using *(1) by (simp add: properties_for_sort)
  then show ?thesis using *(3) False by (metis append_take_drop_id heap_sort_def)
qed

subsection \<open>The code on its 16-bit indices\<close>

text \<open>
  Below \<open>0x8000\<close> elements no index wraps: each loop of the code returns, and returns what the
  reference does.
\<close>

lemma u16_of_nat: "n < 0x10000 \<Longrightarrow> unat (of_nat n :: u16) = n"
  by (simp add: unat_of_nat)

lemma u16_of_nat_le: "m < 0x10000 \<Longrightarrow> n < 0x10000 \<Longrightarrow> (of_nat m :: u16) \<le> of_nat n \<longleftrightarrow> m \<le> n"
  by (simp add: word_le_nat_alt u16_of_nat)

lemma u16_of_nat_less: "m < 0x10000 \<Longrightarrow> n < 0x10000 \<Longrightarrow> (of_nat m :: u16) < of_nat n \<longleftrightarrow> m < n"
  by (simp add: word_less_nat_alt u16_of_nat)

lemma u16_double: "(of_nat n :: u16) * 2 = of_nat (n * 2)"
  by simp

lemma u16_half: "n < 0x10000 \<Longrightarrow> (of_nat n :: u16) div 2 = of_nat (n div 2)"
  by (simp add: word_unat_eq_iff unat_div u16_of_nat)

lemma base_at_of_nat: "0 < i \<Longrightarrow> i \<le> length a \<Longrightarrow> i < 0x10000 \<Longrightarrow> base_at a (of_nat i) = Some (bget a i)"
  by (simp add: base_at_def u16_of_nat word_less_nat_alt)

lemma base_put_of_nat: "0 < i \<Longrightarrow> i \<le> length a \<Longrightarrow> i < 0x10000 \<Longrightarrow> base_put a (of_nat i) v = Some (bset a i v)"
  by (simp add: base_put_def u16_of_nat word_less_nat_alt)

lemma larger_child_of_nat:
  assumes "n \<le> length a" "n < 0x8000" "0 < c" "c \<le> n"
  shows "larger_child a (of_nat n) (of_nat c) = Some (of_nat (heap_larger_child a n c))"
proof -
  have c1: "(of_nat c + 1 :: u16) = of_nat (c + 1)" by simp
  show ?thesis
    using assms
    by (auto simp: larger_child_def heap_larger_child_def u16_of_nat_less base_at_of_nat c1
        simp del: of_nat_add of_nat_Suc)
qed

lemma heapsort_build_sift_of_nat:
  "n \<le> length a \<Longrightarrow> n < 0x8000 \<Longrightarrow> 0 < p \<Longrightarrow> p \<le> n \<Longrightarrow>
     heapsort_build_sift a (of_nat n) (of_nat p) = Some (heap_sift a n p)"
proof (induction a n p rule: heap_sift.induct)
  case (1 a n p)
  let ?c = "heap_larger_child a n (p * 2)"
  show ?case
  proof (cases "p * 2 \<le> n")
    case True
    then have c: "p < ?c" "?c \<le> n" using heap_larger_child(1-3) [of p n a] "1.prems" by auto
    note rec = "1.IH" [OF _ refl]
    show ?thesis
      using True c "1.prems" rec
      by (simp add: heapsort_build_sift.simps [of a "of_nat n"] heap_sift.simps [of a n] u16_double
          u16_of_nat_le larger_child_of_nat base_at_of_nat base_put_of_nat Let_def del: of_nat_mult)
  next
    case False
    then show ?thesis using "1.prems"
      by (simp add: heapsort_build_sift.simps [of a "of_nat n"] heap_sift.simps [of a n] u16_double
          u16_of_nat_le del: of_nat_mult)
  qed
qed

lemma heapsort_build_of_nat:
  assumes "n < 0x8000" "m \<le> n"
  shows "n \<le> length a \<Longrightarrow> heapsort_build a (of_nat n) (of_nat (m + 1))
     = Some (fold (\<lambda>i a. heap_sift a n i) (rev [1..<m + 1]) a)"
  using assms(2)
proof (induction m arbitrary: a)
  case 0
  then show ?case by (simp add: heapsort_build.simps [of a])
next
  case (Suc m)
  have ne: "(of_nat (Suc m) :: u16) \<noteq> 0"
    using Suc.prems assms(1) by (simp add: word_unat_eq_iff u16_of_nat del: of_nat_Suc)
  have pred: "(of_nat (Suc m + 1) - 1 :: u16) = of_nat (Suc m)" by simp
  have rec: "heapsort_build (heap_sift a n (Suc m)) (of_nat n) (of_nat (m + 1))
      = Some (fold (\<lambda>i a. heap_sift a n i) (rev [1..<m + 1]) (heap_sift a n (Suc m)))"
    using Suc heap_sift_frame by simp
  have "heapsort_build_sift a (of_nat n) (of_nat (Suc m)) = Some (heap_sift a n (Suc m))"
    using Suc.prems assms(1) by (intro heapsort_build_sift_of_nat) simp_all
  then have "heapsort_build a (of_nat n) (of_nat (Suc m + 1))
      = heapsort_build (heap_sift a n (Suc m)) (of_nat n) (of_nat (Suc m))"
    by (subst heapsort_build.simps) (simp only: Let_def pred ne if_False bind.bind_lunit)
  then show ?case using rec by simp
qed

lemma heapsort_hole_down_of_nat:
  "n \<le> length a \<Longrightarrow> n < 0x8000 \<Longrightarrow> 0 < p \<Longrightarrow> p \<le> n \<Longrightarrow>
     heapsort_hole_down a (of_nat n) (of_nat p) = Some (map_prod id of_nat (heap_hole_down a n p))"
proof (induction a n p rule: heap_hole_down.induct)
  case (1 a n p)
  let ?c = "heap_larger_child a n (p * 2)"
  show ?case
  proof (cases "p * 2 \<le> n")
    case True
    then have c: "p < ?c" "?c \<le> n" using heap_larger_child(1-3) [of p n a] "1.prems" by auto
    note rec = "1.IH" [OF _ refl]
    show ?thesis
      using True c "1.prems" rec
      by (simp add: heapsort_hole_down.simps [of a "of_nat n"] heap_hole_down.simps [of a n] u16_double
          u16_of_nat_le larger_child_of_nat base_at_of_nat base_put_of_nat Let_def del: of_nat_mult)
  next
    case False
    then show ?thesis using "1.prems"
      by (simp add: heapsort_hole_down.simps [of a "of_nat n"] heap_hole_down.simps [of a n] u16_double
          u16_of_nat_le del: of_nat_mult)
  qed
qed

lemma heapsort_hole_up_of_nat:
  "0 < c \<Longrightarrow> c \<le> length a \<Longrightarrow> c < 0x8000 \<Longrightarrow>
     heapsort_hole_up a k (of_nat c) = Some (heap_hole_up a k c)"
proof (induction a k c rule: heap_hole_up.induct)
  case (1 a k c)
  have one: "(of_nat c :: u16) = 1 \<longleftrightarrow> c \<le> 1"
    using "1.prems" by (auto simp: word_unat_eq_iff u16_of_nat)
  note rec = "1.IH" [OF refl]
  show ?case
    using "1.prems" rec one
    by (auto simp: heapsort_hole_up.simps [of a k "of_nat c"] heap_hole_up.simps [of a k c] u16_half
        base_at_of_nat base_put_of_nat Let_def)
qed

lemma heapsort_extract_of_nat:
  "n \<le> length a \<Longrightarrow> n < 0x8000 \<Longrightarrow> heap_from (bget a) n 1 \<Longrightarrow>
     heapsort_extract a (of_nat n) = Some (heap_extract a n)"
proof (induction a n rule: heap_extract.induct)
  case (3 a m)
  let ?n = "Suc m" let ?k = "bget a (Suc ?n)"
  obtain a' h where hole: "heap_hole_down (bset a (Suc ?n) (bget a 1)) ?n 1 = (a', h)"
    by (cases "heap_hole_down (bset a (Suc ?n) (bget a 1)) ?n 1")
  define r where "r = heap_hole_up a' ?k h"
  have r: "length r = length a" "heap_from (bget r) ?n 1"
    using heap_round [of ?n a, OF _ _ "3.prems"(3) hole] "3.prems"(1) unfolding r_def by auto
  have h: "length a' = length a" "0 < h" "h \<le> ?n"
    using heap_hole_down_frame [OF hole] "3.prems"(1) by simp_all
  have "(of_nat (Suc ?n) - 1 :: u16) = of_nat ?n" by simp
  moreover have "(1 :: u16) < of_nat (Suc ?n)"
    using "3.prems"(2) u16_of_nat_less [of 1 "Suc ?n"] by simp
  moreover have "base_at a (1 :: u16) = Some (bget a 1)"
    using base_at_of_nat [of 1 a] "3.prems"(1) by simp
  moreover have "heapsort_hole_down (bset a (Suc ?n) (bget a 1)) (of_nat ?n) 1 = Some (a', of_nat h)"
    using heapsort_hole_down_of_nat [of ?n "bset a (Suc ?n) (bget a 1)" 1] "3.prems"(1,2) hole by simp
  moreover have "heapsort_hole_up a' ?k (of_nat h) = Some r"
    using heapsort_hole_up_of_nat [of h a' ?k] h "3.prems"(1,2) by (simp add: r_def)
  moreover have "heapsort_extract r (of_nat ?n) = Some (heap_extract r ?n)"
    using "3.IH" [of "Suc ?n" ?k "bset a (Suc ?n) (bget a 1)" ?n "(a', h)" a' h, folded r_def] r
      "3.prems"(1,2) hole by simp
  moreover have "heap_extract a (Suc ?n) = heap_extract r ?n"
    using hole by (simp add: r_def)
  ultimately show ?case
    using "3.prems"(1,2)
    by (simp add: heapsort_extract.simps [of a "of_nat (Suc ?n)"] base_at_of_nat base_put_of_nat
        del: of_nat_Suc heap_extract.simps)
qed (simp_all add: heapsort_extract.simps)

lemma heapsort_uint8_of_nat:
  assumes "n \<le> length a" "n < 0x8000"
  shows "heapsort_uint8 a (of_nat n) = Some (sort (take n a) @ drop n a)"
proof -
  have le: "(of_nat n :: u16) \<le> 1 \<longleftrightarrow> n \<le> 1"
    using assms u16_of_nat_le [of n 1] by simp
  have half: "(of_nat n div 2 + 1 :: u16) = of_nat (n div 2 + 1)"
    using assms u16_half [of n] by simp
  have "heapsort_build a (of_nat n) (of_nat (n div 2 + 1)) = Some (heap_build a n)"
    using heapsort_build_of_nat [of n "n div 2" a] assms by (simp add: heap_build_def)
  moreover have "heapsort_extract (heap_build a n) (of_nat n) = Some (heap_extract (heap_build a n) n)"
    using heapsort_extract_of_nat [of n "heap_build a n"] heap_build_heap [OF assms(1)] assms by simp
  ultimately have "heapsort_uint8 a (of_nat n) = Some (heap_sort a n)"
    by (simp add: heapsort_uint8_def heap_sort_def le half)
  then show ?thesis using heap_sort_eq_sort_append [OF assms(1)] by simp
qed

subsection \<open>What the sorts promise\<close>

text \<open>
  C27: \<open>heapsort_uint8(vbase, nmemb)\<close>, called with at most 32767 elements of an array, returns,
  stays inside the array, sorts its first \<open>nmemb\<close> bytes into ascending order and leaves every byte
  after them alone. (Beyond that bound the doubling of the \<open>uint16_t\<close> index wraps around.)
\<close>

theorem heapsort_uint8_sorts:
  assumes "unat nmemb \<le> length vbase" "nmemb < 0x8000"
  shows "heapsort_uint8 vbase nmemb
     = Some (sort (take (unat nmemb) vbase) @ drop (unat nmemb) vbase)"
  using heapsort_uint8_of_nat [of "unat nmemb" vbase] assms by (simp add: word_less_nat_alt)

theorem heapsort_uint8_sorts_witness:
  "heapsort_uint8 [9, 3, 7, 3, 200, 0, 1, 5] 7 = Some [0, 1, 3, 3, 7, 9, 200, 5]"
proof -
  have "unat (7 :: u16) \<le> length [9, 3, 7, 3, 200, 0, 1, 5 :: u8]" "(7 :: u16) < 0x8000" by simp_all
  from heapsort_uint8_sorts [OF this] show ?thesis by (simp add: word_le_def)
qed

text \<open>
  C28: \<open>insertionsort_uint8(base, nmemb)\<close> sorts the first \<open>nmemb\<close> bytes of its array and leaves the
  rest alone, and wherever the indices of \<open>heapsort_uint8\<close> do not wrap (at most 32767 elements) the
  two sorts of the file leave the same array.
\<close>

theorem insertionsort_uint8_sorts:
  assumes "nmemb \<le> length base"
  shows "insertionsort_uint8 base nmemb = sort (take nmemb base) @ drop nmemb base
     \<and> (nmemb < 0x8000 \<longrightarrow> heapsort_uint8 base (of_nat nmemb) = Some (insertionsort_uint8 base nmemb))"
  using insertionsort_uint8_eq_sort_append [OF assms] heapsort_uint8_of_nat [OF assms] by simp

theorem insertionsort_uint8_sorts_witness:
  "insertionsort_uint8 [0xFE, 0x15, 0x04, 0xFF] 3 = [0x04, 0x15, 0xFE, 0xFF]
     \<and> heapsort_uint8 [0xFE, 0x15, 0x04, 0xFF] 3 = Some [0x04, 0x15, 0xFE, 0xFF]"
proof -
  have "3 \<le> length [0xFE, 0x15, 0x04, 0xFF :: u8]" by simp
  from insertionsort_uint8_sorts [OF this] show ?thesis by (simp add: word_le_def)
qed

end
