(* ===== verification/Hardware.thy ===== *)
theory Hardware
  imports Prelude
begin

text \<open>
  The K84CS board (\<open>hardware/k84cs.h\<close>, \<open>hardware/k84cs.c\<close>): the sizes every other component is
  compiled with, the tables in program memory, and the decimal formatting for the display. Logical
  keys appear as their number in \<open>enum logical_keys\<close> and HID keys as their usage code.
\<close>

subsection \<open>Sizes\<close>

definition KEYPAD_LAYER_SIZE :: nat where "KEYPAD_LAYER_SIZE = 84"
definition NUM_LOGICAL_KEYS :: nat where "NUM_LOGICAL_KEYS = KEYPAD_LAYER_SIZE * 3"
definition MATRIX_COLS :: nat where "MATRIX_COLS = 6"
definition MATRIX_ROWS :: nat where "MATRIX_ROWS = 14"
definition SAVED_MAPPING_COUNT :: nat where "SAVED_MAPPING_COUNT = 255"
definition MACRO_INDEX_COUNT :: nat where "MACRO_INDEX_COUNT = 128"
definition MACROS_SIZE :: nat where "MACROS_SIZE = 3586"
definition PROGRAM_SIZE :: nat where "PROGRAM_SIZE = 1023"
definition PROGRAM_COUNT :: nat where "PROGRAM_COUNT = 6"
definition NUM_KEY_MAPPING_INDICES :: nat where "NUM_KEY_MAPPING_INDICES = 10"

subsection \<open>Special keys\<close>

definition SPECIAL_HID_KEYS_START :: hid_keycode where "SPECIAL_HID_KEYS_START = 0xE8"
definition SPECIAL_HID_KEY_MOUSE_BTN1 :: hid_keycode where "SPECIAL_HID_KEY_MOUSE_BTN1 = 0xE8"
definition SPECIAL_HID_KEY_MOUSE_BTN5 :: hid_keycode where "SPECIAL_HID_KEY_MOUSE_BTN5 = 0xEC"
definition SPECIAL_HID_KEY_MOUSE_FWD :: hid_keycode where "SPECIAL_HID_KEY_MOUSE_FWD = 0xED"
definition SPECIAL_HID_KEY_MOUSE_BACK :: hid_keycode where "SPECIAL_HID_KEY_MOUSE_BACK = 0xEE"
definition SPECIAL_HID_KEY_MOUSE_LEFT :: hid_keycode where "SPECIAL_HID_KEY_MOUSE_LEFT = 0xEF"
definition SPECIAL_HID_KEY_MOUSE_RIGHT :: hid_keycode where "SPECIAL_HID_KEY_MOUSE_RIGHT = 0xF0"
definition SPECIAL_HID_KEY_WHEEL_FWD :: hid_keycode where "SPECIAL_HID_KEY_WHEEL_FWD = 0xF1"
definition SPECIAL_HID_KEY_WHEEL_BACK :: hid_keycode where "SPECIAL_HID_KEY_WHEEL_BACK = 0xF2"
definition SPECIAL_HID_KEY_WHEEL_LEFT :: hid_keycode where "SPECIAL_HID_KEY_WHEEL_LEFT = 0xF3"
definition SPECIAL_HID_KEY_WHEEL_RIGHT :: hid_keycode where "SPECIAL_HID_KEY_WHEEL_RIGHT = 0xF4"
definition SPECIAL_HID_KEY_LAYER_LOCK :: hid_keycode where "SPECIAL_HID_KEY_LAYER_LOCK = 0xFA"
definition SPECIAL_HID_KEY_KEYPAD_SHIFT :: hid_keycode where "SPECIAL_HID_KEY_KEYPAD_SHIFT = 0xFB"
definition SPECIAL_HID_KEY_FUNCTION_SHIFT :: hid_keycode where "SPECIAL_HID_KEY_FUNCTION_SHIFT = 0xFC"
definition SPECIAL_HID_KEY_MACRO_SHIFT :: hid_keycode where "SPECIAL_HID_KEY_MACRO_SHIFT = 0xFD"
definition SPECIAL_HID_KEY_PROGRAM :: hid_keycode where "SPECIAL_HID_KEY_PROGRAM = 0xFE"

definition SPECIAL_HID_KEY_NOREMAP :: "hid_keycode \<Rightarrow> bool" where
  "SPECIAL_HID_KEY_NOREMAP k \<longleftrightarrow> k \<ge> SPECIAL_HID_KEY_LAYER_LOCK \<and> k \<noteq> NO_KEY"

subsection \<open>Tables\<close>

text \<open>The logical key at each position of the matrix, row by row.\<close>

definition matrix_to_logical_map :: "logical_keycode list list" where
  "matrix_to_logical_map =
    [[58, 57, 56, 70, 75, 71],
     [38, 27, 14, 9, 76, 72],
     [37, 25, 13, 29, 55, 73],
     [36, 12, 11, 10, 54, 74],
     [35, 30, 26, 31, 53, 2],
     [34, 24, 8, 33, 52, 4],
     [48, 49, 50, 51, 0, 6],
     [78, 82, 77, 67, 68, 69],
     [79, 83, 21, 15, 32, 39],
     [80, 66, 20, 17, 28, 40],
     [81, 65, 45, 18, 16, 41],
     [3, 64, 46, 19, 22, 42],
     [5, 63, 47, 44, 23, 43],
     [7, 1, 62, 61, 60, 59]]"

text \<open>The default mapping of logical keys to HID keys, one layer after the other.\<close>

definition normal_layer :: "hid_keycode list" where
  "normal_layer =
    [0xFE, 0xFA, 0xFB, 0xFB, 0xFD, 0xFD, 0xFC, 0xFC, 0x04, 0x05, 0x06, 0x07, 0x08, 0x09,
     0x0A, 0x0B, 0x0C, 0x0D, 0x0E, 0x0F, 0x10, 0x11, 0x12, 0x13, 0x14, 0x15, 0x16, 0x17,
     0x18, 0x19, 0x1A, 0x1B, 0x1C, 0x1D, 0x1E, 0x1F, 0x20, 0x21, 0x22, 0x23, 0x24, 0x25,
     0x26, 0x27, 0x33, 0x36, 0x37, 0x38, 0x2E, 0x2B, 0x29, 0x4C, 0x35, 0x64, 0x50, 0x4F,
     0x7F, 0x39, 0x46, 0x2D, 0x31, 0x34, 0x28, 0x30, 0x2F, 0x52, 0x51, 0x49, 0x65, 0x48,
     0xE0, 0xE2, 0x4A, 0x4D, 0xE3, 0xE1, 0x2A, 0xE4, 0xE6, 0x4B, 0x4E, 0xE7, 0xE5, 0x2C]"

definition keypad_layer :: "hid_keycode list" where
  "keypad_layer =
    [0xFE, 0xFA, 0xFB, 0xFB, 0xFD, 0xFD, 0xFC, 0xFC, 0xEF, 0xEA, 0x06, 0xEE, 0xF2, 0xF0,
     0xE9, 0x55, 0x60, 0x5C, 0x5D, 0x5E, 0x59, 0x62, 0x61, 0x56, 0xF3, 0xF4, 0xED, 0xE8,
     0x5F, 0x19, 0xF1, 0x1B, 0x54, 0x80, 0x3A, 0x3B, 0x3C, 0x3D, 0x3E, 0x3F, 0x40, 0x41,
     0x42, 0x43, 0x57, 0x5A, 0x5B, 0x58, 0x44, 0x2B, 0x29, 0x4C, 0x81, 0x64, 0x50, 0x4F,
     0xEC, 0xEB, 0x47, 0x45, 0xE8, 0xE9, 0xEA, 0x28, 0x63, 0x52, 0x51, 0x49, 0x65, 0x53,
     0xE0, 0xE2, 0x4A, 0x4D, 0xE3, 0xE1, 0x2A, 0xE4, 0xE6, 0x4B, 0x4E, 0xE7, 0xE5, 0x2C]"

definition function_layer :: "hid_keycode list" where
  "function_layer =
    [0xFE, 0xFA, 0xFB, 0xFB, 0xFD, 0xFD, 0xFC, 0xFC, 0xEF, 0xEA, 0x06, 0xEE, 0xF2, 0xF0,
     0xE9, 0x55, 0x60, 0x5C, 0x5D, 0x5E, 0x59, 0x62, 0x61, 0x56, 0xF3, 0xF4, 0xED, 0xE8,
     0x5F, 0x19, 0xF1, 0x1B, 0x54, 0x80, 0x3A, 0x3B, 0x3C, 0x3D, 0x3E, 0x3F, 0x40, 0x41,
     0x42, 0x43, 0x57, 0x5A, 0x5B, 0x58, 0x44, 0x2B, 0x29, 0x4C, 0x81, 0x64, 0x50, 0x4F,
     0xEC, 0xEB, 0x47, 0x45, 0xE8, 0xE9, 0xEA, 0x28, 0x63, 0x52, 0x51, 0x49, 0x65, 0x53,
     0xE0, 0xE2, 0x4A, 0x4D, 0xE3, 0xE1, 0x2A, 0xE4, 0xE6, 0x4B, 0x4E, 0xE7, 0xE5, 0x2C]"

definition logical_to_hid_map_default :: "hid_keycode list" where
  "logical_to_hid_map_default = normal_layer @ keypad_layer @ function_layer"

text \<open>The default macros: logical key and three events; the entry with \<open>NO_KEY\<close> ends the table.\<close>

type_synonym macro_def_info = "logical_keycode \<times> hid_keycode list"

definition fnLayer :: logical_keycode where
  "fnLayer = 2 * 84"

definition macro_def_infos :: "macro_def_info list" where
  "macro_def_infos =
    [(fnLayer + 48, [0xE3, 0x44, 0x44]), (fnLayer + 34, [0xE3, 0x3A, 0x3A]),
     (fnLayer + 35, [0xE3, 0x3B, 0x3B]), (fnLayer + 36, [0xE3, 0x3C, 0x3C]),
     (fnLayer + 37, [0xE3, 0x3D, 0x3D]), (fnLayer + 38, [0xE3, 0x3E, 0x3E]),
     (fnLayer + 39, [0xE7, 0x3F, 0x3F]), (fnLayer + 40, [0xE7, 0x40, 0x40]),
     (fnLayer + 41, [0xE7, 0x41, 0x41]), (fnLayer + 42, [0xE7, 0x42, 0x42]),
     (fnLayer + 43, [0xE7, 0x43, 0x43]), (fnLayer + 59, [0xE7, 0x45, 0x45]),
     (fnLayer + 49, [0xE2, 0x44, 0x44]), (fnLayer + 24, [0xE2, 0x3A, 0x3A]),
     (fnLayer + 30, [0xE2, 0x3B, 0x3B]), (fnLayer + 12, [0xE2, 0x3C, 0x3C]),
     (fnLayer + 25, [0xE2, 0x3D, 0x3D]), (fnLayer + 27, [0xE2, 0x3E, 0x3E]),
     (fnLayer + 32, [0xE6, 0x3F, 0x3F]), (fnLayer + 28, [0xE6, 0x40, 0x40]),
     (fnLayer + 16, [0xE6, 0x41, 0x41]), (fnLayer + 22, [0xE6, 0x42, 0x42]),
     (fnLayer + 23, [0xE6, 0x43, 0x43]), (fnLayer + 60, [0xE6, 0x45, 0x45]),
     (fnLayer + 50, [0xE1, 0x44, 0x44]), (fnLayer + 8, [0xE1, 0x3A, 0x3A]),
     (fnLayer + 26, [0xE1, 0x3B, 0x3B]), (fnLayer + 11, [0xE1, 0x3C, 0x3C]),
     (fnLayer + 13, [0xE1, 0x3D, 0x3D]), (fnLayer + 14, [0xE1, 0x3E, 0x3E]),
     (fnLayer + 15, [0xE5, 0x3F, 0x3F]), (fnLayer + 17, [0xE5, 0x40, 0x40]),
     (fnLayer + 18, [0xE5, 0x41, 0x41]), (fnLayer + 19, [0xE5, 0x42, 0x42]),
     (fnLayer + 44, [0xE5, 0x43, 0x43]), (fnLayer + 61, [0xE5, 0x45, 0x45]),
     (fnLayer + 51, [0xE0, 0x44, 0x44]), (fnLayer + 33, [0xE0, 0x3A, 0x3A]),
     (fnLayer + 31, [0xE0, 0x3B, 0x3B]), (fnLayer + 10, [0xE0, 0x3C, 0x3C]),
     (fnLayer + 29, [0xE0, 0x3D, 0x3D]), (fnLayer + 9, [0xE0, 0x3E, 0x3E]),
     (fnLayer + 21, [0xE4, 0x3F, 0x3F]), (fnLayer + 20, [0xE4, 0x40, 0x40]),
     (fnLayer + 45, [0xE4, 0x41, 0x41]), (fnLayer + 46, [0xE4, 0x42, 0x42]),
     (fnLayer + 47, [0xE4, 0x43, 0x43]), (fnLayer + 62, [0xE4, 0x45, 0x45]),
     (NO_KEY, [0, 0, 0])]"

subsection \<open>Decimal numbers on the display\<close>

text \<open>
  \<open>uitoa\<close>: the digits are written from the end of the buffer, so the string that is returned is
  the accumulated digits. The digits of a 16-bit number are at most five, the buffer's size.
\<close>

function uitoa_loop :: "nat \<Rightarrow> string \<Rightarrow> string" where
  "uitoa_loop x acc =
     (let acc = char_of (48 + x mod 10) # acc; x = x div 10
      in if x > 0 then uitoa_loop x acc else acc)"
  by pat_completeness auto
termination
  by (relation "measure fst") auto

declare uitoa_loop.simps [simp del]

definition uitoa :: "u16 \<Rightarrow> string" where
  "uitoa x = (if x = 0 then ''0'' else uitoa_loop (unat x) [])"

text \<open>\<open>get_lux_str\<close>: four characters, blank for a negative number, in thousands from 10000 on.\<close>

definition get_lux_str :: "u16 \<Rightarrow> string" where
  "get_lux_str l =
     (if sint l < 0 then ''    ''
      else if sint l \<le> 9999 then
        let raw_rv = uitoa l in replicate (4 - length raw_rv) CHR '' '' @ raw_rv
      else let raw_rv = uitoa (l div 100)
           in [raw_rv ! 0, raw_rv ! 1, CHR ''k'', raw_rv ! 2])"

subsection \<open>Properties\<close>

text \<open>The value of a string of decimal digits.\<close>

definition decimal :: "string \<Rightarrow> nat" where
  "decimal cs = foldl (\<lambda>v c. 10 * v + (of_char c - 48)) 0 cs"

lemma uitoa_loop_value:
  "foldl (\<lambda>v c. 10 * v + (of_char c - 48)) 0 (uitoa_loop x acc)
     = foldl (\<lambda>v c. 10 * v + (of_char c - 48)) x acc"
proof (induction x acc rule: uitoa_loop.induct)
  case (1 x acc)
  have digit: "of_char (char_of (48 + x mod 10) :: char) - 48 = (x mod 10 :: nat)"
  proof -
    have "48 + x mod 10 < 256" by (rule order.strict_trans2 [of _ 58]) auto
    then show ?thesis by simp
  qed
  show ?case
  proof (cases "x div 10 > 0")
    case True
    then show ?thesis using 1 [OF refl refl True] digit
      by (subst uitoa_loop.simps) (simp add: Let_def)
  next
    case False
    then show ?thesis using digit
      by (subst uitoa_loop.simps) (simp add: Let_def)
  qed
qed

lemma uitoa_loop_length:
  "x < 10 ^ Suc n \<Longrightarrow> length (uitoa_loop x acc) \<le> length acc + Suc n"
proof (induction n arbitrary: x acc)
  case 0
  then show ?case by (subst uitoa_loop.simps) (simp add: Let_def)
next
  case (Suc n)
  then have "x div 10 < 10 ^ Suc n" by (simp add: less_mult_imp_div_less algebra_simps)
  then show ?case using Suc.IH [of "x div 10" "char_of (48 + x mod 10) # acc"]
    by (subst uitoa_loop.simps) (auto simp: Let_def)
qed

text \<open>
  \<open>uitoa\<close> returns the decimal representation of its argument, and it fits the five digits of
  the static buffer.
\<close>

theorem uitoa_decimal: "decimal (uitoa x) = unat x \<and> length (uitoa x) \<le> 5"
proof (cases "x = 0")
  case False
  have "unat x < 10 ^ Suc 4" using unsigned_less [of x, where 'a = nat] by simp
  then show ?thesis
    using False uitoa_loop_length [of "unat x" 4 "[]"] uitoa_loop_value [of "unat x" "[]"]
    by (simp add: uitoa_def decimal_def)
qed (simp add: uitoa_def decimal_def)

text \<open>
  The tables of the board are consistent: every physical key has exactly one place in the
  matrix, every logical key has a default, and the keys that control layers and programming are
  the same on all three layers, so that a layer can always be left again.
\<close>

theorem k84cs_tables_consistent:
  "mset (concat matrix_to_logical_map) = mset (map of_nat [0..<KEYPAD_LAYER_SIZE])
   \<and> length matrix_to_logical_map = MATRIX_ROWS \<and> list_all (\<lambda>r. length r = MATRIX_COLS) matrix_to_logical_map
   \<and> length logical_to_hid_map_default = NUM_LOGICAL_KEYS
   \<and> NO_KEY \<notin> set logical_to_hid_map_default
   \<and> list_all (\<lambda>i. SPECIAL_HID_KEY_NOREMAP (logical_to_hid_map_default ! i) \<longleftrightarrow> i mod KEYPAD_LAYER_SIZE < 8)
       [0..<NUM_LOGICAL_KEYS]
   \<and> take 8 normal_layer = take 8 keypad_layer \<and> take 8 normal_layer = take 8 function_layer"
proof -
  have "sort (concat matrix_to_logical_map) = map of_nat [0..<KEYPAD_LAYER_SIZE]" by code_simp
  then have "mset (concat matrix_to_logical_map) = mset (map of_nat [0..<KEYPAD_LAYER_SIZE])"
    by (metis mset_sort)
  moreover have "length matrix_to_logical_map = MATRIX_ROWS"
      "list_all (\<lambda>r. length r = MATRIX_COLS) matrix_to_logical_map"
    by (code_simp, code_simp)
  moreover have "length logical_to_hid_map_default = NUM_LOGICAL_KEYS"
      "NO_KEY \<notin> set logical_to_hid_map_default"
    by (code_simp, code_simp)
  moreover have "list_all (\<lambda>i. SPECIAL_HID_KEY_NOREMAP (logical_to_hid_map_default ! i)
      \<longleftrightarrow> i mod KEYPAD_LAYER_SIZE < 8) [0..<NUM_LOGICAL_KEYS]"
    by code_simp
  moreover have "take 8 normal_layer = take 8 keypad_layer" "take 8 normal_layer = take 8 function_layer"
    by (code_simp, code_simp)
  ultimately show ?thesis by blast
qed

end
