(* ===== verification/Buzzer.thy ===== *)
theory Buzzer
  imports Prelude
begin

text \<open>
  \<open>buzzer.c\<close> on the XMEGA: the timer registers that make the tone and the remaining time. The
  record is the first link of the chain of records that holds the firmware's static variables;
  every operation works on any extension of it.
\<close>

datatype clksel = TC_CLKSEL_OFF | TC_CLKSEL_DIV64

record buzzer_state =
  buzzer_ms :: u16
  TCC1_CTRLA :: clksel
  TCC1_PER :: u16
  TCC1_CCA :: u16
  TCC1_CTRLB :: bool
  PORTC_PIN4_output :: bool

definition F_CPU :: u32 where
  "F_CPU = 32000000"

definition BUZZER_DEFAULT_TONE :: u8 where "BUZZER_DEFAULT_TONE = 110"
definition BUZZER_SUCCESS_TONE :: u8 where "BUZZER_SUCCESS_TONE = 90"
definition BUZZER_FAILURE_TONE :: u8 where "BUZZER_FAILURE_TONE = 220"
definition BUZZER_ON_TONE :: u8 where "BUZZER_ON_TONE = 150"
definition BUZZER_OFF_TONE :: u8 where "BUZZER_OFF_TONE = 75"

definition initHfPwm :: "'a buzzer_state_scheme \<Rightarrow> 'a buzzer_state_scheme" where
  "initHfPwm s = s\<lparr>PORTC_PIN4_output := True, TCC1_CTRLB := True\<rparr>"

definition hfPwmStart :: "'a buzzer_state_scheme \<Rightarrow> 'a buzzer_state_scheme" where
  "hfPwmStart s = s\<lparr>TCC1_CTRLA := TC_CLKSEL_DIV64\<rparr>"

definition hfPwmStop :: "'a buzzer_state_scheme \<Rightarrow> 'a buzzer_state_scheme" where
  "hfPwmStop s = s\<lparr>TCC1_CTRLA := TC_CLKSEL_OFF\<rparr>"

definition hfPwmSetDuty :: "u16 \<Rightarrow> 'a buzzer_state_scheme \<Rightarrow> 'a buzzer_state_scheme" where
  "hfPwmSetDuty duty s = s\<lparr>TCC1_CCA := duty\<rparr>"

text \<open>
  \<open>period = F_CPU/2/64/freq\<close> in 32 bits, stored into 16-bit registers. \<open>freq = 0\<close> is a division
  by zero in C; the only caller that can pass it is the VM, whose model stops there.
\<close>

definition hfPwmSetPeriod :: "u32 \<Rightarrow> 'a buzzer_state_scheme \<Rightarrow> 'a buzzer_state_scheme" where
  "hfPwmSetPeriod freq s =
     (let period = F_CPU div 2 div 64 div freq
      in hfPwmSetDuty (ucast (period div 2)) (s\<lparr>TCC1_PER := ucast period\<rparr>))"

definition buzzer_init :: "'a buzzer_state_scheme \<Rightarrow> 'a buzzer_state_scheme" where
  "buzzer_init s = initHfPwm s"

definition buzzer_start_f :: "u16 \<Rightarrow> u8 \<Rightarrow> 'a buzzer_state_scheme \<Rightarrow> 'a buzzer_state_scheme" where
  "buzzer_start_f ms freq s = hfPwmStart (hfPwmSetPeriod (ucast freq) (s\<lparr>buzzer_ms := ms\<rparr>))"

definition buzzer_start :: "u16 \<Rightarrow> 'a buzzer_state_scheme \<Rightarrow> 'a buzzer_state_scheme" where
  "buzzer_start ms s = buzzer_start_f ms BUZZER_DEFAULT_TONE s"

definition buzzer_update :: "u8 \<Rightarrow> 'a buzzer_state_scheme \<Rightarrow> 'a buzzer_state_scheme" where
  "buzzer_update increment s =
     (if buzzer_ms s \<noteq> 0 then
        let ms = (if ucast increment \<ge> buzzer_ms s then 0 else buzzer_ms s - ucast increment);
            s = s\<lparr>buzzer_ms := ms\<rparr>
        in if ms = 0 then hfPwmStop s else s
      else s)"

text \<open>The state at reset: every static variable and register is zero.\<close>

definition buzzer_reset :: buzzer_state where
  "buzzer_reset = \<lparr>buzzer_ms = 0, TCC1_CTRLA = TC_CLKSEL_OFF, TCC1_PER = 0, TCC1_CCA = 0,
     TCC1_CTRLB = False, PORTC_PIN4_output = False\<rparr>"

lemmas buzzer_defs = buzzer_init_def buzzer_start_f_def buzzer_start_def initHfPwm_def
  hfPwmStart_def hfPwmStop_def hfPwmSetDuty_def hfPwmSetPeriod_def

subsection \<open>The tone ends\<close>

text \<open>The time left after one tick, as a number: it never wraps below zero.\<close>

lemma buzzer_update_ms: "unat (buzzer_ms (buzzer_update i s)) = unat (buzzer_ms s) - unat i"
  by (auto simp: buzzer_update_def Let_def hfPwmStop_def word_le_nat_alt unat_sub not_le)

lemma buzzer_update_clock:
  "TCC1_CTRLA (buzzer_update i s)
     = (if buzzer_ms s \<noteq> 0 \<and> unat (buzzer_ms s) \<le> unat i then TC_CLKSEL_OFF else TCC1_CTRLA s)"
proof -
  have "(buzzer_ms s - ucast i = 0) = (unat (buzzer_ms s) = unat i)"
    by (metis right_minus_eq unat_ucast_8_16 word_unat_eq_iff)
  then show ?thesis
    by (auto simp: buzzer_update_def Let_def hfPwmStop_def word_le_nat_alt)
qed

lemma buzzer_update_run:
  "unat (buzzer_ms (fold buzzer_update ticks s)) = unat (buzzer_ms s) - sum_list (map unat ticks)
   \<and> TCC1_CTRLA (fold buzzer_update ticks s)
     = (if buzzer_ms s \<noteq> 0 \<and> unat (buzzer_ms s) \<le> sum_list (map unat ticks) then TC_CLKSEL_OFF
        else TCC1_CTRLA s)"
proof (induction ticks arbitrary: s)
  case (Cons i ticks)
  have "buzzer_ms (buzzer_update i s) \<noteq> 0 \<longleftrightarrow> unat i < unat (buzzer_ms s)"
    by (simp add: buzzer_update_ms unat_pos_iff [symmetric])
  moreover have "buzzer_ms s \<noteq> 0 \<longleftrightarrow> 0 < unat (buzzer_ms s)" by (simp add: unat_gt_0)
  ultimately show ?case
    using Cons.IH [of "buzzer_update i s"]
    by (auto simp: buzzer_update_ms buzzer_update_clock)
qed (auto simp: word_unat_eq_iff)

text \<open>
  A tone lasts as long as it was asked for: after any run of timer ticks the clock of the PWM is
  still on exactly when the ticks have not yet added up to the \<open>ms\<close> of \<open>buzzer_start_f\<close>, and the
  16-bit countdown never wraps.
\<close>

theorem buzzer_tone_lasts:
  assumes "0 < ms"
  shows "let s' = fold buzzer_update ticks (buzzer_start_f ms freq s)
    in unat (buzzer_ms s') = unat ms - sum_list (map unat ticks)
     \<and> (TCC1_CTRLA s' = TC_CLKSEL_DIV64 \<longleftrightarrow> sum_list (map unat ticks) < unat ms)"
proof -
  have "buzzer_ms (buzzer_start_f ms freq s) = ms" "TCC1_CTRLA (buzzer_start_f ms freq s) = TC_CLKSEL_DIV64"
    by (simp_all add: buzzer_defs Let_def)
  then show ?thesis using assms buzzer_update_run [of ticks "buzzer_start_f ms freq s"]
    by (auto simp: Let_def)
qed

theorem buzzer_tone_lasts_witness:
  "let s = buzzer_reset
   in TCC1_CTRLA (fold buzzer_update [100, 99] (buzzer_start_f 200 BUZZER_FAILURE_TONE s)) = TC_CLKSEL_DIV64
    \<and> TCC1_CTRLA (fold buzzer_update [100, 100] (buzzer_start_f 200 BUZZER_FAILURE_TONE s)) \<noteq> TC_CLKSEL_DIV64"
proof -
  have "0 < (200 :: u16)" by simp
  note * = buzzer_tone_lasts [OF this]
  show ?thesis
    using * [of "[100, 99]" BUZZER_FAILURE_TONE buzzer_reset]
      * [of "[100, 100]" BUZZER_FAILURE_TONE buzzer_reset] by (simp add: Let_def)
qed

end
