(* ===== verification/ExtraReport.thy ===== *)
theory ExtraReport
  imports Prelude
begin

text \<open>
  \<open>extrareport.c\<close>: the set of keys pressed by programs, macros playing back and the VM's system
  calls, kept as a modifier byte and six unsorted slots, and its merging into the keyboard's USB
  report. The report is shown to be a set of at most six keys (\<open>virtual_keys\<close> is its contract,
  interpreted on the operations below), and the merge is characterised exactly.
\<close>

subsection \<open>Data\<close>

definition HID_KEYBOARD_SC_LEFT_CONTROL :: u8 where
  "HID_KEYBOARD_SC_LEFT_CONTROL = 0xE0"

definition EXTRA_REPORT_KEY_COUNT :: nat where
  "EXTRA_REPORT_KEY_COUNT = 6"

definition KEYBOARDREPORT_KEY_COUNT :: nat where
  "KEYBOARDREPORT_KEY_COUNT = 6"

record ExtraKeyboardReport =
  extra_modifiers :: u8
  extra_keys :: "hid_keycode list"

record KeyboardReport_Data =
  Modifier :: u8
  Reserved :: u8
  KeyCode :: "u8 list"

text \<open>
  \<open>1 << (key - HID_KEYBOARD_SC_LEFT_CONTROL)\<close> as it reaches the 8-bit field: nothing for the
  codes above \<open>0xE7\<close>, whose bit is outside the byte. The shift is one of a 16-bit \<open>int\<close>: for the codes
  from \<open>0xF0\<close> on C leaves it undefined, and the model has what the compiled loop of single shifts of the
  AVR gives, all bits shifted out. Recording never stores such a code (\<open>macro_record_hook\<close> skips the
  special keys); only macro data or programs written by the host can contain one.
\<close>

definition modifier_bit :: "hid_keycode \<Rightarrow> u8" where
  "modifier_bit key = push_bit (unat (key - HID_KEYBOARD_SC_LEFT_CONTROL)) 1"

subsection \<open>Operations\<close>

definition ExtraKeyboardReport_clear :: ExtraKeyboardReport where
  "ExtraKeyboardReport_clear = \<lparr>extra_modifiers = 0, extra_keys = replicate EXTRA_REPORT_KEY_COUNT NO_KEY\<rparr>"

text \<open>
  The loop that \<open>add\<close> and \<open>toggle\<close> share, from the last slot down: \<open>Inl i\<close> when slot \<open>i\<close> holds the
  key, otherwise \<open>Inr free\<close> with the lowest free slot, if any.
\<close>

fun find_slot :: "hid_keycode list \<Rightarrow> hid_keycode \<Rightarrow> nat \<Rightarrow> nat option \<Rightarrow> nat + nat option" where
  "find_slot ks key 0 free = Inr free"
| "find_slot ks key (Suc i) free =
     (if ks ! i = key then Inl i
      else find_slot ks key i (if ks ! i = NO_KEY then Some i else free))"

definition ExtraKeyboardReport_add :: "ExtraKeyboardReport \<Rightarrow> hid_keycode \<Rightarrow> ExtraKeyboardReport" where
  "ExtraKeyboardReport_add r key =
     (if HID_KEYBOARD_SC_LEFT_CONTROL \<le> key
      then r\<lparr>extra_modifiers := extra_modifiers r OR modifier_bit key\<rparr>
      else case find_slot (extra_keys r) key EXTRA_REPORT_KEY_COUNT None of
          Inl i \<Rightarrow> r
        | Inr None \<Rightarrow> r
        | Inr (Some free) \<Rightarrow> r\<lparr>extra_keys := (extra_keys r)[free := key]\<rparr>)"

fun remove_slot :: "hid_keycode list \<Rightarrow> hid_keycode \<Rightarrow> hid_keycode list" where
  "remove_slot [] key = []"
| "remove_slot (k # ks) key = (if k = key then NO_KEY # ks else k # remove_slot ks key)"

definition ExtraKeyboardReport_remove :: "ExtraKeyboardReport \<Rightarrow> hid_keycode \<Rightarrow> ExtraKeyboardReport" where
  "ExtraKeyboardReport_remove r key =
     (if HID_KEYBOARD_SC_LEFT_CONTROL \<le> key
      then r\<lparr>extra_modifiers := extra_modifiers r AND NOT (modifier_bit key)\<rparr>
      else r\<lparr>extra_keys := remove_slot (extra_keys r) key\<rparr>)"

definition ExtraKeyboardReport_toggle :: "ExtraKeyboardReport \<Rightarrow> hid_keycode \<Rightarrow> ExtraKeyboardReport" where
  "ExtraKeyboardReport_toggle r key =
     (if HID_KEYBOARD_SC_LEFT_CONTROL \<le> key
      then r\<lparr>extra_modifiers := extra_modifiers r XOR modifier_bit key\<rparr>
      else case find_slot (extra_keys r) key EXTRA_REPORT_KEY_COUNT None of
          Inl i \<Rightarrow> r\<lparr>extra_keys := (extra_keys r)[i := NO_KEY]\<rparr>
        | Inr None \<Rightarrow> r
        | Inr (Some free) \<Rightarrow> r\<lparr>extra_keys := (extra_keys r)[free := key]\<rparr>)"

text \<open>
  The merge: \<open>report_start\<close> is the first free slot of the report, and the loop copies the extra
  keys that are pressed and not among the \<open>report_start\<close> keys already there.
\<close>

fun append_keys :: "hid_keycode list \<Rightarrow> nat \<Rightarrow> nat \<Rightarrow> u8 list \<Rightarrow> u8 list" where
  "append_keys [] report_start report_next codes = codes"
| "append_keys (keycode # ks) report_start report_next codes =
     (if report_next < KEYBOARDREPORT_KEY_COUNT then
        if keycode = NO_KEY \<or> keycode \<in> set (take report_start codes)
        then append_keys ks report_start report_next codes
        else append_keys ks report_start (report_next + 1) (codes[report_next := keycode])
      else codes)"

definition ExtraKeyboardReport_append ::
    "ExtraKeyboardReport \<Rightarrow> KeyboardReport_Data \<Rightarrow> KeyboardReport_Data" where
  "ExtraKeyboardReport_append extra report =
     (let report_start = length (takeWhile (\<lambda>c. c \<noteq> 0) (take KEYBOARDREPORT_KEY_COUNT (KeyCode report)))
      in report\<lparr>Modifier := Modifier report OR extra_modifiers extra,
                KeyCode := append_keys (extra_keys extra) report_start report_start (KeyCode report)\<rparr>)"

lemmas ExtraKeyboardReport_defs = ExtraKeyboardReport_clear_def ExtraKeyboardReport_add_def
  ExtraKeyboardReport_remove_def ExtraKeyboardReport_toggle_def EXTRA_REPORT_KEY_COUNT_def

subsection \<open>The slots as a set of keys\<close>

text \<open>
  The keys a report holds down, ordinary and modifier keys alike, and the invariant: six slots,
  and no key in two of them.
\<close>

definition extra_pressed :: "ExtraKeyboardReport \<Rightarrow> hid_keycode set" where
  "extra_pressed r = {k \<in> set (extra_keys r). k \<noteq> NO_KEY}
     \<union> {k. HID_KEYBOARD_SC_LEFT_CONTROL \<le> k \<and> extra_modifiers r AND modifier_bit k \<noteq> 0}"

definition extra_wf :: "ExtraKeyboardReport \<Rightarrow> bool" where
  "extra_wf r \<longleftrightarrow> length (extra_keys r) = EXTRA_REPORT_KEY_COUNT
     \<and> distinct (filter (\<lambda>k. k \<noteq> NO_KEY) (extra_keys r))
     \<and> (\<forall>k\<in>set (extra_keys r). k \<noteq> NO_KEY \<longrightarrow> k < HID_KEYBOARD_SC_LEFT_CONTROL)"

text \<open>A key can be pressed when it is one of the eight modifiers, is down already, or a slot is free.\<close>

definition extra_room :: "ExtraKeyboardReport \<Rightarrow> hid_keycode \<Rightarrow> bool" where
  "extra_room r key \<longleftrightarrow> (if HID_KEYBOARD_SC_LEFT_CONTROL \<le> key then key < 0xE8
     else key \<in> set (extra_keys r) \<or> NO_KEY \<in> set (extra_keys r))"

lemma find_slot_cases:
  assumes "n \<le> length ks"
  shows "case find_slot ks key n free of
      Inl i \<Rightarrow> i < n \<and> ks ! i = key
    | Inr None \<Rightarrow> key \<notin> set (take n ks) \<and> NO_KEY \<notin> set (take n ks) \<and> free = None
    | Inr (Some i) \<Rightarrow> key \<notin> set (take n ks) \<and>
        (i < n \<and> ks ! i = NO_KEY \<or> NO_KEY \<notin> set (take n ks) \<and> free = Some i)"
  using assms
proof (induction ks key n free rule: find_slot.induct)
  case (2 ks key n free)
  have take: "set (take (Suc n) ks) = insert (ks ! n) (set (take n ks))"
    using "2.prems" by (simp add: take_Suc_conv_app_nth)
  show ?case
  proof (cases "ks ! n = key")
    case False
    then show ?thesis using "2.IH" "2.prems" take
      by (auto split: sum.splits option.splits if_splits)
  qed simp
qed (simp split: option.splits)

lemma find_slot_all:
  assumes "length ks = n"
  shows "find_slot ks key n None = Inl i \<Longrightarrow> i < n \<and> ks ! i = key"
    and "find_slot ks key n None = Inr None \<Longrightarrow> key \<notin> set ks \<and> NO_KEY \<notin> set ks"
    and "find_slot ks key n None = Inr (Some i) \<Longrightarrow> key \<notin> set ks \<and> i < n \<and> ks ! i = NO_KEY"
  using find_slot_cases [of n ks key None] assms by auto

lemma distinct_filter_insert:
  assumes "distinct (filter P xs)" "\<not> P (xs ! i)" "i < length xs" "v \<notin> set xs"
  shows "distinct (filter P (xs[i := v]))"
proof -
  have "xs = take i xs @ xs ! i # drop (Suc i) xs" using assms(3) by (rule id_take_nth_drop)
  then have "filter P xs = filter P (take i xs) @ filter P (drop (Suc i) xs)"
    using assms(2) by (metis filter.simps(2) filter_append)
  moreover have "filter P (xs[i := v])
      = filter P (take i xs) @ (if P v then [v] else []) @ filter P (drop (Suc i) xs)"
    using assms(3) by (simp add: upd_conv_take_nth_drop)
  moreover have "v \<notin> set (take i xs)" "v \<notin> set (drop (Suc i) xs)"
    using assms(4) by (auto dest: in_set_takeD in_set_dropD)
  ultimately show ?thesis using assms(1) by auto
qed

lemma set_update_fresh:
  assumes "i < length xs" "xs ! i = c"
  shows "{k \<in> set (xs[i := v]). k \<noteq> c} = {k \<in> set xs. k \<noteq> c} \<union> ({v} - {c})"
proof -
  have xs: "xs = take i xs @ c # drop (Suc i) xs" using id_take_nth_drop assms by metis
  have "set (xs[i := v]) = set (take i xs) \<union> {v} \<union> set (drop (Suc i) xs)"
    using assms(1) by (simp add: upd_conv_take_nth_drop Un_insert_left Un_commute)
  moreover have "set xs = set (take i xs) \<union> {c} \<union> set (drop (Suc i) xs)"
    by (subst xs) auto
  ultimately show ?thesis by auto
qed

lemma modifier_bit_and: "m AND modifier_bit k = 0 \<longleftrightarrow> \<not> bit m (unat (k - HID_KEYBOARD_SC_LEFT_CONTROL))"
  by (simp add: modifier_bit_def and_exp_eq_0_iff_not_bit push_bit_eq_mult)

lemma bit_modifier_bit:
  "bit (modifier_bit k) n \<longleftrightarrow> n = unat (k - HID_KEYBOARD_SC_LEFT_CONTROL) \<and> n < 8"
  by (auto simp: modifier_bit_def push_bit_eq_mult bit_exp_iff)

lemma modifier_index_eq:
  "unat (j - HID_KEYBOARD_SC_LEFT_CONTROL) = unat (k - HID_KEYBOARD_SC_LEFT_CONTROL) \<longleftrightarrow> j = k"
  by (simp add: word_unat_eq_iff [symmetric])

lemma modifier_index_small:
  "HID_KEYBOARD_SC_LEFT_CONTROL \<le> k \<Longrightarrow> unat (k - HID_KEYBOARD_SC_LEFT_CONTROL) < 8 \<longleftrightarrow> k < 0xE8"
  by (auto simp: HID_KEYBOARD_SC_LEFT_CONTROL_def word_less_nat_alt word_le_nat_alt unat_sub)

lemma NO_KEY_not_ordinary: "\<not> NO_KEY < HID_KEYBOARD_SC_LEFT_CONTROL"
  by (simp add: NO_KEY_def HID_KEYBOARD_SC_LEFT_CONTROL_def)

lemma extra_pressed_ordinary:
  "k < HID_KEYBOARD_SC_LEFT_CONTROL \<Longrightarrow> k \<in> extra_pressed r \<longleftrightarrow> k \<in> set (extra_keys r)"
  using NO_KEY_not_ordinary by (auto simp: extra_pressed_def)

lemma extra_pressed_modifier:
  "extra_wf r \<Longrightarrow> \<not> k < HID_KEYBOARD_SC_LEFT_CONTROL \<Longrightarrow>
     k \<in> extra_pressed r \<longleftrightarrow> bit (extra_modifiers r) (unat (k - HID_KEYBOARD_SC_LEFT_CONTROL))"
  by (auto simp: extra_pressed_def extra_wf_def modifier_bit_and)

lemma remove_slot_length [simp]: "length (remove_slot ks key) = length ks"
  by (induction ks key rule: remove_slot.induct) auto

lemma remove_slot_facts:
  assumes "distinct (filter (\<lambda>k. k \<noteq> NO_KEY) ks)" "key \<noteq> NO_KEY"
  shows "filter (\<lambda>k. k \<noteq> NO_KEY) (remove_slot ks key) = removeAll key (filter (\<lambda>k. k \<noteq> NO_KEY) ks)"
  using assms
proof (induction ks key rule: remove_slot.induct)
  case (2 k ks key)
  then show ?case by (cases "k = key") (auto simp: removeAll_id)
qed simp

lemma set_filter_pressed:
  "{k \<in> set ks. k \<noteq> NO_KEY} = set (filter (\<lambda>k. k \<noteq> NO_KEY) ks)"
  by auto

subsection \<open>The contract\<close>

text \<open>
  What the rest of the firmware relies on: a set of keys, of which a key can be added while there is
  room for it. \<open>room\<close> says when a press takes effect; without room a press is ignored.
\<close>

locale virtual_keys =
  fixes wf :: "'r \<Rightarrow> bool"
    and pressed :: "'r \<Rightarrow> 'k set"
    and room :: "'r \<Rightarrow> 'k \<Rightarrow> bool"
    and clear :: 'r
    and add :: "'r \<Rightarrow> 'k \<Rightarrow> 'r"
    and remove :: "'r \<Rightarrow> 'k \<Rightarrow> 'r"
    and toggle :: "'r \<Rightarrow> 'k \<Rightarrow> 'r"
  assumes clear_wf: "wf clear"
    and clear_pressed: "pressed clear = {}"
    and add_wf: "wf r \<Longrightarrow> wf (add r k)"
    and add_pressed: "wf r \<Longrightarrow> room r k \<Longrightarrow> pressed (add r k) = insert k (pressed r)"
    and add_full: "wf r \<Longrightarrow> \<not> room r k \<Longrightarrow> add r k = r"
    and remove_wf: "wf r \<Longrightarrow> wf (remove r k)"
    and remove_pressed: "wf r \<Longrightarrow> pressed (remove r k) = pressed r - {k}"
    and toggle_wf: "wf r \<Longrightarrow> wf (toggle r k)"
    and toggle_on: "wf r \<Longrightarrow> room r k \<Longrightarrow> k \<notin> pressed r \<Longrightarrow> pressed (toggle r k) = insert k (pressed r)"
    and toggle_off: "wf r \<Longrightarrow> k \<in> pressed r \<Longrightarrow> pressed (toggle r k) = pressed r - {k}"
    and pressed_room: "wf r \<Longrightarrow> k \<in> pressed r \<Longrightarrow> room r k"
begin

lemma press_release:
  assumes "wf r" "k \<notin> pressed r"
  shows "pressed (remove (add r k) k) = pressed r"
proof (cases "room r k")
  case True
  then show ?thesis using assms by (simp add: add_wf add_pressed remove_pressed)
next
  case False
  then show ?thesis using assms by (simp add: add_full remove_pressed)
qed

lemma release_all:
  "wf r \<Longrightarrow> wf (fold (\<lambda>k r. remove r k) ks r) \<and> pressed (fold (\<lambda>k r. remove r k) ks r) = pressed r - set ks"
  by (induction ks arbitrary: r) (auto simp: remove_wf remove_pressed)

lemma press_all_bounds:
  "wf r \<Longrightarrow> wf (fold (\<lambda>k r. add r k) ks r) \<and> pressed r \<subseteq> pressed (fold (\<lambda>k r. add r k) ks r)
     \<and> pressed (fold (\<lambda>k r. add r k) ks r) \<subseteq> pressed r \<union> set ks"
proof (induction ks arbitrary: r)
  case (Cons k ks)
  have "pressed r \<subseteq> pressed (add r k)" "pressed (add r k) \<subseteq> insert k (pressed r)"
    using Cons.prems by (cases "room r k"; auto simp: add_pressed add_full)+
  then show ?case using Cons.IH [of "add r k"] Cons.prems add_wf by fastforce
qed simp

lemma toggle_effect:
  assumes "wf r" "room r k"
  shows "pressed (toggle r k) = (if k \<in> pressed r then pressed r - {k} else insert k (pressed r))"
  using assms by (simp add: toggle_on toggle_off)

end

text \<open>The laws for the six-slot report.\<close>

lemma extra_wf_free:
  "extra_wf r \<Longrightarrow> k < HID_KEYBOARD_SC_LEFT_CONTROL \<Longrightarrow> k \<notin> set (extra_keys r) \<Longrightarrow>
   i < EXTRA_REPORT_KEY_COUNT \<Longrightarrow> extra_keys r ! i = NO_KEY \<Longrightarrow>
   extra_wf (r\<lparr>extra_keys := (extra_keys r)[i := k]\<rparr>)"
  by (auto simp: extra_wf_def intro!: distinct_filter_insert dest: set_update_subset_insert [THEN subsetD])

lemma extra_pressed_set_key:
  "extra_wf r \<Longrightarrow> k < HID_KEYBOARD_SC_LEFT_CONTROL \<Longrightarrow>
   i < EXTRA_REPORT_KEY_COUNT \<Longrightarrow> extra_keys r ! i = NO_KEY \<Longrightarrow>
   extra_pressed (r\<lparr>extra_keys := (extra_keys r)[i := k]\<rparr>) = insert k (extra_pressed r)"
  using NO_KEY_not_ordinary by (auto simp: extra_pressed_def set_update_fresh extra_wf_def)

lemma extra_set_modifiers:
  assumes "extra_wf r"
  shows "extra_wf (r\<lparr>extra_modifiers := m\<rparr>)"
    and "\<And>k. k < HID_KEYBOARD_SC_LEFT_CONTROL \<Longrightarrow>
      k \<in> extra_pressed (r\<lparr>extra_modifiers := m\<rparr>) \<longleftrightarrow> k \<in> extra_pressed r"
    and "\<And>k. \<not> k < HID_KEYBOARD_SC_LEFT_CONTROL \<Longrightarrow>
      k \<in> extra_pressed (r\<lparr>extra_modifiers := m\<rparr>) \<longleftrightarrow> bit m (unat (k - HID_KEYBOARD_SC_LEFT_CONTROL))"
proof -
  show "extra_wf (r\<lparr>extra_modifiers := m\<rparr>)" using assms by (simp add: extra_wf_def)
  then show "\<And>k. \<not> k < HID_KEYBOARD_SC_LEFT_CONTROL \<Longrightarrow>
      k \<in> extra_pressed (r\<lparr>extra_modifiers := m\<rparr>) \<longleftrightarrow> bit m (unat (k - HID_KEYBOARD_SC_LEFT_CONTROL))"
    by (simp add: extra_pressed_modifier)
qed (simp add: extra_pressed_ordinary)

lemma modifier_bit_none: "\<not> k < 0xE8 \<Longrightarrow> HID_KEYBOARD_SC_LEFT_CONTROL \<le> k \<Longrightarrow> modifier_bit k = 0"
  using modifier_index_small [of k] by (intro bit_word_eqI) (simp add: bit_modifier_bit)

lemma extra_remove_ordinary:
  assumes "extra_wf r" "k < HID_KEYBOARD_SC_LEFT_CONTROL"
  shows "extra_wf (r\<lparr>extra_keys := remove_slot (extra_keys r) k\<rparr>)"
    and "extra_pressed (r\<lparr>extra_keys := remove_slot (extra_keys r) k\<rparr>) = extra_pressed r - {k}"
proof -
  have ne: "k \<noteq> NO_KEY" using assms NO_KEY_not_ordinary by auto
  then have f: "filter (\<lambda>k. k \<noteq> NO_KEY) (remove_slot (extra_keys r) k)
      = removeAll k (filter (\<lambda>k. k \<noteq> NO_KEY) (extra_keys r))"
    using assms by (intro remove_slot_facts) (simp_all add: extra_wf_def)
  then have s: "{j \<in> set (remove_slot (extra_keys r) k). j \<noteq> NO_KEY} = {j \<in> set (extra_keys r). j \<noteq> NO_KEY} - {k}"
    by (simp only: set_filter_pressed set_removeAll)
  have "{j. HID_KEYBOARD_SC_LEFT_CONTROL \<le> j \<and> extra_modifiers r AND modifier_bit j \<noteq> 0} - {k}
      = {j. HID_KEYBOARD_SC_LEFT_CONTROL \<le> j \<and> extra_modifiers r AND modifier_bit j \<noteq> 0}"
    using assms(2) leD by blast
  then show "extra_pressed (r\<lparr>extra_keys := remove_slot (extra_keys r) k\<rparr>) = extra_pressed r - {k}"
    using s by (simp add: extra_pressed_def Un_Diff)
  show "extra_wf (r\<lparr>extra_keys := remove_slot (extra_keys r) k\<rparr>)"
    unfolding extra_wf_def
  proof (intro conjI ballI impI)
    fix j assume "j \<in> set (extra_keys (r\<lparr>extra_keys := remove_slot (extra_keys r) k\<rparr>))" "j \<noteq> NO_KEY"
    then have "j \<in> {j \<in> set (remove_slot (extra_keys r) k). j \<noteq> NO_KEY}" by simp
    then have "j \<in> {j \<in> set (extra_keys r). j \<noteq> NO_KEY} - {k}" by (simp only: s)
    then show "j < HID_KEYBOARD_SC_LEFT_CONTROL" using assms(1) by (simp add: extra_wf_def)
  qed (use assms(1) f in \<open>simp_all add: extra_wf_def distinct_removeAll\<close>)
qed

lemma remove_slot_update:
  "i < length ks \<Longrightarrow> ks ! i = k \<Longrightarrow> k \<noteq> NO_KEY \<Longrightarrow> distinct (filter (\<lambda>k. k \<noteq> NO_KEY) ks) \<Longrightarrow>
   remove_slot ks k = ks[i := NO_KEY]"
proof (induction ks arbitrary: i)
  case (Cons j ks)
  show ?case
  proof (cases i)
    case (Suc n)
    then have "j \<noteq> k" using Cons.prems by (auto simp: in_set_conv_nth)
    then show ?thesis using Suc Cons by (simp split: if_splits)
  qed (use Cons.prems in simp)
qed simp

text \<open>The three updates of the modifier byte, read back bit by bit.\<close>

lemma bit_modifier_updates:
  fixes j k :: hid_keycode
  defines "i \<equiv> unat (j - HID_KEYBOARD_SC_LEFT_CONTROL)"
  assumes "HID_KEYBOARD_SC_LEFT_CONTROL \<le> k"
  shows "k < 0xE8 \<Longrightarrow> bit (m OR modifier_bit k) i \<longleftrightarrow> j = k \<or> bit m i"
    and "bit (m AND NOT (modifier_bit k)) i \<longleftrightarrow> j \<noteq> k \<and> bit m i"
    and "k < 0xE8 \<Longrightarrow> bit (m XOR modifier_bit k) i \<longleftrightarrow> (j = k) \<noteq> bit m i"
proof -
  have eq: "i = unat (k - HID_KEYBOARD_SC_LEFT_CONTROL) \<longleftrightarrow> j = k"
    unfolding i_def by (rule modifier_index_eq)
  then have b: "bit (modifier_bit k) i \<longleftrightarrow> j = k \<and> i < 8" by (simp add: bit_modifier_bit)
  have "i < 8" if "k < 0xE8" "j = k"
    using that modifier_index_small [OF assms(2)] eq by simp
  then show "k < 0xE8 \<Longrightarrow> bit (m OR modifier_bit k) i \<longleftrightarrow> j = k \<or> bit m i"
    and "k < 0xE8 \<Longrightarrow> bit (m XOR modifier_bit k) i \<longleftrightarrow> (j = k) \<noteq> bit m i"
    using b by (auto simp: bit_or_iff bit_xor_iff)
  have "bit m i \<Longrightarrow> i < 8" by (drule bit_imp_le_length) simp
  then show "bit (m AND NOT (modifier_bit k)) i \<longleftrightarrow> j \<noteq> k \<and> bit m i"
    using b by (auto simp: bit_and_iff bit_not_iff)
qed

lemma extra_pressed_update:
  assumes "extra_wf r" "HID_KEYBOARD_SC_LEFT_CONTROL \<le> k"
  shows "k < 0xE8 \<Longrightarrow> extra_pressed (r\<lparr>extra_modifiers := extra_modifiers r OR modifier_bit k\<rparr>)
      = insert k (extra_pressed r)"
    and "extra_pressed (r\<lparr>extra_modifiers := extra_modifiers r AND NOT (modifier_bit k)\<rparr>)
      = extra_pressed r - {k}"
    and "k < 0xE8 \<Longrightarrow> extra_pressed (r\<lparr>extra_modifiers := extra_modifiers r XOR modifier_bit k\<rparr>)
      = (if k \<in> extra_pressed r then extra_pressed r - {k} else insert k (extra_pressed r))"
proof -
  have split: "extra_pressed (r\<lparr>extra_modifiers := m\<rparr>) = X"
    if "\<And>j. j < HID_KEYBOARD_SC_LEFT_CONTROL \<Longrightarrow> j \<in> X \<longleftrightarrow> j \<in> extra_pressed r"
      "\<And>j. \<not> j < HID_KEYBOARD_SC_LEFT_CONTROL \<Longrightarrow>
         j \<in> X \<longleftrightarrow> bit m (unat (j - HID_KEYBOARD_SC_LEFT_CONTROL))" for m X
    using that extra_set_modifiers(2,3) [OF assms(1), of _ m] by blast
  note ord = extra_pressed_modifier [OF assms(1)] and upd = bit_modifier_updates [OF assms(2)]
  show "k < 0xE8 \<Longrightarrow> extra_pressed (r\<lparr>extra_modifiers := extra_modifiers r OR modifier_bit k\<rparr>)
      = insert k (extra_pressed r)"
    using assms(2) by (intro split) (auto simp: upd ord)
  show "extra_pressed (r\<lparr>extra_modifiers := extra_modifiers r AND NOT (modifier_bit k)\<rparr>)
      = extra_pressed r - {k}"
    using assms(2) by (intro split) (auto simp: upd ord)
  show "k < 0xE8 \<Longrightarrow> extra_pressed (r\<lparr>extra_modifiers := extra_modifiers r XOR modifier_bit k\<rparr>)
      = (if k \<in> extra_pressed r then extra_pressed r - {k} else insert k (extra_pressed r))"
    using assms(2) by (intro split) (auto simp: upd ord)
qed

text \<open>Both pressing operations on an ordinary key are the one loop and one of three outcomes.\<close>

lemma ordinary_key_cases:
  assumes "extra_wf r" "k < HID_KEYBOARD_SC_LEFT_CONTROL"
  obtains (down) i where "find_slot (extra_keys r) k EXTRA_REPORT_KEY_COUNT None = Inl i"
      "i < EXTRA_REPORT_KEY_COUNT" "extra_keys r ! i = k" "k \<in> extra_pressed r" "extra_room r k"
    | (up) i where "find_slot (extra_keys r) k EXTRA_REPORT_KEY_COUNT None = Inr (Some i)"
      "i < EXTRA_REPORT_KEY_COUNT" "extra_keys r ! i = NO_KEY" "k \<notin> extra_pressed r"
      "k \<notin> set (extra_keys r)" "extra_room r k"
    | (full) "find_slot (extra_keys r) k EXTRA_REPORT_KEY_COUNT None = Inr None"
      "k \<notin> extra_pressed r" "\<not> extra_room r k"
proof -
  have len: "length (extra_keys r) = EXTRA_REPORT_KEY_COUNT" using assms(1) by (simp add: extra_wf_def)
  have at: "x \<in> set (extra_keys r)" if "i < EXTRA_REPORT_KEY_COUNT" "extra_keys r ! i = x" for i x
    using that len by (metis nth_mem)
  have room: "extra_room r k \<longleftrightarrow> k \<in> set (extra_keys r) \<or> NO_KEY \<in> set (extra_keys r)"
    using leD assms(2) by (auto simp: extra_room_def)
  note p = extra_pressed_ordinary [OF assms(2), of r] and f = find_slot_all [OF len, of k]
  consider i where "find_slot (extra_keys r) k EXTRA_REPORT_KEY_COUNT None = Inl i"
    | i where "find_slot (extra_keys r) k EXTRA_REPORT_KEY_COUNT None = Inr (Some i)"
    | "find_slot (extra_keys r) k EXTRA_REPORT_KEY_COUNT None = Inr None"
    by (metis obj_sumE option.exhaust)
  then show ?thesis
  proof cases
    case (1 i)
    then show ?thesis using down f(1) at p room by blast
  next
    case (2 i)
    then show ?thesis using up f(3) at p room by blast
  next
    case 3
    then show ?thesis using full f(2) p room by blast
  qed
qed

lemma ExtraKeyboardReport_add_laws:
  assumes "extra_wf r"
  shows "extra_wf (ExtraKeyboardReport_add r k)
    \<and> (extra_room r k \<longrightarrow> extra_pressed (ExtraKeyboardReport_add r k) = insert k (extra_pressed r))
    \<and> (\<not> extra_room r k \<longrightarrow> ExtraKeyboardReport_add r k = r)"
proof (cases "k < HID_KEYBOARD_SC_LEFT_CONTROL")
  case True
  show ?thesis
    using assms True
  proof (cases rule: ordinary_key_cases)
    case (down i)
    then show ?thesis using True assms by (auto simp: ExtraKeyboardReport_add_def)
  next
    case (up i)
    then show ?thesis using True [unfolded not_le [symmetric]] True assms
      by (simp add: ExtraKeyboardReport_add_def extra_wf_free extra_pressed_set_key)
  next
    case full
    then show ?thesis using True [unfolded not_le [symmetric]] assms
      by (simp add: ExtraKeyboardReport_add_def)
  qed
next
  case False
  then show ?thesis using assms False [unfolded not_less]
    by (simp add: ExtraKeyboardReport_add_def extra_set_modifiers extra_room_def modifier_bit_none
        extra_pressed_update)
qed

lemma ExtraKeyboardReport_remove_laws:
  assumes "extra_wf r"
  shows "extra_wf (ExtraKeyboardReport_remove r k)
    \<and> extra_pressed (ExtraKeyboardReport_remove r k) = extra_pressed r - {k}"
  using assms by (simp add: ExtraKeyboardReport_remove_def extra_set_modifiers extra_remove_ordinary
      extra_pressed_update not_le)

lemma ExtraKeyboardReport_toggle_laws:
  assumes "extra_wf r"
  shows "extra_wf (ExtraKeyboardReport_toggle r k)
    \<and> (k \<in> extra_pressed r \<longrightarrow> extra_pressed (ExtraKeyboardReport_toggle r k) = extra_pressed r - {k})
    \<and> (extra_room r k \<and> k \<notin> extra_pressed r \<longrightarrow>
         extra_pressed (ExtraKeyboardReport_toggle r k) = insert k (extra_pressed r))
    \<and> (k \<in> extra_pressed r \<longrightarrow> extra_room r k)"
proof (cases "k < HID_KEYBOARD_SC_LEFT_CONTROL")
  case True
  have ne: "k \<noteq> NO_KEY" using True NO_KEY_not_ordinary by auto
  show ?thesis
    using assms True
  proof (cases rule: ordinary_key_cases)
    case (down i)
    then have "ExtraKeyboardReport_toggle r k = ExtraKeyboardReport_remove r k"
      using True assms ne
      by (simp add: ExtraKeyboardReport_toggle_def ExtraKeyboardReport_remove_def extra_wf_def
          remove_slot_update)
    then show ?thesis using down ExtraKeyboardReport_remove_laws [OF assms] by simp
  next
    case (up i)
    then show ?thesis using True [unfolded not_le [symmetric]] True assms
      by (simp add: ExtraKeyboardReport_toggle_def extra_wf_free extra_pressed_set_key)
  next
    case full
    then show ?thesis using True [unfolded not_le [symmetric]] assms
      by (simp add: ExtraKeyboardReport_toggle_def)
  qed
next
  case False
  have "bit (extra_modifiers r) (unat (k - HID_KEYBOARD_SC_LEFT_CONTROL)) \<Longrightarrow> k < 0xE8"
    using bit_imp_le_length modifier_index_small [of k] False by fastforce
  then have "k \<in> extra_pressed r \<Longrightarrow> k < 0xE8"
    using False assms by (simp add: extra_pressed_modifier)
  then show ?thesis using False assms
    by (auto simp: ExtraKeyboardReport_toggle_def extra_set_modifiers extra_room_def
        extra_pressed_update)
qed

interpretation extra: virtual_keys extra_wf extra_pressed extra_room ExtraKeyboardReport_clear
  ExtraKeyboardReport_add ExtraKeyboardReport_remove ExtraKeyboardReport_toggle
proof
  show "extra_wf ExtraKeyboardReport_clear"
    by (simp add: extra_wf_def ExtraKeyboardReport_clear_def)
  show "extra_pressed ExtraKeyboardReport_clear = {}"
    by (simp add: extra_pressed_def ExtraKeyboardReport_clear_def)
qed (simp_all add: ExtraKeyboardReport_add_laws ExtraKeyboardReport_remove_laws
    ExtraKeyboardReport_toggle_laws)

subsection \<open>Merging into the keyboard report\<close>

lemma append_keys_char:
  assumes "report_start \<le> length pre" "length codes = KEYBOARDREPORT_KEY_COUNT"
    "take (length pre) codes = pre" "length pre \<le> KEYBOARDREPORT_KEY_COUNT"
  shows "append_keys ks report_start (length pre) codes
    = (let new = take (KEYBOARDREPORT_KEY_COUNT - length pre)
         (filter (\<lambda>k. k \<noteq> NO_KEY \<and> k \<notin> set (take report_start pre)) ks)
       in pre @ new @ drop (length pre + length new) codes)"
  using assms
proof (induction ks arbitrary: pre codes)
  case Nil
  then show ?case by (metis (no_types, lifting) append_Nil append_keys.simps(1) append_take_drop_id
        filter.simps(1) list.size(3) take_Nil add_0_right)
next
  case (Cons k ks)
  have seen: "set (take report_start codes) = set (take report_start pre)"
    using Cons.prems(1,3) by (metis min.absorb1 take_take)
  have whole: "pre @ drop (length pre) codes = codes"
    using Cons.prems(3) by (metis append_take_drop_id)
  show ?case
  proof (cases "length pre < KEYBOARDREPORT_KEY_COUNT \<and> \<not> (k = NO_KEY \<or> k \<in> set (take report_start pre))")
    case True
    let ?c = "codes[length pre := k]"
    have len: "length (pre @ [k]) = length pre + 1" by simp
    have "take (length (pre @ [k])) ?c = pre @ [k]"
      using True Cons.prems(2,3) by (simp add: take_Suc_conv_app_nth)
    then have "append_keys ks report_start (length (pre @ [k])) ?c
        = (let new = take (KEYBOARDREPORT_KEY_COUNT - length (pre @ [k]))
             (filter (\<lambda>j. j \<noteq> NO_KEY \<and> j \<notin> set (take report_start (pre @ [k]))) ks)
           in (pre @ [k]) @ new @ drop (length (pre @ [k]) + length new) ?c)"
      using True Cons.prems by (intro Cons.IH) auto
    then show ?thesis
      using True Cons.prems(1) seen by (simp add: Let_def take_Cons' Suc_diff_Suc)
  next
    case False
    then show ?thesis
      using Cons.IH [OF Cons.prems] whole seen Cons.prems(4) by (auto simp: Let_def)
  qed
qed

lemma ExtraKeyboardReport_append_char:
  fixes extra :: ExtraKeyboardReport and report :: KeyboardReport_Data
  assumes "length (KeyCode report) = KEYBOARDREPORT_KEY_COUNT"
  defines "pre \<equiv> takeWhile (\<lambda>c. c \<noteq> 0) (KeyCode report)"
  defines "new \<equiv> take (KEYBOARDREPORT_KEY_COUNT - length pre)
      (filter (\<lambda>k. k \<noteq> NO_KEY \<and> k \<notin> set pre) (extra_keys extra))"
  shows "ExtraKeyboardReport_append extra report
    = report\<lparr>Modifier := Modifier report OR extra_modifiers extra,
             KeyCode := pre @ new @ drop (length pre + length new) (KeyCode report)\<rparr>"
proof -
  have "length pre \<le> KEYBOARDREPORT_KEY_COUNT"
    using assms(1) length_takeWhile_le pre_def by metis
  moreover have "take (length pre) (KeyCode report) = pre"
    unfolding pre_def by (rule takeWhile_eq_take [symmetric])
  ultimately have "append_keys (extra_keys extra) (length pre) (length pre) (KeyCode report)
      = pre @ new @ drop (length pre + length new) (KeyCode report)"
    using append_keys_char [of "length pre" pre "KeyCode report"] assms(1)
    by (simp add: Let_def new_def)
  then show ?thesis
    using assms(1) by (simp add: ExtraKeyboardReport_append_def pre_def)
qed

subsection \<open>What the report promises\<close>

text \<open>
  C25: pressing, releasing and toggling virtual keys keep the extra report a set of keys: the slots
  stay six and free of duplicates, a press adds exactly the key when there is room (and changes
  nothing otherwise), a release takes away exactly that key, and a toggle does one or the other. (For
  the codes from \<open>0xF0\<close> on, which no key can have, this rests on the shift of \<open>modifier_bit\<close>.)
\<close>

theorem ExtraKeyboardReport_is_key_set:
  assumes "extra_wf r"
  shows "extra_wf (ExtraKeyboardReport_add r k) \<and> extra_wf (ExtraKeyboardReport_remove r k)
    \<and> extra_wf (ExtraKeyboardReport_toggle r k)
    \<and> extra_pressed (ExtraKeyboardReport_add r k)
        = (if extra_room r k then insert k (extra_pressed r) else extra_pressed r)
    \<and> extra_pressed (ExtraKeyboardReport_remove r k) = extra_pressed r - {k}
    \<and> (extra_room r k \<longrightarrow> extra_pressed (ExtraKeyboardReport_toggle r k)
        = (if k \<in> extra_pressed r then extra_pressed r - {k} else insert k (extra_pressed r)))
    \<and> extra_pressed (ExtraKeyboardReport_remove (ExtraKeyboardReport_add r k) k) = extra_pressed r - {k}"
proof (intro conjI impI)
  show "extra_pressed (ExtraKeyboardReport_remove (ExtraKeyboardReport_add r k) k) = extra_pressed r - {k}"
    using assms by (cases "extra_room r k")
      (simp_all add: extra.add_wf extra.remove_pressed extra.add_pressed extra.add_full)
qed (use assms in \<open>simp_all add: extra.add_wf extra.remove_wf extra.toggle_wf extra.add_pressed
    extra.add_full extra.remove_pressed extra.toggle_effect\<close>)

theorem ExtraKeyboardReport_is_key_set_witness:
  "extra_pressed (ExtraKeyboardReport_add ExtraKeyboardReport_clear 0x04) = {0x04}"
proof -
  have "extra_room ExtraKeyboardReport_clear 0x04"
    by (simp add: extra_room_def ExtraKeyboardReport_clear_def EXTRA_REPORT_KEY_COUNT_def)
  then show ?thesis
    using ExtraKeyboardReport_is_key_set [OF extra.clear_wf, of "0x04"] extra.clear_pressed by simp
qed

text \<open>
  Merging the extra report into a keyboard report keeps the keys already there in their places,
  adds after them, in slot order and as far as the six slots reach, exactly the virtual keys that
  are not among them, and joins the modifiers.
\<close>

theorem ExtraKeyboardReport_append_merges:
  assumes "length (KeyCode report) = KEYBOARDREPORT_KEY_COUNT"
  shows "let pre = takeWhile (\<lambda>c. c \<noteq> 0) (KeyCode report);
             new = take (KEYBOARDREPORT_KEY_COUNT - length pre)
               (filter (\<lambda>k. k \<noteq> NO_KEY \<and> k \<notin> set pre) (extra_keys extra))
         in ExtraKeyboardReport_append extra report
           = report\<lparr>Modifier := Modifier report OR extra_modifiers extra,
               KeyCode := pre @ new @ drop (length pre + length new) (KeyCode report)\<rparr>"
  using ExtraKeyboardReport_append_char [OF assms, of extra] by (simp add: Let_def)

theorem ExtraKeyboardReport_append_merges_witness:
  "KeyCode (ExtraKeyboardReport_append
      \<lparr>extra_modifiers = 0, extra_keys = [0xFF, 7, 4, 0xFF, 9, 0xFF]\<rparr>
      \<lparr>Modifier = 0, Reserved = 0, KeyCode = [4, 5, 0, 0, 0, 0]\<rparr>) = [4, 5, 7, 9, 0, 0]"
proof -
  have "length (KeyCode \<lparr>Modifier = 0, Reserved = 0, KeyCode = [4, 5, 0, 0, 0, 0]\<rparr>)
      = KEYBOARDREPORT_KEY_COUNT" by (simp add: KEYBOARDREPORT_KEY_COUNT_def)
  from ExtraKeyboardReport_append_merges [OF this,
      of "\<lparr>extra_modifiers = 0, extra_keys = [0xFF, 7, 4, 0xFF, 9, 0xFF]\<rparr>"]
  show ?thesis by (simp add: Let_def KEYBOARDREPORT_KEY_COUNT_def NO_KEY_def)
qed

end
