(* ===== verification/Printing.thy ===== *)
theory Printing
  imports Buzzer ExtraReport "HOL-Library.Char_ord"
begin

text \<open>
  \<open>printing.c\<close>: typing a message on the host, one character per pair of USB reports. The pointer
  into the message is modelled by the text from the pointer to its terminating zero, so that reading
  gives 0 at the end.
\<close>

subsection \<open>State and operations\<close>

datatype storage_type = sram | avr_pgm | avr_eeprom | i2c_eeprom | spi_eeprom | flash

record printing_state = buzzer_state +
  print_buffer_type :: storage_type
  print_buffer :: string
  PrevKeyboardHIDReportBuffer :: KeyboardReport_Data

definition HID_KEYBOARD_MODIFIER_LEFTSHIFT :: u8 where
  "HID_KEYBOARD_MODIFIER_LEFTSHIFT = 2"

definition printing_set_buffer ::
    "string \<Rightarrow> storage_type \<Rightarrow> 'a printing_state_scheme \<Rightarrow> 'a printing_state_scheme" where
  "printing_set_buffer buf typ s = s\<lparr>print_buffer := buf, print_buffer_type := typ\<rparr>"

definition print_buffer_get :: "'a printing_state_scheme \<Rightarrow> char" where
  "print_buffer_get s =
     (if print_buffer_type s = sram \<or> print_buffer_type s = avr_pgm
      then case print_buffer s of [] \<Rightarrow> CHR 0x00 | c # _ \<Rightarrow> c
      else CHR 0x00)"

definition printing_buffer_empty :: "'a printing_state_scheme \<Rightarrow> bool" where
  "printing_buffer_empty s \<longleftrightarrow> print_buffer_get s = CHR 0x00"

text \<open>The \<open>switch\<close> of \<open>char_to_keys\<close>, in the order of the source: character, key, modifier.\<close>

definition char_to_keys_switch :: "(char \<times> hid_keycode \<times> u8) list" where
  "char_to_keys_switch =
    [(CHR '' '', 0x2C, 0), (CHR ''!'', 0x1E, 2), (CHR 0x22, 0x34, 2), (CHR ''#'', 0x20, 2),
     (CHR ''$'', 0x21, 2), (CHR ''%'', 0x22, 2), (CHR ''&'', 0x24, 2), (CHR 0x27, 0x34, 0),
     (CHR ''('', 0x26, 2), (CHR '')'', 0x27, 2), (CHR ''*'', 0x25, 2), (CHR ''+'', 0x2E, 2),
     (CHR '','', 0x36, 0), (CHR ''-'', 0x2D, 0), (CHR ''.'', 0x37, 0), (CHR ''/'', 0x38, 0),
     (CHR ''0'', 0x27, 0), (CHR ''1'', 0x1E, 0), (CHR ''2'', 0x1F, 0), (CHR ''3'', 0x20, 0),
     (CHR ''4'', 0x21, 0), (CHR ''5'', 0x22, 0), (CHR ''6'', 0x23, 0), (CHR ''7'', 0x24, 0),
     (CHR ''8'', 0x25, 0), (CHR ''9'', 0x26, 0), (CHR '':'', 0x33, 2), (CHR '';'', 0x33, 0),
     (CHR ''<'', 0x36, 2), (CHR ''='', 0x2E, 0), (CHR ''>'', 0x37, 2), (CHR ''?'', 0x38, 2),
     (CHR ''@'', 0x1F, 2), (CHR ''['', 0x2F, 0), (CHR 0x5C, 0x31, 0), (CHR '']'', 0x30, 0),
     (CHR ''^'', 0x23, 2), (CHR ''_'', 0x2D, 2), (CHR 0x60, 0x35, 2), (CHR ''{'', 0x2F, 2),
     (CHR ''|'', 0x31, 2), (CHR ''}'', 0x30, 2), (CHR ''~'', 0x35, 0), (CHR 0x0A, 0x28, 0),
     (CHR 0x09, 0x2B, 0)]"

text \<open>\<open>*nextkey\<close> and \<open>*nextmod\<close> as a pair; \<open>of_char\<close> reads a character as its byte.\<close>

definition char_to_keys :: "char \<Rightarrow> hid_keycode \<times> u8" where
  "char_to_keys nextchar =
     (let c = of_char nextchar :: u8; l = c OR 0x20 in
      if 0x61 \<le> l \<and> l \<le> 0x7A
      then (0x04 + (l - 0x61), if c AND 0x20 = 0 then HID_KEYBOARD_MODIFIER_LEFTSHIFT else 0)
      else case map_of char_to_keys_switch nextchar of
          Some km \<Rightarrow> km
        | None \<Rightarrow> (0x38, HID_KEYBOARD_MODIFIER_LEFTSHIFT))"

definition printing_Fill_KeyboardReport ::
    "KeyboardReport_Data \<Rightarrow> 'a printing_state_scheme \<Rightarrow> KeyboardReport_Data \<times> 'a printing_state_scheme" where
  "printing_Fill_KeyboardReport ReportData s =
     (let prev = PrevKeyboardHIDReportBuffer s in
      if Modifier prev \<noteq> 0 \<or> KeyCode prev ! 0 \<noteq> 0 then (ReportData, s)
      else let nextchar = print_buffer_get s;
               s = s\<lparr>print_buffer := tl (print_buffer s)\<rparr>;
               (key, md) = char_to_keys nextchar
           in (ReportData\<lparr>Modifier := md, KeyCode := (KeyCode ReportData)[0 := key]\<rparr>, s))"

text \<open>
  \<open>byte_to_str\<close>: two hexadecimal digits and a space, the low digit written first at index 1.
\<close>

definition hex_digit :: "u8 \<Rightarrow> char" where
  "hex_digit n = (if n \<ge> 0xA then char_of (unat (0x41 + n - 0xA)) else char_of (unat (0x30 + n)))"

definition byte_to_str :: "u8 \<Rightarrow> string" where
  "byte_to_str byte =
     (let buf = [CHR ''x'', CHR ''x'', CHR '' '', CHR 0x00];
          buf = buf[1 := hex_digit (byte AND 0xF)];
          byte = drop_bit 4 byte
      in buf[0 := hex_digit (byte AND 0xF)])"

subsection \<open>A US keyboard\<close>

text \<open>
  What a host with the US layout of the HID usage tables types for a key, without and with shift,
  for the usages \<open>0x04\<close> to \<open>0x38\<close>: the reference the translation is measured against.
\<close>

definition us_plain :: string where
  "us_plain = ''abcdefghijklmnopqrstuvwxyz1234567890'' @ [CHR 0x0A, CHR 0x1B, CHR 0x08, CHR 0x09]
     @ '' -=[]'' @ [CHR 0x5C] @ ''#;'' @ [CHR 0x27, CHR 0x60] @ '',./''"

definition us_shifted :: string where
  "us_shifted = ''ABCDEFGHIJKLMNOPQRSTUVWXYZ!@#$%^&*()'' @ [CHR 0x0A, CHR 0x1B, CHR 0x08, CHR 0x09]
     @ '' _+{}|~:'' @ [CHR 0x22] @ ''~<>?''"

definition us_keyboard :: "hid_keycode \<times> u8 \<Rightarrow> char option" where
  "us_keyboard km = (case km of (key, md) \<Rightarrow>
     let i = unat key - 4 in
     if key < 4 \<or> length us_plain \<le> i then None
     else if md = 0 then Some (us_plain ! i)
     else if md = HID_KEYBOARD_MODIFIER_LEFTSHIFT then Some (us_shifted ! i)
     else None)"

text \<open>The characters the \<open>switch\<close> and the letter test cover, all but the grave accent and the tilde.\<close>

definition printable :: string where
  "printable = map char_of ([9, 10] @ [0x20..<0x60] @ [0x61..<(0x7E :: nat)])"

text \<open>
  The typing of a message: \<open>n\<close> reports, each filled into an empty one and then remembered as the
  previous report, the way the HID class driver calls the firmware.
\<close>

definition empty_report :: KeyboardReport_Data where
  "empty_report = \<lparr>Modifier = 0, Reserved = 0, KeyCode = replicate KEYBOARDREPORT_KEY_COUNT 0\<rparr>"

definition key_report :: "char \<Rightarrow> KeyboardReport_Data" where
  "key_report c = (case char_to_keys c of (key, md) \<Rightarrow>
     empty_report\<lparr>Modifier := md, KeyCode := key # replicate (KEYBOARDREPORT_KEY_COUNT - 1) 0\<rparr>)"

fun printing_run :: "nat \<Rightarrow> 'a printing_state_scheme \<Rightarrow> KeyboardReport_Data list \<times> 'a printing_state_scheme" where
  "printing_run 0 s = ([], s)"
| "printing_run (Suc n) s =
     (let (r, s) = printing_Fill_KeyboardReport empty_report s;
          (rs, s) = printing_run n (s\<lparr>PrevKeyboardHIDReportBuffer := r\<rparr>)
      in (r # rs, s))"

definition printing_reset :: printing_state where
  "printing_reset = buzzer_state.extend buzzer_reset
     (printing_state.fields sram [] empty_report)"

subsection \<open>Properties\<close>

lemma char_to_keys_pressed: "fst (char_to_keys c) \<noteq> 0"
proof (cases "let l = of_char c OR (0x20 :: u8) in 0x61 \<le> l \<and> l \<le> 0x7A")
  case True
  define l where "l = of_char c OR (0x20 :: u8)"
  have "4 + (l - 0x61) \<noteq> 0"
  proof
    assume "4 + (l - 0x61) = 0"
    then have "l = 0x61 - 4" by (simp add: eq_neg_iff_add_eq_0 algebra_simps)
    then have "l = 0x5D" by simp
    then show False using True by (simp add: l_def [symmetric] Let_def word_le_def)
  qed
  then show ?thesis using True by (simp add: char_to_keys_def Let_def l_def)
next
  case False
  have "fst km \<noteq> 0" if "map_of char_to_keys_switch c = Some km" for km
    using map_of_SomeD [OF that] by (auto simp: char_to_keys_switch_def)
  then show ?thesis using False
    by (auto simp: char_to_keys_def Let_def split: option.splits)
qed

lemma key_report_pressed: "KeyCode (key_report c) ! 0 \<noteq> 0"
  using char_to_keys_pressed [of c] by (auto simp: key_report_def split: prod.splits)

lemma printing_Fill_press:
  assumes "PrevKeyboardHIDReportBuffer s = empty_report" "print_buffer s = c # msg"
    "print_buffer_type s = sram \<or> print_buffer_type s = avr_pgm"
  shows "printing_Fill_KeyboardReport empty_report s = (key_report c, s\<lparr>print_buffer := msg\<rparr>)"
  using assms
  by (auto simp: printing_Fill_KeyboardReport_def print_buffer_get_def key_report_def empty_report_def
      KEYBOARDREPORT_KEY_COUNT_def Let_def numeral_eq_Suc split: prod.splits)

lemma printing_Fill_release:
  assumes "PrevKeyboardHIDReportBuffer s = key_report c"
  shows "printing_Fill_KeyboardReport r s = (r, s)"
  using assms key_report_pressed [of c] by (simp add: printing_Fill_KeyboardReport_def)

lemma printing_run_message:
  assumes "print_buffer_type s = sram \<or> print_buffer_type s = avr_pgm"
    "PrevKeyboardHIDReportBuffer s = empty_report" "print_buffer s = msg"
  shows "printing_run (2 * length msg) s
    = (concat (map (\<lambda>c. [key_report c, empty_report]) msg), s\<lparr>print_buffer := []\<rparr>)"
  using assms
proof (induction msg arbitrary: s)
  case (Cons c msg)
  let ?s = "s\<lparr>print_buffer := msg, PrevKeyboardHIDReportBuffer := key_report c\<rparr>"
  have "printing_Fill_KeyboardReport empty_report ?s = (empty_report, ?s)"
    by (rule printing_Fill_release) simp
  moreover have "printing_run (2 * length msg) (?s\<lparr>PrevKeyboardHIDReportBuffer := empty_report\<rparr>)
      = (concat (map (\<lambda>c. [key_report c, empty_report]) msg),
         ?s\<lparr>PrevKeyboardHIDReportBuffer := empty_report, print_buffer := []\<rparr>)"
    by (rule Cons.IH) (use Cons.prems in simp_all)
  ultimately show ?case
    using printing_Fill_press [OF Cons.prems(2,3,1)] Cons.prems(2) by (simp add: Let_def)
qed simp

text \<open>
  C26: printing a message types each of its characters exactly once and in order: two reports per
  character, the key of \<open>char_to_keys\<close> and then its release, after which the buffer is empty.
\<close>

theorem printing_types_message:
  assumes "typ = sram \<or> typ = avr_pgm" "PrevKeyboardHIDReportBuffer s = empty_report"
  shows "let (reports, s') = printing_run (2 * length msg) (printing_set_buffer msg typ s)
    in reports = concat (map (\<lambda>c. [key_report c, empty_report]) msg) \<and> printing_buffer_empty s'"
proof -
  have "printing_run (2 * length msg) (printing_set_buffer msg typ s)
      = (concat (map (\<lambda>c. [key_report c, empty_report]) msg),
         (printing_set_buffer msg typ s)\<lparr>print_buffer := []\<rparr>)"
    by (rule printing_run_message) (use assms in \<open>auto simp: printing_set_buffer_def\<close>)
  then show ?thesis by (simp add: printing_buffer_empty_def print_buffer_get_def)
qed

theorem printing_types_message_witness:
  "fst (printing_run 4 (printing_set_buffer ''Hi'' avr_pgm printing_reset))
     = [key_report CHR ''H'', empty_report, key_report CHR ''i'', empty_report]"
proof -
  have "PrevKeyboardHIDReportBuffer printing_reset = empty_report"
    by (simp add: printing_reset_def buzzer_reset_def printing_state.defs buzzer_state.defs)
  from printing_types_message [OF _ this, of avr_pgm "''Hi''"]
  show ?thesis by (simp split: prod.splits)
qed

text \<open>
  C39: on a US keyboard every printable ASCII character, the tab and the newline come out as
  themselves, except that the grave accent and the tilde are exchanged.
\<close>

theorem char_to_keys_types_char:
  "list_all (\<lambda>c. us_keyboard (char_to_keys c) = Some c) printable
   \<and> us_keyboard (char_to_keys CHR 0x60) = Some CHR ''~''
   \<and> us_keyboard (char_to_keys CHR ''~'') = Some CHR 0x60"
  by code_simp

end
