(* ===== verification/MacroIndex.thy ===== *)
theory MacroIndex
  imports Printing Sort Hardware "HOL-Library.List_Lexorder"
begin

text \<open>
  \<open>macro_index.c\<close>: the sorted array in EEPROM that maps key combinations to macros and programs.
  Entries are kept in lexicographic order of their four keys with the empty ones (all \<open>NO_KEY\<close>, the
  largest key) at the end, looked up by the C library's binary search, inserted and removed by
  moving entries one at a time. A pointer to an entry is its index in the array. The array is shown
  to implement a finite map: \<open>keyed_index\<close> is the contract, interpreted on the operations.
\<close>

subsection \<open>Data\<close>

definition MACRO_MAX_KEYS :: nat where
  "MACRO_MAX_KEYS = 4"

definition MACRO_DATA_HEADER_LEN :: nat where
  "MACRO_DATA_HEADER_LEN = 2"

type_synonym macro_idx_key = "logical_keycode list"

record macro_idx_entry =
  idx_keys :: macro_idx_key
  idx_val :: u16

datatype macro_idx_entry_type = MACRO | PROGRAM

record macro_idx_entry_data =
  idx_type :: macro_idx_entry_type
  idx_data :: u16

record macro_index_state = printing_state +
  macro_index :: "macro_idx_entry list"

definition empty_entry :: macro_idx_entry where
  "empty_entry = \<lparr>idx_keys = replicate MACRO_MAX_KEYS NO_KEY, idx_val = 0\<rparr>"

text \<open>\<open>keys[0] == NO_KEY\<close>, the test for an empty entry.\<close>

definition is_empty :: "macro_idx_entry \<Rightarrow> bool" where
  "is_empty e \<longleftrightarrow> idx_keys e ! 0 = NO_KEY"

text \<open>An index with no entries, on top of the static variables at reset.\<close>

definition macro_index_reset :: macro_index_state where
  "macro_index_reset =
     \<lparr>buzzer_ms = 0, TCC1_CTRLA = TC_CLKSEL_OFF, TCC1_PER = 0, TCC1_CCA = 0, TCC1_CTRLB = False,
      PORTC_PIN4_output = False, print_buffer_type = sram, print_buffer = [],
      PrevKeyboardHIDReportBuffer = empty_report,
      macro_index = replicate MACRO_INDEX_COUNT empty_entry\<rparr>"

subsection \<open>Reset\<close>

text \<open>
  The smallest default macro whose key is above \<open>low_bound\<close>: the loop runs up to the end marker of
  the table with the best index and key so far.
\<close>

fun next_info_loop :: "macro_def_info list \<Rightarrow> nat \<Rightarrow> logical_keycode \<Rightarrow> u8 \<Rightarrow> logical_keycode \<Rightarrow> u8" where
  "next_info_loop [] i low_bound rv rv_lkey = rv"
| "next_info_loop ((cur_lkey, hkeys) # rest) i low_bound rv rv_lkey =
     (if cur_lkey = NO_KEY then rv
      else if cur_lkey > low_bound \<and> cur_lkey < rv_lkey
      then next_info_loop rest (Suc i) low_bound (of_nat i) cur_lkey
      else next_info_loop rest (Suc i) low_bound rv rv_lkey)"

definition get_next_macro_def_info_index :: "logical_keycode \<Rightarrow> u8" where
  "get_next_macro_def_info_index low_bound =
     (if low_bound = NO_KEY then 0xFF else next_info_loop macro_def_infos 0 low_bound 0xFF NO_KEY)"

text \<open>\<open>n\<close> entries still to write, \<open>tmp\<close> the entry that is rewritten for each default macro.\<close>

fun idx_reset_loop :: "nat \<Rightarrow> logical_keycode \<Rightarrow> macro_idx_entry \<Rightarrow> macro_idx_entry list" where
  "idx_reset_loop 0 lkey tmp = []"
| "idx_reset_loop (Suc n) lkey tmp =
     (let idx = get_next_macro_def_info_index lkey in
      if idx = 0xFF then empty_entry # idx_reset_loop n NO_KEY tmp
      else let lkey = fst (macro_def_infos ! unat idx);
               tmp = tmp\<lparr>idx_keys := (idx_keys tmp)[0 := lkey],
                         idx_val := ucast idx * of_nat (MACRO_DATA_HEADER_LEN + 3)\<rparr>
           in tmp # idx_reset_loop n lkey tmp)"

definition macro_idx_reset_defaults :: "'a macro_index_state_scheme \<Rightarrow> 'a macro_index_state_scheme" where
  "macro_idx_reset_defaults s = s\<lparr>macro_index := idx_reset_loop MACRO_INDEX_COUNT 0 empty_entry\<rparr>"

subsection \<open>Keys\<close>

text \<open>The formatted key and whether it is valid; \<open>key\<close> has room for four keycodes.\<close>

definition macro_idx_format_key :: "macro_idx_key \<Rightarrow> nat \<Rightarrow> macro_idx_key \<times> bool" where
  "macro_idx_format_key key key_count =
     (let key = insertionsort_uint8 key key_count;
          key = take key_count key @ replicate (MACRO_MAX_KEYS - key_count) NO_KEY
      in (key, key ! 0 \<noteq> NO_KEY))"

fun key_cmp :: "u8 list \<Rightarrow> u8 list \<Rightarrow> int" where
  "key_cmp (a # as) (b # bs) = (let d = uint a - uint b in if d \<noteq> 0 then d else key_cmp as bs)"
| "key_cmp as bs = 0"

definition macro_idx_cmp :: "macro_idx_key \<Rightarrow> macro_idx_entry \<Rightarrow> int" where
  "macro_idx_cmp k v = key_cmp k (idx_keys v)"

subsection \<open>Lookup\<close>

text \<open>The C library's \<open>bsearch\<close>: \<open>lim\<close> elements from \<open>base\<close> on are still to be searched.\<close>

function bsearch :: "('e \<Rightarrow> int) \<Rightarrow> 'e list \<Rightarrow> nat \<Rightarrow> nat \<Rightarrow> nat option" where
  "bsearch cmp a base lim =
     (if lim = 0 then None
      else let p = base + lim div 2; c = cmp (a ! p)
           in if c = 0 then Some p
              else if c > 0 then bsearch cmp a (p + 1) ((lim - 1) div 2)
              else bsearch cmp a base (lim div 2))"
  by pat_completeness auto
termination
  by (relation "measure (\<lambda>(cmp, a, base, lim). lim)") auto

declare bsearch.simps [simp del]

definition idx_lookup :: "macro_idx_key \<Rightarrow> macro_idx_entry list \<Rightarrow> nat option" where
  "idx_lookup key idx = bsearch (macro_idx_cmp key) idx 0 MACRO_INDEX_COUNT"

definition macro_idx_lookup :: "macro_idx_key \<Rightarrow> 'a macro_index_state_scheme \<Rightarrow> nat option" where
  "macro_idx_lookup key s = idx_lookup key (macro_index s)"

subsection \<open>The data of an entry\<close>

definition macro_idx_get_data :: "nat \<Rightarrow> 'a macro_index_state_scheme \<Rightarrow> macro_idx_entry_data" where
  "macro_idx_get_data mh s =
     (let val = idx_val (macro_index s ! mh)
      in \<lparr>idx_type = (if val AND 0x8000 \<noteq> 0 then PROGRAM else MACRO), idx_data = val AND 0x7FFF\<rparr>)"

definition encode_data :: "macro_idx_entry_data \<Rightarrow> u16" where
  "encode_data d = (if idx_type d = PROGRAM then idx_data d OR 0x8000 else idx_data d)"

definition idx_set_val :: "nat \<Rightarrow> u16 \<Rightarrow> macro_idx_entry list \<Rightarrow> macro_idx_entry list" where
  "idx_set_val mh v idx = idx[mh := (idx ! mh)\<lparr>idx_val := v\<rparr>]"

definition macro_idx_set_data ::
    "nat \<Rightarrow> macro_idx_entry_data \<Rightarrow> 'a macro_index_state_scheme \<Rightarrow> 'a macro_index_state_scheme" where
  "macro_idx_set_data mh d s = s\<lparr>macro_index := idx_set_val mh (encode_data d) (macro_index s)\<rparr>"

subsection \<open>Removal and insertion\<close>

function idx_remove :: "nat \<Rightarrow> macro_idx_entry list \<Rightarrow> macro_idx_entry list" where
  "idx_remove i idx =
     (if i < MACRO_INDEX_COUNT then
        let tmp = (if i = MACRO_INDEX_COUNT - 1 then empty_entry else idx ! (i + 1));
            idx = idx[i := tmp]
        in if is_empty tmp then idx else idx_remove (i + 1) idx
      else idx)"
  by pat_completeness auto
termination
  by (relation "measure (\<lambda>(i, idx). MACRO_INDEX_COUNT - i)") auto

declare idx_remove.simps [simp del]

definition macro_idx_remove :: "nat \<Rightarrow> 'a macro_index_state_scheme \<Rightarrow> 'a macro_index_state_scheme" where
  "macro_idx_remove mi s = s\<lparr>macro_index := idx_remove mi (macro_index s)\<rparr>"

text \<open>
  The loop of \<open>macro_idx_create\<close> over the slots from the end: the slot for the key, and the array
  with the larger entries moved up by one. It always finds a slot, so the source's test
  \<open>if (!r) return NULL\<close> after it is never true.
\<close>

fun idx_make_room :: "macro_idx_key \<Rightarrow> nat \<Rightarrow> macro_idx_entry list \<Rightarrow> nat \<times> macro_idx_entry list" where
  "idx_make_room key 0 idx = (0, idx)"
| "idx_make_room key (Suc i) idx =
     (if macro_idx_cmp key (idx ! i) \<ge> 0 then (Suc i, idx)
      else if is_empty (idx ! i) then idx_make_room key i idx
      else idx_make_room key i (idx[Suc i := idx ! i]))"

definition idx_create :: "macro_idx_key \<Rightarrow> macro_idx_entry list \<Rightarrow> (nat \<times> macro_idx_entry list) option" where
  "idx_create key idx =
     (if \<not> is_empty (idx ! (MACRO_INDEX_COUNT - 1)) then None
      else let (r, idx) = idx_make_room key (MACRO_INDEX_COUNT - 1) idx
           in Some (r, idx[r := (idx ! r)\<lparr>idx_keys := key\<rparr>]))"

definition macro_idx_create ::
    "macro_idx_key \<Rightarrow> 'a macro_index_state_scheme \<Rightarrow> nat option \<times> 'a macro_index_state_scheme" where
  "macro_idx_create key s = (case idx_create key (macro_index s) of
      None \<Rightarrow> (None, s)
    | Some (r, idx) \<Rightarrow> (Some r, s\<lparr>macro_index := idx\<rparr>))"

subsection \<open>Iteration\<close>

text \<open>\<open>n\<close> entries are left from entry \<open>i\<close> on; the iterator may change the state it is given.\<close>

fun idx_iterate_from ::
    "(nat \<Rightarrow> 'a macro_index_state_scheme \<Rightarrow> 'a macro_index_state_scheme) \<Rightarrow> nat \<Rightarrow> nat
      \<Rightarrow> 'a macro_index_state_scheme \<Rightarrow> 'a macro_index_state_scheme" where
  "idx_iterate_from itr i 0 s = s"
| "idx_iterate_from itr i (Suc n) s =
     (if is_empty (macro_index s ! i) then s else idx_iterate_from itr (Suc i) n (itr i s))"

definition macro_idx_iterate ::
    "(nat \<Rightarrow> 'a macro_index_state_scheme \<Rightarrow> 'a macro_index_state_scheme)
      \<Rightarrow> 'a macro_index_state_scheme \<Rightarrow> 'a macro_index_state_scheme" where
  "macro_idx_iterate itr s = idx_iterate_from itr 0 MACRO_INDEX_COUNT s"

subsection \<open>The invariant and the map it stands for\<close>

definition entry_wf :: "macro_idx_entry \<Rightarrow> bool" where
  "entry_wf e \<longleftrightarrow> length (idx_keys e) = MACRO_MAX_KEYS
     \<and> (is_empty e \<longrightarrow> idx_keys e = idx_keys empty_entry)"

definition idx_wf :: "macro_idx_entry list \<Rightarrow> bool" where
  "idx_wf idx \<longleftrightarrow> length idx = MACRO_INDEX_COUNT \<and> list_all entry_wf idx
     \<and> sorted (map idx_keys idx) \<and> distinct (map idx_keys (filter (\<lambda>e. \<not> is_empty e) idx))"

definition key_wf :: "macro_idx_key \<Rightarrow> bool" where
  "key_wf k \<longleftrightarrow> length k = MACRO_MAX_KEYS \<and> k ! 0 \<noteq> NO_KEY"

definition idx_map :: "macro_idx_entry list \<Rightarrow> macro_idx_key \<rightharpoonup> u16" where
  "idx_map idx = map_of (map (\<lambda>e. (idx_keys e, idx_val e)) (filter (\<lambda>e. \<not> is_empty e) idx))"

subsection \<open>The array as used and free entries\<close>

definition idx_parts :: "macro_idx_entry list \<Rightarrow> macro_idx_entry list \<Rightarrow> bool" where
  "idx_parts used free \<longleftrightarrow> length used + length free = MACRO_INDEX_COUNT
     \<and> (\<forall>e\<in>set used. length (idx_keys e) = MACRO_MAX_KEYS \<and> \<not> is_empty e)
     \<and> (\<forall>e\<in>set free. idx_keys e = idx_keys empty_entry)
     \<and> sorted_wrt (<) (map idx_keys used)"

lemma free_is_empty: "idx_keys e = idx_keys empty_entry \<Longrightarrow> is_empty e"
  by (simp add: is_empty_def empty_entry_def MACRO_MAX_KEYS_def)

lemma list_less_Cons: "(x :: 'a::linorder) # xs < y # ys \<longleftrightarrow> x < y \<or> x = y \<and> xs < ys"
  by (simp add: list_less_def)

lemma key_length_4: "length (k :: u8 list) = MACRO_MAX_KEYS \<longleftrightarrow> (\<exists>a b c d. k = [a, b, c, d])"
  by (auto simp: MACRO_MAX_KEYS_def numeral_eq_Suc length_Suc_conv)

lemma key_less_empty:
  assumes "length k = MACRO_MAX_KEYS" "k ! 0 \<noteq> NO_KEY"
  shows "k < idx_keys empty_entry"
proof -
  obtain a b c d where k: "k = [a, b, c, d]" using assms(1) by (auto simp: key_length_4)
  have "idx_keys empty_entry = [NO_KEY, NO_KEY, NO_KEY, NO_KEY]"
    by (simp add: empty_entry_def MACRO_MAX_KEYS_def numeral_eq_Suc)
  moreover have "a < NO_KEY" using assms(2) k by (simp add: less_NO_KEY)
  ultimately show ?thesis by (simp add: k list_less_Cons)
qed

lemma sorted_constant: "\<forall>x\<in>set xs. x = c \<Longrightarrow> sorted xs"
  by (induction xs) auto

lemma key_cmp_sign:
  "length k = length l \<Longrightarrow> (key_cmp k l < 0 \<longleftrightarrow> k < l) \<and> (key_cmp k l = 0 \<longleftrightarrow> k = l)
     \<and> (key_cmp k l > 0 \<longleftrightarrow> l < k)"
proof (induction k l rule: key_cmp.induct)
  case (1 a as b bs)
  then show ?case
    by (cases "a = b") (auto simp: Let_def list_less_Cons word_less_def word_uint_eq_iff)
qed auto

lemma used_key:
  assumes "idx_parts used free" "e \<in> set used"
  shows "length (idx_keys e) = MACRO_MAX_KEYS" "\<not> is_empty e" "idx_keys e < idx_keys empty_entry"
  using assms key_less_empty [of "idx_keys e"] by (auto simp: idx_parts_def is_empty_def)

lemma free_key:
  assumes "idx_parts used free" "e \<in> set free"
  shows "idx_keys e = idx_keys empty_entry" "is_empty e"
  using assms free_is_empty by (auto simp: idx_parts_def)

lemma filter_partition:
  "sorted_wrt (\<lambda>x y. P x \<longrightarrow> P y) xs \<Longrightarrow> filter (\<lambda>x. \<not> P x) xs @ filter P xs = xs"
proof (induction xs)
  case (Cons x xs)
  show ?case
  proof (cases "P x")
    case True
    then have "filter (\<lambda>x. \<not> P x) xs = []" "filter P xs = xs"
      using Cons.prems by (auto simp: filter_empty_conv filter_id_conv)
    then show ?thesis using True by simp
  qed (use Cons in simp)
qed simp

lemma idx_wf_parts: "idx_wf idx \<longleftrightarrow> (\<exists>used free. idx = used @ free \<and> idx_parts used free)"
proof
  assume wf: "idx_wf idx"
  let ?u = "filter (\<lambda>e. \<not> is_empty e) idx" and ?f = "filter is_empty idx"
  have all: "entry_wf e" if "e \<in> set idx" for e
    using wf that by (auto simp: idx_wf_def list_all_iff)
  have "sorted_wrt (\<lambda>x y. idx_keys x \<le> idx_keys y) idx"
    using wf by (simp add: idx_wf_def sorted_wrt_map)
  then have "sorted_wrt (\<lambda>x y. is_empty x \<longrightarrow> is_empty y) idx"
  proof (rule sorted_wrt_mono_rel [rotated], intro impI)
    fix x y assume xy: "x \<in> set idx" "y \<in> set idx" "idx_keys x \<le> idx_keys y" "is_empty x"
    show "is_empty y"
    proof (rule ccontr)
      assume "\<not> is_empty y"
      then have "idx_keys y < idx_keys empty_entry"
        using all [OF xy(2)] by (auto simp: entry_wf_def is_empty_def intro!: key_less_empty)
      moreover have "idx_keys x = idx_keys empty_entry"
        using all [OF xy(1)] xy(4) by (simp add: entry_wf_def)
      ultimately show False using xy(3) by simp
    qed
  qed
  then have "idx = ?u @ ?f" by (rule filter_partition [symmetric])
  moreover have "sorted_wrt (<) (map idx_keys ?u)"
  proof -
    have "sorted (map idx_keys ?u)" using wf by (simp add: idx_wf_def sorted_filter)
    then show ?thesis using wf by (simp add: idx_wf_def strict_sorted_iff)
  qed
  moreover have "length ?u + length ?f = MACRO_INDEX_COUNT"
    using wf sum_length_filter_compl [of is_empty idx] by (simp add: idx_wf_def)
  ultimately show "\<exists>used free. idx = used @ free \<and> idx_parts used free"
    using all by (intro exI [of _ ?u] exI [of _ ?f]) (auto simp: idx_parts_def entry_wf_def)
next
  assume "\<exists>used free. idx = used @ free \<and> idx_parts used free"
  then obtain used free where idx: "idx = used @ free" and p: "idx_parts used free" by blast
  have "filter (\<lambda>e. \<not> is_empty e) idx = used"
    using used_key(2) [OF p] free_key(2) [OF p] by (simp add: idx filter_id_conv filter_empty_conv)
  moreover have "sorted (map idx_keys idx)"
  proof -
    have "sorted (map idx_keys used)" using p by (simp add: idx_parts_def strict_sorted_iff)
    moreover have "sorted (map idx_keys free)"
      using free_key(1) [OF p] by (intro sorted_constant [of _ "idx_keys empty_entry"]) auto
    moreover have "idx_keys x \<le> idx_keys y" if "x \<in> set used" "y \<in> set free" for x y
      using used_key(3) [OF p that(1)] free_key(1) [OF p that(2)] by (simp add: less_imp_le)
    ultimately show ?thesis by (auto simp: idx sorted_append)
  qed
  moreover have "list_all entry_wf idx"
    using p by (auto simp: idx idx_parts_def entry_wf_def list_all_iff empty_entry_def)
  ultimately show "idx_wf idx" using p
    by (simp add: idx_wf_def idx_parts_def idx strict_sorted_iff)
qed

lemma idx_map_parts:
  assumes "idx_parts used free"
  shows "idx_map (used @ free) = map_of (map (\<lambda>e. (idx_keys e, idx_val e)) used)"
proof -
  have "filter (\<lambda>e. \<not> is_empty e) (used @ free) = used"
    using used_key(2) [OF assms] free_key(2) [OF assms] by (simp add: filter_id_conv filter_empty_conv)
  then show ?thesis by (simp only: idx_map_def)
qed

lemma idx_parts_distinct: "idx_parts used free \<Longrightarrow> distinct (map idx_keys used)"
  by (simp add: idx_parts_def strict_sorted_iff)

lemma idx_map_entry:
  assumes "idx_parts used free" "e \<in> set used"
  shows "idx_map (used @ free) (idx_keys e) = Some (idx_val e)"
proof -
  have "distinct (map fst (map (\<lambda>e. (idx_keys e, idx_val e)) used))"
    using idx_parts_distinct [OF assms(1)] by (simp add: comp_def)
  then show ?thesis using assms by (simp add: idx_map_parts)
qed

lemma idx_map_None:
  assumes "idx_parts used free"
  shows "idx_map (used @ free) k = None \<longleftrightarrow> k \<notin> idx_keys ` set used"
  using assms by (auto simp: idx_map_parts map_of_eq_None_iff image_iff)

subsection \<open>Binary search\<close>

text \<open>
  On elements whose comparison with the key only ever falls, the search finds an equal element if
  there is one.
\<close>

lemma bsearch_spec:
  assumes "\<And>i j. base \<le> i \<Longrightarrow> i \<le> j \<Longrightarrow> j < base + lim \<Longrightarrow> cmp (a ! j) \<ge> 0 \<Longrightarrow> cmp (a ! i) \<ge> 0"
    and "\<And>i j. base \<le> i \<Longrightarrow> i \<le> j \<Longrightarrow> j < base + lim \<Longrightarrow> cmp (a ! j) > 0 \<Longrightarrow> cmp (a ! i) > 0"
  shows "case bsearch cmp a base lim of
      Some p \<Rightarrow> base \<le> p \<and> p < base + lim \<and> cmp (a ! p) = 0
    | None \<Rightarrow> \<forall>i. base \<le> i \<and> i < base + lim \<longrightarrow> cmp (a ! i) \<noteq> 0"
  using assms
proof (induction cmp a base lim rule: bsearch.induct)
  case (1 cmp a base lim)
  let ?p = "base + lim div 2" let ?c = "cmp (a ! ?p)"
  consider "lim = 0" | "lim \<noteq> 0" "?c = 0" | "lim \<noteq> 0" "?c > 0" | "lim \<noteq> 0" "?c < 0" by linarith
  then show ?case
  proof cases
    case 1
    then show ?thesis by (simp add: bsearch.simps)
  next
    case 2
    then show ?thesis by (simp add: bsearch.simps [of cmp a base lim] Let_def)
  next
    case 3
    have lim: "lim = lim div 2 + 1 + (lim - 1) div 2" using 3(1) by arith
    have IH: "case bsearch cmp a (?p + 1) ((lim - 1) div 2) of
        Some p \<Rightarrow> ?p + 1 \<le> p \<and> p < ?p + 1 + (lim - 1) div 2 \<and> cmp (a ! p) = 0
      | None \<Rightarrow> \<forall>i. ?p + 1 \<le> i \<and> i < ?p + 1 + (lim - 1) div 2 \<longrightarrow> cmp (a ! i) \<noteq> 0"
    proof (rule "1.IH"(1) [OF _ refl refl])
      fix i j
      assume ij: "?p + 1 \<le> i" "i \<le> j" "j < ?p + 1 + (lim - 1) div 2"
      have b: "base \<le> i" "j < base + lim" using ij lim by linarith+
      show "cmp (a ! j) \<ge> 0 \<Longrightarrow> cmp (a ! i) \<ge> 0" by (rule "1.prems"(1) [OF b(1) ij(2) b(2)])
      show "cmp (a ! j) > 0 \<Longrightarrow> cmp (a ! i) > 0" by (rule "1.prems"(2) [OF b(1) ij(2) b(2)])
    qed (use 3 in simp_all)
    have low: "cmp (a ! i) \<noteq> 0" if "base \<le> i" "i \<le> ?p" for i
    proof -
      have "?p < base + lim" using 3(1) by simp
      then show ?thesis using "1.prems"(2) [OF that] 3(2) by simp
    qed
    have step: "bsearch cmp a base lim = bsearch cmp a (?p + 1) ((lim - 1) div 2)"
      using 3 by (simp add: bsearch.simps [of cmp a base lim] Let_def)
    show ?thesis
    proof (cases "bsearch cmp a (?p + 1) ((lim - 1) div 2)")
      case None
      have "cmp (a ! i) \<noteq> 0" if "base \<le> i" "i < base + lim" for i
      proof (cases "i \<le> ?p")
        case False
        then have "?p + 1 \<le> i \<and> i < ?p + 1 + (lim - 1) div 2" using that lim by linarith
        then show ?thesis using IH None by simp
      qed (use low that in blast)
      then show ?thesis using step None by simp
    next
      case (Some q)
      then show ?thesis using IH step lim by simp
    qed
  next
    case 4
    have IH: "case bsearch cmp a base (lim div 2) of
        Some p \<Rightarrow> base \<le> p \<and> p < ?p \<and> cmp (a ! p) = 0
      | None \<Rightarrow> \<forall>i. base \<le> i \<and> i < ?p \<longrightarrow> cmp (a ! i) \<noteq> 0"
      by (rule "1.IH"(2) [OF _ refl refl]) (use 4 "1.prems" in \<open>auto intro: "1.prems"\<close>)
    have high: "cmp (a ! i) \<noteq> 0" if "?p \<le> i" "i < base + lim" for i
      using "1.prems"(1) [OF le_add1 that] 4(2) by force
    have step: "bsearch cmp a base lim = bsearch cmp a base (lim div 2)"
      using 4 by (simp add: bsearch.simps [of cmp a base lim] Let_def)
    show ?thesis
    proof (cases "bsearch cmp a base (lim div 2)")
      case None
      then show ?thesis using IH high step not_le by auto
    next
      case (Some q)
      then show ?thesis using IH step by auto
    qed
  qed
qed

lemma idx_lookup_spec:
  assumes "idx_wf idx" "key_wf k"
  shows "idx_lookup k idx = Some p \<Longrightarrow> p < MACRO_INDEX_COUNT \<and> idx_keys (idx ! p) = k"
    and "idx_lookup k idx = None \<longleftrightarrow> idx_map idx k = None"
proof -
  obtain used free where idx: "idx = used @ free" and p: "idx_parts used free"
    using assms(1) by (auto simp: idx_wf_parts)
  have len: "length idx = MACRO_INDEX_COUNT" and sorted: "sorted (map idx_keys idx)"
    using assms(1) by (auto simp: idx_wf_def)
  have lens: "length (idx_keys (idx ! i)) = length k" if "i < MACRO_INDEX_COUNT" for i
    using that assms len by (auto simp: idx_wf_def list_all_iff entry_wf_def key_wf_def)
  have cmp: "(macro_idx_cmp k (idx ! i) < 0 \<longleftrightarrow> k < idx_keys (idx ! i))
      \<and> (macro_idx_cmp k (idx ! i) = 0 \<longleftrightarrow> k = idx_keys (idx ! i))
      \<and> (macro_idx_cmp k (idx ! i) > 0 \<longleftrightarrow> idx_keys (idx ! i) < k)" if "i < MACRO_INDEX_COUNT" for i
    unfolding macro_idx_cmp_def by (rule key_cmp_sign) (simp add: lens [OF that])
  have mono: "idx_keys (idx ! i) \<le> idx_keys (idx ! j)" if "i \<le> j" "j < MACRO_INDEX_COUNT" for i j
    using sorted_nth_mono [OF sorted, of i j] that len by simp
  have spec: "case idx_lookup k idx of
      Some p \<Rightarrow> 0 \<le> p \<and> p < 0 + MACRO_INDEX_COUNT \<and> macro_idx_cmp k (idx ! p) = 0
    | None \<Rightarrow> \<forall>i. 0 \<le> i \<and> i < 0 + MACRO_INDEX_COUNT \<longrightarrow> macro_idx_cmp k (idx ! i) \<noteq> 0"
    unfolding idx_lookup_def
  proof (rule bsearch_spec)
    fix i j assume ij: "0 \<le> i" "i \<le> j" "j < 0 + MACRO_INDEX_COUNT"
    then have "j < MACRO_INDEX_COUNT" "i < MACRO_INDEX_COUNT" by simp_all
    note * = cmp [OF this(1)] cmp [OF this(2)] mono [OF ij(2) this(1)]
    show "0 \<le> macro_idx_cmp k (idx ! j) \<Longrightarrow> 0 \<le> macro_idx_cmp k (idx ! i)"
      using * by (metis leD leI order.strict_trans1 order.strict_trans2)
    show "0 < macro_idx_cmp k (idx ! j) \<Longrightarrow> 0 < macro_idx_cmp k (idx ! i)"
      using * by (metis order.strict_trans1)
  qed
  show "idx_lookup k idx = Some p \<Longrightarrow> p < MACRO_INDEX_COUNT \<and> idx_keys (idx ! p) = k"
    using spec cmp by fastforce
  have ne: "k \<noteq> idx_keys empty_entry"
    using assms(2) by (auto simp: key_wf_def empty_entry_def MACRO_MAX_KEYS_def)
  have "idx_map idx k = None \<longleftrightarrow> k \<notin> idx_keys ` set idx"
    using ne free_key(1) [OF p] by (auto simp: idx idx_map_None [OF p])
  also have "\<dots> \<longleftrightarrow> (\<forall>i < MACRO_INDEX_COUNT. idx_keys (idx ! i) \<noteq> k)"
    using len by (metis (no_types, lifting) image_iff in_set_conv_nth)
  finally show "idx_lookup k idx = None \<longleftrightarrow> idx_map idx k = None"
    using spec cmp by (cases "idx_lookup k idx") fastforce+
qed

subsection \<open>Insertion and removal\<close>

lemma cmp_negative:
  "length k = length (idx_keys e) \<Longrightarrow> (macro_idx_cmp k e \<ge> 0) = (idx_keys e \<le> k)"
  using key_cmp_sign [of k "idx_keys e"] by (auto simp: macro_idx_cmp_def not_less [symmetric])

lemma idx_make_room_skip:
  assumes "n \<le> length ys" "\<forall>e\<in>set (take n ys). macro_idx_cmp k e < 0 \<and> is_empty e"
  shows "idx_make_room k (length xs + n) (xs @ ys) = idx_make_room k (length xs) (xs @ ys)"
  using assms
proof (induction n)
  case (Suc n)
  have "ys ! n \<in> set (take (Suc n) ys)" using Suc.prems(1) by (simp add: take_Suc_conv_app_nth)
  then have "macro_idx_cmp k (ys ! n) < 0" "is_empty (ys ! n)" using Suc.prems(2) by auto
  moreover have "\<forall>e\<in>set (take n ys). macro_idx_cmp k e < 0 \<and> is_empty e"
    using Suc.prems by (auto simp: take_Suc_conv_app_nth)
  ultimately show ?case using Suc by (simp add: nth_append)
qed simp

lemma idx_make_room_shift:
  assumes "\<forall>e\<in>set as. macro_idx_cmp k e \<ge> 0" "\<forall>e\<in>set bs. macro_idx_cmp k e < 0 \<and> \<not> is_empty e"
  shows "idx_make_room k (length as + length bs) (as @ bs @ f # fs)
    = (length as, as @ hd (bs @ [f]) # bs @ fs)"
  using assms(2)
proof (induction bs arbitrary: f fs rule: rev_induct)
  case Nil
  show ?case
  proof (cases as rule: rev_cases)
    case (snoc as' a)
    then show ?thesis using assms(1) by (simp add: nth_append)
  qed simp
next
  case (snoc b bs)
  have "idx_make_room k (length as + length (bs @ [b])) (as @ (bs @ [b]) @ f # fs)
      = idx_make_room k (length as + length bs) ((as @ bs @ b # f # fs)[Suc (length as + length bs) := b])"
    using snoc.prems by (simp add: nth_append)
  also have "(as @ bs @ b # f # fs)[Suc (length as + length bs) := b] = as @ bs @ b # b # fs"
    by (simp add: list_update_append)
  also have "idx_make_room k (length as + length bs) \<dots> = (length as, as @ hd (bs @ [b]) # bs @ b # fs)"
    using snoc.prems by (intro snoc.IH) simp
  finally show ?case by (cases bs) simp_all
qed

lemma idx_create_parts:
  assumes p: "idx_parts used free" and k: "key_wf k"
  defines "as \<equiv> takeWhile (\<lambda>e. idx_keys e \<le> k) used" and "bs \<equiv> dropWhile (\<lambda>e. idx_keys e \<le> k) used"
  shows "idx_create k (used @ free) = (case free of [] \<Rightarrow> None
    | f # fs \<Rightarrow> Some (length as, as @ (hd (bs @ [f]))\<lparr>idx_keys := k\<rparr> # bs @ fs))"
proof (cases free)
  case Nil
  then have "(used @ free) ! (MACRO_INDEX_COUNT - 1) = last used"
    using p by (cases used rule: rev_cases) (auto simp: idx_parts_def MACRO_INDEX_COUNT_def nth_append)
  moreover have "last used \<in> set used"
    using p Nil by (cases used rule: rev_cases) (auto simp: idx_parts_def MACRO_INDEX_COUNT_def)
  ultimately show ?thesis
    using Nil used_key(2) [OF p] by (simp add: idx_create_def)
next
  case (Cons f fs)
  have used: "used = as @ bs" by (simp add: as_def bs_def)
  have lens: "length k = length (idx_keys e)" if "e \<in> set (used @ free)" for e
    using that used_key(1) [OF p] free_key(1) [OF p] k
    by (auto simp: key_wf_def empty_entry_def MACRO_MAX_KEYS_def)
  have A: "\<forall>e\<in>set as. macro_idx_cmp k e \<ge> 0"
    using lens by (auto simp: as_def cmp_negative dest!: set_takeWhileD)
  have sorted: "sorted (map idx_keys used)" using p by (simp add: idx_parts_def strict_sorted_iff)
  have B: "\<forall>e\<in>set bs. macro_idx_cmp k e < 0 \<and> \<not> is_empty e"
  proof
    fix e assume e: "e \<in> set bs"
    then obtain b bs' where bs: "bs = b # bs'" by (cases bs) auto
    then have "\<not> idx_keys b \<le> k" using hd_dropWhile [of "\<lambda>e. idx_keys e \<le> k" used] by (simp add: bs_def)
    moreover have "idx_keys b \<le> idx_keys e"
      using e sorted by (auto simp: used bs sorted_append)
    ultimately have "\<not> idx_keys e \<le> k" by (metis order.trans)
    moreover have "e \<in> set used" using e by (simp add: used)
    ultimately show "macro_idx_cmp k e < 0 \<and> \<not> is_empty e"
      using lens [of e] used_key(2) [OF p] cmp_negative [of k e] by auto
  qed
  have F: "\<forall>e\<in>set (take n free). macro_idx_cmp k e < 0 \<and> is_empty e" for n
  proof
    fix e assume "e \<in> set (take n free)"
    then have e: "e \<in> set free" by (rule in_set_takeD)
    then have "k < idx_keys e" using k key_less_empty free_key(1) [OF p e] by (simp add: key_wf_def)
    then show "macro_idx_cmp k e < 0 \<and> is_empty e"
      using lens [of e] e cmp_negative [of k e] free_key(2) [OF p e] by auto
  qed
  have n: "MACRO_INDEX_COUNT - 1 = length used + (length free - 1)"
    using p Cons by (auto simp: idx_parts_def)
  have "is_empty ((used @ free) ! (MACRO_INDEX_COUNT - 1))"
  proof -
    have "(used @ free) ! (MACRO_INDEX_COUNT - 1) = free ! (length free - 1)"
      by (simp only: n nth_append_length_plus)
    moreover have "free ! (length free - 1) \<in> set free" by (rule nth_mem) (simp add: Cons)
    ultimately show ?thesis using free_key(2) [OF p] by metis
  qed
  moreover have "idx_make_room k (MACRO_INDEX_COUNT - 1) (used @ free)
      = (length as, as @ hd (bs @ [f]) # bs @ fs)"
    using idx_make_room_skip [of "length free - 1" free k used] F idx_make_room_shift [OF A B, of f fs]
    by (simp only: n) (simp add: used Cons)
  ultimately show ?thesis using Cons by (simp add: idx_create_def)
qed

lemma idx_remove_parts:
  assumes "length as + length bs + length free + 1 = MACRO_INDEX_COUNT"
    "\<forall>e\<in>set bs. \<not> is_empty e" "\<forall>e\<in>set free. is_empty e"
  shows "idx_remove (length as) (as @ e # bs @ free)
    = as @ bs @ (case free of [] \<Rightarrow> [empty_entry] | f # fs \<Rightarrow> f # free)"
  using assms
proof (induction bs arbitrary: as e)
  case Nil
  have "is_empty empty_entry" by (simp add: free_is_empty)
  then show ?case using Nil
    by (cases free) (auto simp: idx_remove.simps [of "length as"] Let_def nth_append list_update_append)
next
  case (Cons b bs)
  have "idx_remove (length as) (as @ e # (b # bs) @ free) = idx_remove (length (as @ [b])) ((as @ [b]) @ b # bs @ free)"
    using Cons.prems
    by (auto simp: idx_remove.simps [of "length as"] Let_def nth_append list_update_append)
  also have "\<dots> = (as @ [b]) @ bs @ (case free of [] \<Rightarrow> [empty_entry] | f # fs \<Rightarrow> f # free)"
    by (rule Cons.IH) (use Cons.prems in auto)
  finally show ?case by simp
qed

subsection \<open>The contract of the index\<close>

text \<open>
  What the macro recorder and the main loop rely on: the index stands for a finite map; a lookup
  gives a handle for reading and writing the value; entries are created and deleted one at a time;
  creation fails only when the map has grown to its capacity.
\<close>

locale keyed_index =
  fixes wf :: "'s \<Rightarrow> bool"
    and valid :: "'k \<Rightarrow> bool"
    and abs_map :: "'s \<Rightarrow> 'k \<rightharpoonup> 'v"
    and capacity :: nat
    and lookup :: "'k \<Rightarrow> 's \<Rightarrow> 'h option"
    and get :: "'h \<Rightarrow> 's \<Rightarrow> 'v"
    and put :: "'h \<Rightarrow> 'v \<Rightarrow> 's \<Rightarrow> 's"
    and create :: "'k \<Rightarrow> 's \<Rightarrow> ('h \<times> 's) option"
    and delete :: "'h \<Rightarrow> 's \<Rightarrow> 's"
  assumes lookup_None: "wf s \<Longrightarrow> valid k \<Longrightarrow> lookup k s = None \<longleftrightarrow> abs_map s k = None"
    and lookup_get: "wf s \<Longrightarrow> valid k \<Longrightarrow> lookup k s = Some h \<Longrightarrow> abs_map s k = Some (get h s)"
    and put_law: "wf s \<Longrightarrow> valid k \<Longrightarrow> lookup k s = Some h \<Longrightarrow>
      wf (put h v s) \<and> abs_map (put h v s) = (abs_map s)(k \<mapsto> v)"
    and create_law: "wf s \<Longrightarrow> valid k \<Longrightarrow> lookup k s = None \<Longrightarrow> create k s = Some (h, s') \<Longrightarrow>
      wf s' \<and> lookup k s' = Some h \<and> abs_map s' = (abs_map s)(k \<mapsto> get h s')"
    and create_None: "wf s \<Longrightarrow> valid k \<Longrightarrow> create k s = None \<longleftrightarrow> card (dom (abs_map s)) = capacity"
    and delete_law: "wf s \<Longrightarrow> valid k \<Longrightarrow> lookup k s = Some h \<Longrightarrow>
      wf (delete h s) \<and> abs_map (delete h s) = (abs_map s)(k := None)"
begin

text \<open>Finding or creating an entry and giving it a value, as the recorder does.\<close>

definition bind_key :: "'k \<Rightarrow> 'v \<Rightarrow> 's \<Rightarrow> 's option" where
  "bind_key k v s = (case lookup k s of
      Some h \<Rightarrow> Some (put h v s)
    | None \<Rightarrow> (case create k s of None \<Rightarrow> None | Some (h, s) \<Rightarrow> Some (put h v s)))"

lemma bind_key_Some:
  assumes "wf s" "valid k" "bind_key k v s = Some s'"
  shows "wf s' \<and> abs_map s' = (abs_map s)(k \<mapsto> v)"
proof (cases "lookup k s")
  case None
  then obtain h t where t: "create k s = Some (h, t)" "s' = put h v t"
    using assms(3) by (auto simp: bind_key_def split: option.splits)
  note c = create_law [OF assms(1,2) None t(1)]
  then show ?thesis using put_law [of t k h v] assms(2) t(2) by simp
next
  case (Some h)
  then show ?thesis using assms put_law [OF assms(1,2)] by (auto simp: bind_key_def)
qed

lemma bind_key_None:
  assumes "wf s" "valid k"
  shows "bind_key k v s = None \<longleftrightarrow> abs_map s k = None \<and> card (dom (abs_map s)) = capacity"
  using assms lookup_None [OF assms] create_None [OF assms]
  by (auto simp: bind_key_def split: option.splits)

lemma lookup_after_bind:
  assumes "wf s" "valid k" "valid j" "bind_key k v s = Some s'"
  shows "j \<noteq> k \<Longrightarrow> (lookup j s' = None \<longleftrightarrow> lookup j s = None)"
    and "\<exists>h. lookup k s' = Some h \<and> get h s' = v"
proof -
  have b: "wf s'" "abs_map s' = (abs_map s)(k \<mapsto> v)" using bind_key_Some [OF assms(1,2,4)] by auto
  then show "j \<noteq> k \<Longrightarrow> (lookup j s' = None \<longleftrightarrow> lookup j s = None)"
    using lookup_None assms by simp
  have "lookup k s' \<noteq> None" using b lookup_None [of s' k] assms(2) by simp
  then obtain h where h: "lookup k s' = Some h" by blast
  then have "get h s' = v" using lookup_get [OF b(1) assms(2) h] b(2) by simp
  then show "\<exists>h. lookup k s' = Some h \<and> get h s' = v" using h by blast
qed

lemma delete_after_bind:
  assumes "wf s" "valid k" "bind_key k v s = Some s'" "lookup k s' = Some h" "abs_map s k = None"
  shows "abs_map (delete h s') = abs_map s"
proof -
  have b: "wf s'" "abs_map s' = (abs_map s)(k \<mapsto> v)" using bind_key_Some [OF assms(1-3)] by auto
  then have "abs_map (delete h s') = (abs_map s)(k := None)"
    using delete_law [OF b(1) assms(2,4)] by simp
  then show ?thesis using assms(5) by (simp add: fun_upd_idem)
qed

end

subsection \<open>The array satisfies the contract\<close>

lemma map_of_middle:
  assumes "k \<notin> fst ` set xs"
  shows "map_of (xs @ (k, v) # ys) = (map_of (xs @ ys))(k \<mapsto> v)"
proof -
  have "map_of xs k = None" using assms by (simp add: map_of_eq_None_iff)
  then show ?thesis by (auto simp: map_add_def fun_eq_iff split: option.splits)
qed

lemma map_of_delete_middle:
  assumes "k \<notin> fst ` set xs" "k \<notin> fst ` set ys"
  shows "map_of (xs @ ys) = (map_of (xs @ (k, v) # ys))(k := None)"
proof -
  have "map_of (xs @ ys) k = None" using assms by (auto simp: map_of_eq_None_iff)
  then show ?thesis by (simp add: map_of_middle [OF assms(1)] fun_upd_idem del: map_of_append)
qed

lemma idx_lookup_used:
  assumes "idx_wf idx" "key_wf k" "idx_lookup k idx = Some h"
  obtains as e bs free where "idx = (as @ e # bs) @ free" "idx_parts (as @ e # bs) free"
    "h = length as" "idx_keys e = k" "idx ! h = e"
    "k \<notin> idx_keys ` set as" "k \<notin> idx_keys ` set bs"
proof -
  obtain used free where idx: "idx = used @ free" and p: "idx_parts used free"
    using assms(1) by (auto simp: idx_wf_parts)
  have h: "h < MACRO_INDEX_COUNT" "idx_keys (idx ! h) = k"
    using idx_lookup_spec(1) [OF assms] by auto
  have "h < length used"
  proof (rule ccontr)
    assume "\<not> h < length used"
    then have "idx ! h = free ! (h - length used)" "h - length used < length free"
      using h(1) p by (auto simp: idx idx_parts_def nth_append)
    then have "idx ! h \<in> set free" by simp
    then have "k = idx_keys empty_entry" using h(2) free_key(1) [OF p] by simp
    then show False using assms(2) by (simp add: key_wf_def empty_entry_def MACRO_MAX_KEYS_def)
  qed
  then obtain as e bs where used: "used = as @ e # bs" "h = length as" "used ! h = e"
    by (metis id_take_nth_drop length_take min.absorb4)
  moreover have "idx ! h = e" using used \<open>h < length used\<close> by (simp add: idx nth_append)
  moreover from this have "idx_keys e = k" using h(2) by simp
  moreover have "distinct (map idx_keys used)" by (rule idx_parts_distinct [OF p])
  ultimately show ?thesis using that idx p by fastforce
qed

lemma idx_put_law:
  assumes "idx_wf idx" "key_wf k" "idx_lookup k idx = Some h"
  shows "idx_wf (idx_set_val h v idx) \<and> idx_map (idx_set_val h v idx) = (idx_map idx)(k \<mapsto> v)"
  using assms
proof (cases rule: idx_lookup_used)
  case (1 as e bs free)
  let ?e = "e\<lparr>idx_val := v\<rparr>"
  have eq: "idx_set_val h v idx = (as @ ?e # bs) @ free"
    using 1 by (simp add: idx_set_val_def list_update_append)
  have p: "idx_parts (as @ ?e # bs) free"
    using 1(2) by (auto simp: idx_parts_def is_empty_def)
  have "k \<notin> fst ` set (map (\<lambda>e. (idx_keys e, idx_val e)) as)" using 1(6) by (simp add: image_image)
  note mid = map_of_middle [OF this]
  have "idx_map idx = (map_of (map (\<lambda>e. (idx_keys e, idx_val e)) (as @ bs)))(k \<mapsto> idx_val e)"
    using 1(4) by (simp only: 1(1) idx_map_parts [OF 1(2)] map_append list.map mid)
  moreover have "idx_map (idx_set_val h v idx)
      = (map_of (map (\<lambda>e. (idx_keys e, idx_val e)) (as @ bs)))(k \<mapsto> v)"
  proof -
    have "idx_keys ?e = k" "idx_val ?e = v" using 1(4) by simp_all
    then show ?thesis by (simp only: eq idx_map_parts [OF p] map_append list.map mid)
  qed
  moreover have "idx_wf (idx_set_val h v idx)" unfolding eq idx_wf_parts using p by blast
  ultimately show ?thesis by simp
qed

lemma idx_delete_law:
  assumes "idx_wf idx" "key_wf k" "idx_lookup k idx = Some h"
  shows "idx_wf (idx_remove h idx) \<and> idx_map (idx_remove h idx) = (idx_map idx)(k := None)"
  using assms
proof (cases rule: idx_lookup_used)
  case (1 as e bs free)
  let ?free = "case free of [] \<Rightarrow> [empty_entry] | f # fs \<Rightarrow> f # free"
  have eq: "idx_remove h idx = (as @ bs) @ ?free"
    using idx_remove_parts [of as bs free e] used_key(2) [OF 1(2)] free_key(2) [OF 1(2)] 1(1-3)
    by (simp add: idx_parts_def)
  have p: "idx_parts (as @ bs) ?free"
    using 1(2) by (cases free) (auto simp: idx_parts_def sorted_wrt_append)
  have "k \<notin> fst ` set (map (\<lambda>e. (idx_keys e, idx_val e)) as)"
    "k \<notin> fst ` set (map (\<lambda>e. (idx_keys e, idx_val e)) bs)"
    using 1(6,7) by (simp_all add: image_image)
  note mid = map_of_delete_middle [OF this, of "idx_val e"]
  have "idx_map (idx_remove h idx) = map_of (map (\<lambda>e. (idx_keys e, idx_val e)) (as @ bs))"
    by (simp only: eq idx_map_parts [OF p])
  also have "\<dots> = (idx_map idx)(k := None)"
    using 1(4) by (simp only: 1(1) idx_map_parts [OF 1(2)] map_append list.map mid)
  finally have "idx_map (idx_remove h idx) = (idx_map idx)(k := None)" .
  moreover have "idx_wf (idx_remove h idx)" unfolding eq idx_wf_parts using p by blast
  ultimately show ?thesis by simp
qed

lemma idx_card: "idx_parts used free \<Longrightarrow> card (dom (idx_map (used @ free))) = length used"
  using distinct_card [OF idx_parts_distinct, of used free]
  by (simp add: idx_map_parts dom_map_of_conv_image_fst image_image)

lemma idx_create_None:
  assumes "idx_wf idx" "key_wf k"
  shows "idx_create k idx = None \<longleftrightarrow> card (dom (idx_map idx)) = MACRO_INDEX_COUNT"
proof -
  obtain used free where idx: "idx = used @ free" and p: "idx_parts used free"
    using assms(1) by (auto simp: idx_wf_parts)
  have "length used = MACRO_INDEX_COUNT \<longleftrightarrow> free = []" using p by (auto simp: idx_parts_def)
  then show ?thesis
    using idx_create_parts [OF p assms(2)] idx_card [OF p] by (auto simp: idx split: list.splits)
qed

lemma first_occurrence:
  "k \<notin> set xs \<Longrightarrow> k \<notin> set xs' \<Longrightarrow> xs' @ k # ys' = xs @ k # ys \<Longrightarrow> xs' = xs"
proof (induction xs arbitrary: xs')
  case Nil
  then show ?case by (cases xs') auto
next
  case (Cons x xs)
  then show ?case by (cases xs') auto
qed

lemma idx_create_law:
  assumes "idx_wf idx" "key_wf k" "idx_lookup k idx = None" "idx_create k idx = Some (h, idx')"
  shows "idx_wf idx' \<and> idx_lookup k idx' = Some h
    \<and> idx_map idx' = (idx_map idx)(k \<mapsto> idx_val (idx' ! h))"
proof -
  obtain used free where idx: "idx = used @ free" and p: "idx_parts used free"
    using assms(1) by (auto simp: idx_wf_parts)
  define as bs where "as = takeWhile (\<lambda>e. idx_keys e \<le> k) used"
    and "bs = dropWhile (\<lambda>e. idx_keys e \<le> k) used"
  have used: "used = as @ bs" by (simp add: as_def bs_def)
  obtain f fs where f: "free = f # fs" "h = length as"
    and idx': "idx' = (as @ (hd (bs @ [f]))\<lparr>idx_keys := k\<rparr> # bs) @ fs"
    using assms(4) idx_create_parts [OF p assms(2)] by (auto simp: idx as_def bs_def split: list.splits)
  let ?e = "(hd (bs @ [f]))\<lparr>idx_keys := k\<rparr>"
  have fresh: "k \<notin> idx_keys ` set used"
    using idx_lookup_spec(2) [OF assms(1,2)] assms(3) idx_map_None [OF p] by (simp add: idx)
  have strict: "sorted_wrt (<) (map idx_keys used)" using p by (simp add: idx_parts_def)
  have "\<forall>e\<in>set as. idx_keys e < k"
  proof
    fix e assume "e \<in> set as"
    then have "idx_keys e \<le> k" "e \<in> set used" using set_takeWhileD by (force simp: as_def)+
    then show "idx_keys e < k" using fresh by (auto simp: less_le)
  qed
  moreover have "k < idx_keys e" if "e \<in> set bs" for e
  proof -
    obtain b bs' where bs: "bs = b # bs'" using \<open>e \<in> set bs\<close> by (cases bs) auto
    have "\<not> idx_keys b \<le> k" 
      using hd_dropWhile [of "\<lambda>e. idx_keys e \<le> k" used] bs unfolding bs_def [symmetric] by simp
    moreover have "idx_keys b \<le> idx_keys e"
      using strict \<open>e \<in> set bs\<close> by (auto simp: used bs sorted_wrt_append less_imp_le)
    ultimately show ?thesis by (metis not_le order.strict_trans1)
  qed
  ultimately have p': "idx_parts (as @ ?e # bs) fs"
    using p assms(2) by (auto simp: idx_parts_def used f(1) sorted_wrt_append key_wf_def is_empty_def)
  have "k \<notin> fst ` set (map (\<lambda>e. (idx_keys e, idx_val e)) as)" using fresh by (simp add: used image_image image_Un)
  note mid = map_of_middle [OF this]
  have "idx_keys ?e = k" by simp
  then have m: "idx_map idx' = (idx_map idx)(k \<mapsto> idx_val ?e)"
    by (simp only: idx' idx idx_map_parts [OF p] idx_map_parts [OF p'], simp only: used map_append list.map mid)
  have wf': "idx_wf idx'" unfolding idx' idx_wf_parts using p' by blast
  then obtain h' where h': "idx_lookup k idx' = Some h'"
    using idx_lookup_spec(2) [OF wf' assms(2)] m by fastforce
  have "h' = h"
    using wf' assms(2) h'
  proof (cases rule: idx_lookup_used)
    case (1 as2 e2 bs2 free2)
    have "as2 @ e2 # bs2 = as @ ?e # bs"
    proof -
      have "filter (\<lambda>e. \<not> is_empty e) idx' = as2 @ e2 # bs2"
        using used_key(2) [OF 1(2)] free_key(2) [OF 1(2)] unfolding 1(1)
        by (simp add: filter_id_conv filter_empty_conv)
      moreover have "filter (\<lambda>e. \<not> is_empty e) idx' = as @ ?e # bs"
        using used_key(2) [OF p'] free_key(2) [OF p'] unfolding idx'
        by (simp add: filter_id_conv filter_empty_conv)
      ultimately show ?thesis by simp
    qed
    then have "map idx_keys as2 @ k # map idx_keys bs2 = map idx_keys as @ k # map idx_keys bs"
      using 1(4) by (metis (no_types, lifting) list.simps(9) map_append macro_idx_entry.select_convs(1)
          macro_idx_entry.surjective macro_idx_entry.update_convs(1))
    then have "map idx_keys as2 = map idx_keys as"
      by (rule first_occurrence [rotated 2]) (use fresh 1(6) in \<open>auto simp: used\<close>)
    then show ?thesis using 1(3) f(2) by (metis length_map)
  qed
  moreover have "idx' ! h = ?e" by (simp add: idx' f(2) nth_append)
  ultimately show ?thesis using wf' h' m by simp
qed

interpretation idx: keyed_index idx_wf key_wf idx_map MACRO_INDEX_COUNT idx_lookup
  "\<lambda>h idx. idx_val (idx ! h)" idx_set_val idx_create idx_remove
proof
  fix s k h assume *: "idx_wf s" "key_wf k" "idx_lookup k s = Some h"
  then show "idx_map s k = Some (idx_val (s ! h))"
  proof (cases rule: idx_lookup_used)
    case (1 as e bs free)
    then show ?thesis using idx_map_entry [OF 1(2), of e] by simp
  qed
qed (use idx_lookup_spec(2) idx_put_law idx_create_law idx_create_None idx_delete_law in blast)+

subsection \<open>What the index promises\<close>

lemma macro_idx_create_eq:
  "macro_idx_create k s = (Some h, s') \<longleftrightarrow>
     (\<exists>idx. idx_create k (macro_index s) = Some (h, idx) \<and> s' = s\<lparr>macro_index := idx\<rparr>)"
  by (auto simp: macro_idx_create_def split: option.splits)

lemma idx_wf_reset: "idx_wf (macro_index macro_index_reset)"
  and idx_map_reset: "idx_map (macro_index macro_index_reset) = Map.empty"
proof -
  have e: "macro_index macro_index_reset = [] @ replicate MACRO_INDEX_COUNT empty_entry"
    by (simp add: macro_index_reset_def)
  have p: "idx_parts [] (replicate MACRO_INDEX_COUNT empty_entry)" by (simp add: idx_parts_def)
  show "idx_wf (macro_index macro_index_reset)" unfolding e idx_wf_parts using p by blast
  show "idx_map (macro_index macro_index_reset) = Map.empty"
    unfolding e idx_map_parts [OF p] by simp
qed

text \<open>
  C23: the macro index implements a finite map from key combinations to 16-bit values. On a
  well-formed index the binary search finds a combination exactly when the map has it, and then
  points to its value; writing through the pointer and removing it change the map at that
  combination only; and every one of these operations leaves the index well-formed.
\<close>

theorem macro_index_refines_map:
  assumes "idx_wf (macro_index s)" "key_wf k"
  shows "(macro_idx_lookup k s = None \<longleftrightarrow> idx_map (macro_index s) k = None)
    \<and> (macro_idx_lookup k s = Some h \<longrightarrow>
        idx_map (macro_index s) k = Some (idx_val (macro_index s ! h))
      \<and> idx_wf (macro_index (macro_idx_set_data h d s))
      \<and> idx_map (macro_index (macro_idx_set_data h d s)) = (idx_map (macro_index s))(k \<mapsto> encode_data d)
      \<and> idx_wf (macro_index (macro_idx_remove h s))
      \<and> idx_map (macro_index (macro_idx_remove h s)) = (idx_map (macro_index s))(k := None))"
  using assms idx.lookup_None [OF assms] idx.lookup_get [OF assms] idx.put_law [OF assms]
    idx.delete_law [OF assms]
  by (simp add: macro_idx_lookup_def macro_idx_set_data_def macro_idx_remove_def)

theorem macro_index_refines_map_witness:
  "macro_idx_lookup [1, 2, 0xFF, 0xFF] macro_index_reset = None"
  using macro_index_refines_map [OF idx_wf_reset, of "[1, 2, 0xFF, 0xFF]"]
  by (simp add: key_wf_def MACRO_MAX_KEYS_def NO_KEY_def idx_map_reset)

text \<open>
  C24: creating an entry for a combination the index does not have keeps it well-formed, gives a
  pointer that later lookups find, and adds only this combination to the map; it fails exactly when
  all 128 entries are in use, and then changes nothing.
\<close>

theorem macro_idx_create_inserts:
  assumes "idx_wf (macro_index s)" "key_wf k" "macro_idx_lookup k s = None"
  shows "(\<forall>h s'. macro_idx_create k s = (Some h, s') \<longrightarrow> idx_wf (macro_index s') \<and> macro_idx_lookup k s' = Some h
      \<and> idx_map (macro_index s') = (idx_map (macro_index s))(k \<mapsto> idx_val (macro_index s' ! h)))
    \<and> (fst (macro_idx_create k s) = None \<longleftrightarrow> card (dom (idx_map (macro_index s))) = MACRO_INDEX_COUNT)
    \<and> (fst (macro_idx_create k s) = None \<longrightarrow> snd (macro_idx_create k s) = s)"
proof -
  note l = assms(3) [unfolded macro_idx_lookup_def]
  have "idx_wf (macro_index s') \<and> macro_idx_lookup k s' = Some h
      \<and> idx_map (macro_index s') = (idx_map (macro_index s))(k \<mapsto> idx_val (macro_index s' ! h))"
    if c: "macro_idx_create k s = (Some h, s')" for h s'
  proof -
    obtain idx where "idx_create k (macro_index s) = Some (h, idx)" "s' = s\<lparr>macro_index := idx\<rparr>"
      using c by (auto simp: macro_idx_create_eq)
    then show ?thesis
      using idx.create_law [OF assms(1,2) l] by (simp add: macro_idx_lookup_def)
  qed
  moreover have "fst (macro_idx_create k s) = None \<longleftrightarrow> idx_create k (macro_index s) = None"
    by (auto simp: macro_idx_create_def split: option.splits)
  moreover have "idx_create k (macro_index s) = None \<Longrightarrow> snd (macro_idx_create k s) = s"
    by (simp add: macro_idx_create_def)
  ultimately show ?thesis using idx.create_None [OF assms(1,2)] by simp
qed

theorem macro_idx_create_inserts_witness:
  "fst (macro_idx_create [1, 2, 0xFF, 0xFF] macro_index_reset) \<noteq> None"
proof -
  have k: "key_wf [1, 2, 0xFF, 0xFF]" by (simp add: key_wf_def MACRO_MAX_KEYS_def NO_KEY_def)
  have "macro_idx_lookup [1, 2, 0xFF, 0xFF] macro_index_reset = None"
    using idx.lookup_None [OF idx_wf_reset k] by (simp add: macro_idx_lookup_def idx_map_reset)
  from macro_idx_create_inserts [OF idx_wf_reset k this]
  show ?thesis by (simp add: idx_map_reset MACRO_INDEX_COUNT_def)
qed

text \<open>
  The trigger of a macro does not depend on the order in which its keys were pressed: the
  formatted key is sorted, padded with \<open>NO_KEY\<close>, the same for every order of the same keys, and
  valid as soon as one real key was pressed.
\<close>

theorem macro_idx_format_key_order:
  assumes "n \<le> MACRO_MAX_KEYS" "length a = MACRO_MAX_KEYS" "length b = MACRO_MAX_KEYS"
    "mset (take n a) = mset (take n b)"
  shows "macro_idx_format_key a n = macro_idx_format_key b n
    \<and> sorted (fst (macro_idx_format_key a n))
    \<and> (snd (macro_idx_format_key a n) \<longleftrightarrow> key_wf (fst (macro_idx_format_key a n)))
    \<and> (snd (macro_idx_format_key a n) \<longleftrightarrow> (\<exists>k\<in>set (take n a). k \<noteq> NO_KEY))"
proof -
  have f: "macro_idx_format_key c n
      = (let k = sort (take n c) @ replicate (MACRO_MAX_KEYS - n) NO_KEY in (k, k ! 0 \<noteq> NO_KEY))"
    if "length c = MACRO_MAX_KEYS" for c
    using that assms(1) by (simp add: macro_idx_format_key_def insertionsort_uint8_eq_sort_append Let_def)
  have "sort (take n a) = sort (take n b)" using assms(4) by (metis properties_for_sort mset_sort sorted_sort)
  moreover define k where "k = sort (take n a) @ replicate (MACRO_MAX_KEYS - n) NO_KEY"
  have "sorted k" by (auto simp: k_def sorted_append NO_KEY_max)
  moreover have len: "length k = MACRO_MAX_KEYS" using assms by (simp add: k_def)
  moreover have "k ! 0 \<noteq> NO_KEY \<longleftrightarrow> (\<exists>j\<in>set k. j \<noteq> NO_KEY)"
  proof
    show "k ! 0 \<noteq> NO_KEY \<Longrightarrow> \<exists>j\<in>set k. j \<noteq> NO_KEY"
      using len by (metis MACRO_MAX_KEYS_def nth_mem zero_less_numeral)
    assume "\<exists>j\<in>set k. j \<noteq> NO_KEY"
    then obtain i where "i < length k" "k ! i \<noteq> NO_KEY" by (auto simp: in_set_conv_nth)
    then show "k ! 0 \<noteq> NO_KEY"
      using sorted_nth_mono [OF \<open>sorted k\<close>, of 0 i] less_NO_KEY by (metis leD le0)
  qed
  moreover have "(\<exists>j\<in>set k. j \<noteq> NO_KEY) \<longleftrightarrow> (\<exists>j\<in>set (take n a). j \<noteq> NO_KEY)"
    by (auto simp: k_def)
  ultimately show ?thesis
    using f [OF assms(2)] f [OF assms(3)] by (simp add: Let_def key_wf_def k_def)
qed

theorem macro_idx_format_key_order_witness:
  "macro_idx_format_key [30, 8, 12, 0] 3 = macro_idx_format_key [12, 30, 8, 77] 3"
proof -
  have "3 \<le> MACRO_MAX_KEYS" "length [30, 8, 12, 0 :: u8] = MACRO_MAX_KEYS"
    "length [12, 30, 8, 77 :: u8] = MACRO_MAX_KEYS"
    "mset (take 3 [30, 8, 12, 0 :: u8]) = mset (take 3 [12, 30, 8, 77])"
    by (simp_all add: MACRO_MAX_KEYS_def)
  from macro_idx_format_key_order [OF this] show ?thesis by simp
qed

text \<open>
  The value of an entry holds either kind of data without loss: what \<open>macro_idx_set_data\<close>
  stores, \<open>macro_idx_get_data\<close> reads back, for every offset or program number below \<open>0x8000\<close>.
\<close>

theorem macro_idx_data_roundtrip:
  assumes "mh < length (macro_index s)" "idx_data d < 0x8000"
  shows "macro_idx_get_data mh (macro_idx_set_data mh d s) = d"
proof -
  let ?x = "idx_data d"
  have lo: "?x AND 0x7FFF = ?x" "?x AND 0x8000 = 0" using high_bit_clear [OF assms(2)] by auto
  have "(?x OR 0x8000) AND 0x8000 \<noteq> 0" "(?x OR 0x8000) AND 0x7FFF = ?x"
    using lo by (simp_all add: bit.conj_disj_distrib2)
  then show ?thesis using assms(1) lo
    by (cases d; cases "idx_type d")
      (simp_all add: macro_idx_get_data_def macro_idx_set_data_def idx_set_val_def encode_data_def Let_def)
qed

theorem macro_idx_data_roundtrip_witness:
  "macro_idx_get_data 3 (macro_idx_set_data 3 \<lparr>idx_type = PROGRAM, idx_data = 5\<rparr> macro_index_reset)
     = \<lparr>idx_type = PROGRAM, idx_data = 5\<rparr>"
proof -
  have "3 < length (macro_index macro_index_reset)"
    by (simp add: macro_index_reset_def MACRO_INDEX_COUNT_def)
  moreover have "idx_data \<lparr>idx_type = PROGRAM, idx_data = 5\<rparr> < 0x8000" by simp
  ultimately show ?thesis by (rule macro_idx_data_roundtrip)
qed

end
