(* ===== verification/MacroDefaults.thy ===== *)
theory MacroDefaults
  imports MacroIndex
begin

text \<open>
  What \<open>macro_idx_reset_defaults\<close> leaves in the index: the default macros of the board, sorted by
  key, each pointing to the offset where \<open>macros_reset_defaults\<close> stores its events.
\<close>

text \<open>The entries \<open>macro_idx_reset_defaults\<close> is to leave: key and offset of the macro, by key.\<close>

definition default_entries :: "(logical_keycode \<times> u16) list" where
  "default_entries =
    [(176, 125), (177, 205), (178, 195), (179, 135), (180, 75), (181, 140), (182, 145), (183, 150),
     (184, 100), (185, 155), (186, 160), (187, 165), (188, 215), (189, 210), (190, 105), (191, 110),
     (192, 65), (193, 80), (194, 130), (195, 85), (196, 95), (197, 200), (198, 70), (199, 190),
     (200, 90), (201, 185), (202, 5), (203, 10), (204, 15), (205, 20), (206, 25), (207, 30),
     (208, 35), (209, 40), (210, 45), (211, 50), (212, 170), (213, 220), (214, 225), (215, 230),
     (216, 0), (217, 60), (218, 120), (219, 180), (227, 55), (228, 115), (229, 175), (230, 235)]"

definition single_key :: "logical_keycode \<Rightarrow> macro_idx_key" where
  "single_key k = [k, NO_KEY, NO_KEY, NO_KEY]"

lemma idx_reset_table:
  "idx_reset_loop MACRO_INDEX_COUNT 0 empty_entry
     = map (\<lambda>(k, v). \<lparr>idx_keys = single_key k, idx_val = v\<rparr>) default_entries @ replicate 80 empty_entry"
  by code_simp

lemma default_entries_facts:
  "sorted_wrt (<) (map fst default_entries)" "list_all (\<lambda>(k, v). k \<noteq> NO_KEY) default_entries"
  "length default_entries = 48"
  by (code_simp, code_simp, code_simp)

lemma default_entries_infos:
  "list_all (\<lambda>i. map_of default_entries (fst (macro_def_infos ! i)) = Some (of_nat (5 * i))) [0..<48]"
  by code_simp

lemma idx_reset_parts:
  "idx_parts (map (\<lambda>(k, v). \<lparr>idx_keys = single_key k, idx_val = v\<rparr>) default_entries) (replicate 80 empty_entry)"
proof -
  have "sorted_wrt (<) (map (single_key \<circ> fst) default_entries)"
    using default_entries_facts(1)
    by (simp add: sorted_wrt_map single_key_def list_less_Cons sorted_wrt_mono_rel)
  moreover have "idx_keys \<circ> (\<lambda>(k, v). \<lparr>idx_keys = single_key k, idx_val = v\<rparr>) = single_key \<circ> fst"
    by (auto simp: fun_eq_iff)
  ultimately show ?thesis
    using default_entries_facts(2,3)
    by (auto simp: idx_parts_def MACRO_INDEX_COUNT_def MACRO_MAX_KEYS_def single_key_def is_empty_def
        list_all_iff)
qed

lemma map_of_entries:
  "map_of (map (\<lambda>e. (idx_keys e, idx_val e))
      (map (\<lambda>(k, v). \<lparr>idx_keys = single_key k, idx_val = v\<rparr>) kvs)) (single_key k) = map_of kvs k"
  by (induction kvs) (auto simp: single_key_def)

lemma macro_idx_reset_map:
  "idx_wf (macro_index (macro_idx_reset_defaults s))"
  "i < 48 \<Longrightarrow> idx_map (macro_index (macro_idx_reset_defaults s)) (single_key (fst (macro_def_infos ! i)))
     = Some (of_nat (5 * i))"
proof -
  note p = idx_reset_parts
  have e: "macro_index (macro_idx_reset_defaults s)
      = map (\<lambda>(k, v). \<lparr>idx_keys = single_key k, idx_val = v\<rparr>) default_entries @ replicate 80 empty_entry"
    by (simp add: macro_idx_reset_defaults_def idx_reset_table)
  show "idx_wf (macro_index (macro_idx_reset_defaults s))"
    unfolding e idx_wf_parts using p by blast
  show "idx_map (macro_index (macro_idx_reset_defaults s)) (single_key (fst (macro_def_infos ! i)))
      = Some (of_nat (5 * i))" if "i < 48"
    using that default_entries_infos unfolding e idx_map_parts [OF p] map_of_entries
    by (simp add: list_all_iff)
qed


end
