(* ===== verification/Storage.thy ===== *)
theory Storage
  imports Prelude
begin

text \<open>
  Byte storage as the components see it through \<open>storage.h\<close>: a memory of bytes, read and written
  in blocks, moved and filled. \<open>storage/avr_eeprom.c\<close>, whose loops move and fill one byte at a time,
  is modelled in full and shown to have the block semantics; the drivers of the serial memories are in
  \<open>SpiEeprom\<close> and \<open>I2cEeprom\<close>.
\<close>

type_synonym memory = "nat \<Rightarrow> u8"

subsection \<open>Block semantics\<close>

definition mem_read :: "memory \<Rightarrow> nat \<Rightarrow> nat \<Rightarrow> u8 list" where
  "mem_read m a n = map (\<lambda>i. m (a + i)) [0..<n]"

definition mem_write :: "memory \<Rightarrow> nat \<Rightarrow> u8 list \<Rightarrow> memory" where
  "mem_write m a bs = (\<lambda>x. if a \<le> x \<and> x < a + length bs then bs ! (x - a) else m x)"

definition mem_move :: "memory \<Rightarrow> nat \<Rightarrow> nat \<Rightarrow> nat \<Rightarrow> memory" where
  "mem_move m dst src n = mem_write m dst (mem_read m src n)"

definition mem_set :: "memory \<Rightarrow> nat \<Rightarrow> u8 \<Rightarrow> nat \<Rightarrow> memory" where
  "mem_set m dst c n = mem_write m dst (replicate n c)"

text \<open>Sixteen-bit values are stored low byte first.\<close>

definition bytes_of_short :: "u16 \<Rightarrow> u8 list" where
  "bytes_of_short v = [ucast v, ucast (drop_bit 8 v)]"

definition short_of_bytes :: "u8 list \<Rightarrow> u16" where
  "short_of_bytes bs = ucast (bs ! 0) OR push_bit 8 (ucast (bs ! 1))"

definition mem_read_short :: "memory \<Rightarrow> nat \<Rightarrow> u16" where
  "mem_read_short m a = short_of_bytes (mem_read m a 2)"

definition mem_write_short :: "memory \<Rightarrow> nat \<Rightarrow> u16 \<Rightarrow> memory" where
  "mem_write_short m a v = mem_write m a (bytes_of_short v)"

lemma length_mem_read [simp]: "length (mem_read m a n) = n"
  by (simp add: mem_read_def)

lemma nth_mem_read [simp]: "i < n \<Longrightarrow> mem_read m a n ! i = m (a + i)"
  by (simp add: mem_read_def)

lemma length_bytes_of_short [simp]: "length (bytes_of_short v) = 2"
  by (simp add: bytes_of_short_def)

lemma short_bytes_roundtrip [simp]: "short_of_bytes (bytes_of_short v) = v"
  by (rule bit_word_eqI)
    (auto simp: short_of_bytes_def bytes_of_short_def bit_simps not_less le_add_diff_inverse2)

lemma mem_read_cong: "(\<And>i. i < n \<Longrightarrow> m (a + i) = m' (b + i)) \<Longrightarrow> mem_read m a n = mem_read m' b n"
  by (simp add: mem_read_def)

lemma mem_read_write_same [simp]: "n = length bs \<Longrightarrow> mem_read (mem_write m a bs) a n = bs"
  by (rule nth_equalityI) (auto simp: mem_write_def)

lemma mem_read_write_apart:
  "a + n \<le> b \<or> b + length bs \<le> a \<Longrightarrow> mem_read (mem_write m b bs) a n = mem_read m a n"
  by (rule mem_read_cong) (auto simp: mem_write_def)

lemma mem_write_apart: "x < a \<or> a + length bs \<le> x \<Longrightarrow> mem_write m a bs x = m x"
  by (auto simp: mem_write_def)

lemma mem_read_short_write [simp]: "mem_read_short (mem_write_short m a v) a = v"
  by (simp add: mem_read_short_def mem_write_short_def)

lemma mem_read_short_apart:
  "a + 2 \<le> b \<or> b + length bs \<le> a \<Longrightarrow> mem_read_short (mem_write m b bs) a = mem_read_short m a"
  by (simp add: mem_read_short_def mem_read_write_apart)

lemma mem_move_apply:
  "mem_move m dst src n x = (if dst \<le> x \<and> x < dst + n then m (src + (x - dst)) else m x)"
  by (auto simp: mem_move_def mem_write_def less_diff_conv2)

lemma mem_write_snoc: "mem_write m a (bs @ [b]) = (mem_write m a bs)(a + length bs := b)"
  by (auto simp: mem_write_def fun_eq_iff nth_append)

lemma mem_write_Nil [simp]: "mem_write m a [] = m"
  by (rule ext) (auto simp: mem_write_def)

lemma mem_write_append: "mem_write m a (xs @ ys) = mem_write (mem_write m a xs) (a + length xs) ys"
  by (auto simp: mem_write_def fun_eq_iff nth_append)

lemma mem_read_append: "mem_read m a (n + k) = mem_read m a n @ mem_read m (a + n) k"
  by (rule nth_equalityI) (auto simp: nth_append)

subsection \<open>Page writes\<close>

text \<open>
  A serial EEPROM loads the bytes of a write into one page of \<open>psize\<close> bytes: behind the last byte of
  the page comes its first.
\<close>

fun page_write :: "nat \<Rightarrow> memory \<Rightarrow> nat \<Rightarrow> nat \<Rightarrow> u8 list \<Rightarrow> memory" where
  "page_write psize m page off [] = m"
| "page_write psize m page off (b # bs) = page_write psize (m(page + off := b)) page ((off + 1) mod psize) bs"

lemma page_write_within:
  assumes "off + length bs \<le> psize"
  shows "page_write psize m page off bs = mem_write m (page + off) bs"
  using assms
proof (induction bs arbitrary: m off)
  case (Cons b bs)
  show ?case
  proof (cases "bs = []")
    case True
    then show ?thesis by (auto simp: mem_write_def)
  next
    case False
    then have "(off + 1) mod psize = off + 1" using Cons.prems by (cases bs) auto
    then have "page_write psize m page off (b # bs) = mem_write (mem_write m (page + off) [b]) (page + off + 1) bs"
      using Cons by (auto simp: mem_write_def fun_upd_def intro!: arg_cong2 [where f = "\<lambda>m a. mem_write m a bs"])
    then show ?thesis using mem_write_append [of m "page + off" "[b]" bs] by simp
  qed
qed simp

lemma page_write_outside:
  "off < psize \<Longrightarrow> x < page \<or> page + psize \<le> x \<Longrightarrow> page_write psize m page off bs x = m x"
  by (induction bs arbitrary: m off) auto

text \<open>How much of a block goes to a page with \<open>remaining\<close> bytes left.\<close>

definition page_chunk :: "u8 \<Rightarrow> u16 \<Rightarrow> u8" where
  "page_chunk remaining cnt = (if unat cnt < unat remaining then ucast cnt else remaining)"

lemma page_chunk_unat: "unat (page_chunk remaining cnt) = min (unat cnt) (unat remaining)"
  using unsigned_less [of remaining, where 'a = nat] by (auto simp: page_chunk_def unat_ucast_16_8 min_def)

lemma page_chunk_rest: "unat (cnt - ucast (page_chunk remaining cnt)) = unat cnt - min (unat cnt) (unat remaining)"
  by (subst unat_sub) (auto simp: word_le_nat_alt page_chunk_unat)

lemma sint_small: "unat (n :: u8) \<le> 64 \<Longrightarrow> sint n = uint n"
proof -
  assume "unat n \<le> 64"
  then have "uint n \<le> 64" unfolding uint_nat by linarith
  moreover have "- 128 \<le> uint n" using uint_ge_0 [of n] by linarith
  ultimately show "sint n = uint n" unfolding sint_uint by (intro signed_take_bit_int_eq_self) simp_all
qed

lemma unat_and_mask: "unat (x AND mask n :: u16) = unat x mod 2 ^ n"
proof -
  have "unat (x AND mask n) = take_bit n (unat x)" by (simp only: take_bit_eq_mask [symmetric] unsigned_take_bit_eq)
  then show ?thesis by (simp only: take_bit_eq_mod)
qed

subsection \<open>The internal EEPROM\<close>

text \<open>
  \<open>avr_eeprom_memmove\<close>: byte by byte, from the end when the source is below the destination.
\<close>

fun avr_move_up :: "memory \<Rightarrow> nat \<Rightarrow> nat \<Rightarrow> nat \<Rightarrow> memory" where
  "avr_move_up m dst src 0 = m"
| "avr_move_up m dst src (Suc n) = avr_move_up (m(dst := m src)) (dst + 1) (src + 1) n"

fun avr_move_down :: "memory \<Rightarrow> nat \<Rightarrow> nat \<Rightarrow> nat \<Rightarrow> memory" where
  "avr_move_down m dst src 0 = m"
| "avr_move_down m dst src (Suc n) =
     avr_move_down (m(dst + n := m (src + n))) dst src n"

definition avr_eeprom_memmove :: "memory \<Rightarrow> nat \<Rightarrow> nat \<Rightarrow> nat \<Rightarrow> memory" where
  "avr_eeprom_memmove m dst src n =
     (if src < dst then avr_move_down m dst src n else avr_move_up m dst src n)"

definition avr_eeprom_memset :: "memory \<Rightarrow> nat \<Rightarrow> u8 \<Rightarrow> nat \<Rightarrow> memory" where
  "avr_eeprom_memset m dst c len = fold (\<lambda>i m. m(dst + i := c)) [0..<len] m"

lemma avr_move_up_eq: "dst \<le> src \<Longrightarrow> avr_move_up m dst src n = mem_move m dst src n"
proof (induction m dst src n rule: avr_move_up.induct)
  case (2 m dst src n)
  have "mem_move (m(dst := m src)) (dst + 1) (src + 1) n x = mem_move m dst src (Suc n) x" for x
  proof (cases "dst < x \<and> x < dst + Suc n")
    case True
    then obtain i where "x = dst + Suc i" by (metis less_iff_Suc_add add_Suc_right)
    then show ?thesis using "2.prems" True by (simp add: mem_move_apply)
  next
    case False
    then show ?thesis using "2.prems" by (auto simp: mem_move_apply)
  qed
  then have "mem_move (m(dst := m src)) (dst + 1) (src + 1) n = mem_move m dst src (Suc n)" ..
  then show ?case using "2.IH" "2.prems" by (simp add: fun_upd_def)
qed (simp add: mem_move_def mem_read_def)

lemma avr_move_down_eq: "src < dst \<Longrightarrow> avr_move_down m dst src n = mem_move m dst src n"
proof (induction m dst src n rule: avr_move_down.induct)
  case (2 m dst src n)
  have "mem_move (m(dst + n := m (src + n))) dst src n x = mem_move m dst src (Suc n) x" for x
  proof (cases "dst \<le> x \<and> x < dst + n")
    case True
    then obtain i where "x = dst + i" by (metis le_iff_add)
    then show ?thesis using "2.prems" True by (simp add: mem_move_apply)
  next
    case False
    then show ?thesis using "2.prems" by (auto simp: mem_move_apply)
  qed
  then have "mem_move (m(dst + n := m (src + n))) dst src n = mem_move m dst src (Suc n)" ..
  then show ?case using "2.IH" "2.prems" by (simp add: fun_upd_def)
qed (simp add: mem_move_def mem_read_def)

text \<open>
  \<open>avr_eeprom_memmove\<close> moves a block as a whole even when source and destination overlap, in
  either direction, and \<open>avr_eeprom_memset\<close> fills exactly the block it is given.
\<close>

theorem avr_eeprom_block_operations:
  "avr_eeprom_memmove m dst src n = mem_move m dst src n
   \<and> avr_eeprom_memset m dst c len = mem_set m dst c len"
proof
  show "avr_eeprom_memmove m dst src n = mem_move m dst src n"
    by (simp add: avr_eeprom_memmove_def avr_move_up_eq avr_move_down_eq)
  show "avr_eeprom_memset m dst c len = mem_set m dst c len"
  proof (induction len)
    case (Suc n)
    have "mem_set m dst c (Suc n) = (mem_set m dst c n)(dst + n := c)"
      unfolding mem_set_def replicate_Suc replicate_append_same [symmetric] by (simp add: mem_write_snoc)
    then show ?case using Suc by (simp add: avr_eeprom_memset_def)
  qed (simp add: avr_eeprom_memset_def mem_set_def)
qed

end
