(* ===== verification/Macro.thy ===== *)
theory Macro
  imports MacroIndex Storage
begin

text \<open>
  \<open>macro.c\<close>: recording, deleting and playing back macros. The macro data is a heap of blocks (a
  16-bit length and the key events) behind a 16-bit end offset; deleting a macro closes the gap and
  moves the offsets of the index down. Addresses are relative to \<open>macros_storage\<close>, an array of
  \<open>MACROS_SIZE\<close> bytes. The source never checks that bound: the memory of the model goes on behind the
  array, as the chip's does, and what the store promises is shown for recordings that stay inside
  (\<open>macro_room\<close>), while \<open>macros_append_past_the_array\<close> shows what happens to the others.

  Every call of the storage API consumes an entry of \<open>storage_faults\<close>: \<open>Some k\<close> makes it transfer \<open>k\<close>
  bytes only and report failure, \<open>None\<close> or an empty list lets it succeed. So every
  \<open>goto err\<close> of the source is a branch here.
\<close>

subsection \<open>State\<close>

record macro_recording_state =
  rec_macro :: "nat option"
  rec_cursor :: nat
  rec_index_entry :: "nat option"

record macro_playback_state =
  play_remaining :: u16
  play_cursor :: nat
  play_report :: ExtraKeyboardReport

record macro_state = macro_index_state +
  macros_storage :: memory
  storage_faults :: "nat option list"
  recording_state :: macro_recording_state
  playback_state :: macro_playback_state

definition no_recording :: macro_recording_state where
  "no_recording = \<lparr>rec_macro = None, rec_cursor = 0, rec_index_entry = None\<rparr>"

text \<open>\<open>macros_end_offset\<close> is at address 0, \<open>macros\<close> starts after it, events follow the length.\<close>

definition macros_end_offset :: nat where
  "macros_end_offset = 0"

definition macros_get_macro_pointer :: "u16 \<Rightarrow> nat" where
  "macros_get_macro_pointer offset = 2 + unat offset"

definition events_pointer :: "nat \<Rightarrow> nat" where
  "events_pointer macro = macro + MACRO_DATA_HEADER_LEN"

subsection \<open>The storage API\<close>

definition next_fault :: "'a macro_state_scheme \<Rightarrow> nat option \<times> 'a macro_state_scheme" where
  "next_fault s = (case storage_faults s of [] \<Rightarrow> (None, s) | f # fs \<Rightarrow> (f, s\<lparr>storage_faults := fs\<rparr>))"

text \<open>\<open>macro_storage_read_var\<close>: the bytes, or \<open>None\<close> for the jump to \<open>err\<close>.\<close>

definition macro_storage_read :: "nat \<Rightarrow> nat \<Rightarrow> 'a macro_state_scheme \<Rightarrow> u8 list option \<times> 'a macro_state_scheme" where
  "macro_storage_read a n s = (case next_fault s of
      (None, s) \<Rightarrow> (Some (mem_read (macros_storage s) a n), s)
    | (Some k, s) \<Rightarrow> (None, s))"

text \<open>\<open>macro_storage_write_var\<close>: whether all bytes were written.\<close>

definition macro_storage_write :: "nat \<Rightarrow> u8 list \<Rightarrow> 'a macro_state_scheme \<Rightarrow> bool \<times> 'a macro_state_scheme" where
  "macro_storage_write a bs s = (case next_fault s of
      (None, s) \<Rightarrow> (True, s\<lparr>macros_storage := mem_write (macros_storage s) a bs\<rparr>)
    | (Some k, s) \<Rightarrow> (False, s\<lparr>macros_storage := mem_write (macros_storage s) a (take k bs)\<rparr>))"

definition macro_storage_memmove :: "nat \<Rightarrow> nat \<Rightarrow> nat \<Rightarrow> 'a macro_state_scheme \<Rightarrow> bool \<times> 'a macro_state_scheme" where
  "macro_storage_memmove dst src n s = (case next_fault s of
      (None, s) \<Rightarrow> (True, s\<lparr>macros_storage := mem_move (macros_storage s) dst src n\<rparr>)
    | (Some k, s) \<Rightarrow> (False, s\<lparr>macros_storage := mem_move (macros_storage s) dst src k\<rparr>))"

subsection \<open>Management\<close>

text \<open>
  \<open>macros_reset_defaults\<close>: the loop over the default macros stops at the end marker or at a failed
  write; the number of macros written gives the end offset. Three events make a length of 3.
\<close>

fun reset_macros_loop :: "macro_def_info list \<Rightarrow> u16 \<Rightarrow> 'a macro_state_scheme \<Rightarrow> u16 \<times> 'a macro_state_scheme" where
  "reset_macros_loop [] i s = (i, s)"
| "reset_macros_loop ((lkey, hkeys) # infos) i s =
     (if lkey = NO_KEY then (i, s)
      else let (ok, s) = macro_storage_write (2 + unat i * (MACRO_DATA_HEADER_LEN + 3))
                            (bytes_of_short 3 @ hkeys) s
           in if ok then reset_macros_loop infos (i + 1) s else (i, s))"

definition macros_reset_defaults :: "'a macro_state_scheme \<Rightarrow> 'a macro_state_scheme" where
  "macros_reset_defaults s =
     (let (i, s) = reset_macros_loop macro_def_infos 0 s
      in snd (macro_storage_write macros_end_offset
                (bytes_of_short (i * of_nat (MACRO_DATA_HEADER_LEN + 3))) s))"

definition macro_shift_down_iterator ::
    "u16 \<Rightarrow> u16 \<Rightarrow> nat \<Rightarrow> 'a macro_state_scheme \<Rightarrow> 'a macro_state_scheme" where
  "macro_shift_down_iterator range_offset range_len entry s =
     (let d = macro_idx_get_data entry s in
      if idx_type d \<noteq> MACRO then s
      else if idx_data d > range_offset
      then macro_idx_set_data entry (d\<lparr>idx_data := idx_data d - range_len\<rparr>) s
      else s)"

definition delete_macro_data :: "nat \<Rightarrow> 'a macro_state_scheme \<Rightarrow> bool \<times> 'a macro_state_scheme" where
  "delete_macro_data idx_entry s =
     (let d = macro_idx_get_data idx_entry s in
      if idx_type d \<noteq> MACRO then (True, s) else
      let entry_offset = idx_data d; entry = 2 + unat entry_offset in
      case macro_storage_read macros_end_offset 2 s of (None, s) \<Rightarrow> (False, s) | (Some bs, s) \<Rightarrow>
      let end_offset = short_of_bytes bs in
      case macro_storage_read entry 2 s of (None, s) \<Rightarrow> (False, s) | (Some bs, s) \<Rightarrow>
      let entry_len = short_of_bytes bs + of_nat MACRO_DATA_HEADER_LEN;
          rest_offset = entry_offset + entry_len;
          rest_len = end_offset - rest_offset;
          (ok, s) = (if rest_len \<noteq> 0 then
              let (ok, s) = macro_storage_memmove (2 + unat entry_offset) (2 + unat rest_offset)
                              (unat rest_len) s
              in if ok then (True, macro_idx_iterate (macro_shift_down_iterator entry_offset entry_len) s)
                 else (False, s)
            else (True, s))
      in if \<not> ok then (False, s)
         else macro_storage_write macros_end_offset (bytes_of_short (end_offset - entry_len)) s)"

subsection \<open>Recording\<close>

definition macros_start_err :: "'a macro_state_scheme \<Rightarrow> bool \<times> 'a macro_state_scheme" where
  "macros_start_err s = (False, (buzzer_start_f 200 BUZZER_FAILURE_TONE s)\<lparr>recording_state := no_recording\<rparr>)"

definition macros_start_macro :: "macro_idx_key \<Rightarrow> 'a macro_state_scheme \<Rightarrow> bool \<times> 'a macro_state_scheme" where
  "macros_start_macro key s =
     (let (entry, s) = (case macro_idx_lookup key s of
          Some entry \<Rightarrow> (case delete_macro_data entry s of (ok, s) \<Rightarrow> (if ok then Some entry else None, s))
        | None \<Rightarrow> macro_idx_create key s)
      in case entry of None \<Rightarrow> macros_start_err s | Some entry \<Rightarrow>
      (case macro_storage_read macros_end_offset 2 s of
        (None, s) \<Rightarrow> macros_start_err s
      | (Some bs, s) \<Rightarrow>
          let offset = short_of_bytes bs;
              s = macro_idx_set_data entry \<lparr>idx_type = MACRO, idx_data = offset\<rparr> s;
              macro = macros_get_macro_pointer offset
          in (True, s\<lparr>recording_state := \<lparr>rec_macro = Some macro, rec_cursor = events_pointer macro,
                                         rec_index_entry = Some entry\<rparr>\<rparr>)))"

definition remove_recorded_entry :: "'a macro_state_scheme \<Rightarrow> 'a macro_state_scheme" where
  "remove_recorded_entry s = (case rec_index_entry (recording_state s) of
      Some entry \<Rightarrow> macro_idx_remove entry s | None \<Rightarrow> s)"

definition macros_commit_macro :: "'a macro_state_scheme \<Rightarrow> 'a macro_state_scheme" where
  "macros_commit_macro s =
     (let err = (\<lambda>s. buzzer_start_f 200 BUZZER_FAILURE_TONE s) in
      case rec_macro (recording_state s) of None \<Rightarrow> err s | Some macro \<Rightarrow>
      let macro_len = of_nat (rec_cursor (recording_state s) - events_pointer macro) :: u16 in
      if macro_len = 0 then (remove_recorded_entry s)\<lparr>recording_state := no_recording\<rparr>
      else case macro_storage_write macro (bytes_of_short macro_len) s of (ok, s) \<Rightarrow>
      if \<not> ok then err s else
      (case macro_storage_read macros_end_offset 2 s of (None, s) \<Rightarrow> err s | (Some bs, s) \<Rightarrow>
       (let end_offset = short_of_bytes bs + (macro_len + of_nat MACRO_DATA_HEADER_LEN) in
        case macro_storage_write macros_end_offset (bytes_of_short end_offset) s of (ok, s) \<Rightarrow>
        if \<not> ok then err s
        else (buzzer_start_f 200 BUZZER_SUCCESS_TONE s)\<lparr>recording_state := no_recording\<rparr>)))"

definition macros_abort_macro :: "'a macro_state_scheme \<Rightarrow> 'a macro_state_scheme" where
  "macros_abort_macro s = (remove_recorded_entry s)\<lparr>recording_state := no_recording\<rparr>"

text \<open>The cursor moves on whether or not the write succeeds.\<close>

definition macros_append :: "hid_keycode \<Rightarrow> 'a macro_state_scheme \<Rightarrow> bool \<times> 'a macro_state_scheme" where
  "macros_append event s =
     (let cursor = rec_cursor (recording_state s);
          s = s\<lparr>recording_state := (recording_state s)\<lparr>rec_cursor := cursor + 1\<rparr>\<rparr>
      in macro_storage_write cursor [event] s)"

subsection \<open>Playback\<close>

definition macros_start_playback :: "u16 \<Rightarrow> 'a macro_state_scheme \<Rightarrow> bool \<times> 'a macro_state_scheme" where
  "macros_start_playback macro_offset s =
     (let macro = macros_get_macro_pointer macro_offset;
          s = s\<lparr>playback_state := (playback_state s)\<lparr>play_report := ExtraKeyboardReport_clear,
                  play_cursor := events_pointer macro\<rparr>\<rparr>
      in case macro_storage_read macro 2 s of
          (None, s) \<Rightarrow> (False, s)
        | (Some bs, s) \<Rightarrow>
            (True, s\<lparr>playback_state := (playback_state s)\<lparr>play_remaining := short_of_bytes bs\<rparr>\<rparr>))"

definition macros_fill_next_report ::
    "KeyboardReport_Data \<Rightarrow> 'a macro_state_scheme \<Rightarrow> bool \<times> KeyboardReport_Data \<times> 'a macro_state_scheme" where
  "macros_fill_next_report report s =
     (if play_remaining (playback_state s) \<noteq> 0 then
        let p = playback_state s;
            s = s\<lparr>playback_state := p\<lparr>play_remaining := play_remaining p - 1,
                    play_cursor := play_cursor p + 1\<rparr>\<rparr>
        in case macro_storage_read (play_cursor p) 1 s of
            (None, s) \<Rightarrow> (False, report, buzzer_start_f 200 BUZZER_FAILURE_TONE s)
          | (Some bs, s) \<Rightarrow>
              let r = ExtraKeyboardReport_toggle (play_report p) (bs ! 0);
                  s = s\<lparr>playback_state := (playback_state s)\<lparr>play_report := r\<rparr>\<rparr>
              in (play_remaining (playback_state s) \<noteq> 0, ExtraKeyboardReport_append r report, s)
      else (False, report, s))"

subsection \<open>The macro store\<close>

text \<open>
  The contents of the index and the heap together, as a map from key combinations to what they
  trigger: a program, or the events of the block its offset points to.
\<close>

datatype trigger = Prog u16 | Events "hid_keycode list"

definition is_macro :: "u16 \<Rightarrow> bool" where
  "is_macro v \<longleftrightarrow> v AND 0x8000 = 0"

definition block_len :: "memory \<Rightarrow> nat \<Rightarrow> nat" where
  "block_len m off = unat (mem_read_short m (2 + off))"

definition block_events :: "memory \<Rightarrow> nat \<Rightarrow> hid_keycode list" where
  "block_events m off = mem_read m (4 + off) (block_len m off)"

definition trigger_of :: "memory \<Rightarrow> u16 \<Rightarrow> trigger" where
  "trigger_of m v = (if is_macro v then Events (block_events m (unat v)) else Prog (v AND 0x7FFF))"

definition macro_store :: "'a macro_state_scheme \<Rightarrow> macro_idx_key \<rightharpoonup> trigger" where
  "macro_store s k = map_option (trigger_of (macros_storage s)) (idx_map (macro_index s) k)"

definition end_of :: "memory \<Rightarrow> nat" where
  "end_of m = unat (mem_read_short m macros_end_offset)"

text \<open>
  The invariant, for all combinations outside \<open>X\<close>: blocks lie below the end offset, and no two of
  them overlap. While a macro is being recorded its own entry is exempt.
\<close>

definition heap_ok :: "macro_idx_key set \<Rightarrow> 'a macro_state_scheme \<Rightarrow> bool" where
  "heap_ok X s \<longleftrightarrow> (let m = macros_storage s; f = idx_map (macro_index s) in
     idx_wf (macro_index s) \<and> end_of m < 0x8000
     \<and> (\<forall>k v. k \<notin> X \<longrightarrow> f k = Some v \<longrightarrow> is_macro v \<longrightarrow> unat v + 2 + block_len m (unat v) \<le> end_of m)
     \<and> (\<forall>k k' v v'. k \<notin> X \<longrightarrow> k' \<notin> X \<longrightarrow> k \<noteq> k' \<longrightarrow> f k = Some v \<longrightarrow> f k' = Some v' \<longrightarrow>
          is_macro v \<longrightarrow> is_macro v' \<longrightarrow>
          unat v + 2 + block_len m (unat v) \<le> unat v' \<or> unat v' + 2 + block_len m (unat v') \<le> unat v))"

text \<open>
  Room for \<open>n\<close> more bytes of macro data inside the array: \<open>macros\<close> starts two bytes into it.
\<close>

definition macro_room :: "nat \<Rightarrow> 'a macro_state_scheme \<Rightarrow> bool" where
  "macro_room n s \<longleftrightarrow> 2 + end_of (macros_storage s) + n \<le> MACROS_SIZE"

lemma macro_room_small: "macro_room n s \<Longrightarrow> end_of (macros_storage s) + n < 0x8000"
  by (simp add: macro_room_def MACROS_SIZE_def)

lemma is_macro_iff: "is_macro v \<longleftrightarrow> unat v < 0x8000"
proof
  assume m: "is_macro v"
  have "(0x8000 :: u16) = 2 ^ 15" by simp
  then have "\<not> bit v 15" using m by (metis is_macro_def and_exp_eq_0_iff_not_bit)
  have "take_bit 15 v = v"
  proof (rule bit_word_eqI)
    fix n assume "n < LENGTH(16)"
    then have "n < 15 \<or> n = 15" by auto
    then show "bit (take_bit 15 v) n = bit v n" using \<open>\<not> bit v 15\<close> by (auto simp: bit_take_bit_iff)
  qed
  then have "unat v = take_bit 15 (unat v)" by (metis unsigned_take_bit_eq)
  then have "unat v < 2 ^ 15" by (metis take_bit_nat_less_exp)
  then show "unat v < 0x8000" by simp
next
  assume "unat v < 0x8000"
  then have "v < 0x8000" by (simp add: word_less_nat_alt)
  then show "is_macro v" using high_bit_clear by (simp add: is_macro_def)
qed

lemma macro_idx_get_data_macro:
  "macro_idx_get_data h s
     = (if is_macro (idx_val (macro_index s ! h)) then \<lparr>idx_type = MACRO, idx_data = idx_val (macro_index s ! h)\<rparr>
        else \<lparr>idx_type = PROGRAM, idx_data = idx_val (macro_index s ! h) AND 0x7FFF\<rparr>)"
proof (cases "is_macro (idx_val (macro_index s ! h))")
  case True
  then have "idx_val (macro_index s ! h) < 0x8000"
    by (simp add: is_macro_iff word_less_nat_alt)
  then show ?thesis using True high_bit_clear
    by (simp add: macro_idx_get_data_def Let_def is_macro_def)
qed (simp add: macro_idx_get_data_def Let_def is_macro_def)

text \<open>The storage API where nothing fails.\<close>

lemma storage_ok:
  assumes "storage_faults s = []"
  shows "macro_storage_read a n s = (Some (mem_read (macros_storage s) a n), s)"
    and "macro_storage_write a bs s = (True, s\<lparr>macros_storage := mem_write (macros_storage s) a bs\<rparr>)"
    and "macro_storage_memmove d a n s = (True, s\<lparr>macros_storage := mem_move (macros_storage s) d a n\<rparr>)"
  using assms
  by (simp_all add: macro_storage_read_def macro_storage_write_def macro_storage_memmove_def next_fault_def)

subsection \<open>Moving the index down\<close>

definition shift_val :: "u16 \<Rightarrow> u16 \<Rightarrow> u16 \<Rightarrow> u16" where
  "shift_val off len v = (if is_macro v \<and> v > off then v - len else v)"

definition shift_entry :: "u16 \<Rightarrow> u16 \<Rightarrow> macro_idx_entry \<Rightarrow> macro_idx_entry" where
  "shift_entry off len e = e\<lparr>idx_val := shift_val off len (idx_val e)\<rparr>"

lemma shift_iterator:
  "h < length (macro_index s) \<Longrightarrow> macro_shift_down_iterator off len h s
     = s\<lparr>macro_index := (macro_index s)[h := shift_entry off len (macro_index s ! h)]\<rparr>"
  by (auto simp: macro_shift_down_iterator_def Let_def macro_idx_get_data_macro macro_idx_set_data_def
      idx_set_val_def encode_data_def shift_entry_def shift_val_def)

lemma idx_iterate_shift:
  assumes "macro_index s = as @ bs @ free" "length as = i" "length bs + length free = n"
    "\<forall>e\<in>set bs. \<not> is_empty e" "\<forall>e\<in>set free. is_empty e"
  shows "idx_iterate_from (macro_shift_down_iterator off len) i n s
    = s\<lparr>macro_index := as @ map (shift_entry off len) bs @ free\<rparr>"
  using assms
proof (induction bs arbitrary: s as i n)
  case Nil
  then show ?case by (cases free; cases n) (auto simp: nth_append)
next
  case (Cons b bs)
  then obtain n' where n: "n = Suc n'" "length bs + length free = n'" by (cases n) auto
  let ?s = "s\<lparr>macro_index := (as @ [shift_entry off len b]) @ bs @ free\<rparr>"
  have "macro_shift_down_iterator off len i s = ?s"
    using Cons.prems by (simp add: shift_iterator nth_append list_update_append)
  moreover have "idx_iterate_from (macro_shift_down_iterator off len) (Suc i) n' ?s
      = ?s\<lparr>macro_index := (as @ [shift_entry off len b]) @ map (shift_entry off len) bs @ free\<rparr>"
    by (rule Cons.IH) (use Cons.prems n in auto)
  ultimately show ?case using Cons.prems n(1) by (simp add: nth_append)
qed

lemma macro_idx_iterate_shift:
  assumes "idx_wf (macro_index s)"
  shows "\<exists>idx. macro_idx_iterate (macro_shift_down_iterator off len) s = s\<lparr>macro_index := idx\<rparr>
    \<and> idx_wf idx \<and> idx_map idx = (\<lambda>k. map_option (shift_val off len) (idx_map (macro_index s) k))
    \<and> map idx_keys idx = map idx_keys (macro_index s)"
proof -
  obtain used free where idx: "macro_index s = used @ free" and p: "idx_parts used free"
    using assms by (auto simp: idx_wf_parts)
  let ?u = "map (shift_entry off len) used"
  have keys: "idx_keys (shift_entry off len e) = idx_keys e" for e by (simp add: shift_entry_def)
  have it: "macro_idx_iterate (macro_shift_down_iterator off len) s = s\<lparr>macro_index := ?u @ free\<rparr>"
    using idx_iterate_shift [of s "[]" used free 0 MACRO_INDEX_COUNT] idx p used_key(2) [OF p] free_key(2) [OF p]
    by (simp add: macro_idx_iterate_def idx_parts_def)
  have p': "idx_parts ?u free"
    using p by (simp add: idx_parts_def keys is_empty_def comp_def)
  have "idx_map (?u @ free) = (\<lambda>k. map_option (shift_val off len) (idx_map (macro_index s) k))"
    unfolding idx idx_map_parts [OF p] idx_map_parts [OF p']
    by (induction used) (auto simp: shift_entry_def fun_eq_iff)
  moreover have "idx_wf (?u @ free)" unfolding idx_wf_parts using p' by blast
  moreover have "map idx_keys (?u @ free) = map idx_keys (macro_index s)" by (simp add: idx keys)
  ultimately show ?thesis using it by blast
qed

subsection \<open>Deleting\<close>

lemma bsearch_cong:
  assumes "\<And>i. i < base + lim \<Longrightarrow> cmp (a ! i) = cmp (b ! i)"
  shows "bsearch cmp a base lim = bsearch cmp b base lim"
  using assms
proof (induction cmp a base lim rule: bsearch.induct)
  case (1 cmp a base lim)
  have mid: "cmp (a ! (base + lim div 2)) = cmp (b ! (base + lim div 2))" if "lim \<noteq> 0"
    using that "1.prems" by simp
  have "bsearch cmp a (base + lim div 2 + 1) ((lim - 1) div 2) = bsearch cmp b (base + lim div 2 + 1) ((lim - 1) div 2)"
    if "lim \<noteq> 0" "cmp (a ! (base + lim div 2)) > 0"
    using that by (intro "1.IH"(1) [OF _ refl refl]) (auto intro!: "1.prems")
  moreover have "bsearch cmp a base (lim div 2) = bsearch cmp b base (lim div 2)"
    if "lim \<noteq> 0" "cmp (a ! (base + lim div 2)) < 0"
    using that by (intro "1.IH"(2) [OF _ refl refl]) (auto intro!: "1.prems")
  ultimately show ?case
    using mid by (subst (1 2) bsearch.simps) (auto simp: Let_def)
qed

lemma idx_lookup_keys:
  assumes "map idx_keys idx = map idx_keys idx'" "length idx = MACRO_INDEX_COUNT"
  shows "idx_lookup k idx = idx_lookup k idx'"
  unfolding idx_lookup_def
proof (rule bsearch_cong)
  fix i assume "i < 0 + MACRO_INDEX_COUNT"
  then have "map idx_keys idx ! i = idx_keys (idx ! i)" "map idx_keys idx' ! i = idx_keys (idx' ! i)"
    using assms by (metis add_0 length_map nth_map)+
  then show "macro_idx_cmp k (idx ! i) = macro_idx_cmp k (idx' ! i)"
    using assms(1) by (simp add: macro_idx_cmp_def)
qed

lemma block_cong:
  assumes "\<And>i. i < 2 + block_len m w \<Longrightarrow> m' (2 + w' + i) = m (2 + w + i)"
  shows "block_len m' w' = block_len m w \<and> block_events m' w' = block_events m w"
proof
  have "mem_read m' (2 + w') 2 = mem_read m (2 + w) 2"
    by (rule mem_read_cong) (use assms in auto)
  then show len: "block_len m' w' = block_len m w" by (simp add: block_len_def mem_read_short_def)
  have "m' (4 + w' + i) = m (4 + w + i)" if "i < block_len m w" for i
    using that assms [of "2 + i"] by (simp add: add.commute add.left_commute numeral_eq_Suc)
  then show "block_events m' w' = block_events m w"
    unfolding block_events_def len by (intro mem_read_cong) auto
qed

lemma block_after_move:
  fixes off L e w :: nat and m :: memory and v :: u16
  defines "m' \<equiv> mem_write_short (mem_move m (2 + off) (2 + (off + L)) (e - (off + L))) macros_end_offset v"
  shows "off + L \<le> w \<Longrightarrow> w + 2 + block_len m w \<le> e \<Longrightarrow>
      block_len m' (w - L) = block_len m w \<and> block_events m' (w - L) = block_events m w"
    and "w + 2 + block_len m w \<le> off \<Longrightarrow>
      block_len m' w = block_len m w \<and> block_events m' w = block_events m w"
proof -
  assume w: "off + L \<le> w" "w + 2 + block_len m w \<le> e"
  show "block_len m' (w - L) = block_len m w \<and> block_events m' (w - L) = block_events m w"
  proof (rule block_cong)
    fix i assume i: "i < 2 + block_len m w"
    let ?x = "2 + (w - L) + i"
    have x: "2 + off \<le> ?x \<and> ?x < 2 + off + (e - (off + L))" using w i by linarith
    have src: "2 + (off + L) + (?x - (2 + off)) = 2 + w + i" using w by linarith
    have "m' ?x = mem_move m (2 + off) (2 + (off + L)) (e - (off + L)) ?x"
      by (simp add: m'_def mem_write_short_def mem_write_def macros_end_offset_def)
    also have "\<dots> = m (2 + w + i)"
      unfolding mem_move_apply if_P [OF x] src ..
    finally show "m' ?x = m (2 + w + i)" .
  qed
next
  assume "w + 2 + block_len m w \<le> off"
  then show "block_len m' w = block_len m w \<and> block_events m' w = block_events m w"
    by (intro block_cong)
      (auto simp: m'_def mem_write_short_def mem_write_def macros_end_offset_def mem_move_apply)
qed

lemma heap_okD:
  assumes "heap_ok X s" "k \<notin> X" "idx_map (macro_index s) k = Some v" "is_macro v"
  shows "unat v + 2 + block_len (macros_storage s) (unat v) \<le> end_of (macros_storage s)"
    and "k' \<notin> X \<Longrightarrow> k \<noteq> k' \<Longrightarrow> idx_map (macro_index s) k' = Some v' \<Longrightarrow> is_macro v' \<Longrightarrow>
      unat v + 2 + block_len (macros_storage s) (unat v) \<le> unat v'
      \<or> unat v' + 2 + block_len (macros_storage s) (unat v') \<le> unat v"
  using assms unfolding heap_ok_def Let_def by blast+

lemma heap_ok_wf: "heap_ok X s \<Longrightarrow> idx_wf (macro_index s)" "heap_ok X s \<Longrightarrow> end_of (macros_storage s) < 0x8000"
  by (auto simp: heap_ok_def Let_def)

lemma heap_ok_mono: "heap_ok X s \<Longrightarrow> X \<subseteq> Y \<Longrightarrow> heap_ok Y s"
  unfolding heap_ok_def Let_def by blast

text \<open>
  What a successful deletion does, in terms of numbers: the block of \<open>L\<close> bytes at \<open>off\<close> is gone, the
  offsets above it are smaller by \<open>L\<close>, and so is the end.
\<close>

lemma delete_macro_data_step:
  assumes ok: "heap_ok {} s" and nf: "storage_faults s = []" and k: "key_wf k"
    and h: "macro_idx_lookup k s = Some h" and v: "idx_map (macro_index s) k = Some v" "is_macro v"
  defines "m \<equiv> macros_storage s"
  defines "L \<equiv> 2 + block_len m (unat v)"
  shows "\<exists>idx. delete_macro_data h s = (True, s\<lparr>macro_index := idx, macros_storage :=
      mem_write_short (mem_move m (2 + unat v) (2 + (unat v + L)) (end_of m - (unat v + L)))
        macros_end_offset (of_nat (end_of m - L))\<rparr>)
    \<and> idx_wf idx \<and> map idx_keys idx = map idx_keys (macro_index s)
    \<and> idx_map idx = (\<lambda>j. map_option (shift_val v (of_nat L)) (idx_map (macro_index s) j))"
proof -
  have hv: "idx_val (macro_index s ! h) = v"
    using idx.lookup_get [OF heap_ok_wf(1) [OF ok] k] h v(1) by (simp add: macro_idx_lookup_def)
  define E where "E = mem_read_short m macros_end_offset"
  have room: "unat v + L \<le> end_of m" "end_of m < 0x8000"
    using heap_okD(1) [OF ok _ v] heap_ok_wf(2) [OF ok] by (simp_all add: m_def L_def)
  define len where "len = mem_read_short m (2 + unat v) + of_nat MACRO_DATA_HEADER_LEN"
  have "unat (mem_read_short m (2 + unat v)) + 2 < 2 ^ 16"
    using room unsigned_less [of v, where 'a = nat] by (simp add: L_def block_len_def)
  then have len: "unat len = L"
    using unat_add_lem [of "mem_read_short m (2 + unat v)" 2]
    by (simp add: len_def L_def block_len_def MACRO_DATA_HEADER_LEN_def)
  then have len_eq: "len = of_nat L" by (metis of_nat_unat ucast_id)
  have rest: "unat (v + len) = unat v + L"
    using unat_add_lem [of v len] room len by simp
  have "v + len \<le> E"
    using room(1) rest by (simp add: word_le_nat_alt end_of_def E_def)
  then have rlen: "unat (E - (v + len)) = end_of m - (unat v + L)"
    by (simp add: unat_sub rest end_of_def E_def)
  define rl where "rl = E - (v + len)"
  have "len \<le> E"
    using room(1) len by (simp add: word_le_nat_alt end_of_def E_def)
  then have "unat (E - len) = end_of m - L"
    by (simp add: unat_sub len end_of_def E_def)
  then have new_end: "E - len = of_nat (end_of m - L)"
    by (metis of_nat_unat ucast_id)
  note calc = Let_def macro_idx_get_data_macro storage_ok m_def [symmetric] E_def [symmetric]
    mem_read_short_def [symmetric] mem_write_short_def len_def [symmetric] rl_def [symmetric]
  show ?thesis
  proof (cases "rl = 0")
    case True
    then have e: "end_of m - (unat v + L) = 0" using rlen by (simp add: rl_def)
    have top: "\<not> v < w" if j: "idx_map (macro_index s) j = Some w" "is_macro w" for j w
    proof (cases "j = k")
      case False
      have "unat w + 2 + block_len m (unat w) \<le> end_of m"
        using heap_okD(1) [OF ok _ j] by (simp add: m_def)
      moreover have "unat v + L \<le> unat w \<or> unat w + 2 + block_len m (unat w) \<le> unat v"
        using heap_okD(2) [OF ok _ v _ _ j] False by (auto simp: m_def L_def)
      ultimately show ?thesis using e room(1) by (auto simp: word_less_nat_alt)
    qed (use j v in simp)
    have "idx_map (macro_index s) = (\<lambda>j. map_option (shift_val v (of_nat L)) (idx_map (macro_index s) j))"
    proof
      fix j show "idx_map (macro_index s) j = map_option (shift_val v (of_nat L)) (idx_map (macro_index s) j)"
        using top by (cases "idx_map (macro_index s) j") (auto simp: shift_val_def)
    qed
    moreover have "mem_move m (2 + unat v) (2 + (unat v + L)) 0 = m"
      by (simp add: mem_move_def mem_read_def)
    moreover have "delete_macro_data h s = (True, s\<lparr>macros_storage :=
        mem_write m macros_end_offset (bytes_of_short (E - len))\<rparr>)"
      using hv v(2) nf True
      by (simp add: delete_macro_data_def calc del: add_2_eq_Suc add_2_eq_Suc' right_minus_eq)
    ultimately show ?thesis
      using new_end heap_ok_wf(1) [OF ok] e
      by (intro exI [of _ "macro_index s"]) (simp add: mem_write_short_def)
  next
    case False
    let ?s = "s\<lparr>macros_storage := mem_move m (2 + unat v) (2 + unat (v + len)) (unat rl)\<rparr>"
    obtain idx where idx: "macro_idx_iterate (macro_shift_down_iterator v len) ?s = ?s\<lparr>macro_index := idx\<rparr>"
      "idx_wf idx" "map idx_keys idx = map idx_keys (macro_index s)"
      "idx_map idx = (\<lambda>j. map_option (shift_val v (of_nat L)) (idx_map (macro_index s) j))"
      using macro_idx_iterate_shift [of ?s v len] heap_ok_wf(1) [OF ok] len_eq by auto
    have "delete_macro_data h s = (True, ?s\<lparr>macro_index := idx, macros_storage :=
        mem_write (macros_storage ?s) macros_end_offset (bytes_of_short (E - len))\<rparr>)"
      using hv v(2) nf False idx(1)
      by (simp add: delete_macro_data_def calc del: add_2_eq_Suc add_2_eq_Suc' right_minus_eq)
    then show ?thesis
      using new_end rest rlen idx(2-4)
      by (intro exI [of _ idx]) (simp add: mem_write_short_def rl_def)
  qed
qed

text \<open>Every other block after the deletion: where it is, how long it is and what it holds.\<close>

lemma moved_block:
  fixes v w :: u16 and m :: memory
  defines "L \<equiv> 2 + block_len m (unat v)"
  defines "m' \<equiv> mem_write_short (mem_move m (2 + unat v) (2 + (unat v + L)) (end_of m - (unat v + L)))
      macros_end_offset (of_nat (end_of m - L))"
  defines "w' \<equiv> shift_val v (of_nat L) w"
  assumes v: "unat v + L \<le> end_of m" "end_of m < 0x8000"
    and w: "is_macro w" "unat w + 2 + block_len m (unat w) \<le> end_of m"
    and apart: "unat v + L \<le> unat w \<or> unat w + 2 + block_len m (unat w) \<le> unat v"
  shows "is_macro w' \<and> unat w' = (if unat v + L \<le> unat w then unat w - L else unat w)
    \<and> block_len m' (unat w') = block_len m (unat w) \<and> block_events m' (unat w') = block_events m (unat w)"
proof (cases "unat v + L \<le> unat w")
  case True
  have L: "unat (of_nat L :: u16) = L" using v by (simp add: unat_of_nat)
  have "v < w" using True by (simp add: word_less_nat_alt L_def)
  then have w': "w' = w - of_nat L" using w(1) by (simp add: w'_def shift_val_def)
  have "of_nat L \<le> w" using True L by (simp add: word_le_nat_alt)
  then have u: "unat w' = unat w - L" using L by (simp add: w' unat_sub)
  moreover have "is_macro w'" using u w(1) by (simp add: is_macro_iff)
  ultimately show ?thesis
    using True block_after_move(1) [OF True w(2), folded m'_def] by (simp add: m'_def)
next
  case False
  then have below: "unat w + 2 + block_len m (unat w) \<le> unat v" using apart by simp
  then have "\<not> v < w" by (simp add: word_less_nat_alt)
  then have "w' = w" by (simp add: w'_def shift_val_def)
  then show ?thesis using False w(1) block_after_move(2) [OF below] by (simp add: m'_def)
qed

lemma end_of_new:
  "n < 0x8000 \<Longrightarrow> end_of (mem_write_short m macros_end_offset (of_nat n)) = n"
  by (simp add: end_of_def unat_of_nat)

lemma delete_macro_data_ok:
  assumes ok: "heap_ok {} s" and nf: "storage_faults s = []" and k: "key_wf k"
    and h: "macro_idx_lookup k s = Some h"
  shows "\<exists>s'. delete_macro_data h s = (True, s') \<and> heap_ok {k} s' \<and> storage_faults s' = []
    \<and> macro_idx_lookup k s' = Some h \<and> (\<forall>j. j \<noteq> k \<longrightarrow> macro_store s' j = macro_store s j)
    \<and> dom (idx_map (macro_index s')) = dom (idx_map (macro_index s))
    \<and> end_of (macros_storage s') \<le> end_of (macros_storage s)
    \<and> (\<forall>a. 2 + end_of (macros_storage s) \<le> a \<longrightarrow> macros_storage s' a = macros_storage s a)"
proof -
  note wf = heap_ok_wf(1) [OF ok]
  obtain v where v: "idx_map (macro_index s) k = Some v" "idx_val (macro_index s ! h) = v"
    using idx.lookup_get [OF wf k] h by (auto simp: macro_idx_lookup_def)
  show ?thesis
  proof (cases "is_macro v")
    case False
    then have "delete_macro_data h s = (True, s)"
      using v(2) by (simp add: delete_macro_data_def Let_def macro_idx_get_data_macro)
    then show ?thesis using heap_ok_mono [OF ok, of "{k}"] nf h by auto
  next
    case True
    define m L where "m = macros_storage s" and "L = 2 + block_len m (unat v)"
    define m' where "m' = mem_write_short (mem_move m (2 + unat v) (2 + (unat v + L)) (end_of m - (unat v + L)))
        macros_end_offset (of_nat (end_of m - L))"
    obtain idx where del: "delete_macro_data h s = (True, s\<lparr>macro_index := idx, macros_storage := m'\<rparr>)"
      and idx: "idx_wf idx" "map idx_keys idx = map idx_keys (macro_index s)"
        "idx_map idx = (\<lambda>j. map_option (shift_val v (of_nat L)) (idx_map (macro_index s) j))"
      using delete_macro_data_step [OF ok nf k h v(1) True, folded m_def, folded L_def, folded m'_def] by blast
    let ?s = "s\<lparr>macro_index := idx, macros_storage := m'\<rparr>"
    have room: "unat v + L \<le> end_of m" "end_of m < 0x8000"
      using heap_okD(1) [OF ok _ v(1) True] heap_ok_wf(2) [OF ok] by (simp_all add: m_def L_def)
    have end': "end_of m' = end_of m - L" using room(2) by (simp add: m'_def end_of_new)
    have tail: "m' a = m a" if "2 + end_of m \<le> a" for a
      using that room(1)
      by (auto simp: m'_def mem_write_short_def mem_write_apart mem_move_apply macros_end_offset_def)
    have moved: "is_macro (shift_val v (of_nat L) w)
        \<and> unat (shift_val v (of_nat L) w) = (if unat v + L \<le> unat w then unat w - L else unat w)
        \<and> block_len m' (unat (shift_val v (of_nat L) w)) = block_len m (unat w)
        \<and> block_events m' (unat (shift_val v (of_nat L) w)) = block_events m (unat w)
        \<and> (unat v + L \<le> unat w \<or> unat w + 2 + block_len m (unat w) \<le> unat v)
        \<and> unat w + 2 + block_len m (unat w) \<le> end_of m"
      if j: "j \<noteq> k" "idx_map (macro_index s) j = Some w" "is_macro w" for j w
    proof -
      have a: "unat v + L \<le> unat w \<or> unat w + 2 + block_len m (unat w) \<le> unat v"
        using heap_okD(2) [OF ok _ v(1) True _ _ j(2,3)] j(1) by (auto simp: m_def L_def)
      have b: "unat w + 2 + block_len m (unat w) \<le> end_of m"
        using heap_okD(1) [OF ok _ j(2,3)] by (simp add: m_def)
      show ?thesis
        using moved_block [OF room [unfolded L_def] j(3) b a [unfolded L_def], folded L_def, folded m'_def]
          a b by blast
    qed
    have prog: "\<not> is_macro w \<Longrightarrow> shift_val v (of_nat L) w = w" for w by (simp add: shift_val_def)
    have store: "macro_store ?s j = macro_store s j" if "j \<noteq> k" for j
    proof (cases "idx_map (macro_index s) j")
      case (Some w)
      have "trigger_of m' (shift_val v (of_nat L) w) = trigger_of m w"
      proof (cases "is_macro w")
        case True
        have "is_macro (shift_val v (of_nat L) w)"
          "block_events m' (unat (shift_val v (of_nat L) w)) = block_events m (unat w)"
          using moved [OF that Some True] by blast+
        then show ?thesis using True by (simp only: trigger_of_def if_True)
      qed (simp add: trigger_of_def prog)
      then show ?thesis using Some by (simp add: macro_store_def idx(3) m_def)
    qed (simp add: macro_store_def idx(3))
    have orig: "\<exists>w. idx_map (macro_index s) j = Some w \<and> w' = shift_val v (of_nat L) w \<and> is_macro w"
      if "j \<noteq> k" "idx_map idx j = Some w'" "is_macro w'" for j w'
    proof -
      obtain w where w: "idx_map (macro_index s) j = Some w" "w' = shift_val v (of_nat L) w"
        using \<open>idx_map idx j = Some w'\<close> by (auto simp: idx(3))
      moreover have "is_macro w" using prog [of w] w(2) \<open>is_macro w'\<close> by metis
      ultimately show ?thesis by blast
    qed
    have "heap_ok {k} ?s"
      unfolding heap_ok_def Let_def
    proof (intro conjI allI impI; simp?)
      show "idx_wf idx" by (rule idx(1))
      show "end_of m' < 0x8000" using end' room(2) by simp
      fix j w' assume j: "j \<noteq> k" "idx_map idx j = Some w'" "is_macro w'"
      obtain w where w: "idx_map (macro_index s) j = Some w" "w' = shift_val v (of_nat L) w" "is_macro w"
        using orig [OF j] by blast
      note mw = moved [OF j(1) w(1,3), folded w(2)]
      then show "Suc (Suc (unat w' + block_len m' (unat w'))) \<le> end_of m'"
        unfolding end' using room(1) by (auto split: if_splits)
      fix i x' assume i: "i \<noteq> k" "j \<noteq> i" "idx_map idx i = Some x'" "is_macro x'"
      obtain x where x: "idx_map (macro_index s) i = Some x" "x' = shift_val v (of_nat L) x" "is_macro x"
        using orig [OF i(1,3,4)] by blast
      note mx = moved [OF i(1) x(1,3), folded x(2)]
      have "unat w + 2 + block_len m (unat w) \<le> unat x \<or> unat x + 2 + block_len m (unat x) \<le> unat w"
        using heap_okD(2) [OF ok _ w(1,3) _ i(2) x(1,3)] by (simp add: m_def)
      then show "Suc (Suc (unat w' + block_len m' (unat w'))) \<le> unat x'
          \<or> Suc (Suc (unat x' + block_len m' (unat x'))) \<le> unat w'"
        using mw mx by (auto split: if_splits)
    qed
    moreover have "macro_idx_lookup k ?s = Some h"
      using h idx_lookup_keys [OF idx(2), of k] idx(1) by (simp add: macro_idx_lookup_def idx_wf_def)
    moreover have "dom (idx_map idx) = dom (idx_map (macro_index s))" by (auto simp: idx(3))
    ultimately show ?thesis using del store nf end' tail by (auto simp: m_def)
  qed
qed

subsection \<open>Recording\<close>

text \<open>
  A macro for \<open>k\<close> is being recorded and \<open>evs\<close> have been appended: its entry points to the end of
  the heap, the events are there already, and everything else is in order.
\<close>

definition recording :: "macro_idx_key \<Rightarrow> hid_keycode list \<Rightarrow> 'a macro_state_scheme \<Rightarrow> bool" where
  "recording k evs s \<longleftrightarrow> (let m = macros_storage s; e = end_of m in
     heap_ok {k} s \<and> storage_faults s = [] \<and> idx_map (macro_index s) k = Some (of_nat e)
     \<and> recording_state s = \<lparr>rec_macro = Some (2 + e), rec_cursor = 4 + e + length evs,
                            rec_index_entry = macro_idx_lookup k s\<rparr>
     \<and> mem_read m (4 + e) (length evs) = evs)"

lemma macros_start_macro_records:
  assumes ok: "heap_ok {} s" and nf: "storage_faults s = []" and k: "key_wf k"
    and room: "k \<in> dom (idx_map (macro_index s)) \<or> card (dom (idx_map (macro_index s))) < MACRO_INDEX_COUNT"
  shows "\<exists>s'. macros_start_macro k s = (True, s') \<and> recording k [] s'
    \<and> (\<forall>j. j \<noteq> k \<longrightarrow> macro_store s' j = macro_store s j)
    \<and> end_of (macros_storage s') \<le> end_of (macros_storage s)
    \<and> (\<forall>a. 2 + end_of (macros_storage s) \<le> a \<longrightarrow> macros_storage s' a = macros_storage s a)"
proof -
  note wf = heap_ok_wf(1) [OF ok]
  have found: "\<exists>h t. (case macro_idx_lookup k s of
        Some entry \<Rightarrow> (case delete_macro_data entry s of (ok, s) \<Rightarrow> (if ok then Some entry else None, s))
      | None \<Rightarrow> macro_idx_create k s) = (Some h, t)
    \<and> heap_ok {k} t \<and> storage_faults t = [] \<and> macro_idx_lookup k t = Some h
    \<and> (\<forall>j. j \<noteq> k \<longrightarrow> macro_store t j = macro_store s j)
    \<and> end_of (macros_storage t) \<le> end_of (macros_storage s)
    \<and> (\<forall>a. 2 + end_of (macros_storage s) \<le> a \<longrightarrow> macros_storage t a = macros_storage s a)"
  proof (cases "macro_idx_lookup k s")
    case (Some h)
    then show ?thesis using delete_macro_data_ok [OF ok nf k Some] by auto
  next
    case None
    have "k \<notin> dom (idx_map (macro_index s))"
      using idx.lookup_None [OF wf k] None by (auto simp: macro_idx_lookup_def)
    then obtain h idx' where c: "idx_create k (macro_index s) = Some (h, idx')"
      using room idx.create_None [OF wf k] by fastforce
    have law: "idx_wf idx'" "idx_lookup k idx' = Some h"
      "idx_map idx' = (idx_map (macro_index s))(k \<mapsto> idx_val (idx' ! h))"
      using idx.create_law [OF wf k _ c] None by (auto simp: macro_idx_lookup_def)
    have "heap_ok {k} (s\<lparr>macro_index := idx'\<rparr>)"
      using heap_ok_mono [OF ok, of "{k}"] law(1,3) by (simp add: heap_ok_def Let_def)
    then show ?thesis using None c law nf
      by (auto simp: macro_idx_create_def macro_idx_lookup_def macro_store_def)
  qed
  then obtain h t where t: "(case macro_idx_lookup k s of
        Some entry \<Rightarrow> (case delete_macro_data entry s of (ok, s) \<Rightarrow> (if ok then Some entry else None, s))
      | None \<Rightarrow> macro_idx_create k s) = (Some h, t)" "heap_ok {k} t" "storage_faults t = []"
      "macro_idx_lookup k t = Some h" "\<forall>j. j \<noteq> k \<longrightarrow> macro_store t j = macro_store s j"
      "end_of (macros_storage t) \<le> end_of (macros_storage s)"
      "\<forall>a. 2 + end_of (macros_storage s) \<le> a \<longrightarrow> macros_storage t a = macros_storage s a" by blast
  define e where "e = mem_read_short (macros_storage t) macros_end_offset"
  let ?t = "macro_idx_set_data h \<lparr>idx_type = MACRO, idx_data = e\<rparr> t"
  have put: "idx_wf (macro_index ?t)" "idx_map (macro_index ?t) = (idx_map (macro_index t))(k \<mapsto> e)"
    using idx.put_law [OF heap_ok_wf(1) [OF t(2)] k, of h e] t(4)
    by (auto simp: macro_idx_lookup_def macro_idx_set_data_def encode_data_def)
  have keys: "macro_idx_lookup k ?t = Some h"
  proof -
    have "map idx_keys (macro_index ?t) = map idx_keys (macro_index t)"
      by (cases "h < length (macro_index t)")
        (simp_all add: macro_idx_set_data_def idx_set_val_def map_update list_update_beyond list_update_same_conv)
    then show ?thesis
      using idx_lookup_keys [of "macro_index ?t" "macro_index t" k] put(1) t(4)
      by (simp add: macro_idx_lookup_def idx_wf_def)
  qed
  have m: "macros_storage ?t = macros_storage t" "storage_faults ?t = storage_faults t"
    by (simp_all add: macro_idx_set_data_def)
  let ?s = "?t\<lparr>recording_state := \<lparr>rec_macro = Some (2 + unat e), rec_cursor = 2 + unat e + 2,
      rec_index_entry = Some h\<rparr>\<rparr>"
  have "macros_start_macro k s = (True, ?s)"
    using t(1,3) by (simp add: macros_start_macro_def storage_ok Let_def e_def mem_read_short_def
        macros_get_macro_pointer_def events_pointer_def MACRO_DATA_HEADER_LEN_def)
  moreover have "heap_ok {k} ?s"
    using t(2) put m by (simp add: heap_ok_def Let_def)
  moreover have "macro_store ?s j = macro_store t j" if "j \<noteq> k" for j
    using that put(2) m by (simp add: macro_store_def)
  moreover have "end_of (macros_storage ?s) = unat e" using m by (simp add: end_of_def e_def)
  moreover have "macro_idx_lookup k ?s = Some h" using keys by (simp add: macro_idx_lookup_def)
  ultimately show ?thesis
    using t(3,5,6,7) m put(2)
    by (intro exI [of _ ?s]) (simp add: recording_def Let_def mem_read_def)
qed

lemma macros_append_records:
  assumes "recording k evs s"
  shows "\<exists>s'. macros_append ev s = (True, s') \<and> recording k (evs @ [ev]) s'
    \<and> (\<forall>j. j \<noteq> k \<longrightarrow> macro_store s' j = macro_store s j)
    \<and> end_of (macros_storage s') = end_of (macros_storage s)
    \<and> (\<forall>a. 4 + end_of (macros_storage s) + Suc (length evs) \<le> a \<longrightarrow> macros_storage s' a = macros_storage s a)"
proof -
  define m where "m = macros_storage s"
  define e where "e = end_of m"
  define m' where "m' = mem_write m (4 + e + length evs) [ev]"
  have r: "heap_ok {k} s" "storage_faults s = []" "idx_map (macro_index s) k = Some (of_nat e)"
      "recording_state s = \<lparr>rec_macro = Some (2 + e), rec_cursor = 4 + e + length evs,
                            rec_index_entry = macro_idx_lookup k s\<rparr>"
      "mem_read m (4 + e) (length evs) = evs"
    using assms by (simp_all add: recording_def Let_def m_def e_def)
  have low: "m' x = m x" if "x < 4 + e + length evs" for x
    using that by (simp add: m'_def mem_write_apart)
  have e': "end_of m' = e"
    unfolding end_of_def m'_def e_def by (simp add: mem_read_short_apart macros_end_offset_def)
  have blocks: "block_len m' (unat w) = block_len m (unat w) \<and> block_events m' (unat w) = block_events m (unat w)"
    if "j \<noteq> k" "idx_map (macro_index s) j = Some w" "is_macro w" for j w
    using heap_okD(1) [OF r(1) _ that(2,3)] that(1)
    by (intro block_cong low) (simp add: m_def [symmetric] e_def [symmetric])
  let ?s = "s\<lparr>recording_state := (recording_state s)\<lparr>rec_cursor := Suc (4 + e + length evs)\<rparr>,
      macros_storage := m'\<rparr>"
  have app: "macros_append ev s = (True, ?s)"
    using r(2,4) by (simp add: macros_append_def Let_def storage_ok m_def m'_def)
  have "heap_ok {k} ?s"
    using r(1) blocks e' unfolding heap_ok_def Let_def by (auto simp: m_def [symmetric] e_def [symmetric])
  moreover have "mem_read m' (4 + e) (length evs + 1) = evs @ [ev]"
  proof -
    have "mem_read m' (4 + e) (length evs) = evs"
      unfolding m'_def by (subst mem_read_write_apart) (use r(5) in auto)
    moreover have "mem_read m' (4 + e + length evs) 1 = [ev]" unfolding m'_def by simp
    ultimately show ?thesis by (simp only: mem_read_append)
  qed
  moreover have "macro_store ?s j = macro_store s j" if "j \<noteq> k" for j
    using blocks [OF that] by (cases "idx_map (macro_index s) j")
      (auto simp: macro_store_def trigger_of_def m_def)
  ultimately have "recording k (evs @ [ev]) ?s"
    using r e' by (simp add: recording_def Let_def macro_idx_lookup_def)
  then show ?thesis
    using app e' \<open>\<And>j. j \<noteq> k \<Longrightarrow> macro_store ?s j = macro_store s j\<close>
    by (auto simp: m_def e_def m'_def mem_write_apart)
qed

lemma recordingD:
  assumes "recording k evs s"
  defines "e \<equiv> end_of (macros_storage s)"
  shows "heap_ok {k} s" "storage_faults s = []" "idx_map (macro_index s) k = Some (of_nat e)"
    "recording_state s = \<lparr>rec_macro = Some (2 + e), rec_cursor = 4 + e + length evs,
       rec_index_entry = macro_idx_lookup k s\<rparr>"
    "mem_read (macros_storage s) (4 + e) (length evs) = evs" "e < 0x8000"
  using assms heap_ok_wf(2) [of "{k}" s] by (simp_all add: recording_def Let_def)

text \<open>Committing writes the length before the events and moves the end behind them.\<close>

lemma macros_commit_macro_step:
  assumes r: "recording k evs s" and ne: "evs \<noteq> []"
    and room: "end_of (macros_storage s) + 2 + length evs < 0x8000"
  defines "e \<equiv> end_of (macros_storage s)"
  defines "m' \<equiv> mem_write_short (mem_write_short (macros_storage s) (2 + e) (of_nat (length evs)))
      macros_end_offset (of_nat (e + 2 + length evs))"
  shows "macros_commit_macro s
    = (buzzer_start_f 200 BUZZER_SUCCESS_TONE (s\<lparr>macros_storage := m'\<rparr>))\<lparr>recording_state := no_recording\<rparr>"
proof -
  note r = recordingD [OF r, folded e_def]
  have len: "(of_nat (length evs) :: u16) \<noteq> 0"
    using ne room by (simp add: word_unat_eq_iff unat_of_nat e_def)
  define m1 where "m1 = mem_write_short (macros_storage s) (2 + e) (of_nat (length evs))"
  have "mem_read_short m1 macros_end_offset = mem_read_short (macros_storage s) macros_end_offset"
    unfolding m1_def mem_write_short_def by (rule mem_read_short_apart) (simp add: macros_end_offset_def)
  moreover have "mem_read_short (macros_storage s) macros_end_offset = of_nat e"
    by (simp add: e_def end_of_def)
  ultimately have "short_of_bytes (mem_read m1 macros_end_offset 2) + (of_nat (length evs) + of_nat MACRO_DATA_HEADER_LEN)
      = of_nat (e + 2 + length evs)"
    by (simp add: mem_read_short_def MACRO_DATA_HEADER_LEN_def)
  moreover have "4 + e + length evs - events_pointer (2 + e) = length evs"
    by (simp add: events_pointer_def MACRO_DATA_HEADER_LEN_def)
  ultimately show ?thesis
    using r(2,4) len
    by (simp add: macros_commit_macro_def Let_def storage_ok m'_def m1_def [symmetric]
        mem_write_short_def [symmetric] del: add_2_eq_Suc add_2_eq_Suc' of_nat_add)
qed

lemma macros_commit_macro_ok:
  assumes r: "recording k evs s" and ne: "evs \<noteq> []"
    and fits: "macro_room (2 + length evs) s"
  shows "heap_ok {} (macros_commit_macro s) \<and> storage_faults (macros_commit_macro s) = []
    \<and> macro_store (macros_commit_macro s) = (macro_store s)(k \<mapsto> Events evs)
    \<and> end_of (macros_storage (macros_commit_macro s)) = end_of (macros_storage s) + 2 + length evs
    \<and> (\<forall>a. 4 + end_of (macros_storage s) \<le> a \<longrightarrow> macros_storage (macros_commit_macro s) a = macros_storage s a)"
proof -
  have room: "end_of (macros_storage s) + 2 + length evs < 0x8000"
    using macro_room_small [OF fits] by simp
  define m e where "m = macros_storage s" and "e = end_of m"
  define m' where "m' = mem_write_short (mem_write_short m (2 + e) (of_nat (length evs)))
      macros_end_offset (of_nat (e + 2 + length evs))"
  let ?s = "macros_commit_macro s"
  have s': "macro_index ?s = macro_index s" "macros_storage ?s = m'" "storage_faults ?s = storage_faults s"
    using macros_commit_macro_step [OF r ne room]
    by (simp_all add: buzzer_defs Let_def m'_def e_def m_def)
  note r = recordingD [OF r, folded m_def, folded e_def]
  have e': "end_of m' = e + 2 + length evs"
    unfolding m'_def by (rule end_of_new) (use room in \<open>simp add: e_def m_def\<close>)
  have same: "m' x = m x" if "2 \<le> x" "x < 2 + e \<or> 4 + e \<le> x" for x
    using that by (auto simp: m'_def mem_write_short_def mem_write_def macros_end_offset_def)
  have blocks: "block_len m' (unat w) = block_len m (unat w) \<and> block_events m' (unat w) = block_events m (unat w)
      \<and> unat w + 2 + block_len m (unat w) \<le> e"
    if "j \<noteq> k" "idx_map (macro_index s) j = Some w" "is_macro w" for j w
    using heap_okD(1) [OF r(1) _ that(2,3)] that(1)
    by (auto simp: m_def [symmetric] e_def [symmetric] intro!: block_cong same)
  have ke: "unat (of_nat e :: u16) = e" using r(6) by (simp add: unat_of_nat)
  have "mem_read_short m' (2 + e) = of_nat (length evs)"
    unfolding m'_def mem_write_short_def [of _ macros_end_offset]
    by (subst mem_read_short_apart) (simp_all add: macros_end_offset_def)
  then have kl: "block_len m' e = length evs"
    using room by (simp add: block_len_def unat_of_nat)
  have "mem_read m' (4 + e) (length evs) = mem_read m (4 + e) (length evs)"
    by (intro mem_read_cong same) simp_all
  then have kev: "block_events m' e = evs" using kl r(5) by (simp add: block_events_def)
  have km: "is_macro (of_nat e :: u16)" using ke r(6) by (simp add: is_macro_iff)
  have "macro_store ?s j = ((macro_store s)(k \<mapsto> Events evs)) j" for j
  proof (cases "j = k")
    case True
    then show ?thesis using r(3) s' km ke kev by (simp add: macro_store_def trigger_of_def)
  next
    case False
    then show ?thesis using blocks [OF False] s'
      by (cases "idx_map (macro_index s) j") (auto simp: macro_store_def trigger_of_def m_def)
  qed
  moreover have "heap_ok {} ?s"
    unfolding heap_ok_def Let_def s'
  proof (intro conjI allI impI)
    show "idx_wf (macro_index s)" by (rule heap_ok_wf(1) [OF r(1)])
    show "end_of m' < 0x8000" using e' room by (simp add: e_def m_def)
    have pos: "unat w + 2 + block_len m' (unat w) \<le> e \<and> j \<noteq> k \<or> j = k \<and> unat w = e"
      if "idx_map (macro_index s) j = Some w" "is_macro w" for j w
      using that blocks [of j w] r(3) ke by (cases "j = k") auto
    fix j w assume j: "idx_map (macro_index s) j = Some w" "is_macro w"
    show "unat w + 2 + block_len m' (unat w) \<le> end_of m'"
      using pos [OF j] e' kl by auto
    fix i x assume i: "j \<noteq> i" "idx_map (macro_index s) i = Some x" "is_macro x"
    have "unat w + 2 + block_len m (unat w) \<le> unat x \<or> unat x + 2 + block_len m (unat x) \<le> unat w"
      if "j \<noteq> k" "i \<noteq> k"
      using heap_okD(2) [OF r(1) _ j _ i] that by (simp add: m_def)
    then show "unat w + 2 + block_len m' (unat w) \<le> unat x \<or> unat x + 2 + block_len m' (unat x) \<le> unat w"
      using pos [OF j] pos [OF i(2,3)] blocks [OF _ j] blocks [OF _ i(2,3)] i(1) by auto
  qed
  ultimately show ?thesis using s' r(2) e' same by (auto simp: m_def e_def)
qed

lemma recording_removed:
  assumes "recording k evs s" and k: "key_wf k"
  defines "s' \<equiv> (remove_recorded_entry s)\<lparr>recording_state := no_recording\<rparr>"
  shows "heap_ok {} s' \<and> macro_store s' = (macro_store s)(k := None) \<and> storage_faults s' = []"
proof -
  note r = recordingD [OF assms(1)]
  note wf = heap_ok_wf(1) [OF r(1)]
  obtain h where h: "macro_idx_lookup k s = Some h"
    using idx.lookup_None [OF wf k] r(3) by (fastforce simp: macro_idx_lookup_def)
  then have s': "macro_index s' = idx_remove h (macro_index s)" "macros_storage s' = macros_storage s"
      "storage_faults s' = storage_faults s"
    using r(4) by (simp_all add: s'_def remove_recorded_entry_def macro_idx_remove_def)
  have law: "idx_wf (macro_index s')" "idx_map (macro_index s') = (idx_map (macro_index s))(k := None)"
    using idx.delete_law [OF wf k] h s'(1) by (simp_all add: macro_idx_lookup_def)
  have "heap_ok {} s'"
    using r(1) law s'(2) unfolding heap_ok_def Let_def by simp
  moreover have "macro_store s' = (macro_store s)(k := None)"
    by (rule ext) (simp add: macro_store_def law(2) s'(2))
  ultimately show ?thesis using s'(3) r(2) by simp
qed

subsection \<open>Playback\<close>

text \<open>\<open>n\<close> reports of a playback, each filled into \<open>report\<close>, with what each call returned.\<close>

fun play_run :: "nat \<Rightarrow> KeyboardReport_Data \<Rightarrow> 'a macro_state_scheme \<Rightarrow>
    (bool \<times> KeyboardReport_Data) list \<times> 'a macro_state_scheme" where
  "play_run 0 report s = ([], s)"
| "play_run (Suc n) report s =
     (let (more, r, s) = macros_fill_next_report report s;
          (rs, s) = play_run n report s
      in ((more, r) # rs, s))"

lemma macros_fill_next_report_step:
  assumes "storage_faults s = []" "play_remaining (playback_state s) \<noteq> 0"
  defines "p \<equiv> playback_state s"
  defines "r \<equiv> ExtraKeyboardReport_toggle (play_report p) (macros_storage s (play_cursor p))"
  shows "macros_fill_next_report report s
    = (play_remaining p - 1 \<noteq> 0, ExtraKeyboardReport_append r report,
       s\<lparr>playback_state := \<lparr>play_remaining = play_remaining p - 1, play_cursor = play_cursor p + 1, play_report = r\<rparr>\<rparr>)"
  using assms by (simp add: macros_fill_next_report_def Let_def storage_ok mem_read_def)

lemma play_run_events:
  assumes "storage_faults s = []" "unat (play_remaining (playback_state s)) = length evs"
    "mem_read (macros_storage s) (play_cursor (playback_state s)) (length evs) = evs"
  shows "fst (play_run (length evs) report s)
    = map (\<lambda>i. (Suc i < length evs, ExtraKeyboardReport_append
        (foldl ExtraKeyboardReport_toggle (play_report (playback_state s)) (take (Suc i) evs)) report))
      [0..<length evs]"
  using assms
proof (induction evs arbitrary: s)
  case (Cons ev evs)
  let ?p = "playback_state s"
  have rem: "play_remaining ?p \<noteq> 0" using Cons.prems(2) by auto
  have ev: "macros_storage s (play_cursor ?p) = ev"
    "mem_read (macros_storage s) (play_cursor ?p + 1) (length evs) = evs"
    using Cons.prems(3) mem_read_append [of "macros_storage s" "play_cursor ?p" 1 "length evs"]
    by (simp_all add: mem_read_def)
  have dec: "unat (play_remaining ?p - 1) = length evs"
    using Cons.prems(2) rem by (simp add: unat_minus_one)
  let ?r = "ExtraKeyboardReport_toggle (play_report ?p) ev"
  let ?s = "s\<lparr>playback_state := \<lparr>play_remaining = play_remaining ?p - 1, play_cursor = play_cursor ?p + 1,
      play_report = ?r\<rparr>\<rparr>"
  have "fst (play_run (length evs) report ?s)
      = map (\<lambda>i. (Suc i < length evs, ExtraKeyboardReport_append
          (foldl ExtraKeyboardReport_toggle (play_report (playback_state ?s)) (take (Suc i) evs)) report))
        [0..<length evs]"
    by (rule Cons.IH) (use Cons.prems(1) ev(2) dec in simp_all)
  moreover have "play_remaining ?p - 1 \<noteq> 0 \<longleftrightarrow> 0 < length evs" using dec by (metis unat_eq_0 length_greater_0_conv list.size(3) length_0_conv)
  moreover have "[0..<length (ev # evs)] = 0 # map Suc [0..<length evs]"
    by (simp add: map_Suc_upt upt_conv_Cons del: upt_Suc)
  ultimately show ?case
    using macros_fill_next_report_step [OF Cons.prems(1) rem, of report] ev(1)
    by (simp add: Let_def case_prod_beta comp_def)
qed simp

lemma start_playback_ok:
  assumes nf: "storage_faults s = []"
  shows "macros_start_playback off s = (True, s\<lparr>playback_state := \<lparr>play_remaining = of_nat (block_len (macros_storage s) (unat off)),
      play_cursor = 4 + unat off, play_report = ExtraKeyboardReport_clear\<rparr>\<rparr>)"
  using assms
  by (simp add: macros_start_playback_def Let_def storage_ok macros_get_macro_pointer_def events_pointer_def
      MACRO_DATA_HEADER_LEN_def block_len_def mem_read_short_def [symmetric])

subsection \<open>What the macro store promises\<close>

text \<open>The recording of a whole macro: start, one append per event, commit.\<close>

fun append_all :: "hid_keycode list \<Rightarrow> 'a macro_state_scheme \<Rightarrow> 'a macro_state_scheme" where
  "append_all [] s = s"
| "append_all (ev # evs) s = append_all evs (snd (macros_append ev s))"

definition record_macro :: "macro_idx_key \<Rightarrow> hid_keycode list \<Rightarrow> 'a macro_state_scheme \<Rightarrow> 'a macro_state_scheme" where
  "record_macro k evs s = macros_commit_macro (append_all evs (snd (macros_start_macro k s)))"

lemma append_all_records:
  assumes "recording k evs s"
  shows "recording k (evs @ evs') (append_all evs' s)
    \<and> (\<forall>j. j \<noteq> k \<longrightarrow> macro_store (append_all evs' s) j = macro_store s j)
    \<and> end_of (macros_storage (append_all evs' s)) = end_of (macros_storage s)
    \<and> (\<forall>a. 4 + end_of (macros_storage s) + length (evs @ evs') \<le> a \<longrightarrow>
          macros_storage (append_all evs' s) a = macros_storage s a)"
  using assms
proof (induction evs' arbitrary: evs s)
  case (Cons ev evs')
  obtain t where t: "macros_append ev s = (True, t)" "recording k (evs @ [ev]) t"
      "\<forall>j. j \<noteq> k \<longrightarrow> macro_store t j = macro_store s j" "end_of (macros_storage t) = end_of (macros_storage s)"
      "\<forall>a. 4 + end_of (macros_storage s) + Suc (length evs) \<le> a \<longrightarrow> macros_storage t a = macros_storage s a"
    using macros_append_records [OF Cons.prems, of ev] by blast
  then show ?case using Cons.IH [OF t(2)] by simp
qed simp

text \<open>A macro store that is empty, on top of the static variables at reset.\<close>

definition macro_reset :: macro_state where
  "macro_reset = macro_index_state.extend (macro_index_state.truncate macro_index_reset)
     (macro_state.fields (\<lambda>_. 0) [] no_recording
       \<lparr>play_remaining = 0, play_cursor = 0, play_report = ExtraKeyboardReport_clear\<rparr>)"

lemma macro_reset_ok:
  "heap_ok X macro_reset" "storage_faults macro_reset = []" "end_of (macros_storage macro_reset) = 0"
  "idx_map (macro_index macro_reset) = Map.empty"
proof -
  have m: "macros_storage macro_reset = (\<lambda>_. 0)" "storage_faults macro_reset = []"
    "macro_index macro_reset = macro_index macro_index_reset"
    by (simp_all add: macro_reset_def macro_state.defs macro_index_state.defs)
  show f: "storage_faults macro_reset = []" by (rule m(2))
  show e: "end_of (macros_storage macro_reset) = 0"
    by (simp add: m end_of_def mem_read_short_def short_of_bytes_def)
  show i: "idx_map (macro_index macro_reset) = Map.empty" by (simp add: m idx_map_reset)
  show "heap_ok X macro_reset" using e i idx_wf_reset by (simp add: heap_ok_def Let_def m)
qed

lemma macro_reset_room: "n + 2 \<le> MACROS_SIZE \<Longrightarrow> macro_room n macro_reset"
  by (simp add: macro_room_def macro_reset_ok)

lemma record_macro_ok:
  assumes "heap_ok {} s" "storage_faults s = []" "key_wf k" "evs \<noteq> []"
    "k \<in> dom (idx_map (macro_index s)) \<or> card (dom (idx_map (macro_index s))) < MACRO_INDEX_COUNT"
    "macro_room (2 + length evs) s"
  shows "heap_ok {} (record_macro k evs s) \<and> storage_faults (record_macro k evs s) = []
    \<and> macro_store (record_macro k evs s) = (macro_store s)(k \<mapsto> Events evs)
    \<and> end_of (macros_storage (record_macro k evs s)) \<le> end_of (macros_storage s) + 2 + length evs
    \<and> (\<forall>a\<ge>MACROS_SIZE. macros_storage (record_macro k evs s) a = macros_storage s a)"
proof -
  obtain t where t: "macros_start_macro k s = (True, t)" "recording k [] t"
      "\<forall>j. j \<noteq> k \<longrightarrow> macro_store t j = macro_store s j"
      "end_of (macros_storage t) \<le> end_of (macros_storage s)"
      "\<forall>a. 2 + end_of (macros_storage s) \<le> a \<longrightarrow> macros_storage t a = macros_storage s a"
    using macros_start_macro_records [OF assms(1-3,5)] by blast
  let ?u = "append_all evs t"
  have u: "recording k evs ?u" "\<forall>j. j \<noteq> k \<longrightarrow> macro_store ?u j = macro_store t j"
      "end_of (macros_storage ?u) = end_of (macros_storage t)"
      "\<forall>a. 4 + end_of (macros_storage t) + length evs \<le> a \<longrightarrow> macros_storage ?u a = macros_storage t a"
    using append_all_records [OF t(2), of evs] by auto
  have r: "macro_room (2 + length evs) ?u" using u(3) t(4) assms(6) by (simp add: macro_room_def)
  have eq: "record_macro k evs s = macros_commit_macro ?u" using t(1) by (simp add: record_macro_def)
  note c = macros_commit_macro_ok [OF u(1) assms(4) r]
  have "macros_storage (macros_commit_macro ?u) a = macros_storage s a" if "MACROS_SIZE \<le> a" for a
  proof -
    have "4 + end_of (macros_storage t) + length evs \<le> a" "2 + end_of (macros_storage s) \<le> a"
      using that assms(6) t(4) by (simp_all add: macro_room_def)
    then show ?thesis using c u(3,4) t(5) by simp
  qed
  moreover have "(macro_store ?u)(k \<mapsto> Events evs) = (macro_store s)(k \<mapsto> Events evs)"
    using u(2) t(3) by (auto simp: fun_eq_iff)
  ultimately show ?thesis using c u(3) t(4) unfolding eq by simp
qed

text \<open>
  Without room inside the array nothing stops a recording: \<open>macros_append\<close> returns true and writes the
  event behind \<open>macros_storage\<close>, although \<open>macro.h\<close> has it return false when no space is left.
\<close>

lemma macros_append_past_the_array:
  assumes "storage_faults s = []" "MACROS_SIZE \<le> rec_cursor (recording_state s)"
  shows "fst (macros_append ev s)
    \<and> macros_storage (snd (macros_append ev s)) = (macros_storage s)(rec_cursor (recording_state s) := ev)"
  using assms by (simp add: macros_append_def Let_def storage_ok mem_write_def fun_eq_iff)

text \<open>
  C3: recording a macro updates the store at its key combination and nowhere else. From a
  consistent store with room for the index entry and, inside the array of \<open>MACROS_SIZE\<close> bytes, for the
  data, starting a recording (which deletes an older macro of the same combination and closes the gap
  it leaves), appending the events one by one and committing leaves a consistent store that has the
  new events under this combination, and under every other combination exactly what it had before;
  no byte behind the array changes. (The source does not check for that room: see
  \<open>macros_append_past_the_array\<close>.)
\<close>

theorem record_macro_updates_store:
  assumes "heap_ok {} s" "storage_faults s = []" "key_wf k" "evs \<noteq> []"
    "k \<in> dom (idx_map (macro_index s)) \<or> card (dom (idx_map (macro_index s))) < MACRO_INDEX_COUNT"
    "macro_room (2 + length evs) s"
  shows "heap_ok {} (record_macro k evs s) \<and> storage_faults (record_macro k evs s) = []
    \<and> macro_store (record_macro k evs s) = (macro_store s)(k \<mapsto> Events evs)
    \<and> end_of (macros_storage (record_macro k evs s)) \<le> end_of (macros_storage s) + 2 + length evs
    \<and> (\<forall>a\<ge>MACROS_SIZE. macros_storage (record_macro k evs s) a = macros_storage s a)"
  using assms by (rule record_macro_ok)

theorem record_macro_updates_store_witness:
  "macro_store (record_macro [3, 9, 0xFF, 0xFF] [0xE1, 4, 4, 0xE1] macro_reset) [3, 9, 0xFF, 0xFF]
     = Some (Events [0xE1, 4, 4, 0xE1])"
proof -
  have key: "key_wf [3, 9, 0xFF, 0xFF]" by (simp add: key_wf_def MACRO_MAX_KEYS_def NO_KEY_def)
  have room: "macro_room (2 + length [0xE1, 4, 4, 0xE1 :: u8]) macro_reset"
    by (rule macro_reset_room) (simp add: MACROS_SIZE_def)
  show ?thesis
    using record_macro_updates_store [OF macro_reset_ok(1,2) key _ _ room]
    by (simp add: macro_reset_ok MACRO_INDEX_COUNT_def)
qed

text \<open>
  C22: playing back a macro replays what the store has: the \<open>i\<close>-th report carries the keys left
  down after toggling the first \<open>i + 1\<close> events, and the playback ends with the last event.
\<close>

theorem playback_replays_events:
  assumes "heap_ok {} s" "storage_faults s = []" "key_wf k" "macro_store s k = Some (Events evs)"
    "macro_idx_lookup k s = Some h"
  shows "fst (macros_start_playback (idx_data (macro_idx_get_data h s)) s)
    \<and> fst (play_run (length evs) report (snd (macros_start_playback (idx_data (macro_idx_get_data h s)) s)))
      = map (\<lambda>i. (Suc i < length evs, ExtraKeyboardReport_append
          (foldl ExtraKeyboardReport_toggle ExtraKeyboardReport_clear (take (Suc i) evs)) report))
        [0..<length evs]"
proof -
  obtain v where v: "idx_map (macro_index s) k = Some v" "idx_val (macro_index s ! h) = v"
    using idx.lookup_get [OF heap_ok_wf(1) [OF assms(1)] assms(3)] assms(5) by (auto simp: macro_idx_lookup_def)
  have m: "is_macro v" and evs: "evs = block_events (macros_storage s) (unat v)"
    using assms(4) v(1) by (auto simp: macro_store_def trigger_of_def split: if_splits)
  have data: "idx_data (macro_idx_get_data h s) = v" using v(2) m by (simp add: macro_idx_get_data_macro)
  have len: "length evs = block_len (macros_storage s) (unat v)" by (simp add: evs block_events_def)
  have "block_len (macros_storage s) (unat v) < 2 ^ 16" unfolding block_len_def
    using unsigned_less [of "mem_read_short (macros_storage s) (2 + unat v)", where 'a = nat] by simp
  then have rem: "unat (of_nat (block_len (macros_storage s) (unat v)) :: u16) = length evs"
    by (simp add: unat_of_nat len)
  define t where "t = snd (macros_start_playback v s)"
  have t: "fst (macros_start_playback v s)" "storage_faults t = []" "macros_storage t = macros_storage s"
    "playback_state t = \<lparr>play_remaining = of_nat (block_len (macros_storage s) (unat v)),
      play_cursor = 4 + unat v, play_report = ExtraKeyboardReport_clear\<rparr>"
    using start_playback_ok [OF assms(2), of v] assms(2) by (simp_all add: t_def)
  have "fst (play_run (length evs) report t)
    = map (\<lambda>i. (Suc i < length evs, ExtraKeyboardReport_append
        (foldl ExtraKeyboardReport_toggle (play_report (playback_state t)) (take (Suc i) evs)) report))
      [0..<length evs]"
    by (rule play_run_events) (use t rem evs len in \<open>simp_all add: block_events_def\<close>)
  then show ?thesis using t data by (simp add: t_def)
qed

text \<open>A store with one macro, for the concrete instances below.\<close>

definition one_macro :: macro_state where
  "one_macro = record_macro [3, 9, 0xFF, 0xFF] [0xE1, 4, 4, 0xE1] macro_reset"

lemma sample_key: "key_wf [3, 9, 0xFF, 0xFF]"
  by (simp add: key_wf_def MACRO_MAX_KEYS_def NO_KEY_def)

lemma one_macro_ok:
  "heap_ok {} one_macro" "storage_faults one_macro = []"
  "macro_store one_macro [3, 9, 0xFF, 0xFF] = Some (Events [0xE1, 4, 4, 0xE1])"
  using record_macro_ok [OF macro_reset_ok(1,2) sample_key _ _ macro_reset_room, of "[0xE1, 4, 4, 0xE1]"]
  by (simp_all add: one_macro_def macro_reset_ok MACRO_INDEX_COUNT_def MACROS_SIZE_def)

theorem playback_replays_events_witness:
  "\<exists>h. macro_idx_lookup [3, 9, 0xFF, 0xFF] one_macro = Some h
     \<and> fst (macros_start_playback (idx_data (macro_idx_get_data h one_macro)) one_macro)"
proof -
  have "idx_map (macro_index one_macro) [3, 9, 0xFF, 0xFF] \<noteq> None"
    using one_macro_ok(3) by (auto simp: macro_store_def)
  then obtain h where h: "macro_idx_lookup [3, 9, 0xFF, 0xFF] one_macro = Some h"
    using idx.lookup_None [OF heap_ok_wf(1) [OF one_macro_ok(1)] sample_key]
    by (auto simp: macro_idx_lookup_def)
  from playback_replays_events [OF one_macro_ok(1,2) sample_key one_macro_ok(3) h] h
  show ?thesis by blast
qed

text \<open>
  A recording that is committed without events, or aborted, leaves no macro: the combination
  is gone from the store, every other one is as it was when recording started, and the store is
  consistent again.
\<close>

theorem empty_recording_removes_macro:
  assumes "recording k evs s" "key_wf k"
  shows "macro_store (macros_abort_macro s) = (macro_store s)(k := None) \<and> heap_ok {} (macros_abort_macro s)
    \<and> recording_state (macros_abort_macro s) = no_recording
    \<and> (evs = [] \<longrightarrow> macros_commit_macro s = macros_abort_macro s)"
proof -
  have "macros_commit_macro s = macros_abort_macro s" if "evs = []"
    using recordingD(4) [OF assms(1)] that
    by (simp add: macros_commit_macro_def macros_abort_macro_def Let_def events_pointer_def
        MACRO_DATA_HEADER_LEN_def)
  then show ?thesis using recording_removed [OF assms] by (simp add: macros_abort_macro_def)
qed

theorem empty_recording_removes_macro_witness:
  "\<exists>s :: macro_state. recording [3, 9, 0xFF, 0xFF] [] s
     \<and> macro_store (macros_commit_macro s) [3, 9, 0xFF, 0xFF] = None"
proof -
  obtain s where s: "recording [3, 9, 0xFF, 0xFF] [] s" "macros_start_macro [3, 9, 0xFF, 0xFF] macro_reset = (True, s)"
    using macros_start_macro_records [OF macro_reset_ok(1,2) sample_key]
    by (auto simp: macro_reset_ok MACRO_INDEX_COUNT_def)
  then show ?thesis using empty_recording_removes_macro [OF s(1) sample_key] by auto
qed

text \<open>
  When the storage fails at any call of \<open>macros_start_macro\<close>, or the index is full, the call
  says so, sounds the failure tone and leaves no recording in progress.
\<close>

theorem macros_start_macro_failure:
  assumes "\<not> fst (macros_start_macro k s)"
  shows "recording_state (snd (macros_start_macro k s)) = no_recording
    \<and> buzzer_ms (snd (macros_start_macro k s)) = 200
    \<and> TCC1_CTRLA (snd (macros_start_macro k s)) = TC_CLKSEL_DIV64"
  using assms
  by (auto simp: macros_start_macro_def macros_start_err_def Let_def buzzer_defs
      split: option.splits prod.splits)

theorem macros_start_macro_failure_witness:
  "recording_state (snd (macros_start_macro [3, 9, 0xFF, 0xFF] (macro_reset\<lparr>storage_faults := [Some 0]\<rparr>)))
     = no_recording"
proof -
  let ?s = "macro_reset\<lparr>storage_faults := [Some 0]\<rparr>"
  have "macro_idx_lookup [3, 9, 0xFF, 0xFF] ?s = None"
    using idx.lookup_None [OF heap_ok_wf(1) [OF macro_reset_ok(1)] sample_key]
    by (simp add: macro_idx_lookup_def macro_reset_ok)
  moreover have "storage_faults (snd (macro_idx_create [3, 9, 0xFF, 0xFF] ?s)) = [Some 0]"
    by (simp add: macro_idx_create_def split: option.splits prod.splits)
  ultimately have "\<not> fst (macros_start_macro [3, 9, 0xFF, 0xFF] ?s)"
    by (auto simp: macros_start_macro_def Let_def macro_storage_read_def next_fault_def macros_start_err_def
        split: option.splits prod.splits)
  from macros_start_macro_failure [OF this] show ?thesis by simp
qed

end
