(* ===== verification/Config.thy ===== *)
theory Config
  imports Macro
begin

text \<open>
  \<open>config.c\<close>: the persistent configuration. The current mapping of logical to HID keys, the flags
  and three settings live in the internal EEPROM; up to ten saved layouts are kept as their
  differences from the default layout, packed one behind the other in a table of 255 pairs. Saving,
  deleting and loading layouts, both resets and the lookup of programs are modelled; the packing of
  the table is the invariant.
\<close>

subsection \<open>State\<close>

definition EEPROM_SENTINEL :: u8 where
  "EEPROM_SENTINEL = 44"

record configuration_flags =
  key_sound_enabled :: bool
  macros_enabled :: bool
  programs_enabled :: bool
  packing :: u8

type_synonym key_mapping_idx = "u8 \<times> u8"
type_synonym key_mapping = "logical_keycode \<times> hid_keycode"

text \<open>
  \<open>logical_to_hid_map\<close> is a function of the keycode: for the codes from \<open>NUM_LOGICAL_KEYS\<close> on it is
  whatever follows the array in EEPROM. \<open>programs\<close> is relative to the array of that name.
\<close>

record config_state = macro_state +
  eeprom_sentinel_byte :: u8
  eeprom_flags :: u8
  debounce_len :: u8
  mouse_div :: u8
  wheel_div :: u8
  logical_to_hid_map :: "logical_keycode \<Rightarrow> hid_keycode"
  saved_key_mapping_indices :: "key_mapping_idx list"
  saved_key_mappings :: "nat \<Rightarrow> key_mapping"
  programs :: memory

subsection \<open>Mapping, flags and settings\<close>

definition config_get_definition :: "logical_keycode \<Rightarrow> 'a config_state_scheme \<Rightarrow> hid_keycode" where
  "config_get_definition l_key s = logical_to_hid_map s l_key"

text \<open>
  A read outside the table of defaults would give whatever follows it in program memory; nothing is
  known about that value here either. \<open>KeyboardCorrect\<close> shows that the firmware never reads there.
\<close>

definition config_get_default_definition :: "logical_keycode \<Rightarrow> hid_keycode" where
  "config_get_default_definition l_key = logical_to_hid_map_default ! unat l_key"

definition config_save_definition ::
    "logical_keycode \<Rightarrow> hid_keycode \<Rightarrow> 'a config_state_scheme \<Rightarrow> 'a config_state_scheme" where
  "config_save_definition l_key h_key s = s\<lparr>logical_to_hid_map := (logical_to_hid_map s)(l_key := h_key)\<rparr>"

definition flags_of_byte :: "u8 \<Rightarrow> configuration_flags" where
  "flags_of_byte b = \<lparr>key_sound_enabled = bit b 0, macros_enabled = bit b 1, programs_enabled = bit b 2,
     packing = drop_bit 3 b\<rparr>"

definition byte_of_flags :: "configuration_flags \<Rightarrow> u8" where
  "byte_of_flags f = (if key_sound_enabled f then 1 else 0) OR (if macros_enabled f then 2 else 0)
     OR (if programs_enabled f then 4 else 0) OR push_bit 3 (packing f)"

definition config_get_flags :: "'a config_state_scheme \<Rightarrow> configuration_flags" where
  "config_get_flags s = flags_of_byte (eeprom_flags s)"

definition config_save_flags :: "configuration_flags \<Rightarrow> 'a config_state_scheme \<Rightarrow> 'a config_state_scheme" where
  "config_save_flags state s = s\<lparr>eeprom_flags := byte_of_flags state\<rparr>"

definition config_get_debounce_len :: "'a config_state_scheme \<Rightarrow> u8" where
  "config_get_debounce_len s = debounce_len s"

definition config_save_debounce_len :: "u8 \<Rightarrow> 'a config_state_scheme \<Rightarrow> 'a config_state_scheme" where
  "config_save_debounce_len x s = s\<lparr>debounce_len := x\<rparr>"

definition config_get_mouse_div :: "'a config_state_scheme \<Rightarrow> u8" where
  "config_get_mouse_div s = mouse_div s"

definition config_save_mouse_div :: "u8 \<Rightarrow> 'a config_state_scheme \<Rightarrow> 'a config_state_scheme" where
  "config_save_mouse_div x s = s\<lparr>mouse_div := x\<rparr>"

definition config_get_wheel_div :: "'a config_state_scheme \<Rightarrow> u8" where
  "config_get_wheel_div s = wheel_div s"

definition config_save_wheel_div :: "u8 \<Rightarrow> 'a config_state_scheme \<Rightarrow> 'a config_state_scheme" where
  "config_save_wheel_div x s = s\<lparr>wheel_div := x\<rparr>"

subsection \<open>Resets\<close>

text \<open>The copy of the defaults in blocks of at most 32 keys, from key \<open>i\<close> on.\<close>

function reset_mapping_loop :: "nat \<Rightarrow> (logical_keycode \<Rightarrow> hid_keycode) \<Rightarrow> logical_keycode \<Rightarrow> hid_keycode" where
  "reset_mapping_loop i m =
     (if i < NUM_LOGICAL_KEYS then
        let bs = (if NUM_LOGICAL_KEYS - i > 32 then 32 else NUM_LOGICAL_KEYS - i)
        in reset_mapping_loop (i + 32)
             (\<lambda>l. if i \<le> unat l \<and> unat l < i + bs then logical_to_hid_map_default ! unat l else m l)
      else m)"
  by pat_completeness auto
termination
  by (relation "measure (\<lambda>(i, m). NUM_LOGICAL_KEYS - i)") auto

declare reset_mapping_loop.simps [simp del]

definition config_reset_defaults :: "'a config_state_scheme \<Rightarrow> 'a config_state_scheme" where
  "config_reset_defaults s =
     (let s = buzzer_start_f 1000 100 s;
          s = s\<lparr>logical_to_hid_map := reset_mapping_loop 0 (logical_to_hid_map s)\<rparr>
      in buzzer_start_f 200 80 s)"

definition config_reset_program_defaults :: "'a config_state_scheme \<Rightarrow> 'a config_state_scheme" where
  "config_reset_program_defaults s = s\<lparr>programs := mem_set (programs s) 0 NO_KEY (PROGRAM_COUNT * 4)\<rparr>"

definition config_reset_fully :: "'a config_state_scheme \<Rightarrow> 'a config_state_scheme" where
  "config_reset_fully s =
     (let s = buzzer_start_f 2000 120 s;
          s = s\<lparr>eeprom_flags := 0\<rparr>;
          s = s\<lparr>debounce_len := 3\<rparr>;
          s = s\<lparr>mouse_div := 25\<rparr>;
          s = s\<lparr>wheel_div := 4\<rparr>;
          s = s\<lparr>saved_key_mapping_indices := replicate NUM_KEY_MAPPING_INDICES (NO_KEY, NO_KEY)\<rparr>;
          s = config_reset_program_defaults s;
          s = macro_idx_reset_defaults s;
          s = macros_reset_defaults s;
          s = config_reset_defaults s;
          s = s\<lparr>eeprom_sentinel_byte := EEPROM_SENTINEL\<rparr>
      in buzzer_start_f 200 60 s)"

definition config_init :: "'a config_state_scheme \<Rightarrow> 'a config_state_scheme" where
  "config_init s = (if eeprom_sentinel_byte s \<noteq> EEPROM_SENTINEL then config_reset_fully s else s)"

subsection \<open>Saved layouts\<close>

text \<open>
  The scan of \<open>config_delete_layout\<close> over the index: entries after \<open>end\<close> move down by \<open>len\<close>, and
  the largest end seen is returned with them.
\<close>

fun delete_scan :: "key_mapping_idx list \<Rightarrow> u8 \<Rightarrow> u8 \<Rightarrow> u8 \<Rightarrow> key_mapping_idx list \<times> u8" where
  "delete_scan [] en len max_end = ([], max_end)"
| "delete_scan ((i_start, i_end) # rest) en len max_end =
     (if i_start \<noteq> NO_KEY \<and> i_start > en then
        let max_end = (if i_end > max_end then i_end else max_end);
            (rest, max_end) = delete_scan rest en len max_end
        in ((i_start - len, i_end - len) # rest, max_end)
      else let (rest, max_end) = delete_scan rest en len max_end
           in ((i_start, i_end) # rest, max_end))"

text \<open>\<open>storage_memmove\<close> of \<open>n\<close> pairs.\<close>

definition move_pairs :: "(nat \<Rightarrow> key_mapping) \<Rightarrow> nat \<Rightarrow> nat \<Rightarrow> nat \<Rightarrow> nat \<Rightarrow> key_mapping" where
  "move_pairs m dst src n = (\<lambda>i. if dst \<le> i \<and> i < dst + n then m (src + (i - dst)) else m i)"

definition config_delete_layout :: "u8 \<Rightarrow> 'a config_state_scheme \<Rightarrow> bool \<times> 'a config_state_scheme" where
  "config_delete_layout num s =
     (if unat num \<ge> NUM_KEY_MAPPING_INDICES
      then (False, printing_set_buffer ''No layout'' avr_pgm s)
      else let (start, en) = saved_key_mapping_indices s ! unat num in
      if start = NO_KEY then (False, printing_set_buffer ''No layout'' avr_pgm s)
      else let len = en - start + 1;
               indices = (saved_key_mapping_indices s)[unat num := (0xFF, 0xFF)];
               (indices, max_end) = delete_scan indices en len en;
               m = saved_key_mappings s;
               m = (if en < max_end
                    then move_pairs m (unat en + 1 - unat len) (unat en + 1) (unat (max_end - en)) else m)
           in (True, s\<lparr>saved_key_mapping_indices := indices, saved_key_mappings := m\<rparr>))"

text \<open>\<open>old_end\<close> as the source computes it, \<open>-1\<close> when no layout is saved.\<close>

definition last_end :: "key_mapping_idx list \<Rightarrow> int" where
  "last_end indices = fold (\<lambda>(i_start, i_end) old_end.
      if i_start = NO_KEY then old_end else if uint i_end > old_end then uint i_end else old_end) indices (-1)"

text \<open>
  The scan of \<open>config_save_layout\<close> over the logical keys: whether there was space, the table and the
  cursor.
\<close>

fun save_scan :: "nat list \<Rightarrow> (logical_keycode \<Rightarrow> hid_keycode) \<Rightarrow> (nat \<Rightarrow> key_mapping) \<Rightarrow> u8
    \<Rightarrow> bool \<times> (nat \<Rightarrow> key_mapping) \<times> u8" where
  "save_scan [] h m cursor = (True, m, cursor)"
| "save_scan (l # ls) h m cursor =
     (if h (of_nat l) \<noteq> logical_to_hid_map_default ! l then
        if unat cursor \<ge> SAVED_MAPPING_COUNT - 1 then (False, m, cursor)
        else save_scan ls h (m(unat cursor := (of_nat l, h (of_nat l)))) (cursor + 1)
      else save_scan ls h m cursor)"

definition config_save_layout :: "u8 \<Rightarrow> 'a config_state_scheme \<Rightarrow> bool \<times> 'a config_state_scheme" where
  "config_save_layout num s =
     (if unat num \<ge> NUM_KEY_MAPPING_INDICES
      then (False, printing_set_buffer ''No layout'' avr_pgm s)
      else let s = snd (config_delete_layout num s);
               start = word_of_int (last_end (saved_key_mapping_indices s) + 1);
               (ok, m, cursor) = save_scan [0..<NUM_LOGICAL_KEYS] (logical_to_hid_map s)
                                   (saved_key_mappings s) start;
               s = s\<lparr>saved_key_mappings := m\<rparr>
           in if \<not> ok then (False, printing_set_buffer ''Fail: no space'' avr_pgm s)
              else if start \<noteq> cursor
              then (True, s\<lparr>saved_key_mapping_indices :=
                             (saved_key_mapping_indices s)[unat num := (start, cursor - 1)]\<rparr>)
              else (False, printing_set_buffer ''No change'' avr_pgm s))"

text \<open>The loop of \<open>config_load_layout\<close>: \<open>m\<close> is the next saved pair, \<open>offset\<close> the place of the one after.\<close>

fun load_scan :: "nat list \<Rightarrow> (nat \<Rightarrow> key_mapping) \<Rightarrow> u8 \<Rightarrow> key_mapping \<Rightarrow> u8
    \<Rightarrow> (logical_keycode \<Rightarrow> hid_keycode) \<Rightarrow> logical_keycode \<Rightarrow> hid_keycode" where
  "load_scan [] saved en m offset h = h"
| "load_scan (l # ls) saved en m offset h =
     (if of_nat l \<noteq> fst m
      then load_scan ls saved en m offset (h(of_nat l := logical_to_hid_map_default ! l))
      else let h = h(of_nat l := snd m) in
           if offset \<le> en then load_scan ls saved en (saved (unat offset)) (offset + 1) h
           else load_scan ls saved en m offset h)"

definition config_load_layout :: "u8 \<Rightarrow> 'a config_state_scheme \<Rightarrow> bool \<times> 'a config_state_scheme" where
  "config_load_layout num s =
     (if unat num \<ge> NUM_KEY_MAPPING_INDICES
      then (False, printing_set_buffer ''No layout'' avr_pgm s)
      else let (start, en) = saved_key_mapping_indices s ! unat num in
      if start = NO_KEY then (False, printing_set_buffer ''No layout'' avr_pgm s)
      else (True, s\<lparr>logical_to_hid_map := load_scan [0..<NUM_LOGICAL_KEYS] (saved_key_mappings s) en
                      (saved_key_mappings s (unat start)) (start + 1) (logical_to_hid_map s)\<rparr>))"

subsection \<open>Programs\<close>

text \<open>
  The address of program \<open>idx\<close> relative to \<open>programs\<close>: the index of four-byte entries comes first.
  Reading the internal EEPROM never fails, so the source's test for \<open>-1\<close> is never true.
\<close>

definition config_get_program :: "u8 \<Rightarrow> 'a config_state_scheme \<Rightarrow> nat option" where
  "config_get_program idx s =
     (let program_offset = mem_read_short (programs s) (unat idx * 4)
      in if program_offset = 0xFFFF then None else Some (PROGRAM_COUNT * 4 + unat program_offset))"

subsection \<open>What the resets set\<close>

lemma reset_mapping_loop_char:
  "reset_mapping_loop i m = (\<lambda>l. if i \<le> unat l \<and> unat l < NUM_LOGICAL_KEYS then logical_to_hid_map_default ! unat l else m l)"
proof (induction i m rule: reset_mapping_loop.induct)
  case (1 i m)
  show ?case
  proof (cases "i < NUM_LOGICAL_KEYS")
    case True
    show ?thesis
      unfolding reset_mapping_loop.simps [of i m] Let_def 1 [OF True refl] using True
      by (intro ext) auto
  next
    case False
    then show ?thesis by (intro ext) (auto simp: reset_mapping_loop.simps [of i])
  qed
qed

lemma buzzer_start_f_config [simp]:
  "logical_to_hid_map (buzzer_start_f f t s) = logical_to_hid_map s"
  "saved_key_mapping_indices (buzzer_start_f f t s) = saved_key_mapping_indices s"
  "saved_key_mappings (buzzer_start_f f t s) = saved_key_mappings s"
  "eeprom_sentinel_byte (buzzer_start_f f t s) = eeprom_sentinel_byte s"
  "eeprom_flags (buzzer_start_f f t s) = eeprom_flags s"
  "debounce_len (buzzer_start_f f t s) = debounce_len s"
  "mouse_div (buzzer_start_f f t s) = mouse_div s"
  "wheel_div (buzzer_start_f f t s) = wheel_div s"
  "programs (buzzer_start_f f t s) = programs s"
  by (simp_all add: buzzer_defs Let_def)

lemma config_reset_defaults_frame [simp]:
  "logical_to_hid_map (config_reset_defaults s) =
     (\<lambda>l. if unat l < NUM_LOGICAL_KEYS then logical_to_hid_map_default ! unat l else logical_to_hid_map s l)"
  "saved_key_mapping_indices (config_reset_defaults s) = saved_key_mapping_indices s"
  "saved_key_mappings (config_reset_defaults s) = saved_key_mappings s"
  "eeprom_sentinel_byte (config_reset_defaults s) = eeprom_sentinel_byte s"
  "eeprom_flags (config_reset_defaults s) = eeprom_flags s"
  "debounce_len (config_reset_defaults s) = debounce_len s"
  "mouse_div (config_reset_defaults s) = mouse_div s"
  "wheel_div (config_reset_defaults s) = wheel_div s"
  "programs (config_reset_defaults s) = programs s"
  by (simp_all add: config_reset_defaults_def Let_def reset_mapping_loop_char cong: if_cong)

subsection \<open>The saved layouts as lists of pairs\<close>

definition layout :: "key_mapping_idx list \<Rightarrow> (nat \<Rightarrow> key_mapping) \<Rightarrow> nat \<Rightarrow> key_mapping list option" where
  "layout idx m i = (let (st, en) = idx ! i in
     if st = NO_KEY then None else Some (map m [unat st..<unat en + 1]))"

text \<open>
  The invariant of the table: ten entries; a layout in use is a range that ends before the last pair;
  ranges do not overlap; and the buffer is packed, each range starting at 0 or right behind another.
\<close>

definition used :: "key_mapping_idx list \<Rightarrow> nat \<Rightarrow> bool" where
  "used idx i \<longleftrightarrow> i < NUM_KEY_MAPPING_INDICES \<and> fst (idx ! i) \<noteq> NO_KEY"

definition layouts_ok :: "key_mapping_idx list \<Rightarrow> bool" where
  "layouts_ok idx \<longleftrightarrow> length idx = NUM_KEY_MAPPING_INDICES
     \<and> (\<forall>i. used idx i \<longrightarrow> fst (idx ! i) \<le> snd (idx ! i) \<and> snd (idx ! i) < 254)
     \<and> (\<forall>i j. used idx i \<longrightarrow> used idx j \<longrightarrow> i \<noteq> j \<longrightarrow> snd (idx ! i) < fst (idx ! j) \<or> snd (idx ! j) < fst (idx ! i))
     \<and> (\<forall>i. used idx i \<longrightarrow> fst (idx ! i) = 0 \<or> (\<exists>j. used idx j \<and> unat (snd (idx ! j)) + 1 = unat (fst (idx ! i))))"

definition shift_idx :: "u8 \<Rightarrow> u8 \<Rightarrow> key_mapping_idx \<Rightarrow> key_mapping_idx" where
  "shift_idx en len p = (if fst p \<noteq> NO_KEY \<and> fst p > en then (fst p - len, snd p - len) else p)"

lemma delete_scan_indices: "fst (delete_scan idx en len me) = map (shift_idx en len) idx"
  by (induction idx en len me rule: delete_scan.induct)
    (auto simp: shift_idx_def Let_def case_prod_beta)

lemma delete_scan_max:
  "me \<le> snd (delete_scan idx en len me)
   \<and> (\<forall>p\<in>set idx. fst p \<noteq> NO_KEY \<and> fst p > en \<longrightarrow> snd p \<le> snd (delete_scan idx en len me))"
proof (induction idx en len me rule: delete_scan.induct)
  case (2 st e rest en len me)
  let ?me = "if e > me then e else me"
  have "me \<le> ?me" "e \<le> ?me" by auto
  then show ?case using 2
    by (auto simp: Let_def case_prod_beta intro: order.trans)
qed simp

text \<open>
  Deleting layout \<open>n\<close>, in numbers: the ranges behind it start and end \<open>len\<close> lower, and the table holds
  their pairs there.
\<close>

lemma config_delete_layout_step:
  assumes ok: "layouts_ok (saved_key_mapping_indices s)" and n: "used (saved_key_mapping_indices s) (unat num)"
  defines "idx \<equiv> saved_key_mapping_indices s" and "m \<equiv> saved_key_mappings s"
  defines "st \<equiv> unat (fst (idx ! unat num))" and "en \<equiv> unat (snd (idx ! unat num))"
  defines "len \<equiv> en + 1 - st"
  obtains idx' m' where
    "config_delete_layout num s = (True, s\<lparr>saved_key_mapping_indices := idx', saved_key_mappings := m'\<rparr>)"
    "length idx' = NUM_KEY_MAPPING_INDICES" "\<not> used idx' (unat num)" "st \<le> en"
    "\<And>i. used idx' i \<longleftrightarrow> used idx i \<and> i \<noteq> unat num"
    "\<And>i. used idx' i \<Longrightarrow> en < unat (fst (idx ! i)) \<Longrightarrow>
       unat (fst (idx' ! i)) + len = unat (fst (idx ! i)) \<and> unat (snd (idx' ! i)) + len = unat (snd (idx ! i))"
    "\<And>i. used idx' i \<Longrightarrow> \<not> en < unat (fst (idx ! i)) \<Longrightarrow> idx' ! i = idx ! i \<and> unat (snd (idx ! i)) < st"
    "\<And>i x. used idx i \<Longrightarrow> en < unat (fst (idx ! i)) \<Longrightarrow> unat (fst (idx ! i)) \<le> x \<Longrightarrow> x \<le> unat (snd (idx ! i)) \<Longrightarrow>
       m' (x - len) = m x"
    "\<And>x. x < st \<Longrightarrow> m' x = m x"
proof -
  obtain ws we where w: "idx ! unat num = (ws, we)" by (cases "idx ! unat num")
  have num: "unat num < NUM_KEY_MAPPING_INDICES" and ws: "ws \<noteq> NO_KEY"
    using n w by (auto simp: used_def idx_def)
  have inv: "length idx = NUM_KEY_MAPPING_INDICES"
    "\<And>i. used idx i \<Longrightarrow> fst (idx ! i) \<le> snd (idx ! i) \<and> snd (idx ! i) < 254"
    "\<And>i j. used idx i \<Longrightarrow> used idx j \<Longrightarrow> i \<noteq> j \<Longrightarrow> snd (idx ! i) < fst (idx ! j) \<or> snd (idx ! j) < fst (idx ! i)"
    using ok by (auto simp: layouts_ok_def idx_def)
  have se: "ws \<le> we" "we < 254" using inv(2) [of "unat num"] n w by (auto simp: idx_def)
  have st: "st = unat ws" "en = unat we" by (simp_all add: st_def en_def w)
  define wl where "wl = we - ws + 1"
  have wl: "unat wl = len"
  proof -
    have "unat (we - ws) = en - st" using se(1) st by (simp add: unat_sub)
    moreover have "unat (we - ws) + 1 < 2 ^ 8"
      using \<open>unat (we - ws) = en - st\<close> se(2) st by (simp add: word_less_nat_alt)
    ultimately show ?thesis
      using unat_add_lem [of "we - ws" 1] se(1) st by (simp add: wl_def len_def word_le_nat_alt)
  qed
  let ?idx = "idx[unat num := (0xFF, 0xFF)]"
  define idx' me where "idx' = map (shift_idx we wl) ?idx" and "me = snd (delete_scan ?idx we wl we)"
  have me: "we \<le> me" "\<And>i. used idx i \<Longrightarrow> i \<noteq> unat num \<Longrightarrow> we < fst (idx ! i) \<Longrightarrow> snd (idx ! i) \<le> me"
  proof -
    show "we \<le> me" using delete_scan_max [of we ?idx we wl] by (simp add: me_def)
    fix i assume i: "used idx i" "i \<noteq> unat num" "we < fst (idx ! i)"
    then have "idx ! i \<in> set ?idx" using inv(1) by (metis length_list_update nth_list_update_neq nth_mem used_def)
    then show "snd (idx ! i) \<le> me"
      using delete_scan_max [of we ?idx we wl] i by (simp add: me_def used_def)
  qed
  define m' where "m' = (if we < me then move_pairs m (unat we + 1 - unat wl) (unat we + 1) (unat (me - we)) else m)"
  have mv: "unat (me - we) = unat me - en" using me(1) st by (simp add: unat_sub)
  have dst: "unat we + 1 - unat wl = st" using wl se(1) st by (simp add: len_def word_le_nat_alt)
  have del: "config_delete_layout num s = (True, s\<lparr>saved_key_mapping_indices := idx', saved_key_mappings := m'\<rparr>)"
    using num ws w
    by (simp add: config_delete_layout_def idx_def [symmetric] m_def [symmetric] Let_def wl_def [symmetric]
        case_prod_beta delete_scan_indices idx'_def me_def [symmetric] m'_def)
  have m': "m' i = (if we < me \<and> st \<le> i \<and> i < st + unat (me - we) then m (en + 1 + (i - st)) else m i)" for i
    using dst st by (simp add: m'_def move_pairs_def)
  have nth: "idx' ! i = (if i = unat num then shift_idx we wl (0xFF, 0xFF) else shift_idx we wl (idx ! i))"
    if "i < NUM_KEY_MAPPING_INDICES" for i
    using that inv(1) by (simp add: idx'_def nth_list_update)
  have gone: "\<not> used idx' (unat num)" using nth [OF num] by (simp add: used_def shift_idx_def NO_KEY_def)
  have pos: "we < fst (idx ! i) \<or> snd (idx ! i) < ws" "fst (idx ! i) \<le> snd (idx ! i)" "snd (idx ! i) < 254"
    if "used idx i" "i \<noteq> unat num" for i
    using inv(3) [OF that(1) n [folded idx_def] that(2)] inv(2) [OF that(1)] w by auto
  have shifted: "shift_idx we wl (idx ! i) = (fst (idx ! i) - wl, snd (idx ! i) - wl)
      \<and> unat (fst (idx ! i) - wl) + len = unat (fst (idx ! i)) \<and> unat (snd (idx ! i) - wl) + len = unat (snd (idx ! i))"
    if "used idx i" "i \<noteq> unat num" "we < fst (idx ! i)" for i
  proof -
    have "wl \<le> fst (idx ! i)" using that(3) wl st by (simp add: word_le_nat_alt word_less_nat_alt len_def)
    moreover from this have "wl \<le> snd (idx ! i)" using pos(2) [OF that(1,2)] by simp
    ultimately show ?thesis using that wl by (simp add: shift_idx_def used_def unat_sub word_le_nat_alt)
  qed
  have use': "used idx' i \<longleftrightarrow> used idx i \<and> i \<noteq> unat num" for i
  proof (cases "i < NUM_KEY_MAPPING_INDICES \<and> i \<noteq> unat num \<and> used idx i \<and> we < fst (idx ! i)")
    case True
    then have "unat (fst (idx ! i) - wl) < 254"
      using shifted [of i] pos(2,3) [of i] by (auto simp: word_le_nat_alt word_less_nat_alt)
    then have "fst (idx ! i) - wl \<noteq> NO_KEY" by (auto simp: NO_KEY_def)
    then show ?thesis using True nth shifted [of i] by (simp add: used_def)
  next
    case False
    then show ?thesis using gone nth [of i] by (cases "i = unat num") (auto simp: used_def shift_idx_def)
  qed
  show thesis
  proof (rule that [OF del _ gone _ use'])
    show "length idx' = NUM_KEY_MAPPING_INDICES" using inv(1) by (simp add: idx'_def)
    show "st \<le> en" using se(1) st by (simp add: word_le_nat_alt)
  next
    fix i assume i: "used idx' i" "en < unat (fst (idx ! i))"
    then have u: "used idx i" "i \<noteq> unat num" using use' by auto
    then have "idx' ! i = shift_idx we wl (idx ! i)" using nth [of i] by (simp add: used_def)
    moreover have "we < fst (idx ! i)" using i(2) st by (simp add: word_less_nat_alt)
    ultimately show "unat (fst (idx' ! i)) + len = unat (fst (idx ! i)) \<and> unat (snd (idx' ! i)) + len = unat (snd (idx ! i))"
      using shifted [OF u] by auto
  next
    fix i assume i: "used idx' i" "\<not> en < unat (fst (idx ! i))"
    then have u: "used idx i" "i \<noteq> unat num" using use' by auto
    have lo: "\<not> we < fst (idx ! i)" using i(2) st by (simp add: word_less_nat_alt)
    then have "idx' ! i = idx ! i" using nth [of i] u by (simp add: used_def shift_idx_def)
    moreover have "snd (idx ! i) < ws" using pos(1) [OF u] lo by blast
    ultimately show "idx' ! i = idx ! i \<and> unat (snd (idx ! i)) < st" using st by (simp add: word_less_nat_alt)
  next
    fix i x assume i: "used idx i" "en < unat (fst (idx ! i))" "unat (fst (idx ! i)) \<le> x" "x \<le> unat (snd (idx ! i))"
    have ne: "i \<noteq> unat num" using i(2) w se(1) st by (auto simp: word_le_nat_alt)
    have "we < fst (idx ! i)" using i(2) st by (simp add: word_less_nat_alt)
    then have "snd (idx ! i) \<le> me" using me(2) i(1) ne by blast
    then have x: "x \<le> unat me" "en < x" using i by (auto simp: word_le_nat_alt)
    have "we < me" using x st by (simp add: word_less_nat_alt)
    moreover have "st \<le> x - len" "x - len < st + (unat me - en)" and src: "en + 1 + (x - len - st) = x"
      using x se(1) st by (auto simp: len_def word_le_nat_alt)
    ultimately have "m' (x - len) = m (en + 1 + (x - len - st))"
      unfolding m' mv by (intro if_P conjI)
    then show "m' (x - len) = m x" by (simp only: src)
  next
    fix x assume "x < st" then show "m' x = m x" by (simp add: m')
  qed
qed

lemma layout_used: "layout idx m i \<noteq> None \<longleftrightarrow> fst (idx ! i) \<noteq> NO_KEY"
  by (simp add: layout_def case_prod_beta Let_def)

lemma config_delete_layout_ok:
  assumes ok: "layouts_ok (saved_key_mapping_indices s)" and n: "used (saved_key_mapping_indices s) (unat num)"
  shows "\<exists>idx' m'. config_delete_layout num s = (True, s\<lparr>saved_key_mapping_indices := idx', saved_key_mappings := m'\<rparr>)
    \<and> layouts_ok idx' \<and> \<not> used idx' (unat num)
    \<and> (\<forall>i < NUM_KEY_MAPPING_INDICES. i \<noteq> unat num \<longrightarrow>
        layout idx' m' i = layout (saved_key_mapping_indices s) (saved_key_mappings s) i)"
proof -
  define idx m where "idx = saved_key_mapping_indices s" and "m = saved_key_mappings s"
  define st en where "st = unat (fst (idx ! unat num))" and "en = unat (snd (idx ! unat num))"
  define len where "len = en + 1 - st"
  obtain idx' m' where d:
    "config_delete_layout num s = (True, s\<lparr>saved_key_mapping_indices := idx', saved_key_mappings := m'\<rparr>)"
    "length idx' = NUM_KEY_MAPPING_INDICES" "\<not> used idx' (unat num)" "st \<le> en"
    "\<And>i. used idx' i \<longleftrightarrow> used idx i \<and> i \<noteq> unat num"
    "\<And>i. used idx' i \<Longrightarrow> en < unat (fst (idx ! i)) \<Longrightarrow>
       unat (fst (idx' ! i)) + len = unat (fst (idx ! i)) \<and> unat (snd (idx' ! i)) + len = unat (snd (idx ! i))"
    "\<And>i. used idx' i \<Longrightarrow> \<not> en < unat (fst (idx ! i)) \<Longrightarrow> idx' ! i = idx ! i \<and> unat (snd (idx ! i)) < st"
    "\<And>i x. used idx i \<Longrightarrow> en < unat (fst (idx ! i)) \<Longrightarrow> unat (fst (idx ! i)) \<le> x \<Longrightarrow> x \<le> unat (snd (idx ! i)) \<Longrightarrow>
       m' (x - len) = m x"
    "\<And>x. x < st \<Longrightarrow> m' x = m x"
    by (rule config_delete_layout_step [OF ok n, folded idx_def m_def, folded st_def en_def, folded len_def])
      (rule that; assumption)
  have inv: "\<And>i. used idx i \<Longrightarrow> unat (fst (idx ! i)) \<le> unat (snd (idx ! i)) \<and> unat (snd (idx ! i)) < 254"
    "\<And>i j. used idx i \<Longrightarrow> used idx j \<Longrightarrow> i \<noteq> j \<Longrightarrow>
       unat (snd (idx ! i)) < unat (fst (idx ! j)) \<or> unat (snd (idx ! j)) < unat (fst (idx ! i))"
    "\<And>i. used idx i \<Longrightarrow> unat (fst (idx ! i)) = 0 \<or> (\<exists>j. used idx j \<and> unat (snd (idx ! j)) + 1 = unat (fst (idx ! i)))"
    using ok by (auto simp: layouts_ok_def idx_def word_le_nat_alt word_less_nat_alt)
  have len: "st + len = en + 1" using d(4) by (simp add: len_def)
  have SE: "unat (fst (idx' ! i)) = (if en < unat (fst (idx ! i)) then unat (fst (idx ! i)) - len else unat (fst (idx ! i)))
      \<and> unat (snd (idx' ! i)) = (if en < unat (fst (idx ! i)) then unat (snd (idx ! i)) - len else unat (snd (idx ! i)))"
    if "used idx' i" for i
  proof (cases "en < unat (fst (idx ! i))")
    case True
    then show ?thesis using d(6) [OF that True] by auto
  next
    case False
    then show ?thesis using d(7) [OF that False] by simp
  qed
  note S = SE [THEN conjunct1] and E = SE [THEN conjunct2]
  have side: "en < unat (fst (idx ! i)) \<or> unat (snd (idx ! i)) < st" if "used idx' i" for i
    using d(7) [OF that] by blast
  have "layouts_ok idx'"
    unfolding layouts_ok_def word_le_nat_alt word_less_nat_alt
  proof (intro conjI allI impI)
    show "length idx' = NUM_KEY_MAPPING_INDICES" by (rule d(2))
    fix i assume i: "used idx' i"
    then have ui: "used idx i" "i \<noteq> unat num" using d(5) by auto
    show "unat (fst (idx' ! i)) \<le> unat (snd (idx' ! i))" "unat (snd (idx' ! i)) < unat (254 :: u8)"
      using S [OF i] E [OF i] inv(1) [OF ui(1)] by auto
    show "fst (idx' ! i) = 0 \<or> (\<exists>j. used idx' j \<and> unat (snd (idx' ! j)) + 1 = unat (fst (idx' ! i)))"
    proof (cases "unat (fst (idx ! i)) = en + 1")
      case True
      then have s: "unat (fst (idx' ! i)) = st" using S [OF i] len by simp
      show ?thesis
      proof (cases "st = 0")
        case True
        then show ?thesis using s by (simp add: unat_eq_0)
      next
        case False
        then obtain j where j: "used idx j" "unat (snd (idx ! j)) + 1 = st"
          using inv(3) [OF n [folded idx_def]] by (auto simp: st_def)
        then have "j \<noteq> unat num" using d(4) by (auto simp: en_def)
        then have uj: "used idx' j" using j d(5) by blast
        have "\<not> en < unat (fst (idx ! j))" using j inv(1) [OF j(1)] d(4) by linarith
        then show ?thesis using uj E [OF uj] j(2) s by auto
      qed
    next
      case False
      show ?thesis
      proof (cases "unat (fst (idx ! i)) = 0")
        case True
        then show ?thesis using S [OF i] by (simp add: unat_eq_0 [symmetric] del: unat_eq_0)
      next
        case nz: False
        then obtain j where j: "used idx j" "unat (snd (idx ! j)) + 1 = unat (fst (idx ! i))"
          using inv(3) [OF ui(1)] by auto
        then have "j \<noteq> unat num" using False by (auto simp: en_def)
        then have uj: "used idx' j" using j d(5) by blast
        have "unat (snd (idx' ! j)) + 1 = unat (fst (idx' ! i))"
          using S [OF i] E [OF uj] j(2) side [OF i] side [OF uj] inv(1) [OF ui(1)] inv(1) [OF j(1)] d(4) len
          by (auto split: if_splits)
        then show ?thesis using uj by blast
      qed
    qed
    fix j assume j: "used idx' j" "i \<noteq> j"
    then have uj: "used idx j" using d(5) by auto
    show "unat (snd (idx' ! i)) < unat (fst (idx' ! j)) \<or> unat (snd (idx' ! j)) < unat (fst (idx' ! i))"
      using S [OF i] E [OF i] S [OF j(1)] E [OF j(1)] side [OF i] side [OF j(1)] inv(1) [OF ui(1)] inv(1) [OF uj]
        inv(2) [OF ui(1) uj j(2)] len by (auto split: if_splits)
  qed
  moreover have "layout idx' m' i = layout idx m i" if i: "i < NUM_KEY_MAPPING_INDICES" "i \<noteq> unat num" for i
  proof (cases "used idx i")
    case True
    then have u: "used idx' i" using d(5) i(2) by blast
    have "map m' [unat (fst (idx' ! i))..<unat (snd (idx' ! i)) + 1] = map m [unat (fst (idx ! i))..<unat (snd (idx ! i)) + 1]"
    proof (cases "en < unat (fst (idx ! i))")
      case hi: True
      have eq: "unat (fst (idx' ! i)) + len = unat (fst (idx ! i))" "unat (snd (idx' ! i)) + 1 + len = unat (snd (idx ! i)) + 1"
        using d(6) [OF u hi] by auto
      have "[unat (fst (idx ! i))..<unat (snd (idx ! i)) + 1]
          = map (\<lambda>x. x + len) [unat (fst (idx' ! i))..<unat (snd (idx' ! i)) + 1]"
        unfolding eq [symmetric] by (rule nth_equalityI) (auto simp: nth_append)
      moreover have "m' x = m (x + len)" if "x \<in> set [unat (fst (idx' ! i))..<unat (snd (idx' ! i)) + 1]" for x
      proof -
        have "unat (fst (idx ! i)) \<le> x + len" "x + len \<le> unat (snd (idx ! i))" using that eq by auto
        from d(8) [OF True hi this] show ?thesis by simp
      qed
      ultimately show ?thesis by simp
    next
      case False
      then show ?thesis using d(7) [OF u False] d(9) by auto
    qed
    then show ?thesis using u True by (simp add: layout_def used_def case_prod_beta Let_def)
  next
    case False
    then have "\<not> used idx' i" using d(5) by blast
    then show ?thesis using False i(1) by (simp add: layout_def used_def case_prod_beta Let_def)
  qed
  ultimately show ?thesis using d(1,3) by (auto simp: idx_def m_def)
qed

subsection \<open>Saving\<close>

definition diffs :: "nat list \<Rightarrow> (logical_keycode \<Rightarrow> hid_keycode) \<Rightarrow> key_mapping list" where
  "diffs ls h = map (\<lambda>l. (of_nat l, h (of_nat l))) (filter (\<lambda>l. h (of_nat l) \<noteq> logical_to_hid_map_default ! l) ls)"

definition write_pairs :: "(nat \<Rightarrow> key_mapping) \<Rightarrow> nat \<Rightarrow> key_mapping list \<Rightarrow> nat \<Rightarrow> key_mapping" where
  "write_pairs m c ds = (\<lambda>i. if c \<le> i \<and> i < c + length ds then ds ! (i - c) else m i)"

lemma diffs_Cons: "diffs (l # ls) h = (if h (of_nat l) \<noteq> logical_to_hid_map_default ! l then [(of_nat l, h (of_nat l))] else []) @ diffs ls h"
  by (simp add: diffs_def)

lemma write_pairs_Cons: "write_pairs (m(c := d)) (Suc c) ds = write_pairs m c (d # ds)"
proof
  fix x
  show "write_pairs (m(c := d)) (Suc c) ds x = write_pairs m c (d # ds) x"
  proof (cases "c < x")
    case True
    then obtain k where "x = c + Suc k" using less_iff_Suc_add by auto
    then show ?thesis by (simp add: write_pairs_def)
  qed (auto simp: write_pairs_def)
qed

lemma write_pairs_Nil [simp]: "write_pairs m c [] = m"
  by (rule ext) (auto simp: write_pairs_def)

lemma save_scan_fits:
  "unat c + length (diffs ls h) \<le> 254 \<Longrightarrow>
   save_scan ls h m c = (True, write_pairs m (unat c) (diffs ls h), c + of_nat (length (diffs ls h)))"
proof (induction ls h m c rule: save_scan.induct)
  case (2 l ls h m c)
  show ?case
  proof (cases "h (of_nat l) \<noteq> logical_to_hid_map_default ! l")
    case True
    then have c: "unat c + 1 + length (diffs ls h) \<le> 254" using "2.prems" by (simp add: diffs_Cons)
    then have c1: "unat (c + 1) = unat c + 1" using unat_add_lem [of c 1] by simp
    have "save_scan ls h (m(unat c := (of_nat l, h (of_nat l)))) (c + 1)
        = (True, write_pairs (m(unat c := (of_nat l, h (of_nat l)))) (unat (c + 1)) (diffs ls h),
           c + 1 + of_nat (length (diffs ls h)))"
      by (rule "2.IH"(1)) (use True c c1 in \<open>auto simp: SAVED_MAPPING_COUNT_def\<close>)
    then show ?thesis
      using True c c1 by (simp add: diffs_Cons write_pairs_Cons SAVED_MAPPING_COUNT_def add.assoc)
  qed (use 2 in \<open>simp add: diffs_Cons\<close>)
qed (simp add: diffs_def)

lemma save_scan_full:
  "unat c \<le> 254 \<Longrightarrow> 254 < unat c + length (diffs ls h) \<Longrightarrow> \<not> fst (save_scan ls h m c)"
proof (induction ls h m c rule: save_scan.induct)
  case (2 l ls h m c)
  show ?case
  proof (cases "h (of_nat l) \<noteq> logical_to_hid_map_default ! l \<and> unat c < 254")
    case True
    then have "unat (c + 1) = unat c + 1" using unat_add_lem [of c 1] by simp
    then show ?thesis using True 2 by (simp add: diffs_Cons SAVED_MAPPING_COUNT_def fun_upd_def)
  qed (use 2 in \<open>auto simp: diffs_Cons SAVED_MAPPING_COUNT_def\<close>)
qed (simp add: diffs_def)

lemma save_scan_below: "i < unat c \<Longrightarrow> unat c \<le> 254 \<Longrightarrow> fst (snd (save_scan ls h m c)) i = m i"
proof (induction ls h m c rule: save_scan.induct)
  case (2 l ls h m c)
  show ?case
  proof (cases "h (of_nat l) \<noteq> logical_to_hid_map_default ! l \<and> unat c < 254")
    case True
    then have "unat (c + 1) = unat c + 1" using unat_add_lem [of c 1] by simp
    then show ?thesis using True 2 by (simp add: SAVED_MAPPING_COUNT_def fun_upd_def)
  qed (use 2 in \<open>auto simp: SAVED_MAPPING_COUNT_def\<close>)
qed simp

text \<open>Where the next layout goes: behind every layout in use.\<close>

lemma last_end_fold:
  fixes a :: int
  defines "f \<equiv> \<lambda>(st, en) e. if st = NO_KEY then e else if uint en > e then uint en else e"
  shows "a \<le> fold f idx a \<and> (\<forall>p\<in>set idx. fst p \<noteq> NO_KEY \<longrightarrow> uint (snd p) \<le> fold f idx a)
    \<and> (fold f idx a = a \<or> (\<exists>p\<in>set idx. fst p \<noteq> NO_KEY \<and> uint (snd p) = fold f idx a))"
proof (induction idx arbitrary: a)
  case (Cons p idx)
  obtain st en where p: "p = (st, en)" by (cases p)
  have b: "a \<le> f p a" "st \<noteq> NO_KEY \<Longrightarrow> uint en \<le> f p a" "f p a = a \<or> st \<noteq> NO_KEY \<and> uint en = f p a"
    by (auto simp: f_def p)
  define e where "e = fold f idx (f p a)"
  have ih: "f p a \<le> e" "\<And>p. p \<in> set idx \<Longrightarrow> fst p \<noteq> NO_KEY \<Longrightarrow> uint (snd p) \<le> e"
    "e = f p a \<or> (\<exists>p\<in>set idx. fst p \<noteq> NO_KEY \<and> uint (snd p) = e)"
    using Cons.IH [of "f p a"] by (auto simp: e_def)
  have "a \<le> e" "st \<noteq> NO_KEY \<Longrightarrow> uint en \<le> e" using b ih(1) by auto
  moreover have "e = a \<or> (\<exists>q\<in>set (p # idx). fst q \<noteq> NO_KEY \<and> uint (snd q) = e)"
    using ih(3) b(3) p by auto
  moreover have "fold f (p # idx) a = e" by (simp add: e_def)
  ultimately show ?case using ih(2) p by auto
qed simp

definition next_start :: "key_mapping_idx list \<Rightarrow> u8" where
  "next_start idx = word_of_int (last_end idx + 1)"

lemma next_start:
  assumes "layouts_ok idx"
  shows "unat (next_start idx) \<le> 254" "used idx i \<Longrightarrow> unat (snd (idx ! i)) < unat (next_start idx)"
    and "next_start idx = 0 \<or> (\<exists>j. used idx j \<and> unat (snd (idx ! j)) + 1 = unat (next_start idx))"
proof -
  have len: "length idx = NUM_KEY_MAPPING_INDICES" using assms by (simp add: layouts_ok_def)
  note l = last_end_fold [of "-1" idx, folded last_end_def]
  have mem: "\<exists>i. used idx i \<and> idx ! i = p" if "p \<in> set idx" "fst p \<noteq> NO_KEY" for p
    using that len by (auto simp: in_set_conv_nth used_def)
  have end_i: "unat (snd (idx ! i)) < 254" if "used idx i" for i
    using assms that by (auto simp: layouts_ok_def word_less_nat_alt)
  have b: "-1 \<le> last_end idx" "last_end idx \<le> 253"
  proof -
    show "-1 \<le> last_end idx" using l by blast
    have "uint (snd p) \<le> 253" if p: "p \<in> set idx" "fst p \<noteq> NO_KEY" for p
    proof -
      obtain i where i: "used idx i" "idx ! i = p" using mem [OF p] by blast
      show ?thesis using end_i [OF i(1)] uint_nat [of "snd p"] unfolding i(2) by linarith
    qed
    moreover have "last_end idx = -1 \<or> (\<exists>p\<in>set idx. fst p \<noteq> NO_KEY \<and> uint (snd p) = last_end idx)"
      using l by blast
    ultimately show "last_end idx \<le> 253" by (elim disjE bexE conjE) (simp, metis)
  qed
  have u: "int (unat (next_start idx)) = last_end idx + 1"
    using b unfolding next_start_def of_nat_unat uint_word_of_int take_bit_eq_mod by (simp add: mod_pos_pos_trivial)
  show "unat (next_start idx) \<le> 254" using u b by linarith
  show "unat (snd (idx ! i)) < unat (next_start idx)" if "used idx i"
  proof -
    have "idx ! i \<in> set idx" "fst (idx ! i) \<noteq> NO_KEY" using that len by (auto simp: used_def)
    then have "uint (snd (idx ! i)) \<le> last_end idx" using l by blast
    then show ?thesis using u uint_nat [of "snd (idx ! i)"] by linarith
  qed
  show "next_start idx = 0 \<or> (\<exists>j. used idx j \<and> unat (snd (idx ! j)) + 1 = unat (next_start idx))"
  proof (cases "last_end idx = -1")
    case True
    then show ?thesis by (simp add: next_start_def)
  next
    case False
    then obtain p where "p \<in> set idx" "fst p \<noteq> NO_KEY" "uint (snd p) = last_end idx" using l by blast
    then obtain j where "used idx j" "uint (snd (idx ! j)) = last_end idx" using mem by blast
    then have "unat (snd (idx ! j)) + 1 = unat (next_start idx)" using u uint_nat [of "snd (idx ! j)"] by linarith
    then show ?thesis using \<open>used idx j\<close> by blast
  qed
qed

lemma config_delete_layout_any:
  assumes ok: "layouts_ok (saved_key_mapping_indices s)" and n: "unat num < NUM_KEY_MAPPING_INDICES"
  defines "s1 \<equiv> snd (config_delete_layout num s)"
  shows "layouts_ok (saved_key_mapping_indices s1) \<and> \<not> used (saved_key_mapping_indices s1) (unat num)
    \<and> logical_to_hid_map s1 = logical_to_hid_map s
    \<and> (\<forall>i < NUM_KEY_MAPPING_INDICES. i \<noteq> unat num \<longrightarrow>
        layout (saved_key_mapping_indices s1) (saved_key_mappings s1) i
        = layout (saved_key_mapping_indices s) (saved_key_mappings s) i)"
proof (cases "used (saved_key_mapping_indices s) (unat num)")
  case True
  obtain idx' m' where
    "config_delete_layout num s = (True, s\<lparr>saved_key_mapping_indices := idx', saved_key_mappings := m'\<rparr>)"
    "layouts_ok idx'" "\<not> used idx' (unat num)"
    "\<forall>i < NUM_KEY_MAPPING_INDICES. i \<noteq> unat num \<longrightarrow>
        layout idx' m' i = layout (saved_key_mapping_indices s) (saved_key_mappings s) i"
    using config_delete_layout_ok [OF ok True] by blast
  then show ?thesis by (simp add: s1_def)
next
  case False
  obtain st en where "saved_key_mapping_indices s ! unat num = (st, en)" by fastforce
  then have "s1 = printing_set_buffer ''No layout'' avr_pgm s"
    using False n by (simp add: s1_def config_delete_layout_def used_def)
  then show ?thesis using False ok by (simp add: printing_set_buffer_def)
qed

lemma layout_cong:
  assumes "idx' ! i = idx ! i" "\<And>x. used idx i \<Longrightarrow> x \<le> unat (snd (idx ! i)) \<Longrightarrow> m' x = m x" "i < NUM_KEY_MAPPING_INDICES"
  shows "layout idx' m' i = layout idx m i"
  using assms by (auto simp: layout_def used_def case_prod_beta Let_def)

text \<open>A range put behind all others keeps the table packed.\<close>

lemma layouts_ok_insert:
  assumes ok: "layouts_ok idx" and free: "\<not> used idx n" and n: "n < NUM_KEY_MAPPING_INDICES"
    and k: "0 < k" "unat (next_start idx) + k \<le> 254"
  defines "st \<equiv> next_start idx" and "en \<equiv> next_start idx + of_nat k - 1"
  shows "layouts_ok (idx[n := (st, en)])" and "unat en + 1 = unat st + k"
proof -
  have len: "length idx = NUM_KEY_MAPPING_INDICES" using ok by (simp add: layouts_ok_def)
  have en_nat: "en = of_nat (unat st + k - 1)" using k by (simp add: en_def st_def of_nat_diff)
  have "unat en = unat st + k - 1"
    using k unfolding en_nat unat_of_nat by (simp add: st_def)
  then show e: "unat en + 1 = unat st + k" using k by simp
  define idx' where "idx' = idx[n := (st, en)]"
  have st: "st \<noteq> NO_KEY" using k e by (auto simp: st_def NO_KEY_def)
  have used': "used idx' i \<longleftrightarrow> i = n \<or> used idx i" for i
    using n st len by (auto simp: used_def idx'_def nth_list_update)
  have nth_n: "idx' ! n = (st, en)" using n len by (simp add: idx'_def)
  have nth_i: "idx' ! i = idx ! i" if "used idx i" for i
    using that free by (cases "i = n") (auto simp: idx'_def)
  have below: "unat (snd (idx ! i)) < unat st" if "used idx i" for i
    using next_start(2) [OF ok that] by (simp add: st_def)
  have below': "snd (idx ! i) < st" if "used idx i" for i
    using below [OF that] by (simp add: word_less_nat_alt)
  have "\<forall>i. used idx' i \<longrightarrow> fst (idx' ! i) \<le> snd (idx' ! i) \<and> snd (idx' ! i) < 254"
    using ok nth_n nth_i e k unfolding used' layouts_ok_def
    by (auto simp: word_le_nat_alt word_less_nat_alt st_def)
  moreover have "\<forall>i j. used idx' i \<longrightarrow> used idx' j \<longrightarrow> i \<noteq> j \<longrightarrow>
      snd (idx' ! i) < fst (idx' ! j) \<or> snd (idx' ! j) < fst (idx' ! i)"
    using ok nth_n nth_i below' unfolding used' layouts_ok_def by auto
  moreover have "\<forall>i. used idx' i \<longrightarrow> fst (idx' ! i) = 0 \<or> (\<exists>j. used idx' j \<and> unat (snd (idx' ! j)) + 1 = unat (fst (idx' ! i)))"
  proof (intro allI impI)
    fix i assume "used idx' i"
    then consider "i = n" | "used idx i" using used' by blast
    then show "fst (idx' ! i) = 0 \<or> (\<exists>j. used idx' j \<and> unat (snd (idx' ! j)) + 1 = unat (fst (idx' ! i)))"
    proof cases
      case 1
      then show ?thesis using next_start(3) [OF ok] used' nth_i nth_n by (metis fst_conv st_def)
    next
      case 2
      then show ?thesis using ok used' nth_i unfolding layouts_ok_def by metis
    qed
  qed
  ultimately have "layouts_ok idx'"
    unfolding layouts_ok_def using len by (simp add: idx'_def)
  then show "layouts_ok (idx[n := (st, en)])" by (simp add: idx'_def)
qed

text \<open>The three outcomes of saving, and the layouts afterwards.\<close>

lemma config_save_layout_cases:
  assumes ok: "layouts_ok (saved_key_mapping_indices s)" and n: "unat num < NUM_KEY_MAPPING_INDICES"
  defines "s1 \<equiv> snd (config_delete_layout num s)"
  defines "idx \<equiv> saved_key_mapping_indices s1" and "ds \<equiv> diffs [0..<NUM_LOGICAL_KEYS] (logical_to_hid_map s)"
  defines "c \<equiv> next_start idx"
  shows "unat c + length ds \<le> 254 \<Longrightarrow> ds \<noteq> [] \<Longrightarrow> config_save_layout num s =
      (True, s1\<lparr>saved_key_mappings := write_pairs (saved_key_mappings s1) (unat c) ds,
                saved_key_mapping_indices := idx[unat num := (c, c + of_nat (length ds) - 1)]\<rparr>)"
    and "ds = [] \<Longrightarrow> config_save_layout num s = (False, printing_set_buffer ''No change'' avr_pgm s1)"
    and "254 < unat c + length ds \<Longrightarrow> \<exists>m. config_save_layout num s =
      (False, printing_set_buffer ''Fail: no space'' avr_pgm (s1\<lparr>saved_key_mappings := m\<rparr>))
      \<and> (\<forall>i < unat c. m i = saved_key_mappings s1 i)"
proof -
  have h: "logical_to_hid_map s1 = logical_to_hid_map s" and ok1: "layouts_ok idx"
    using config_delete_layout_any [OF ok n] by (auto simp: s1_def idx_def)
  note c254 = next_start(1) [OF ok1, folded c_def]
  have c: "word_of_int (last_end (saved_key_mapping_indices (snd (config_delete_layout num s))) + 1) = c"
    by (simp add: c_def next_start_def idx_def s1_def)
  have sav: "config_save_layout num s =
     (case save_scan [0..<NUM_LOGICAL_KEYS] (logical_to_hid_map s) (saved_key_mappings s1) c of (ok, m, cursor) \<Rightarrow>
        if \<not> ok then (False, printing_set_buffer ''Fail: no space'' avr_pgm (s1\<lparr>saved_key_mappings := m\<rparr>))
        else if c \<noteq> cursor
        then (True, s1\<lparr>saved_key_mappings := m, saved_key_mapping_indices := idx[unat num := (c, cursor - 1)]\<rparr>)
        else (False, printing_set_buffer ''No change'' avr_pgm (s1\<lparr>saved_key_mappings := m\<rparr>)))"
    unfolding config_save_layout_def Let_def c using n
    by (simp add: s1_def [symmetric] h idx_def [symmetric] split: prod.splits)
  show "config_save_layout num s =
      (True, s1\<lparr>saved_key_mappings := write_pairs (saved_key_mappings s1) (unat c) ds,
                saved_key_mapping_indices := idx[unat num := (c, c + of_nat (length ds) - 1)]\<rparr>)"
    if fit: "unat c + length ds \<le> 254" and "ds \<noteq> []"
  proof -
    have "c + of_nat (length ds) \<noteq> c"
    proof
      assume "c + of_nat (length ds) = c"
      then have "of_nat (length ds) = (0 :: u8)" by simp
      then have "(256 :: nat) dvd length ds" by (simp add: word_of_nat_eq_0_iff)
      then show False using \<open>ds \<noteq> []\<close> fit by (auto dest: dvd_imp_le)
    qed
    then show ?thesis
      using save_scan_fits [OF fit [unfolded ds_def]] by (simp add: sav ds_def [symmetric])
  qed
  show "config_save_layout num s = (False, printing_set_buffer ''No change'' avr_pgm s1)" if "ds = []"
    using save_scan_fits [of c "[0..<NUM_LOGICAL_KEYS]" "logical_to_hid_map s" "saved_key_mappings s1"] c254 that
    by (simp add: sav ds_def [symmetric])
  show "\<exists>m. config_save_layout num s =
      (False, printing_set_buffer ''Fail: no space'' avr_pgm (s1\<lparr>saved_key_mappings := m\<rparr>))
      \<and> (\<forall>i < unat c. m i = saved_key_mappings s1 i)" if full: "254 < unat c + length ds"
  proof -
    obtain m cu where sc: "save_scan [0..<NUM_LOGICAL_KEYS] (logical_to_hid_map s) (saved_key_mappings s1) c = (False, m, cu)"
      using save_scan_full [OF c254 full [unfolded ds_def], of "saved_key_mappings s1"]
      by (cases "save_scan [0..<NUM_LOGICAL_KEYS] (logical_to_hid_map s) (saved_key_mappings s1) c") auto
    have "\<forall>i < unat c. m i = saved_key_mappings s1 i"
      using save_scan_below [OF _ c254] sc by (metis fst_conv snd_conv)
    moreover have "config_save_layout num s =
        (False, printing_set_buffer ''Fail: no space'' avr_pgm (s1\<lparr>saved_key_mappings := m\<rparr>))"
      using sc by (simp add: sav)
    ultimately show ?thesis by blast
  qed
qed

lemma config_save_layout_frame:
  assumes ok: "layouts_ok (saved_key_mapping_indices s)" and n: "unat num < NUM_KEY_MAPPING_INDICES"
  defines "s2 \<equiv> snd (config_save_layout num s)" and "ds \<equiv> diffs [0..<NUM_LOGICAL_KEYS] (logical_to_hid_map s)"
  shows "layouts_ok (saved_key_mapping_indices s2)"
    and "logical_to_hid_map s2 = logical_to_hid_map s"
    and "i < NUM_KEY_MAPPING_INDICES \<Longrightarrow> i \<noteq> unat num \<Longrightarrow>
      layout (saved_key_mapping_indices s2) (saved_key_mappings s2) i
      = layout (saved_key_mapping_indices s) (saved_key_mappings s) i"
    and "layout (saved_key_mapping_indices s2) (saved_key_mappings s2) (unat num)
      = (if fst (config_save_layout num s) then Some ds else None)"
    and "fst (config_save_layout num s) \<Longrightarrow> ds \<noteq> []"
proof -
  define s1 where "s1 = snd (config_delete_layout num s)"
  define idx where "idx = saved_key_mapping_indices s1"
  define c where "c = next_start idx"
  have d: "layouts_ok idx" "\<not> used idx (unat num)" "logical_to_hid_map s1 = logical_to_hid_map s"
    "\<And>i. i < NUM_KEY_MAPPING_INDICES \<Longrightarrow> i \<noteq> unat num \<Longrightarrow> layout idx (saved_key_mappings s1) i
       = layout (saved_key_mapping_indices s) (saved_key_mappings s) i"
    using config_delete_layout_any [OF ok n] by (auto simp: s1_def idx_def)
  have gone: "layout idx m (unat num) = None" for m
    using d(2) n by (simp add: layout_def used_def case_prod_beta Let_def)
  have low: "layout idx m i = layout idx (saved_key_mappings s1) i"
    if "\<forall>x < unat c. m x = saved_key_mappings s1 x" "i < NUM_KEY_MAPPING_INDICES" for m i
    by (rule layout_cong) (use that next_start(2) [OF d(1), of i] in \<open>auto simp: c_def\<close>)
  note cases = config_save_layout_cases [OF ok n, folded s1_def, folded idx_def, folded c_def, folded ds_def]
  have "layouts_ok (saved_key_mapping_indices s2) \<and> logical_to_hid_map s2 = logical_to_hid_map s
    \<and> (i < NUM_KEY_MAPPING_INDICES \<longrightarrow> i \<noteq> unat num \<longrightarrow>
        layout (saved_key_mapping_indices s2) (saved_key_mappings s2) i
        = layout (saved_key_mapping_indices s) (saved_key_mappings s) i)
    \<and> layout (saved_key_mapping_indices s2) (saved_key_mappings s2) (unat num)
      = (if fst (config_save_layout num s) then Some ds else None)
    \<and> (fst (config_save_layout num s) \<longrightarrow> ds \<noteq> [])"
  proof (cases "ds = []")
    case True
    then show ?thesis using cases(2) d gone by (simp add: s2_def printing_set_buffer_def idx_def)
  next
    case ne: False
    show ?thesis
    proof (cases "unat c + length ds \<le> 254")
      case False
      then obtain m where "config_save_layout num s =
          (False, printing_set_buffer ''Fail: no space'' avr_pgm (s1\<lparr>saved_key_mappings := m\<rparr>))"
        "\<forall>i < unat c. m i = saved_key_mappings s1 i"
        using cases(3) by auto
      then show ?thesis
        using d gone [of m] low [of m i] by (simp add: s2_def printing_set_buffer_def idx_def [symmetric])
    next
      case True
      define en where "en = c + of_nat (length ds) - 1"
      define m where "m = write_pairs (saved_key_mappings s1) (unat c) ds"
      have len: "length idx = NUM_KEY_MAPPING_INDICES" using d(1) by (simp add: layouts_ok_def)
      note r = cases(1) [OF True ne, folded en_def m_def]
      note ins = layouts_ok_insert [OF d(1,2) n, of "length ds", folded c_def, folded en_def]
      have e: "unat en + 1 = unat c + length ds" and lok: "layouts_ok (idx[unat num := (c, en)])"
        using ins ne True by simp_all
      have "c \<noteq> NO_KEY" using True ne by (auto simp: NO_KEY_def)
      then have "layout (idx[unat num := (c, en)]) m (unat num) = Some (map m [unat c..<unat en + 1])"
        using n len by (simp add: layout_def)
      also have "map m [unat c..<unat en + 1] = ds"
        unfolding e by (rule nth_equalityI) (simp_all add: m_def write_pairs_def)
      finally have new: "layout (idx[unat num := (c, en)]) m (unat num) = Some ds" .
      have "layout (idx[unat num := (c, en)]) m i = layout idx (saved_key_mappings s1) i"
        if "i < NUM_KEY_MAPPING_INDICES" "i \<noteq> unat num" for i
      proof -
        have "layout (idx[unat num := (c, en)]) m i = layout idx m i" using that by (simp add: layout_def)
        then show ?thesis using low [of m i] that by (simp add: m_def write_pairs_def)
      qed
      then show ?thesis using r d new ne lok by (simp add: s2_def)
    qed
  qed
  then show "layouts_ok (saved_key_mapping_indices s2)" "logical_to_hid_map s2 = logical_to_hid_map s"
    "i < NUM_KEY_MAPPING_INDICES \<Longrightarrow> i \<noteq> unat num \<Longrightarrow>
      layout (saved_key_mapping_indices s2) (saved_key_mappings s2) i
      = layout (saved_key_mapping_indices s) (saved_key_mappings s) i"
    "layout (saved_key_mapping_indices s2) (saved_key_mappings s2) (unat num)
      = (if fst (config_save_layout num s) then Some ds else None)"
    "fst (config_save_layout num s) \<Longrightarrow> ds \<noteq> []"
    by blast+
qed

subsection \<open>Loading\<close>

text \<open>
  The loop goes through the keys from \<open>a\<close> on with the pending pairs in ascending order: a key with a
  pair gets its value, every other key its default. After the last pair the loop keeps it, behind the
  keys still to come.
\<close>

lemma load_scan_char:
  assumes "unat en < 255" "a \<le> NUM_LOGICAL_KEYS"
    and "sorted_wrt (\<lambda>p q. unat (fst p) < unat (fst q)) (m # map saved [unat offset..<unat en + 1])"
    and "a \<le> unat (fst m) \<or> en < offset"
  shows "load_scan [a..<NUM_LOGICAL_KEYS] saved en m offset h =
    (\<lambda>l. if a \<le> unat l \<and> unat l < NUM_LOGICAL_KEYS
         then case map_of (m # map saved [unat offset..<unat en + 1]) l of
                Some v \<Rightarrow> v | None \<Rightarrow> logical_to_hid_map_default ! unat l
         else h l)"
  using assms(2-)
proof (induction "NUM_LOGICAL_KEYS - a" arbitrary: a m offset h)
  case 0
  then have "a = NUM_LOGICAL_KEYS" by simp
  then show ?case by (intro ext) (auto simp del: upt_Suc map_of.simps)
next
  case (Suc k)
  then have a: "a < NUM_LOGICAL_KEYS" and k: "k = NUM_LOGICAL_KEYS - Suc a" by auto
  have ls: "[a..<NUM_LOGICAL_KEYS] = a # [Suc a..<NUM_LOGICAL_KEYS]" using a by (simp add: upt_conv_Cons)
  have ua: "unat (of_nat a :: u8) = a" using a by (simp add: unat_of_nat NUM_LOGICAL_KEYS_def KEYPAD_LAYER_SIZE_def)
  have eqa: "of_nat a = l \<longleftrightarrow> unat l = a" for l :: u8 using ua by (metis word_unat_eq_iff)
  define R where "R = map saved [unat offset..<unat en + 1]"
  note srt = Suc.prems(2) [folded R_def]
  have asc: "unat (fst m) < unat (fst p)" if "p \<in> set R" for p using srt that by simp
  have R0: "R = []" if "en < offset" using that by (simp add: R_def word_less_nat_alt)
  have split_a: "a \<le> unat l \<longleftrightarrow> l = of_nat a \<or> Suc a \<le> unat l" for l :: u8
    using eqa [of l] by auto
  show ?case
    unfolding R_def [symmetric]
  proof (cases "of_nat a = fst m")
    case False
    have le: "Suc a \<le> unat (fst m) \<or> en < offset" using Suc.prems(3) False eqa by fastforce
    have "of_nat a \<noteq> fst p" if "p \<in> set (m # R)" for p
      using that le asc [of p] R0 ua False by auto
    then have none: "map_of (m # R) (of_nat a) = None"
      unfolding map_of_eq_None_iff by (metis imageE)
    have ih: "load_scan [Suc a..<NUM_LOGICAL_KEYS] saved en m offset h' =
      (\<lambda>l. if Suc a \<le> unat l \<and> unat l < NUM_LOGICAL_KEYS
         then case map_of (m # R) l of Some v \<Rightarrow> v | None \<Rightarrow> logical_to_hid_map_default ! unat l
         else h' l)" for h'
      unfolding R_def using a by (intro Suc.hyps(1) [OF k _ Suc.prems(2) le]) simp
    show "load_scan [a..<NUM_LOGICAL_KEYS] saved en m offset h =
      (\<lambda>l. if a \<le> unat l \<and> unat l < NUM_LOGICAL_KEYS
         then case map_of (m # R) l of Some v \<Rightarrow> v | None \<Rightarrow> logical_to_hid_map_default ! unat l
         else h l)"
      unfolding ls using False none a ua by (intro ext) (auto simp: ih split_a simp del: map_of.simps)
  next
    case True
    then have um: "unat (fst m) = a" using ua by metis
    have here: "map_of (m # R) (of_nat a) = Some (snd m)" using True by (cases m) simp
    have later: "map_of (m # R) l = map_of R l" if "Suc a \<le> unat l" for l
      using that um by (cases m) auto
    show "load_scan [a..<NUM_LOGICAL_KEYS] saved en m offset h =
      (\<lambda>l. if a \<le> unat l \<and> unat l < NUM_LOGICAL_KEYS
         then case map_of (m # R) l of Some v \<Rightarrow> v | None \<Rightarrow> logical_to_hid_map_default ! unat l
         else h l)"
    proof (cases "offset \<le> en")
      case False
      have ih: "load_scan [Suc a..<NUM_LOGICAL_KEYS] saved en m offset h' =
        (\<lambda>l. if Suc a \<le> unat l \<and> unat l < NUM_LOGICAL_KEYS
           then case map_of (m # R) l of Some v \<Rightarrow> v | None \<Rightarrow> logical_to_hid_map_default ! unat l
           else h' l)" for h'
        unfolding R_def using a False by (intro Suc.hyps(1) [OF k _ Suc.prems(2)]) auto
      show ?thesis
        unfolding ls using True False here a ua by (intro ext) (auto simp: ih split_a simp del: map_of.simps)
    next
      case hi: True
      have o1: "unat (offset + 1) = unat offset + 1"
        using hi assms(1) unat_add_lem [of offset 1] by (simp add: word_le_nat_alt)
      have rest: "R = saved (unat offset) # map saved [unat (offset + 1)..<unat en + 1]"
        using hi unfolding o1 R_def by (simp add: upt_conv_Cons word_le_nat_alt del: upt_Suc)
      have "Suc a \<le> unat (fst (saved (unat offset)))"
        using asc [of "saved (unat offset)"] rest um by auto
      moreover have "sorted_wrt (\<lambda>p q. unat (fst p) < unat (fst q))
          (saved (unat offset) # map saved [unat (offset + 1)..<unat en + 1])"
        using srt rest by simp
      ultimately have ih: "load_scan [Suc a..<NUM_LOGICAL_KEYS] saved en (saved (unat offset)) (offset + 1) h' =
        (\<lambda>l. if Suc a \<le> unat l \<and> unat l < NUM_LOGICAL_KEYS
         then case map_of R l of Some v \<Rightarrow> v | None \<Rightarrow> logical_to_hid_map_default ! unat l
         else h' l)" for h'
        unfolding rest using a by (intro Suc.hyps(1) [OF k]) auto
      show ?thesis
        unfolding ls using True hi here a ua
        by (intro ext) (auto simp: ih split_a later Let_def simp del: map_of.simps)
    qed
  qed
qed

lemma diffs_sorted: "sorted_wrt (\<lambda>p q. unat (fst p) < unat (fst q)) (diffs [0..<NUM_LOGICAL_KEYS] h)"
proof -
  have u: "unat (of_nat l :: u8) = l" if "l < NUM_LOGICAL_KEYS" for l
    using that by (simp add: unat_of_nat NUM_LOGICAL_KEYS_def KEYPAD_LAYER_SIZE_def)
  show ?thesis
    unfolding diffs_def sorted_wrt_map
  proof (rule sorted_wrt_mono_rel)
    show "sorted_wrt (<) (filter (\<lambda>l. h (of_nat l) \<noteq> logical_to_hid_map_default ! l) [0..<NUM_LOGICAL_KEYS])"
      by (intro sorted_wrt_filter) simp
  qed (simp add: u)
qed

lemma diffs_map_of:
  assumes "unat l < NUM_LOGICAL_KEYS"
  shows "(case map_of (diffs [0..<NUM_LOGICAL_KEYS] h) l of Some v \<Rightarrow> v | None \<Rightarrow> logical_to_hid_map_default ! unat l) = h l"
proof (cases "map_of (diffs [0..<NUM_LOGICAL_KEYS] h) l")
  case (Some v)
  then have "(l, v) \<in> set (diffs [0..<NUM_LOGICAL_KEYS] h)" by (rule map_of_SomeD)
  then show ?thesis using Some by (auto simp: diffs_def)
next
  case None
  then have "l \<notin> fst ` set (diffs [0..<NUM_LOGICAL_KEYS] h)" by (simp add: map_of_eq_None_iff)
  moreover have "(l, h l) \<in> set (diffs [0..<NUM_LOGICAL_KEYS] h)" if "h l \<noteq> logical_to_hid_map_default ! unat l"
    unfolding diffs_def using that assms by (auto intro!: image_eqI [of _ _ "unat l"])
  ultimately have "h l = logical_to_hid_map_default ! unat l" by (metis fst_conv image_eqI)
  then show ?thesis using None by simp
qed

lemma config_load_layout_char:
  assumes ok: "layouts_ok (saved_key_mapping_indices s)" and n: "unat num < NUM_KEY_MAPPING_INDICES"
    and lay: "layout (saved_key_mapping_indices s) (saved_key_mappings s) (unat num) = Some P"
    and asc: "sorted_wrt (\<lambda>p q. unat (fst p) < unat (fst q)) P"
  shows "config_load_layout num s = (True, s\<lparr>logical_to_hid_map := \<lambda>l.
    if unat l < NUM_LOGICAL_KEYS
    then case map_of P l of Some v \<Rightarrow> v | None \<Rightarrow> logical_to_hid_map_default ! unat l
    else logical_to_hid_map s l\<rparr>)"
proof -
  obtain st en where p: "saved_key_mapping_indices s ! unat num = (st, en)" by fastforce
  have st: "st \<noteq> NO_KEY" and P: "P = map (saved_key_mappings s) [unat st..<unat en + 1]"
    using lay p by (auto simp: layout_def split: if_splits)
  then have "used (saved_key_mapping_indices s) (unat num)" using n p by (simp add: used_def)
  then have "fst (saved_key_mapping_indices s ! unat num) \<le> snd (saved_key_mapping_indices s ! unat num)
      \<and> snd (saved_key_mapping_indices s ! unat num) < 254"
    using ok by (auto simp: layouts_ok_def)
  then have se: "st \<le> en" "en < 254" by (simp_all add: p)
  have s1: "unat (st + 1) = unat st + 1"
    using se unat_add_lem [of st 1] by (simp add: word_le_nat_alt word_less_nat_alt)
  have P': "P = saved_key_mappings s (unat st) # map (saved_key_mappings s) [unat (st + 1)..<unat en + 1]"
    using se unfolding P s1 by (simp add: upt_conv_Cons word_le_nat_alt del: upt_Suc)
  have "load_scan [0..<NUM_LOGICAL_KEYS] (saved_key_mappings s) en (saved_key_mappings s (unat st)) (st + 1) (logical_to_hid_map s) =
      (\<lambda>l. if 0 \<le> unat l \<and> unat l < NUM_LOGICAL_KEYS
         then case map_of P l of Some v \<Rightarrow> v | None \<Rightarrow> logical_to_hid_map_default ! unat l
         else logical_to_hid_map s l)"
    unfolding P' using se asc unfolding P'
    by (intro load_scan_char) (auto simp: word_less_nat_alt)
  then show ?thesis using n p st by (simp add: config_load_layout_def)
qed

subsection \<open>The flag byte\<close>

lemma bit_byte_of_flags:
  "bit (byte_of_flags f) n \<longleftrightarrow> n < 8 \<and> (if n = 0 then key_sound_enabled f else if n = 1 then macros_enabled f
     else if n = 2 then programs_enabled f else bit (packing f) (n - 3))"
proof -
  have p: "bit (push_bit 3 (packing f)) n \<longleftrightarrow> 3 \<le> n \<and> n < 8 \<and> bit (packing f) (n - 3)"
    unfolding bit_push_bit_iff possible_bit_word by simp
  have e: "bit (1 :: u8) n \<longleftrightarrow> n = 0" "bit (2 :: u8) n \<longleftrightarrow> n = 1" "bit (4 :: u8) n \<longleftrightarrow> n = 2"
    using bit_exp_iff [where ?'a = u8, of 0 n] bit_exp_iff [where ?'a = u8, of 1 n] bit_exp_iff [where ?'a = u8, of 2 n]
    by (auto simp: possible_bit_word)
  show ?thesis
    unfolding byte_of_flags_def bit_or_iff p if_distribR [symmetric] if_distrib [of bit] if_distribR e by auto
qed

lemma byte_of_flags_of_byte: "byte_of_flags (flags_of_byte b) = b"
  by (rule bit_word_eqI) (auto simp: bit_byte_of_flags flags_of_byte_def bit_drop_bit_eq)

lemma flags_of_byte_of_flags: "flags_of_byte (byte_of_flags f) = f\<lparr>packing := packing f AND mask 5\<rparr>"
proof -
  have "drop_bit 3 (byte_of_flags f) = packing f AND mask 5"
    by (rule bit_word_eqI) (auto simp: bit_byte_of_flags bit_drop_bit_eq bit_and_iff bit_mask_iff)
  then show ?thesis by (simp add: flags_of_byte_def bit_byte_of_flags)
qed

subsection \<open>A sample configuration\<close>

text \<open>Nothing saved; logical key 20 is remapped.\<close>

definition remapped_config :: config_state where
  "remapped_config = macro_state.extend (macro_state.truncate macro_reset)
     (config_state.fields EEPROM_SENTINEL 0 3 25 4
        ((\<lambda>l. config_get_default_definition l)(20 := 0x2A))
        (replicate NUM_KEY_MAPPING_INDICES (NO_KEY, NO_KEY)) (\<lambda>_. (0, 0)) (\<lambda>_. 0xFF))"

lemma remapped_config_fields:
  "saved_key_mapping_indices remapped_config = replicate NUM_KEY_MAPPING_INDICES (NO_KEY, NO_KEY)"
  "saved_key_mappings remapped_config = (\<lambda>_. (0, 0))"
  "logical_to_hid_map remapped_config = (\<lambda>l. config_get_default_definition l)(20 := 0x2A)"
  by (simp_all add: remapped_config_def macro_state.defs config_state.defs)

lemma layouts_ok_none: "layouts_ok (replicate NUM_KEY_MAPPING_INDICES (NO_KEY, NO_KEY))"
  by (auto simp: layouts_ok_def used_def)

lemma remapped_config_diffs: "diffs [0..<NUM_LOGICAL_KEYS] (logical_to_hid_map remapped_config) = [(20, 0x2A)]"
  unfolding remapped_config_fields by code_simp

lemma remapped_config_save: "fst (config_save_layout 3 remapped_config)"
proof -
  have n: "unat (3 :: u8) < NUM_KEY_MAPPING_INDICES" by (simp add: NUM_KEY_MAPPING_INDICES_def)
  have "snd (config_delete_layout 3 remapped_config) = printing_set_buffer ''No layout'' avr_pgm remapped_config"
    using n by (simp add: config_delete_layout_def remapped_config_fields)
  then have i: "saved_key_mapping_indices (snd (config_delete_layout 3 remapped_config))
      = replicate NUM_KEY_MAPPING_INDICES (NO_KEY, NO_KEY)"
    by (simp add: printing_set_buffer_def remapped_config_fields)
  have "next_start (replicate NUM_KEY_MAPPING_INDICES (NO_KEY, NO_KEY)) = 0" by code_simp
  then show ?thesis
    using config_save_layout_cases(1) [of remapped_config 3, unfolded i remapped_config_diffs] n
    by (simp add: remapped_config_fields layouts_ok_none)
qed

subsection \<open>Properties\<close>

text \<open>The saved layouts as a finite map from numbers to lists of pairs.\<close>

definition layouts :: "'a config_state_scheme \<Rightarrow> nat \<Rightarrow> key_mapping list option" where
  "layouts s i = (if i < NUM_KEY_MAPPING_INDICES
     then layout (saved_key_mapping_indices s) (saved_key_mappings s) i else None)"

text \<open>
  C4: a layout that was saved comes back. When \<open>config_save_layout\<close> reports success, then however the
  current mapping was changed since, and as long as the saved table is the one it left,
  \<open>config_load_layout\<close> of the same number succeeds and gives every logical key the HID key it had when
  the layout was saved.
\<close>

theorem config_layout_roundtrip:
  assumes "layouts_ok (saved_key_mapping_indices s)" and save: "config_save_layout num s = (True, s1)"
    and same: "saved_key_mapping_indices s2 = saved_key_mapping_indices s1" "saved_key_mappings s2 = saved_key_mappings s1"
  shows "\<exists>s3. config_load_layout num s2 = (True, s3)
    \<and> (\<forall>l. unat l < NUM_LOGICAL_KEYS \<longrightarrow> config_get_definition l s3 = config_get_definition l s)"
proof -
  have n: "unat num < NUM_KEY_MAPPING_INDICES"
    using save by (auto simp: config_save_layout_def split: if_splits)
  note f = config_save_layout_frame [OF assms(1) n]
  have "layout (saved_key_mapping_indices s2) (saved_key_mappings s2) (unat num)
      = Some (diffs [0..<NUM_LOGICAL_KEYS] (logical_to_hid_map s))"
    using f(4) save same by simp
  moreover have "layouts_ok (saved_key_mapping_indices s2)" using f(1) save same by simp
  ultimately show ?thesis
    using config_load_layout_char [OF _ n _ diffs_sorted, of s2] diffs_map_of
    by (simp add: config_get_definition_def)
qed

theorem config_layout_roundtrip_witness:
  "\<exists>s1 s3. config_save_layout 3 remapped_config = (True, s1)
    \<and> config_load_layout 3 (config_reset_defaults s1) = (True, s3)
    \<and> config_get_definition 20 (config_reset_defaults s1) = config_get_default_definition 20
    \<and> config_get_definition 20 s3 = 0x2A"
proof -
  obtain s1 where s1: "config_save_layout 3 remapped_config = (True, s1)"
    using remapped_config_save by (metis prod.collapse)
  have d: "config_get_definition 20 (config_reset_defaults s1) = config_get_default_definition 20"
    by (simp add: config_reset_defaults_frame config_get_definition_def config_get_default_definition_def
        NUM_LOGICAL_KEYS_def KEYPAD_LAYER_SIZE_def)
  obtain s3 where "config_load_layout 3 (config_reset_defaults s1) = (True, s3)"
    "\<forall>l. unat l < NUM_LOGICAL_KEYS \<longrightarrow> config_get_definition l s3 = config_get_definition l remapped_config"
    using config_layout_roundtrip [OF _ s1, of "config_reset_defaults s1"]
    by (auto simp: remapped_config_fields layouts_ok_none config_reset_defaults_frame)
  then show ?thesis using s1 d
    by (auto simp: config_get_definition_def remapped_config_fields NUM_LOGICAL_KEYS_def KEYPAD_LAYER_SIZE_def)
qed

text \<open>
  C5: saving and deleting act on the saved layouts as updates of a map. Both keep the table packed;
  deleting succeeds exactly for a layout in use and removes that one only; saving stores the keys that
  differ from the default layout under the number, and when it fails the number's former layout is
  gone. No other layout changes in any case.
\<close>

theorem config_layouts_refine_map:
  assumes "layouts_ok (saved_key_mapping_indices s)" and n: "unat num < NUM_KEY_MAPPING_INDICES"
    and del: "config_delete_layout num s = (deleted, s1)" and save: "config_save_layout num s = (saved, s2)"
  shows "layouts_ok (saved_key_mapping_indices s1) \<and> layouts_ok (saved_key_mapping_indices s2)
    \<and> (deleted \<longleftrightarrow> layouts s (unat num) \<noteq> None) \<and> layouts s1 = (layouts s)(unat num := None)
    \<and> layouts s2 = (layouts s)(unat num :=
        if saved then Some (diffs [0..<NUM_LOGICAL_KEYS] (logical_to_hid_map s)) else None)"
proof -
  note d = config_delete_layout_any [OF assms(1) n, unfolded del snd_conv]
  note f = config_save_layout_frame [OF assms(1) n, unfolded save snd_conv fst_conv]
  have "layout (saved_key_mapping_indices s1) (saved_key_mappings s1) (unat num) = None"
    using d n layout_used [of "saved_key_mapping_indices s1" "saved_key_mappings s1" "unat num"]
    unfolding used_def by blast
  then have "layouts s1 = (layouts s)(unat num := None)"
    using d by (intro ext) (simp add: layouts_def)
  moreover have "deleted \<longleftrightarrow> layouts s (unat num) \<noteq> None"
    using del n by (auto simp: config_delete_layout_def layouts_def layout_def Let_def split: if_splits prod.splits)
  moreover have "layouts s2 = (layouts s)(unat num :=
        if saved then Some (diffs [0..<NUM_LOGICAL_KEYS] (logical_to_hid_map s)) else None)"
    using f(3,4) n by (intro ext) (simp add: layouts_def)
  ultimately show ?thesis using d f(1) by blast
qed

theorem config_layouts_refine_map_witness:
  "\<exists>s1 s2. config_save_layout 3 remapped_config = (True, s1) \<and> config_delete_layout 3 s1 = (True, s2)
    \<and> layouts s1 = (layouts remapped_config)(3 := Some [(20, 0x2A)]) \<and> layouts s2 = (layouts s1)(3 := None)"
proof -
  have n: "unat (3 :: u8) < NUM_KEY_MAPPING_INDICES" by (simp add: NUM_KEY_MAPPING_INDICES_def)
  have ok: "layouts_ok (saved_key_mapping_indices remapped_config)"
    by (simp add: remapped_config_fields layouts_ok_none)
  obtain s1 where s1: "config_save_layout 3 remapped_config = (True, s1)"
    using remapped_config_save by (metis prod.collapse)
  obtain d sd where "config_delete_layout 3 remapped_config = (d, sd)" by fastforce
  from config_layouts_refine_map [OF ok n this s1]
  have l1: "layouts_ok (saved_key_mapping_indices s1)" "layouts s1 = (layouts remapped_config)(3 := Some [(20, 0x2A)])"
    by (simp_all add: remapped_config_diffs)
  obtain d2 s2 b s3 where d2: "config_delete_layout 3 s1 = (d2, s2)" "config_save_layout 3 s1 = (b, s3)" by fastforce
  from config_layouts_refine_map [OF l1(1) n d2]
  have "d2 = True" "layouts s2 = (layouts s1)(3 := None)" by (simp_all add: l1(2))
  then show ?thesis using s1 l1(2) d2(1) by blast
qed

text \<open>
  The flag byte: reading the flags back after saving them gives the same flags, the unused field
  cut to its five bits; saving the flags just read changes nothing.
\<close>

theorem config_flags_roundtrip:
  "config_get_flags (config_save_flags f s) = f\<lparr>packing := packing f AND mask 5\<rparr>
   \<and> config_save_flags (config_get_flags s) s = s"
  by (simp add: config_get_flags_def config_save_flags_def flags_of_byte_of_flags byte_of_flags_of_byte)

end
