(* ===== verification/ConfigInit.thy ===== *)
theory ConfigInit
  imports Config MacroDefaults
begin

text \<open>
  What \<open>config_reset_fully\<close> leaves behind: the default mapping, no saved layout, no program, and the
  default macros of the board in the index and in the macro storage, so that the invariants of the
  macro heap and of the saved layouts hold from the first start of the keyboard on.
\<close>

subsection \<open>The default macros in storage\<close>

lemma reset_loop_blocks:
  assumes "storage_faults s = []" "\<forall>p\<in>set infos. fst p \<noteq> NO_KEY \<and> length (snd p) = 3" "i + length infos \<le> 1000"
  shows "\<exists>m. reset_macros_loop (infos @ (NO_KEY, z) # rest) (of_nat i) s
      = (of_nat (i + length infos), s\<lparr>macros_storage := m\<rparr>)
    \<and> (\<forall>j < length infos. mem_read m (2 + 5 * (i + j)) 5 = bytes_of_short 3 @ snd (infos ! j))
    \<and> (\<forall>x < 2 + 5 * i. m x = macros_storage s x)"
  using assms
proof (induction infos arbitrary: i s)
  case Nil
  then show ?case by (intro exI [of _ "macros_storage s"]) simp
next
  case (Cons p infos)
  obtain lk hk where p: "p = (lk, hk)" by (cases p)
  define b where "b = bytes_of_short 3 @ hk"
  have b: "length b = 5" using Cons.prems(2) p by (simp add: b_def)
  let ?m = "mem_write (macros_storage s) (2 + 5 * i) b"
  have ui: "unat (of_nat i :: u16) = i" using Cons.prems(3) by (simp add: unat_of_nat)
  obtain m where m: "reset_macros_loop (infos @ (NO_KEY, z) # rest) (of_nat (Suc i)) (s\<lparr>macros_storage := ?m\<rparr>)
      = (of_nat (Suc i + length infos), s\<lparr>macros_storage := m\<rparr>)"
    "\<forall>j < length infos. mem_read m (2 + 5 * (Suc i + j)) 5 = bytes_of_short 3 @ snd (infos ! j)"
    "\<forall>x < 2 + 5 * Suc i. m x = ?m x"
    using Cons.IH [of "s\<lparr>macros_storage := ?m\<rparr>" "Suc i"] Cons.prems by fastforce
  have "reset_macros_loop ((p # infos) @ (NO_KEY, z) # rest) (of_nat i) s = (of_nat (i + length (p # infos)), s\<lparr>macros_storage := m\<rparr>)"
    using m(1) Cons.prems(1,2) ui
    by (simp add: p macro_storage_write_def next_fault_def MACRO_DATA_HEADER_LEN_def b_def mult.commute add.commute)
  moreover have "mem_read m (2 + 5 * (i + j)) 5 = bytes_of_short 3 @ snd ((p # infos) ! j)" if "j < length (p # infos)" for j
  proof (cases j)
    case 0
    have "mem_read m (2 + 5 * i) 5 = mem_read ?m (2 + 5 * i) 5" by (rule mem_read_cong) (use m(3) in simp)
    then show ?thesis using 0 b by (simp add: p b_def)
  next
    case (Suc k)
    then have "2 + 5 * (i + j) = 2 + 5 * (Suc i + k)" "k < length infos" using that by simp_all
    then show ?thesis using m(2) Suc by (simp only: nth_Cons_Suc)
  qed
  moreover have "m x = macros_storage s x" if "x < 2 + 5 * i" for x
    using m(3) that by (simp add: mem_write_apart)
  ultimately show ?case by blast
qed

lemma macro_def_infos_parts:
  "macro_def_infos = take 48 macro_def_infos @ (NO_KEY, snd (macro_def_infos ! 48)) # []"
  "length (take 48 macro_def_infos) = 48"
  "list_all (\<lambda>p. fst p \<noteq> NO_KEY \<and> length (snd p) = 3) (take 48 macro_def_infos)"
  by (code_simp, code_simp, code_simp)

lemma macros_reset_storage:
  assumes "storage_faults s = []"
  shows "\<exists>m. macros_reset_defaults s = s\<lparr>macros_storage := m\<rparr> \<and> end_of m = 240
    \<and> (\<forall>j < 48. block_len m (5 * j) = 3 \<and> block_events m (5 * j) = snd (macro_def_infos ! j))"
proof -
  note p = macro_def_infos_parts
  obtain m where m: "reset_macros_loop macro_def_infos 0 s = (240 div 5, s\<lparr>macros_storage := m\<rparr>)"
    "\<forall>j < 48. mem_read m (2 + 5 * j) 5 = bytes_of_short 3 @ snd (macro_def_infos ! j)"
    using reset_loop_blocks [OF assms, of "take 48 macro_def_infos" 0 "snd (macro_def_infos ! 48)" "[]"] p
    by (force simp: list_all_iff)
  let ?m = "mem_write m macros_end_offset (bytes_of_short 240)"
  have r: "macros_reset_defaults s = s\<lparr>macros_storage := ?m\<rparr>"
    using m(1) assms
    by (simp add: macros_reset_defaults_def macro_storage_write_def next_fault_def MACRO_DATA_HEADER_LEN_def)
  have e: "end_of ?m = 240" by (simp add: end_of_def mem_read_short_def)
  have "block_len ?m (5 * j) = 3 \<and> block_events ?m (5 * j) = snd (macro_def_infos ! j)" if j: "j < 48" for j
  proof -
    have l: "length (snd (macro_def_infos ! j)) = 3"
    proof -
      have "take 48 macro_def_infos ! j \<in> set (take 48 macro_def_infos)" by (rule nth_mem) (unfold p(2), rule j)
      then show ?thesis using p(3) j by (auto simp: list_all_iff)
    qed
    have "mem_read ?m (2 + 5 * j) 5 = bytes_of_short 3 @ snd (macro_def_infos ! j)"
      using m(2) j by (subst mem_read_write_apart) (auto simp: macros_end_offset_def)
    then have "mem_read ?m (2 + 5 * j) 2 @ mem_read ?m (4 + 5 * j) 3 = bytes_of_short 3 @ snd (macro_def_infos ! j)"
      using mem_read_append [of ?m "2 + 5 * j" 2 3] by (simp del: add_2_eq_Suc add_2_eq_Suc')
    then have "mem_read ?m (2 + 5 * j) 2 = bytes_of_short 3" "mem_read ?m (4 + 5 * j) 3 = snd (macro_def_infos ! j)"
      by (simp_all add: append_eq_append_conv del: add_2_eq_Suc add_2_eq_Suc')
    then show ?thesis by (simp add: block_len_def block_events_def mem_read_short_def)
  qed
  then show ?thesis using r e by blast
qed

subsection \<open>The reset as a whole\<close>

lemma default_entries_offsets:
  "list_all (\<lambda>(k, v). unat v = 5 * (unat v div 5) \<and> unat v div 5 < 48 \<and> fst (macro_def_infos ! (unat v div 5)) = k) default_entries"
  by code_simp

lemma macro_idx_reset_entries:
  assumes "idx_map (macro_index (macro_idx_reset_defaults s)) key = Some v"
  shows "\<exists>j < 48. unat v = 5 * j \<and> key = single_key (fst (macro_def_infos ! j))"
proof -
  have "map_of (map (\<lambda>e. (idx_keys e, idx_val e)) (map (\<lambda>(k, v). \<lparr>idx_keys = single_key k, idx_val = v\<rparr>) default_entries)) key = Some v"
    using assms
    by (simp add: macro_idx_reset_defaults_def idx_reset_table idx_map_parts [OF idx_reset_parts])
  then obtain k where "(k, v) \<in> set default_entries" "key = single_key k"
    by (auto dest!: map_of_SomeD)
  then show ?thesis using default_entries_offsets by (force simp: list_all_iff)
qed

lemma buzzer_start_f_macros [simp]:
  "macros_storage (buzzer_start_f f t s) = macros_storage s"
  "storage_faults (buzzer_start_f f t s) = storage_faults s"
  by (simp_all add: buzzer_defs Let_def)

lemma buzzer_start_f_index [simp]: "macro_index (buzzer_start_f f t s) = macro_index s"
  by (simp add: buzzer_defs Let_def)

lemma config_reset_defaults_macros [simp]:
  "macro_index (config_reset_defaults s) = macro_index s"
  "macros_storage (config_reset_defaults s) = macros_storage s"
  by (simp_all add: config_reset_defaults_def Let_def)

definition reset_index :: "macro_idx_entry list" where
  "reset_index = idx_reset_loop MACRO_INDEX_COUNT 0 empty_entry"

lemma config_reset_fully_fields:
  assumes "storage_faults s = []"
  defines "s1 \<equiv> config_reset_fully s"
  shows "eeprom_sentinel_byte s1 = EEPROM_SENTINEL" "eeprom_flags s1 = 0" "debounce_len s1 = 3"
    "mouse_div s1 = 25" "wheel_div s1 = 4"
    "saved_key_mapping_indices s1 = replicate NUM_KEY_MAPPING_INDICES (NO_KEY, NO_KEY)"
    "programs s1 = mem_set (programs s) 0 NO_KEY (PROGRAM_COUNT * 4)"
    "unat l < NUM_LOGICAL_KEYS \<Longrightarrow> logical_to_hid_map s1 l = logical_to_hid_map_default ! unat l"
    "macro_index s1 = reset_index"
    and "end_of (macros_storage s1) = 240"
    and "j < 48 \<Longrightarrow> block_len (macros_storage s1) (5 * j) = 3"
    and "j < 48 \<Longrightarrow> block_events (macros_storage s1) (5 * j) = snd (macro_def_infos ! j)"
proof -
  define t where "t = macro_idx_reset_defaults (config_reset_program_defaults
    ((buzzer_start_f 2000 120 s)\<lparr>eeprom_flags := 0, debounce_len := 3, mouse_div := 25, wheel_div := 4,
      saved_key_mapping_indices := replicate NUM_KEY_MAPPING_INDICES (NO_KEY, NO_KEY)\<rparr>))"
  have tf: "storage_faults t = []"
    using assms(1) by (simp add: t_def macro_idx_reset_defaults_def config_reset_program_defaults_def)
  obtain m where m: "macros_reset_defaults t = t\<lparr>macros_storage := m\<rparr>" "end_of m = 240"
    "\<forall>j < 48. block_len m (5 * j) = 3 \<and> block_events m (5 * j) = snd (macro_def_infos ! j)"
    using macros_reset_storage [OF tf] by blast
  have s1: "s1 = buzzer_start_f 200 60 ((config_reset_defaults (t\<lparr>macros_storage := m\<rparr>))\<lparr>eeprom_sentinel_byte := EEPROM_SENTINEL\<rparr>)"
    by (simp add: s1_def config_reset_fully_def Let_def t_def [symmetric] m(1))
  note t = t_def macro_idx_reset_defaults_def config_reset_program_defaults_def
  show "eeprom_sentinel_byte s1 = EEPROM_SENTINEL" by (simp add: s1)
  show "eeprom_flags s1 = 0" "debounce_len s1 = 3" "mouse_div s1 = 25" "wheel_div s1 = 4"
    "saved_key_mapping_indices s1 = replicate NUM_KEY_MAPPING_INDICES (NO_KEY, NO_KEY)"
    "programs s1 = mem_set (programs s) 0 NO_KEY (PROGRAM_COUNT * 4)" "macro_index s1 = reset_index"
    by (simp_all add: s1 t reset_index_def)
  show "logical_to_hid_map s1 l = logical_to_hid_map_default ! unat l" if "unat l < NUM_LOGICAL_KEYS"
    using that by (simp add: s1)
  show "end_of (macros_storage s1) = 240" using m(2) by (simp add: s1)
  show "block_len (macros_storage s1) (5 * j) = 3" "block_events (macros_storage s1) (5 * j) = snd (macro_def_infos ! j)"
    if "j < 48" using m(3) that by (simp_all add: s1)
qed

lemma config_reset_fully_heap:
  assumes "storage_faults s = []"
  shows "heap_ok {} (config_reset_fully s)"
    and "j < 48 \<Longrightarrow> macro_store (config_reset_fully s) (single_key (fst (macro_def_infos ! j)))
      = Some (Events (snd (macro_def_infos ! j)))"
    and "macro_store (config_reset_fully s) key \<noteq> None \<Longrightarrow> \<exists>j < 48. key = single_key (fst (macro_def_infos ! j))"
proof -
  define s1 where "s1 = config_reset_fully s"
  note f = config_reset_fully_fields [OF assms, folded s1_def]
  have ri: "macro_index (macro_idx_reset_defaults macro_index_reset) = reset_index"
    by (simp add: macro_idx_reset_defaults_def reset_index_def)
  note e = macro_idx_reset_entries [where s = macro_index_reset, unfolded ri]
  note r = macro_idx_reset_map [where s = macro_index_reset, unfolded ri]
  have "unat v + 2 + block_len (macros_storage s1) (unat v) \<le> 240" if "idx_map reset_index k = Some v" for k v
    using e [OF that] f(11) by auto
  moreover have "unat v + 2 + block_len (macros_storage s1) (unat v) \<le> unat v'
      \<or> unat v' + 2 + block_len (macros_storage s1) (unat v') \<le> unat v"
    if kv: "k \<noteq> k'" "idx_map reset_index k = Some v" "idx_map reset_index k' = Some v'" for k k' v v'
  proof -
    obtain i i' where i: "i < 48" "unat v = 5 * i" "k = single_key (fst (macro_def_infos ! i))"
      "i' < 48" "unat v' = 5 * i'" "k' = single_key (fst (macro_def_infos ! i'))"
      using e [OF kv(2)] e [OF kv(3)] by blast
    then have "i \<noteq> i'" using kv(1) by auto
    then show ?thesis using i f(11) by auto
  qed
  ultimately show "heap_ok {} s1"
    using r(1) f(9,10) by (simp add: heap_ok_def Let_def)
  show "macro_store s1 (single_key (fst (macro_def_infos ! j))) = Some (Events (snd (macro_def_infos ! j)))" if "j < 48"
  proof -
    have "unat (of_nat (5 * j) :: u16) = 5 * j" using that unfolding unat_of_nat by simp
    then show ?thesis
      using r(2) [OF that] f(12) [OF that] that f(9)
      by (simp add: macro_store_def trigger_of_def is_macro_iff del: of_nat_mult)
  qed
  show "\<exists>j < 48. key = single_key (fst (macro_def_infos ! j))" if "macro_store s1 key \<noteq> None"
    using that e f(9) by (fastforce simp: macro_store_def)
qed

text \<open>
  C21: the first start. When the EEPROM has no sentinel, \<open>config_init\<close> leaves a keyboard in which every
  invariant holds: the mapping is the default layout, no layout is saved, the flags are off and the
  settings have their defaults, no program is found, and the macros are exactly those of
  \<open>macro_def_infos\<close>. The sentinel is written last, so the next \<open>config_init\<close> changes nothing.
\<close>

theorem config_init_first_start:
  assumes "storage_faults s = []" and "eeprom_sentinel_byte s \<noteq> EEPROM_SENTINEL"
  defines "s1 \<equiv> config_init s"
  shows "config_init s1 = s1
    \<and> (\<forall>l. unat l < NUM_LOGICAL_KEYS \<longrightarrow> config_get_definition l s1 = config_get_default_definition l)
    \<and> layouts_ok (saved_key_mapping_indices s1) \<and> layouts s1 = Map.empty
    \<and> config_get_flags s1 = \<lparr>key_sound_enabled = False, macros_enabled = False, programs_enabled = False, packing = 0\<rparr>
    \<and> config_get_debounce_len s1 = 3 \<and> config_get_mouse_div s1 = 25 \<and> config_get_wheel_div s1 = 4
    \<and> (\<forall>i. unat i < PROGRAM_COUNT \<longrightarrow> config_get_program i s1 = None)
    \<and> heap_ok {} s1
    \<and> (\<forall>k. macro_store s1 k =
        map_option Events (map_of (map (\<lambda>(l, h). (single_key l, h)) (take 48 macro_def_infos)) k))"
proof -
  have s1: "s1 = config_reset_fully s" using assms(2) by (simp add: s1_def config_init_def)
  note f = config_reset_fully_fields [OF assms(1), folded s1]
  note h = config_reset_fully_heap [OF assms(1), folded s1]
  have "config_init s1 = s1" using f(1) by (simp add: config_init_def)
  moreover have "\<forall>l. unat l < NUM_LOGICAL_KEYS \<longrightarrow> config_get_definition l s1 = config_get_default_definition l"
    using f(8) by (simp add: config_get_definition_def config_get_default_definition_def)
  moreover have "layouts_ok (saved_key_mapping_indices s1)" "layouts s1 = Map.empty"
    using layouts_ok_none by (auto simp: f(6) layouts_def layout_def)
  moreover have "config_get_flags s1 = \<lparr>key_sound_enabled = False, macros_enabled = False, programs_enabled = False, packing = 0\<rparr>"
    by (simp add: config_get_flags_def flags_of_byte_def f(2))
  moreover have "config_get_program i s1 = None" if "unat i < PROGRAM_COUNT" for i
  proof -
    have "programs s1 x = 0xFF" if "x < PROGRAM_COUNT * 4" for x
      using that by (simp add: f(7) mem_set_def mem_write_def NO_KEY_def)
    then have "programs s1 (unat i * 4) = 0xFF" "programs s1 (unat i * 4 + 1) = 0xFF" using that by auto
    then have "mem_read_short (programs s1) (unat i * 4) = 0xFFFF"
      by (simp add: mem_read_short_def mem_read_def upt_rec short_of_bytes_def)
    then show ?thesis by (simp add: config_get_program_def)
  qed
  moreover have "macro_store s1 k =
      map_option Events (map_of (map (\<lambda>(l, h). (single_key l, h)) (take 48 macro_def_infos)) k)" for k
  proof -
    have nth: "j < 48 \<Longrightarrow> macro_def_infos ! j \<in> set (take 48 macro_def_infos)" for j
      using macro_def_infos_parts(2) nth_mem [of j "take 48 macro_def_infos"] by simp
    show ?thesis
    proof (cases "map_of (map (\<lambda>(l, h). (single_key l, h)) (take 48 macro_def_infos)) k")
      case None
      then have "k \<noteq> single_key (fst p)" if "p \<in> set (take 48 macro_def_infos)" for p
        using that by (auto simp: map_of_eq_None_iff image_iff case_prod_beta)
      then have "k \<noteq> single_key (fst (macro_def_infos ! j))" if "j < 48" for j
        using nth that by blast
      then have "macro_store s1 k = None" using h(3) [of k] by blast
      then show ?thesis using None by simp
    next
      case (Some hk)
      then obtain l where l: "(l, hk) \<in> set (take 48 macro_def_infos)" "k = single_key l"
        by (auto dest!: map_of_SomeD)
      then obtain j where "j < 48" "macro_def_infos ! j = (l, hk)" by (auto simp: in_set_conv_nth)
      then show ?thesis using h(2) [of j] l(2) Some by simp
    qed
  qed
  ultimately show ?thesis using f(3-5) h(1)
    by (simp add: config_get_debounce_len_def config_get_mouse_div_def config_get_wheel_div_def)
qed

theorem config_init_first_start_witness:
  "eeprom_sentinel_byte (remapped_config\<lparr>eeprom_sentinel_byte := 0xFF\<rparr>) \<noteq> EEPROM_SENTINEL
   \<and> (let s1 = config_init (remapped_config\<lparr>eeprom_sentinel_byte := 0xFF\<rparr>) in
        config_get_definition 20 s1 = config_get_default_definition 20 \<and> heap_ok {} s1
        \<and> macro_store s1 [216, NO_KEY, NO_KEY, NO_KEY] = Some (Events (snd (macro_def_infos ! 0))))"
proof -
  let ?s = "remapped_config\<lparr>eeprom_sentinel_byte := 0xFF\<rparr>"
  have a: "storage_faults ?s = []" "eeprom_sentinel_byte ?s \<noteq> EEPROM_SENTINEL"
    by (simp_all add: remapped_config_def macro_state.defs config_state.defs macro_reset_def macro_index_state.defs
        EEPROM_SENTINEL_def)
  have "map_of (map (\<lambda>(l, h). (single_key l, h)) (take 48 macro_def_infos)) [216, NO_KEY, NO_KEY, NO_KEY]
      = Some (snd (macro_def_infos ! 0))" by code_simp
  then show ?thesis
    using config_init_first_start [OF a] a(2) by (simp add: Let_def NUM_LOGICAL_KEYS_def KEYPAD_LAYER_SIZE_def)
qed

end
