(* ===== verification/Keystate.thy ===== *)
theory Keystate
  imports Config
begin

text \<open>
  \<open>keystate.c\<close>: from the electrical state of the key matrix to key events and reports. One call of
  \<open>keystate_update\<close> scans the matrix into a ring of bitfields, debounces it, keeps the pressed keys in
  fourteen slots, follows the layer keys and notifies the change hook of logical keys that went down
  or up. The matrix is an input of the update: \<open>matrix row col\<close> is what \<open>matrix_read_column\<close> returns
  after \<open>matrix_select_row\<close>. The hook is a function of the keyboard state that runs when
  \<open>keystate_change_hook_fn\<close> is set.
\<close>

subsection \<open>State\<close>

definition MAX_DEBOUNCE_LEN :: nat where "MAX_DEBOUNCE_LEN = 8"
definition KEYSTATE_COUNT :: nat where "KEYSTATE_COUNT = 14"
definition BITFIELD_WORD_BITS :: nat where "BITFIELD_WORD_BITS = 8"
definition BITFIELD_WORDS :: nat where
  "BITFIELD_WORDS = (KEYPAD_LAYER_SIZE + BITFIELD_WORD_BITS - 1) div BITFIELD_WORD_BITS"
definition HID_KEYBOARD_SC_ERROR_ROLLOVER :: u8 where "HID_KEYBOARD_SC_ERROR_ROLLOVER = 1"

record key_state =
  p_key :: logical_keycode
  prev_state :: bool
  state :: bool
  hidden :: bool

definition empty_key_state :: key_state where
  "empty_key_state = \<lparr>p_key = NO_KEY, prev_state = False, state = False, hidden = False\<rparr>"

datatype keycode_type = PHYSICAL | LOGICAL | HID

record layer_t =
  base :: bool
  lock :: bool
  lid :: u8

record MouseReport_Data =
  Button :: u8
  X :: u8
  Y :: u8
  VWheel :: u8
  HWheel :: u8

record keystate_state = config_state +
  key_states :: "key_state list"
  keystate_change_hook_fn :: bool
  key_press_count :: u8
  key_press_counter :: u16
  prev_layer :: layer_t
  layer :: layer_t
  active_debounce_index :: nat
  debounce_bitfields :: "u8 list list"
  debounced_on_bitfield :: "u8 list"
  debounced_bitfield :: "u8 list"
  prev_button :: u8
  cnt_move :: u8
  speed_x_move :: u8
  speed_y_move :: u8
  cnt_wheel :: u8
  speed_x_wheel :: u8
  speed_y_wheel :: u8

text \<open>What the change hook does: the logical key, whether it went down, and the state.\<close>

type_synonym 'a change_hook = "logical_keycode \<Rightarrow> bool \<Rightarrow> 'a keystate_state_scheme \<Rightarrow> 'a keystate_state_scheme"

subsection \<open>Bitfields\<close>

definition set_bit :: "u8 list \<Rightarrow> nat \<Rightarrow> u8 list" where
  "set_bit ws n = ws[n div BITFIELD_WORD_BITS := ws ! (n div BITFIELD_WORD_BITS) OR push_bit (n mod BITFIELD_WORD_BITS) 1]"

definition get_bit :: "u8 list \<Rightarrow> nat \<Rightarrow> bool" where
  "get_bit ws n \<longleftrightarrow> ws ! (n div BITFIELD_WORD_BITS) AND push_bit (n mod BITFIELD_WORD_BITS) 1 \<noteq> 0"

subsection \<open>Keys and layers\<close>

definition keystate_init :: "'a keystate_state_scheme \<Rightarrow> 'a keystate_state_scheme" where
  "keystate_init s = s\<lparr>key_states := replicate KEYSTATE_COUNT empty_key_state\<rparr>"

definition layer_id_of :: "layer_t \<Rightarrow> u8" where
  "layer_id_of l = (if base l then 0xFF else lid l)"

definition keystate_get_layer_id :: "'a keystate_state_scheme \<Rightarrow> u8" where
  "keystate_get_layer_id s = layer_id_of (layer s)"

definition keystate_get_prev_layer_id :: "'a keystate_state_scheme \<Rightarrow> u8" where
  "keystate_get_prev_layer_id s = layer_id_of (prev_layer s)"

definition default_beep :: "'a buzzer_state_scheme \<Rightarrow> 'a buzzer_state_scheme" where
  "default_beep s =
     (let periodCnt = 2 :: u16
      in buzzer_start ((periodCnt * 1000 + (ucast BUZZER_DEFAULT_TONE div 2 + 1)) div ucast BUZZER_DEFAULT_TONE) s)"

definition extract_keycode :: "layer_t \<Rightarrow> key_state \<Rightarrow> keycode_type \<Rightarrow> 'a config_state_scheme \<Rightarrow> u8" where
  "extract_keycode ll kk ktype s =
     (if ktype = PHYSICAL then p_key kk
      else let layer_id = (if base ll then 0 else lid ll);
               l_key = p_key kk + layer_id * of_nat KEYPAD_LAYER_SIZE
           in if ktype = LOGICAL then l_key else config_get_definition l_key s)"

subsection \<open>Notification\<close>

definition run_hook :: "'a change_hook \<Rightarrow> 'a change_hook" where
  "run_hook hook key press s = (if keystate_change_hook_fn s then hook key press s else s)"

definition notify_key_pressed ::
    "'a change_hook \<Rightarrow> layer_t \<Rightarrow> key_state \<Rightarrow> 'a keystate_state_scheme \<Rightarrow> 'a keystate_state_scheme" where
  "notify_key_pressed hook ll kk s =
     (let s = s\<lparr>key_press_count := key_press_count s + 1\<rparr>;
          s = run_hook hook (extract_keycode ll kk LOGICAL s) True s
      in if key_sound_enabled (config_get_flags s) then default_beep s else s)"

definition notify_key_released ::
    "'a change_hook \<Rightarrow> layer_t \<Rightarrow> key_state \<Rightarrow> 'a keystate_state_scheme \<Rightarrow> 'a keystate_state_scheme" where
  "notify_key_released hook ll kk s =
     (let s = s\<lparr>key_press_count := key_press_count s - 1\<rparr>
      in run_hook hook (extract_keycode ll kk LOGICAL s) False s)"

definition notify_about_key_change ::
    "'a change_hook \<Rightarrow> bool \<Rightarrow> key_state \<Rightarrow> 'a keystate_state_scheme \<Rightarrow> 'a keystate_state_scheme" where
  "notify_about_key_change hook layer_change key s =
     (if layer_change then
        if prev_state key \<and> state key then
          let s = notify_key_released hook (prev_layer s) key s in notify_key_pressed hook (layer s) key s
        else if state key then notify_key_pressed hook (layer s) key s
        else if prev_state key then notify_key_released hook (prev_layer s) key s
        else s
      else if state key then notify_key_pressed hook (layer s) key s
      else notify_key_released hook (layer s) key s)"

definition is_hid_key_to_notify_about :: "hid_keycode \<Rightarrow> bool" where
  "is_hid_key_to_notify_about k \<longleftrightarrow> k < SPECIAL_HID_KEY_LAYER_LOCK \<or> k \<ge> SPECIAL_HID_KEY_MACRO_SHIFT"

definition layer_step :: "hid_keycode \<Rightarrow> bool \<Rightarrow> layer_t \<Rightarrow> layer_t" where
  "layer_step key st l =
     (if key = SPECIAL_HID_KEY_LAYER_LOCK then
        if st then
          if lock l then l\<lparr>lock := False, lid := 0\<rparr>
          else if lid l = 0 then l\<lparr>lock := True, lid := 1\<rparr>
          else l\<lparr>lock := True\<rparr>
        else l
      else if key = SPECIAL_HID_KEY_KEYPAD_SHIFT then
        if st then l\<lparr>lid := 1\<rparr> else if \<not> lock l then l\<lparr>lid := 0\<rparr> else l
      else if key = SPECIAL_HID_KEY_FUNCTION_SHIFT then
        if st then l\<lparr>lid := 2\<rparr> else if \<not> lock l then l\<lparr>lid := 0\<rparr> else l
      else if key = SPECIAL_HID_KEY_MACRO_SHIFT \<or> key = SPECIAL_HID_KEY_PROGRAM then l\<lparr>base := st\<rparr>
      else l)"

definition update_layer :: "hid_keycode \<Rightarrow> bool \<Rightarrow> 'a keystate_state_scheme \<Rightarrow> 'a keystate_state_scheme" where
  "update_layer key st s =
     (let s = s\<lparr>layer := layer_step key st (layer s)\<rparr>;
          cur_layer = keystate_get_layer_id s
      in if cur_layer = keystate_get_prev_layer_id s then s
         else if SPECIAL_HID_KEY_LAYER_LOCK = key
         then buzzer_start_f 100 (if cur_layer \<noteq> 0 then BUZZER_ON_TONE else BUZZER_OFF_TONE) s
         else default_beep s)"

subsection \<open>The update\<close>

text \<open>The scan of the matrix into a cleared bitfield.\<close>

definition scan_position :: "(nat \<Rightarrow> nat \<Rightarrow> bool) \<Rightarrow> nat \<Rightarrow> nat \<Rightarrow> u8 list \<Rightarrow> u8 list" where
  "scan_position matrix row col ws =
     (let p = matrix_to_logical_map ! row ! col
      in if p \<noteq> NO_KEY then if matrix row col then set_bit ws (unat p) else ws else ws)"

definition scan_matrix :: "(nat \<Rightarrow> nat \<Rightarrow> bool) \<Rightarrow> u8 list" where
  "scan_matrix matrix =
     fold (\<lambda>row. fold (scan_position matrix row) [0..<MATRIX_COLS]) [0..<MATRIX_ROWS] (replicate BITFIELD_WORDS 0)"

text \<open>Word \<open>w\<close> of the ring: what was active in all and in any of the last \<open>n\<close> scans.\<close>

definition all_time_active :: "u8 list list \<Rightarrow> nat \<Rightarrow> nat \<Rightarrow> u8" where
  "all_time_active ring n w = fold (\<lambda>i a. a AND ring ! i ! w) [0..<n] (NOT 0)"

definition any_time_active :: "u8 list list \<Rightarrow> nat \<Rightarrow> nat \<Rightarrow> u8" where
  "any_time_active ring n w = fold (\<lambda>i a. a OR ring ! i ! w) [0..<n] 0"

definition debounce_matrix :: "(nat \<Rightarrow> nat \<Rightarrow> bool) \<Rightarrow> 'a keystate_state_scheme \<Rightarrow> 'a keystate_state_scheme" where
  "debounce_matrix matrix s =
     (let len = unat (config_get_debounce_len s);
          s = s\<lparr>active_debounce_index := (active_debounce_index s + 1) mod len\<rparr>;
          s = s\<lparr>debounce_bitfields := (debounce_bitfields s)[active_debounce_index s := scan_matrix matrix]\<rparr>;
          ring = debounce_bitfields s; old = debounced_bitfield s
      in s\<lparr>debounced_on_bitfield := map (\<lambda>w. NOT (old ! w) AND all_time_active ring len w) [0..<BITFIELD_WORDS],
           debounced_bitfield := map (\<lambda>w. (old ! w OR all_time_active ring len w) AND any_time_active ring len w)
                                     [0..<BITFIELD_WORDS]\<rparr>)"

definition mark_released :: "u8 list \<Rightarrow> key_state list \<Rightarrow> key_state list" where
  "mark_released debounced = map (\<lambda>key. if p_key key = NO_KEY then key
     else if \<not> get_bit debounced (unat (p_key key)) then key\<lparr>state := False\<rparr> else key)"

function next_free :: "key_state list \<Rightarrow> nat \<Rightarrow> nat" where
  "next_free slots free_slot =
     (if free_slot < KEYSTATE_COUNT \<and> p_key (slots ! free_slot) \<noteq> NO_KEY
      then next_free slots (free_slot + 1) else free_slot)"
  by pat_completeness auto
termination
  by (relation "measure (\<lambda>(slots, free_slot). KEYSTATE_COUNT - free_slot)") auto

declare next_free.simps [simp del]

text \<open>
  The new key presses, in the order of their bits; \<open>goto no_free_slot_to_record_a_new_key\<close> ends the
  loop with the press counted.
\<close>

fun add_pressed :: "nat list \<Rightarrow> u8 list \<Rightarrow> nat \<Rightarrow> key_state list \<Rightarrow> u16 \<Rightarrow> key_state list \<times> u16" where
  "add_pressed [] on free_slot slots counter = (slots, counter)"
| "add_pressed (k # ks) on free_slot slots counter =
     (if \<not> get_bit on k then add_pressed ks on free_slot slots counter
      else let counter = counter + 1; free_slot = next_free slots free_slot
           in if free_slot \<ge> KEYSTATE_COUNT then (slots, counter)
              else add_pressed ks on free_slot
                     (slots[free_slot := (slots ! free_slot)\<lparr>p_key := of_nat k, state := True\<rparr>]) counter)"

definition record_presses :: "'a keystate_state_scheme \<Rightarrow> 'a keystate_state_scheme" where
  "record_presses s =
     (let slots = mark_released (debounced_bitfield s) (key_states s);
          (slots, counter) = add_pressed [0..<BITFIELD_WORDS * BITFIELD_WORD_BITS] (debounced_on_bitfield s) 0
                               slots (key_press_counter s)
      in s\<lparr>key_states := slots, key_press_counter := counter\<rparr>)"

definition layer_slot :: "nat \<Rightarrow> 'a keystate_state_scheme \<Rightarrow> 'a keystate_state_scheme" where
  "layer_slot j s =
     (let key = key_states s ! j in
      if p_key key = NO_KEY then s
      else let h_key = config_get_definition (p_key key) s
           in if SPECIAL_HID_KEY_NOREMAP h_key \<and> state key \<noteq> prev_state key
              then update_layer h_key (state key) s else s)"

definition notify_slot :: "'a change_hook \<Rightarrow> bool \<Rightarrow> nat \<Rightarrow> 'a keystate_state_scheme \<Rightarrow> 'a keystate_state_scheme" where
  "notify_slot hook layer_change j s =
     (let key = key_states s ! j in
      if p_key key = NO_KEY then s
      else if \<not> layer_change \<and> prev_state key = state key then s
      else let h_key = config_get_definition (p_key key) s;
               s = (if is_hid_key_to_notify_about h_key then notify_about_key_change hook layer_change key s else s);
               key = key_states s ! j
           in s\<lparr>key_states := (key_states s)[j :=
                  if prev_state key \<and> \<not> state key then empty_key_state else key\<lparr>prev_state := state key\<rparr>]\<rparr>)"

definition keystate_update ::
    "'a change_hook \<Rightarrow> (nat \<Rightarrow> nat \<Rightarrow> bool) \<Rightarrow> 'a keystate_state_scheme \<Rightarrow> 'a keystate_state_scheme" where
  "keystate_update hook matrix s =
     (let s = debounce_matrix matrix s;
          s = record_presses s;
          s = fold layer_slot [0..<KEYSTATE_COUNT] s;
          layer_change = keystate_get_layer_id s \<noteq> keystate_get_prev_layer_id s;
          s = fold (notify_slot hook layer_change) [0..<KEYSTATE_COUNT] s
      in s\<lparr>prev_layer := layer s\<rparr>)"

subsection \<open>Queries\<close>

fun hide_slot :: "logical_keycode \<Rightarrow> key_state list \<Rightarrow> key_state list" where
  "hide_slot pk [] = []"
| "hide_slot pk (k # ks) = (if pk = p_key k then k\<lparr>hidden := True\<rparr> # ks else k # hide_slot pk ks)"

definition keystate_hide_key :: "logical_keycode \<Rightarrow> 'a keystate_state_scheme \<Rightarrow> 'a keystate_state_scheme" where
  "keystate_hide_key l_key s = s\<lparr>key_states := hide_slot (l_key mod of_nat KEYPAD_LAYER_SIZE) (key_states s)\<rparr>"

definition keystate_is_key_hidden :: "logical_keycode \<Rightarrow> 'a keystate_state_scheme \<Rightarrow> bool" where
  "keystate_is_key_hidden l_key s =
     (case find (\<lambda>k. l_key mod of_nat KEYPAD_LAYER_SIZE = p_key k) (key_states s) of
        Some k \<Rightarrow> hidden k | None \<Rightarrow> True)"

definition keystate_check_key :: "u8 \<Rightarrow> keycode_type \<Rightarrow> 'a keystate_state_scheme \<Rightarrow> bool" where
  "keystate_check_key target_key ktype s =
     (case find (\<lambda>k. extract_keycode (layer s) k ktype s = target_key) (key_states s) of
        Some k \<Rightarrow> state k | None \<Rightarrow> False)"

text \<open>The variable arguments are a list; \<open>count\<close> is its length.\<close>

definition keystate_check_keys :: "u8 list \<Rightarrow> keycode_type \<Rightarrow> 'a keystate_state_scheme \<Rightarrow> bool" where
  "keystate_check_keys keys ktype s =
     (if length keys > unat (key_press_count s) then False
      else list_all (\<lambda>k. keystate_check_key k ktype s) keys)"

definition keystate_check_any_key :: "u8 list \<Rightarrow> keycode_type \<Rightarrow> 'a keystate_state_scheme \<Rightarrow> bool" where
  "keystate_check_any_key keys ktype s =
     (if key_press_count s = 0 then False else list_ex (\<lambda>k. keystate_check_key k ktype s) keys)"

text \<open>The keys written to the buffer, in the order of the slots, at most \<open>key_press_count\<close>.\<close>

definition keystate_get_keys :: "keycode_type \<Rightarrow> 'a keystate_state_scheme \<Rightarrow> u8 list" where
  "keystate_get_keys ktype s =
     take (unat (key_press_count s)) (map (\<lambda>k. extract_keycode (layer s) k ktype s)
       (filter (\<lambda>k. state k \<and> is_hid_key_to_notify_about (extract_keycode (layer s) k HID s)) (key_states s)))"

definition keystate_check_hid_key :: "hid_keycode \<Rightarrow> 'a keystate_state_scheme \<Rightarrow> hid_keycode" where
  "keystate_check_hid_key key s =
     (case find (\<lambda>k. state k \<and> (key = 0 \<or> key = extract_keycode (layer s) k HID s)) (key_states s) of
        Some k \<Rightarrow> extract_keycode (layer s) k HID s | None \<Rightarrow> 0xFF)"

definition keystate_register_change_hook :: "bool \<Rightarrow> 'a keystate_state_scheme \<Rightarrow> 'a keystate_state_scheme" where
  "keystate_register_change_hook hook s = s\<lparr>keystate_change_hook_fn := hook\<rparr>"

subsection \<open>Reports\<close>

text \<open>
  The loop of \<open>keystate_Fill_KeyboardReport\<close> over the slots: the report, the number of key codes
  used, and whether to report a rollover.
\<close>

fun fill_slots ::
    "(key_state \<Rightarrow> hid_keycode) \<Rightarrow> key_state list \<Rightarrow> KeyboardReport_Data \<Rightarrow> nat \<Rightarrow> bool \<Rightarrow> KeyboardReport_Data \<times> bool" where
  "fill_slots hid [] report UsedKeyCodes rollover = (report, rollover)"
| "fill_slots hid (k # ks) report UsedKeyCodes rollover =
     (if state k \<and> \<not> hidden k then
        if UsedKeyCodes = KEYBOARDREPORT_KEY_COUNT then (report, True)
        else let h_key = hid k; rollover = (rollover \<or> h_key = SPECIAL_HID_KEY_PROGRAM) in
          if h_key \<ge> SPECIAL_HID_KEYS_START then fill_slots hid ks report UsedKeyCodes rollover
          else if h_key \<ge> HID_KEYBOARD_SC_LEFT_CONTROL
          then fill_slots hid ks (report\<lparr>Modifier := Modifier report OR modifier_bit h_key\<rparr>) UsedKeyCodes rollover
          else fill_slots hid ks (report\<lparr>KeyCode := (KeyCode report)[UsedKeyCodes := h_key]\<rparr>) (UsedKeyCodes + 1) rollover
      else fill_slots hid ks report UsedKeyCodes rollover)"

definition keystate_Fill_KeyboardReport :: "'a keystate_state_scheme \<Rightarrow> KeyboardReport_Data \<Rightarrow> KeyboardReport_Data" where
  "keystate_Fill_KeyboardReport s report =
     (let (report, rollover) = fill_slots (\<lambda>k. extract_keycode (layer s) k HID s) (key_states s) report 0 False
      in if rollover then report\<lparr>KeyCode := replicate KEYBOARDREPORT_KEY_COUNT HID_KEYBOARD_SC_ERROR_ROLLOVER\<rparr>
         else report)"

text \<open>\<open>adjust_speed_and_report\<close>: the new speed and the value to report; eight-bit signed values wrap.\<close>

definition adjust_speed_and_report :: "bool \<Rightarrow> u8 \<Rightarrow> u8 \<Rightarrow> u8 \<times> u8" where
  "adjust_speed_and_report moving speed reportVal =
     (if moving then (speed + reportVal, speed + reportVal) else (0, reportVal))"

record mouse_flags =
  moving_x :: bool
  moving_y :: bool
  wheeling_x :: bool
  wheeling_y :: bool

text \<open>The switch over the mouse keys.\<close>

definition mouse_key :: "hid_keycode \<Rightarrow> MouseReport_Data \<times> mouse_flags \<Rightarrow> MouseReport_Data \<times> mouse_flags" where
  "mouse_key h_key = (\<lambda>(r, f).
     if h_key = SPECIAL_HID_KEY_MOUSE_BTN1 then (r\<lparr>Button := Button r OR 1\<rparr>, f)
     else if h_key = SPECIAL_HID_KEY_MOUSE_BTN1 + 1 then (r\<lparr>Button := Button r OR 2\<rparr>, f)
     else if h_key = SPECIAL_HID_KEY_MOUSE_BTN1 + 2 then (r\<lparr>Button := Button r OR 4\<rparr>, f)
     else if h_key = SPECIAL_HID_KEY_MOUSE_BTN1 + 3 then (r\<lparr>Button := Button r OR 8\<rparr>, f)
     else if h_key = SPECIAL_HID_KEY_MOUSE_BTN5 then (r\<lparr>Button := Button r OR 16\<rparr>, f)
     else if h_key = SPECIAL_HID_KEY_MOUSE_FWD then (r\<lparr>Y := Y r - 1\<rparr>, f\<lparr>moving_y := True\<rparr>)
     else if h_key = SPECIAL_HID_KEY_MOUSE_BACK then (r\<lparr>Y := Y r + 1\<rparr>, f\<lparr>moving_y := True\<rparr>)
     else if h_key = SPECIAL_HID_KEY_MOUSE_LEFT then (r\<lparr>X := X r - 1\<rparr>, f\<lparr>moving_x := True\<rparr>)
     else if h_key = SPECIAL_HID_KEY_MOUSE_RIGHT then (r\<lparr>X := X r + 1\<rparr>, f\<lparr>moving_x := True\<rparr>)
     else if h_key = SPECIAL_HID_KEY_WHEEL_FWD then (r\<lparr>VWheel := VWheel r + 1\<rparr>, f\<lparr>wheeling_y := True\<rparr>)
     else if h_key = SPECIAL_HID_KEY_WHEEL_BACK then (r\<lparr>VWheel := VWheel r - 1\<rparr>, f\<lparr>wheeling_y := True\<rparr>)
     else if h_key = SPECIAL_HID_KEY_WHEEL_LEFT then (r\<lparr>HWheel := HWheel r - 1\<rparr>, f\<lparr>wheeling_x := True\<rparr>)
     else if h_key = SPECIAL_HID_KEY_WHEEL_RIGHT then (r\<lparr>HWheel := HWheel r + 1\<rparr>, f\<lparr>wheeling_x := True\<rparr>)
     else (r, f))"

definition keystate_Fill_MouseReport ::
    "'a keystate_state_scheme \<Rightarrow> MouseReport_Data \<Rightarrow> MouseReport_Data \<times> 'a keystate_state_scheme" where
  "keystate_Fill_MouseReport s report =
     (let s = s\<lparr>cnt_move := of_nat ((unat (cnt_move s) + 1) mod unat (config_get_mouse_div s))\<rparr> in
      if cnt_move s \<noteq> 1 then (report\<lparr>Button := prev_button s\<rparr>, s) else
      let keys = map (\<lambda>k. extract_keycode (layer s) k HID s) (filter (\<lambda>k. state k \<and> \<not> hidden k) (key_states s));
          (report, f) = fold mouse_key
             (filter (\<lambda>h. h \<ge> SPECIAL_HID_KEY_MOUSE_BTN1 \<and> h \<le> SPECIAL_HID_KEY_WHEEL_RIGHT) keys)
             (report, \<lparr>moving_x = False, moving_y = False, wheeling_x = False, wheeling_y = False\<rparr>);
          s = s\<lparr>prev_button := Button report\<rparr>;
          (sp, v) = adjust_speed_and_report (moving_x f) (speed_x_move s) (X report);
          s = s\<lparr>speed_x_move := sp\<rparr>; report = report\<lparr>X := v\<rparr>;
          (sp, v) = adjust_speed_and_report (moving_y f) (speed_y_move s) (Y report);
          s = s\<lparr>speed_y_move := sp\<rparr>; report = report\<lparr>Y := v\<rparr>;
          s = s\<lparr>cnt_wheel := of_nat ((unat (cnt_wheel s) + 1) mod unat (config_get_wheel_div s))\<rparr>
      in if cnt_wheel s \<noteq> 1 then (report\<lparr>VWheel := 0, HWheel := 0\<rparr>, s)
         else let (sp, v) = adjust_speed_and_report (wheeling_x f) (speed_x_wheel s) (HWheel report);
                  s = s\<lparr>speed_x_wheel := sp\<rparr>; report = report\<lparr>HWheel := v\<rparr>;
                  (sp, v) = adjust_speed_and_report (wheeling_y f) (speed_y_wheel s) (VWheel report);
                  s = s\<lparr>speed_y_wheel := sp\<rparr>; report = report\<lparr>VWheel := v\<rparr>
              in (report, s))"

end
