(* ===== verification/KeystateCorrect.thy ===== *)
theory KeystateCorrect
  imports Keystate
begin

text \<open>
  Correctness of the key scanning: what debouncing computes, the invariant of the fourteen slots and
  of the number of pressed keys, and the reports. The change hook is a client that may do anything
  except touch the scanning state; the locale \<open>change_hook\<close> states that, and the recording hook of the
  keyboard is an instance of it.
\<close>

subsection \<open>Bits\<close>

lemma get_bit_iff: "get_bit ws n \<longleftrightarrow> bit (ws ! (n div 8)) (n mod 8)"
  unfolding get_bit_def BITFIELD_WORD_BITS_def bit_iff_and_push_bit_not_eq_0 by simp

lemma get_bit_set_bit:
  assumes "m div 8 < length ws"
  shows "get_bit (set_bit ws m) n \<longleftrightarrow> n = m \<or> get_bit ws n"
proof (cases "n div 8 = m div 8")
  case True
  then have "n = m \<longleftrightarrow> n mod 8 = m mod 8" by (metis div_mult_mod_eq)
  then show ?thesis
    using assms True unfolding get_bit_iff set_bit_def BITFIELD_WORD_BITS_def
    by (auto simp: bit_simps)
next
  case False
  then show ?thesis unfolding get_bit_iff set_bit_def BITFIELD_WORD_BITS_def by auto
qed

lemma length_set_bit [simp]: "length (set_bit ws n) = length ws"
  by (simp add: set_bit_def)

subsection \<open>The scan\<close>

text \<open>Key \<open>k\<close> reads as pressed when its position of the matrix is closed.\<close>

definition reads :: "(nat \<Rightarrow> nat \<Rightarrow> bool) \<Rightarrow> nat \<Rightarrow> bool" where
  "reads matrix k \<longleftrightarrow> (\<exists>row < MATRIX_ROWS. \<exists>col < MATRIX_COLS. unat (matrix_to_logical_map ! row ! col) = k \<and> matrix row col)"

lemma matrix_keys: "row < MATRIX_ROWS \<Longrightarrow> col < MATRIX_COLS \<Longrightarrow> unat (matrix_to_logical_map ! row ! col) < KEYPAD_LAYER_SIZE"
proof -
  have "list_all (\<lambda>row. list_all (\<lambda>col. unat (matrix_to_logical_map ! row ! col) < KEYPAD_LAYER_SIZE) [0..<MATRIX_COLS]) [0..<MATRIX_ROWS]"
    by code_simp
  then show "row < MATRIX_ROWS \<Longrightarrow> col < MATRIX_COLS \<Longrightarrow> unat (matrix_to_logical_map ! row ! col) < KEYPAD_LAYER_SIZE"
    by (simp add: list_all_iff)
qed

lemma scan_row:
  assumes "row < MATRIX_ROWS" "n \<le> MATRIX_COLS" "length ws = BITFIELD_WORDS"
  shows "length (fold (scan_position matrix row) [0..<n] ws) = BITFIELD_WORDS
    \<and> (get_bit (fold (scan_position matrix row) [0..<n] ws) k \<longleftrightarrow>
        get_bit ws k \<or> (\<exists>col < n. unat (matrix_to_logical_map ! row ! col) = k \<and> matrix row col))"
  using assms(2)
proof (induction n)
  case (Suc n)
  define p where "p = matrix_to_logical_map ! row ! n"
  have p: "unat p < 84" using matrix_keys [OF assms(1)] Suc.prems by (simp add: p_def KEYPAD_LAYER_SIZE_def)
  then have "p \<noteq> NO_KEY" "unat p div 8 < BITFIELD_WORDS"
    by (auto simp: NO_KEY_def BITFIELD_WORDS_def KEYPAD_LAYER_SIZE_def BITFIELD_WORD_BITS_def)
  then show ?case
    using Suc by (auto simp: scan_position_def p_def [symmetric] get_bit_set_bit less_Suc_eq)
qed (use assms in simp)

lemma scan_matrix_bit: "get_bit (scan_matrix matrix) k \<longleftrightarrow> reads matrix k" if "k < 88"
proof -
  have "length (fold (\<lambda>row. fold (scan_position matrix row) [0..<MATRIX_COLS]) [0..<n] (replicate BITFIELD_WORDS 0)) = BITFIELD_WORDS
    \<and> (get_bit (fold (\<lambda>row. fold (scan_position matrix row) [0..<MATRIX_COLS]) [0..<n] (replicate BITFIELD_WORDS 0)) k \<longleftrightarrow>
        (\<exists>row < n. \<exists>col < MATRIX_COLS. unat (matrix_to_logical_map ! row ! col) = k \<and> matrix row col))"
    if "n \<le> MATRIX_ROWS" for n
    using that
  proof (induction n)
    case 0
    have "k div 8 < BITFIELD_WORDS" using \<open>k < 88\<close>
      by (simp add: BITFIELD_WORDS_def KEYPAD_LAYER_SIZE_def BITFIELD_WORD_BITS_def less_mult_imp_div_less)
    then show ?case by (simp add: get_bit_iff)
  next
    case (Suc n)
    then show ?case
      using scan_row [of n MATRIX_COLS _ matrix k] by (auto simp: less_Suc_eq)
  qed
  from this [of MATRIX_ROWS] show ?thesis by (simp add: scan_matrix_def reads_def)
qed

subsection \<open>Debouncing\<close>

lemma bit_all_time_active: "bit (all_time_active ring n w) b \<longleftrightarrow> b < 8 \<and> (\<forall>i < n. bit (ring ! i ! w) b)"
  unfolding all_time_active_def by (induction n) (auto simp: bit_simps less_Suc_eq)

lemma bit_any_time_active: "bit (any_time_active ring n w) b \<longleftrightarrow> (\<exists>i < n. bit (ring ! i ! w) b)"
  unfolding any_time_active_def by (induction n) (auto simp: bit_simps less_Suc_eq)

lemma debounce_matrix_bits:
  fixes matrix :: "nat \<Rightarrow> nat \<Rightarrow> bool"
  assumes "k < 88" and "0 < config_get_debounce_len s"
  defines "len \<equiv> unat (config_get_debounce_len s)" and "s1 \<equiv> debounce_matrix matrix s"
  shows "get_bit (debounced_bitfield s1) k \<longleftrightarrow>
      (if \<forall>i < len. get_bit (debounce_bitfields s1 ! i) k then True
       else if \<forall>i < len. \<not> get_bit (debounce_bitfields s1 ! i) k then False
       else get_bit (debounced_bitfield s) k)"
    and "get_bit (debounced_on_bitfield s1) k \<longleftrightarrow>
      \<not> get_bit (debounced_bitfield s) k \<and> (\<forall>i < len. get_bit (debounce_bitfields s1 ! i) k)"
proof -
  have w: "k div 8 < BITFIELD_WORDS" using assms(1)
    by (simp add: BITFIELD_WORDS_def KEYPAD_LAYER_SIZE_def BITFIELD_WORD_BITS_def less_mult_imp_div_less)
  have len: "0 < len" using assms(2) by (simp add: len_def word_less_nat_alt)
  note d = debounce_matrix_def Let_def
  have r: "debounce_bitfields s1 = (debounce_bitfields s)[(active_debounce_index s + 1) mod len := scan_matrix matrix]"
    by (simp add: s1_def len_def d)
  show "get_bit (debounced_bitfield s1) k \<longleftrightarrow>
      (if \<forall>i < len. get_bit (debounce_bitfields s1 ! i) k then True
       else if \<forall>i < len. \<not> get_bit (debounce_bitfields s1 ! i) k then False
       else get_bit (debounced_bitfield s) k)"
    using w len unfolding r s1_def
    by (auto simp: d get_bit_iff bit_simps bit_all_time_active bit_any_time_active len_def [symmetric])
  show "get_bit (debounced_on_bitfield s1) k \<longleftrightarrow>
      \<not> get_bit (debounced_bitfield s) k \<and> (\<forall>i < len. get_bit (debounce_bitfields s1 ! i) k)"
    using w unfolding r s1_def
    by (auto simp: d get_bit_iff bit_simps bit_all_time_active len_def [symmetric])
qed

subsection \<open>The slots\<close>

definition occupied :: "key_state \<Rightarrow> bool" where
  "occupied k \<longleftrightarrow> p_key k \<noteq> NO_KEY"

definition slot_keys :: "key_state list \<Rightarrow> nat list" where
  "slot_keys slots = map (\<lambda>k. unat (p_key k)) (filter occupied slots)"

text \<open>
  Between the phases of an update a slot is empty, or its key was down before the scan or is down now,
  and \<open>state\<close> says whether the key is in \<open>D\<close>, the debounced keys.
\<close>

definition slots_mid :: "(nat \<Rightarrow> bool) \<Rightarrow> key_state list \<Rightarrow> bool" where
  "slots_mid D slots \<longleftrightarrow> length slots = KEYSTATE_COUNT \<and> distinct (slot_keys slots)
     \<and> (\<forall>k\<in>set slots. if occupied k then (state k \<longleftrightarrow> D (unat (p_key k))) \<and> (prev_state k \<or> state k)
          \<and> unat (p_key k) < 88 else k = empty_key_state)"

definition slots_ok :: "(nat \<Rightarrow> bool) \<Rightarrow> key_state list \<Rightarrow> bool" where
  "slots_ok D slots \<longleftrightarrow> slots_mid D slots \<and> (\<forall>k\<in>set slots. occupied k \<longrightarrow> prev_state k \<and> state k)"

lemma next_free_spec:
  assumes "length slots = KEYSTATE_COUNT" "\<forall>i < free. occupied (slots ! i)" "free \<le> KEYSTATE_COUNT"
  shows "next_free slots free \<le> KEYSTATE_COUNT"
    and "\<forall>i < next_free slots free. occupied (slots ! i)"
    and "next_free slots free < KEYSTATE_COUNT \<Longrightarrow> \<not> occupied (slots ! next_free slots free)"
proof -
  have "next_free slots free \<le> KEYSTATE_COUNT \<and> (\<forall>i < next_free slots free. occupied (slots ! i))
    \<and> (next_free slots free < KEYSTATE_COUNT \<longrightarrow> \<not> occupied (slots ! next_free slots free))"
    using assms
  proof (induction slots free rule: next_free.induct)
    case (1 slots free)
    show ?case
    proof (cases "free < KEYSTATE_COUNT \<and> p_key (slots ! free) \<noteq> NO_KEY")
      case True
      have "\<forall>i < free + 1. occupied (slots ! i)" using True "1.prems"(2) by (auto simp: less_Suc_eq occupied_def)
      then have "next_free slots (free + 1) \<le> KEYSTATE_COUNT \<and> (\<forall>i < next_free slots (free + 1). occupied (slots ! i))
        \<and> (next_free slots (free + 1) < KEYSTATE_COUNT \<longrightarrow> \<not> occupied (slots ! next_free slots (free + 1)))"
        using "1.IH" [OF True] "1.prems"(1) True by simp
      then show ?thesis by (subst (1 2 3 4) next_free.simps) (use True in simp)
    next
      case False
      then show ?thesis using "1.prems" by (subst (1 2 3 4) next_free.simps) (auto simp: occupied_def)
    qed
  qed
  then show "next_free slots free \<le> KEYSTATE_COUNT" "\<forall>i < next_free slots free. occupied (slots ! i)"
    "next_free slots free < KEYSTATE_COUNT \<Longrightarrow> \<not> occupied (slots ! next_free slots free)" by auto
qed

lemma slot_keys_upd:
  assumes "i < length slots" "\<not> occupied (slots ! i)" "occupied k"
  shows "mset (slot_keys (slots[i := k])) = add_mset (unat (p_key k)) (mset (slot_keys slots))"
proof -
  have "slots = take i slots @ slots ! i # drop (Suc i) slots" using assms(1) by (rule id_take_nth_drop)
  then have "slot_keys slots = slot_keys (take i slots @ slots ! i # drop (Suc i) slots)" by simp
  then show ?thesis
    using assms by (simp add: upd_conv_take_nth_drop slot_keys_def)
qed

lemma slot_keys_set: "set (slot_keys slots) = (\<lambda>k. unat (p_key k)) ` {k \<in> set slots. occupied k}"
  by (auto simp: slot_keys_def)

lemma add_pressed_mid:
  fixes counter :: u16
  assumes "slots_mid D slots" "\<forall>i < free. occupied (slots ! i)" "free \<le> KEYSTATE_COUNT"
    and "distinct ks" "\<forall>k\<in>set ks. k < 88 \<and> (get_bit on k \<longrightarrow> D k \<and> k \<notin> set (slot_keys slots))"
  defines "r \<equiv> fst (add_pressed ks on free slots counter)"
  shows "slots_mid D r \<and> set (slot_keys slots) \<subseteq> set (slot_keys r)
    \<and> set (slot_keys r) \<subseteq> set (slot_keys slots) \<union> {k \<in> set ks. get_bit on k}
    \<and> (card (set (slot_keys slots) \<union> {k \<in> set ks. get_bit on k}) \<le> KEYSTATE_COUNT \<longrightarrow>
        set (slot_keys r) = set (slot_keys slots) \<union> {k \<in> set ks. get_bit on k})
    \<and> mset (filter prev_state r) = mset (filter prev_state slots)"
  using assms(1-5) unfolding r_def
proof (induction ks on free slots counter rule: add_pressed.induct)
  case (2 k ks on free slots counter)
  show ?case
  proof (cases "get_bit on k")
    case False
    have "{k' \<in> set (k # ks). get_bit on k'} = {k \<in> set ks. get_bit on k}" using False by auto
    then show ?thesis using 2 False by simp
  next
    case True
    define f where "f = next_free slots free"
    have len: "length slots = KEYSTATE_COUNT" using "2.prems"(1) by (simp add: slots_mid_def)
    note nf = next_free_spec [OF len "2.prems"(2,3), folded f_def]
    have new: "k < 88" "D k" "k \<notin> set (slot_keys slots)" using "2.prems"(5) True by auto
    show ?thesis
    proof (cases "f < KEYSTATE_COUNT")
      case full: False
      have "f = KEYSTATE_COUNT" using full nf(1) by simp
      then have "filter occupied slots = slots"
        using nf(2) len by (intro filter_True) (auto simp: in_set_conv_nth)
      then have "length (slot_keys slots) = KEYSTATE_COUNT" using len by (simp add: slot_keys_def)
      then have "card (set (slot_keys slots)) = KEYSTATE_COUNT"
        using "2.prems"(1) distinct_card [of "slot_keys slots"] by (simp add: slots_mid_def)
      moreover have "card (insert k (set (slot_keys slots)))
          \<le> card (set (slot_keys slots) \<union> {k' \<in> set (k # ks). get_bit on k'})"
        by (rule card_mono) (use True in auto)
      ultimately have "\<not> card (set (slot_keys slots) \<union> {k' \<in> set (k # ks). get_bit on k'}) \<le> KEYSTATE_COUNT"
        using new(3) by simp
      then show ?thesis using True full "2.prems"(1) by (auto simp: f_def [symmetric] Let_def)
    next
      case room: True
      let ?k = "(slots ! f)\<lparr>p_key := of_nat k, state := True\<rparr>"
      let ?slots = "slots[f := ?k]"
      have free: "\<not> occupied (slots ! f)" and fl: "f < length slots" using nf(3) room len by auto
      have e: "slots ! f = empty_key_state"
        using "2.prems"(1) free fl by (auto simp: slots_mid_def)
      have uk: "unat (of_nat k :: u8) = k" using new(1) by (simp add: unat_of_nat)
      have ok: "occupied ?k"
      proof -
        have "(of_nat k :: u8) \<noteq> NO_KEY" using uk new(1) by (auto simp: NO_KEY_def)
        then show ?thesis by (simp add: occupied_def)
      qed
      have ms: "mset (slot_keys ?slots) = add_mset k (mset (slot_keys slots))"
        using slot_keys_upd [OF fl free ok] uk by simp
      then have st: "set (slot_keys ?slots) = insert k (set (slot_keys slots))"
        by (metis set_mset_add_mset_insert set_mset_mset)
      have "distinct (slot_keys ?slots)"
        using ms new(3) "2.prems"(1) mset_eq_imp_distinct_iff [of "slot_keys ?slots" "k # slot_keys slots"]
        by (simp add: slots_mid_def)
      then have mid: "slots_mid D ?slots"
        using "2.prems"(1) new uk ok by (auto simp: slots_mid_def dest!: set_update_subset_insert [THEN subsetD])
      have pre: "\<forall>i < f. occupied (?slots ! i)" using nf(2) by simp
      have "mset (filter prev_state ?slots) = mset (filter prev_state slots)"
        using fl e by (simp add: mset_filter mset_update empty_key_state_def)
      moreover have "{k' \<in> set (k # ks). get_bit on k'} = insert k {k \<in> set ks. get_bit on k}" using True by auto
      moreover have "\<forall>k'\<in>set ks. k' < 88 \<and> (get_bit on k' \<longrightarrow> D k' \<and> k' \<notin> set (slot_keys ?slots))"
        using "2.prems"(4,5) st by auto
      ultimately show ?thesis
        using "2.IH"(2) [of "counter + 1" f] True room mid pre nf(1) "2.prems"(4) st
        by (simp add: f_def [symmetric] Let_def fun_upd_def)
    qed
  qed
qed simp

subsection \<open>The number of pressed keys\<close>

definition notified :: "(logical_keycode \<Rightarrow> hid_keycode) \<Rightarrow> key_state \<Rightarrow> bool" where
  "notified m k \<longleftrightarrow> is_hid_key_to_notify_about (m (p_key k))"

definition down_before :: "(logical_keycode \<Rightarrow> hid_keycode) \<Rightarrow> key_state list \<Rightarrow> nat" where
  "down_before m slots = length (filter (\<lambda>k. prev_state k \<and> notified m k) slots)"

definition down_now :: "(logical_keycode \<Rightarrow> hid_keycode) \<Rightarrow> key_state list \<Rightarrow> nat" where
  "down_now m slots = length (filter (\<lambda>k. state k \<and> notified m k) slots)"

lemma down_before_mset: "mset (filter prev_state xs) = mset (filter prev_state ys) \<Longrightarrow> down_before m xs = down_before m ys"
proof -
  assume "mset (filter prev_state xs) = mset (filter prev_state ys)"
  then have "size (filter_mset (notified m) (mset (filter prev_state xs))) = size (filter_mset (notified m) (mset (filter prev_state ys)))"
    by simp
  then show ?thesis by (simp add: down_before_def conj_commute flip: size_mset mset_filter)
qed

lemma mark_released_mid:
  fixes deb :: "u8 list"
  assumes "slots_ok D slots"
  defines "r \<equiv> mark_released deb slots"
  shows "slots_mid (get_bit deb) r" "slot_keys r = slot_keys slots" "down_before m r = down_before m slots"
proof -
  have p: "map p_key r = map p_key slots" by (simp add: r_def mark_released_def)
  have occ: "occupied = (\<lambda>k. p_key k \<noteq> NO_KEY)" by (simp add: fun_eq_iff occupied_def)
  have sk_p: "slot_keys xs = map unat (filter (\<lambda>x. x \<noteq> NO_KEY) (map p_key xs))" for xs
    unfolding slot_keys_def occ by (simp add: filter_map o_def)
  show sk: "slot_keys r = slot_keys slots" unfolding sk_p p ..
  show "slots_mid (get_bit deb) r"
    using assms(1) sk unfolding slots_ok_def slots_mid_def
    by (auto simp: r_def mark_released_def occupied_def split: if_splits)
  have "down_before m r = length (filter (\<lambda>(b, x). b \<and> is_hid_key_to_notify_about (m x)) (map (\<lambda>k. (prev_state k, p_key k)) r))"
    by (simp add: down_before_def notified_def filter_map o_def)
  also have "map (\<lambda>k. (prev_state k, p_key k)) r = map (\<lambda>k. (prev_state k, p_key k)) slots"
    by (simp add: r_def mark_released_def)
  also have "length (filter (\<lambda>(b, x). b \<and> is_hid_key_to_notify_about (m x)) (map (\<lambda>k. (prev_state k, p_key k)) slots)) = down_before m slots"
    by (simp add: down_before_def notified_def filter_map o_def)
  finally show "down_before m r = down_before m slots" .
qed

text \<open>What one slot becomes at the end of the update.\<close>

definition settle :: "key_state \<Rightarrow> key_state" where
  "settle k = (if \<not> occupied k then k else if prev_state k \<and> \<not> state k then empty_key_state else k\<lparr>prev_state := state k\<rparr>)"

lemma settle_ok:
  assumes "slots_mid D slots"
  shows "slots_ok D (map settle slots)"
    and "set (slot_keys (map settle slots)) = {k \<in> set (slot_keys slots). D k}"
    and "down_now m (map settle slots) = down_now m slots"
proof -
  have o: "occupied (settle k) \<longleftrightarrow> occupied k \<and> state k" if "k \<in> set slots" for k
    using assms that by (auto simp: settle_def occupied_def slots_mid_def empty_key_state_def)
  have pk: "p_key (settle k) = p_key k" if "k \<in> set slots" "state k" for k
    using that by (simp add: settle_def)
  have keys: "slot_keys (map settle slots) = map (\<lambda>k. unat (p_key k)) (filter state (filter occupied slots))"
    unfolding slot_keys_def filter_map using o pk
    by (auto simp: o_def conj_commute intro!: map_cong filter_cong)
  have D: "D (unat (p_key k)) \<longleftrightarrow> state k" if "k \<in> set slots" "occupied k" for k
    using assms that by (auto simp: slots_mid_def)
  show "set (slot_keys (map settle slots)) = {k \<in> set (slot_keys slots). D k}"
    unfolding keys using D by (auto simp: slot_keys_def)
  have "distinct (slot_keys (map settle slots))"
    unfolding keys by (rule distinct_map_filter) (use assms in \<open>simp add: slots_mid_def slot_keys_def\<close>)
  then show "slots_ok D (map settle slots)"
    using assms unfolding slots_ok_def slots_mid_def
    by (auto simp: settle_def occupied_def empty_key_state_def)
  have "state (settle k) \<and> notified m (settle k) \<longleftrightarrow> state k \<and> notified m k" if "k \<in> set slots" for k
    using assms that by (auto simp: settle_def notified_def slots_mid_def occupied_def empty_key_state_def)
  then show "down_now m (map settle slots) = down_now m slots"
    unfolding down_now_def filter_map by (simp add: o_def cong: filter_cong)
qed

lemma slots_ok_down:
  assumes "slots_ok D slots"
  shows "down_before m slots = down_now m slots"
proof -
  have "prev_state k \<longleftrightarrow> state k" if "k \<in> set slots" for k
    using assms that by (cases "occupied k") (auto simp: slots_ok_def slots_mid_def empty_key_state_def)
  then show ?thesis unfolding down_before_def down_now_def by (metis (mono_tags, lifting) filter_cong)
qed

subsection \<open>Clients of the change hook\<close>

text \<open>What the update itself works on. A hook may change everything else.\<close>

definition scan_env :: "'a keystate_state_scheme \<Rightarrow>
    u16 \<times> layer_t \<times> layer_t \<times> nat \<times> u8 list list \<times> u8 list \<times> u8 list \<times> u8 \<times> (logical_keycode \<Rightarrow> hid_keycode)" where
  "scan_env s = (key_press_counter s, prev_layer s, layer s, active_debounce_index s, debounce_bitfields s,
     debounced_on_bitfield s, debounced_bitfield s, debounce_len s, logical_to_hid_map s)"

lemma buzzer_frame [simp]:
  "scan_env (buzzer_start_f f t s) = scan_env s" "scan_env (default_beep s) = scan_env s"
  "key_states (buzzer_start_f f t s) = key_states s" "key_states (default_beep s) = key_states s"
  "key_press_count (buzzer_start_f f t s) = key_press_count s" "key_press_count (default_beep s) = key_press_count s"
  by (simp_all add: scan_env_def default_beep_def buzzer_defs Let_def)

lemma scan_env_upd [simp]:
  "scan_env (s\<lparr>key_states := x\<rparr>) = scan_env s" "scan_env (s\<lparr>key_press_count := c\<rparr>) = scan_env s"
  by (simp_all add: scan_env_def)

locale change_hook =
  fixes hook :: "'a change_hook"
  assumes hook_env: "scan_env (hook k p s) = scan_env s"
    and hook_slots: "key_states (hook k p s) = key_states s"
    and hook_count: "key_press_count (hook k p s) = key_press_count s"
begin

lemma run_hook_frame:
  "scan_env (run_hook hook k p s) = scan_env s" "key_states (run_hook hook k p s) = key_states s"
  "key_press_count (run_hook hook k p s) = key_press_count s"
  by (simp_all add: run_hook_def hook_env hook_slots hook_count)

lemma notify_frame:
  "scan_env (notify_about_key_change hook c k s) = scan_env s"
  "key_states (notify_about_key_change hook c k s) = key_states s"
  by (simp_all add: notify_about_key_change_def notify_key_pressed_def notify_key_released_def Let_def run_hook_frame)

lemma notify_count:
  assumes "prev_state k \<or> state k" "c \<or> prev_state k \<noteq> state k"
  shows "key_press_count (notify_about_key_change hook c k s)
    = key_press_count s + (if state k then 1 else 0) - (if prev_state k then 1 else 0)"
  using assms
  by (auto simp: notify_about_key_change_def notify_key_pressed_def notify_key_released_def Let_def run_hook_frame)

lemma hid_map_env: "logical_to_hid_map s = snd (snd (snd (snd (snd (snd (snd (snd (scan_env s))))))))"
  by (simp add: scan_env_def)

lemma notify_slot_step:
  assumes "j < length (key_states s)" "if occupied (key_states s ! j) then prev_state (key_states s ! j) \<or> state (key_states s ! j)
      else key_states s ! j = empty_key_state"
  defines "k \<equiv> key_states s ! j" and "m \<equiv> logical_to_hid_map s"
  shows "scan_env (notify_slot hook c j s) = scan_env s"
    and "key_states (notify_slot hook c j s) = (key_states s)[j := settle k]"
    and "key_press_count (notify_slot hook c j s) = key_press_count s
      + (if state k \<and> notified m k then 1 else 0) - (if prev_state k \<and> notified m k then 1 else 0)"
proof -
  have e: "k\<lparr>prev_state := state k\<rparr> = k" if "prev_state k = state k" using that by (cases k) simp
  note d = notify_slot_def Let_def k_def [symmetric] notify_frame config_get_definition_def m_def [symmetric]
  show "scan_env (notify_slot hook c j s) = scan_env s" by (simp add: d)
  show "key_states (notify_slot hook c j s) = (key_states s)[j := settle k]"
  proof (cases "p_key k = NO_KEY \<or> \<not> c \<and> prev_state k = state k")
    case True
    then have "settle k = k" using e by (auto simp: settle_def occupied_def)
    moreover have "notify_slot hook c j s = s" using True unfolding d by (elim disjE) simp_all
    ultimately show ?thesis by (simp add: k_def)
  next
    case False
    then show ?thesis by (auto simp: d settle_def occupied_def)
  qed
  show "key_press_count (notify_slot hook c j s) = key_press_count s
      + (if state k \<and> notified m k then 1 else 0) - (if prev_state k \<and> notified m k then 1 else 0)"
  proof (cases "occupied k")
    case False
    then show ?thesis using assms(2) by (simp add: d occupied_def empty_key_state_def)
  next
    case True
    then have p: "prev_state k \<or> state k" using assms(2) by (simp add: k_def)
    show ?thesis
    proof (cases "\<not> c \<and> prev_state k = state k")
      case True
      then show ?thesis by (simp add: d)
    next
      case False
      then show ?thesis
        using notify_count [OF p, of c s] True by (auto simp: d occupied_def notified_def)
    qed
  qed
qed

lemma notify_all:
  fixes c :: bool
  assumes "\<forall>k\<in>set (key_states s). if occupied k then prev_state k \<or> state k else k = empty_key_state"
    and "n \<le> length (key_states s)"
  defines "m \<equiv> logical_to_hid_map s" and "t \<equiv> fold (notify_slot hook c) [0..<n] s"
  shows "scan_env t = scan_env s
    \<and> key_states t = map settle (take n (key_states s)) @ drop n (key_states s)
    \<and> key_press_count t = key_press_count s + of_nat (down_now m (take n (key_states s)))
        - of_nat (down_before m (take n (key_states s)))"
  using assms(2) unfolding t_def
proof (induction n)
  case (Suc n)
  define t where "t = fold (notify_slot hook c) [0..<n] s"
  define slots where "slots = key_states s"
  have n: "n < length slots" using Suc.prems by (simp add: slots_def)
  have ih: "scan_env t = scan_env s" "key_states t = map settle (take n slots) @ drop n slots"
    "key_press_count t = key_press_count s + of_nat (down_now m (take n slots)) - of_nat (down_before m (take n slots))"
    using Suc by (simp_all add: t_def slots_def)
  have k: "key_states t ! n = slots ! n" and tn: "n < length (key_states t)" using n ih(2) by (simp_all add: nth_append)
  have mt: "logical_to_hid_map t = m" using ih(1) hid_map_env by (metis m_def)
  have inv: "if occupied (key_states t ! n) then prev_state (key_states t ! n) \<or> state (key_states t ! n)
      else key_states t ! n = empty_key_state"
    using assms(1) n k by (simp add: slots_def)
  note st = notify_slot_step [OF tn inv, of c, unfolded k mt]
  have tk: "take (Suc n) slots = take n slots @ [slots ! n]" using n by (rule take_Suc_conv_app_nth)
  have "key_states (notify_slot hook c n t) = map settle (take (Suc n) slots) @ drop (Suc n) slots"
    unfolding st(2) ih(2) tk using n by (simp add: list_update_append Cons_nth_drop_Suc [symmetric])
  moreover have "key_press_count (notify_slot hook c n t) = key_press_count s
      + of_nat (down_now m (take (Suc n) slots)) - of_nat (down_before m (take (Suc n) slots))"
    unfolding st(3) ih(3) tk by (simp add: down_now_def down_before_def)
  ultimately show ?case using st(1) ih(1) by (simp add: t_def slots_def)
qed (simp add: down_now_def down_before_def)

end

subsection \<open>The invariant\<close>

text \<open>
  Every slot is empty or holds a key that is down, no key has two slots, all keys are keys of one
  layer, and \<open>key_press_count\<close> counts the keys that are reported to higher levels. The ring is used
  with a length between 1 and its size.
\<close>

definition layer_keys :: "u8 list \<Rightarrow> bool" where
  "layer_keys ws \<longleftrightarrow> (\<forall>k < 88. get_bit ws k \<longrightarrow> k < KEYPAD_LAYER_SIZE)"

definition keystate_wf :: "'a keystate_state_scheme \<Rightarrow> bool" where
  "keystate_wf s \<longleftrightarrow> slots_ok (get_bit (debounced_bitfield s)) (key_states s)
     \<and> key_press_count s = of_nat (down_now (logical_to_hid_map s) (key_states s))
     \<and> length (debounce_bitfields s) = MAX_DEBOUNCE_LEN \<and> list_all layer_keys (debounce_bitfields s)
     \<and> layer_keys (debounced_bitfield s)
     \<and> 0 < debounce_len s \<and> unat (debounce_len s) \<le> MAX_DEBOUNCE_LEN
     \<and> lid (layer s) \<le> 2"

text \<open>The same without the count, which does not depend on what the mapping calls a layer key.\<close>

definition slots_wf :: "'a keystate_state_scheme \<Rightarrow> bool" where
  "slots_wf s \<longleftrightarrow> slots_ok (get_bit (debounced_bitfield s)) (key_states s)
     \<and> length (debounce_bitfields s) = MAX_DEBOUNCE_LEN \<and> list_all layer_keys (debounce_bitfields s)
     \<and> layer_keys (debounced_bitfield s)
     \<and> 0 < debounce_len s \<and> unat (debounce_len s) \<le> MAX_DEBOUNCE_LEN
     \<and> lid (layer s) \<le> 2"

lemma keystate_wf_slots:
  "keystate_wf s \<longleftrightarrow> slots_wf s \<and> key_press_count s = of_nat (down_now (logical_to_hid_map s) (key_states s))"
  unfolding keystate_wf_def slots_wf_def by blast

lemma keystate_wf_slotsD: "keystate_wf s \<Longrightarrow> slots_wf s"
  by (simp add: keystate_wf_slots)

definition pressed :: "'a keystate_state_scheme \<Rightarrow> nat set" where
  "pressed s = set (slot_keys (key_states s))"

definition debounced :: "'a keystate_state_scheme \<Rightarrow> nat set" where
  "debounced s = {k. k < 88 \<and> get_bit (debounced_bitfield s) k}"

lemma debounce_matrix_frame:
  "key_states (debounce_matrix matrix s) = key_states s"
  "key_press_count (debounce_matrix matrix s) = key_press_count s"
  "logical_to_hid_map (debounce_matrix matrix s) = logical_to_hid_map s"
  "debounce_len (debounce_matrix matrix s) = debounce_len s"
  "layer (debounce_matrix matrix s) = layer s" "prev_layer (debounce_matrix matrix s) = prev_layer s"
  "debounce_bitfields (debounce_matrix matrix s) = (debounce_bitfields s)
     [(active_debounce_index s + 1) mod unat (debounce_len s) := scan_matrix matrix]"
  "active_debounce_index (debounce_matrix matrix s) = (active_debounce_index s + 1) mod unat (debounce_len s)"
  by (simp_all add: debounce_matrix_def Let_def config_get_debounce_len_def)

lemma record_presses_frame:
  "key_press_count (record_presses s) = key_press_count s"
  "logical_to_hid_map (record_presses s) = logical_to_hid_map s" "debounce_len (record_presses s) = debounce_len s"
  "layer (record_presses s) = layer s" "prev_layer (record_presses s) = prev_layer s"
  "debounce_bitfields (record_presses s) = debounce_bitfields s"
  "debounced_bitfield (record_presses s) = debounced_bitfield s"
  "active_debounce_index (record_presses s) = active_debounce_index s"
  by (simp_all add: record_presses_def Let_def case_prod_beta)

lemma layer_slot_frame:
  "key_states (layer_slot j s) = key_states s" "key_press_count (layer_slot j s) = key_press_count s"
  "logical_to_hid_map (layer_slot j s) = logical_to_hid_map s" "debounce_len (layer_slot j s) = debounce_len s"
  "prev_layer (layer_slot j s) = prev_layer s" "debounce_bitfields (layer_slot j s) = debounce_bitfields s"
  "debounced_bitfield (layer_slot j s) = debounced_bitfield s"
  "active_debounce_index (layer_slot j s) = active_debounce_index s"
  by (simp_all add: layer_slot_def update_layer_def default_beep_def buzzer_defs Let_def)

lemma layer_slots_frame:
  "key_states (fold layer_slot js s) = key_states s" "key_press_count (fold layer_slot js s) = key_press_count s"
  "logical_to_hid_map (fold layer_slot js s) = logical_to_hid_map s" "debounce_len (fold layer_slot js s) = debounce_len s"
  "prev_layer (fold layer_slot js s) = prev_layer s" "debounce_bitfields (fold layer_slot js s) = debounce_bitfields s"
  "debounced_bitfield (fold layer_slot js s) = debounced_bitfield s"
  "active_debounce_index (fold layer_slot js s) = active_debounce_index s"
  by (induction js arbitrary: s) (simp_all add: layer_slot_frame)

lemma layer_slot_layer:
  "layer (layer_slot j s) = (let k = key_states s ! j; h = logical_to_hid_map s (p_key k) in
     if occupied k \<and> SPECIAL_HID_KEY_NOREMAP h \<and> state k \<noteq> prev_state k then layer_step h (state k) (layer s) else layer s)"
  by (auto simp: layer_slot_def update_layer_def default_beep_def buzzer_defs Let_def occupied_def config_get_definition_def)

lemma layer_step_lid: "lid l \<le> 2 \<Longrightarrow> lid (layer_step h st l) \<le> 2"
  by (simp add: layer_step_def)

lemma layer_slots_lid: "lid (layer s) \<le> 2 \<Longrightarrow> lid (layer (fold layer_slot js s)) \<le> 2"
  by (induction js arbitrary: s) (simp_all add: layer_slot_layer Let_def layer_step_lid)

lemma layer_keys_scan: "layer_keys (scan_matrix matrix)"
  unfolding layer_keys_def using scan_matrix_bit [of _ matrix] matrix_keys by (auto simp: reads_def)

text \<open>The slots after the presses of a scan are recorded.\<close>

lemma record_presses_slots:
  fixes matrix :: "nat \<Rightarrow> nat \<Rightarrow> bool"
  assumes wf: "slots_wf s"
  defines "s1 \<equiv> debounce_matrix matrix s" and "m \<equiv> logical_to_hid_map s"
  defines "D \<equiv> get_bit (debounced_bitfield s1)" and "slots \<equiv> key_states (record_presses s1)"
  defines "on \<equiv> {k. k < 88 \<and> get_bit (debounced_on_bitfield s1) k}"
  shows "slots_mid D slots" "down_before m slots = down_now m (key_states s)"
    and "pressed s \<subseteq> set (slot_keys slots)" "set (slot_keys slots) \<subseteq> pressed s \<union> on"
    and "card (pressed s \<union> on) \<le> KEYSTATE_COUNT \<Longrightarrow> set (slot_keys slots) = pressed s \<union> on"
    and "on = debounced s1 - debounced s"
proof -
  have len: "0 < config_get_debounce_len s" using wf by (simp add: slots_wf_def config_get_debounce_len_def)
  note bits = debounce_matrix_bits [OF _ len, of _ matrix, folded s1_def]
  show "on = debounced s1 - debounced s"
    unfolding on_def debounced_def using bits len by (auto simp: word_less_nat_alt split: if_splits)
  have ok: "slots_ok (get_bit (debounced_bitfield s)) (key_states s)" using wf by (simp add: slots_wf_def)
  define slots0 where "slots0 = mark_released (debounced_bitfield s1) (key_states s)"
  note mk = mark_released_mid [OF ok, where deb = "debounced_bitfield s1", folded slots0_def D_def]
  have slots: "slots = fst (add_pressed [0..<88] (debounced_on_bitfield s1) 0 slots0 (key_press_counter s1))"
    by (simp add: slots_def record_presses_def slots0_def s1_def debounce_matrix_frame Let_def case_prod_beta
        BITFIELD_WORDS_def BITFIELD_WORD_BITS_def KEYPAD_LAYER_SIZE_def)
  have new: "\<forall>k\<in>set [0..<88]. k < 88 \<and> (get_bit (debounced_on_bitfield s1) k \<longrightarrow> D k \<and> k \<notin> set (slot_keys slots0))"
  proof (intro ballI conjI impI)
    fix k :: nat assume k: "k \<in> set [0..<88]" "get_bit (debounced_on_bitfield s1) k"
    then show "D k" using bits by (simp add: D_def)
    have "\<not> get_bit (debounced_bitfield s) k" using bits(2) k by simp
    then show "k \<notin> set (slot_keys slots0)"
      using ok unfolding mk(2) by (auto simp: slot_keys_def slots_ok_def slots_mid_def)
  qed simp
  note a = add_pressed_mid [OF mk(1) _ _ _ new, of 0 "key_press_counter s1", folded slots]
  have set88: "{k \<in> set [0..<88]. get_bit (debounced_on_bitfield s1) k} = on" by (auto simp: on_def)
  have p: "set (slot_keys slots0) = pressed s" by (simp add: pressed_def mk(2))
  have a': "slots_mid D slots" "pressed s \<subseteq> set (slot_keys slots)" "set (slot_keys slots) \<subseteq> pressed s \<union> on"
    "card (pressed s \<union> on) \<le> KEYSTATE_COUNT \<Longrightarrow> set (slot_keys slots) = pressed s \<union> on"
    "mset (filter prev_state slots) = mset (filter prev_state slots0)"
    using a unfolding set88 p by simp_all
  show "slots_mid D slots" "pressed s \<subseteq> set (slot_keys slots)" "set (slot_keys slots) \<subseteq> pressed s \<union> on"
    "card (pressed s \<union> on) \<le> KEYSTATE_COUNT \<Longrightarrow> set (slot_keys slots) = pressed s \<union> on" by (fact a')+
  show "down_before m slots = down_now m (key_states s)"
    using down_before_mset [OF a'(5), of m] mk(3) [of m] slots_ok_down [OF ok, of m] by simp
qed

context change_hook
begin

lemma env_parts:
  assumes "scan_env t = scan_env s"
  shows "layer t = layer s" "debounced_bitfield t = debounced_bitfield s" "debounce_bitfields t = debounce_bitfields s"
    "debounce_len t = debounce_len s" "logical_to_hid_map t = logical_to_hid_map s"
    "active_debounce_index t = active_debounce_index s"
  using assms by (simp_all add: scan_env_def)

lemma keystate_update_effect:
  fixes matrix :: "nat \<Rightarrow> nat \<Rightarrow> bool"
  assumes wf: "slots_wf s"
  defines "s1 \<equiv> debounce_matrix matrix s" and "t \<equiv> keystate_update hook matrix s"
  defines "slots \<equiv> key_states (record_presses s1)" and "m \<equiv> logical_to_hid_map s"
  shows "key_states t = map settle slots" "key_press_count t = key_press_count s + of_nat (down_now m slots) - of_nat (down_now m (key_states s))"
    and "debounced_bitfield t = debounced_bitfield s1" "debounce_bitfields t = debounce_bitfields s1"
    and "debounce_len t = debounce_len s" "logical_to_hid_map t = m" "lid (layer t) \<le> 2"
    and "active_debounce_index t = active_debounce_index s1"
proof -
  define s3 where "s3 = fold layer_slot [0..<KEYSTATE_COUNT] (record_presses s1)"
  define s4 where "s4 = fold (notify_slot hook (keystate_get_layer_id s3 \<noteq> keystate_get_prev_layer_id s3)) [0..<KEYSTATE_COUNT] s3"
  have t: "t = s4\<lparr>prev_layer := layer s4\<rparr>"
    by (simp add: t_def keystate_update_def Let_def s1_def s3_def s4_def)
  note r = record_presses_slots [OF wf, of matrix, folded s1_def, folded slots_def, folded m_def]
  have f3: "key_states s3 = slots" "key_press_count s3 = key_press_count s" "logical_to_hid_map s3 = m"
    "debounce_len s3 = debounce_len s" "debounce_bitfields s3 = debounce_bitfields s1"
    "debounced_bitfield s3 = debounced_bitfield s1" "lid (layer s3) \<le> 2"
    "active_debounce_index s3 = active_debounce_index s1"
    using wf by (simp_all add: s3_def layer_slots_frame record_presses_frame slots_def s1_def debounce_matrix_frame m_def
        layer_slots_lid slots_wf_def)
  have inv: "\<forall>k\<in>set (key_states s3). if occupied k then prev_state k \<or> state k else k = empty_key_state"
    and len: "length slots = KEYSTATE_COUNT"
    using r(1) f3(1) by (auto simp: slots_mid_def)
  note n = notify_all [OF inv, of KEYSTATE_COUNT, unfolded f3 len, OF order_refl,
      of "keystate_get_layer_id s3 \<noteq> keystate_get_prev_layer_id s3", folded s4_def]
  have n': "scan_env s4 = scan_env s3" "key_states s4 = map settle slots"
    "key_press_count s4 = key_press_count s + of_nat (down_now m slots) - of_nat (down_before m slots)"
    using n len by simp_all
  show "key_states t = map settle slots" using n'(2) by (simp add: t)
  show "key_press_count t = key_press_count s + of_nat (down_now m slots) - of_nat (down_now m (key_states s))"
    using n'(3) r(2) by (simp add: t m_def)
  show "debounced_bitfield t = debounced_bitfield s1" "debounce_bitfields t = debounce_bitfields s1"
    "debounce_len t = debounce_len s" "logical_to_hid_map t = m" "lid (layer t) \<le> 2"
    "active_debounce_index t = active_debounce_index s1"
    using env_parts [OF n'(1)] f3 by (simp_all add: t)
qed

lemma keystate_update_slots_wf:
  assumes wf: "slots_wf s"
  shows "slots_wf (keystate_update hook matrix s)"
proof -
  define s1 where "s1 = debounce_matrix matrix s"
  note e = keystate_update_effect [OF wf, of matrix, folded s1_def]
  note r = record_presses_slots [OF wf, of matrix, folded s1_def]
  have len: "0 < config_get_debounce_len s" using wf by (simp add: slots_wf_def config_get_debounce_len_def)
  have ring: "list_all layer_keys (debounce_bitfields s1)" "length (debounce_bitfields s1) = MAX_DEBOUNCE_LEN"
    using wf layer_keys_scan [of matrix]
    by (auto simp: s1_def debounce_matrix_frame slots_wf_def list_all_iff dest!: set_update_subset_insert [THEN subsetD])
  have "layer_keys (debounced_bitfield s1)"
    unfolding layer_keys_def
  proof (intro allI impI)
    fix k :: nat assume k: "k < 88" "get_bit (debounced_bitfield s1) k"
    moreover have "0 < unat (config_get_debounce_len s)" using len by (simp add: word_less_nat_alt)
    ultimately consider i where "i < unat (config_get_debounce_len s)" "get_bit (debounce_bitfields s1 ! i) k"
      using debounce_matrix_bits(1) [OF k(1) len, of matrix, folded s1_def] by (auto split: if_splits)
    then show "k < KEYPAD_LAYER_SIZE"
    proof cases
      case 1
      have "i < length (debounce_bitfields s1)"
        using 1(1) ring(2) wf by (simp add: slots_wf_def config_get_debounce_len_def)
      then show ?thesis using ring(1) 1(2) k(1) by (auto simp: list_all_iff layer_keys_def)
    qed
  qed
  then show ?thesis
    using settle_ok [OF r(1)] ring wf e(7) unfolding slots_wf_def e(1-6) by simp
qed

text \<open>
  A scan changes the count of pressed keys by as much as their number changes, so that a count that is
  right stays right, and one that is wrong stays wrong by the same amount.
\<close>

lemma keystate_update_count:
  assumes "slots_wf s"
  shows "key_press_count (keystate_update hook matrix s)
      - of_nat (down_now (logical_to_hid_map s) (key_states (keystate_update hook matrix s)))
    = key_press_count s - of_nat (down_now (logical_to_hid_map s) (key_states s))"
proof -
  note e = keystate_update_effect [OF assms, of matrix]
  note r = record_presses_slots(1) [OF assms, of matrix]
  show ?thesis unfolding e(1,2) settle_ok(3) [OF r] by simp
qed

lemma keystate_update_wf:
  assumes "keystate_wf s"
  shows "keystate_wf (keystate_update hook matrix s)"
  using keystate_update_slots_wf [of s matrix] keystate_update_count [of s matrix]
    keystate_update_effect(6) [of s matrix] assms
  by (simp add: keystate_wf_slots)

lemma keystate_update_pressed:
  fixes matrix :: "nat \<Rightarrow> nat \<Rightarrow> bool"
  assumes wf: "slots_wf s"
  defines "t \<equiv> keystate_update hook matrix s"
  shows "pressed t \<subseteq> debounced t" "pressed s \<inter> debounced t \<subseteq> pressed t"
    and "pressed s = debounced s \<Longrightarrow> card (debounced s \<union> debounced t) \<le> KEYSTATE_COUNT \<Longrightarrow> pressed t = debounced t"
proof -
  define s1 where "s1 = debounce_matrix matrix s"
  note e = keystate_update_effect [OF wf, of matrix, folded s1_def, folded t_def]
  note r = record_presses_slots [OF wf, of matrix, folded s1_def]
  have t1: "debounced t = debounced s1" by (simp add: debounced_def e)
  have p: "pressed t = {k \<in> set (slot_keys (key_states (record_presses s1))). get_bit (debounced_bitfield s1) k}"
    unfolding pressed_def e(1) by (rule settle_ok(2) [OF r(1)])
  have lt: "k < 88" if "k \<in> set (slot_keys (key_states (record_presses s1)))" for k
    using that r(1) by (auto simp: slot_keys_def slots_mid_def)
  show "pressed t \<subseteq> debounced t" unfolding p t1 using lt by (auto simp: debounced_def)
  show "pressed s \<inter> debounced t \<subseteq> pressed t" unfolding p t1 using r(3) by (auto simp: debounced_def)
  show "pressed t = debounced t" if "pressed s = debounced s" "card (debounced s \<union> debounced t) \<le> KEYSTATE_COUNT"
  proof -
    have "pressed s \<union> (debounced s1 - debounced s) = debounced s \<union> debounced t" using that(1) t1 by auto
    then have "set (slot_keys (key_states (record_presses s1))) = debounced s \<union> debounced t"
      using r(5,6) that(2) by simp
    then show ?thesis unfolding p t1 by (auto simp: debounced_def)
  qed
qed

text \<open>After as many scans as the ring is long, every entry of the ring is one of them.\<close>

lemma updates_wf: "slots_wf s \<Longrightarrow> slots_wf (fold (keystate_update hook) ms s)"
  by (induction ms arbitrary: s) (simp_all add: keystate_update_slots_wf)

lemma updates_ring:
  assumes wf: "slots_wf s" and "length ms \<le> unat (debounce_len s)"
  defines "t \<equiv> fold (keystate_update hook) ms s" and "len \<equiv> unat (debounce_len s)"
  shows "debounce_len t = debounce_len s"
    and "ms \<noteq> [] \<Longrightarrow> active_debounce_index t = (active_debounce_index s + length ms) mod len"
    and "\<forall>j < length ms. debounce_bitfields t ! ((active_debounce_index s + 1 + j) mod len) = scan_matrix (ms ! j)"
proof -
  have "debounce_len t = debounce_len s
    \<and> (ms \<noteq> [] \<longrightarrow> active_debounce_index t = (active_debounce_index s + length ms) mod len)
    \<and> (\<forall>j < length ms. debounce_bitfields t ! ((active_debounce_index s + 1 + j) mod len) = scan_matrix (ms ! j))"
    using assms(2) unfolding t_def
  proof (induction ms rule: rev_induct)
    case (snoc m ms)
    define u where "u = fold (keystate_update hook) ms s"
    have wu: "slots_wf u" using updates_wf [OF wf] by (simp add: u_def)
    have ih: "debounce_len u = debounce_len s" "ms \<noteq> [] \<longrightarrow> active_debounce_index u = (active_debounce_index s + length ms) mod len"
      "\<forall>j < length ms. debounce_bitfields u ! ((active_debounce_index s + 1 + j) mod len) = scan_matrix (ms ! j)"
      using snoc by (simp_all add: u_def)
    define a where "a = (active_debounce_index s + 1 + length ms) mod len"
    have act: "(active_debounce_index u + 1) mod len = a"
      using ih(2) by (cases "ms = []") (simp_all add: a_def u_def mod_Suc_eq)
    have lenp: "0 < len" "len \<le> length (debounce_bitfields u)"
      using wf wu ih(1) by (auto simp: slots_wf_def len_def word_less_nat_alt)
    have "a < len" using lenp(1) by (simp add: a_def)
    then have al: "a < length (debounce_bitfields u)" using lenp(2) by simp
    note e = keystate_update_effect [OF wu, of m, unfolded debounce_matrix_frame, folded u_def]
    have b: "debounce_bitfields (keystate_update hook m u) = (debounce_bitfields u)[a := scan_matrix m]"
      "active_debounce_index (keystate_update hook m u) = a"
      using e(4,8) act ih(1) by (simp_all add: len_def)
    have old: "(active_debounce_index s + 1 + j) mod len \<noteq> a" if "j < length ms" for j
    proof
      assume "(active_debounce_index s + 1 + j) mod len = a"
      then have "len dvd (active_debounce_index s + 1 + length ms) - (active_debounce_index s + 1 + j)"
        using that unfolding a_def by (intro iffD1 [OF mod_eq_dvd_iff_nat]) auto
      then show False using that snoc.prems by (auto simp: len_def dest!: dvd_imp_le)
    qed
    have "debounce_bitfields (keystate_update hook m u) ! ((active_debounce_index s + 1 + j) mod len) = scan_matrix ((ms @ [m]) ! j)"
      if "j < length (ms @ [m])" for j
    proof (cases "j < length ms")
      case True
      then have "(debounce_bitfields u)[a := scan_matrix m] ! ((active_debounce_index s + 1 + j) mod len)
          = debounce_bitfields u ! ((active_debounce_index s + 1 + j) mod len)"
        using old [OF True] by (intro nth_list_update_neq) auto
      then show ?thesis using ih(3) True by (simp add: b nth_append)
    next
      case False
      then have "j = length ms" using that by simp
      then show ?thesis using al by (simp add: b nth_append a_def)
    qed
    then show ?case using b(2) e(5) ih(1) by (simp add: u_def a_def)
  qed simp
  then show "debounce_len t = debounce_len s" "ms \<noteq> [] \<Longrightarrow> active_debounce_index t = (active_debounce_index s + length ms) mod len"
    "\<forall>j < length ms. debounce_bitfields t ! ((active_debounce_index s + 1 + j) mod len) = scan_matrix (ms ! j)" by auto
qed

lemma updates_debounce:
  assumes wf: "slots_wf s" and len: "length ms = unat (debounce_len s)" and k: "k < 88"
    and v: "\<forall>m\<in>set ms. reads m k \<longleftrightarrow> v"
  shows "k \<in> debounced (fold (keystate_update hook) ms s) \<longleftrightarrow> v"
proof -
  have pos: "0 < unat (debounce_len s)" using wf by (simp add: slots_wf_def word_less_nat_alt)
  obtain ms' m where ms: "ms = ms' @ [m]" using len pos by (cases ms rule: rev_cases) auto
  define u t where "u = fold (keystate_update hook) ms' s" and "t = fold (keystate_update hook) ms s"
  have wu: "slots_wf u" using updates_wf [OF wf] by (simp add: u_def)
  have t: "t = keystate_update hook m u" by (simp add: t_def u_def ms)
  note r = updates_ring [OF wf, of ms, folded t_def] and e = keystate_update_effect [OF wu, of m, folded t]
  have ul: "debounce_len u = debounce_len s" using r(1) e(5) len by simp
  have "get_bit (debounce_bitfields t ! i) k \<longleftrightarrow> v" if i: "i < unat (debounce_len s)" for i
  proof -
    let ?n = "unat (debounce_len s)" and ?a = "active_debounce_index s + 1"
    have "\<exists>j < ?n. (?a + j) mod ?n = i"
    proof (intro exI conjI)
      show "(i + (?n - ?a mod ?n)) mod ?n < ?n" using pos by simp
      have "(?a + (i + (?n - ?a mod ?n)) mod ?n) mod ?n = (?a mod ?n + (i + (?n - ?a mod ?n))) mod ?n"
        by (simp only: mod_add_left_eq mod_add_right_eq)
      also have "?a mod ?n + (i + (?n - ?a mod ?n)) = i + ?n"
        using mod_less_divisor [OF pos, of ?a] by linarith
      finally show "(?a + (i + (?n - ?a mod ?n)) mod ?n) mod ?n = i" using i by simp
    qed
    then obtain j where j: "j < length ms" "(?a + j) mod ?n = i" using len by auto
    then have "debounce_bitfields t ! i = scan_matrix (ms ! j)" using r(3) len by auto
    then show ?thesis using scan_matrix_bit [OF k] v j(1) by simp
  qed
  moreover have "get_bit (debounced_bitfield t) k \<longleftrightarrow>
      (if \<forall>i < unat (debounce_len s). get_bit (debounce_bitfields t ! i) k then True
       else if \<forall>i < unat (debounce_len s). \<not> get_bit (debounce_bitfields t ! i) k then False
       else get_bit (debounced_bitfield u) k)"
    unfolding e(3,4) ul [symmetric]
    by (rule debounce_matrix_bits(1) [OF k, where s = u, unfolded config_get_debounce_len_def])
      (use wf ul in \<open>simp add: slots_wf_def\<close>)
  ultimately have "get_bit (debounced_bitfield t) k \<longleftrightarrow> v" using pos by auto
  then show ?thesis using k by (simp add: debounced_def t_def)
qed

end

subsection \<open>The keyboard report\<close>

definition shown :: "key_state list \<Rightarrow> key_state list" where
  "shown slots = filter (\<lambda>k. state k \<and> \<not> hidden k) slots"

definition plain_codes :: "hid_keycode list \<Rightarrow> hid_keycode list" where
  "plain_codes hs = filter (\<lambda>h. h < HID_KEYBOARD_SC_LEFT_CONTROL) hs"

definition modifier_codes :: "hid_keycode list \<Rightarrow> hid_keycode list" where
  "modifier_codes hs = filter (\<lambda>h. HID_KEYBOARD_SC_LEFT_CONTROL \<le> h \<and> h < SPECIAL_HID_KEYS_START) hs"

lemma start_order: "HID_KEYBOARD_SC_LEFT_CONTROL < SPECIAL_HID_KEYS_START"
  by (simp add: HID_KEYBOARD_SC_LEFT_CONTROL_def SPECIAL_HID_KEYS_START_def)

lemma fill_slots_fits:
  assumes "u + length (plain_codes (map hid (shown ks))) < KEYBOARDREPORT_KEY_COUNT"
    and "SPECIAL_HID_KEY_PROGRAM \<notin> set (map hid (shown ks))" and "length (KeyCode r) = KEYBOARDREPORT_KEY_COUNT"
  shows "fill_slots hid ks r u ro =
    (r\<lparr>Modifier := fold (\<lambda>h m. m OR modifier_bit h) (modifier_codes (map hid (shown ks))) (Modifier r),
       KeyCode := take u (KeyCode r) @ plain_codes (map hid (shown ks))
         @ drop (u + length (plain_codes (map hid (shown ks)))) (KeyCode r)\<rparr>, ro)"
  using assms
proof (induction ks arbitrary: r u)
  case Nil
  then show ?case by (simp add: shown_def plain_codes_def modifier_codes_def)
next
  case (Cons k ks)
  define h where "h = hid k"
  show ?case
  proof (cases "state k \<and> \<not> hidden k")
    case False
    then have "shown (k # ks) = shown ks" "fill_slots hid (k # ks) r u ro = fill_slots hid ks r u ro"
      by (auto simp: shown_def)
    then show ?thesis using Cons by simp
  next
    case True
    then have sh: "shown (k # ks) = k # shown ks" by (simp add: shown_def)
    have u: "u \<noteq> KEYBOARDREPORT_KEY_COUNT" using Cons.prems(1) by simp
    have np: "h \<noteq> SPECIAL_HID_KEY_PROGRAM" using Cons.prems(2) sh by (auto simp: h_def)
    consider "SPECIAL_HID_KEYS_START \<le> h" | "HID_KEYBOARD_SC_LEFT_CONTROL \<le> h" "h < SPECIAL_HID_KEYS_START"
      | "h < HID_KEYBOARD_SC_LEFT_CONTROL" by (meson not_le)
    then show ?thesis
    proof cases
      case 1
      then have "\<not> h < HID_KEYBOARD_SC_LEFT_CONTROL" "\<not> h < SPECIAL_HID_KEYS_START" using start_order by auto
      then show ?thesis using Cons.IH [of u r] Cons.prems True u np 1
        by (simp add: sh plain_codes_def modifier_codes_def h_def [symmetric])
    next
      case 2
      then show ?thesis
        using Cons.IH [of u "r\<lparr>Modifier := Modifier r OR modifier_bit h\<rparr>"] Cons.prems True u np
        by (simp add: sh plain_codes_def modifier_codes_def h_def [symmetric] not_le [symmetric])
    next
      case 3
      then have lt: "\<not> SPECIAL_HID_KEYS_START \<le> h" "\<not> HID_KEYBOARD_SC_LEFT_CONTROL \<le> h" using start_order by auto
      have ul: "u < length (KeyCode r)" using Cons.prems by simp
      have "take (u + 1) ((KeyCode r)[u := h]) = take u (KeyCode r) @ [h]"
        using ul by (simp add: take_Suc_conv_app_nth)
      then show ?thesis
        using Cons.IH [of "u + 1" "r\<lparr>KeyCode := (KeyCode r)[u := h]\<rparr>"] Cons.prems True u np lt 3 ul
        by (simp add: sh plain_codes_def modifier_codes_def h_def [symmetric])
    qed
  qed
qed

lemma fill_slots_rollover:
  assumes "u \<le> KEYBOARDREPORT_KEY_COUNT"
    and "ro \<or> SPECIAL_HID_KEY_PROGRAM \<in> set (map hid (shown ks))
       \<or> KEYBOARDREPORT_KEY_COUNT < u + length (plain_codes (map hid (shown ks)))"
  shows "snd (fill_slots hid ks r u ro)"
  using assms
proof (induction ks arbitrary: r u ro)
  case (Cons k ks)
  define h where "h = hid k"
  show ?case
  proof (cases "state k \<and> \<not> hidden k")
    case False
    then have "shown (k # ks) = shown ks" "fill_slots hid (k # ks) r u ro = fill_slots hid ks r u ro"
      by (auto simp: shown_def)
    then show ?thesis using Cons by simp
  next
    case True
    then have sh: "shown (k # ks) = k # shown ks" by (simp add: shown_def)
    have lt: "h < HID_KEYBOARD_SC_LEFT_CONTROL \<Longrightarrow> \<not> SPECIAL_HID_KEYS_START \<le> h \<and> \<not> HID_KEYBOARD_SC_LEFT_CONTROL \<le> h"
      "SPECIAL_HID_KEYS_START \<le> h \<Longrightarrow> \<not> h < HID_KEYBOARD_SC_LEFT_CONTROL"
      using start_order by auto
    show ?thesis
    proof (cases "u = KEYBOARDREPORT_KEY_COUNT")
      case False
      have p: "plain_codes (map hid (shown (k # ks))) = (if h < HID_KEYBOARD_SC_LEFT_CONTROL then [h] else []) @ plain_codes (map hid (shown ks))"
        by (simp add: sh plain_codes_def h_def)
      have "set (map hid (shown (k # ks))) = insert h (set (map hid (shown ks)))" by (simp add: sh h_def)
      then show ?thesis using Cons.prems False True lt unfolding p
        by (auto simp: h_def [symmetric] Let_def not_le intro!: Cons.IH split: if_splits)
    qed (use True in simp)
  qed
qed (simp add: shown_def plain_codes_def)

lemma fold_modifier_bit:
  assumes "HID_KEYBOARD_SC_LEFT_CONTROL \<le> h" "h < SPECIAL_HID_KEYS_START"
  shows "fold (\<lambda>h m. m OR modifier_bit h) (modifier_codes hs) m AND modifier_bit h \<noteq> 0
    \<longleftrightarrow> m AND modifier_bit h \<noteq> 0 \<or> h \<in> set hs"
proof -
  have i: "unat (h - HID_KEYBOARD_SC_LEFT_CONTROL) = unat (h' - HID_KEYBOARD_SC_LEFT_CONTROL) \<longleftrightarrow> h' = h" for h'
    by (auto simp: word_unat_eq_iff [symmetric])
  have lt: "unat (h - HID_KEYBOARD_SC_LEFT_CONTROL) < 8"
  proof -
    have "unat (h - HID_KEYBOARD_SC_LEFT_CONTROL) = unat h - unat HID_KEYBOARD_SC_LEFT_CONTROL"
      using assms(1) by (rule unat_sub)
    then show ?thesis
      using assms(2) by (simp add: HID_KEYBOARD_SC_LEFT_CONTROL_def SPECIAL_HID_KEYS_START_def word_less_nat_alt)
  qed
  have "bit (fold (\<lambda>h m. m OR modifier_bit h) hs' m) (unat (h - HID_KEYBOARD_SC_LEFT_CONTROL))
    \<longleftrightarrow> bit m (unat (h - HID_KEYBOARD_SC_LEFT_CONTROL)) \<or> h \<in> set hs'" for hs'
  proof (induction hs' arbitrary: m)
    case (Cons a hs')
    show ?case using Cons [of "m OR modifier_bit a"] i [of a] lt by (auto simp: bit_or_iff bit_modifier_bit)
  qed simp
  then show ?thesis unfolding modifier_bit_and using assms by (auto simp: modifier_codes_def)
qed

subsection \<open>A sample keyboard\<close>

text \<open>One key is down, in the first slot, on the normal layer.\<close>

definition normal_layer_t :: layer_t where
  "normal_layer_t = \<lparr>base = False, lock = False, lid = 0\<rparr>"

definition one_key_down :: keystate_state where
  "one_key_down = config_state.extend (config_state.truncate remapped_config)
     (keystate_state.fields
        (\<lparr>p_key = 20, prev_state = True, state = True, hidden = False\<rparr> # replicate 13 empty_key_state)
        False 1 0 normal_layer_t normal_layer_t 0
        (replicate MAX_DEBOUNCE_LEN (set_bit (replicate BITFIELD_WORDS 0) 20))
        (replicate BITFIELD_WORDS 0) (set_bit (replicate BITFIELD_WORDS 0) 20) 0 0 0 0 0 0 0)"

lemma one_key_down_fields:
  "key_states one_key_down = \<lparr>p_key = 20, prev_state = True, state = True, hidden = False\<rparr> # replicate 13 empty_key_state"
  "layer one_key_down = normal_layer_t" "logical_to_hid_map one_key_down = logical_to_hid_map remapped_config"
  "key_press_count one_key_down = 1" "debounce_len one_key_down = 3"
  "debounced_bitfield one_key_down = set_bit (replicate BITFIELD_WORDS 0) 20"
  "debounce_bitfields one_key_down = replicate MAX_DEBOUNCE_LEN (set_bit (replicate BITFIELD_WORDS 0) 20)"
  "mouse_div one_key_down = 25" "cnt_move one_key_down = 0"
  by (simp_all add: one_key_down_def config_state.defs keystate_state.defs remapped_config_def macro_state.defs)

lemma get_bit_one_key: "k < 88 \<Longrightarrow> get_bit (set_bit (replicate BITFIELD_WORDS 0) 20) k \<longleftrightarrow> k = 20"
proof -
  assume "k < 88"
  then have "k div 8 < BITFIELD_WORDS"
    by (simp add: BITFIELD_WORDS_def KEYPAD_LAYER_SIZE_def BITFIELD_WORD_BITS_def less_mult_imp_div_less)
  then have "\<not> get_bit (replicate BITFIELD_WORDS 0) k" by (simp add: get_bit_iff)
  then show ?thesis
    by (subst get_bit_set_bit) (auto simp: BITFIELD_WORDS_def KEYPAD_LAYER_SIZE_def BITFIELD_WORD_BITS_def)
qed

lemma one_key_down_wf: "keystate_wf one_key_down"
proof -
  have "layer_keys (set_bit (replicate BITFIELD_WORDS 0) 20)"
    unfolding layer_keys_def using get_bit_one_key by (simp add: KEYPAD_LAYER_SIZE_def)
  moreover have "slots_ok (get_bit (debounced_bitfield one_key_down)) (key_states one_key_down)"
    using get_bit_one_key [of 20]
    by (auto simp: one_key_down_fields slots_ok_def slots_mid_def slot_keys_def occupied_def empty_key_state_def
        NO_KEY_def KEYSTATE_COUNT_def)
  moreover have "down_now (logical_to_hid_map one_key_down) (key_states one_key_down) = 1"
    by (simp add: one_key_down_fields down_now_def notified_def empty_key_state_def remapped_config_fields
        is_hid_key_to_notify_about_def SPECIAL_HID_KEY_LAYER_LOCK_def)
  ultimately show ?thesis
    by (simp add: keystate_wf_def one_key_down_fields list_all_iff MAX_DEBOUNCE_LEN_def normal_layer_t_def)
qed

lemma one_key_down_shown:
  "map (\<lambda>k. extract_keycode (layer one_key_down) k HID one_key_down) (shown (key_states one_key_down)) = [0x2A]"
  by (simp add: one_key_down_fields shown_def empty_key_state_def extract_keycode_def normal_layer_t_def
      config_get_definition_def remapped_config_fields)

subsection \<open>Properties of the reports\<close>

text \<open>
  C29: the keyboard report. With fewer than six ordinary keys down and no program key, the report holds
  the HID codes of the keys that are down and not hidden, in the order of the slots, and exactly their
  modifiers; with more than six ordinary keys, or while the program key is down, every key code is the
  rollover error, so nothing is typed.
\<close>

theorem keystate_report_lists_keys:
  fixes s :: "'a keystate_state_scheme"
  defines "hs \<equiv> map (\<lambda>k. extract_keycode (layer s) k HID s) (shown (key_states s))"
    and "r \<equiv> keystate_Fill_KeyboardReport s empty_report"
  shows "(length (plain_codes hs) < KEYBOARDREPORT_KEY_COUNT \<and> SPECIAL_HID_KEY_PROGRAM \<notin> set hs \<longrightarrow>
      KeyCode r = plain_codes hs @ replicate (KEYBOARDREPORT_KEY_COUNT - length (plain_codes hs)) 0
      \<and> (\<forall>h. HID_KEYBOARD_SC_LEFT_CONTROL \<le> h \<and> h < SPECIAL_HID_KEYS_START \<longrightarrow>
            (Modifier r AND modifier_bit h \<noteq> 0 \<longleftrightarrow> h \<in> set hs)))
    \<and> (KEYBOARDREPORT_KEY_COUNT < length (plain_codes hs) \<or> SPECIAL_HID_KEY_PROGRAM \<in> set hs \<longrightarrow>
      KeyCode r = replicate KEYBOARDREPORT_KEY_COUNT HID_KEYBOARD_SC_ERROR_ROLLOVER)"
proof (intro conjI impI)
  let ?hid = "\<lambda>k. extract_keycode (layer s) k HID s"
  assume a: "length (plain_codes hs) < KEYBOARDREPORT_KEY_COUNT \<and> SPECIAL_HID_KEY_PROGRAM \<notin> set hs"
  have e: "KeyCode empty_report = replicate KEYBOARDREPORT_KEY_COUNT 0" "Modifier empty_report = 0"
    by (simp_all add: empty_report_def)
  have "fill_slots ?hid (key_states s) empty_report 0 False =
     (empty_report\<lparr>Modifier := fold (\<lambda>h m. m OR modifier_bit h) (modifier_codes hs) 0,
        KeyCode := plain_codes hs @ replicate (KEYBOARDREPORT_KEY_COUNT - length (plain_codes hs)) 0\<rparr>, False)"
    using fill_slots_fits [of 0 ?hid "key_states s" empty_report False] a by (simp add: hs_def e)
  then have r: "r = empty_report\<lparr>Modifier := fold (\<lambda>h m. m OR modifier_bit h) (modifier_codes hs) 0,
        KeyCode := plain_codes hs @ replicate (KEYBOARDREPORT_KEY_COUNT - length (plain_codes hs)) 0\<rparr>"
    by (simp add: r_def keystate_Fill_KeyboardReport_def)
  show "KeyCode r = plain_codes hs @ replicate (KEYBOARDREPORT_KEY_COUNT - length (plain_codes hs)) 0"
    by (simp add: r)
  show "\<forall>h. HID_KEYBOARD_SC_LEFT_CONTROL \<le> h \<and> h < SPECIAL_HID_KEYS_START \<longrightarrow>
      (Modifier r AND modifier_bit h \<noteq> 0 \<longleftrightarrow> h \<in> set hs)"
    using fold_modifier_bit [of _ hs 0] by (simp add: r)
next
  assume "KEYBOARDREPORT_KEY_COUNT < length (plain_codes hs) \<or> SPECIAL_HID_KEY_PROGRAM \<in> set hs"
  then have "snd (fill_slots (\<lambda>k. extract_keycode (layer s) k HID s) (key_states s) empty_report 0 False)"
    by (intro fill_slots_rollover) (auto simp: hs_def)
  then show "KeyCode r = replicate KEYBOARDREPORT_KEY_COUNT HID_KEYBOARD_SC_ERROR_ROLLOVER"
    by (simp add: r_def keystate_Fill_KeyboardReport_def case_prod_beta)
qed

theorem keystate_report_lists_keys_witness:
  "KeyCode (keystate_Fill_KeyboardReport one_key_down empty_report) = [0x2A, 0, 0, 0, 0, 0]"
proof -
  have "plain_codes [0x2A] = [0x2A]" "SPECIAL_HID_KEY_PROGRAM \<notin> set [0x2A]"
    by (simp_all add: plain_codes_def HID_KEYBOARD_SC_LEFT_CONTROL_def SPECIAL_HID_KEY_PROGRAM_def)
  moreover have "replicate (KEYBOARDREPORT_KEY_COUNT - 1) (0 :: u8) = [0, 0, 0, 0, 0]" by code_simp
  ultimately show ?thesis
    using keystate_report_lists_keys [of one_key_down] unfolding one_key_down_shown
    by (simp add: KEYBOARDREPORT_KEY_COUNT_def)
qed

text \<open>
  A mouse divisor of 1 switches the mouse keys off. The counter then never becomes 1, so every
  mouse report repeats the last buttons and moves nothing, whatever keys are down. The divisor can be
  set to 1 from the keyboard.
\<close>

theorem mouse_div_one_stops_mouse:
  assumes "config_get_mouse_div s = 1"
  shows "keystate_Fill_MouseReport s report = (report\<lparr>Button := prev_button s\<rparr>, s\<lparr>cnt_move := 0\<rparr>)"
  using assms by (simp add: keystate_Fill_MouseReport_def config_get_mouse_div_def)

theorem mouse_div_one_stops_mouse_witness:
  "config_get_mouse_div (one_key_down\<lparr>mouse_div := 1\<rparr>) = 1
   \<and> fst (keystate_Fill_MouseReport (one_key_down\<lparr>mouse_div := 1\<rparr>) \<lparr>Button = 0, X = 0, Y = 0, VWheel = 0, HWheel = 0\<rparr>)
     = \<lparr>Button = 0, X = 0, Y = 0, VWheel = 0, HWheel = 0\<rparr>"
proof -
  have "config_get_mouse_div (one_key_down\<lparr>mouse_div := 1\<rparr>) = 1" by (simp add: config_get_mouse_div_def)
  then show ?thesis
    using mouse_div_one_stops_mouse [of "one_key_down\<lparr>mouse_div := 1\<rparr>"]
    by (simp add: one_key_down_def config_state.defs keystate_state.defs)
qed

end
