(* ===== verification/Interpreter.thy ===== *)
theory Interpreter
  imports Keystate "HOL-Library.Signed_Division" "HOL-Library.Monad_Syntax"
begin

text \<open>
  \<open>interpreter.c\<close>: six virtual machines that run bytecode from the internal EEPROM. Each machine has a
  stack of 96 bytes that holds the globals, the frames and the operands. Pointers into the stack are
  kept as offsets from its start, pointers into the program storage as offsets from \<open>programs\<close>; no
  instruction is at offset 0, so 0 is the null pointer. An access outside the stack, a division by
  zero and a shift by a negative amount or by more than 15 are undefined in C: the model returns
  \<open>None\<close> for them. Reading the internal EEPROM never fails.
\<close>

subsection \<open>State\<close>

definition STACK_SIZE :: int where "STACK_SIZE = 96"

datatype vm_run_state = VMSTOPPED | VMCRASHED | VMNOPROGRAM | VMRUNNING | VMWAITREPORT | VMWAITMOUSEREPORT
  | VMDELAY | VMWAITKEY | VMWAITPHYSKEY

record vmstate =
  vm_state :: vm_run_state
  delay_end_ms :: u32
  wait_key :: hid_keycode
  trigger_lkey :: logical_keycode
  keyboardreport :: ExtraKeyboardReport
  mousereport :: MouseReport_Data
  vm_program :: u16
  code :: u16
  ip :: u16
  stack_top :: int
  current_frame :: int
  stack :: "u8 list"

record interpreter_state = keystate_state +
  vms :: "vmstate list"
  uptimems :: u32

text \<open>\<open>state >= VMRUNNING\<close>.\<close>

definition vm_live :: "vm_run_state \<Rightarrow> bool" where
  "vm_live st \<longleftrightarrow> st \<notin> {VMSTOPPED, VMCRASHED, VMNOPROGRAM}"

subsection \<open>Program storage and stack\<close>

definition READ_BYTE :: "'a config_state_scheme \<Rightarrow> u16 \<Rightarrow> u8" where
  "READ_BYTE s a = programs s (unat a)"

definition READ_SHORT :: "'a config_state_scheme \<Rightarrow> u16 \<Rightarrow> u16" where
  "READ_SHORT s a = short_of_bytes [READ_BYTE s a, READ_BYTE s (a + 1)]"

definition NEXTINSTR :: "'a config_state_scheme \<Rightarrow> vmstate \<Rightarrow> u8 \<times> vmstate" where
  "NEXTINSTR s vm = (READ_BYTE s (ip vm), vm\<lparr>ip := ip vm + 1\<rparr>)"

definition NEXTSHORT :: "'a config_state_scheme \<Rightarrow> vmstate \<Rightarrow> u16 \<times> vmstate" where
  "NEXTSHORT s vm = (READ_SHORT s (ip vm), vm\<lparr>ip := ip vm + 2\<rparr>)"

definition stack_get :: "int \<Rightarrow> vmstate \<Rightarrow> u8 option" where
  "stack_get i vm = (if 0 \<le> i \<and> i < STACK_SIZE then Some (stack vm ! nat i) else None)"

definition stack_put :: "int \<Rightarrow> u8 \<Rightarrow> vmstate \<Rightarrow> vmstate option" where
  "stack_put i v vm = (if 0 \<le> i \<and> i < STACK_SIZE then Some (vm\<lparr>stack := (stack vm)[nat i := v]\<rparr>) else None)"

text \<open>\<open>AS_SHORT\<close> of the byte at an offset, low byte first.\<close>

definition stack_get_short :: "int \<Rightarrow> vmstate \<Rightarrow> u16 option" where
  "stack_get_short i vm = do { lo \<leftarrow> stack_get i vm; hi \<leftarrow> stack_get (i + 1) vm; Some (short_of_bytes [lo, hi]) }"

definition stack_put_short :: "int \<Rightarrow> u16 \<Rightarrow> vmstate \<Rightarrow> vmstate option" where
  "stack_put_short i v vm = do {
     vm \<leftarrow> stack_put i (bytes_of_short v ! 0) vm; stack_put (i + 1) (bytes_of_short v ! 1) vm }"

definition TOP_BYTE :: "vmstate \<Rightarrow> u8 option" where
  "TOP_BYTE vm = stack_get (stack_top vm) vm"

definition POP_BYTE :: "vmstate \<Rightarrow> (u8 \<times> vmstate) option" where
  "POP_BYTE vm = do { b \<leftarrow> TOP_BYTE vm; Some (b, vm\<lparr>stack_top := stack_top vm - 1\<rparr>) }"

definition PUSH_BYTE :: "u8 \<Rightarrow> vmstate \<Rightarrow> vmstate option" where
  "PUSH_BYTE val vm = stack_put (stack_top vm + 1) val (vm\<lparr>stack_top := stack_top vm + 1\<rparr>)"

definition TOP_SHORT :: "vmstate \<Rightarrow> u16 option" where
  "TOP_SHORT vm = stack_get_short (stack_top vm - 1) vm"

definition POP_SHORT :: "vmstate \<Rightarrow> (u16 \<times> vmstate) option" where
  "POP_SHORT vm = do { v \<leftarrow> TOP_SHORT vm; Some (v, vm\<lparr>stack_top := stack_top vm - 2\<rparr>) }"

definition PUSH_SHORT :: "u16 \<Rightarrow> vmstate \<Rightarrow> vmstate option" where
  "PUSH_SHORT val vm = stack_put_short (stack_top vm + 1) val (vm\<lparr>stack_top := stack_top vm + 2\<rparr>)"

text \<open>
  A frame: return address, return stack pointer, previous frame, two bytes each, then the locals.
  A local is addressed by a signed byte.
\<close>

definition frame_size :: int where "frame_size = 7"

definition local_addr :: "vmstate \<Rightarrow> u8 \<Rightarrow> int" where
  "local_addr vm n = current_frame vm + 6 + sint n"

subsection \<open>Starting\<close>

definition vm_init_vm :: "u16 \<Rightarrow> 'a config_state_scheme \<Rightarrow> vmstate" where
  "vm_init_vm p s =
     (let nmethods = READ_BYTE s (p + 1) in
      \<lparr>vm_state = VMSTOPPED, delay_end_ms = 0, wait_key = 0, trigger_lkey = 0,
       keyboardreport = ExtraKeyboardReport_clear,
       mousereport = \<lparr>Button = 0, X = 0, Y = 0, VWheel = 0, HWheel = 0\<rparr>,
       vm_program = p, code = p + 6 + 4 * (ucast nmethods - 1), ip = 0,
       stack_top = 0, current_frame = 0, stack = replicate (nat STACK_SIZE) 0\<rparr>)"

text \<open>The result is 0 when the machine was started, 1 when it cannot be.\<close>

definition vm_start_vm :: "vmstate \<Rightarrow> logical_keycode \<Rightarrow> 'a config_state_scheme \<Rightarrow> (u8 \<times> vmstate) option" where
  "vm_start_vm vm trigger s =
     (if vm_state vm = VMNOPROGRAM \<or> vm_live (vm_state vm) then Some (1, vm)
      else do {
        let vm = vm\<lparr>vm_state := VMRUNNING, trigger_lkey := trigger\<rparr>;
        let p = vm_program vm;
        let nglobals = READ_BYTE s p;
        let nlocals = READ_BYTE s (p + 3);
        let code_offset = READ_SHORT s (p + 4);
        let vm = vm\<lparr>ip := code vm + code_offset, current_frame := uint nglobals\<rparr>;
        vm \<leftarrow> stack_put_short (current_frame vm) 0 vm;
        vm \<leftarrow> stack_put_short (current_frame vm + 4) 0 vm;
        Some (0, vm\<lparr>stack_top := current_frame vm + frame_size + (uint nlocals - 1)\<rparr>) })"

definition vm_init :: "'a interpreter_state_scheme \<Rightarrow> 'a interpreter_state_scheme" where
  "vm_init s = s\<lparr>vms := map (\<lambda>i. case config_get_program (of_nat i) s of
       Some p \<Rightarrow> vm_init_vm (of_nat p) s | None \<Rightarrow> (vms s ! i)\<lparr>vm_state := VMNOPROGRAM\<rparr>) [0..<PROGRAM_COUNT]\<rparr>"

text \<open>An index outside \<open>vms\<close> is undefined.\<close>

definition vm_start :: "u8 \<Rightarrow> logical_keycode \<Rightarrow> 'a interpreter_state_scheme \<Rightarrow> (u8 \<times> 'a interpreter_state_scheme) option" where
  "vm_start idx trigger s =
     (if unat idx < PROGRAM_COUNT then do {
        (r, vm) \<leftarrow> vm_start_vm (vms s ! unat idx) trigger s;
        Some (r, s\<lparr>vms := (vms s)[unat idx := vm]\<rparr>) }
      else None)"

subsection \<open>Operators\<close>

text \<open>
  The operators on signed bytes and shorts. Operands are promoted to \<open>int\<close> and the result is cut to
  the type of the destination; sixteen-bit overflow wraps.
\<close>

definition shift_ok :: "u8 \<Rightarrow> bool" where
  "shift_ok n \<longleftrightarrow> 0 \<le> sint n \<and> sint n < 16"

definition vm_binop_byte :: "u8 \<Rightarrow> u8 \<Rightarrow> u8 \<Rightarrow> u8 option" where
  "vm_binop_byte instr a b =
     (if instr = 48 then Some (a + b)
      else if instr = 49 then Some (a - b)
      else if instr = 50 then Some (a * b)
      else if instr = 51 then (if b = 0 then None else Some (word_of_int (sint a sdiv sint b)))
      else if instr = 52 then (if b = 0 then None else Some (word_of_int (sint a smod sint b)))
      else if instr = 53 then Some (a AND b)
      else if instr = 54 then Some (a OR b)
      else if instr = 55 then Some (a XOR b)
      else if instr = 57 then Some (if sint a > sint b then 1 else if a = b then 0 else -1)
      else if instr = 58 then (if shift_ok b then Some (push_bit (nat (sint b)) a) else None)
      else if instr = 59 then (if shift_ok b then Some (word_of_int (sint a div 2 ^ nat (sint b))) else None)
      else None)"

definition vm_binop_short :: "u8 \<Rightarrow> u16 \<Rightarrow> u16 \<Rightarrow> u16 option" where
  "vm_binop_short instr a b =
     (if instr = 60 then Some (a + b)
      else if instr = 61 then Some (a - b)
      else if instr = 62 then Some (a * b)
      else if instr = 63 then (if b = 0 then None else Some (word_of_int (sint a sdiv sint b)))
      else if instr = 64 then (if b = 0 then None else Some (word_of_int (sint a smod sint b)))
      else if instr = 65 then Some (a AND b)
      else if instr = 66 then Some (a OR b)
      else if instr = 67 then Some (a XOR b)
      else None)"

definition vm_if_check :: "u8 \<Rightarrow> u8 \<Rightarrow> bool" where
  "vm_if_check instr val =
     (if instr = 74 then val = 0
      else if instr = 75 then val \<noteq> 0
      else if instr = 76 then sint val < 0
      else if instr = 77 then sint val > 0
      else if instr = 78 then sint val \<ge> 0
      else if instr = 79 then sint val \<le> 0
      else False)"

subsection \<open>Instructions\<close>

text \<open>Stores to locals (0--9) and loads from locals (10--19).\<close>

definition vm_local_operand :: "u8 \<Rightarrow> u8 \<Rightarrow> 'a config_state_scheme \<Rightarrow> vmstate \<Rightarrow> u8 \<times> vmstate" where
  "vm_local_operand first instr s vm = (if instr = first then NEXTINSTR s vm else (instr - first - 1, vm))"

definition vm_exec_store :: "u8 \<Rightarrow> 'a config_state_scheme \<Rightarrow> vmstate \<Rightarrow> vmstate option" where
  "vm_exec_store instr s vm =
     (if instr \<le> 4 then
        let (n, vm) = vm_local_operand 0 instr s vm in
        do { (b, vm) \<leftarrow> POP_BYTE vm; stack_put (local_addr vm n) b vm }
      else
        let (n, vm) = vm_local_operand 5 instr s vm in
        do { (v, vm) \<leftarrow> POP_SHORT vm; stack_put_short (local_addr vm n) v vm })"

definition vm_exec_load :: "u8 \<Rightarrow> 'a config_state_scheme \<Rightarrow> vmstate \<Rightarrow> vmstate option" where
  "vm_exec_load instr s vm =
     (if instr \<le> 14 then
        let (n, vm) = vm_local_operand 10 instr s vm in
        do { b \<leftarrow> stack_get (local_addr vm n) vm; PUSH_BYTE b vm }
      else
        let (n, vm) = vm_local_operand 15 instr s vm in
        do { v \<leftarrow> stack_get_short (local_addr vm n) vm; PUSH_SHORT v vm })"

text \<open>Globals (20--23).\<close>

definition vm_exec_global :: "u8 \<Rightarrow> 'a config_state_scheme \<Rightarrow> vmstate \<Rightarrow> vmstate option" where
  "vm_exec_global instr s vm =
     (let (n, vm) = NEXTINSTR s vm; addr = sint n in
      if instr = 20 then do { (b, vm) \<leftarrow> POP_BYTE vm; stack_put addr b vm }
      else if instr = 21 then do { b \<leftarrow> stack_get addr vm; PUSH_BYTE b vm }
      else if instr = 22 then do { (v, vm) \<leftarrow> POP_SHORT vm; stack_put_short addr v vm }
      else do { v \<leftarrow> stack_get_short addr vm; PUSH_SHORT v vm })"

text \<open>Constants (24--33) and the stack (34--38).\<close>

definition vm_exec_const :: "u8 \<Rightarrow> 'a config_state_scheme \<Rightarrow> vmstate \<Rightarrow> vmstate option" where
  "vm_exec_const instr s vm =
     (if instr = 24 then let (c, vm) = NEXTINSTR s vm in PUSH_BYTE c vm
      else if instr \<le> 28 then PUSH_BYTE (instr - 25) vm
      else if instr = 29 then let (v, vm) = NEXTSHORT s vm in PUSH_SHORT v vm
      else PUSH_SHORT (ucast (instr - 30)) vm)"

definition vm_exec_stack :: "u8 \<Rightarrow> vmstate \<Rightarrow> vmstate option" where
  "vm_exec_stack instr vm =
     (if instr = 34 then do { b \<leftarrow> TOP_BYTE vm; PUSH_BYTE b vm }
      else if instr = 35 then do { v \<leftarrow> TOP_SHORT vm; PUSH_SHORT v vm }
      else if instr = 36 then do { (b, vm) \<leftarrow> POP_BYTE vm; Some vm }
      else if instr = 37 then do { (b, vm) \<leftarrow> POP_BYTE vm; (b, vm) \<leftarrow> POP_BYTE vm; Some vm }
      else do {
        top \<leftarrow> TOP_BYTE vm; below \<leftarrow> stack_get (stack_top vm - 1) vm;
        vm \<leftarrow> stack_put (stack_top vm) below vm; stack_put (stack_top vm - 1) top vm })"

text \<open>Arithmetic (48--71) and conversions (72, 73).\<close>

definition vm_exec_byte_arith :: "u8 \<Rightarrow> vmstate \<Rightarrow> vmstate option" where
  "vm_exec_byte_arith instr vm =
     (if instr = 56 then do { (x, vm) \<leftarrow> POP_BYTE vm; PUSH_BYTE (NOT x) vm }
      else do {
        (b, vm) \<leftarrow> POP_BYTE vm; (a, vm) \<leftarrow> POP_BYTE vm;
        r \<leftarrow> vm_binop_byte instr a b; PUSH_BYTE r vm })"

definition vm_exec_short_arith :: "u8 \<Rightarrow> vmstate \<Rightarrow> vmstate option" where
  "vm_exec_short_arith instr vm =
     (if instr = 68 then do { (x, vm) \<leftarrow> POP_SHORT vm; PUSH_SHORT (NOT x) vm }
      else if instr = 69 then do {
        (b, vm) \<leftarrow> POP_SHORT vm; (a, vm) \<leftarrow> POP_SHORT vm;
        PUSH_BYTE (if sint a > sint b then 1 else if a = b then 0 else -1) vm }
      else if instr = 70 then do {
        (n, vm) \<leftarrow> POP_BYTE vm; (v, vm) \<leftarrow> POP_SHORT vm;
        if shift_ok n then PUSH_SHORT (push_bit (nat (sint n)) v) vm else None }
      else if instr = 71 then do {
        (n, vm) \<leftarrow> POP_BYTE vm; (v, vm) \<leftarrow> POP_SHORT vm;
        if shift_ok n then PUSH_SHORT (word_of_int (sint v div 2 ^ nat (sint n))) vm else None }
      else do {
        (b, vm) \<leftarrow> POP_SHORT vm; (a, vm) \<leftarrow> POP_SHORT vm;
        r \<leftarrow> vm_binop_short instr a b; PUSH_SHORT r vm })"

definition vm_exec_convert :: "u8 \<Rightarrow> vmstate \<Rightarrow> vmstate option" where
  "vm_exec_convert instr vm =
     (if instr = 72 then do { (b, vm) \<leftarrow> POP_BYTE vm; PUSH_SHORT (scast b) vm }
      else do { (v, vm) \<leftarrow> POP_SHORT vm; PUSH_BYTE (ucast v) vm })"

text \<open>Control flow (74--86).\<close>

definition vm_do_return :: "vmstate \<Rightarrow> vmstate option" where
  "vm_do_return vm = do {
     rs \<leftarrow> stack_get_short (current_frame vm + 2) vm;
     ra \<leftarrow> stack_get_short (current_frame vm) vm;
     pf \<leftarrow> stack_get_short (current_frame vm + 4) vm;
     Some (vm\<lparr>stack_top := uint rs, ip := ra, current_frame := uint pf\<rparr>) }"

definition vm_goto :: "'a config_state_scheme \<Rightarrow> vmstate \<Rightarrow> vmstate" where
  "vm_goto s vm = (let (offset, vm) = NEXTSHORT s vm in vm\<lparr>ip := ip vm + (offset - 3)\<rparr>)"

text \<open>The arguments of a call, last one popped first.\<close>

fun pop_args :: "nat \<Rightarrow> u8 list \<Rightarrow> vmstate \<Rightarrow> (u8 list \<times> vmstate) option" where
  "pop_args 0 args vm = Some (args, vm)"
| "pop_args (Suc n) args vm = do { (arg, vm) \<leftarrow> POP_BYTE vm; pop_args n (arg # args) vm }"

fun put_args :: "int \<Rightarrow> u8 list \<Rightarrow> vmstate \<Rightarrow> vmstate option" where
  "put_args i [] vm = Some vm"
| "put_args i (a # args) vm = do { vm \<leftarrow> stack_put i a vm; put_args (i + 1) args vm }"

definition vm_call :: "'a config_state_scheme \<Rightarrow> vmstate \<Rightarrow> vmstate option" where
  "vm_call s vm =
     (let (methodid, vm) = NEXTINSTR s vm;
          m = vm_program vm + 2 + 4 * scast methodid;
          nargs = READ_BYTE s m; nlocals = READ_BYTE s (m + 1); code_offset = READ_SHORT s (m + 2)
      in do {
        (args, vm) \<leftarrow> pop_args (unat nargs) [] vm;
        let vm = vm\<lparr>stack_top := stack_top vm + 1\<rparr>;
        let new_frame = stack_top vm;
        vm \<leftarrow> stack_put_short new_frame (ip vm) vm;
        vm \<leftarrow> stack_put_short (new_frame + 2) (word_of_int (stack_top vm - 1)) vm;
        vm \<leftarrow> stack_put_short (new_frame + 4) (word_of_int (current_frame vm)) vm;
        vm \<leftarrow> put_args (new_frame + 6) args vm;
        Some (vm\<lparr>current_frame := new_frame, stack_top := stack_top vm + frame_size + uint nlocals - 1,
                 ip := code vm + code_offset\<rparr>) })"

definition vm_exec_return :: "u8 \<Rightarrow> vmstate \<Rightarrow> vmstate option" where
  "vm_exec_return instr vm = do {
     ra \<leftarrow> stack_get_short (current_frame vm) vm;
     if ra = 0 then Some (vm\<lparr>vm_state := VMSTOPPED\<rparr>)
     else if instr = 83 then do { (rv, vm) \<leftarrow> POP_BYTE vm; vm \<leftarrow> vm_do_return vm; PUSH_BYTE rv vm }
     else if instr = 84 then do { (rv, vm) \<leftarrow> POP_SHORT vm; vm \<leftarrow> vm_do_return vm; PUSH_SHORT rv vm }
     else vm_do_return vm }"

definition vm_exec_control :: "u8 \<Rightarrow> 'a config_state_scheme \<Rightarrow> vmstate \<Rightarrow> vmstate option" where
  "vm_exec_control instr s vm =
     (if instr \<le> 79 then do {
        (val, vm) \<leftarrow> POP_BYTE vm;
        if \<not> vm_if_check instr val then Some (vm\<lparr>ip := ip vm + 2\<rparr>) else Some (vm_goto s vm) }
      else if instr = 80 then Some (vm_goto s vm)
      else if instr = 81 then Some vm
      else if instr = 82 then vm_call s vm
      else if instr \<le> 85 then vm_exec_return instr vm
      else Some (vm\<lparr>vm_state := VMSTOPPED\<rparr>))"

subsection \<open>System calls\<close>

text \<open>Keys and mouse buttons (87--90, 100--102); they read the key state and change the machine only.\<close>

definition vm_exec_keys :: "u8 \<Rightarrow> 'a keystate_state_scheme \<Rightarrow> vmstate \<Rightarrow> vmstate option" where
  "vm_exec_keys instr s vm =
     (if instr = 87 then do {
        (key, vm) \<leftarrow> POP_BYTE vm;
        if key \<ge> SPECIAL_HID_KEYS_START then Some vm
        else Some (vm\<lparr>keyboardreport := ExtraKeyboardReport_add (keyboardreport vm) key, vm_state := VMWAITREPORT\<rparr>) }
      else if instr = 88 then do {
        (key, vm) \<leftarrow> POP_BYTE vm;
        Some (vm\<lparr>keyboardreport := ExtraKeyboardReport_remove (keyboardreport vm) key, vm_state := VMWAITREPORT\<rparr>) }
      else if instr = 89 then do {
        (key, vm) \<leftarrow> POP_BYTE vm;
        PUSH_BYTE (if keystate_check_hid_key key s \<noteq> NO_KEY then 1 else 0) vm }
      else if instr = 90 then do {
        (lkey, vm) \<leftarrow> POP_BYTE vm;
        let lkey = (if lkey = 0 then trigger_lkey vm else lkey);
        PUSH_BYTE (if keystate_check_key lkey LOGICAL s then 1 else 0) vm }
      else if instr = 100 then do {
        (y, vm) \<leftarrow> POP_BYTE vm; (x, vm) \<leftarrow> POP_BYTE vm;
        Some (vm\<lparr>mousereport := (mousereport vm)\<lparr>X := x, Y := y\<rparr>, vm_state := VMWAITMOUSEREPORT\<rparr>) }
      else do {
        (mask, vm) \<leftarrow> POP_BYTE vm;
        let mask = mask AND 0x1F;
        let b = (if instr = 101 then Button (mousereport vm) OR mask else Button (mousereport vm) AND NOT mask);
        Some (vm\<lparr>mousereport := (mousereport vm)\<lparr>Button := b\<rparr>, vm_state := VMWAITMOUSEREPORT\<rparr>) })"

text \<open>Time (91, 92, 95--97).\<close>

definition vm_exec_time :: "u8 \<Rightarrow> 'a interpreter_state_scheme \<Rightarrow> vmstate \<Rightarrow> vmstate option" where
  "vm_exec_time instr s vm =
     (if instr = 91 \<or> instr = 92 then do {
        let vm = vm\<lparr>vm_state := if instr = 91 then VMWAITKEY else VMWAITPHYSKEY\<rparr>;
        (delay, vm) \<leftarrow> POP_SHORT vm; (key, vm) \<leftarrow> POP_BYTE vm;
        Some (vm\<lparr>wait_key := key, delay_end_ms := if sint delay \<le> 0 then 0 else uptimems s + ucast delay\<rparr>) }
      else if instr = 95 then do {
        (delay, vm) \<leftarrow> POP_SHORT vm;
        let delay = (if sint delay < 0 then 0 else delay);
        Some (vm\<lparr>delay_end_ms := uptimems s + ucast delay, vm_state := VMDELAY\<rparr>) }
      else if instr = 96 then PUSH_SHORT (ucast (uptimems s AND 0x7FFF)) vm
      else PUSH_SHORT (ucast ((uptimems s div 1000) AND 0x7FFF)) vm)"

text \<open>The buzzer (98, 99), the one system call that changes more than the machine.\<close>

definition vm_exec_buzz :: "u8 \<Rightarrow> 'a interpreter_state_scheme \<Rightarrow> vmstate \<Rightarrow> (vmstate \<times> 'a interpreter_state_scheme) option" where
  "vm_exec_buzz instr s vm = do {
     (freq, vm) \<leftarrow> (if instr = 99 then POP_BYTE vm else Some (BUZZER_DEFAULT_TONE, vm));
     (delay, vm) \<leftarrow> POP_SHORT vm;
     Some (vm, if sint delay > 0 then buzzer_start_f delay freq s else s) }"

subsection \<open>Stepping\<close>

text \<open>The switch over the opcodes; opcodes without a case do nothing.\<close>

definition vm_exec :: "u8 \<Rightarrow> 'a interpreter_state_scheme \<Rightarrow> vmstate \<Rightarrow> (vmstate \<times> 'a interpreter_state_scheme) option" where
  "vm_exec instr s vm =
     (if instr = 98 \<or> instr = 99 then vm_exec_buzz instr s vm
      else map_option (\<lambda>vm. (vm, s))
       (if instr \<le> 9 then vm_exec_store instr s vm
        else if instr \<le> 19 then vm_exec_load instr s vm
        else if instr \<le> 23 then vm_exec_global instr s vm
        else if instr \<le> 33 then vm_exec_const instr s vm
        else if instr \<le> 38 then vm_exec_stack instr vm
        else if instr \<le> 47 then Some vm
        else if instr \<le> 59 then vm_exec_byte_arith instr vm
        else if instr \<le> 71 then vm_exec_short_arith instr vm
        else if instr \<le> 73 then vm_exec_convert instr vm
        else if instr \<le> 86 then vm_exec_control instr s vm
        else if instr \<le> 90 \<or> 100 \<le> instr \<and> instr \<le> 102 then vm_exec_keys instr s vm
        else if instr = 91 \<or> instr = 92 \<or> 95 \<le> instr \<and> instr \<le> 97 then vm_exec_time instr s vm
        else Some vm))"

definition vm_fetch_exec :: "'a interpreter_state_scheme \<Rightarrow> vmstate \<Rightarrow> (vmstate \<times> 'a interpreter_state_scheme) option" where
  "vm_fetch_exec s vm = (let (instr, vm) = NEXTINSTR s vm in vm_exec instr s vm)"

definition timed_out :: "'a interpreter_state_scheme \<Rightarrow> vmstate \<Rightarrow> bool" where
  "timed_out s vm \<longleftrightarrow> delay_end_ms vm \<noteq> 0 \<and> uptimems s > delay_end_ms vm"

definition vm_step :: "'a interpreter_state_scheme \<Rightarrow> vmstate \<Rightarrow> (vmstate \<times> 'a interpreter_state_scheme) option" where
  "vm_step s vm =
     (if \<not> vm_live (vm_state vm) then Some (vm, s)
      else if stack_top vm > STACK_SIZE - 2 then Some (vm\<lparr>vm_state := VMCRASHED\<rparr>, s)
      else case vm_state vm of
        VMWAITREPORT \<Rightarrow> Some (vm, s)
      | VMWAITMOUSEREPORT \<Rightarrow> Some (vm, s)
      | VMWAITPHYSKEY \<Rightarrow>
          (let vm = (if wait_key vm = 0 then vm\<lparr>wait_key := trigger_lkey vm\<rparr> else vm);
               is_pressed = keystate_check_key (wait_key vm) LOGICAL s
           in if is_pressed \<or> timed_out s vm
              then do { vm \<leftarrow> PUSH_BYTE (if is_pressed then 1 else 0) vm;
                        Some (vm\<lparr>delay_end_ms := 0, vm_state := VMRUNNING\<rparr>, s) }
              else Some (vm, s))
      | VMWAITKEY \<Rightarrow>
          (let r = keystate_check_hid_key (wait_key vm) s
           in if r \<noteq> NO_KEY \<or> timed_out s vm
              then do { vm \<leftarrow> PUSH_BYTE (if r \<noteq> NO_KEY then r else 0) vm;
                        Some (vm\<lparr>delay_end_ms := 0, vm_state := VMRUNNING\<rparr>, s) }
              else Some (vm, s))
      | VMDELAY \<Rightarrow>
          (if uptimems s > delay_end_ms vm
           then vm_fetch_exec s (vm\<lparr>delay_end_ms := 0, vm_state := VMRUNNING\<rparr>)
           else Some (vm, s))
      | _ \<Rightarrow> vm_fetch_exec s vm)"

text \<open>One round over all machines.\<close>

fun vm_step_from :: "nat list \<Rightarrow> 'a interpreter_state_scheme \<Rightarrow> 'a interpreter_state_scheme option" where
  "vm_step_from [] s = Some s"
| "vm_step_from (i # is) s =
     (if vm_live (vm_state (vms s ! i))
      then do { (vm, s) \<leftarrow> vm_step s (vms s ! i); vm_step_from is (s\<lparr>vms := (vms s)[i := vm]\<rparr>) }
      else vm_step_from is s)"

definition vm_step_all :: "'a interpreter_state_scheme \<Rightarrow> 'a interpreter_state_scheme option" where
  "vm_step_all s = vm_step_from [0..<PROGRAM_COUNT] s"

subsection \<open>Reports\<close>

definition vm_report_slot :: "nat \<Rightarrow> KeyboardReport_Data \<times> 'a interpreter_state_scheme
    \<Rightarrow> KeyboardReport_Data \<times> 'a interpreter_state_scheme" where
  "vm_report_slot i = (\<lambda>(report, s). let vm = vms s ! i in
     if \<not> vm_live (vm_state vm) then (report, s)
     else let vm = (if vm_state vm = VMWAITREPORT then vm\<lparr>vm_state := VMRUNNING\<rparr> else vm)
          in (ExtraKeyboardReport_append (keyboardreport vm) report, s\<lparr>vms := (vms s)[i := vm]\<rparr>))"

definition vm_append_KeyboardReport :: "KeyboardReport_Data \<Rightarrow> 'a interpreter_state_scheme
    \<Rightarrow> KeyboardReport_Data \<times> 'a interpreter_state_scheme" where
  "vm_append_KeyboardReport report s = fold vm_report_slot [0..<PROGRAM_COUNT] (report, s)"

definition addT :: "u8 \<Rightarrow> u8 \<Rightarrow> u8" where
  "addT x y = (let s = sint x + sint y in if s > 127 then 127 else if s < -128 then -128 else word_of_int s)"

definition vm_mouse_slot :: "nat \<Rightarrow> MouseReport_Data \<times> 'a interpreter_state_scheme
    \<Rightarrow> MouseReport_Data \<times> 'a interpreter_state_scheme" where
  "vm_mouse_slot i = (\<lambda>(report, s). let vm = vms s ! i in
     if \<not> vm_live (vm_state vm) then (report, s)
     else let vm = (if vm_state vm = VMWAITMOUSEREPORT then vm\<lparr>vm_state := VMRUNNING\<rparr> else vm);
              mr = mousereport vm;
              report = report\<lparr>X := addT (X report) (X mr), Y := addT (Y report) (Y mr)\<rparr>;
              vm = vm\<lparr>mousereport := mr\<lparr>X := 0, Y := 0\<rparr>\<rparr>
          in (report\<lparr>Button := Button report OR Button mr\<rparr>, s\<lparr>vms := (vms s)[i := vm]\<rparr>))"

definition vm_append_MouseReport :: "MouseReport_Data \<Rightarrow> 'a interpreter_state_scheme
    \<Rightarrow> MouseReport_Data \<times> 'a interpreter_state_scheme" where
  "vm_append_MouseReport report s = fold vm_mouse_slot [0..<PROGRAM_COUNT] (report, s)"

end
