(* ===== verification/InterpreterCorrect.thy ===== *)
theory InterpreterCorrect
  imports Interpreter KeystateCorrect
begin

text \<open>
  The virtual machines: the operand stack of a frame as a list, the instructions as operations on that
  list, calls and returns, waiting, and the independence of the machines.
\<close>

subsection \<open>The operand stack as a list\<close>

text \<open>The operands from offset \<open>b\<close> on, top first.\<close>

definition operands :: "nat \<Rightarrow> vmstate \<Rightarrow> u8 list" where
  "operands b vm = rev (drop b (take (nat (stack_top vm + 1)) (stack vm)))"

text \<open>The operands start at \<open>b\<close>, inside the stack.\<close>

definition stack_wf :: "nat \<Rightarrow> vmstate \<Rightarrow> bool" where
  "stack_wf b vm \<longleftrightarrow> length (stack vm) = nat STACK_SIZE \<and> int b \<le> stack_top vm + 1 \<and> stack_top vm < STACK_SIZE"

text \<open>Everything but the operands.\<close>

definition below :: "nat \<Rightarrow> vmstate \<Rightarrow> vmstate" where
  "below b vm = vm\<lparr>stack_top := 0, stack := take b (stack vm)\<rparr>"

lemma operands_Nil: "stack_wf b vm \<Longrightarrow> operands b vm = [] \<longleftrightarrow> stack_top vm = int b - 1"
  by (auto simp: operands_def stack_wf_def STACK_SIZE_def)

lemma operands_push:
  assumes "stack_wf b vm" "stack_top vm < STACK_SIZE - 1"
  shows "\<exists>vm'. PUSH_BYTE x vm = Some vm' \<and> operands b vm' = x # operands b vm \<and> stack_wf b vm'
    \<and> stack_top vm' = stack_top vm + 1 \<and> below b vm' = below b vm"
proof -
  let ?vm' = "vm\<lparr>stack_top := stack_top vm + 1, stack := (stack vm)[nat (stack_top vm + 1) := x]\<rparr>"
  let ?n = "nat (stack_top vm + 1)"
  have n: "?n < length (stack vm)" "b \<le> ?n" "0 \<le> stack_top vm + 1"
    using assms by (auto simp: stack_wf_def STACK_SIZE_def)
  have p: "PUSH_BYTE x vm = Some ?vm'"
    using assms n by (simp add: PUSH_BYTE_def stack_put_def)
  have "nat (stack_top vm + 1 + 1) = Suc ?n" using n by simp
  then have "take (nat (stack_top ?vm' + 1)) (stack ?vm') = take ?n (stack vm) @ [x]"
    using n by (simp add: take_Suc_conv_app_nth)
  then have "operands b ?vm' = x # operands b vm" using n by (simp add: operands_def)
  moreover have "stack_wf b ?vm'" using assms by (simp add: stack_wf_def)
  moreover have "below b ?vm' = below b vm" using n by (simp add: below_def)
  ultimately show ?thesis using p by (intro exI [of _ ?vm']) simp
qed

lemma operands_pop:
  assumes "stack_wf b vm" "operands b vm = x # os"
  shows "\<exists>vm'. POP_BYTE vm = Some (x, vm') \<and> operands b vm' = os \<and> stack_wf b vm'
    \<and> stack_top vm' = stack_top vm - 1 \<and> below b vm' = below b vm"
proof -
  let ?vm' = "vm\<lparr>stack_top := stack_top vm - 1\<rparr>"
  have l: "length (stack vm) = nat STACK_SIZE" "stack_top vm < STACK_SIZE" using assms(1) by (simp_all add: stack_wf_def)
  have t: "int b \<le> stack_top vm"
  proof (rule ccontr)
    assume "\<not> int b \<le> stack_top vm"
    then have "operands b vm = []" by (simp add: operands_def)
    then show False using assms(2) by simp
  qed
  let ?n = "nat (stack_top vm)"
  have n: "?n < length (stack vm)" "b \<le> ?n" "0 \<le> stack_top vm" "nat (stack_top vm + 1) = Suc ?n"
    using t l by (auto simp: STACK_SIZE_def)
  have "operands b vm = stack vm ! ?n # rev (drop b (take ?n (stack vm)))"
    using n by (simp add: operands_def take_Suc_conv_app_nth)
  then have "stack vm ! ?n = x" "operands b ?vm' = os" using assms(2) by (simp_all add: operands_def)
  moreover have "POP_BYTE vm = Some (stack vm ! ?n, ?vm')"
    using n l by (simp add: POP_BYTE_def TOP_BYTE_def stack_get_def)
  moreover have "stack_wf b ?vm'" using assms(1) t by (simp add: stack_wf_def)
  moreover have "below b ?vm' = below b vm" by (simp add: below_def)
  ultimately show ?thesis by (intro exI [of _ ?vm']) simp
qed

text \<open>A short is two bytes, the high one on top.\<close>

lemma PUSH_SHORT_bytes:
  "PUSH_SHORT v vm = do { vm \<leftarrow> PUSH_BYTE (bytes_of_short v ! 0) vm; PUSH_BYTE (bytes_of_short v ! 1) vm }"
  by (auto simp: PUSH_SHORT_def PUSH_BYTE_def stack_put_short_def stack_put_def add.assoc)

lemma POP_SHORT_bytes:
  "POP_SHORT vm = do { (hi, vm) \<leftarrow> POP_BYTE vm; (lo, vm) \<leftarrow> POP_BYTE vm; Some (short_of_bytes [lo, hi], vm) }"
  by (auto simp: POP_SHORT_def TOP_SHORT_def POP_BYTE_def TOP_BYTE_def stack_get_short_def stack_get_def split: bind_split)

lemma operands_push_short:
  assumes "stack_wf b vm" "stack_top vm < STACK_SIZE - 2"
  shows "\<exists>vm'. PUSH_SHORT v vm = Some vm' \<and> operands b vm' = bytes_of_short v ! 1 # bytes_of_short v ! 0 # operands b vm
    \<and> stack_wf b vm' \<and> stack_top vm' = stack_top vm + 2 \<and> below b vm' = below b vm"
proof -
  obtain vm1 where 1: "PUSH_BYTE (bytes_of_short v ! 0) vm = Some vm1" "operands b vm1 = bytes_of_short v ! 0 # operands b vm"
    "stack_wf b vm1" "stack_top vm1 = stack_top vm + 1" "below b vm1 = below b vm"
    using operands_push [OF assms(1)] assms(2) by fastforce
  obtain vm2 where "PUSH_BYTE (bytes_of_short v ! 1) vm1 = Some vm2" "operands b vm2 = bytes_of_short v ! 1 # operands b vm1"
    "stack_wf b vm2" "stack_top vm2 = stack_top vm1 + 1" "below b vm2 = below b vm1"
    using operands_push [OF 1(3)] assms(2) 1(4) by fastforce
  then show ?thesis using 1 by (simp add: PUSH_SHORT_bytes)
qed

lemma operands_pop_short:
  assumes "stack_wf b vm" "operands b vm = hi # lo # os"
  shows "\<exists>vm'. POP_SHORT vm = Some (short_of_bytes [lo, hi], vm') \<and> operands b vm' = os \<and> stack_wf b vm'
    \<and> stack_top vm' = stack_top vm - 2 \<and> below b vm' = below b vm"
proof -
  obtain vm1 where 1: "POP_BYTE vm = Some (hi, vm1)" "operands b vm1 = lo # os" "stack_wf b vm1"
    "stack_top vm1 = stack_top vm - 1" "below b vm1 = below b vm"
    using operands_pop [OF assms] by blast
  obtain vm2 where "POP_BYTE vm1 = Some (lo, vm2)" "operands b vm2 = os" "stack_wf b vm2"
    "stack_top vm2 = stack_top vm1 - 1" "below b vm2 = below b vm1"
    using operands_pop [OF 1(3,2)] by blast
  then show ?thesis using 1 by (simp add: POP_SHORT_bytes)
qed

subsection \<open>Instructions on the operand list\<close>

definition push16 :: "u16 \<Rightarrow> u8 list \<Rightarrow> u8 list" where
  "push16 v os = bytes_of_short v ! 1 # bytes_of_short v ! 0 # os"

definition short_cmp :: "u16 \<Rightarrow> u16 \<Rightarrow> u8" where
  "short_cmp a b = (if sint a > sint b then 1 else if a = b then 0 else -1)"

text \<open>
  The stack instructions (34 to 38), the operators (48 to 71) and the conversions (72, 73) on a list of
  operands, with the operators of the code; \<open>None\<close> when operands are missing or the operator is undefined
  for them.
\<close>

definition op_list :: "u8 \<Rightarrow> u8 list \<Rightarrow> u8 list option" where
  "op_list i os =
     (if i = 34 then (case os of a # r \<Rightarrow> Some (a # a # r) | _ \<Rightarrow> None)
      else if i = 35 then (case os of h # l # r \<Rightarrow> Some (h # l # h # l # r) | _ \<Rightarrow> None)
      else if i = 36 then (case os of a # r \<Rightarrow> Some r | _ \<Rightarrow> None)
      else if i = 37 then (case os of a # b # r \<Rightarrow> Some r | _ \<Rightarrow> None)
      else if i = 38 then (case os of a # b # r \<Rightarrow> Some (b # a # r) | _ \<Rightarrow> None)
      else if i = 56 then (case os of a # r \<Rightarrow> Some (NOT a # r) | _ \<Rightarrow> None)
      else if 48 \<le> i \<and> i \<le> 59 then
        (case os of b # a # r \<Rightarrow> map_option (\<lambda>x. x # r) (vm_binop_byte i a b) | _ \<Rightarrow> None)
      else if i = 68 then (case os of h # l # r \<Rightarrow> Some (push16 (NOT (short_of_bytes [l, h])) r) | _ \<Rightarrow> None)
      else if i = 69 then
        (case os of bh # bl # ah # al # r \<Rightarrow> Some (short_cmp (short_of_bytes [al, ah]) (short_of_bytes [bl, bh]) # r) | _ \<Rightarrow> None)
      else if i = 70 \<or> i = 71 then
        (case os of n # h # l # r \<Rightarrow>
           if shift_ok n then Some (push16 (if i = 70 then push_bit (nat (sint n)) (short_of_bytes [l, h])
              else word_of_int (sint (short_of_bytes [l, h]) div 2 ^ nat (sint n))) r)
           else None
         | _ \<Rightarrow> None)
      else if 60 \<le> i \<and> i \<le> 71 then
        (case os of bh # bl # ah # al # r \<Rightarrow>
           map_option (\<lambda>v. push16 v r) (vm_binop_short i (short_of_bytes [al, ah]) (short_of_bytes [bl, bh])) | _ \<Rightarrow> None)
      else if i = 72 then (case os of a # r \<Rightarrow> Some (push16 (scast a) r) | _ \<Rightarrow> None)
      else if i = 73 then (case os of h # l # r \<Rightarrow> Some (ucast (short_of_bytes [l, h]) # r) | _ \<Rightarrow> None)
      else None)"

text \<open>A machine with these operands, and the rest of it as given.\<close>

definition has_ops :: "nat \<Rightarrow> vmstate \<Rightarrow> u8 list \<Rightarrow> int \<Rightarrow> vmstate \<Rightarrow> bool" where
  "has_ops b rest os h vm \<longleftrightarrow> stack_wf b vm \<and> operands b vm = os \<and> below b vm = rest \<and> stack_top vm = h"

definition yields :: "nat \<Rightarrow> vmstate \<Rightarrow> u8 list \<Rightarrow> vmstate option \<Rightarrow> bool" where
  "yields b rest os m \<longleftrightarrow> (\<exists>vm h. m = Some vm \<and> has_ops b rest os h vm)"

lemma yields_push:
  "has_ops b rest os h vm \<Longrightarrow> h < STACK_SIZE - 1 \<Longrightarrow> yields b rest (x # os) (PUSH_BYTE x vm)"
  unfolding yields_def has_ops_def using operands_push by metis

lemma yields_push_short:
  "has_ops b rest os h vm \<Longrightarrow> h < STACK_SIZE - 2 \<Longrightarrow> yields b rest (push16 v os) (PUSH_SHORT v vm)"
  unfolding yields_def has_ops_def push16_def using operands_push_short by metis

lemma yields_pop:
  assumes "has_ops b rest (x # os) h vm" "\<And>vm'. has_ops b rest os (h - 1) vm' \<Longrightarrow> yields b rest os' (f x vm')"
  shows "yields b rest os' (POP_BYTE vm \<bind> (\<lambda>(x, vm). f x vm))"
proof -
  obtain vm' where "POP_BYTE vm = Some (x, vm')" "has_ops b rest os (h - 1) vm'"
    using operands_pop [of b vm x os] assms(1) unfolding has_ops_def by metis
  then show ?thesis using assms(2) by simp
qed

lemma yields_pop_short:
  assumes "has_ops b rest (hi # lo # os) h vm"
    "\<And>vm'. has_ops b rest os (h - 2) vm' \<Longrightarrow> yields b rest os' (f (short_of_bytes [lo, hi]) vm')"
  shows "yields b rest os' (POP_SHORT vm \<bind> (\<lambda>(v, vm). f v vm))"
proof -
  obtain vm' where "POP_SHORT vm = Some (short_of_bytes [lo, hi], vm')" "has_ops b rest os (h - 2) vm'"
    using operands_pop_short [of b vm hi lo os] assms(1) unfolding has_ops_def by metis
  then show ?thesis using assms(2) by simp
qed

lemma yields_top:
  assumes "has_ops b rest (x # os) h vm" "yields b rest os' (f x)"
  shows "yields b rest os' (TOP_BYTE vm \<bind> f)"
proof -
  have "\<exists>vm'. POP_BYTE vm = Some (x, vm')"
    using operands_pop [of b vm x os] assms(1) unfolding has_ops_def by metis
  then have "TOP_BYTE vm = Some x" by (auto simp: POP_BYTE_def split: bind_splits)
  then show ?thesis using assms(2) by simp
qed

lemma yields_top_short:
  assumes "has_ops b rest (hi # lo # os) h vm" "yields b rest os' (f (short_of_bytes [lo, hi]))"
  shows "yields b rest os' (TOP_SHORT vm \<bind> f)"
proof -
  have "\<exists>vm'. POP_SHORT vm = Some (short_of_bytes [lo, hi], vm')"
    using operands_pop_short [of b vm hi lo os] assms(1) unfolding has_ops_def by metis
  then have "TOP_SHORT vm = Some (short_of_bytes [lo, hi])" by (auto simp: POP_SHORT_def split: bind_splits)
  then show ?thesis using assms(2) by simp
qed

lemma has_ops_bound: "has_ops b rest os h vm \<Longrightarrow> int (length os) + int b = h + 1"
  by (auto simp: has_ops_def operands_def stack_wf_def STACK_SIZE_def)

lemma yields_here: "has_ops b rest os h vm \<Longrightarrow> yields b rest os (Some vm)"
  unfolding yields_def by blast

lemma push16_bytes: "push16 (short_of_bytes [lo, hi]) os = hi # lo # os"
proof -
  have "\<not> bit lo (8 + n)" for n using bit_imp_le_length [of lo "8 + n"] by auto
  then have "bytes_of_short (short_of_bytes [lo, hi]) = [lo, hi]"
    by (auto simp: bytes_of_short_def short_of_bytes_def intro!: bit_word_eqI simp: bit_simps)
  then show ?thesis by (simp add: push16_def)
qed

lemma has_ops_stack:
  assumes "has_ops b rest os h vm"
  shows "stack vm = take b (stack vm) @ rev os @ drop (nat (h + 1)) (stack vm)" "length (take b (stack vm)) = b"
proof -
  let ?n = "nat (h + 1)"
  have w: "length (stack vm) = 96" "int b \<le> h + 1" "h < 96" "stack_top vm = h"
    using assms by (auto simp: has_ops_def stack_wf_def STACK_SIZE_def)
  show "length (take b (stack vm)) = b" using w by simp
  have "rev os = drop b (take ?n (stack vm))" using assms w by (auto simp: has_ops_def operands_def)
  then have "take ?n (stack vm) = take b (stack vm) @ rev os"
    using w append_take_drop_id [of b "take ?n (stack vm)"] by (simp add: min_def split: if_splits)
  then show "stack vm = take b (stack vm) @ rev os @ drop ?n (stack vm)"
    by (metis append.assoc append_take_drop_id)
qed

lemma yields_swap:
  assumes v: "has_ops b rest (x # y # os) h vm"
  shows "yields b rest (y # x # os) (do {
    t \<leftarrow> TOP_BYTE vm; below \<leftarrow> stack_get (stack_top vm - 1) vm;
    vm \<leftarrow> stack_put (stack_top vm) below vm; stack_put (stack_top vm - 1) t vm })"
proof -
  define p q where "p = take b (stack vm) @ rev os" and "q = drop (nat (h + 1)) (stack vm)"
  have st: "stack vm = p @ [y, x] @ q" using has_ops_stack(1) [OF v] by (simp add: p_def q_def)
  have w: "length (stack vm) = 96" "h < 96" "stack_top vm = h" "b \<le> length (stack vm)"
    using v by (auto simp: has_ops_def stack_wf_def STACK_SIZE_def)
  have l: "int (length os) + 2 + int b = h + 1" using has_ops_bound [OF v] by simp
  have "length p = b + length os" using w by (simp add: p_def)
  then have lp: "length p = nat (h - 1)" "nat h = Suc (length p)" "0 \<le> h - 1" using l by auto
  let ?vm' = "vm\<lparr>stack := p @ [x, y] @ q\<rparr>"
  have "(do { t \<leftarrow> TOP_BYTE vm; below \<leftarrow> stack_get (stack_top vm - 1) vm;
    vm \<leftarrow> stack_put (stack_top vm) below vm; stack_put (stack_top vm - 1) t vm }) =
    Some (vm\<lparr>stack := (stack vm)[nat h := stack vm ! nat (h - 1), nat (h - 1) := stack vm ! nat h]\<rparr>)"
    using w lp by (simp add: TOP_BYTE_def stack_get_def stack_put_def STACK_SIZE_def)
  also have "(stack vm)[nat h := stack vm ! nat (h - 1), nat (h - 1) := stack vm ! nat h] = p @ [x, y] @ q"
  proof -
    have "stack vm ! nat (h - 1) = y" "stack vm ! nat h = x"
      unfolding lp(1) [symmetric] lp(2) by (subst st, simp add: nth_append)+
    then show ?thesis
      unfolding lp(1) [symmetric] lp(2) by (subst st) (simp add: list_update_append)
  qed
  finally have e: "(do { t \<leftarrow> TOP_BYTE vm; below \<leftarrow> stack_get (stack_top vm - 1) vm;
    vm \<leftarrow> stack_put (stack_top vm) below vm; stack_put (stack_top vm - 1) t vm }) = Some ?vm'" .
  have "has_ops b rest (y # x # os) h ?vm'"
  proof -
    have len: "length (p @ [x, y] @ q) = 96" using arg_cong [OF st, of length] w by simp
    have "nat (h + 1) = length p + 2" using lp by simp
    then have "take (nat (h + 1)) (p @ [x, y] @ q) = p @ [x, y]" by simp
    then have "operands b ?vm' = y # x # os" using w by (simp add: operands_def p_def)
    moreover have "below b ?vm' = below b vm" using w by (simp add: below_def p_def)
    ultimately show ?thesis using v len by (simp add: has_ops_def stack_wf_def STACK_SIZE_def)
  qed
  then show ?thesis unfolding e by (rule yields_here)
qed

subsection \<open>The instructions yield what the list operations say\<close>

lemma exec_stack_yields:
  assumes v: "has_ops b rest os h vm" "h < STACK_SIZE - 2" and o: "op_list i os = Some os'" and i: "34 \<le> i" "i \<le> 38"
  shows "yields b rest os' (vm_exec_stack i vm)"
proof -
  have "i = 34 \<or> i = 35 \<or> i = 36 \<or> i = 37 \<or> i = 38" using i by (simp add: word_le_nat_alt word_unat_eq_iff) linarith
  then consider "i = 34" | "i = 35" | "i = 36" | "i = 37" | "i = 38" by blast
  then show ?thesis
  proof cases
    case 1
    then obtain a r where "os = a # r" "os' = a # a # r" using o by (auto simp: op_list_def split: list.splits)
    then show ?thesis using v 1 by (auto simp: vm_exec_stack_def intro!: yields_top yields_push)
  next
    case 2
    then obtain hi lo r where "os = hi # lo # r" "os' = push16 (short_of_bytes [lo, hi]) os"
      using o by (auto simp: op_list_def push16_bytes split: list.splits)
    then show ?thesis using v 2 by (auto simp: vm_exec_stack_def intro!: yields_top_short yields_push_short)
  next
    case 3
    then obtain a r where "os = a # r" "os' = r" using o by (auto simp: op_list_def split: list.splits)
    then show ?thesis using v 3 by (auto simp: vm_exec_stack_def intro!: yields_pop intro: yields_here)
  next
    case 4
    then obtain a c r where "os = a # c # r" "os' = r" using o by (auto simp: op_list_def split: list.splits)
    then show ?thesis using v 4 by (auto simp: vm_exec_stack_def intro!: yields_pop intro: yields_here)
  next
    case 5
    then obtain a c r where "os = a # c # r" "os' = c # a # r" using o by (auto simp: op_list_def split: list.splits)
    then show ?thesis using v 5 yields_swap by (auto simp: vm_exec_stack_def)
  qed
qed

lemma exec_byte_yields:
  assumes v: "has_ops b rest os h vm" "h < STACK_SIZE - 2" and o: "op_list i os = Some os'" and i: "48 \<le> i" "i \<le> 59"
  shows "yields b rest os' (vm_exec_byte_arith i vm)"
proof (cases "i = 56")
  case True
  then obtain a r where "os = a # r" "os' = NOT a # r" using o by (auto simp: op_list_def split: list.splits)
  then show ?thesis using v True by (auto simp: vm_exec_byte_arith_def intro!: yields_pop yields_push)
next
  case False
  have "i \<noteq> 34" "i \<noteq> 35" "i \<noteq> 36" "i \<noteq> 37" "i \<noteq> 38" using i by auto
  then have "(case os of y # x # r \<Rightarrow> map_option (\<lambda>v. v # r) (vm_binop_byte i x y) | _ \<Rightarrow> None) = Some os'"
    using o i False by (simp add: op_list_def)
  then obtain y x r v' where os: "os = y # x # r" "vm_binop_byte i x y = Some v'" "os' = v' # r"
    by (auto split: list.splits)
  then show ?thesis
    using v False unfolding vm_exec_byte_arith_def by (auto intro!: yields_pop yields_push)
qed

lemma exec_short_yields:
  assumes v: "has_ops b rest os h vm" "h < STACK_SIZE - 2" and o: "op_list i os = Some os'" and i: "60 \<le> i" "i \<le> 71"
  shows "yields b rest os' (vm_exec_short_arith i vm)"
proof -
  have n: "i \<noteq> 34" "i \<noteq> 35" "i \<noteq> 36" "i \<noteq> 37" "i \<noteq> 38" "i \<noteq> 56" "\<not> i \<le> 59"
    using i by (auto simp: word_le_nat_alt)
  consider "i = 68" | "i = 69" | "i = 70 \<or> i = 71" | "i \<noteq> 68" "i \<noteq> 69" "i \<noteq> 70" "i \<noteq> 71" by blast
  then show ?thesis
  proof cases
    case 1
    then obtain hi lo r where "os = hi # lo # r" "os' = push16 (NOT (short_of_bytes [lo, hi])) r"
      using o by (auto simp: op_list_def split: list.splits)
    then show ?thesis using v 1 by (auto simp: vm_exec_short_arith_def intro!: yields_pop_short yields_push_short)
  next
    case 2
    then obtain bh bl ah al r where "os = bh # bl # ah # al # r"
      "os' = short_cmp (short_of_bytes [al, ah]) (short_of_bytes [bl, bh]) # r"
      using o by (auto simp: op_list_def split: list.splits)
    then show ?thesis using v 2
      unfolding vm_exec_short_arith_def short_cmp_def by (auto intro!: yields_pop_short yields_push)
  next
    case 3
    then have "(case os of n # h # l # r \<Rightarrow> if shift_ok n then Some (push16 (if i = 70 then push_bit (nat (sint n)) (short_of_bytes [l, h])
        else word_of_int (sint (short_of_bytes [l, h]) div 2 ^ nat (sint n))) r) else None | _ \<Rightarrow> None) = Some os'"
      using o n by (elim disjE) (clarsimp simp: op_list_def)+
    then obtain n' hi lo r where os: "os = n' # hi # lo # r" "shift_ok n'"
      "os' = push16 (if i = 70 then push_bit (nat (sint n')) (short_of_bytes [lo, hi])
         else word_of_int (sint (short_of_bytes [lo, hi]) div 2 ^ nat (sint n'))) r"
      by (auto split: list.splits if_splits)
    then show ?thesis using v 3
      unfolding vm_exec_short_arith_def by (auto intro!: yields_pop yields_pop_short yields_push_short)
  next
    case 4
    then have "(case os of bh # bl # ah # al # r \<Rightarrow> map_option (\<lambda>v. push16 v r)
        (vm_binop_short i (short_of_bytes [al, ah]) (short_of_bytes [bl, bh])) | _ \<Rightarrow> None) = Some os'"
      using o i n by (simp add: op_list_def)
    then obtain bh bl ah al r v' where os: "os = bh # bl # ah # al # r"
      "vm_binop_short i (short_of_bytes [al, ah]) (short_of_bytes [bl, bh]) = Some v'" "os' = push16 v' r"
      by (auto split: list.splits)
    then show ?thesis using v 4
      unfolding vm_exec_short_arith_def by (auto intro!: yields_pop_short yields_push_short)
  qed
qed

lemma exec_convert_yields:
  assumes v: "has_ops b rest os h vm" "h < STACK_SIZE - 2" and o: "op_list i os = Some os'" and i: "i = 72 \<or> i = 73"
  shows "yields b rest os' (vm_exec_convert i vm)"
  using i
proof
  assume 1: "i = 72"
  then obtain a r where "os = a # r" "os' = push16 (scast a) r" using o by (auto simp: op_list_def split: list.splits)
  then show ?thesis using v 1 by (auto simp: vm_exec_convert_def intro!: yields_pop yields_push_short)
next
  assume 2: "i = 73"
  then obtain hi lo r where "os = hi # lo # r" "os' = ucast (short_of_bytes [lo, hi]) # r"
    using o by (auto simp: op_list_def split: list.splits)
  then show ?thesis using v 2 by (auto simp: vm_exec_convert_def intro!: yields_pop_short yields_push)
qed

lemma op_list_range: "op_list i os = Some os' \<Longrightarrow> 34 \<le> i \<and> i \<le> 38 \<or> 48 \<le> i \<and> i \<le> 59 \<or> 60 \<le> i \<and> i \<le> 71 \<or> i = 72 \<or> i = 73"
  unfolding op_list_def by (auto split: if_splits)

lemma vm_exec_yields:
  assumes "has_ops b rest os h vm" "h < STACK_SIZE - 2" "op_list i os = Some os'"
  shows "\<exists>vm'. vm_exec i s vm = Some (vm', s) \<and> yields b rest os' (Some vm')"
proof -
  have e: "\<exists>vm'. map_option (\<lambda>vm. (vm, s)) m = Some (vm', s) \<and> yields b rest os' (Some vm')" if "yields b rest os' m" for m
    using that by (auto simp: yields_def)
  have n: "\<not> x \<le> y" if "\<not> unat x \<le> unat y" for x y :: u8 using that by (simp add: word_le_nat_alt)
  consider "34 \<le> i" "i \<le> 38" | "48 \<le> i" "i \<le> 59" | "60 \<le> i" "i \<le> 71" | "i = 72 \<or> i = 73"
    using op_list_range [OF assms(3)] by blast
  then show ?thesis
  proof cases
    case 1
    then have "vm_exec i s vm = map_option (\<lambda>vm. (vm, s)) (vm_exec_stack i vm)"
      by (simp add: vm_exec_def word_le_nat_alt word_unat_eq_iff)
    then show ?thesis using e exec_stack_yields [OF assms 1] by simp
  next
    case 2
    then have "vm_exec i s vm = map_option (\<lambda>vm. (vm, s)) (vm_exec_byte_arith i vm)"
      by (simp add: vm_exec_def word_le_nat_alt word_unat_eq_iff)
    then show ?thesis using e exec_byte_yields [OF assms 2] by simp
  next
    case 3
    then have "vm_exec i s vm = map_option (\<lambda>vm. (vm, s)) (vm_exec_short_arith i vm)"
      by (simp add: vm_exec_def word_le_nat_alt word_unat_eq_iff)
    then show ?thesis using e exec_short_yields [OF assms 3] by simp
  next
    case 4
    then have "vm_exec i s vm = map_option (\<lambda>vm. (vm, s)) (vm_exec_convert i vm)"
      by (elim disjE) (simp_all add: vm_exec_def)
    then show ?thesis using e exec_convert_yields [OF assms 4] by simp
  qed
qed

subsection \<open>The specification of the operators\<close>

text \<open>
  What the instructions compute, on integers and apart from the code: \<open>x\<close> is the operand that was pushed
  first, \<open>y\<close> the one on top of it. A quotient is cut towards zero and a remainder has the sign of \<open>x\<close>; the
  bitwise operators see two's complements; a shift to the right keeps the sign. \<open>None\<close> is what C leaves
  undefined for an \<open>int\<close> of 16 bits: a divisor of zero and a shift by a negative number or by 16 and more.
\<close>

datatype vm_operator = OpAdd | OpSubtract | OpMultiply | OpDivide | OpMod | OpAnd | OpOr | OpXor | OpNot | OpCmp
  | OpLshift | OpRshift

fun operator_value :: "vm_operator \<Rightarrow> int \<Rightarrow> int \<Rightarrow> int option" where
  "operator_value OpAdd x y = Some (x + y)"
| "operator_value OpSubtract x y = Some (x - y)"
| "operator_value OpMultiply x y = Some (x * y)"
| "operator_value OpDivide x y = (if y = 0 then None else Some (sgn x * sgn y * (\<bar>x\<bar> div \<bar>y\<bar>)))"
| "operator_value OpMod x y = (if y = 0 then None else Some (sgn x * (\<bar>x\<bar> mod \<bar>y\<bar>)))"
| "operator_value OpAnd x y = Some (x AND y)"
| "operator_value OpOr x y = Some (x OR y)"
| "operator_value OpXor x y = Some (x XOR y)"
| "operator_value OpNot x y = None"
| "operator_value OpCmp x y = Some (sgn (x - y))"
| "operator_value OpLshift x y = (if 0 \<le> y \<and> y < 16 then Some (x * 2 ^ nat y) else None)"
| "operator_value OpRshift x y = (if 0 \<le> y \<and> y < 16 then Some (x div 2 ^ nat y) else None)"

text \<open>The operators in the order of their opcodes: 48 to 59 on bytes, 60 to 71 on shorts.\<close>

definition vm_operators :: "vm_operator list" where
  "vm_operators = [OpAdd, OpSubtract, OpMultiply, OpDivide, OpMod, OpAnd, OpOr, OpXor, OpNot, OpCmp, OpLshift, OpRshift]"

text \<open>A short on the operand list: its high byte is on top.\<close>

definition short_value :: "u8 \<Rightarrow> u8 \<Rightarrow> int" where
  "short_value h l = 256 * sint h + uint l"

definition push_value :: "int \<Rightarrow> u8 list \<Rightarrow> u8 list" where
  "push_value v r = word_of_int (v div 256) # word_of_int v # r"

definition byte_spec :: "vm_operator \<Rightarrow> u8 list \<Rightarrow> u8 list option" where
  "byte_spec opr os =
     (if opr = OpNot then (case os of x # r \<Rightarrow> Some (word_of_int (- sint x - 1) # r) | _ \<Rightarrow> None)
      else (case os of y # x # r \<Rightarrow> map_option (\<lambda>v. word_of_int v # r) (operator_value opr (sint x) (sint y)) | _ \<Rightarrow> None))"

text \<open>A comparison of shorts pushes a byte, and the count of a shift is a byte.\<close>

definition short_spec :: "vm_operator \<Rightarrow> u8 list \<Rightarrow> u8 list option" where
  "short_spec opr os =
     (if opr = OpNot then (case os of h # l # r \<Rightarrow> Some (push_value (- short_value h l - 1) r) | _ \<Rightarrow> None)
      else if opr \<in> {OpLshift, OpRshift} then
        (case os of n # h # l # r \<Rightarrow> map_option (\<lambda>v. push_value v r) (operator_value opr (short_value h l) (sint n)) | _ \<Rightarrow> None)
      else (case os of yh # yl # xh # xl # r \<Rightarrow>
           map_option (\<lambda>v. if opr = OpCmp then word_of_int v # r else push_value v r)
             (operator_value opr (short_value xh xl) (short_value yh yl)) | _ \<Rightarrow> None))"

definition op_spec :: "u8 \<Rightarrow> u8 list \<Rightarrow> u8 list option" where
  "op_spec i os =
     (if i = 34 then (case os of a # r \<Rightarrow> Some (a # a # r) | _ \<Rightarrow> None)
      else if i = 35 then (case os of h # l # r \<Rightarrow> Some (h # l # h # l # r) | _ \<Rightarrow> None)
      else if i = 36 then (case os of a # r \<Rightarrow> Some r | _ \<Rightarrow> None)
      else if i = 37 then (case os of a # b # r \<Rightarrow> Some r | _ \<Rightarrow> None)
      else if i = 38 then (case os of a # b # r \<Rightarrow> Some (b # a # r) | _ \<Rightarrow> None)
      else if 48 \<le> i \<and> i \<le> 59 then byte_spec (vm_operators ! (unat i - 48)) os
      else if 60 \<le> i \<and> i \<le> 71 then short_spec (vm_operators ! (unat i - 60)) os
      else if i = 72 then (case os of a # r \<Rightarrow> Some (push_value (sint a) r) | _ \<Rightarrow> None)
      else if i = 73 then (case os of h # l # r \<Rightarrow> Some (l # r) | _ \<Rightarrow> None)
      else None)"

text \<open>The operators of the code compute these values.\<close>

lemma signed_logic:
  fixes a b :: "'a::len word"
  shows "word_of_int (sint a AND sint b) = a AND b" "word_of_int (sint a OR sint b) = a OR b"
    "word_of_int (sint a XOR sint b) = a XOR b"
  by (simp_all add: of_int_and_eq of_int_or_eq of_int_xor_eq)

lemma complement_word: "- x - 1 = NOT x" for x :: "'a::len word"
  by (simp add: not_eq_complement)

lemma smod_sign: "x smod y = sgn x * (\<bar>x\<bar> mod \<bar>y\<bar>)" for x y :: int
  by (simp add: signed_modulo_int_def)

lemma signed_cmp:
  fixes a b :: "'a::len word"
  shows "word_of_int (sgn (sint a - sint b)) = (if sint a > sint b then 1 else if a = b then 0 else (-1 :: u8))"
  using signed_word_eqI [of a b] by (cases "sint a" "sint b" rule: linorder_cases) auto

lemma signed_shift: "push_bit n a = word_of_int (sint a * 2 ^ n)" for a :: "'a::len word"
  by (simp add: push_bit_eq_mult)

lemma opcode_cases:
  fixes i :: u8
  assumes "48 \<le> i" "i \<le> 59"
  shows "i \<in> {48, 49, 50, 51, 52, 53, 54, 55, 56, 57, 58, 59}"
  using assms by (simp add: word_le_nat_alt word_unat_eq_iff) presburger

lemma binop_byte_value:
  assumes "48 \<le> i" "i \<le> 59" "i \<noteq> 56"
  shows "vm_binop_byte i a b = map_option word_of_int (operator_value (vm_operators ! (unat i - 48)) (sint a) (sint b))"
proof (cases "i = 57")
  case True
  then show ?thesis by (simp add: vm_binop_byte_def vm_operators_def signed_cmp)
next
  case False
  then show ?thesis using opcode_cases [OF assms(1,2)] assms(3)
    by (auto simp: vm_binop_byte_def vm_operators_def signed_logic smod_sign signed_divide_int_def signed_shift shift_ok_def
      signed_eq_0_iff)
qed

lemma short_opcode:
  fixes i :: u8
  assumes "60 \<le> i" "i \<le> 71"
  shows "i \<in> {60, 61, 62, 63, 64, 65, 66, 67, 68, 69, 70, 71}"
  using assms by (simp add: word_le_nat_alt word_unat_eq_iff) presburger

lemma binop_short_value:
  assumes "60 \<le> i" "i \<le> 71" "i \<notin> {68, 69, 70, 71}"
  shows "vm_binop_short i a b = map_option word_of_int (operator_value (vm_operators ! (unat i - 60)) (sint a) (sint b))"
  using short_opcode [OF assms(1,2)] assms(3)
  by (auto simp: vm_binop_short_def vm_operators_def signed_logic smod_sign signed_divide_int_def signed_eq_0_iff)

lemma short_value_sint: "sint (short_of_bytes [l, h]) = short_value h l"
proof -
  have "push_bit 8 (sint h) AND uint l = 0"
    by (rule bit_eqI) (auto simp: bit_simps dest: bit_imp_le_length)
  then have "short_value h l = push_bit 8 (sint h) OR uint l"
    by (simp add: short_value_def push_bit_eq_mult mult.commute flip: disjunctive_add_eq_or)
  moreover have "sint (short_of_bytes [l, h]) = push_bit 8 (sint h) OR uint l"
    by (rule bit_eqI) (auto simp: bit_simps short_of_bytes_def min_def dest: bit_imp_le_length)
  ultimately show ?thesis by simp
qed

lemma push_value_push16: "push_value v r = push16 (word_of_int v) r"
proof -
  have "(ucast (drop_bit 8 (word_of_int v :: u16)) :: u8) = word_of_int (v div 256)"
  proof (rule bit_word_eqI)
    fix n assume "n < LENGTH(8)"
    moreover have "v div 256 = drop_bit 8 v" by (simp add: drop_bit_eq_div)
    ultimately show "bit (ucast (drop_bit 8 (word_of_int v :: u16)) :: u8) n \<longleftrightarrow> bit (word_of_int (v div 256) :: u8) n"
      by (simp add: bit_simps)
  qed
  moreover have "(ucast (word_of_int v :: u16) :: u8) = word_of_int v"
    by (rule bit_word_eqI) (simp add: bit_simps)
  ultimately show ?thesis by (simp add: push_value_def push16_def bytes_of_short_def)
qed

lemma byte_spec_list:
  assumes "48 \<le> i" "i \<le> 59"
  shows "byte_spec (vm_operators ! (unat i - 48)) os = op_list i os"
proof (cases "i = 56")
  case True
  then show ?thesis by (simp add: byte_spec_def op_list_def vm_operators_def complement_word split: list.splits)
next
  case False
  have "i \<notin> {34, 35, 36, 37, 38}" using assms by auto
  then have "op_list i os = (case os of y # x # r \<Rightarrow> map_option (\<lambda>v. v # r) (vm_binop_byte i x y) | _ \<Rightarrow> None)"
    using assms False by (simp add: op_list_def)
  moreover have "vm_operators ! (unat i - 48) \<noteq> OpNot"
    using opcode_cases [OF assms] False by (auto simp: vm_operators_def)
  ultimately show ?thesis
    by (simp add: byte_spec_def binop_byte_value [OF assms False] option.map_comp comp_def split: list.splits)
qed

lemma short_spec_list:
  assumes "60 \<le> i" "i \<le> 71"
  shows "short_spec (vm_operators ! (unat i - 60)) os = op_list i os"
proof -
  have "i \<notin> {34, 35, 36, 37, 38, 56}" "\<not> i \<le> 59" using assms by (auto simp: word_le_nat_alt)
  note n = this
  consider "i = 68" | "i = 69" | "i = 70 \<or> i = 71" | (op) "i \<notin> {68, 69, 70, 71}" by blast
  then show ?thesis
  proof cases
    case 1
    then show ?thesis
      by (simp add: short_spec_def op_list_def vm_operators_def push_value_push16 complement_word flip: short_value_sint
        split: list.splits)
  next
    case 2
    then show ?thesis
      by (simp add: short_spec_def op_list_def vm_operators_def short_cmp_def signed_cmp flip: short_value_sint split: list.splits)
  next
    case 3
    then show ?thesis
      by (elim disjE) (auto simp: short_spec_def op_list_def vm_operators_def push_value_push16 shift_ok_def signed_shift
        simp flip: short_value_sint split: list.splits)
  next
    case op
    then have "op_list i os = (case os of bh # bl # ah # al # r \<Rightarrow>
        map_option (\<lambda>v. push16 v r) (vm_binop_short i (short_of_bytes [al, ah]) (short_of_bytes [bl, bh])) | _ \<Rightarrow> None)"
      using assms n by (simp add: op_list_def)
    moreover have "vm_operators ! (unat i - 60) \<notin> {OpNot, OpCmp, OpLshift, OpRshift}"
      using short_opcode [OF assms] op by (auto simp: vm_operators_def)
    ultimately show ?thesis
      by (simp add: short_spec_def binop_short_value [OF assms op] option.map_comp comp_def push_value_push16
        flip: short_value_sint split: list.splits)
  qed
qed

lemma op_spec_list: "op_spec i os = op_list i os"
proof -
  consider "34 \<le> i" "i \<le> 38" | "48 \<le> i" "i \<le> 59" | "60 \<le> i" "i \<le> 71" | "i = 72" | "i = 73"
    | (other) "\<not> (34 \<le> i \<and> i \<le> 38)" "\<not> (48 \<le> i \<and> i \<le> 59)" "\<not> (60 \<le> i \<and> i \<le> 71)" "i \<noteq> 72" "i \<noteq> 73"
    by blast
  then show ?thesis
  proof cases
    case 1
    then have "i \<in> {34, 35, 36, 37, 38}" by (simp add: word_le_nat_alt word_unat_eq_iff) presburger
    then show ?thesis by (auto simp: op_spec_def op_list_def)
  next
    case 2
    then have "i \<notin> {34, 35, 36, 37, 38}" by auto
    then show ?thesis using 2 byte_spec_list [OF 2] by (simp add: op_spec_def)
  next
    case 3
    then have "i \<notin> {34, 35, 36, 37, 38}" "\<not> i \<le> 59" by (auto simp: word_le_nat_alt)
    then show ?thesis using 3 short_spec_list [OF 3] by (simp add: op_spec_def)
  next
    case 4
    have "word_of_int (sint x) = (scast x :: u16)" for x :: u8 by (rule bit_word_eqI) (simp add: bit_simps)
    then show ?thesis using 4 by (simp add: op_spec_def op_list_def push_value_push16 split: list.splits)
  next
    case 5
    have "ucast (short_of_bytes [l, h]) = l" for l h :: u8
      by (rule bit_word_eqI) (simp add: bit_simps short_of_bytes_def)
    then show ?thesis using 5 by (simp add: op_spec_def op_list_def split: list.splits)
  next
    case other
    then show ?thesis using op_list_range [of i os] by (cases "op_list i os") (auto simp: op_spec_def)
  qed
qed

subsection \<open>A sample machine\<close>

text \<open>A machine that runs with the operands 7 and 250 (that is, -6) on its stack, frame at offset 0.\<close>

definition sample_vm :: vmstate where
  "sample_vm = \<lparr>vm_state = VMRUNNING, delay_end_ms = 0, wait_key = 0, trigger_lkey = 20,
     keyboardreport = ExtraKeyboardReport_clear, mousereport = \<lparr>Button = 0, X = 0, Y = 0, VWheel = 0, HWheel = 0\<rparr>,
     vm_program = 24, code = 30, ip = 30, stack_top = 8, current_frame = 0,
     stack = replicate 7 0 @ [7, 250] @ replicate 87 0\<rparr>"

lemma sample_vm_fields:
  "vm_state sample_vm = VMRUNNING" "ip sample_vm = 30" "stack_top sample_vm = 8" "current_frame sample_vm = 0"
  "length (stack sample_vm) = 96" "delay_end_ms sample_vm = 0"
  by (simp_all add: sample_vm_def)

definition sample_machines :: interpreter_state where
  "sample_machines = keystate_state.extend (keystate_state.truncate one_key_down)
     (interpreter_state.fields (replicate PROGRAM_COUNT sample_vm) 1000)"

subsection \<open>Properties\<close>

text \<open>
  C7: the stack instructions, the arithmetic, logic, shift and comparison instructions and the
  conversions of the virtual machine work on the operands of the current frame as \<open>op_spec\<close> says, that is,
  they compute the operators of the integers, and they leave everything below the operands and the rest of
  the machine alone, provided there is room for one more short. The left operand is the one that was pushed
  first, and the count of a shift is a byte: in this the code is not what \<open>vm.txt\<close> says, which pops the left
  operand first (\<open>a=POP; b=POP; PUSH(a-b)\<close>, and the same for the quotient, the remainder and the comparison)
  and pops a short as the count of \<open>SLSHIFT\<close> and \<open>SRSHIFT\<close>.
\<close>

theorem vm_exec_refines_op_spec:
  assumes "stack_wf b vm" "stack_top vm < STACK_SIZE - 2" "op_spec i (operands b vm) = Some os"
  shows "\<exists>vm'. vm_exec i s vm = Some (vm', s) \<and> stack_wf b vm' \<and> operands b vm' = os \<and> below b vm' = below b vm"
  using vm_exec_yields [of b "below b vm" "operands b vm" "stack_top vm" vm i os s] assms
  by (auto simp: has_ops_def yields_def op_spec_list)

theorem vm_exec_refines_op_spec_witness:
  "\<exists>vm'. vm_exec 51 sample_machines sample_vm = Some (vm', sample_machines) \<and> operands 7 vm' = [word_of_int (- (7 div 6))]"
proof -
  have w: "stack_wf 7 sample_vm" "stack_top sample_vm < STACK_SIZE - 2" "operands 7 sample_vm = [250, 7]"
    by (simp_all add: stack_wf_def sample_vm_def STACK_SIZE_def operands_def)
  have "op_spec 51 [250, 7] = Some [word_of_int (- (7 div 6))]" by code_simp
  then show ?thesis using vm_exec_refines_op_spec [OF w(1,2), of 51] w(3) by fastforce
qed

text \<open>
  Which of the two operands is on the left shows in every subtraction of different operands, and the size of
  the count in every shift: with 7 pushed before 2, \<open>BSUBTRACT\<close> leaves 5, where \<open>vm.txt\<close> has -5, and
  \<open>SLSHIFT\<close> takes one byte for its count and two for the number.
\<close>

lemma operand_order_of_the_code:
  "op_spec 49 [2, 7] = Some [5]" "op_spec 57 [2, 7] = Some [1]"
  "op_spec 70 [1, 0, 3, 9] = Some [0, 6, 9]" "op_spec 70 [0, 1, 0] = Some [1, 0]"
  by code_simp+

text \<open>
  C31: the test for a stack overflow is one byte short. It is meant to keep enough stack to push a
  short, but a machine whose stack pointer is at \<open>STACK_SIZE - 2\<close> passes it, and an instruction that
  pushes a short then writes past the end of the stack. One byte less is enough.
\<close>

theorem vm_stack_check_too_late:
  assumes "vm_state vm = VMRUNNING" "READ_BYTE s (ip vm) = 30" "0 \<le> stack_top vm"
  shows "(stack_top vm = STACK_SIZE - 2 \<longrightarrow> vm_step s vm = None)
    \<and> (stack_top vm < STACK_SIZE - 2 \<longrightarrow> (\<exists>vm'. vm_step s vm = Some (vm', s) \<and> stack_top vm' = stack_top vm + 2))
    \<and> (stack_top vm > STACK_SIZE - 2 \<longrightarrow> vm_step s vm = Some (vm\<lparr>vm_state := VMCRASHED\<rparr>, s))"
  using assms
  by (auto simp: vm_step_def vm_live_def vm_fetch_exec_def NEXTINSTR_def vm_exec_def vm_exec_const_def PUSH_SHORT_def
      stack_put_short_def stack_put_def STACK_SIZE_def)

theorem vm_stack_check_too_late_witness:
  "let s = sample_machines\<lparr>programs := (\<lambda>_. 30)\<rparr>; vm = sample_vm\<lparr>stack_top := STACK_SIZE - 2\<rparr> in
     READ_BYTE s (ip vm) = 30 \<and> vm_step s vm = None"
  using vm_stack_check_too_late [of "sample_vm\<lparr>stack_top := STACK_SIZE - 2\<rparr>" "sample_machines\<lparr>programs := (\<lambda>_. 30)\<rparr>"]
  by (simp add: Let_def sample_vm_def READ_BYTE_def STACK_SIZE_def)

text \<open>
  The mouse movements of the programs and of the keys are added with saturation: the sum of two
  movements is their exact sum, limited to what a signed byte can hold.
\<close>

theorem addT_saturates: "sint (addT x y) = max (- 128) (min 127 (sint x + sint y))"
proof -
  have "sint (word_of_int n :: u8) = n" if "- 128 \<le> n" "n \<le> 127" for n
    using that by (simp add: signed_of_int signed_take_bit_int_eq_self)
  from this [of "sint x + sint y"]
  have "sint (x + y) = sint x + sint y" if "- 128 \<le> sint x + sint y" "sint x + sint y \<le> 127" using that by simp
  then show ?thesis by (auto simp: addT_def Let_def max_def min_def)
qed

subsection \<open>Calls\<close>

lemma stack_put_some: "stack_put i v vm = Some vm' \<longleftrightarrow> 0 \<le> i \<and> i < STACK_SIZE \<and> vm' = vm\<lparr>stack := (stack vm)[nat i := v]\<rparr>"
  by (auto simp: stack_put_def)

lemma stack_put_short_some:
  "stack_put_short i v vm = Some vm' \<longleftrightarrow> 0 \<le> i \<and> i + 1 < STACK_SIZE
     \<and> vm' = vm\<lparr>stack := (stack vm)[nat i := bytes_of_short v ! 0, nat (i + 1) := bytes_of_short v ! 1]\<rparr>"
  by (auto simp: stack_put_short_def stack_put_def)

lemma put_args_some:
  "put_args i args vm = Some vm' \<Longrightarrow> 0 \<le> i \<Longrightarrow> vm' = vm\<lparr>stack := stack vm'\<rparr> \<and> take (nat i) (stack vm') = take (nat i) (stack vm)
     \<and> length (stack vm') = length (stack vm)"
proof (induction i args vm rule: put_args.induct)
  case (2 i a args vm)
  then obtain u where u: "stack_put i a vm = Some u" "put_args (i + 1) args u = Some vm'" by (auto split: bind_splits)
  have "take (nat (i + 1)) (stack vm') = take (nat (i + 1)) (stack u)" "vm' = u\<lparr>stack := stack vm'\<rparr>" "length (stack vm') = length (stack u)"
    using 2 u by auto
  moreover from this(1) have "take (nat i) (stack vm') = take (nat i) (stack u)"
    by (metis "2.prems"(2) min.absorb1 nat_mono take_take zle_add1_eq_le zless_add1_eq less_add_one order_less_imp_le)
  ultimately show ?case using u(1) by (auto simp: stack_put_some)
qed simp

lemma pop_args_some:
  "pop_args n args vm = Some (args', vm') \<Longrightarrow> vm' = vm\<lparr>stack_top := stack_top vm - int n\<rparr>"
proof (induction n arbitrary: args vm)
  case (Suc n)
  then obtain x where "pop_args n (x # args) (vm\<lparr>stack_top := stack_top vm - 1\<rparr>) = Some (args', vm')"
    by (auto simp: POP_BYTE_def split: bind_splits)
  from Suc.IH [OF this] show ?case by (simp add: algebra_simps)
qed simp

text \<open>The number of arguments of the method a call at \<open>ip\<close> names.\<close>

definition call_nargs :: "'a config_state_scheme \<Rightarrow> vmstate \<Rightarrow> nat" where
  "call_nargs s vm = unat (READ_BYTE s (vm_program vm + 2 + 4 * scast (READ_BYTE s (ip vm))))"

lemma bytes_short_id: "short_of_bytes [bytes_of_short v ! 0, bytes_of_short v ! 1] = v"
  using short_bytes_roundtrip [of v] by (simp add: bytes_of_short_def)

definition frame_header :: "nat \<Rightarrow> u16 \<Rightarrow> u16 \<Rightarrow> u16 \<Rightarrow> u8 list \<Rightarrow> bool" where
  "frame_header f ra rs pf st \<longleftrightarrow> take 6 (drop f st) = bytes_of_short ra @ bytes_of_short rs @ bytes_of_short pf"

lemma vm_call_effect:
  assumes "length (stack vm) = nat STACK_SIZE" "vm_call s vm = Some c"
  defines "f \<equiv> stack_top vm - int (call_nargs s vm) + 1"
  shows "0 \<le> f \<and> f + 5 < STACK_SIZE \<and> current_frame c = f \<and> vm_state c = vm_state vm \<and> length (stack c) = nat STACK_SIZE
    \<and> take (nat f) (stack c) = take (nat f) (stack vm)
    \<and> frame_header (nat f) (ip vm + 1) (word_of_int (f - 1)) (word_of_int (current_frame vm)) (stack c)"
proof -
  let ?vm1 = "vm\<lparr>ip := ip vm + 1\<rparr>"
  define st where "st = (stack vm)[nat f := bytes_of_short (ip vm + 1) ! 0, nat (f + 1) := bytes_of_short (ip vm + 1) ! 1,
     nat (f + 2) := bytes_of_short (word_of_int (f - 1)) ! 0, nat (f + 3) := bytes_of_short (word_of_int (f - 1)) ! 1,
     nat (f + 4) := bytes_of_short (word_of_int (current_frame vm)) ! 0, nat (f + 5) := bytes_of_short (word_of_int (current_frame vm)) ! 1]"
  obtain args vm2 where p: "pop_args (call_nargs s vm) [] ?vm1 = Some (args, vm2)"
    using assms(2) by (auto simp: vm_call_def NEXTINSTR_def call_nargs_def Let_def split: bind_splits)
  have vm2: "vm2 = ?vm1\<lparr>stack_top := f - 1\<rparr>" using pop_args_some [OF p] by (simp add: f_def)
  have p': "pop_args (unat (READ_BYTE s (vm_program vm + (2 + 4 * scast (READ_BYTE s (ip vm)))))) [] ?vm1
      = Some (args, ?vm1\<lparr>stack_top := f - 1\<rparr>)" using p by (simp add: call_nargs_def add.assoc vm2)
  have "\<exists>vm5. 0 \<le> f \<and> f + 5 < STACK_SIZE \<and> put_args (f + 6) args (?vm1\<lparr>stack_top := f, stack := st\<rparr>) = Some vm5
      \<and> current_frame c = f \<and> vm_state c = vm_state vm5 \<and> stack c = stack vm5"
    using assms(2) by (auto simp: p' vm_call_def NEXTINSTR_def Let_def stack_put_short_some st_def add.assoc add.commute [of f] split: bind_splits)
  then obtain vm5 where 5: "0 \<le> f" "f + 5 < STACK_SIZE" "put_args (f + 6) args (?vm1\<lparr>stack_top := f, stack := st\<rparr>) = Some vm5"
      "current_frame c = f" "vm_state c = vm_state vm5" "stack c = stack vm5" by blast
  have q: "vm5 = ?vm1\<lparr>stack_top := f, stack := stack vm5\<rparr>" "take (nat (f + 6)) (stack c) = take (nat (f + 6)) st"
      "length (stack c) = length st"
    using put_args_some [OF 5(3)] 5(1,6) by simp_all
  have len: "length st = 96" "nat f + 6 \<le> 96" using assms(1) 5(1,2) by (auto simp: st_def STACK_SIZE_def)
  have idx: "nat (f + 1) = nat f + 1" "nat (f + 2) = nat f + 2" "nat (f + 3) = nat f + 3" "nat (f + 4) = nat f + 4"
    "nat (f + 5) = nat f + 5" "nat (f + 6) = nat f + 6" using 5(1) by (simp_all add: nat_add_distrib)
  have "take (nat f) (stack c) = take (nat f) (take (nat f + 6) st)"
    using q(2) idx(6) by (metis le_add1 min.absorb1 take_take)
  then have t: "take (nat f) (stack c) = take (nat f) (stack vm)" by (simp add: st_def idx)
  have "take 6 (drop (nat f) (stack c)) = drop (nat f) (take (nat f + 6) st)"
    using arg_cong [OF q(2), of "drop (nat f)"] unfolding idx(6) by (simp add: drop_take)
  also have "\<dots> = map (\<lambda>i. st ! (nat f + i)) [0..<6]"
    using len by (intro nth_equalityI) auto
  also have "\<dots> = bytes_of_short (ip vm + 1) @ bytes_of_short (word_of_int (f - 1)) @ bytes_of_short (word_of_int (current_frame vm))"
    using len(2) assms(1) by (simp add: st_def idx upt_rec nth_list_update bytes_of_short_def STACK_SIZE_def)
  finally have "frame_header (nat f) (ip vm + 1) (word_of_int (f - 1)) (word_of_int (current_frame vm)) (stack c)"
    unfolding frame_header_def .
  moreover have "vm_state vm5 = vm_state vm" using arg_cong [OF q(1), of vm_state] by simp
  ultimately show ?thesis using 5 q(3) len t by (simp add: STACK_SIZE_def)
qed

lemma header_read:
  assumes "frame_header f ra rs pf (stack d)" "length (stack d) = nat STACK_SIZE" "int f + 5 < STACK_SIZE"
  shows "stack_get_short (int f) d = Some ra" "stack_get_short (int f + 2) d = Some rs" "stack_get_short (int f + 4) d = Some pf"
proof -
  have n: "stack d ! (f + i) = (bytes_of_short ra @ bytes_of_short rs @ bytes_of_short pf) ! i" if "i < 6" for i
  proof -
    have "f \<le> length (stack d)" using assms(2,3) by (simp add: STACK_SIZE_def)
    then have "stack d ! (f + i) = take 6 (drop f (stack d)) ! i" using that by simp
    then show ?thesis using assms(1) by (simp add: frame_header_def)
  qed
  have idx: "nat (int f) = f" "nat (int f + 1) = f + 1" "nat (int f + 2) = f + 2" "nat (int f + 3) = f + 3" "nat (int f + 4) = f + 4"
    "nat (int f + 5) = f + 5" by (simp_all add: nat_add_distrib)
  show "stack_get_short (int f) d = Some ra" "stack_get_short (int f + 2) d = Some rs" "stack_get_short (int f + 4) d = Some pf"
    using assms(3) n [of 0] n [of 1] n [of 2] n [of 3] n [of 4] n [of 5] bytes_short_id [of ra] bytes_short_id [of rs] bytes_short_id [of pf]
    by (simp_all add: stack_get_short_def stack_get_def idx bytes_of_short_def add.assoc)
qed

text \<open>
  C8: a call and its return. \<open>CALL\<close> opens a frame in place of the arguments. Whatever the method does,
  as long as it leaves the header of its frame and the stack below it alone, each of the three return
  instructions resumes the caller behind the call, with its frame, its stack below the arguments, and
  in place of the arguments the returned byte, the returned short, or nothing.
\<close>

theorem vm_call_return:
  fixes vm :: vmstate
  assumes caller: "length (stack vm) = nat STACK_SIZE" "0 \<le> current_frame vm" "current_frame vm < STACK_SIZE"
      "ip vm + 1 \<noteq> 0" "vm_call s vm = Some c" "int (call_nargs s vm) \<le> stack_top vm"
    and callee: "current_frame d = current_frame c" "length (stack d) = nat STACK_SIZE"
      "take (nat (current_frame c) + 6) (stack d) = take (nat (current_frame c) + 6) (stack c)"
    and ret: "vm_exec_return i d = Some r" "i = 83 \<or> i = 84 \<or> i = 85"
  defines "below_args \<equiv> stack_top vm - int (call_nargs s vm)"
  shows "ip r = ip vm + 1 \<and> current_frame r = current_frame vm
    \<and> take (nat (below_args + 1)) (stack r) = take (nat (below_args + 1)) (stack vm)
    \<and> stack_top r = below_args + (if i = 83 then 1 else if i = 84 then 2 else 0)
    \<and> (i = 83 \<longrightarrow> TOP_BYTE r = TOP_BYTE d) \<and> (i = 84 \<longrightarrow> TOP_SHORT r = TOP_SHORT d)"
proof -
  define f where "f = below_args + 1"
  note e = vm_call_effect [OF caller(1,5), folded below_args_def f_def]
  then have f: "0 \<le> f" "f + 5 < STACK_SIZE" "current_frame d = f" "current_frame c = f" using callee(1) by auto
  have "frame_header (nat f) (ip vm + 1) (word_of_int (f - 1)) (word_of_int (current_frame vm)) (stack d)"
    using e callee(3) unfolding frame_header_def f(4) by (metis drop_take add_diff_cancel_left')
  from header_read [OF this callee(2)] f
  have h: "stack_get_short (current_frame d) d = Some (ip vm + 1)" "stack_get_short (current_frame d + 2) d = Some (word_of_int (f - 1))"
    "stack_get_short (current_frame d + 4) d = Some (word_of_int (current_frame vm))" by simp_all
  have below: "take (nat f) (stack d) = take (nat f) (stack vm)"
    using e callee(3) unfolding f(4) by (metis le_add1 min.absorb1 take_take)
  have u: "uint (word_of_int n :: u16) = n" if "0 \<le> n" "n < 96" for n using that by (simp add: uint_word_of_int)
  have w: "uint (word_of_int (f - 1) :: u16) = f - 1" "uint (word_of_int (current_frame vm) :: u16) = current_frame vm"
    using f caller(2,3,6) by (intro u; simp add: STACK_SIZE_def f_def below_args_def)+
  have dr: "vm_do_return (d\<lparr>stack_top := k\<rparr>) = Some (d\<lparr>stack_top := f - 1, ip := ip vm + 1, current_frame := current_frame vm\<rparr>)" for k
  proof -
    have "stack_get_short j (d\<lparr>stack_top := k\<rparr>) = stack_get_short j d" for j
      by (simp add: stack_get_short_def stack_get_def)
    then show ?thesis unfolding vm_do_return_def by (simp add: h w del: of_int_diff)
  qed
  let ?b = "d\<lparr>stack_top := f - 1, ip := ip vm + 1, current_frame := current_frame vm\<rparr>"
  have ra: "ip vm + 1 \<noteq> 0" by (rule caller(4))
  from ret(2) consider "i = 83" | "i = 84" | "i = 85" by blast
  then show ?thesis
  proof cases
    case 1
    obtain rv where rv: "TOP_BYTE d = Some rv" "PUSH_BYTE rv ?b = Some r"
      using ret(1) 1 ra dr by (auto simp: vm_exec_return_def h(1) POP_BYTE_def split: bind_splits)
    then show ?thesis using 1 f below callee(2)
      by (auto simp: PUSH_BYTE_def stack_put_some TOP_BYTE_def stack_get_def f_def STACK_SIZE_def)
  next
    case 2
    obtain rv where rv: "TOP_SHORT d = Some rv" "PUSH_SHORT rv ?b = Some r"
      using ret(1) 2 ra dr by (auto simp: vm_exec_return_def h(1) POP_SHORT_def split: bind_splits)
    then show ?thesis using 2 f below callee(2) bytes_short_id [of rv]
      by (auto simp: PUSH_SHORT_def stack_put_short_some TOP_SHORT_def stack_get_short_def stack_get_def f_def STACK_SIZE_def
        add.commute [of 1 below_args])
  next
    case 3
    then have "r = ?b" using ret(1) ra dr [of "stack_top d"] by (simp add: vm_exec_return_def h(1))
    then show ?thesis using 3 below by (simp add: f_def)
  qed
qed

text \<open>A program whose first method takes one argument.\<close>

definition call_machines :: interpreter_state where
  "call_machines = sample_machines\<lparr>programs := (\<lambda>_. 0)(26 := 1, 27 := 1)\<rparr>"

lemma call_machines_read:
  "READ_BYTE call_machines a = (if a = 26 \<or> a = 27 then 1 else 0)"
  by (simp add: READ_BYTE_def call_machines_def word_unat_eq_iff)

theorem vm_call_return_witness:
  "\<exists>c r. vm_call call_machines sample_vm = Some c \<and> vm_exec_return 83 c = Some r
     \<and> ip r = 31 \<and> stack_top r = 8 \<and> current_frame r = 0"
proof -
  have n: "call_nargs call_machines sample_vm = 1"
    by (simp add: call_nargs_def call_machines_read sample_vm_def)
  have "\<exists>c. vm_call call_machines sample_vm = Some c \<and> stack_top c = 15 \<and> length (stack c) = 96"
    by (simp add: vm_call_def NEXTINSTR_def Let_def call_machines_read sample_vm_def POP_BYTE_def TOP_BYTE_def stack_get_def
        stack_put_short_def stack_put_def STACK_SIZE_def frame_size_def READ_SHORT_def short_of_bytes_def)
  then obtain c where c: "vm_call call_machines sample_vm = Some c" "stack_top c = 15" "length (stack c) = 96" by blast
  have e: "current_frame c = 8" "frame_header 8 31 7 0 (stack c)"
    using vm_call_effect [OF _ c(1)] by (simp_all add: n sample_vm_fields STACK_SIZE_def)
  have "\<exists>r. vm_exec_return 83 c = Some r"
    using header_read [OF e(2)] c e(1)
    by (simp add: vm_exec_return_def POP_BYTE_def TOP_BYTE_def stack_get_def STACK_SIZE_def vm_do_return_def PUSH_BYTE_def stack_put_def
        stack_get_short_def)
  then obtain r where r: "vm_exec_return 83 c = Some r" by blast
  show ?thesis
    using vm_call_return [OF _ _ _ _ c(1) _ refl _ refl r] c r n
    by (auto simp: sample_vm_fields STACK_SIZE_def)
qed

subsection \<open>The machines do not interfere\<close>

text \<open>What a machine sees of the state: the programs, the time and the keys.\<close>

definition same_view :: "'a interpreter_state_scheme \<Rightarrow> 'a interpreter_state_scheme \<Rightarrow> bool" where
  "same_view s t \<longleftrightarrow> programs s = programs t \<and> uptimems s = uptimems t \<and> logical_to_hid_map s = logical_to_hid_map t
     \<and> key_states s = key_states t \<and> layer s = layer t"

lemma same_view_reads:
  assumes "same_view s t"
  shows "READ_BYTE s = READ_BYTE t" "READ_SHORT s = READ_SHORT t" "NEXTINSTR s = NEXTINSTR t" "NEXTSHORT s = NEXTSHORT t"
    "keystate_check_key k ty s = keystate_check_key k ty t" "keystate_check_hid_key k s = keystate_check_hid_key k t"
    "uptimems s = uptimems t" "timed_out s vm = timed_out t vm"
proof -
  have e: "programs s = programs t" "uptimems s = uptimems t" "logical_to_hid_map s = logical_to_hid_map t"
    "key_states s = key_states t" "layer s = layer t" using assms by (simp_all add: same_view_def)
  show "READ_BYTE s = READ_BYTE t" "READ_SHORT s = READ_SHORT t" "NEXTINSTR s = NEXTINSTR t" "NEXTSHORT s = NEXTSHORT t"
    "keystate_check_key k ty s = keystate_check_key k ty t" "keystate_check_hid_key k s = keystate_check_hid_key k t"
    "uptimems s = uptimems t" "timed_out s vm = timed_out t vm"
    unfolding READ_BYTE_def READ_SHORT_def NEXTINSTR_def NEXTSHORT_def fun_eq_iff keystate_check_key_def
      keystate_check_hid_key_def extract_keycode_def config_get_definition_def timed_out_def e by simp_all
qed

lemma same_view_exec:
  assumes "same_view s t"
  shows "map_option fst (vm_exec i s vm) = map_option fst (vm_exec i t vm)"
proof -
  note r = same_view_reads [OF assms]
  have e: "vm_exec_store i s = vm_exec_store i t" "vm_exec_load i s = vm_exec_load i t" "vm_exec_global i s = vm_exec_global i t"
    "vm_exec_const i s = vm_exec_const i t" "vm_exec_control i s = vm_exec_control i t" "vm_exec_keys i s = vm_exec_keys i t"
    "vm_exec_time i s = vm_exec_time i t"
    unfolding fun_eq_iff vm_exec_store_def vm_exec_load_def vm_local_operand_def vm_exec_global_def vm_exec_const_def
      vm_exec_control_def vm_goto_def vm_call_def vm_exec_keys_def vm_exec_time_def r by simp_all
  define P where "P = (if i \<le> 9 then vm_exec_store i t vm
        else if i \<le> 19 then vm_exec_load i t vm
        else if i \<le> 23 then vm_exec_global i t vm
        else if i \<le> 33 then vm_exec_const i t vm
        else if i \<le> 38 then vm_exec_stack i vm
        else if i \<le> 47 then Some vm
        else if i \<le> 59 then vm_exec_byte_arith i vm
        else if i \<le> 71 then vm_exec_short_arith i vm
        else if i \<le> 73 then vm_exec_convert i vm
        else if i \<le> 86 then vm_exec_control i t vm
        else if i \<le> 90 \<or> 100 \<le> i \<and> i \<le> 102 then vm_exec_keys i t vm
        else if i = 91 \<or> i = 92 \<or> 95 \<le> i \<and> i \<le> 97 then vm_exec_time i t vm
        else Some vm)"
  have P: "vm_exec i s vm = (if i = 98 \<or> i = 99 then vm_exec_buzz i s vm else map_option (\<lambda>vm. (vm, s)) P)"
    "vm_exec i t vm = (if i = 98 \<or> i = 99 then vm_exec_buzz i t vm else map_option (\<lambda>vm. (vm, t)) P)"
    unfolding vm_exec_def P_def e by (rule refl)+
  have "map_option fst (vm_exec_buzz i s vm) = map_option fst (vm_exec_buzz i t vm)"
    by (auto simp: vm_exec_buzz_def map_option_case split: option.splits bind_splits if_splits)
  moreover have "map_option fst (map_option (\<lambda>vm. (vm, s)) P) = map_option fst (map_option (\<lambda>vm. (vm, t)) P)"
    by (cases P) simp_all
  ultimately show ?thesis unfolding P by (cases "i = 98 \<or> i = 99") (simp_all only: if_True if_False)
qed

lemma same_view_step:
  assumes "same_view s t"
  shows "map_option fst (vm_step s vm) = map_option fst (vm_step t vm)"
proof -
  note r = same_view_reads [OF assms]
  have f: "map_option fst (vm_fetch_exec s vm) = map_option fst (vm_fetch_exec t vm)" for vm
    unfolding vm_fetch_exec_def r by (simp add: case_prod_beta Let_def same_view_exec [OF assms])
  have b: "map_option fst (m \<bind> (\<lambda>vm. Some (g vm, s))) = map_option fst (m \<bind> (\<lambda>vm. Some (g vm, t)))"
    for m :: "vmstate option" and g :: "vmstate \<Rightarrow> vmstate" by (cases m) simp_all
  show ?thesis unfolding vm_step_def r by (cases "vm_state vm") (simp_all add: Let_def f b)
qed

lemma same_view_keep:
  "same_view (buzzer_start_f d f s) s" "same_view (s\<lparr>vms := v\<rparr>) s"
  by (simp_all add: same_view_def buzzer_defs Let_def)

lemma same_view_trans: "same_view r s \<Longrightarrow> same_view s t \<Longrightarrow> same_view r t"
  by (simp add: same_view_def)

text \<open>A program changes its machine and starts the buzzer, nothing else.\<close>

lemma vm_exec_frame: "vm_exec i s vm = Some (vm', t) \<Longrightarrow> t = s \<or> (\<exists>d f. t = buzzer_start_f d f s)"
  by (auto simp: vm_exec_def vm_exec_buzz_def split: if_splits bind_splits) blast+

lemma vm_step_frame: "vm_step s vm = Some (vm', t) \<Longrightarrow> t = s \<or> (\<exists>d f. t = buzzer_start_f d f s)"
  using vm_exec_frame
  by (fastforce simp: vm_step_def vm_fetch_exec_def Let_def case_prod_beta split: if_splits bind_splits vm_run_state.splits)

lemma vm_step_view: "vm_step s vm = Some (vm', t) \<Longrightarrow> same_view t s \<and> vms t = vms s"
  using vm_step_frame [of s vm vm' t] same_view_keep(1) by (auto simp: same_view_def buzzer_defs Let_def)

lemma step_from_independent:
  assumes "distinct is" "set is \<subseteq> {..<length (vms s)}"
  shows "(vm_step_from is s = None \<longleftrightarrow> (\<exists>i\<in>set is. vm_live (vm_state (vms s ! i)) \<and> vm_step s (vms s ! i) = None))
    \<and> (\<forall>t. vm_step_from is s = Some t \<longrightarrow> same_view t s \<and> length (vms t) = length (vms s)
      \<and> (\<forall>i < length (vms s). if i \<in> set is \<and> vm_live (vm_state (vms s ! i))
            then map_option fst (vm_step s (vms s ! i)) = Some (vms t ! i) else vms t ! i = vms s ! i))"
  using assms
proof (induction "is" arbitrary: s)
  case Nil
  then show ?case by (simp add: same_view_def)
next
  case (Cons j js)
  have j: "j < length (vms s)" "j \<notin> set js" "distinct js" "set js \<subseteq> {..<length (vms s)}" using Cons.prems by auto
  show ?case
  proof (cases "vm_live (vm_state (vms s ! j))")
    case False
    then have e: "vm_step_from (j # js) s = vm_step_from js s" by simp
    show ?thesis using Cons.IH [OF j(3,4)] False unfolding e by (auto split: if_splits)
  next
    case True
    show ?thesis
    proof (cases "vm_step s (vms s ! j)")
      case None
      then show ?thesis using True by auto
    next
      case (Some p)
      obtain vm u where p: "vm_step s (vms s ! j) = Some (vm, u)" using Some by (cases p) auto
      let ?w = "u\<lparr>vms := (vms u)[j := vm]\<rparr>"
      have w: "same_view ?w s" "vms ?w = (vms s)[j := vm]"
        using vm_step_view [OF p] by (simp_all add: same_view_def)
      have e: "vm_step_from (j # js) s = vm_step_from js ?w" using True p by simp
      have o: "vms ?w ! i = vms s ! i" if "i \<noteq> j" for i using that w(2) by simp
      have oj: "vms ?w ! j = vm" using w(2) j(1) by simp
      have st: "map_option fst (vm_step ?w x) = map_option fst (vm_step s x)" for x by (rule same_view_step [OF w(1)])
      then have stn: "vm_step ?w x = None \<longleftrightarrow> vm_step s x = None" for x by (metis option.map_disc_iff)
      have js: "set js \<subseteq> {..<length (vms ?w)}" using j(4) w(2) by simp
      note IH = Cons.IH [OF j(3) js, unfolded st stn]
      have nj: "vms ?w ! i = vms s ! i" if "i \<in> set js" for i using o that j(2) by metis
      have "vm_step_from js ?w = None \<longleftrightarrow> (\<exists>i\<in>set (j # js). vm_live (vm_state (vms s ! i)) \<and> vm_step s (vms s ! i) = None)"
        using IH nj p by auto
      moreover have "same_view t s \<and> length (vms t) = length (vms s)
          \<and> (\<forall>i < length (vms s). if i \<in> set (j # js) \<and> vm_live (vm_state (vms s ! i))
            then map_option fst (vm_step s (vms s ! i)) = Some (vms t ! i) else vms t ! i = vms s ! i)"
        if t: "vm_step_from js ?w = Some t" for t
      proof (intro conjI allI impI)
        have r: "same_view t ?w" "length (vms t) = length (vms ?w)"
          "\<And>i. i < length (vms ?w) \<Longrightarrow> if i \<in> set js \<and> vm_live (vm_state (vms ?w ! i))
            then map_option fst (vm_step s (vms ?w ! i)) = Some (vms t ! i) else vms t ! i = vms ?w ! i"
          using IH t by blast+
        show "same_view t s" "length (vms t) = length (vms s)" using r(1,2) w same_view_trans by auto
        fix i assume i: "i < length (vms s)"
        then have i': "i < length (vms ?w)" using w(2) by simp
        show "if i \<in> set (j # js) \<and> vm_live (vm_state (vms s ! i))
            then map_option fst (vm_step s (vms s ! i)) = Some (vms t ! i) else vms t ! i = vms s ! i"
        proof (cases "i = j")
          case True
          then show ?thesis using r(3) [OF i'] j(2) oj p \<open>vm_live (vm_state (vms s ! j))\<close> by simp
        next
          case False
          show ?thesis using r(3) [OF i'] unfolding o [OF False] by (simp only: list.set insert_iff False simp_thms)
        qed
      qed
      ultimately show ?thesis unfolding e by blast
    qed
  qed
qed

text \<open>
  C20: a round over the machines. Every machine that runs makes exactly one step, and it makes the step
  it would make alone: no machine sees or changes another one, whatever the order. The round is
  undefined only if the step of one of the machines is.
\<close>

theorem vm_step_all_independent:
  assumes "length (vms s) = PROGRAM_COUNT"
  shows "(vm_step_all s = None \<longleftrightarrow> (\<exists>i < PROGRAM_COUNT. vm_live (vm_state (vms s ! i)) \<and> vm_step s (vms s ! i) = None))
    \<and> (\<forall>t. vm_step_all s = Some t \<longrightarrow> (\<forall>i < PROGRAM_COUNT. if vm_live (vm_state (vms s ! i))
          then map_option fst (vm_step s (vms s ! i)) = Some (vms t ! i) else vms t ! i = vms s ! i))"
proof -
  have "set [0..<PROGRAM_COUNT] \<subseteq> {..<length (vms s)}" using assms by auto
  note r = step_from_independent [OF distinct_upt this]
  have "vm_step_all s = None \<longleftrightarrow> (\<exists>i < PROGRAM_COUNT. vm_live (vm_state (vms s ! i)) \<and> vm_step s (vms s ! i) = None)"
    using r unfolding vm_step_all_def by auto
  moreover have "if vm_live (vm_state (vms s ! i)) then map_option fst (vm_step s (vms s ! i)) = Some (vms t ! i) else vms t ! i = vms s ! i"
    if "vm_step_all s = Some t" "i < PROGRAM_COUNT" for t i
  proof -
    have "i \<in> set [0..<PROGRAM_COUNT]" "i < length (vms s)" using that(2) assms by auto
    then show ?thesis using r that(1) unfolding vm_step_all_def by metis
  qed
  ultimately show ?thesis by blast
qed

theorem vm_step_all_independent_witness:
  "\<exists>t. vm_step_all (sample_machines\<lparr>programs := (\<lambda>_. 34)\<rparr>) = Some t \<and> stack_top (vms t ! 5) = 9"
proof -
  let ?s = "sample_machines\<lparr>programs := (\<lambda>_. 34)\<rparr>"
  have v: "vms ?s = replicate PROGRAM_COUNT sample_vm"
    by (simp add: sample_machines_def interpreter_state.defs keystate_state.defs)
  have st: "\<exists>vm. vm_step ?s sample_vm = Some (vm, ?s) \<and> stack_top vm = 9"
    by (simp add: vm_step_def sample_vm_def vm_live_def STACK_SIZE_def vm_fetch_exec_def NEXTINSTR_def READ_BYTE_def vm_exec_def
        vm_exec_stack_def TOP_BYTE_def stack_get_def PUSH_BYTE_def stack_put_def)
  then have d: "\<not> (\<exists>i < PROGRAM_COUNT. vm_live (vm_state (vms ?s ! i)) \<and> vm_step ?s (vms ?s ! i) = None)"
    by (auto simp: v)
  have len: "length (vms ?s) = PROGRAM_COUNT" by (simp add: v)
  note r = vm_step_all_independent [OF len]
  obtain t where t: "vm_step_all ?s = Some t" using r d by blast
  have "vms ?s ! 5 = sample_vm" "5 < PROGRAM_COUNT" "vm_live (vm_state sample_vm)"
    by (simp_all add: v PROGRAM_COUNT_def sample_vm_def vm_live_def)
  then have "map_option fst (vm_step ?s sample_vm) = Some (vms t ! 5)" using r t by metis
  then show ?thesis using t st by auto
qed

subsection \<open>Waiting\<close>

text \<open>
  A delay ends, and not too early. When a program has executed \<open>DELAY\<close> for some milliseconds, its
  machine does nothing while they last, and as soon as the time has passed its next step executes the
  next instruction. The clock may not wrap around in between.
\<close>

theorem vm_delay_waits:
  assumes "vm_exec_time 95 s vm = Some vm'" "POP_SHORT vm = Some (ms, popped)" "0 \<le> sint ms"
    and "stack_top vm \<le> STACK_SIZE - 2" "uint (uptimems s) + uint ms < 2 ^ 32"
  shows "vm_state vm' = VMDELAY
    \<and> (uint (uptimems t) \<le> uint (uptimems s) + uint ms \<longrightarrow> vm_step t vm' = Some (vm', t))
    \<and> (uint (uptimems t) > uint (uptimems s) + uint ms \<longrightarrow>
        vm_step t vm' = vm_fetch_exec t (popped\<lparr>delay_end_ms := 0, vm_state := VMRUNNING\<rparr>))"
proof -
  have vm': "vm' = popped\<lparr>delay_end_ms := uptimems s + ucast ms, vm_state := VMDELAY\<rparr>"
    using assms(1-3) by (simp add: vm_exec_time_def)
  have "stack_top popped = stack_top vm - 2" using assms(2) by (auto simp: POP_SHORT_def split: bind_splits)
  then have top: "\<not> stack_top vm' > STACK_SIZE - 2" using assms(4) by (simp add: vm')
  have "uint ms < 2 ^ 16" using uint_bounded [of ms] by simp
  then have "uint (ucast ms :: u32) = uint ms" by (simp add: unsigned_ucast_eq take_bit_int_eq_self)
  then have "uint (uptimems s + ucast ms :: u32) = uint (uptimems s) + uint ms"
    using assms(5) uint_add_lem [of "uptimems s" "ucast ms :: u32"] by simp
  then have "uptimems t > uptimems s + ucast ms \<longleftrightarrow> uint (uptimems t) > uint (uptimems s) + uint ms"
    by (simp add: word_less_def)
  then show ?thesis using top by (simp add: vm' vm_step_def vm_live_def)
qed

theorem vm_delay_waits_witness:
  "\<exists>vm'. vm_exec_time 95 sample_machines (sample_vm\<lparr>stack := (stack sample_vm)[8 := 0]\<rparr>) = Some vm'
     \<and> vm_step (sample_machines\<lparr>uptimems := 1007\<rparr>) vm' = Some (vm', sample_machines\<lparr>uptimems := 1007\<rparr>)"
proof -
  let ?vm = "sample_vm\<lparr>stack := (stack sample_vm)[8 := 0]\<rparr>"
  have p: "POP_SHORT ?vm = Some (7, ?vm\<lparr>stack_top := 6\<rparr>)"
    by (simp add: POP_SHORT_def TOP_SHORT_def stack_get_short_def stack_get_def sample_vm_def STACK_SIZE_def short_of_bytes_def
        nth_append)
  have u: "uptimems sample_machines = 1000" by (simp add: sample_machines_def interpreter_state.defs keystate_state.defs)
  obtain vm' where v: "vm_exec_time 95 sample_machines ?vm = Some vm'" by (simp add: vm_exec_time_def p)
  have "vm_step (sample_machines\<lparr>uptimems := 1007\<rparr>) vm' = Some (vm', sample_machines\<lparr>uptimems := 1007\<rparr>)"
    using vm_delay_waits [OF v p, of "sample_machines\<lparr>uptimems := 1007\<rparr>"] by (simp add: u sample_vm_def STACK_SIZE_def)
  then show ?thesis using v by blast
qed

end
