(* ===== verification/Board.thy ===== *)
theory Board
  imports Interpreter
begin

text \<open>
  The light sensor and the panel of an LCD and four LEDs of \<open>k84cs.c\<close>. The LCD library is a client of the
  board that only receives texts: the model records what it is told. An LED that is lit has the light value its
  brightness is computed from; the computation of the pulse width in floating point is not modelled, nor are the
  registers that \<open>ports_init\<close> sets up beyond those of the matrix, which is in \<open>KatyMatrix\<close>.
\<close>

subsection \<open>State of the panel\<close>

datatype lcd_op = lcd_print string | lcd_set_position nat nat

record board_state = interpreter_state +
  sLuxValToShowOnLcd :: u16
  sNumberToShowOnLcd :: u16
  prev_led_mask :: u8
  prev_lux_val :: u16
  prev_num_val :: u16
  lcd :: "lcd_op list"
  red_led :: "u16 option"
  yellow_led :: "u16 option"
  green_led :: "u16 option"
  blue_led :: "u16 option"
  next_step_time_ms :: u32
  adc_rv :: "u16 list"
  adc_started :: bool
  adc_index :: nat

definition LED_CAPS :: u8 where "LED_CAPS = 1"
definition LED_NUM :: u8 where "LED_NUM = 2"
definition LED_SCROLL :: u8 where "LED_SCROLL = 4"
definition LED_KEYPAD :: u8 where "LED_KEYPAD = 8"
definition LED_FUNCTION :: u8 where "LED_FUNCTION = 16"
definition LEDMASK_USB_NOTREADY :: u8 where "LEDMASK_USB_NOTREADY = 0xE0"
definition LEDMASK_USB_ENUMERATING :: u8 where "LEDMASK_USB_ENUMERATING = 0xE1"
definition LEDMASK_USB_READY :: u8 where "LEDMASK_USB_READY = 0xE2"
definition LEDMASK_USB_ERROR :: u8 where "LEDMASK_USB_ERROR = 0xE3"
definition LEDMASK_NOP :: u8 where "LEDMASK_NOP = 0xFF"
definition LEDMASK_PROGRAMMING_SRC :: u8 where "LEDMASK_PROGRAMMING_SRC = 0x20"
definition LEDMASK_PROGRAMMING_DST :: u8 where "LEDMASK_PROGRAMMING_DST = 0x40"
definition LEDMASK_MACRO_TRIGGER :: u8 where "LEDMASK_MACRO_TRIGGER = 0x60"
definition LEDMASK_MACRO_RECORD :: u8 where "LEDMASK_MACRO_RECORD = 0x80"
definition LEDMASK_MACROS_ENABLED :: u8 where "LEDMASK_MACROS_ENABLED = 0xA0"
definition LEDMASK_PROGRAMS_ENABLED :: u8 where "LEDMASK_PROGRAMS_ENABLED = 0xC0"

lemmas led_masks = LED_CAPS_def LED_NUM_def LED_SCROLL_def LED_KEYPAD_def LED_FUNCTION_def
  LEDMASK_USB_NOTREADY_def LEDMASK_USB_ENUMERATING_def LEDMASK_USB_READY_def LEDMASK_USB_ERROR_def
  LEDMASK_NOP_def LEDMASK_PROGRAMMING_SRC_def LEDMASK_PROGRAMMING_DST_def LEDMASK_MACRO_TRIGGER_def
  LEDMASK_MACRO_RECORD_def LEDMASK_MACROS_ENABLED_def LEDMASK_PROGRAMS_ENABLED_def

subsection \<open>LEDs and LCD\<close>

definition lcd_out :: "lcd_op list \<Rightarrow> 'a board_state_scheme \<Rightarrow> 'a board_state_scheme" where
  "lcd_out ops s = s\<lparr>lcd := lcd s @ ops\<rparr>"

definition lcd_print_position :: "nat \<Rightarrow> nat \<Rightarrow> string \<Rightarrow> 'a board_state_scheme \<Rightarrow> 'a board_state_scheme" where
  "lcd_print_position row col txt s = lcd_out [lcd_set_position row col, lcd_print txt] s"

definition usb_message :: "u8 \<Rightarrow> string" where
  "usb_message led_mask =
     (if led_mask = LEDMASK_USB_NOTREADY then ''Usb Wait''
      else if led_mask = LEDMASK_USB_ENUMERATING then ''Usb Enum''
      else if led_mask = LEDMASK_USB_READY then ''Usb OK  ''
      else if led_mask = LEDMASK_USB_ERROR then ''Usb Err ''
      else ''BAD Msg!'')"

text \<open>The layer name and the lock LEDs: the four characters for the LCD and the LEDs.\<close>

definition layer_name :: "u8 \<Rightarrow> string" where
  "layer_name led_mask =
     (if led_mask AND LED_KEYPAD \<noteq> 0 then ''Keypad  ''
      else if led_mask AND LED_FUNCTION \<noteq> 0 then ''Function'' else ''Normal  '')"

definition lock_message :: "u8 \<Rightarrow> string" where
  "lock_message led_mask =
     (let m = (if led_mask AND LED_CAPS \<noteq> 0 then ''C'' else []) @ (if led_mask AND LED_NUM \<noteq> 0 then ''N'' else [])
              @ (if led_mask AND LED_SCROLL \<noteq> 0 then ''S'' else []);
          tag_msg = led_mask AND 0xE0
      in m @ replicate (3 - length m) CHR '' '' @
         (if tag_msg = LEDMASK_PROGRAMS_ENABLED then ''Q'' else if tag_msg = LEDMASK_MACROS_ENABLED then ''q'' else '' ''))"

definition update_leds :: "u8 \<Rightarrow> 'a board_state_scheme \<Rightarrow> 'a board_state_scheme" where
  "update_leds led_mask s =
     (let lit = (\<lambda>on. if on then Some (sLuxValToShowOnLcd s) else None)
      in s\<lparr>blue_led := lit (led_mask AND LED_KEYPAD \<noteq> 0 \<or> led_mask AND LED_FUNCTION \<noteq> 0),
           red_led := lit (led_mask AND LED_CAPS \<noteq> 0),
           yellow_led := lit (led_mask AND LED_NUM \<noteq> 0),
           green_led := lit (led_mask AND LED_SCROLL \<noteq> 0)\<rparr>)"

definition tag_message :: "u8 \<Rightarrow> 'a board_state_scheme \<Rightarrow> string" where
  "tag_message tag_msg s =
     (if tag_msg = 0 \<or> tag_msg = LEDMASK_MACROS_ENABLED \<or> tag_msg = LEDMASK_PROGRAMS_ENABLED then
        if sNumberToShowOnLcd s \<noteq> 0xFFFF then get_lux_str (sNumberToShowOnLcd s)
        else get_lux_str (sLuxValToShowOnLcd s)
      else if tag_msg = LEDMASK_PROGRAMMING_SRC then ''Src?''
      else if tag_msg = LEDMASK_PROGRAMMING_DST then ''Dst?''
      else if tag_msg = LEDMASK_MACRO_TRIGGER then ''Trg?''
      else if tag_msg = LEDMASK_MACRO_RECORD then ''Rec?''
      else ''ERR!'')"

definition set_all_leds :: "u8 \<Rightarrow> 'a board_state_scheme \<Rightarrow> 'a board_state_scheme" where
  "set_all_leds led_mask s =
     (let led_changed = (led_mask \<noteq> prev_led_mask s \<and> led_mask \<noteq> LEDMASK_NOP);
          lux_changed = (sLuxValToShowOnLcd s \<noteq> prev_lux_val s);
          num_changed = (sNumberToShowOnLcd s \<noteq> prev_num_val s)
      in if \<not> led_changed \<and> \<not> lux_changed \<and> \<not> num_changed then s else
      let s = (if led_changed then s\<lparr>prev_led_mask := led_mask\<rparr> else s);
          led_mask = prev_led_mask s;
          s = (if lux_changed then s\<lparr>prev_lux_val := sLuxValToShowOnLcd s\<rparr> else s);
          s = (if num_changed then s\<lparr>prev_num_val := sNumberToShowOnLcd s\<rparr> else s);
          tag_msg = led_mask AND 0xE0
      in if led_changed \<and> tag_msg = 0xE0 then lcd_print_position 0 0 (usb_message led_mask) s else
      let s = (if led_changed \<or> lux_changed then
                 let s = update_leds led_mask s
                 in if led_changed
                    then lcd_print_position 1 0 (lock_message led_mask) (lcd_print_position 0 0 (layer_name led_mask) s)
                    else s
               else s);
          s = (if \<not> led_changed then lcd_out [lcd_set_position 1 4] s else s)
      in lcd_out [lcd_print (tag_message tag_msg s)] s)"

definition set_number_to_show_on_lcd :: "u16 \<Rightarrow> 'a board_state_scheme \<Rightarrow> 'a board_state_scheme" where
  "set_number_to_show_on_lcd x s = set_all_leds LEDMASK_NOP (s\<lparr>sNumberToShowOnLcd := x\<rparr>)"

definition clear_number_to_show_on_lcd :: "'a board_state_scheme \<Rightarrow> 'a board_state_scheme" where
  "clear_number_to_show_on_lcd s = set_number_to_show_on_lcd 0xFFFF s"

subsection \<open>Light sensor\<close>

text \<open>
  One call at time \<open>cur_time_ms\<close>; the converter answers with \<open>None\<close> while a conversion runs and with its
  result register when it is finished.
\<close>

definition run_photosensor :: "u32 \<Rightarrow> u16 option \<Rightarrow> 'a board_state_scheme \<Rightarrow> bool \<times> 'a board_state_scheme" where
  "run_photosensor cur_time_ms adc s =
     (if cur_time_ms < next_step_time_ms s then (False, s)
      else if \<not> adc_started s then (False, s\<lparr>adc_started := True\<rparr>)
      else case adc of None \<Rightarrow> (False, s) | Some ch0res \<Rightarrow>
        let s = s\<lparr>adc_started := False, adc_rv := (adc_rv s)[adc_index s := ch0res AND 0x0FFF],
                  adc_index := adc_index s + 1\<rparr>
        in if adc_index s < 20 then (False, s\<lparr>next_step_time_ms := cur_time_ms + 1\<rparr>)
           else let s = s\<lparr>adc_index := 0\<rparr>;
                    adc_average = fold (\<lambda>i a. a + ucast (adc_rv s ! i)) [0..<20] (0 :: u32) div 20;
                    lux_val = (if adc_average < 182 then 0 else ucast (adc_average - 182));
                    s = set_all_leds LEDMASK_NOP (s\<lparr>sLuxValToShowOnLcd := lux_val\<rparr>)
                in (False, s\<lparr>next_step_time_ms := cur_time_ms + 1000\<rparr>))"

end
