(* ===== verification/Keyboard.thy ===== *)
theory Keyboard
  imports Board
begin

text \<open>
  \<open>Keyboard.c\<close>: the state machine that joins the components. One pass of the main loop scans the keys,
  updates the LEDs, handles the state it is in and steps the programs; the USB driver asks for reports
  between passes, and the timer interrupt advances the time. \<open>None\<close> is the undefined behaviour of a
  program on one of the virtual machines, or of a macro index entry that names a program that does not
  exist.
\<close>

subsection \<open>State\<close>

datatype kb_state = STATE_NORMAL | STATE_WAITING | STATE_PRINTING | STATE_PROGRAMMING_SRC | STATE_PROGRAMMING_DST
  | STATE_MACRO_RECORD_TRIGGER | STATE_MACRO_RECORD | STATE_MERGING_MACRO_PLAY | STATE_MACRO_PLAY

record keyboard_state = board_state +
  current_state :: kb_state
  next_state :: kb_state
  wait_key_press_count :: u8
  in_prg_chord_with_lcd_info :: bool
  new_debounce_len :: u8
  new_mouse_div :: u8
  new_wheel_div :: u8
  program_src_hkey :: hid_keycode
  trigger_key :: macro_idx_key
  last_count :: u8
  recording_macro :: bool
  USB_LEDReport :: u8
  prev_key_press_counter :: u16
  lcd_number_expire_time :: u32
  update_keys :: bool
  rebooted :: bool

text \<open>The HID codes of the built-in combinations.\<close>

definition SPECIAL_HKEY_CONFIG_LOAD :: u8 where "SPECIAL_HKEY_CONFIG_LOAD = 0x08"
definition SPECIAL_HKEY_CONFIG_SAVE :: u8 where "SPECIAL_HKEY_CONFIG_SAVE = 0x16"
definition SPECIAL_HKEY_CONFIG_DELETE :: u8 where "SPECIAL_HKEY_CONFIG_DELETE = 0x07"
definition SPECIAL_HKEY_MACROS_ENABLE :: u8 where "SPECIAL_HKEY_MACROS_ENABLE = 0x14"
definition SPECIAL_HKEY_MACRO_RECORD :: u8 where "SPECIAL_HKEY_MACRO_RECORD = 0x1A"
definition SPECIAL_HKEY_REMAP :: u8 where "SPECIAL_HKEY_REMAP = 0x15"
definition SPECIAL_HKEY_REBOOT :: u8 where "SPECIAL_HKEY_REBOOT = 0x05"
definition SPECIAL_HKEY_RESET_CONFIG :: u8 where "SPECIAL_HKEY_RESET_CONFIG = 0x06"
definition SPECIAL_HKEY_RESET_FULLY :: u8 where "SPECIAL_HKEY_RESET_FULLY = 0x09"
definition SPECIAL_HKEY_TOGGLE_BUZZER :: u8 where "SPECIAL_HKEY_TOGGLE_BUZZER = 0x1D"
definition SPECIAL_HKEY_DEBOUNCE_UP :: u8 where "SPECIAL_HKEY_DEBOUNCE_UP = 0x2B"
definition SPECIAL_HKEY_DEBOUNCE_DW :: u8 where "SPECIAL_HKEY_DEBOUNCE_DW = 0x29"
definition SPECIAL_HKEY_MOUSE_DIV_UP :: u8 where "SPECIAL_HKEY_MOUSE_DIV_UP = 0x17"
definition SPECIAL_HKEY_MOUSE_DIV_DW :: u8 where "SPECIAL_HKEY_MOUSE_DIV_DW = 0x0A"
definition SPECIAL_HKEY_WHEEL_DIV_UP :: u8 where "SPECIAL_HKEY_WHEEL_DIV_UP = 0x39"
definition SPECIAL_HKEY_WHEEL_DIV_DW :: u8 where "SPECIAL_HKEY_WHEEL_DIV_DW = 0x7F"
definition HID_KEYBOARD_SC_1_AND_EXCLAMATION :: u8 where "HID_KEYBOARD_SC_1_AND_EXCLAMATION = 0x1E"

definition go_to :: "kb_state \<Rightarrow> kb_state \<Rightarrow> 'a keyboard_state_scheme \<Rightarrow> 'a keyboard_state_scheme" where
  "go_to cur nxt s = s\<lparr>current_state := cur, next_state := nxt\<rparr>"

definition reboot_firmware :: "'a keyboard_state_scheme \<Rightarrow> 'a keyboard_state_scheme" where
  "reboot_firmware s = s\<lparr>rebooted := True\<rparr>"

subsection \<open>Normal state\<close>

fun first_plain :: "logical_keycode list \<Rightarrow> 'a config_state_scheme \<Rightarrow> logical_keycode option" where
  "first_plain [] s = None"
| "first_plain (k # ks) s =
     (if k = NO_KEY then None
      else if config_get_definition k s < HID_KEYBOARD_SC_LEFT_CONTROL then Some k else first_plain ks s)"

definition select_main_trigger_key :: "macro_idx_key \<Rightarrow> 'a config_state_scheme \<Rightarrow> logical_keycode" where
  "select_main_trigger_key key s = (case first_plain key s of Some k \<Rightarrow> k | None \<Rightarrow> key ! 0)"

text \<open>
  The buffer the pressed keys are read into. Entries that \<open>keystate_get_keys\<close> does not write keep what
  the buffer \<open>old\<close> held. Two of these buffers are uninitialised locals in the source, zero here;
  \<open>KeyboardCorrect\<close> shows that every entry up to \<open>key_press_count\<close> is written as long as the host has not
  moved the layer and program keys.
\<close>

definition read_keys :: "macro_idx_key \<Rightarrow> 'a keystate_state_scheme \<Rightarrow> macro_idx_key" where
  "read_keys old s = (let ks = keystate_get_keys LOGICAL s in ks @ drop (length ks) old)"

text \<open>
  One of the numbers that are set with the program key: \<open>None\<close> when another number is being set,
  otherwise its new value.
\<close>

definition setup_number :: "bool \<Rightarrow> u8 \<Rightarrow> u8 \<Rightarrow> (u8 \<Rightarrow> u8) \<Rightarrow> u8 option" where
  "setup_number in_chord configured new_value change =
     (if \<not> in_chord then Some configured else if new_value = 0 then None else Some (change new_value))"

definition setup_number_finish :: "u8 \<Rightarrow> 'a keyboard_state_scheme \<Rightarrow> 'a keyboard_state_scheme" where
  "setup_number_finish n s =
     go_to STATE_WAITING STATE_NORMAL
       ((set_number_to_show_on_lcd (ucast n) s)\<lparr>in_prg_chord_with_lcd_info := True, wait_key_press_count := 2\<rparr>)"

definition change_debounce :: "(u8 \<Rightarrow> u8) \<Rightarrow> 'a keyboard_state_scheme \<Rightarrow> 'a keyboard_state_scheme" where
  "change_debounce change s = (case setup_number (in_prg_chord_with_lcd_info s) (config_get_debounce_len s) (new_debounce_len s) change of
     None \<Rightarrow> s | Some n \<Rightarrow> setup_number_finish n (s\<lparr>new_debounce_len := n\<rparr>))"

definition change_mouse_div :: "(u8 \<Rightarrow> u8) \<Rightarrow> 'a keyboard_state_scheme \<Rightarrow> 'a keyboard_state_scheme" where
  "change_mouse_div change s = (case setup_number (in_prg_chord_with_lcd_info s) (config_get_mouse_div s) (new_mouse_div s) change of
     None \<Rightarrow> s | Some n \<Rightarrow> setup_number_finish n (s\<lparr>new_mouse_div := n\<rparr>))"

definition change_wheel_div :: "(u8 \<Rightarrow> u8) \<Rightarrow> 'a keyboard_state_scheme \<Rightarrow> 'a keyboard_state_scheme" where
  "change_wheel_div change s = (case setup_number (in_prg_chord_with_lcd_info s) (config_get_wheel_div s) (new_wheel_div s) change of
     None \<Rightarrow> s | Some n \<Rightarrow> setup_number_finish n (s\<lparr>new_wheel_div := n\<rparr>))"

definition cycle_macros_enabled :: "'a keyboard_state_scheme \<Rightarrow> 'a keyboard_state_scheme" where
  "cycle_macros_enabled s =
     (let flags = config_get_flags s;
          flags = (if programs_enabled flags then flags\<lparr>programs_enabled := False, macros_enabled := False\<rparr>
                   else if macros_enabled flags then flags\<lparr>programs_enabled := True\<rparr>
                   else flags\<lparr>macros_enabled := True\<rparr>);
          s = config_save_flags flags s;
          s = buzzer_start_f 100 (if macros_enabled flags then BUZZER_ON_TONE else BUZZER_OFF_TONE) s
      in go_to STATE_WAITING STATE_NORMAL s)"

definition toggle_key_sound :: "'a keyboard_state_scheme \<Rightarrow> 'a keyboard_state_scheme" where
  "toggle_key_sound s =
     (let flags = config_get_flags s;
          flags = flags\<lparr>key_sound_enabled := \<not> key_sound_enabled flags\<rparr>;
          s = config_save_flags flags s;
          s = buzzer_start_f 100 (if key_sound_enabled flags then BUZZER_ON_TONE else BUZZER_OFF_TONE) s
      in go_to STATE_WAITING STATE_NORMAL s)"

text \<open>Program key and one other key: \<open>None\<close> when the combination means nothing.\<close>

definition two_key_chord :: "hid_keycode \<Rightarrow> 'a keyboard_state_scheme \<Rightarrow> 'a keyboard_state_scheme option" where
  "two_key_chord h s =
     (if h = SPECIAL_HKEY_MACRO_RECORD then Some (go_to STATE_WAITING STATE_MACRO_RECORD_TRIGGER s)
      else if h = SPECIAL_HKEY_REMAP then Some (go_to STATE_WAITING STATE_PROGRAMMING_SRC s)
      else if h = SPECIAL_HKEY_REBOOT then Some (reboot_firmware s)
      else if h = SPECIAL_HKEY_MACROS_ENABLE then Some (cycle_macros_enabled s)
      else if h = SPECIAL_HKEY_RESET_CONFIG then Some (go_to STATE_WAITING STATE_NORMAL (config_reset_defaults s))
      else if h = SPECIAL_HKEY_TOGGLE_BUZZER then Some (toggle_key_sound s)
      else if h = SPECIAL_HKEY_DEBOUNCE_UP then Some (change_debounce (\<lambda>n. if unat n < MAX_DEBOUNCE_LEN then n + 1 else n) s)
      else if h = SPECIAL_HKEY_DEBOUNCE_DW then Some (change_debounce (\<lambda>n. if n > 2 then n - 1 else n) s)
      else if h = SPECIAL_HKEY_MOUSE_DIV_UP then Some (change_mouse_div (\<lambda>n. if n < 254 then n + 1 else n) s)
      else if h = SPECIAL_HKEY_MOUSE_DIV_DW then Some (change_mouse_div (\<lambda>n. if n > 1 then n - 1 else n) s)
      else if h = SPECIAL_HKEY_WHEEL_DIV_UP then Some (change_wheel_div (\<lambda>n. if n < 254 then n + 1 else n) s)
      else if h = SPECIAL_HKEY_WHEEL_DIV_DW then Some (change_wheel_div (\<lambda>n. if n > 1 then n - 1 else n) s)
      else None)"

definition layout_result :: "bool \<times> 'a keyboard_state_scheme \<Rightarrow> 'a keyboard_state_scheme" where
  "layout_result = (\<lambda>(success, s).
     if success then go_to STATE_WAITING STATE_NORMAL (buzzer_start_f 200 BUZZER_SUCCESS_TONE s)
     else go_to STATE_PRINTING STATE_NORMAL (buzzer_start_f 200 BUZZER_FAILURE_TONE s))"

text \<open>Program key and two other keys, in ascending order.\<close>

definition three_key_chord :: "hid_keycode \<Rightarrow> hid_keycode \<Rightarrow> 'a keyboard_state_scheme \<Rightarrow> 'a keyboard_state_scheme option" where
  "three_key_chord h0 h1 s =
     (if h0 = SPECIAL_HKEY_RESET_CONFIG \<and> h1 = SPECIAL_HKEY_RESET_FULLY
      then Some (go_to STATE_WAITING STATE_NORMAL (config_reset_fully s))
      else if h1 \<ge> HID_KEYBOARD_SC_1_AND_EXCLAMATION
        \<and> unat h1 \<le> unat HID_KEYBOARD_SC_1_AND_EXCLAMATION + NUM_KEY_MAPPING_INDICES then
        let index = h1 - HID_KEYBOARD_SC_1_AND_EXCLAMATION in
        if h0 = SPECIAL_HKEY_CONFIG_SAVE then Some (layout_result (config_save_layout index s))
        else if h0 = SPECIAL_HKEY_CONFIG_LOAD then Some (layout_result (config_load_layout index s))
        else if h0 = SPECIAL_HKEY_CONFIG_DELETE then Some (layout_result (config_delete_layout index s))
        else None
      else None)"

definition program_chord :: "macro_idx_key \<Rightarrow> 'a keyboard_state_scheme \<Rightarrow> 'a keyboard_state_scheme option" where
  "program_chord macro_key s =
     (let n = unat (key_press_count s) in
      if 2 \<le> n \<and> n \<le> 3 then
        let hid_keys = insertionsort_uint8 (map (\<lambda>k. config_get_definition k s) (take n macro_key)) n in
        if hid_keys ! (n - 1) = SPECIAL_HID_KEY_PROGRAM then
          if n = 2 then two_key_chord (hid_keys ! 0) s else three_key_chord (hid_keys ! 0) (hid_keys ! 1) s
        else None
      else None)"

text \<open>The entry of a trigger, the trigger itself and whether several keys make it.\<close>

definition find_trigger :: "macro_idx_key \<Rightarrow> 'a keyboard_state_scheme \<Rightarrow> (nat \<times> macro_idx_key \<times> bool) option" where
  "find_trigger macro_key s =
     (let n = unat (key_press_count s) in
      case macro_idx_lookup macro_key s of
        Some h \<Rightarrow> Some (h, macro_key, n > 1)
      | None \<Rightarrow>
          if n > 1 then
            let macro_key = select_main_trigger_key macro_key s # replicate (n - 1) NO_KEY @ drop n macro_key
            in map_option (\<lambda>h. (h, macro_key, False)) (macro_idx_lookup macro_key s)
          else None)"

definition start_trigger :: "nat \<times> macro_idx_key \<times> bool \<Rightarrow> configuration_flags \<Rightarrow> 'a keyboard_state_scheme
    \<Rightarrow> 'a keyboard_state_scheme option" where
  "start_trigger = (\<lambda>(h, macro_key, multi_key_trigger) flags s.
     let md = macro_idx_get_data h s in
     case idx_type md of
       PROGRAM \<Rightarrow>
         if \<not> programs_enabled flags then Some s
         else if keystate_is_key_hidden (macro_key ! 0) s then Some s
         else let s = fold keystate_hide_key (take (unat (key_press_count s)) macro_key) s
              in map_option snd (vm_start (ucast (idx_data md)) (select_main_trigger_key macro_key s) s)
     | MACRO \<Rightarrow>
         if \<not> macros_enabled flags then Some s
         else case macros_start_playback (idx_data md) s of
           (True, s) \<Rightarrow>
             let s = s\<lparr>wait_key_press_count := key_press_count s\<rparr>;
                 s = keystate_hide_key (select_main_trigger_key macro_key s) s
             in Some (s\<lparr>current_state := if multi_key_trigger then STATE_MACRO_PLAY else STATE_MERGING_MACRO_PLAY\<rparr>)
         | (False, s) \<Rightarrow> Some (buzzer_start_f 200 BUZZER_FAILURE_TONE s))"

definition handle_state_normal :: "'a keyboard_state_scheme \<Rightarrow> 'a keyboard_state_scheme option" where
  "handle_state_normal s =
     (if key_press_count s = 0 \<or> unat (key_press_count s) > MACRO_MAX_KEYS then Some s
      else let macro_key = read_keys (replicate MACRO_MAX_KEYS 0) s in
      case program_chord macro_key s of Some s \<Rightarrow> Some s | None \<Rightarrow>
      let flags = config_get_flags s in
      if \<not> (macros_enabled flags \<or> programs_enabled flags) then Some s
      else case macro_idx_format_key macro_key (unat (key_press_count s)) of
        (macro_key, False) \<Rightarrow> Some s
      | (macro_key, True) \<Rightarrow>
          (case find_trigger macro_key s of None \<Rightarrow> Some s | Some t \<Rightarrow> start_trigger t flags s))"

subsection \<open>Remapping\<close>

definition handle_state_programming :: "'a keyboard_state_scheme \<Rightarrow> 'a keyboard_state_scheme" where
  "handle_state_programming s =
     (if key_press_count s = 0 \<or> key_press_count s > 2 then s
      else if key_press_count s = 2 then
        if keystate_check_keys [SPECIAL_HID_KEY_PROGRAM, SPECIAL_HKEY_REMAP] HID s
        then go_to STATE_WAITING STATE_NORMAL s else s
      else let lkey = read_keys [0] s ! 0 in
        if SPECIAL_HID_KEY_NOREMAP (config_get_definition lkey s) then s
        else if current_state s = STATE_PROGRAMMING_SRC
        then go_to STATE_WAITING STATE_PROGRAMMING_DST (s\<lparr>program_src_hkey := config_get_default_definition lkey\<rparr>)
        else go_to STATE_WAITING STATE_PROGRAMMING_SRC (config_save_definition lkey (program_src_hkey s) s))"

subsection \<open>Recording a macro\<close>

definition handle_state_macro_record_trigger :: "'a keyboard_state_scheme \<Rightarrow> 'a keyboard_state_scheme" where
  "handle_state_macro_record_trigger s =
     (if keystate_check_keys [SPECIAL_HID_KEY_PROGRAM, SPECIAL_HKEY_MACRO_RECORD] HID s
      then go_to STATE_WAITING STATE_NORMAL s
      else if unat (key_press_count s) > MACRO_MAX_KEYS
      then go_to STATE_WAITING STATE_NORMAL ((buzzer_start_f 200 BUZZER_FAILURE_TONE s)\<lparr>last_count := 0\<rparr>)
      else if key_press_count s \<ge> last_count s
      then s\<lparr>trigger_key := read_keys (trigger_key s) s, last_count := key_press_count s\<rparr>
      else let (key, valid) = macro_idx_format_key (trigger_key s) (unat (last_count s));
               s = s\<lparr>trigger_key := key, last_count := 0\<rparr>
           in if \<not> valid then s
              else case macros_start_macro key s of
                (True, s) \<Rightarrow> go_to STATE_WAITING STATE_MACRO_RECORD s
              | (False, s) \<Rightarrow> go_to STATE_WAITING STATE_NORMAL s)"

definition macro_record_hook :: "logical_keycode \<Rightarrow> bool \<Rightarrow> 'a keyboard_state_scheme \<Rightarrow> 'a keyboard_state_scheme" where
  "macro_record_hook key press s =
     (if keystate_check_key SPECIAL_HID_KEY_PROGRAM HID s then s
      else let h_key = config_get_definition key s in
        if h_key \<ge> SPECIAL_HID_KEYS_START then s
        else case macros_append h_key s of
          (True, s) \<Rightarrow> s
        | (False, s) \<Rightarrow>
            let s = s\<lparr>recording_macro := False\<rparr>;
                s = keystate_register_change_hook False s;
                s = buzzer_start_f 200 BUZZER_FAILURE_TONE s;
                s = macros_abort_macro s
            in go_to STATE_WAITING STATE_NORMAL s)"

definition handle_state_macro_record :: "'a keyboard_state_scheme \<Rightarrow> 'a keyboard_state_scheme" where
  "handle_state_macro_record s =
     (let s = (if \<not> recording_macro s then keystate_register_change_hook True (s\<lparr>recording_macro := True\<rparr>) else s)
      in if keystate_check_keys [SPECIAL_HID_KEY_PROGRAM, SPECIAL_HKEY_MACRO_RECORD] HID s
         then let s = keystate_register_change_hook False (s\<lparr>recording_macro := False\<rparr>);
                  s = macros_commit_macro s
              in go_to STATE_WAITING STATE_NORMAL s
         else s)"

subsection \<open>Reports and LEDs\<close>

definition Fill_KeyboardReport :: "KeyboardReport_Data \<Rightarrow> 'a keyboard_state_scheme \<Rightarrow> KeyboardReport_Data \<times> 'a keyboard_state_scheme" where
  "Fill_KeyboardReport report s =
     (let play = (\<lambda>report s. case macros_fill_next_report report s of (again, report, s) \<Rightarrow>
                    (report, if again then s else go_to STATE_WAITING STATE_NORMAL s))
      in case current_state s of
        STATE_NORMAL \<Rightarrow> vm_append_KeyboardReport (keystate_Fill_KeyboardReport s report) s
      | STATE_PRINTING \<Rightarrow> printing_Fill_KeyboardReport report s
      | STATE_MACRO_RECORD \<Rightarrow> (keystate_Fill_KeyboardReport s report, s)
      | STATE_MERGING_MACRO_PLAY \<Rightarrow> play (keystate_Fill_KeyboardReport s report) s
      | STATE_MACRO_PLAY \<Rightarrow> play report s
      | STATE_WAITING \<Rightarrow> (if wait_key_press_count s \<noteq> 0 then keystate_Fill_KeyboardReport s report else report, s)
      | _ \<Rightarrow> (report, s))"

definition Fill_MouseReport :: "MouseReport_Data \<Rightarrow> 'a keyboard_state_scheme \<Rightarrow> MouseReport_Data \<times> 'a keyboard_state_scheme" where
  "Fill_MouseReport report s =
     (case current_state s of
        STATE_NORMAL \<Rightarrow> (case keystate_Fill_MouseReport s report of (report, s) \<Rightarrow> vm_append_MouseReport report s)
      | STATE_MACRO_RECORD \<Rightarrow> keystate_Fill_MouseReport s report
      | _ \<Rightarrow> (report, s))"

definition Process_KeyboardLEDReport :: "u8 \<Rightarrow> 'a keyboard_state_scheme \<Rightarrow> 'a keyboard_state_scheme" where
  "Process_KeyboardLEDReport report s =
     (let s = (if report \<noteq> USB_LEDReport s then buzzer_start_f 100 BUZZER_DEFAULT_TONE s else s)
      in s\<lparr>USB_LEDReport := report\<rparr>)"

definition led_mask_of :: "'a keyboard_state_scheme \<Rightarrow> u8" where
  "led_mask_of s =
     (let lay = (if keystate_get_layer_id s = 1 then LED_KEYPAD else if keystate_get_layer_id s = 2 then LED_FUNCTION else 0);
          flags = config_get_flags s;
          tag = (case current_state s of
              STATE_PROGRAMMING_SRC \<Rightarrow> LEDMASK_PROGRAMMING_SRC
            | STATE_PROGRAMMING_DST \<Rightarrow> LEDMASK_PROGRAMMING_DST
            | STATE_MACRO_RECORD_TRIGGER \<Rightarrow> LEDMASK_MACRO_TRIGGER
            | STATE_MACRO_RECORD \<Rightarrow> LEDMASK_MACRO_RECORD
            | _ \<Rightarrow> if programs_enabled flags then LEDMASK_PROGRAMS_ENABLED
                  else if macros_enabled flags then LEDMASK_MACROS_ENABLED else 0);
          num = (if USB_LEDReport s AND 1 \<noteq> 0 then LED_NUM else 0);
          caps = (if USB_LEDReport s AND 2 \<noteq> 0 then LED_CAPS else 0);
          scroll = (if USB_LEDReport s AND 4 \<noteq> 0 then LED_SCROLL else 0)
      in lay OR tag OR num OR caps OR scroll)"

definition ledstate_update :: "'a keyboard_state_scheme \<Rightarrow> 'a keyboard_state_scheme" where
  "ledstate_update s = set_all_leds (led_mask_of s) s"

datatype USB_State = NOTREADY | ENUMERATING | READY | ERROR

definition Update_USBState :: "USB_State \<Rightarrow> 'a keyboard_state_scheme \<Rightarrow> 'a keyboard_state_scheme" where
  "Update_USBState st s = set_all_leds (case st of NOTREADY \<Rightarrow> LEDMASK_USB_NOTREADY
     | ENUMERATING \<Rightarrow> LEDMASK_USB_ENUMERATING | READY \<Rightarrow> LEDMASK_USB_READY | ERROR \<Rightarrow> LEDMASK_USB_ERROR) s"

definition Update_Millis :: "u8 \<Rightarrow> 'a keyboard_state_scheme \<Rightarrow> 'a keyboard_state_scheme" where
  "Update_Millis increment s = buzzer_update increment (s\<lparr>uptimems := uptimems s + ucast increment\<rparr>)"

subsection \<open>The main loop\<close>

text \<open>The setup before the loop; \<open>ports_init\<close> of the board includes \<open>buzzer_init\<close>.\<close>

definition Keyboard_setup :: "'a keyboard_state_scheme \<Rightarrow> 'a keyboard_state_scheme" where
  "Keyboard_setup s =
     (let s = buzzer_init s; s = keystate_init s; s = config_init s; s = vm_init s
      in s\<lparr>prev_key_press_counter := 0, lcd_number_expire_time := 0xFFFF, update_keys := False\<rparr>)"

definition scan_keys :: "(nat \<Rightarrow> nat \<Rightarrow> bool) \<Rightarrow> 'a keyboard_state_scheme \<Rightarrow> 'a keyboard_state_scheme" where
  "scan_keys matrix s =
     (let slice = (uptimems s AND 1 \<noteq> 0) in
      if \<not> slice \<and> update_keys s
      then (ledstate_update (keystate_update macro_record_hook matrix s))\<lparr>update_keys := False\<rparr>
      else if \<not> update_keys s \<and> slice then s\<lparr>update_keys := True\<rparr> else s)"

definition save_numbers :: "'a keyboard_state_scheme \<Rightarrow> 'a keyboard_state_scheme" where
  "save_numbers s =
     (let s = (if new_debounce_len s \<noteq> 0 then
                 (if new_debounce_len s \<noteq> config_get_debounce_len s then config_save_debounce_len (new_debounce_len s) s
                  else s)\<lparr>new_debounce_len := 0\<rparr> else s);
          s = (if new_mouse_div s \<noteq> 0 then
                 (if new_mouse_div s \<noteq> config_get_mouse_div s then config_save_mouse_div (new_mouse_div s) s
                  else s)\<lparr>new_mouse_div := 0\<rparr> else s);
          s = (if new_wheel_div s \<noteq> 0 then
                 (if new_wheel_div s \<noteq> config_get_wheel_div s then config_save_wheel_div (new_wheel_div s) s
                  else s)\<lparr>new_wheel_div := 0\<rparr> else s)
      in clear_number_to_show_on_lcd s)"

definition show_number :: "'a keyboard_state_scheme \<Rightarrow> 'a keyboard_state_scheme" where
  "show_number s =
     (if \<not> in_prg_chord_with_lcd_info s then
        if prev_key_press_counter s \<noteq> key_press_counter s
        then (set_number_to_show_on_lcd (key_press_counter s) s)
               \<lparr>lcd_number_expire_time := uptimems s + 2000, prev_key_press_counter := key_press_counter s\<rparr>
        else if uptimems s \<ge> lcd_number_expire_time s
        then (clear_number_to_show_on_lcd s)\<lparr>lcd_number_expire_time := 0xFFFF\<rparr>
        else s
      else if key_press_count s = 0 then save_numbers (s\<lparr>in_prg_chord_with_lcd_info := False\<rparr>)
      else s)"

definition handle_state :: "'a keyboard_state_scheme \<Rightarrow> 'a keyboard_state_scheme option" where
  "handle_state s = (case current_state s of
     STATE_NORMAL \<Rightarrow> handle_state_normal s
   | STATE_WAITING \<Rightarrow>
       Some (if key_press_count s = 0 \<or> key_press_count s \<noteq> wait_key_press_count s \<and> wait_key_press_count s \<noteq> 0
             then s\<lparr>wait_key_press_count := 0, current_state := next_state s, next_state := STATE_NORMAL\<rparr> else s)
   | STATE_PRINTING \<Rightarrow> Some (if printing_buffer_empty s then s\<lparr>current_state := STATE_WAITING\<rparr> else s)
   | STATE_PROGRAMMING_SRC \<Rightarrow> Some (handle_state_programming s)
   | STATE_PROGRAMMING_DST \<Rightarrow> Some (handle_state_programming s)
   | STATE_MACRO_RECORD_TRIGGER \<Rightarrow> Some (handle_state_macro_record_trigger s)
   | STATE_MACRO_RECORD \<Rightarrow> Some (handle_state_macro_record s)
   | _ \<Rightarrow> Some s)"

text \<open>
  One pass of the loop up to \<open>USB_Perform_Update\<close>; the time does not advance within it. \<open>adc\<close> is what
  the converter of the light sensor answers.
\<close>

definition Keyboard_pass :: "(nat \<Rightarrow> nat \<Rightarrow> bool) \<Rightarrow> u16 option \<Rightarrow> 'a keyboard_state_scheme \<Rightarrow> 'a keyboard_state_scheme option" where
  "Keyboard_pass matrix adc s =
     (let s = scan_keys matrix s;
          (report, s) = run_photosensor (uptimems s) adc s;
          s = (if report then s\<lparr>next_state := current_state s, current_state := STATE_PRINTING\<rparr> else s);
          s = show_number s
      in do {
        s \<leftarrow> handle_state s;
        if current_state s = STATE_NORMAL then vm_step_all s else Some s })"

end
