(* ===== verification/Frames.thy ===== *)
theory Frames
  imports Keyboard
begin

text \<open>
  What the operations leave alone. The globals of the firmware are one record that every component
  extends, so an operation of a component keeps \<open>more\<close>, the part of the components above it; from this
  every field of a higher component is unchanged.
\<close>

named_theorems frame \<open>what an operation leaves alone\<close>

subsection \<open>Fields above a component\<close>

lemma above_buzzer:
  "buzzer_state.more t = buzzer_state.more s \<Longrightarrow> macro_state.more t = macro_state.more s"
  "buzzer_state.more t = buzzer_state.more s \<Longrightarrow> macro_index t = macro_index s"
  by (cases s; cases t; simp)+

lemma above_macro:
  assumes "macro_state.more t = macro_state.more s"
  shows "config_state.more t = config_state.more s"
    and "eeprom_sentinel_byte t = eeprom_sentinel_byte s" "eeprom_flags t = eeprom_flags s"
    and "debounce_len t = debounce_len s" "mouse_div t = mouse_div s" "wheel_div t = wheel_div s"
    and "logical_to_hid_map t = logical_to_hid_map s"
    and "saved_key_mapping_indices t = saved_key_mapping_indices s" "saved_key_mappings t = saved_key_mappings s"
    and "programs t = programs s"
  using assms by (cases s; cases t; simp)+

lemma above_config:
  assumes "config_state.more t = config_state.more s"
  shows "keystate_state.more t = keystate_state.more s"
    and "key_states t = key_states s" "keystate_change_hook_fn t = keystate_change_hook_fn s"
    and "key_press_count t = key_press_count s" "key_press_counter t = key_press_counter s"
    and "prev_layer t = prev_layer s" "layer t = layer s"
    and "active_debounce_index t = active_debounce_index s" "debounce_bitfields t = debounce_bitfields s"
    and "debounced_on_bitfield t = debounced_on_bitfield s" "debounced_bitfield t = debounced_bitfield s"
  using assms by (cases s; cases t; simp)+

lemma above_keystate:
  assumes "keystate_state.more t = keystate_state.more s"
  shows "interpreter_state.more t = interpreter_state.more s" "vms t = vms s" "uptimems t = uptimems s"
  using assms by (cases s; cases t; simp)+

lemma above_interpreter:
  assumes "interpreter_state.more t = interpreter_state.more s"
  shows "board_state.more t = board_state.more s" "adc_index t = adc_index s" "adc_rv t = adc_rv s"
  using assms by (cases s; cases t; simp)+

lemma above_board:
  assumes "board_state.more t = board_state.more s"
  shows "current_state t = current_state s" "next_state t = next_state s"
    and "wait_key_press_count t = wait_key_press_count s"
    and "in_prg_chord_with_lcd_info t = in_prg_chord_with_lcd_info s"
    and "new_debounce_len t = new_debounce_len s" "new_mouse_div t = new_mouse_div s" "new_wheel_div t = new_wheel_div s"
    and "program_src_hkey t = program_src_hkey s" "trigger_key t = trigger_key s" "last_count t = last_count s"
    and "recording_macro t = recording_macro s" "rebooted t = rebooted s" "USB_LEDReport t = USB_LEDReport s"
  using assms by (cases s; cases t; simp)+

subsection \<open>Buzzer, index and macros\<close>

lemma buzzer_more [frame]:
  "buzzer_state.more (buzzer_start n s) = buzzer_state.more s"
  "buzzer_state.more (buzzer_start_f n t s) = buzzer_state.more s"
  "buzzer_state.more (buzzer_update m s) = buzzer_state.more s"
  "buzzer_state.more (buzzer_init s) = buzzer_state.more s"
  by (simp_all add: buzzer_defs buzzer_update_def buzzer_init_def Let_def)

lemma buzzer_above [frame]:
  "macro_state.more (buzzer_start n s) = macro_state.more s"
  "macro_state.more (buzzer_start_f n t s) = macro_state.more s"
  "macro_state.more (buzzer_update m s) = macro_state.more s"
  "macro_state.more (buzzer_init s) = macro_state.more s"
  by (intro above_buzzer buzzer_more)+

lemma printing_above [frame]:
  "macro_state.more (printing_set_buffer b ty s) = macro_state.more s"
  "macro_state.more (snd (printing_Fill_KeyboardReport r s)) = macro_state.more s"
  by (simp_all add: printing_set_buffer_def printing_Fill_KeyboardReport_def Let_def case_prod_beta)

lemma index_above [frame]:
  "macro_state.more (macro_idx_set_data h d s) = macro_state.more s"
  "macro_state.more (macro_idx_remove h s) = macro_state.more s"
  "macro_state.more (snd (macro_idx_create k s)) = macro_state.more s"
  "macro_state.more (macro_idx_reset_defaults s) = macro_state.more s"
  by (simp_all add: macro_idx_set_data_def macro_idx_remove_def macro_idx_create_def macro_idx_reset_defaults_def
      split: option.split)

lemma storage_above [frame]:
  "macro_state.more (snd (macro_storage_read a n s)) = macro_state.more s"
  "macro_state.more (snd (macro_storage_write a bs s)) = macro_state.more s"
  "macro_state.more (snd (macro_storage_memmove d c n s)) = macro_state.more s"
  by (simp_all add: macro_storage_read_def macro_storage_write_def macro_storage_memmove_def next_fault_def
      split: list.split option.split)

lemma iterate_above:
  assumes "\<And>i s. macro_state.more (itr i s) = macro_state.more s"
  shows "macro_state.more (idx_iterate_from itr i n s) = macro_state.more s"
  using assms by (induction n arbitrary: i s) simp_all

lemma shift_down_above [frame]:
  "macro_state.more (macro_idx_iterate (macro_shift_down_iterator o' l) s) = macro_state.more s"
  unfolding macro_idx_iterate_def
  by (rule iterate_above) (simp add: macro_shift_down_iterator_def Let_def frame)

lemma reset_loop_above: "macro_state.more (snd (reset_macros_loop infos i s)) = macro_state.more s"
proof (induction infos arbitrary: i s)
  case (Cons info infos)
  then show ?case by (cases info) (simp add: Let_def case_prod_beta frame)
qed simp

lemma macros_reset_above [frame]: "macro_state.more (macros_reset_defaults s) = macro_state.more s"
  by (simp add: macros_reset_defaults_def case_prod_beta Let_def frame reset_loop_above)

lemma storage_read_above:
  "macro_storage_read a n s = (r, t) \<Longrightarrow> macro_state.more t = macro_state.more s"
  "macro_storage_write a bs s = (ok, t) \<Longrightarrow> macro_state.more t = macro_state.more s"
  "macro_storage_memmove d c n s = (ok, t) \<Longrightarrow> macro_state.more t = macro_state.more s"
  using storage_above by (metis snd_conv)+

lemma delete_macro_above [frame]: "macro_state.more (snd (delete_macro_data e s)) = macro_state.more s"
  by (auto simp: delete_macro_data_def Let_def case_prod_beta frame storage_read_above split: prod.split option.split)

lemma remove_recorded_above [frame]: "macro_state.more (remove_recorded_entry s) = macro_state.more s"
  by (simp add: remove_recorded_entry_def frame split: option.split)

lemma start_err_above [frame]: "macro_state.more (snd (macros_start_err s)) = macro_state.more s"
  by (simp add: macros_start_err_def frame)

lemma pairs_above:
  "delete_macro_data e s = (ok, t) \<Longrightarrow> macro_state.more t = macro_state.more s"
  "macro_idx_create k s = (r, t) \<Longrightarrow> macro_state.more t = macro_state.more s"
  using delete_macro_above index_above by (metis snd_conv)+

lemmas macro_pairs = storage_read_above pairs_above

lemma start_macro_above [frame]: "macro_state.more (snd (macros_start_macro key s)) = macro_state.more s"
  by (auto simp: macros_start_macro_def Let_def frame macro_pairs split: prod.split option.split)

lemma macros_above [frame]:
  "macro_state.more (macros_commit_macro s) = macro_state.more s"
  "macro_state.more (macros_abort_macro s) = macro_state.more s"
  "macro_state.more (snd (macros_append h s)) = macro_state.more s"
  "macro_state.more (snd (macros_start_playback off s)) = macro_state.more s"
  by (auto simp: macros_commit_macro_def macros_abort_macro_def macros_append_def macros_start_playback_def Let_def
      frame macro_pairs split: prod.split option.split)

lemma fill_next_above [frame]: "macro_state.more (snd (snd (macros_fill_next_report r s))) = macro_state.more s"
  by (auto simp: macros_fill_next_report_def Let_def frame macro_pairs split: prod.split option.split)

subsection \<open>Configuration\<close>

lemma config_above [frame]:
  "config_state.more (config_save_definition l h s) = config_state.more s"
  "config_state.more (config_save_flags f s) = config_state.more s"
  "config_state.more (config_save_debounce_len n s) = config_state.more s"
  "config_state.more (config_save_mouse_div n s) = config_state.more s"
  "config_state.more (config_save_wheel_div n s) = config_state.more s"
  by (simp_all add: config_save_definition_def config_save_flags_def config_save_debounce_len_def
      config_save_mouse_div_def config_save_wheel_div_def)

lemmas config_lower [frame] =
  buzzer_above [THEN above_macro(1)] printing_above [THEN above_macro(1)] macros_reset_above [THEN above_macro(1)]
  index_above [THEN above_macro(1)]

lemma config_reset_above [frame]:
  "config_state.more (config_reset_defaults s) = config_state.more s"
  "config_state.more (config_reset_fully s) = config_state.more s"
  by (simp_all add: config_reset_fully_def config_reset_defaults_def config_reset_program_defaults_def Let_def
      frame)

lemma config_init_above [frame]: "config_state.more (config_init s) = config_state.more s"
  by (simp add: config_init_def frame)

lemma layouts_above [frame]:
  "config_state.more (snd (config_delete_layout num s)) = config_state.more s"
  "config_state.more (snd (config_save_layout num s)) = config_state.more s"
  "config_state.more (snd (config_load_layout num s)) = config_state.more s"
proof -
  show *: "config_state.more (snd (config_delete_layout num s)) = config_state.more s"
    by (simp add: config_delete_layout_def Let_def case_prod_beta frame)
  then show "config_state.more (snd (config_save_layout num s)) = config_state.more s"
    by (simp add: config_save_layout_def Let_def case_prod_beta frame)
  show "config_state.more (snd (config_load_layout num s)) = config_state.more s"
    by (simp add: config_load_layout_def Let_def case_prod_beta frame)
qed

end
