(* ===== verification/ConfigInvariant.thy ===== *)
theory ConfigInvariant
  imports Frames KeystateCorrect ConfigInit
begin

text \<open>
  The invariant of the configuration: the numbers are in the range the key scan and the mouse reports
  need, and, unless the host moves them, the keys that control layers and programming keep their default
  meaning in the current mapping and in every saved layout, whatever is remapped, loaded or reset.
\<close>

subsection \<open>Keys that cannot be remapped\<close>

abbreviation default_hid :: "logical_keycode \<Rightarrow> hid_keycode" where
  "default_hid k \<equiv> logical_to_hid_map_default ! unat k"

definition special_fixed :: "(logical_keycode \<Rightarrow> hid_keycode) \<Rightarrow> bool" where
  "special_fixed m \<longleftrightarrow> (\<forall>k. unat k < NUM_LOGICAL_KEYS \<longrightarrow>
     SPECIAL_HID_KEY_NOREMAP (m k) \<or> SPECIAL_HID_KEY_NOREMAP (default_hid k) \<longrightarrow> m k = default_hid k)"

definition layout_safe :: "key_mapping list \<Rightarrow> bool" where
  "layout_safe P \<longleftrightarrow> sorted_wrt (\<lambda>p q. unat (fst p) < unat (fst q)) P
     \<and> (\<forall>(k, h)\<in>set P. \<not> SPECIAL_HID_KEY_NOREMAP h \<and> \<not> SPECIAL_HID_KEY_NOREMAP (default_hid k))"

text \<open>
  The host can write any mapping, so that the layer and program keys keep their meaning only as long as
  it does not move them: \<open>fx\<close> says that it has not, and everything else holds in any case.
\<close>

definition config_ok :: "bool \<Rightarrow> 'a config_state_scheme \<Rightarrow> bool" where
  "config_ok fx s \<longleftrightarrow> 0 < debounce_len s \<and> unat (debounce_len s) \<le> MAX_DEBOUNCE_LEN
     \<and> 0 < mouse_div s \<and> 0 < wheel_div s
     \<and> layouts_ok (saved_key_mapping_indices s) 
     \<and> (fx \<longrightarrow> special_fixed (logical_to_hid_map s)
         \<and> (\<forall>i < NUM_KEY_MAPPING_INDICES. pred_option layout_safe (layout (saved_key_mapping_indices s) (saved_key_mappings s) i)))"

lemma config_ok_mono: "config_ok fx s \<Longrightarrow> (fx' \<Longrightarrow> fx) \<Longrightarrow> config_ok fx' s"
  by (auto simp: config_ok_def)

lemma config_ok_above:
  assumes "macro_state.more t = macro_state.more s"
  shows "config_ok fx t \<longleftrightarrow> config_ok fx s"
  using above_macro [OF assms] by (simp add: config_ok_def)

lemma config_ok_lower [simp]:
  "config_ok fx (buzzer_start_f n ty s) \<longleftrightarrow> config_ok fx s" "config_ok fx (printing_set_buffer b st s) \<longleftrightarrow> config_ok fx s"
  by (rule config_ok_above, rule frame)+

lemma special_fixed_default: "(\<And>k. unat k < NUM_LOGICAL_KEYS \<Longrightarrow> m k = default_hid k) \<Longrightarrow> special_fixed m"
  by (simp add: special_fixed_def)

lemma layout_safe_diffs:
  assumes "special_fixed m"
  shows "layout_safe (diffs [0..<NUM_LOGICAL_KEYS] m)"
proof -
  have "\<not> SPECIAL_HID_KEY_NOREMAP h \<and> \<not> SPECIAL_HID_KEY_NOREMAP (default_hid k)"
    if p: "(k, h) \<in> set (diffs [0..<NUM_LOGICAL_KEYS] m)" for k h
  proof -
    obtain l where l: "l < NUM_LOGICAL_KEYS" "k = of_nat l" "h = m k" "h \<noteq> logical_to_hid_map_default ! l"
      using p by (auto simp: diffs_def)
    then have "unat k = l" by (simp add: unat_of_nat NUM_LOGICAL_KEYS_def KEYPAD_LAYER_SIZE_def)
    then show ?thesis using assms l unfolding special_fixed_def by metis
  qed
  then show ?thesis unfolding layout_safe_def using diffs_sorted by blast
qed

lemma special_fixed_load:
  assumes "layout_safe P"
  shows "special_fixed (\<lambda>l. if unat l < NUM_LOGICAL_KEYS
    then case map_of P l of Some v \<Rightarrow> v | None \<Rightarrow> default_hid l else m l)"
  using assms map_of_SomeD unfolding special_fixed_def layout_safe_def by (fastforce split: option.split)

subsection \<open>The operations keep the invariant\<close>

lemma config_ok_settings:
  "config_ok fx s \<Longrightarrow> 0 < n \<Longrightarrow> unat n \<le> MAX_DEBOUNCE_LEN \<Longrightarrow> config_ok fx (config_save_debounce_len n s)"
  "config_ok fx s \<Longrightarrow> 0 < n \<Longrightarrow> config_ok fx (config_save_mouse_div n s)"
  "config_ok fx s \<Longrightarrow> 0 < n \<Longrightarrow> config_ok fx (config_save_wheel_div n s)"
  "config_ok fx s \<Longrightarrow> config_ok fx (config_save_flags f s)"
  by (simp_all add: config_ok_def config_save_debounce_len_def config_save_mouse_div_def
      config_save_wheel_div_def config_save_flags_def)

lemma config_ok_definition:
  assumes "config_ok fx s" "\<not> SPECIAL_HID_KEY_NOREMAP (logical_to_hid_map s l)" "fx \<Longrightarrow> \<not> SPECIAL_HID_KEY_NOREMAP h"
  shows "config_ok fx (config_save_definition l h s)"
proof -
  have "special_fixed ((logical_to_hid_map s)(l := h))" if fx
  proof -
    have f: "special_fixed (logical_to_hid_map s)" using assms(1) that by (simp add: config_ok_def)
    have "\<not> SPECIAL_HID_KEY_NOREMAP (default_hid l)" if "unat l < NUM_LOGICAL_KEYS"
      using f assms(2) that unfolding special_fixed_def by metis
    then show ?thesis
      using f assms(3) \<open>fx\<close> unfolding special_fixed_def by (metis fun_upd_apply)
  qed
  then show ?thesis using assms(1) by (simp add: config_ok_def config_save_definition_def)
qed

lemma config_ok_reset_defaults: "config_ok fx s \<Longrightarrow> config_ok fx (config_reset_defaults s)"
proof -
  assume "config_ok fx s"
  moreover have "special_fixed (logical_to_hid_map (config_reset_defaults s))"
    by (rule special_fixed_default) (simp add: config_reset_defaults_frame)
  ultimately show ?thesis by (simp add: config_ok_def config_reset_defaults_frame)
qed

lemma config_ok_reset_fully: "config_ok fx (config_reset_fully s)"
proof -
  define t where "t = macros_reset_defaults (macro_idx_reset_defaults (config_reset_program_defaults
    ((buzzer_start_f 2000 120 s)\<lparr>eeprom_flags := 0, debounce_len := 3, mouse_div := 25, wheel_div := 4,
      saved_key_mapping_indices := replicate NUM_KEY_MAPPING_INDICES (NO_KEY, NO_KEY)\<rparr>)))"
  define u where "u = (config_reset_defaults t)\<lparr>eeprom_sentinel_byte := EEPROM_SENTINEL\<rparr>"
  have r: "config_reset_fully s = buzzer_start_f 200 60 u"
    by (simp add: config_reset_fully_def Let_def t_def u_def)
  have "macro_state.more t = macro_state.more (config_reset_program_defaults
    ((buzzer_start_f 2000 120 s)\<lparr>eeprom_flags := 0, debounce_len := 3, mouse_div := 25, wheel_div := 4,
      saved_key_mapping_indices := replicate NUM_KEY_MAPPING_INDICES (NO_KEY, NO_KEY)\<rparr>))"
    by (simp add: t_def frame)
  note a = above_macro [OF this]
  have t: "debounce_len t = 3" "mouse_div t = 25" "wheel_div t = 4"
    "saved_key_mapping_indices t = replicate NUM_KEY_MAPPING_INDICES (NO_KEY, NO_KEY)"
    using a by (simp_all add: config_reset_program_defaults_def)
  have "special_fixed (logical_to_hid_map u)"
    unfolding u_def by (rule special_fixed_default) (simp add: config_reset_defaults_frame)
  then have "config_ok fx u"
    using layouts_ok_none t
    by (simp add: config_ok_def u_def config_reset_defaults_frame layout_def MAX_DEBOUNCE_LEN_def)
  then show ?thesis by (simp add: r)
qed

lemma config_ok_delete:
  assumes "config_ok fx s"
  shows "config_ok fx (snd (config_delete_layout num s))"
proof (cases "unat num < NUM_KEY_MAPPING_INDICES")
  case True
  have ok: "layouts_ok (saved_key_mapping_indices s)" using assms by (simp add: config_ok_def)
  let ?t = "snd (config_delete_layout num s)"
  note d = config_delete_layout_any [OF ok True]
  have "layout (saved_key_mapping_indices ?t) (saved_key_mappings ?t) (unat num) = None"
    using d True layout_used unfolding used_def by blast
  then have "pred_option layout_safe (layout (saved_key_mapping_indices ?t) (saved_key_mappings ?t) i)"
    if "i < NUM_KEY_MAPPING_INDICES" fx for i
    using d assms that unfolding config_ok_def by (cases "i = unat num") auto
  moreover have "debounce_len ?t = debounce_len s" "mouse_div ?t = mouse_div s" "wheel_div ?t = wheel_div s"
    by (simp_all add: config_delete_layout_def Let_def case_prod_beta printing_set_buffer_def)
  ultimately show ?thesis using assms d unfolding config_ok_def by metis
next
  case False
  then show ?thesis using assms by (simp add: config_delete_layout_def)
qed

lemma config_ok_save_layout:
  assumes "config_ok fx s"
  shows "config_ok fx (snd (config_save_layout num s))"
proof (cases "unat num < NUM_KEY_MAPPING_INDICES")
  case True
  have ok: "layouts_ok (saved_key_mapping_indices s)" using assms by (simp add: config_ok_def)
  note f = config_save_layout_frame [OF ok True]
  let ?t = "snd (config_save_layout num s)"
  have "pred_option layout_safe (layout (saved_key_mapping_indices ?t) (saved_key_mappings ?t) i)"
    if i: "i < NUM_KEY_MAPPING_INDICES" and fx: fx for i
  proof (cases "i = unat num")
    case True
    have "special_fixed (logical_to_hid_map s)" using assms fx by (simp add: config_ok_def)
    then show ?thesis using True f(4) layout_safe_diffs by simp
  next
    case False
    then show ?thesis using f(3) [OF i] assms i fx by (simp add: config_ok_def)
  qed
  moreover have "debounce_len ?t = debounce_len s" "mouse_div ?t = mouse_div s" "wheel_div ?t = wheel_div s"
    by (simp_all add: config_save_layout_def config_delete_layout_def Let_def case_prod_beta printing_set_buffer_def)
  ultimately show ?thesis using assms f(1,2) by (simp add: config_ok_def)
next
  case False
  then show ?thesis using assms by (simp add: config_save_layout_def)
qed

lemma config_load_layout_cases:
  "(\<exists>m. snd (config_load_layout num s) = s\<lparr>logical_to_hid_map := m\<rparr>)
    \<or> snd (config_load_layout num s) = printing_set_buffer ''No layout'' avr_pgm s"
  unfolding config_load_layout_def Let_def case_prod_beta by auto

lemma config_load_layout_fixed:
  assumes "config_ok True s"
  shows "special_fixed (logical_to_hid_map (snd (config_load_layout num s)))"
proof (cases "unat num < NUM_KEY_MAPPING_INDICES \<and> layout (saved_key_mapping_indices s) (saved_key_mappings s) (unat num) \<noteq> None")
  case True
  then obtain P where P: "layout (saved_key_mapping_indices s) (saved_key_mappings s) (unat num) = Some P" by blast
  have ok: "layouts_ok (saved_key_mapping_indices s)" using assms by (simp add: config_ok_def)
  have "pred_option layout_safe (Some P)" using assms True P unfolding config_ok_def by metis
  then have "layout_safe P" by simp
  then have "logical_to_hid_map (snd (config_load_layout num s)) = (\<lambda>l. if unat l < NUM_LOGICAL_KEYS
      then case map_of P l of Some v \<Rightarrow> v | None \<Rightarrow> default_hid l else logical_to_hid_map s l)"
    using config_load_layout_char [OF ok _ P] True unfolding layout_safe_def by simp
  then show ?thesis using special_fixed_load [OF \<open>layout_safe P\<close>] by simp
next
  case False
  then have "snd (config_load_layout num s) = printing_set_buffer ''No layout'' avr_pgm s"
    by (simp add: config_load_layout_def layout_def Let_def case_prod_beta) (simp add: not_less split: if_splits)
  then show ?thesis using assms by (simp add: config_ok_def printing_set_buffer_def)
qed

lemma config_ok_load_layout:
  assumes "config_ok fx s"
  shows "config_ok fx (snd (config_load_layout num s))"
  using config_load_layout_cases [of num s]
proof (elim disjE exE)
  fix m assume m: "snd (config_load_layout num s) = s\<lparr>logical_to_hid_map := m\<rparr>"
  have "special_fixed m" if fx using config_load_layout_fixed [of s num] assms that m by simp
  then show ?thesis using assms m by (simp add: config_ok_def)
next
  assume "snd (config_load_layout num s) = printing_set_buffer ''No layout'' avr_pgm s"
  then show ?thesis using assms by simp
qed

lemma config_ok_init: "eeprom_sentinel_byte s \<noteq> EEPROM_SENTINEL \<or> config_ok fx s \<Longrightarrow> config_ok fx (config_init s)"
  by (auto simp: config_init_def config_ok_reset_fully)

end
