(* ===== verification/KeyboardInvariant.thy ===== *)
theory KeyboardInvariant
  imports ConfigInvariant InterpreterCorrect
begin

text \<open>
  The invariant of the whole firmware and its preservation by every part of the main loop and by every
  callback of the USB driver and the timer.
\<close>

subsection \<open>The recording hook\<close>

lemma scan_env_above:
  assumes "macro_state.more t = macro_state.more s"
  shows "scan_env t = scan_env s" "key_states t = key_states s" "key_press_count t = key_press_count s"
    "keystate_change_hook_fn t = keystate_change_hook_fn s"
  using above_macro [OF assms] above_config [OF above_macro(1) [OF assms]] by (simp_all add: scan_env_def)

lemma macro_record_hook_cases:
  obtains (keep) "macro_record_hook k p s = s"
  | (append) h t where "macros_append h s = (True, t)" "macro_record_hook k p s = t"
  | (fail) h t where "macros_append h s = (False, t)" "macro_record_hook k p s =
      go_to STATE_WAITING STATE_NORMAL (macros_abort_macro (buzzer_start_f 200 BUZZER_FAILURE_TONE
        (keystate_register_change_hook False (t\<lparr>recording_macro := False\<rparr>))))"
proof (cases "keystate_check_key SPECIAL_HID_KEY_PROGRAM HID s \<or> config_get_definition k s \<ge> SPECIAL_HID_KEYS_START")
  case True
  then show ?thesis by (intro keep) (auto simp: macro_record_hook_def Let_def)
next
  case False
  obtain ok t where a: "macros_append (config_get_definition k s) s = (ok, t)" by fastforce
  show ?thesis
  proof (cases ok)
    case True
    then show ?thesis using False a by (intro append) (simp_all add: macro_record_hook_def Let_def)
  next
    case f: False
    then show ?thesis using False a by (intro fail) (simp_all add: macro_record_hook_def Let_def)
  qed
qed

lemma macros_append_above: "macros_append h s = (ok, t) \<Longrightarrow> macro_state.more t = macro_state.more s"
  using macros_above(3) by (metis snd_conv)

text \<open>What a failed recording leaves is the state before it, up to the hook and the control state.\<close>

lemma stop_recording_env:
  "scan_env (go_to a b (macros_abort_macro (buzzer_start_f n f (keystate_register_change_hook c (t\<lparr>recording_macro := d\<rparr>))))) = scan_env t"
  "key_states (go_to a b (macros_abort_macro (buzzer_start_f n f (keystate_register_change_hook c (t\<lparr>recording_macro := d\<rparr>))))) = key_states t"
  "key_press_count (go_to a b (macros_abort_macro (buzzer_start_f n f (keystate_register_change_hook c (t\<lparr>recording_macro := d\<rparr>))))) = key_press_count t"
proof -
  let ?u = "keystate_register_change_hook c (t\<lparr>recording_macro := d\<rparr>)"
  have "macro_state.more (macros_abort_macro (buzzer_start_f n f ?u)) = macro_state.more ?u" by (simp add: frame)
  note e = scan_env_above [OF this]
  show "scan_env (go_to a b (macros_abort_macro (buzzer_start_f n f ?u))) = scan_env t"
    using e(1) by (simp add: scan_env_def go_to_def keystate_register_change_hook_def)
  show "key_states (go_to a b (macros_abort_macro (buzzer_start_f n f ?u))) = key_states t"
    "key_press_count (go_to a b (macros_abort_macro (buzzer_start_f n f ?u))) = key_press_count t"
    using e(2,3) by (simp_all add: go_to_def keystate_register_change_hook_def)
qed

lemma macro_record_hook_env:
  "scan_env (macro_record_hook k p s) = scan_env s \<and> key_states (macro_record_hook k p s) = key_states s
    \<and> key_press_count (macro_record_hook k p s) = key_press_count s"
proof (cases k p s rule: macro_record_hook_cases)
  case (append h t)
  then show ?thesis using scan_env_above [OF macros_append_above [OF append(1)]] by simp
next
  case (fail h t)
  show ?thesis unfolding fail(2) stop_recording_env using scan_env_above [OF macros_append_above [OF fail(1)]] by simp
qed simp

interpretation record_hook: change_hook macro_record_hook
  by unfold_locales (simp_all add: macro_record_hook_env)

subsection \<open>The invariant\<close>

text \<open>
  What the state machine keeps: the hook is registered exactly while a macro is recorded, and that only
  in its state; a number that is being set up is in range; the buffers have their lengths.
\<close>

definition control_ok :: "bool \<Rightarrow> 'a keyboard_state_scheme \<Rightarrow> bool" where
  "control_ok fx s \<longleftrightarrow> (keystate_change_hook_fn s \<longleftrightarrow> recording_macro s)
     \<and> (recording_macro s \<longrightarrow> current_state s = STATE_MACRO_RECORD)
     \<and> next_state s \<in> {STATE_NORMAL, STATE_PROGRAMMING_SRC, STATE_PROGRAMMING_DST, STATE_MACRO_RECORD_TRIGGER, STATE_MACRO_RECORD}
     \<and> unat (new_debounce_len s) \<le> MAX_DEBOUNCE_LEN
     \<and> unat (last_count s) \<le> MACRO_MAX_KEYS \<and> length (trigger_key s) = MACRO_MAX_KEYS
     \<and> (fx \<longrightarrow> \<not> SPECIAL_HID_KEY_NOREMAP (program_src_hkey s))
     \<and> adc_index s < 20 \<and> length (adc_rv s) = 20 \<and> length (vms s) = PROGRAM_COUNT"

text \<open>
  While the host leaves the layer and program keys where they are (\<open>fx\<close>), the count of pressed keys is
  right as well.
\<close>

definition keys_ok :: "bool \<Rightarrow> 'a keystate_state_scheme \<Rightarrow> bool" where
  "keys_ok fx s \<longleftrightarrow> slots_wf s
     \<and> (fx \<longrightarrow> key_press_count s = of_nat (down_now (logical_to_hid_map s) (key_states s)))"

lemma keys_ok_wf: "keys_ok fx s \<Longrightarrow> slots_wf s" "keys_ok True s \<longleftrightarrow> keystate_wf s"
  by (simp_all add: keys_ok_def keystate_wf_slots)

definition kb_inv :: "bool \<Rightarrow> 'a keyboard_state_scheme \<Rightarrow> bool" where
  "kb_inv fx s \<longleftrightarrow> config_ok fx s \<and> keys_ok fx s \<and> control_ok fx s"

lemma kb_inv_mono:
  assumes "kb_inv fx s" "fx' \<Longrightarrow> fx"
  shows "kb_inv fx' s"
  using assms config_ok_mono [of fx s fx'] by (auto simp: kb_inv_def keys_ok_def control_ok_def)

text \<open>The number of pressed keys does not depend on the mapping, as only ordinary keys are remapped.\<close>

lemma special_fixed_notified:
  assumes "special_fixed m" "unat (p_key k) < NUM_LOGICAL_KEYS"
  shows "notified m k \<longleftrightarrow> is_hid_key_to_notify_about (default_hid (p_key k))"
proof (cases "SPECIAL_HID_KEY_NOREMAP (m (p_key k)) \<or> SPECIAL_HID_KEY_NOREMAP (default_hid (p_key k))")
  case True
  then show ?thesis using assms unfolding special_fixed_def notified_def by metis
next
  case False
  then show ?thesis unfolding notified_def is_hid_key_to_notify_about_def SPECIAL_HID_KEY_NOREMAP_def
    by (auto simp: SPECIAL_HID_KEY_LAYER_LOCK_def SPECIAL_HID_KEY_MACRO_SHIFT_def NO_KEY_def)
qed

lemma slot_key_small:
  assumes "slots_wf s" "k \<in> set (key_states s)" "state k"
  shows "unat (p_key k) < KEYPAD_LAYER_SIZE"
proof -
  have ok: "slots_ok (get_bit (debounced_bitfield s)) (key_states s)" and l: "layer_keys (debounced_bitfield s)"
    using assms(1) by (simp_all add: slots_wf_def)
  have "occupied k" using ok assms(2,3) by (cases "occupied k") (auto simp: slots_ok_def slots_mid_def empty_key_state_def)
  then show ?thesis
    using ok l assms(2,3) by (auto simp: slots_ok_def slots_mid_def layer_keys_def)
qed

lemma down_now_fixed:
  assumes "slots_wf s" "special_fixed m" "special_fixed m'"
  shows "down_now m (key_states s) = down_now m' (key_states s)"
proof -
  have "notified m k \<longleftrightarrow> notified m' k" if "k \<in> set (key_states s)" "state k" for k
  proof -
    have "unat (p_key k) < NUM_LOGICAL_KEYS"
      using slot_key_small [OF assms(1) that] by (simp add: NUM_LOGICAL_KEYS_def)
    then show ?thesis using special_fixed_notified assms(2,3) by blast
  qed
  then have "filter (\<lambda>k. state k \<and> notified m k) (key_states s) = filter (\<lambda>k. state k \<and> notified m' k) (key_states s)"
    by (intro filter_cong) auto
  then show ?thesis by (simp add: down_now_def)
qed

lemma keys_ok_config:
  assumes m: "config_state.more t = config_state.more s" and "config_ok fx t" "config_ok fx s" "keys_ok fx s"
  shows "keys_ok fx t"
proof -
  note e = above_config [OF m]
  have wf: "slots_wf s" using assms(4) by (simp add: keys_ok_def)
  have "down_now (logical_to_hid_map t) (key_states s) = down_now (logical_to_hid_map s) (key_states s)" if fx
    using assms(2,3) that by (intro down_now_fixed [OF wf]) (simp_all add: config_ok_def)
  then show ?thesis using assms(2,4) e unfolding keys_ok_def slots_wf_def config_ok_def by auto
qed

lemma control_ok_config:
  assumes "config_state.more t = config_state.more s"
  shows "control_ok fx t \<longleftrightarrow> control_ok fx s"
proof -
  note 1 = above_config [OF assms]
  note 2 = above_keystate [OF 1(1)]
  note 3 = above_interpreter [OF 2(1)]
  note 4 = above_board [OF 3(1)]
  show ?thesis unfolding control_ok_def by (simp add: 1 2 3 4)
qed

lemma kb_inv_config:
  assumes "config_state.more t = config_state.more s" "kb_inv fx s" "config_ok fx t"
  shows "kb_inv fx t"
  using assms keys_ok_config [OF assms(1)] control_ok_config [OF assms(1), of fx] by (auto simp: kb_inv_def)

lemma kb_inv_above:
  assumes "macro_state.more t = macro_state.more s"
  shows "kb_inv fx t \<longleftrightarrow> kb_inv fx s"
proof
  have m: "config_state.more t = config_state.more s" by (rule above_macro(1) [OF assms])
  have c: "config_ok fx t \<longleftrightarrow> config_ok fx s" by (rule config_ok_above [OF assms])
  show "kb_inv fx t" if "kb_inv fx s" using kb_inv_config [OF m that] that c by (simp add: kb_inv_def)
  show "kb_inv fx s" if "kb_inv fx t" using kb_inv_config [OF m [symmetric] that] that c by (simp add: kb_inv_def)
qed

lemma kb_inv_macro [simp]:
  "kb_inv fx (buzzer_start_f n f s) \<longleftrightarrow> kb_inv fx s" "kb_inv fx (macros_commit_macro s) \<longleftrightarrow> kb_inv fx s"
  "kb_inv fx (buzzer_update m s) \<longleftrightarrow> kb_inv fx s" "kb_inv fx (macros_abort_macro s) \<longleftrightarrow> kb_inv fx s"
  "kb_inv fx (snd (macros_append h s)) \<longleftrightarrow> kb_inv fx s" "kb_inv fx (snd (macros_start_playback off s)) \<longleftrightarrow> kb_inv fx s"
  "kb_inv fx (snd (macros_start_macro key s)) \<longleftrightarrow> kb_inv fx s"
  "kb_inv fx (snd (snd (macros_fill_next_report r s))) \<longleftrightarrow> kb_inv fx s"
  "kb_inv fx (snd (printing_Fill_KeyboardReport r s)) \<longleftrightarrow> kb_inv fx s"
  by (rule kb_inv_above, rule frame)+

lemma kb_inv_configs:
  assumes "kb_inv fx s"
  shows "kb_inv fx (config_reset_defaults s)" "kb_inv fx (config_reset_fully s)" "kb_inv fx (config_save_flags f s)"
    "kb_inv fx (snd (config_save_layout num s))" "kb_inv fx (snd (config_load_layout num s))"
    "kb_inv fx (snd (config_delete_layout num s))"
    "0 < n \<Longrightarrow> unat n \<le> MAX_DEBOUNCE_LEN \<Longrightarrow> kb_inv fx (config_save_debounce_len n s)"
    "0 < n \<Longrightarrow> kb_inv fx (config_save_mouse_div n s)" "0 < n \<Longrightarrow> kb_inv fx (config_save_wheel_div n s)"
    "\<not> SPECIAL_HID_KEY_NOREMAP (logical_to_hid_map s l) \<Longrightarrow> (fx \<Longrightarrow> \<not> SPECIAL_HID_KEY_NOREMAP h) \<Longrightarrow>
      kb_inv fx (config_save_definition l h s)"
proof -
  have c: "config_ok fx s" using assms by (simp add: kb_inv_def)
  show "kb_inv fx (config_reset_defaults s)" "kb_inv fx (config_reset_fully s)" "kb_inv fx (config_save_flags f s)"
    "kb_inv fx (snd (config_save_layout num s))" "kb_inv fx (snd (config_load_layout num s))"
    "kb_inv fx (snd (config_delete_layout num s))"
    "0 < n \<Longrightarrow> unat n \<le> MAX_DEBOUNCE_LEN \<Longrightarrow> kb_inv fx (config_save_debounce_len n s)"
    "0 < n \<Longrightarrow> kb_inv fx (config_save_mouse_div n s)" "0 < n \<Longrightarrow> kb_inv fx (config_save_wheel_div n s)"
    "\<not> SPECIAL_HID_KEY_NOREMAP (logical_to_hid_map s l) \<Longrightarrow> (fx \<Longrightarrow> \<not> SPECIAL_HID_KEY_NOREMAP h) \<Longrightarrow>
      kb_inv fx (config_save_definition l h s)"
    by (auto intro!: kb_inv_config [OF _ assms] simp: frame c config_ok_reset_defaults config_ok_reset_fully
      config_ok_settings config_ok_save_layout config_ok_load_layout config_ok_delete config_ok_definition)
qed

subsection \<open>Not recording\<close>

text \<open>The invariant while no macro is recorded, which lets the state machine go to any state.\<close>

definition idle :: "bool \<Rightarrow> 'a keyboard_state_scheme \<Rightarrow> bool" where
  "idle fx s \<longleftrightarrow> kb_inv fx s \<and> \<not> recording_macro s"

lemma recording_config:
  assumes "config_state.more t = config_state.more s"
  shows "recording_macro t = recording_macro s" "current_state t = current_state s" "next_state t = next_state s"
  using above_board [OF above_interpreter(1) [OF above_keystate(1) [OF above_config(1) [OF assms]]]] by simp_all

lemma idle_above:
  assumes "macro_state.more t = macro_state.more s"
  shows "idle fx t \<longleftrightarrow> idle fx s"
  using kb_inv_above [OF assms] recording_config [OF above_macro(1) [OF assms]] by (simp add: idle_def)

lemma idle_macro [simp]:
  "idle fx (buzzer_start_f n f s) \<longleftrightarrow> idle fx s" "idle fx (macros_commit_macro s) \<longleftrightarrow> idle fx s"
  "idle fx (snd (macros_start_playback off s)) \<longleftrightarrow> idle fx s" "idle fx (snd (macros_start_macro key s)) \<longleftrightarrow> idle fx s"
  "idle fx (snd (snd (macros_fill_next_report r s))) \<longleftrightarrow> idle fx s" "idle fx (macros_abort_macro s) \<longleftrightarrow> idle fx s"
  by (rule idle_above, rule frame)+

lemma idle_configs:
  assumes "idle fx s"
  shows "idle fx (config_reset_defaults s)" "idle fx (config_reset_fully s)" "idle fx (config_save_flags f s)"
    "idle fx (snd (config_save_layout num s))" "idle fx (snd (config_load_layout num s))"
    "idle fx (snd (config_delete_layout num s))"
    "\<not> SPECIAL_HID_KEY_NOREMAP (logical_to_hid_map s l) \<Longrightarrow> (fx \<Longrightarrow> \<not> SPECIAL_HID_KEY_NOREMAP h) \<Longrightarrow>
      idle fx (config_save_definition l h s)"
  using assms by (simp_all add: idle_def kb_inv_configs recording_config(1) [OF layouts_above(1)]
      recording_config(1) [OF layouts_above(2)] recording_config(1) [OF layouts_above(3)]
      recording_config(1) [OF config_reset_above(1)] recording_config(1) [OF config_reset_above(2)]
      recording_config(1) [OF config_above(1)] recording_config(1) [OF config_above(2)])

lemma idle_state:
  "idle fx s \<Longrightarrow> b \<in> {STATE_NORMAL, STATE_PROGRAMMING_SRC, STATE_PROGRAMMING_DST, STATE_MACRO_RECORD_TRIGGER,
     STATE_MACRO_RECORD} \<Longrightarrow> idle fx (go_to a b s)"
  "idle fx s \<Longrightarrow> idle fx (s\<lparr>current_state := a\<rparr>)"
  "idle fx s \<Longrightarrow> idle fx (s\<lparr>wait_key_press_count := c\<rparr>)" "idle fx s \<Longrightarrow> idle fx (s\<lparr>in_prg_chord_with_lcd_info := d\<rparr>)"
  "idle fx s \<Longrightarrow> idle fx (reboot_firmware s)"
  "idle fx s \<Longrightarrow> unat n \<le> MAX_DEBOUNCE_LEN \<Longrightarrow> idle fx (s\<lparr>new_debounce_len := n\<rparr>)"
  "idle fx s \<Longrightarrow> idle fx (s\<lparr>new_mouse_div := n\<rparr>)" "idle fx s \<Longrightarrow> idle fx (s\<lparr>new_wheel_div := n\<rparr>)"
  "idle fx s \<Longrightarrow> (fx \<Longrightarrow> \<not> SPECIAL_HID_KEY_NOREMAP h) \<Longrightarrow> idle fx (s\<lparr>program_src_hkey := h\<rparr>)"
  "idle fx s \<Longrightarrow> unat n \<le> MACRO_MAX_KEYS \<Longrightarrow> idle fx (s\<lparr>last_count := n\<rparr>)"
  "idle fx s \<Longrightarrow> length key = MACRO_MAX_KEYS \<Longrightarrow> idle fx (s\<lparr>trigger_key := key\<rparr>)"
  by (simp_all add: idle_def kb_inv_def go_to_def reboot_firmware_def control_ok_def config_ok_def keys_ok_def slots_wf_def)

subsection \<open>The panel\<close>

lemma kb_inv_panel [simp]:
  "kb_inv fx (s\<lparr>sNumberToShowOnLcd := x\<rparr>) \<longleftrightarrow> kb_inv fx s" "kb_inv fx (s\<lparr>sLuxValToShowOnLcd := x\<rparr>) \<longleftrightarrow> kb_inv fx s"
  "kb_inv fx (s\<lparr>prev_led_mask := m\<rparr>) \<longleftrightarrow> kb_inv fx s" "kb_inv fx (s\<lparr>prev_lux_val := x\<rparr>) \<longleftrightarrow> kb_inv fx s"
  "kb_inv fx (s\<lparr>prev_num_val := x\<rparr>) \<longleftrightarrow> kb_inv fx s" "kb_inv fx (s\<lparr>lcd := ops\<rparr>) \<longleftrightarrow> kb_inv fx s"
  "kb_inv fx (s\<lparr>blue_led := l\<rparr>) \<longleftrightarrow> kb_inv fx s" "kb_inv fx (s\<lparr>red_led := l\<rparr>) \<longleftrightarrow> kb_inv fx s"
  "kb_inv fx (s\<lparr>yellow_led := l\<rparr>) \<longleftrightarrow> kb_inv fx s" "kb_inv fx (s\<lparr>green_led := l\<rparr>) \<longleftrightarrow> kb_inv fx s"
  by (simp_all add: kb_inv_def config_ok_def keys_ok_def slots_wf_def control_ok_def)

lemma set_all_leds_inv [simp]: "kb_inv fx (set_all_leds m s) \<longleftrightarrow> kb_inv fx s"
  by (simp add: set_all_leds_def Let_def lcd_out_def lcd_print_position_def update_leds_def)

lemma set_all_leds_above [frame]: "board_state.more (set_all_leds m s) = board_state.more s"
  by (simp add: set_all_leds_def Let_def lcd_out_def lcd_print_position_def update_leds_def)

lemma idle_leds [simp]: "idle fx (set_all_leds m s) \<longleftrightarrow> idle fx s"
  by (simp add: idle_def above_board(11) [OF set_all_leds_above])

lemma idle_number [simp]: "idle fx (set_number_to_show_on_lcd n s) \<longleftrightarrow> idle fx s"
  unfolding set_number_to_show_on_lcd_def idle_leds by (simp add: idle_def)

subsection \<open>Normal state\<close>

lemma idle_two_key:
  assumes "idle fx s" "two_key_chord h s = Some t"
  shows "idle fx t"
proof -
  have d: "unat (debounce_len s) \<le> MAX_DEBOUNCE_LEN" "unat (new_debounce_len s) \<le> MAX_DEBOUNCE_LEN"
    using assms(1) by (simp_all add: idle_def kb_inv_def config_ok_def control_ok_def)
  have fin: "idle fx (setup_number_finish n u)" if "idle fx u" for n and u :: "'a keyboard_state_scheme"
    using that by (simp add: setup_number_finish_def idle_state)
  have up: "unat (if unat n < MAX_DEBOUNCE_LEN then n + 1 else n) \<le> MAX_DEBOUNCE_LEN"
    if "unat n \<le> MAX_DEBOUNCE_LEN" for n :: u8
    using that unat_add_lem [of n 1] by (simp add: MAX_DEBOUNCE_LEN_def)
  have down: "unat (if n > 2 then n - 1 else n) \<le> MAX_DEBOUNCE_LEN" if "unat n \<le> MAX_DEBOUNCE_LEN" for n :: u8
    using that unat_sub [of 1 n] by (auto simp: MAX_DEBOUNCE_LEN_def word_less_nat_alt word_le_nat_alt)
  have deb: "idle fx (change_debounce f s)" if "\<And>n. unat n \<le> MAX_DEBOUNCE_LEN \<Longrightarrow> unat (f n) \<le> MAX_DEBOUNCE_LEN" for f
    using assms(1) d that
    by (auto simp: change_debounce_def setup_number_def config_get_debounce_len_def intro!: fin idle_state)
  have "idle fx (change_mouse_div f s)" "idle fx (change_wheel_div f s)" for f
    using assms(1) by (auto simp: change_mouse_div_def change_wheel_div_def setup_number_def intro!: fin idle_state)
  moreover have "idle fx (cycle_macros_enabled s)" "idle fx (toggle_key_sound s)"
    using assms(1) by (simp_all add: cycle_macros_enabled_def toggle_key_sound_def Let_def idle_state idle_configs)
  moreover have "idle fx (go_to STATE_WAITING STATE_NORMAL (config_reset_defaults s))"
    using assms(1) by (simp add: idle_state idle_configs)
  ultimately show ?thesis
    using assms deb up down unfolding two_key_chord_def
    by (auto split: if_splits intro!: idle_state)
qed

lemma idle_three_key:
  assumes "idle fx s" "three_key_chord h0 h1 s = Some t"
  shows "idle fx t"
proof -
  have r: "idle fx (layout_result (ok, u))" if "idle fx u" for ok and u :: "'a keyboard_state_scheme"
    using that by (simp add: layout_result_def idle_state)
  have p: "idle fx (layout_result p)" if "idle fx (snd p)" for p :: "bool \<times> 'a keyboard_state_scheme"
    using r [of "snd p" "fst p"] that by simp
  have "idle fx (layout_result (config_save_layout n s))" "idle fx (layout_result (config_load_layout n s))"
    "idle fx (layout_result (config_delete_layout n s))" for n
    using idle_configs(4-6) [OF assms(1)] by (blast intro: p)+
  moreover have "idle fx (go_to STATE_WAITING STATE_NORMAL (config_reset_fully s))"
    using assms(1) by (simp add: idle_state idle_configs)
  ultimately show ?thesis using assms(2) by (auto simp: three_key_chord_def Let_def split: if_splits)
qed

lemma idle_program_chord: "idle fx s \<Longrightarrow> program_chord k s = Some t \<Longrightarrow> idle fx t"
  using idle_two_key idle_three_key by (auto simp: program_chord_def Let_def split: if_splits)

lemma hide_slot_slots:
  assumes "unat pk < KEYPAD_LAYER_SIZE"
  shows "slots_ok D (hide_slot pk slots) \<longleftrightarrow> slots_ok D slots" "down_now m (hide_slot pk slots) = down_now m slots"
proof -
  have pk: "pk \<noteq> NO_KEY" using assms by (auto simp: NO_KEY_def KEYPAD_LAYER_SIZE_def)
  let ?core = "\<lambda>k. (p_key k, prev_state k, state k, if p_key k = NO_KEY then hidden k else False)"
  have core: "map ?core (hide_slot pk slots) = map ?core slots" using pk by (induction slots) auto
  have keys: "map (\<lambda>k. unat (p_key k)) (filter occupied ks) = map (\<lambda>(p, _). unat p) (filter (\<lambda>(p, _). p \<noteq> NO_KEY) (map ?core ks))" for ks
    by (induction ks) (auto simp: occupied_def)
  have empty: "k = empty_key_state \<longleftrightarrow> ?core k = (NO_KEY, False, False, False)" for k
    by (cases k) (simp add: empty_key_state_def)
  let ?mid = "\<lambda>(p, ps, st, h). if p \<noteq> NO_KEY then (st \<longleftrightarrow> D (unat p)) \<and> ps \<and> st \<and> unat p < 88
      else (p, ps, st, h) = (NO_KEY, False, False, False)"
  have ok: "slots_ok D ks \<longleftrightarrow> length (map ?core ks) = KEYSTATE_COUNT
      \<and> distinct (map (\<lambda>(p, _). unat p) (filter (\<lambda>(p, _). p \<noteq> NO_KEY) (map ?core ks))) \<and> list_all ?mid (map ?core ks)" for ks
    unfolding slots_ok_def slots_mid_def slot_keys_def keys list_all_iff empty occupied_def by (auto split: if_splits)
  show "slots_ok D (hide_slot pk slots) \<longleftrightarrow> slots_ok D slots" unfolding ok core by (rule refl)
  have "down_now m ks = length (filter (\<lambda>(p, ps, st, h). st \<and> is_hid_key_to_notify_about (m p)) (map ?core ks))" for ks
    unfolding down_now_def notified_def by (induction ks) auto
  then show "down_now m (hide_slot pk slots) = down_now m slots" by (simp only: core)
qed

lemma hide_key_inv [simp]: "kb_inv fx (keystate_hide_key k s) \<longleftrightarrow> kb_inv fx s"
proof -
  have "unat (k mod of_nat KEYPAD_LAYER_SIZE) < KEYPAD_LAYER_SIZE"
    by (simp add: unat_mod KEYPAD_LAYER_SIZE_def)
  then show ?thesis
    using hide_slot_slots by (simp add: kb_inv_def keystate_hide_key_def config_ok_def keys_ok_def slots_wf_def control_ok_def)
qed

lemma hide_keys_idle: "idle fx (fold keystate_hide_key ks s) \<longleftrightarrow> idle fx s"
  by (induction ks arbitrary: s) (simp_all add: idle_def, simp_all add: keystate_hide_key_def)

lemma idle_vms: "idle fx s \<Longrightarrow> length vs = PROGRAM_COUNT \<Longrightarrow> idle fx (s\<lparr>vms := vs\<rparr>)"
  by (simp add: idle_def kb_inv_def config_ok_def keys_ok_def slots_wf_def control_ok_def)

lemma vm_start_idle:
  assumes "idle fx s" "vm_start i l s = Some (r, t)"
  shows "idle fx t"
proof -
  have "length (vms s) = PROGRAM_COUNT" using assms(1) by (simp add: idle_def kb_inv_def control_ok_def)
  then show ?thesis
    using assms by (auto simp: vm_start_def split: if_splits bind_splits intro!: idle_vms)
qed

lemma start_trigger_idle:
  assumes "idle fx s" "start_trigger (h, key, multi) flags s = Some t"
  shows "idle fx t"
proof (cases "idx_type (macro_idx_get_data h s)")
  case PROGRAM
  let ?u = "fold keystate_hide_key (take (unat (key_press_count s)) key) s"
  have "idle fx ?u" using assms(1) by (simp add: hide_keys_idle)
  then show ?thesis
    using assms PROGRAM vm_start_idle [of fx ?u]
    by (auto simp: start_trigger_def Let_def split: if_splits)
next
  case MACRO
  obtain ok u where p: "macros_start_playback (idx_data (macro_idx_get_data h s)) s = (ok, u)" by fastforce
  then have "idle fx u" using assms(1) idle_macro(3) [of fx "idx_data (macro_idx_get_data h s)" s] by simp
  then have "idle fx (keystate_hide_key k (u\<lparr>wait_key_press_count := c\<rparr>))" for k c
    by (simp add: hide_keys_idle [of fx "[k]", simplified] idle_state)
  then show ?thesis
    using assms MACRO p \<open>idle fx u\<close>
    by (auto simp: start_trigger_def Let_def idle_state split: if_splits bool.splits)
qed

lemma handle_state_normal_inv:
  assumes "kb_inv fx s" "current_state s = STATE_NORMAL" "handle_state_normal s = Some t"
  shows "idle fx t"
proof -
  have i: "idle fx s" using assms(1,2) by (auto simp: idle_def kb_inv_def control_ok_def)
  show ?thesis
    using assms(3) i idle_program_chord [OF i] start_trigger_idle [OF i]
    by (auto simp: handle_state_normal_def Let_def split: if_splits option.splits prod.splits bool.splits)
qed

subsection \<open>Remapping and recording\<close>

lemma get_keys_length: "length (keystate_get_keys ty s) \<le> unat (key_press_count s)"
  by (simp add: keystate_get_keys_def)

text \<open>The keys read are keys of the table, so no default is looked up behind its end.\<close>

lemma get_keys_small:
  assumes "slots_wf s" "k \<in> set (keystate_get_keys LOGICAL s)"
  shows "unat k < NUM_LOGICAL_KEYS"
proof -
  obtain x where x: "x \<in> set (key_states s)" "state x" "k = extract_keycode (layer s) x LOGICAL s"
    using set_take_subset assms(2) unfolding keystate_get_keys_def by fastforce
  have p: "unat (p_key x) < KEYPAD_LAYER_SIZE" by (rule slot_key_small [OF assms(1) x(1,2)])
  define n where "n = (if base (layer s) then 0 else lid (layer s))"
  have "unat n \<le> 2" using assms(1) by (simp add: n_def slots_wf_def word_le_nat_alt)
  moreover have "k = p_key x + n * of_nat KEYPAD_LAYER_SIZE" by (simp add: x(3) extract_keycode_def n_def Let_def)
  ultimately show ?thesis
    using p by (simp add: unat_word_ariths KEYPAD_LAYER_SIZE_def NUM_LOGICAL_KEYS_def)
qed

lemma read_key_small:
  assumes "slots_wf s"
  shows "unat (read_keys [0] s ! 0) < NUM_LOGICAL_KEYS"
proof (cases "keystate_get_keys LOGICAL s")
  case (Cons k ks)
  then have "k \<in> set (keystate_get_keys LOGICAL s)" by simp
  then show ?thesis using get_keys_small [OF assms] Cons by (simp add: read_keys_def Let_def)
qed (simp add: read_keys_def NUM_LOGICAL_KEYS_def KEYPAD_LAYER_SIZE_def)

lemma default_not_special:
  assumes "special_fixed m" "\<not> SPECIAL_HID_KEY_NOREMAP (m l)" "unat l < NUM_LOGICAL_KEYS"
  shows "\<not> SPECIAL_HID_KEY_NOREMAP (config_get_default_definition l)"
  using assms unfolding special_fixed_def config_get_default_definition_def by metis

lemma handle_state_programming_inv:
  assumes "idle fx s"
  shows "idle fx (handle_state_programming s)"
proof -
  have sp: "special_fixed (logical_to_hid_map s)" "\<not> SPECIAL_HID_KEY_NOREMAP (program_src_hkey s)" if fx
    using assms that by (simp_all add: idle_def kb_inv_def config_ok_def control_ok_def)
  define l where "l = read_keys [0] s ! 0"
  have l: "unat l < NUM_LOGICAL_KEYS"
    unfolding l_def by (rule read_key_small) (use assms in \<open>simp add: idle_def kb_inv_def keys_ok_def\<close>)
  show ?thesis
  proof (cases "SPECIAL_HID_KEY_NOREMAP (config_get_definition l s)")
    case True
    then show ?thesis using assms by (simp add: handle_state_programming_def Let_def l_def idle_state)
  next
    case False
    then have n: "\<not> SPECIAL_HID_KEY_NOREMAP (logical_to_hid_map s l)" by (simp add: config_get_definition_def)
    have "idle fx (config_save_definition l (program_src_hkey s) s)"
      by (rule idle_configs(7) [OF assms n]) (use sp in blast)
    moreover have "idle fx (s\<lparr>program_src_hkey := config_get_default_definition l\<rparr>)"
      by (rule idle_state(9) [OF assms]) (use sp(1) n l default_not_special in blast)
    ultimately show ?thesis using assms by (simp add: handle_state_programming_def Let_def l_def [symmetric] idle_state)
  qed
qed

lemma length_format_key: "n \<le> MACRO_MAX_KEYS \<Longrightarrow> length key = MACRO_MAX_KEYS \<Longrightarrow>
    length (fst (macro_idx_format_key key n)) = MACRO_MAX_KEYS"
  by (simp add: macro_idx_format_key_def Let_def)

lemma handle_state_macro_record_trigger_inv:
  assumes "idle fx s"
  shows "idle fx (handle_state_macro_record_trigger s)"
proof -
  have k: "length (trigger_key s) = MACRO_MAX_KEYS" "unat (last_count s) \<le> MACRO_MAX_KEYS"
    using assms by (simp_all add: idle_def kb_inv_def control_ok_def)
  have 1: "idle fx (s\<lparr>trigger_key := read_keys (trigger_key s) s, last_count := key_press_count s\<rparr>)"
    if "unat (key_press_count s) \<le> MACRO_MAX_KEYS"
    using that assms k get_keys_length [of LOGICAL s]
    by (intro idle_state) (auto simp: read_keys_def Let_def)
  obtain key valid where f: "macro_idx_format_key (trigger_key s) (unat (last_count s)) = (key, valid)" by fastforce
  then have "length key = MACRO_MAX_KEYS" using length_format_key [OF k(2,1)] by simp
  then have u: "idle fx (s\<lparr>trigger_key := key, last_count := 0\<rparr>)" using assms by (intro idle_state) simp_all
  obtain ok t where m: "macros_start_macro key (s\<lparr>trigger_key := key, last_count := 0\<rparr>) = (ok, t)" by fastforce
  then have t: "idle fx t" using u idle_macro(4) [of fx key "s\<lparr>trigger_key := key, last_count := 0\<rparr>"] by simp
  show ?thesis
  proof (cases ok)
    case True
    then show ?thesis using assms 1 u m t
      by (simp add: handle_state_macro_record_trigger_def Let_def f idle_state)
  next
    case False
    then show ?thesis using assms 1 u m t
      by (simp add: handle_state_macro_record_trigger_def Let_def f idle_state)
  qed
qed

lemma handle_state_macro_record_inv:
  assumes "kb_inv fx s" "current_state s = STATE_MACRO_RECORD"
  shows "kb_inv fx (handle_state_macro_record s)"
proof -
  define u where "u = (if \<not> recording_macro s then keystate_register_change_hook True (s\<lparr>recording_macro := True\<rparr>) else s)"
  have u: "kb_inv fx u" using assms
    by (simp add: u_def kb_inv_def keystate_register_change_hook_def config_ok_def keys_ok_def slots_wf_def control_ok_def)
  then have "idle fx (keystate_register_change_hook False (u\<lparr>recording_macro := False\<rparr>))"
    by (simp add: idle_def kb_inv_def keystate_register_change_hook_def config_ok_def keys_ok_def slots_wf_def control_ok_def)
  then have "idle fx (go_to STATE_WAITING STATE_NORMAL (macros_commit_macro
      (keystate_register_change_hook False (u\<lparr>recording_macro := False\<rparr>))))"
    by (intro idle_state) simp_all
  then show ?thesis using u by (simp add: handle_state_macro_record_def u_def [symmetric] Let_def idle_def)
qed

lemma handle_state_inv:
  assumes "kb_inv fx s" "handle_state s = Some t"
  shows "kb_inv fx t"
proof -
  have i: "idle fx s" if "current_state s \<noteq> STATE_MACRO_RECORD"
    using assms(1) that by (auto simp: idle_def kb_inv_def control_ok_def)
  have w: "kb_inv fx (s\<lparr>wait_key_press_count := 0, current_state := next_state s, next_state := STATE_NORMAL\<rparr>)"
    if "current_state s = STATE_WAITING"
    using i that by (auto simp: idle_def kb_inv_def config_ok_def keys_ok_def slots_wf_def control_ok_def)
  have "kb_inv fx (s\<lparr>current_state := STATE_WAITING\<rparr>)" if "current_state s = STATE_PRINTING"
    using idle_state(2) [OF i] that by (simp add: idle_def)
  then show ?thesis
    using assms i w handle_state_normal_inv [where fx = fx] handle_state_programming_inv [where fx = fx]
      handle_state_macro_record_trigger_inv [where fx = fx] handle_state_macro_record_inv [where fx = fx]
    by (cases "current_state s") (auto simp: handle_state_def idle_def split: if_splits)
qed

subsection \<open>The scan\<close>

text \<open>The parts of the invariant the key scan does not touch, except through the hook.\<close>

definition rest_ok :: "bool \<Rightarrow> 'a keyboard_state_scheme \<Rightarrow> bool" where
  "rest_ok fx s \<longleftrightarrow> config_ok fx s \<and> control_ok fx s"

lemma rest_ok_scan [simp]:
  "rest_ok fx (s\<lparr>active_debounce_index := i\<rparr>) \<longleftrightarrow> rest_ok fx s" "rest_ok fx (s\<lparr>debounce_bitfields := r\<rparr>) \<longleftrightarrow> rest_ok fx s"
  "rest_ok fx (s\<lparr>debounced_on_bitfield := w\<rparr>) \<longleftrightarrow> rest_ok fx s" "rest_ok fx (s\<lparr>debounced_bitfield := w\<rparr>) \<longleftrightarrow> rest_ok fx s"
  "rest_ok fx (s\<lparr>key_states := k\<rparr>) \<longleftrightarrow> rest_ok fx s" "rest_ok fx (s\<lparr>key_press_counter := c\<rparr>) \<longleftrightarrow> rest_ok fx s"
  "rest_ok fx (s\<lparr>key_press_count := d\<rparr>) \<longleftrightarrow> rest_ok fx s" "rest_ok fx (s\<lparr>layer := l\<rparr>) \<longleftrightarrow> rest_ok fx s"
  "rest_ok fx (s\<lparr>prev_layer := l\<rparr>) \<longleftrightarrow> rest_ok fx s"
  by (simp_all add: rest_ok_def config_ok_def control_ok_def)

lemma rest_ok_above:
  assumes "macro_state.more t = macro_state.more s"
  shows "rest_ok fx t \<longleftrightarrow> rest_ok fx s"
  using config_ok_above [OF assms] control_ok_config [OF above_macro(1) [OF assms]] by (simp add: rest_ok_def)

lemma rest_ok_buzzer [simp]: "rest_ok fx (buzzer_start_f n f s) \<longleftrightarrow> rest_ok fx s" "rest_ok fx (default_beep s) \<longleftrightarrow> rest_ok fx s"
  by (rule rest_ok_above, simp add: default_beep_def frame)+

lemma rest_ok_hook:
  assumes "rest_ok fx s"
  shows "rest_ok fx (macro_record_hook k p s)"
proof (cases k p s rule: macro_record_hook_cases)
  case (append h t)
  then show ?thesis using rest_ok_above [OF macros_append_above] assms by metis
next
  case (fail h t)
  let ?u = "keystate_register_change_hook False (t\<lparr>recording_macro := False\<rparr>)"
  have "rest_ok fx t" using rest_ok_above [OF macros_append_above [OF fail(1)]] assms by simp
  then have "rest_ok fx ?u \<and> \<not> recording_macro ?u"
    by (simp add: rest_ok_def config_ok_def control_ok_def keystate_register_change_hook_def)
  moreover have m: "macro_state.more (macros_abort_macro (buzzer_start_f 200 BUZZER_FAILURE_TONE ?u)) = macro_state.more ?u"
    by (simp add: frame)
  ultimately have "rest_ok fx (macros_abort_macro (buzzer_start_f 200 BUZZER_FAILURE_TONE ?u))
      \<and> \<not> recording_macro (macros_abort_macro (buzzer_start_f 200 BUZZER_FAILURE_TONE ?u))"
    using rest_ok_above [OF m] recording_config(1) [OF above_macro(1) [OF m]] by simp
  then show ?thesis unfolding fail(2) by (simp add: rest_ok_def config_ok_def control_ok_def go_to_def)
qed (use assms in simp)

lemma rest_ok_notify:
  assumes "rest_ok fx s"
  shows "rest_ok fx (notify_key_pressed macro_record_hook l k s)" "rest_ok fx (notify_key_released macro_record_hook l k s)"
  using assms by (simp_all add: notify_key_pressed_def notify_key_released_def run_hook_def Let_def rest_ok_hook)

lemma rest_ok_slots:
  assumes "rest_ok fx s"
  shows "rest_ok fx (fold layer_slot js s)" "rest_ok fx (fold (notify_slot macro_record_hook c) js s)"
proof -
  have l: "rest_ok fx (layer_slot j s)" if "rest_ok fx s" for j and s :: "'a keyboard_state_scheme"
    using that by (simp add: layer_slot_def update_layer_def Let_def)
  have n: "rest_ok fx (notify_slot macro_record_hook c j s)" if "rest_ok fx s" for j and s :: "'a keyboard_state_scheme"
    using that by (simp add: notify_slot_def notify_about_key_change_def Let_def rest_ok_notify)
  show "rest_ok fx (fold layer_slot js s)" using assms by (induction js arbitrary: s) (simp_all add: l)
  show "rest_ok fx (fold (notify_slot macro_record_hook c) js s)" using assms by (induction js arbitrary: s) (simp_all add: n)
qed

lemma keystate_update_inv:
  assumes "kb_inv fx s"
  shows "kb_inv fx (keystate_update macro_record_hook matrix s)"
proof -
  have "rest_ok fx s" using assms by (simp add: kb_inv_def rest_ok_def)
  then have "rest_ok fx (record_presses (debounce_matrix matrix s))"
    by (simp add: record_presses_def debounce_matrix_def Let_def case_prod_beta)
  then have "rest_ok fx (keystate_update macro_record_hook matrix s)"
    by (simp add: keystate_update_def Let_def rest_ok_slots)
  moreover have "keys_ok fx (keystate_update macro_record_hook matrix s)"
  proof -
    have wf: "slots_wf s" using assms by (simp add: kb_inv_def keys_ok_def)
    have "keystate_wf (keystate_update macro_record_hook matrix s)" if fx
      using assms that by (intro record_hook.keystate_update_wf) (simp add: kb_inv_def keys_ok_def keystate_wf_slots)
    then show ?thesis
      using record_hook.keystate_update_slots_wf [OF wf, of matrix] by (simp add: keys_ok_def keystate_wf_slots)
  qed
  ultimately show ?thesis by (simp add: kb_inv_def rest_ok_def)
qed

subsection \<open>One pass of the main loop\<close>

lemma kb_inv_fields [simp]:
  "kb_inv fx (s\<lparr>update_keys := b\<rparr>) \<longleftrightarrow> kb_inv fx s" "kb_inv fx (s\<lparr>lcd_number_expire_time := t\<rparr>) \<longleftrightarrow> kb_inv fx s"
  "kb_inv fx (s\<lparr>prev_key_press_counter := c\<rparr>) \<longleftrightarrow> kb_inv fx s" "kb_inv fx (s\<lparr>in_prg_chord_with_lcd_info := b\<rparr>) \<longleftrightarrow> kb_inv fx s"
  "kb_inv fx (s\<lparr>new_mouse_div := n\<rparr>) \<longleftrightarrow> kb_inv fx s" "kb_inv fx (s\<lparr>new_wheel_div := n\<rparr>) \<longleftrightarrow> kb_inv fx s"
  "kb_inv fx (s\<lparr>next_step_time_ms := t\<rparr>) \<longleftrightarrow> kb_inv fx s" "kb_inv fx (s\<lparr>adc_started := b\<rparr>) \<longleftrightarrow> kb_inv fx s"
  "kb_inv fx (s\<lparr>uptimems := t\<rparr>) \<longleftrightarrow> kb_inv fx s" "kb_inv fx (s\<lparr>USB_LEDReport := r\<rparr>) \<longleftrightarrow> kb_inv fx s"
  "kb_inv fx (s\<lparr>cnt_move := b1\<rparr>) \<longleftrightarrow> kb_inv fx s"
  by (simp_all add: kb_inv_def config_ok_def keys_ok_def slots_wf_def control_ok_def)

lemma kb_inv_new_debounce: "kb_inv fx s \<Longrightarrow> unat n \<le> MAX_DEBOUNCE_LEN \<Longrightarrow> kb_inv fx (s\<lparr>new_debounce_len := n\<rparr>)"
  by (simp add: kb_inv_def config_ok_def keys_ok_def slots_wf_def control_ok_def)

lemma kb_inv_number [simp]: "kb_inv fx (set_number_to_show_on_lcd n s) \<longleftrightarrow> kb_inv fx s"
  "kb_inv fx (clear_number_to_show_on_lcd s) \<longleftrightarrow> kb_inv fx s"
  by (simp_all add: set_number_to_show_on_lcd_def clear_number_to_show_on_lcd_def)

lemma save_numbers_inv:
  assumes "kb_inv fx s"
  shows "kb_inv fx (save_numbers s)"
proof -
  define a where "a = (if new_debounce_len s \<noteq> 0 then
      (if new_debounce_len s \<noteq> config_get_debounce_len s then config_save_debounce_len (new_debounce_len s) s
       else s)\<lparr>new_debounce_len := 0\<rparr> else s)"
  define b where "b = (if new_mouse_div a \<noteq> 0 then
      (if new_mouse_div a \<noteq> config_get_mouse_div a then config_save_mouse_div (new_mouse_div a) a
       else a)\<lparr>new_mouse_div := 0\<rparr> else a)"
  have n: "unat (new_debounce_len s) \<le> MAX_DEBOUNCE_LEN" using assms by (simp add: kb_inv_def control_ok_def)
  have "kb_inv fx a" unfolding a_def using assms n
    by (simp add: kb_inv_configs kb_inv_new_debounce word_neq_0_conv)
  then have b: "kb_inv fx b" unfolding b_def by (simp add: kb_inv_configs word_neq_0_conv)
  have "save_numbers s = clear_number_to_show_on_lcd (if new_wheel_div b \<noteq> 0 then
      (if new_wheel_div b \<noteq> config_get_wheel_div b then config_save_wheel_div (new_wheel_div b) b
       else b)\<lparr>new_wheel_div := 0\<rparr> else b)"
    unfolding save_numbers_def a_def b_def Let_def by (rule refl)
  then show ?thesis using b by (simp add: kb_inv_configs word_neq_0_conv)
qed

lemma show_number_inv: "kb_inv fx s \<Longrightarrow> kb_inv fx (show_number s)"
  by (simp add: show_number_def save_numbers_inv)

lemma scan_keys_inv: "kb_inv fx s \<Longrightarrow> kb_inv fx (scan_keys matrix s)"
  by (simp add: scan_keys_def ledstate_update_def keystate_update_inv Let_def)

lemma run_photosensor_inv:
  assumes "kb_inv fx s"
  shows "kb_inv fx (snd (run_photosensor now adc s))" "\<not> fst (run_photosensor now adc s)"
proof -
  have adc: "kb_inv fx (s\<lparr>adc_started := b, adc_rv := r, adc_index := i\<rparr>)" if "length r = 20" "i < 20" for b r i
    using assms that by (simp add: kb_inv_def config_ok_def keys_ok_def slots_wf_def control_ok_def)
  have l: "length (adc_rv s) = 20" using assms by (simp add: kb_inv_def control_ok_def)
  show "kb_inv fx (snd (run_photosensor now adc s))"
    using assms l adc by (simp add: run_photosensor_def Let_def split: option.split)
  show "\<not> fst (run_photosensor now adc s)"
    by (simp add: run_photosensor_def Let_def split: option.split)
qed

lemma kb_inv_vms: "kb_inv fx s \<Longrightarrow> length vs = PROGRAM_COUNT \<Longrightarrow> kb_inv fx (s\<lparr>vms := vs\<rparr>)"
  by (simp add: kb_inv_def config_ok_def keys_ok_def slots_wf_def control_ok_def)

lemma vm_step_from_inv:
  "kb_inv fx s \<Longrightarrow> vm_step_from is s = Some t \<Longrightarrow> kb_inv fx t"
proof (induction "is" arbitrary: s)
  case (Cons i "is")
  show ?case
  proof (cases "vm_live (vm_state (vms s ! i))")
    case True
    then obtain vm u where u: "vm_step s (vms s ! i) = Some (vm, u)" "vm_step_from is (u\<lparr>vms := (vms u)[i := vm]\<rparr>) = Some t"
      using Cons.prems by (auto split: bind_splits)
    have "kb_inv fx u" using vm_step_frame [OF u(1)] Cons.prems by auto
    moreover from this have "length (vms u) = PROGRAM_COUNT" by (simp add: kb_inv_def control_ok_def)
    ultimately have "kb_inv fx (u\<lparr>vms := (vms u)[i := vm]\<rparr>)" by (simp add: kb_inv_vms)
    then show ?thesis using Cons.IH u(2) by blast
  next
    case False
    then show ?thesis using Cons by simp
  qed
qed simp

lemma Keyboard_pass_inv:
  assumes "kb_inv fx s" "Keyboard_pass matrix adc s = Some t"
  shows "kb_inv fx t"
proof -
  define u where "u = snd (run_photosensor (uptimems (scan_keys matrix s)) adc (scan_keys matrix s))"
  have "kb_inv fx u" unfolding u_def by (rule run_photosensor_inv(1) [OF scan_keys_inv [OF assms(1)]])
  then have n: "kb_inv fx (show_number u)" by (rule show_number_inv)
  have f: "run_photosensor (uptimems (scan_keys matrix s)) adc (scan_keys matrix s) = (False, u)"
    using run_photosensor_inv(2) [OF scan_keys_inv [OF assms(1)]] by (simp add: u_def prod_eq_iff)
  obtain v where v: "handle_state (show_number u) = Some v" "(if current_state v = STATE_NORMAL then vm_step_all v else Some v) = Some t"
    using assms(2) unfolding Keyboard_pass_def Let_def f by (auto split: bind_splits)
  have "kb_inv fx v" by (rule handle_state_inv [OF n v(1)])
  then show ?thesis using v(2) vm_step_from_inv by (auto simp: vm_step_all_def split: if_splits)
qed

subsection \<open>Callbacks\<close>

lemma kb_inv_report_slot:
  assumes "kb_inv fx s"
  shows "kb_inv fx (snd (vm_report_slot i (r, s)))" "kb_inv fx (snd (vm_mouse_slot i (mr, s)))"
proof -
  have "length (vms s) = PROGRAM_COUNT" using assms by (simp add: kb_inv_def control_ok_def)
  then show "kb_inv fx (snd (vm_report_slot i (r, s)))" "kb_inv fx (snd (vm_mouse_slot i (mr, s)))"
    using assms by (simp_all add: vm_report_slot_def vm_mouse_slot_def Let_def kb_inv_vms)
qed

lemma vm_append_inv:
  assumes "kb_inv fx s"
  shows "kb_inv fx (snd (vm_append_KeyboardReport r s))" "kb_inv fx (snd (vm_append_MouseReport mr s))"
proof -
  have "kb_inv fx (snd p) \<Longrightarrow> kb_inv fx (snd (fold vm_report_slot is p))" for "is" and p :: "KeyboardReport_Data \<times> 'a keyboard_state_scheme"
  proof (induction "is" arbitrary: p)
    case (Cons i "is")
    have "kb_inv fx (snd (vm_report_slot i p))" using kb_inv_report_slot(1) [OF Cons.prems, of i "fst p"] by simp
    then show ?case using Cons.IH by simp
  qed simp
  moreover have "kb_inv fx (snd p) \<Longrightarrow> kb_inv fx (snd (fold vm_mouse_slot is p))" for "is" and p :: "MouseReport_Data \<times> 'a keyboard_state_scheme"
  proof (induction "is" arbitrary: p)
    case (Cons i "is")
    have "kb_inv fx (snd (vm_mouse_slot i p))" using kb_inv_report_slot(2) [OF Cons.prems, of i "fst p"] by simp
    then show ?case using Cons.IH by simp
  qed simp
  ultimately show "kb_inv fx (snd (vm_append_KeyboardReport r s))" "kb_inv fx (snd (vm_append_MouseReport mr s))"
    using assms by (simp_all add: vm_append_KeyboardReport_def vm_append_MouseReport_def)
qed

lemma kb_inv_mouse_fields [simp]:
  "kb_inv fx (s\<lparr>prev_button := b\<rparr>) \<longleftrightarrow> kb_inv fx s" "kb_inv fx (s\<lparr>cnt_wheel := b\<rparr>) \<longleftrightarrow> kb_inv fx s"
  "kb_inv fx (s\<lparr>speed_x_move := b\<rparr>) \<longleftrightarrow> kb_inv fx s" "kb_inv fx (s\<lparr>speed_y_move := b\<rparr>) \<longleftrightarrow> kb_inv fx s"
  "kb_inv fx (s\<lparr>speed_x_wheel := b\<rparr>) \<longleftrightarrow> kb_inv fx s" "kb_inv fx (s\<lparr>speed_y_wheel := b\<rparr>) \<longleftrightarrow> kb_inv fx s"
  by (simp_all add: kb_inv_def config_ok_def keys_ok_def slots_wf_def control_ok_def)

lemma keystate_mouse_inv: "kb_inv fx s \<Longrightarrow> kb_inv fx (snd (keystate_Fill_MouseReport s r))"
  by (simp add: keystate_Fill_MouseReport_def Let_def case_prod_beta)

lemma Fill_MouseReport_inv:
  assumes "kb_inv fx s"
  shows "kb_inv fx (snd (Fill_MouseReport r s))"
proof -
  obtain r' t where t: "keystate_Fill_MouseReport s r = (r', t)" by fastforce
  then have "kb_inv fx t" using keystate_mouse_inv [OF assms, of r] by simp
  then show ?thesis using assms t by (simp add: Fill_MouseReport_def vm_append_inv split: kb_state.split)
qed

lemma Fill_KeyboardReport_inv:
  assumes "kb_inv fx s"
  shows "kb_inv fx (snd (Fill_KeyboardReport r s))"
proof -
  have "kb_inv fx (snd (case macros_fill_next_report r' s of (again, report, u) \<Rightarrow>
      (report, if again then u else go_to STATE_WAITING STATE_NORMAL u)))" if "\<not> recording_macro s" for r'
  proof -
    obtain again rep u where f: "macros_fill_next_report r' s = (again, rep, u)" by (metis prod_cases3)
    have "idle fx u" using assms that idle_macro(5) [of fx r' s] f by (simp add: idle_def)
    then have "kb_inv fx u" "kb_inv fx (go_to STATE_WAITING STATE_NORMAL u)" using idle_state(1) by (auto simp: idle_def)
    then show ?thesis by (simp add: f)
  qed
  moreover have "\<not> recording_macro s" if "current_state s \<noteq> STATE_MACRO_RECORD"
    using assms that by (auto simp: kb_inv_def control_ok_def)
  ultimately show ?thesis
    using assms unfolding Fill_KeyboardReport_def Let_def
    by (cases "current_state s") (simp_all add: vm_append_inv)
qed

lemma callbacks_inv:
  assumes "kb_inv fx s"
  shows "kb_inv fx (Process_KeyboardLEDReport r s)" "kb_inv fx (Update_USBState st s)" "kb_inv fx (Update_Millis n s)"
  using assms by (simp_all add: Process_KeyboardLEDReport_def Update_USBState_def Update_Millis_def Let_def)

end
