(* ===== verification/SpiEeprom.thy ===== *)
theory SpiEeprom
  imports Storage "HOL-Library.Monad_Syntax"
begin

text \<open>
  \<open>storage/spi_eeprom.c\<close>: the driver of the serial EEPROM that holds the macros and the saved layouts.
  The chip at the other end of the bus is a parameter: a \<open>spi_bus\<close> says how a chip reacts to the
  select line, to a byte exchanged and to time passing. Addresses and counts are 16 bits wide and wrap.
  Waiting for a chip that never becomes ready is \<open>None\<close>. \<open>USB_KeepAlive\<close>, which lets the USB driver
  work between pages, does not touch the bus and has no counterpart here. The two test routines at the
  end of the file are not linked into the firmware.

  The source counts the bytes read and written in an \<open>int16_t\<close>. For a block of \<open>0x8000\<close> bytes or more the
  counter overflows, which C leaves undefined for the increment in \<open>spi_eeprom_read\<close>, and the number that
  \<open>spi_eeprom_write\<close> returns is negative; the model counts on in 16 bits and returns the bits of that number.
  No object in the storage is that long: the longest is the array of \<open>MACROS_SIZE\<close> bytes.
\<close>

subsection \<open>The bus\<close>

record 'c spi_bus =
  bus_select :: "'c \<Rightarrow> 'c"
  bus_deselect :: "'c \<Rightarrow> 'c"
  bus_exchange :: "u8 \<Rightarrow> 'c \<Rightarrow> u8 \<times> 'c"
  bus_delay :: "'c \<Rightarrow> 'c"

record 'c spi_state =
  chip :: 'c
  storage_errno :: u8

definition SPI_EEPROM_OK :: u8 where "SPI_EEPROM_OK = 0"
definition SPI_MEM_PAGE_SIZE :: nat where "SPI_MEM_PAGE_SIZE = 64"
definition SPI_STATUS_WRITE_IN_PROGRESS_MASK :: u8 where "SPI_STATUS_WRITE_IN_PROGRESS_MASK = 1"
definition SPI_STATUS_WRITE_DISABLED_MASK :: u8 where "SPI_STATUS_WRITE_DISABLED_MASK = 0x0C"

datatype SPI_COMMAND = WRSR | WRITE | READ | WRDI | RDSR | WREN

fun command_code :: "SPI_COMMAND \<Rightarrow> u8" where
  "command_code WRSR = 1"
| "command_code WRITE = 2"
| "command_code READ = 3"
| "command_code WRDI = 4"
| "command_code RDSR = 5"
| "command_code WREN = 6"

definition spi_slave_on :: "'c spi_bus \<Rightarrow> 'c spi_state \<Rightarrow> 'c spi_state" where
  "spi_slave_on bus s = s\<lparr>chip := bus_select bus (chip s)\<rparr>"

definition spi_slave_off :: "'c spi_bus \<Rightarrow> 'c spi_state \<Rightarrow> 'c spi_state" where
  "spi_slave_off bus s = s\<lparr>chip := bus_deselect bus (chip s)\<rparr>"

definition spi_transfer :: "'c spi_bus \<Rightarrow> u8 \<Rightarrow> 'c spi_state \<Rightarrow> u8 \<times> 'c spi_state" where
  "spi_transfer bus b s = (let (r, c) = bus_exchange bus b (chip s) in (r, s\<lparr>chip := c\<rparr>))"

text \<open>The calls that ignore the byte received.\<close>

definition spi_send :: "'c spi_bus \<Rightarrow> u8 \<Rightarrow> 'c spi_state \<Rightarrow> 'c spi_state" where
  "spi_send bus b s = snd (spi_transfer bus b s)"

definition spi_enable_write :: "'c spi_bus \<Rightarrow> 'c spi_state \<Rightarrow> 'c spi_state" where
  "spi_enable_write bus s = spi_slave_off bus (spi_send bus (command_code WREN) (spi_slave_on bus s))"

subsection \<open>Status\<close>

definition spi_eeprom_read_status :: "'c spi_bus \<Rightarrow> 'c spi_state \<Rightarrow> u8 \<times> 'c spi_state" where
  "spi_eeprom_read_status bus s =
     (let s = spi_slave_on bus s; s = spi_send bus (command_code RDSR) s; (rv, s) = spi_transfer bus 0xFF s
      in (rv, spi_slave_off bus s))"

definition spi_eeprom_write_status :: "'c spi_bus \<Rightarrow> u8 \<Rightarrow> 'c spi_state \<Rightarrow> 'c spi_state" where
  "spi_eeprom_write_status bus new_status s =
     spi_slave_off bus (spi_send bus new_status (spi_send bus (command_code WRSR) (spi_slave_on bus s)))"

definition spi_eeprom_enable_write_everywhere :: "'c spi_bus \<Rightarrow> 'c spi_state \<Rightarrow> 'c spi_state" where
  "spi_eeprom_enable_write_everywhere bus s =
     (let (rv, s) = spi_eeprom_read_status bus s
      in if rv AND SPI_STATUS_WRITE_DISABLED_MASK \<noteq> 0 then spi_eeprom_write_status bus 0 s else s)"

partial_function (option) spi_eeprom_wait_for_last_write_end :: "'c spi_bus \<Rightarrow> 'c spi_state \<Rightarrow> 'c spi_state option" where
  "spi_eeprom_wait_for_last_write_end bus s =
     (let (rv, s) = spi_eeprom_read_status bus s
      in if rv AND SPI_STATUS_WRITE_IN_PROGRESS_MASK = 0 then Some s
         else spi_eeprom_wait_for_last_write_end bus (s\<lparr>chip := bus_delay bus (chip s)\<rparr>))"

subsection \<open>Reading and writing within a page\<close>

text \<open>The loops that send a buffer and that receive one.\<close>

definition spi_eeprom_continue_write :: "'c spi_bus \<Rightarrow> u8 list \<Rightarrow> u8 \<Rightarrow> 'c spi_state \<Rightarrow> u8 \<times> 'c spi_state" where
  "spi_eeprom_continue_write bus buf len s = (len, fold (spi_send bus) (take (unat len) buf) s)"

fun spi_receive :: "'c spi_bus \<Rightarrow> nat \<Rightarrow> 'c spi_state \<Rightarrow> u8 list \<times> 'c spi_state" where
  "spi_receive bus 0 s = ([], s)"
| "spi_receive bus (Suc n) s =
     (let (b, s) = spi_transfer bus 0xFF s; (bs, s) = spi_receive bus n s in (b # bs, s))"

definition spi_send_address :: "'c spi_bus \<Rightarrow> u16 \<Rightarrow> 'c spi_state \<Rightarrow> 'c spi_state" where
  "spi_send_address bus addr s = spi_send bus (ucast (addr AND 0xFF)) (spi_send bus (ucast (drop_bit 8 addr)) s)"

definition spi_eeprom_start_write :: "'c spi_bus \<Rightarrow> u16 \<Rightarrow> 'c spi_state \<Rightarrow> u8 \<times> 'c spi_state" where
  "spi_eeprom_start_write bus addr s =
     (SPI_EEPROM_OK, spi_send_address bus addr (spi_send bus (command_code WRITE) (spi_slave_on bus (spi_enable_write bus s))))"

definition spi_eeprom_checked_start_write :: "'c spi_bus \<Rightarrow> u16 \<Rightarrow> 'c spi_state \<Rightarrow> 'c spi_state option" where
  "spi_eeprom_checked_start_write bus addr s = do {
     s \<leftarrow> spi_eeprom_wait_for_last_write_end bus s;
     Some (snd (spi_eeprom_start_write bus addr s)) }"

definition spi_eeprom_write_step :: "'c spi_bus \<Rightarrow> u16 \<Rightarrow> u8 list \<Rightarrow> u8 \<Rightarrow> bool \<Rightarrow> 'c spi_state \<Rightarrow> (u8 \<times> 'c spi_state) option" where
  "spi_eeprom_write_step bus addr data len last_step s = do {
     (result, s) \<leftarrow> (if addr AND 63 = 0 then do {
         s \<leftarrow> spi_eeprom_wait_for_last_write_end bus s;
         Some (spi_eeprom_start_write bus addr s) } else Some (SPI_EEPROM_OK, s));
     if result \<noteq> SPI_EEPROM_OK then Some (result, s)
     else let (w, s) = spi_eeprom_continue_write bus data len s in
       if uint len \<noteq> sint w then Some (storage_errno s, s)
       else Some (SPI_EEPROM_OK, if last_step \<or> (addr + ucast len) AND 63 = 0 then spi_slave_off bus s else s) }"

definition spi_eeprom_read :: "'c spi_bus \<Rightarrow> u16 \<Rightarrow> u16 \<Rightarrow> 'c spi_state \<Rightarrow> u16 \<times> u8 list \<times> 'c spi_state" where
  "spi_eeprom_read bus addr len s =
     (let s = spi_send_address bus addr (spi_send bus (command_code READ) (spi_slave_on bus s));
          (buf, s) = spi_receive bus (unat len) s
      in (len, buf, spi_slave_off bus s))"

definition spi_eeprom_read_byte :: "'c spi_bus \<Rightarrow> u16 \<Rightarrow> 'c spi_state \<Rightarrow> u8 \<times> 'c spi_state" where
  "spi_eeprom_read_byte bus addr s = (let (_, buf, s) = spi_eeprom_read bus addr 1 s in (buf ! 0, s))"

definition spi_eeprom_read_short :: "'c spi_bus \<Rightarrow> u16 \<Rightarrow> 'c spi_state \<Rightarrow> u16 \<times> 'c spi_state" where
  "spi_eeprom_read_short bus addr s = (let (_, buf, s) = spi_eeprom_read bus addr 2 s in (short_of_bytes buf, s))"

definition spi_eeprom_write_page :: "'c spi_bus \<Rightarrow> u16 \<Rightarrow> u8 list \<Rightarrow> u8 \<Rightarrow> 'c spi_state \<Rightarrow> u8 \<times> 'c spi_state" where
  "spi_eeprom_write_page bus addr buf len s =
     (let (result, s) = spi_eeprom_start_write bus addr s;
          (result, s) = (if result \<noteq> SPI_EEPROM_OK then (0, s\<lparr>storage_errno := result\<rparr>)
                         else spi_eeprom_continue_write bus buf len s)
      in (result, spi_slave_off bus s))"

subsection \<open>Blocks\<close>

definition dst_page_off :: "u16 \<Rightarrow> u8" where
  "dst_page_off dst = ucast (dst AND 63)"

lemma unat_and_63: "unat (dst AND 63 :: u16) = unat dst mod 64"
  using unat_and_mask [of dst 6] by (simp add: mask_eq_decr_exp)

lemma spi_page_off: "unat (dst_page_off dst) = unat dst mod 64"
  unfolding dst_page_off_def unat_ucast_16_8 unat_and_63 by simp

lemma spi_page_rest: "unat (64 - dst_page_off dst) = 64 - unat dst mod 64"
  using spi_page_off [of dst] by (subst unat_sub) (auto simp: word_le_nat_alt)

lemma page_rest_less: "cnt \<noteq> 0 \<Longrightarrow> unat (cnt - ucast (page_chunk (64 - dst_page_off dst) cnt)) < unat cnt"
  unfolding page_chunk_rest spi_page_rest by (auto simp: word_facts)

function spi_write_loop :: "'c spi_bus \<Rightarrow> u16 \<Rightarrow> u8 list \<Rightarrow> u16 \<Rightarrow> u16 \<Rightarrow> 'c spi_state \<Rightarrow> (u16 \<times> 'c spi_state) option" where
  "spi_write_loop bus dst buf cnt written s =
     (if cnt = 0 then Some (written, s)
      else let n = page_chunk (64 - dst_page_off dst) cnt in do {
        s \<leftarrow> spi_eeprom_wait_for_last_write_end bus s;
        let (w, s) = spi_eeprom_write_page bus dst buf n s;
        let written = written + scast w;
        if sint w \<noteq> uint n then Some (if written = 0 then written else -1, s)
        else spi_write_loop bus (dst + ucast n) (drop (unat n) buf) (cnt - ucast n) written s })"
  by pat_completeness auto
termination
  by (relation "measure (\<lambda>(bus, dst, buf, cnt, written, s). unat cnt)") (auto intro: page_rest_less)

definition spi_eeprom_write :: "'c spi_bus \<Rightarrow> u16 \<Rightarrow> u8 list \<Rightarrow> u16 \<Rightarrow> 'c spi_state \<Rightarrow> (u16 \<times> 'c spi_state) option" where
  "spi_eeprom_write bus dst buf cnt s = spi_write_loop bus dst buf cnt 0 s"

function spi_eeprom_memset :: "'c spi_bus \<Rightarrow> u16 \<Rightarrow> u8 \<Rightarrow> u16 \<Rightarrow> 'c spi_state \<Rightarrow> (u8 \<times> 'c spi_state) option" where
  "spi_eeprom_memset bus dst c len s =
     (if len = 0 then Some (SPI_EEPROM_OK, s)
      else let n = page_chunk (64 - dst_page_off dst) len in do {
        s \<leftarrow> spi_eeprom_wait_for_last_write_end bus s;
        let (_, s) = spi_eeprom_write_page bus dst (replicate SPI_MEM_PAGE_SIZE c) n s;
        spi_eeprom_memset bus (dst + ucast n) c (len - ucast n) s })"
  by pat_completeness auto
termination
  by (relation "measure (\<lambda>(bus, dst, c, len, s). unat len)") (auto intro: page_rest_less)

definition spi_eeprom_write_byte :: "'c spi_bus \<Rightarrow> u16 \<Rightarrow> u8 \<Rightarrow> 'c spi_state \<Rightarrow> (u8 \<times> 'c spi_state) option" where
  "spi_eeprom_write_byte bus dst b s = do {
     s \<leftarrow> spi_eeprom_wait_for_last_write_end bus s;
     Some (SPI_EEPROM_OK, snd (spi_eeprom_write_page bus dst [b] 1 s)) }"

definition spi_eeprom_write_short :: "'c spi_bus \<Rightarrow> u16 \<Rightarrow> u16 \<Rightarrow> 'c spi_state \<Rightarrow> (u8 \<times> 'c spi_state) option" where
  "spi_eeprom_write_short bus dst v s = do {
     s \<leftarrow> (if dst AND 63 = 63 then map_option snd (spi_eeprom_write bus dst (bytes_of_short v) 2 s)
          else do {
            s \<leftarrow> spi_eeprom_wait_for_last_write_end bus s;
            Some (snd (spi_eeprom_write_page bus dst (bytes_of_short v) 2 s)) });
     Some (SPI_EEPROM_OK, s) }"

text \<open>
  \<open>spi_eeprom_memmove\<close> in chunks that end at a page boundary of the destination. \<open>up\<close> is
  \<open>direction > 0\<close>; in the other direction the pointers are moved before the copy.
\<close>

definition memmove_chunk :: "bool \<Rightarrow> u16 \<Rightarrow> u16 \<Rightarrow> u8" where
  "memmove_chunk up dst cnt = page_chunk (if up then 64 - dst_page_off dst else dst_page_off dst + 1) cnt"

lemma spi_page_before: "unat (dst_page_off dst + 1) = unat dst mod 64 + 1"
proof -
  have "unat dst mod 64 < 64" by simp
  then show ?thesis unfolding unat_word_ariths(1) spi_page_off by simp
qed

lemma memmove_chunk_less: "cnt \<noteq> 0 \<Longrightarrow> unat (cnt - ucast (memmove_chunk up dst cnt)) < unat cnt"
  by (simp add: memmove_chunk_def page_rest_less) (simp add: page_chunk_rest spi_page_before word_facts)

function spi_move_loop :: "'c spi_bus \<Rightarrow> bool \<Rightarrow> u16 \<Rightarrow> u16 \<Rightarrow> u16 \<Rightarrow> 'c spi_state \<Rightarrow> (u8 \<times> 'c spi_state) option" where
  "spi_move_loop bus up dst src cnt s =
     (if cnt = 0 then Some (SPI_EEPROM_OK, s)
      else let n = memmove_chunk up dst cnt;
               src = (if up then src else src - ucast n);
               dst = (if up then dst else dst - ucast n) in do {
        s \<leftarrow> spi_eeprom_wait_for_last_write_end bus s;
        let (r, buf, s) = spi_eeprom_read bus src (ucast n) s;
        if r \<noteq> ucast n then Some (storage_errno s, s)
        else do {
          let (w, s) = spi_eeprom_write_page bus dst buf n s;
          if sint w \<noteq> uint n then Some (storage_errno s, s)
          else spi_move_loop bus up (if up then dst + ucast n else dst) (if up then src + ucast n else src) (cnt - ucast n) s } })"
  by pat_completeness auto
termination
  by (relation "measure (\<lambda>(bus, up, dst, src, cnt, s). unat cnt)") (auto intro: memmove_chunk_less)

definition spi_eeprom_memmove :: "'c spi_bus \<Rightarrow> u16 \<Rightarrow> u16 \<Rightarrow> u16 \<Rightarrow> 'c spi_state \<Rightarrow> (u8 \<times> 'c spi_state) option" where
  "spi_eeprom_memmove bus dst src cnt s = spi_move_loop bus (\<not> src < dst) dst src cnt s"

declare command_code.simps [simp del] spi_write_loop.simps [simp del] spi_eeprom_memset.simps [simp del] spi_move_loop.simps [simp del]

end
