(* ===== verification/UsbStream.thy ===== *)
theory UsbStream
  imports SpiEeprom
begin

text \<open>
  Control transfers between the host and the storage: the loops of
  \<open>LUFA/Drivers/USB/Core/XMEGA/Template\<close> as \<open>lufa/storage_stream.h\<close> and
  \<open>lufa/spi_eeprom_endpoint_stream.c\<close> instantiate them. What a loop sees of the endpoint and of the bus
  in one round is a \<open>poll\<close>; a transfer runs over a list of them and is \<open>None\<close> when the list ends before
  the transfer does. The transfer of one byte is a parameter, as in the templates.
\<close>

subsection \<open>What the loops see\<close>

datatype device_state = DEVICE_STATE_Unattached | DEVICE_STATE_Powered | DEVICE_STATE_Default
  | DEVICE_STATE_Addressed | DEVICE_STATE_Configured | DEVICE_STATE_Suspended

datatype stream_error = ENDPOINT_RWCSTREAM_NoError | ENDPOINT_RWCSTREAM_HostAborted
  | ENDPOINT_RWCSTREAM_DeviceDisconnected | ENDPOINT_RWCSTREAM_BusSuspended

text \<open>
  \<open>out_packet\<close> holds the bytes of a received packet, \<open>in_bytes\<close> the number of bytes already waiting in
  the endpoint to be sent.
\<close>

record poll =
  USB_DeviceState :: device_state
  IsSETUPReceived :: bool
  IsOUTReceived :: bool
  IsINReady :: bool
  out_packet :: "u8 list"
  in_bytes :: nat

definition USB_Device_ControlEndpointSize :: nat where
  "USB_Device_ControlEndpointSize = 8"

text \<open>The tests both loops of a transfer start with.\<close>

definition bus_failure :: "poll \<Rightarrow> stream_error option" where
  "bus_failure p =
     (if USB_DeviceState p = DEVICE_STATE_Unattached then Some ENDPOINT_RWCSTREAM_DeviceDisconnected
      else if USB_DeviceState p = DEVICE_STATE_Suspended then Some ENDPOINT_RWCSTREAM_BusSuspended
      else None)"

definition stream_failure :: "poll \<Rightarrow> stream_error option" where
  "stream_failure p = (case bus_failure p of Some e \<Rightarrow> Some e
     | None \<Rightarrow> if IsSETUPReceived p then Some ENDPOINT_RWCSTREAM_HostAborted else None)"

subsection \<open>To the host\<close>

text \<open>The inner loop: bytes until the packet is full or the data ends.\<close>

fun fill_packet :: "(u16 \<Rightarrow> 's \<Rightarrow> u8 \<times> 's) \<Rightarrow> u16 \<Rightarrow> nat \<Rightarrow> nat \<Rightarrow> 's \<Rightarrow> u8 list \<times> u16 \<times> nat \<times> 's" where
  "fill_packet rd addr 0 room s = ([], addr, 0, s)"
| "fill_packet rd addr len 0 s = ([], addr, len, s)"
| "fill_packet rd addr (Suc len) (Suc room) s =
     (let (b, s) = rd addr s; (bs, rest) = fill_packet rd (addr + 1) len room s in (b # bs, rest))"

fun wait_for_OUT :: "poll list \<Rightarrow> stream_error option" where
  "wait_for_OUT [] = None"
| "wait_for_OUT (p # ps) =
     (if IsOUTReceived p then Some ENDPOINT_RWCSTREAM_NoError
      else case stream_failure p of Some e \<Rightarrow> Some e | None \<Rightarrow> wait_for_OUT ps)"

text \<open>The packets sent to the host, and the result.\<close>

fun control_write :: "(u16 \<Rightarrow> 's \<Rightarrow> u8 \<times> 's) \<Rightarrow> u16 \<Rightarrow> nat \<Rightarrow> bool \<Rightarrow> poll list \<Rightarrow> 's
    \<Rightarrow> (stream_error \<times> u8 list list \<times> 's) option" where
  "control_write rd addr len LastPacketFull [] s = None"
| "control_write rd addr len LastPacketFull (p # ps) s =
     (if len = 0 \<and> \<not> LastPacketFull then map_option (\<lambda>e. (e, [], s)) (wait_for_OUT (p # ps))
      else case stream_failure p of Some e \<Rightarrow> Some (e, [], s)
      | None \<Rightarrow>
          if IsOUTReceived p then map_option (\<lambda>e. (e, [], s)) (wait_for_OUT ps)
          else if IsINReady p then
            let (bs, addr, len, s) = fill_packet rd addr len (USB_Device_ControlEndpointSize - in_bytes p) s
            in map_option (\<lambda>(e, packets, s). (e, bs # packets, s))
                 (control_write rd addr len (in_bytes p + length bs = USB_Device_ControlEndpointSize) ps s)
          else control_write rd addr len LastPacketFull ps s)"

definition Endpoint_Write_Control_Stream :: "(u16 \<Rightarrow> 's \<Rightarrow> u8 \<times> 's) \<Rightarrow> u16 \<Rightarrow> u16 \<Rightarrow> u16 \<Rightarrow> poll list \<Rightarrow> 's
    \<Rightarrow> (stream_error \<times> u8 list list \<times> 's) option" where
  "Endpoint_Write_Control_Stream rd addr len wLength ps s =
     (let clear_in = (len \<le> wLength \<and> len = 0); len = min len wLength
      in map_option (\<lambda>(e, packets, s). (e, if clear_in then [] # packets else packets, s))
           (control_write rd addr (unat len) False ps s))"

subsection \<open>From the host\<close>

text \<open>
  The bytes of one packet; \<open>wr\<close> is told the length left, as the transfer macro of the SPI storage looks
  at it.
\<close>

fun drain_packet :: "(u16 \<Rightarrow> u8 \<Rightarrow> nat \<Rightarrow> 's \<Rightarrow> 's option) \<Rightarrow> u16 \<Rightarrow> nat \<Rightarrow> u8 list \<Rightarrow> 's \<Rightarrow> (u16 \<times> nat \<times> 's) option" where
  "drain_packet wr addr 0 bs s = Some (addr, 0, s)"
| "drain_packet wr addr len [] s = Some (addr, len, s)"
| "drain_packet wr addr (Suc len) (b # bs) s = do { s \<leftarrow> wr addr b (Suc len) s; drain_packet wr (addr + 1) len bs s }"

fun wait_for_IN :: "poll list \<Rightarrow> stream_error option" where
  "wait_for_IN [] = None"
| "wait_for_IN (p # ps) =
     (if IsINReady p then Some ENDPOINT_RWCSTREAM_NoError
      else case bus_failure p of Some e \<Rightarrow> Some e | None \<Rightarrow> wait_for_IN ps)"

fun control_read :: "(u16 \<Rightarrow> u8 \<Rightarrow> nat \<Rightarrow> 's \<Rightarrow> 's option) \<Rightarrow> u16 \<Rightarrow> nat \<Rightarrow> poll list \<Rightarrow> 's \<Rightarrow> (stream_error \<times> 's) option" where
  "control_read wr addr len [] s = None"
| "control_read wr addr len (p # ps) s =
     (if len = 0 then map_option (\<lambda>e. (e, s)) (wait_for_IN (p # ps))
      else case stream_failure p of Some e \<Rightarrow> Some (e, s)
      | None \<Rightarrow>
          if IsOUTReceived p then do {
            (addr, len, s) \<leftarrow> drain_packet wr addr len (out_packet p) s;
            control_read wr addr len ps s }
          else control_read wr addr len ps s)"

text \<open>The bytes the host sends in a trace while the loop accepts them.\<close>

fun host_bytes :: "nat \<Rightarrow> poll list \<Rightarrow> u8 list" where
  "host_bytes len [] = []"
| "host_bytes len (p # ps) =
     (if len = 0 \<or> stream_failure p \<noteq> None then []
      else if IsOUTReceived p then take len (out_packet p) @ host_bytes (len - length (out_packet p)) ps
      else host_bytes len ps)"

subsection \<open>Instances\<close>

text \<open>\<open>spi_eeprom_endpoint_stream.c\<close>: reading byte by byte, writing step by step.\<close>

definition spi_eeprom_start_write_if_unaligned :: "'c spi_bus \<Rightarrow> u16 \<Rightarrow> 'c spi_state \<Rightarrow> 'c spi_state option" where
  "spi_eeprom_start_write_if_unaligned bus addr s =
     (if addr AND 63 \<noteq> 0 then spi_eeprom_checked_start_write bus addr s else Some s)"

definition spi_transfer_in :: "'c spi_bus \<Rightarrow> u16 \<Rightarrow> u8 \<Rightarrow> nat \<Rightarrow> 'c spi_state \<Rightarrow> 'c spi_state option" where
  "spi_transfer_in bus addr b len s = map_option snd (spi_eeprom_write_step bus addr [b] 1 (len = 1) s)"

definition Endpoint_Read_Control_SpiMemStream_LE :: "'c spi_bus \<Rightarrow> u16 \<Rightarrow> u16 \<Rightarrow> poll list \<Rightarrow> 'c spi_state
    \<Rightarrow> (stream_error \<times> 'c spi_state) option" where
  "Endpoint_Read_Control_SpiMemStream_LE bus addr len ps s = do {
     s \<leftarrow> spi_eeprom_start_write_if_unaligned bus addr s;
     control_read (spi_transfer_in bus) addr (unat len) ps s }"

definition Endpoint_Write_Control_SpiMemStream_LE :: "'c spi_bus \<Rightarrow> u16 \<Rightarrow> u16 \<Rightarrow> u16 \<Rightarrow> poll list \<Rightarrow> 'c spi_state
    \<Rightarrow> (stream_error \<times> u8 list list \<times> 'c spi_state) option" where
  "Endpoint_Write_Control_SpiMemStream_LE bus addr len wLength ps s =
     Endpoint_Write_Control_Stream (spi_eeprom_read_byte bus) addr len wLength ps s"

text \<open>\<open>Endpoint_Read_Control_EStream_LE\<close> and \<open>Endpoint_Write_Control_EStream_LE\<close>: the internal EEPROM.\<close>

definition eeprom_transfer_in :: "u16 \<Rightarrow> u8 \<Rightarrow> nat \<Rightarrow> memory \<Rightarrow> memory option" where
  "eeprom_transfer_in addr b len m = Some (m(unat addr := b))"

definition eeprom_transfer_out :: "u16 \<Rightarrow> memory \<Rightarrow> u8 \<times> memory" where
  "eeprom_transfer_out addr m = (m (unat addr), m)"

definition Endpoint_Read_Control_EStream_LE :: "u16 \<Rightarrow> u16 \<Rightarrow> poll list \<Rightarrow> memory \<Rightarrow> (stream_error \<times> memory) option" where
  "Endpoint_Read_Control_EStream_LE addr len ps m = control_read eeprom_transfer_in addr (unat len) ps m"

definition Endpoint_Write_Control_EStream_LE :: "u16 \<Rightarrow> u16 \<Rightarrow> u16 \<Rightarrow> poll list \<Rightarrow> memory
    \<Rightarrow> (stream_error \<times> u8 list list \<times> memory) option" where
  "Endpoint_Write_Control_EStream_LE addr len wLength ps m = Endpoint_Write_Control_Stream eeprom_transfer_out addr len wLength ps m"

end
