(* ===== verification/UsbDevice.thy ===== *)
theory UsbDevice
  imports Keyboard UsbStream
begin

text \<open>
  \<open>lufa/lufa_main.c\<close>: the events of the USB library, the callbacks for reports, and the vendor requests
  through which the host reads and writes the configuration (\<open>usb_vendor_interface.h\<close>). As on the K84CS
  (\<open>hardware/k84cs.h\<close>) the mapping, the programs and the macro index are in the internal EEPROM, and the
  macro storage is in the serial EEPROM. An area of the internal EEPROM is the memory behind the pointer the
  source passes to the stream routines; the macro storage is the \<open>MACROS_SIZE\<close> bytes of the serial EEPROM
  from the address \<open>macros\<close> that the linker gives it, and its transfers run over the bus of that chip, so a
  request works on the state of the keyboard and on the state of the SPI driver. A transfer longer than its
  area touches whatever is stored next to it, as the source says in a comment: it is \<open>None\<close>, as is a
  transfer that does not end in the observed trace. The class requests of the HID driver belong to the
  library.
\<close>

subsection \<open>Requests\<close>

datatype vendor_request = READ_LAYOUT_ID | READ_MAPPING_SIZE | WRITE_MAPPING | READ_MAPPING | READ_DEFAULT_MAPPING
  | READ_NUM_PROGRAMS | READ_PROGRAMS_SIZE | WRITE_PROGRAMS | READ_PROGRAMS | RESET_DEFAULTS | RESET_FULLY
  | READ_CONFIG_FLAGS | WRITE_CONFIG_FLAGS | READ_MACRO_INDEX_SIZE | WRITE_MACRO_INDEX | READ_MACRO_INDEX
  | READ_MACRO_STORAGE_SIZE | WRITE_MACRO_STORAGE | READ_MACRO_STORAGE | READ_MACRO_MAX_KEYS

definition vendor_requests :: "vendor_request list" where
  "vendor_requests = [READ_LAYOUT_ID, READ_MAPPING_SIZE, WRITE_MAPPING, READ_MAPPING, READ_DEFAULT_MAPPING,
     READ_NUM_PROGRAMS, READ_PROGRAMS_SIZE, WRITE_PROGRAMS, READ_PROGRAMS, RESET_DEFAULTS, RESET_FULLY,
     READ_CONFIG_FLAGS, WRITE_CONFIG_FLAGS, READ_MACRO_INDEX_SIZE, WRITE_MACRO_INDEX, READ_MACRO_INDEX,
     READ_MACRO_STORAGE_SIZE, WRITE_MACRO_STORAGE, READ_MACRO_STORAGE, READ_MACRO_MAX_KEYS]"

record USB_Request_Header =
  bmRequestType :: u8
  bRequest :: u8
  wValue :: u16
  wLength :: u16

text \<open>The direction of a vendor request to the device, and its code.\<close>

definition REQ_VENDOR_IN :: u8 where "REQ_VENDOR_IN = 0xC0"
definition REQ_VENDOR_OUT :: u8 where "REQ_VENDOR_OUT = 0x40"

definition requested :: "USB_Request_Header \<Rightarrow> vendor_request option" where
  "requested req = (if unat (bRequest req) < length vendor_requests then Some (vendor_requests ! unat (bRequest req)) else None)"

subsection \<open>The storage areas\<close>

datatype eeprom_area = MappingArea | ProgramsArea | MacroIndexArea

definition MACRO_INDEX_SIZE :: nat where "MACRO_INDEX_SIZE = MACRO_INDEX_COUNT * (MACRO_MAX_KEYS + 2)"
definition LAYOUT_ID :: u8 where "LAYOUT_ID = 4"

fun area_size :: "eeprom_area \<Rightarrow> nat" where
  "area_size MappingArea = NUM_LOGICAL_KEYS"
| "area_size ProgramsArea = PROGRAM_SIZE"
| "area_size MacroIndexArea = MACRO_INDEX_SIZE"

definition entry_bytes :: "macro_idx_entry \<Rightarrow> u8 list" where
  "entry_bytes e = idx_keys e @ bytes_of_short (idx_val e)"

definition entry_at :: "memory \<Rightarrow> nat \<Rightarrow> macro_idx_entry" where
  "entry_at m j = \<lparr>idx_keys = mem_read m (j * (MACRO_MAX_KEYS + 2)) MACRO_MAX_KEYS,
     idx_val = mem_read_short m (j * (MACRO_MAX_KEYS + 2) + MACRO_MAX_KEYS)\<rparr>"

fun area_bytes :: "eeprom_area \<Rightarrow> 'a config_state_scheme \<Rightarrow> memory" where
  "area_bytes MappingArea s = (\<lambda>i. logical_to_hid_map s (of_nat i))"
| "area_bytes ProgramsArea s = programs s"
| "area_bytes MacroIndexArea s = (\<lambda>i. concat (map entry_bytes (macro_index s)) ! i)"

fun area_store :: "eeprom_area \<Rightarrow> memory \<Rightarrow> 'a config_state_scheme \<Rightarrow> 'a config_state_scheme" where
  "area_store MappingArea m s = s\<lparr>logical_to_hid_map := (\<lambda>k. if unat k < NUM_LOGICAL_KEYS then m (unat k) else logical_to_hid_map s k)\<rparr>"
| "area_store ProgramsArea m s = s\<lparr>programs := m\<rparr>"
| "area_store MacroIndexArea m s = s\<lparr>macro_index := map (entry_at m) [0..<MACRO_INDEX_COUNT]\<rparr>"

subsection \<open>Vendor requests\<close>

text \<open>What the host gets: packets, an acknowledgement after its data, an acknowledgement, or a stall.\<close>

datatype usb_answer = Sent stream_error "u8 list list" | Received stream_error | Acknowledged | Stalled | NotForVendor

definition send_area :: "nat \<Rightarrow> memory \<Rightarrow> u16 \<Rightarrow> poll list \<Rightarrow> 's \<Rightarrow> (usb_answer \<times> 's) option" where
  "send_area bytes m len ps s =
     (if unat len \<le> bytes
      then map_option (\<lambda>(e, packets, _). (Sent e packets, s)) (Endpoint_Write_Control_EStream_LE 0 len len ps m)
      else None)"

definition receive_area :: "eeprom_area \<Rightarrow> u16 \<Rightarrow> poll list \<Rightarrow> 'a config_state_scheme \<times> 'd
    \<Rightarrow> (usb_answer \<times> 'a config_state_scheme \<times> 'd) option" where
  "receive_area area len ps = (\<lambda>(s, d).
     if unat len \<le> area_size area
     then map_option (\<lambda>(e, m). (Received e, area_store area m s, d)) (Endpoint_Read_Control_EStream_LE 0 len ps (area_bytes area s))
     else None)"

text \<open>The macro storage: \<open>macros\<close> is its address in the serial EEPROM.\<close>

definition send_macros :: "'c spi_bus \<Rightarrow> u16 \<Rightarrow> u16 \<Rightarrow> poll list \<Rightarrow> 's \<times> 'c spi_state \<Rightarrow> (usb_answer \<times> 's \<times> 'c spi_state) option" where
  "send_macros bus macros len ps = (\<lambda>(s, d).
     if unat len \<le> MACROS_SIZE
     then map_option (\<lambda>(e, packets, d). (Sent e packets, s, d)) (Endpoint_Write_Control_SpiMemStream_LE bus macros len len ps d)
     else None)"

definition receive_macros :: "'c spi_bus \<Rightarrow> u16 \<Rightarrow> u16 \<Rightarrow> poll list \<Rightarrow> 's \<times> 'c spi_state \<Rightarrow> (usb_answer \<times> 's \<times> 'c spi_state) option" where
  "receive_macros bus macros len ps = (\<lambda>(s, d).
     if unat len \<le> MACROS_SIZE
     then map_option (\<lambda>(e, d). (Received e, s, d)) (Endpoint_Read_Control_SpiMemStream_LE bus macros len ps d)
     else None)"

definition send_value :: "u8 list \<Rightarrow> 's \<Rightarrow> (usb_answer \<times> 's) option" where
  "send_value bs s = Some (Sent ENDPOINT_RWCSTREAM_NoError [bs], s)"

definition vendor_read :: "'c spi_bus \<Rightarrow> u16 \<Rightarrow> USB_Request_Header \<Rightarrow> poll list \<Rightarrow> 'a config_state_scheme \<times> 'c spi_state
    \<Rightarrow> (usb_answer \<times> 'a config_state_scheme \<times> 'c spi_state) option" where
  "vendor_read bus macros req ps sd = (let len = wLength req; s = fst sd in case requested req of
     Some READ_NUM_PROGRAMS \<Rightarrow> send_value [of_nat PROGRAM_COUNT] sd
   | Some READ_LAYOUT_ID \<Rightarrow> send_value [LAYOUT_ID] sd
   | Some READ_MAPPING_SIZE \<Rightarrow> send_value [of_nat NUM_LOGICAL_KEYS] sd
   | Some READ_CONFIG_FLAGS \<Rightarrow> send_value [byte_of_flags (config_get_flags s)] sd
   | Some READ_MACRO_MAX_KEYS \<Rightarrow> send_value [of_nat MACRO_MAX_KEYS] sd
   | Some READ_PROGRAMS_SIZE \<Rightarrow> send_value (bytes_of_short (of_nat PROGRAM_SIZE)) sd
   | Some READ_MACRO_INDEX_SIZE \<Rightarrow> send_value (bytes_of_short (of_nat MACRO_INDEX_SIZE)) sd
   | Some READ_MACRO_STORAGE_SIZE \<Rightarrow> send_value (bytes_of_short (of_nat MACROS_SIZE)) sd
   | Some READ_PROGRAMS \<Rightarrow> send_area (area_size ProgramsArea) (area_bytes ProgramsArea s) len ps sd
   | Some READ_MACRO_INDEX \<Rightarrow> send_area (area_size MacroIndexArea) (area_bytes MacroIndexArea s) len ps sd
   | Some READ_MACRO_STORAGE \<Rightarrow> send_macros bus macros len ps sd
   | Some READ_DEFAULT_MAPPING \<Rightarrow> send_area NUM_LOGICAL_KEYS (\<lambda>i. logical_to_hid_map_default ! i) len ps sd
   | Some READ_MAPPING \<Rightarrow> send_area (area_size MappingArea) (area_bytes MappingArea s) len ps sd
   | _ \<Rightarrow> Some (Stalled, sd))"

definition vendor_write :: "'c spi_bus \<Rightarrow> u16 \<Rightarrow> USB_Request_Header \<Rightarrow> poll list \<Rightarrow> 'a config_state_scheme \<times> 'c spi_state
    \<Rightarrow> (usb_answer \<times> 'a config_state_scheme \<times> 'c spi_state) option" where
  "vendor_write bus macros req ps sd = (let len = wLength req; (s, d) = sd in case requested req of
     Some WRITE_PROGRAMS \<Rightarrow> receive_area ProgramsArea len ps sd
   | Some WRITE_MACRO_INDEX \<Rightarrow> receive_area MacroIndexArea len ps sd
   | Some WRITE_MACRO_STORAGE \<Rightarrow> receive_macros bus macros len ps sd
   | Some WRITE_MAPPING \<Rightarrow> receive_area MappingArea len ps sd
   | Some WRITE_CONFIG_FLAGS \<Rightarrow> Some (Acknowledged, config_save_flags (flags_of_byte (ucast (wValue req AND 0xFF))) s, d)
   | Some RESET_DEFAULTS \<Rightarrow> Some (Acknowledged, config_reset_defaults s, d)
   | Some RESET_FULLY \<Rightarrow> Some (Acknowledged, config_reset_fully s, d)
   | _ \<Rightarrow> Some (Stalled, sd))"

text \<open>
  The two resets store through the memory operations of \<open>Storage\<close>, which the serial EEPROM implements
  (\<open>SpiEepromCorrect\<close>); the state of the SPI driver is what the transfers of the macro storage see.
\<close>

definition EVENT_USB_Device_ControlRequest :: "'c spi_bus \<Rightarrow> u16 \<Rightarrow> USB_Request_Header \<Rightarrow> poll list
    \<Rightarrow> 'a config_state_scheme \<times> 'c spi_state \<Rightarrow> (usb_answer \<times> 'a config_state_scheme \<times> 'c spi_state) option" where
  "EVENT_USB_Device_ControlRequest bus macros req ps sd =
     (if bmRequestType req = REQ_VENDOR_IN then vendor_read bus macros req ps sd
      else if bmRequestType req = REQ_VENDOR_OUT then vendor_write bus macros req ps sd
      else Some (NotForVendor, sd))"

subsection \<open>Events and reports\<close>

definition EVENT_USB_Device_Connect :: "'a keyboard_state_scheme \<Rightarrow> 'a keyboard_state_scheme" where
  "EVENT_USB_Device_Connect s = Update_USBState ENUMERATING s"

definition EVENT_USB_Device_Disconnect :: "'a keyboard_state_scheme \<Rightarrow> 'a keyboard_state_scheme" where
  "EVENT_USB_Device_Disconnect s = Update_USBState NOTREADY s"

text \<open>The arguments are what the library answers when it sets up the two endpoints.\<close>

definition EVENT_USB_Device_ConfigurationChanged :: "bool \<Rightarrow> bool \<Rightarrow> 'a keyboard_state_scheme \<Rightarrow> 'a keyboard_state_scheme" where
  "EVENT_USB_Device_ConfigurationChanged keyboard_endpoint mouse_endpoint s =
     Update_USBState (if keyboard_endpoint \<and> mouse_endpoint then READY else ERROR) s"

definition EVENT_USB_Device_StartOfFrame :: "'a keyboard_state_scheme \<Rightarrow> 'a keyboard_state_scheme" where
  "EVENT_USB_Device_StartOfFrame s = Update_Millis 1 s"

text \<open>A report for one of the two interfaces; the mouse keeps the buttons it reported last.\<close>

datatype hid_interface = Keyboard_HID_Interface | Mouse_HID_Interface

definition create_keyboard_report :: "KeyboardReport_Data \<Rightarrow> 'a keyboard_state_scheme
    \<Rightarrow> (bool \<times> nat \<times> KeyboardReport_Data) \<times> 'a keyboard_state_scheme" where
  "create_keyboard_report report s = (let (report, s) = Fill_KeyboardReport report s in ((False, 8, report), s))"

definition create_mouse_report :: "MouseReport_Data \<Rightarrow> u8 \<Rightarrow> 'a keyboard_state_scheme
    \<Rightarrow> (bool \<times> nat \<times> MouseReport_Data) \<times> u8 \<times> 'a keyboard_state_scheme" where
  "create_mouse_report report lastMouseButtonStatus s =
     (let (report, s) = Fill_MouseReport report s in
      if lastMouseButtonStatus = Button report \<and> X report = 0 \<and> Y report = 0 \<and> VWheel report = 0 \<and> HWheel report = 0
      then ((False, 0, report), lastMouseButtonStatus, s)
      else ((True, 5, report), Button report, s))"

definition CALLBACK_HID_Device_ProcessHIDReport :: "hid_interface \<Rightarrow> u8 \<Rightarrow> 'a keyboard_state_scheme \<Rightarrow> 'a keyboard_state_scheme" where
  "CALLBACK_HID_Device_ProcessHIDReport interface report s =
     (if interface = Keyboard_HID_Interface then Process_KeyboardLEDReport report s else s)"

text \<open>
  \<open>USB_KeepAlive\<close> does not enter the USB task from within itself. The task of the library is a parameter
  that may call back.
\<close>

definition USB_KeepAlive :: "(bool \<times> 's \<Rightarrow> bool \<times> 's) \<Rightarrow> bool \<Rightarrow> bool \<times> 's \<Rightarrow> bool \<times> 's" where
  "USB_KeepAlive task poll_bus = (\<lambda>(in_task, s).
     if poll_bus \<and> \<not> in_task then (False, snd (task (True, s))) else (in_task, s))"

definition USB_Perform_Update :: "(hid_interface \<Rightarrow> 's \<Rightarrow> 's) \<Rightarrow> (bool \<times> 's \<Rightarrow> bool \<times> 's) \<Rightarrow> bool \<times> 's \<Rightarrow> bool \<times> 's" where
  "USB_Perform_Update hid_task task = (\<lambda>(in_task, s).
     USB_KeepAlive task True (in_task, hid_task Keyboard_HID_Interface (hid_task Mouse_HID_Interface s)))"

end
