(* ===== verification/SpiEepromCorrect.thy ===== *)
theory SpiEepromCorrect
  imports SpiEeprom
begin

text \<open>
  What the SPI driver promises. The chip is known by what its documentation says of whole
  transactions, stated as the locale \<open>spi_eeprom_chip\<close>: reading the status, the end of a write cycle,
  enabling a write, reading, and a write that wraps at the end of its page. In the locale the driver is
  shown to implement a byte memory: it waits for write cycles, enables every page write and splits
  blocks at page boundaries.
\<close>

subsection \<open>Transactions\<close>

fun exchange_all :: "'c spi_bus \<Rightarrow> u8 list \<Rightarrow> 'c \<Rightarrow> u8 list \<times> 'c" where
  "exchange_all bus [] c = ([], c)"
| "exchange_all bus (b # bs) c = (let (r, c) = bus_exchange bus b c; (rs, c) = exchange_all bus bs c in (r # rs, c))"

definition transaction :: "'c spi_bus \<Rightarrow> u8 list \<Rightarrow> 'c \<Rightarrow> u8 list \<times> 'c" where
  "transaction bus bs c = (let (rs, c) = exchange_all bus bs (bus_select bus c) in (rs, bus_deselect bus c))"

definition with_address :: "SPI_COMMAND \<Rightarrow> u16 \<Rightarrow> u8 list \<Rightarrow> u8 list" where
  "with_address cmd addr bs = command_code cmd # ucast (drop_bit 8 addr) # ucast (addr AND 0xFF) # bs"

lemma exchange_all_append:
  "exchange_all bus (xs @ ys) c
    = (let (rs, c) = exchange_all bus xs c; (qs, c) = exchange_all bus ys c in (rs @ qs, c))"
  by (induction xs arbitrary: c) (auto split: prod.splits)

lemma exchange_all_length [simp]: "length (fst (exchange_all bus bs c)) = length bs"
  by (induction bs arbitrary: c) (auto split: prod.splits, metis fst_conv)

lemma fold_spi_send: "fold (spi_send bus) bs s = s\<lparr>chip := snd (exchange_all bus bs (chip s))\<rparr>"
  by (induction bs arbitrary: s) (auto simp: spi_send_def spi_transfer_def split: prod.splits)

lemma spi_receive_exchange:
  "spi_receive bus n s = (let (rs, c) = exchange_all bus (replicate n 0xFF) (chip s) in (rs, s\<lparr>chip := c\<rparr>))"
  by (induction n arbitrary: s) (auto simp: spi_transfer_def split: prod.splits)

lemmas transfer_defs = spi_slave_on_def spi_slave_off_def spi_send_def spi_transfer_def transaction_def

lemma read_status_transaction:
  "spi_eeprom_read_status bus s
    = (let (rs, c) = transaction bus [command_code RDSR, 0xFF] (chip s) in (rs ! 1, s\<lparr>chip := c\<rparr>))"
  by (simp add: spi_eeprom_read_status_def transfer_defs split: prod.splits)

lemma enable_write_transaction: "spi_enable_write bus s = s\<lparr>chip := snd (transaction bus [command_code WREN] (chip s))\<rparr>"
  by (simp add: spi_enable_write_def transfer_defs split: prod.splits)

lemma send_address_exchange:
  "spi_send_address bus addr (spi_send bus (command_code cmd) s) = s\<lparr>chip := snd (exchange_all bus (with_address cmd addr []) (chip s))\<rparr>"
  using fold_spi_send [of bus "with_address cmd addr []" s] by (simp add: spi_send_address_def with_address_def)

lemma with_address_append: "with_address cmd addr bs = with_address cmd addr [] @ bs"
  by (simp add: with_address_def)

lemma write_page_transaction:
  "spi_eeprom_write_page bus addr buf len s
    = (len, s\<lparr>chip := snd (transaction bus (with_address WRITE addr (take (unat len) buf)) (chip (spi_enable_write bus s)))\<rparr>)"
  unfolding spi_eeprom_write_page_def spi_eeprom_start_write_def spi_eeprom_continue_write_def send_address_exchange
    transaction_def with_address_append [of WRITE addr "take (unat len) buf"] exchange_all_append
  by (simp add: SPI_EEPROM_OK_def fold_spi_send spi_slave_on_def spi_slave_off_def enable_write_transaction split: prod.splits)

lemma read_transaction:
  "spi_eeprom_read bus addr len s
    = (let (rs, c) = transaction bus (with_address READ addr (replicate (unat len) 0xFF)) (chip s)
       in (len, drop 3 rs, s\<lparr>chip := c\<rparr>))"
proof -
  obtain rs c where x: "exchange_all bus (with_address READ addr []) (bus_select bus (chip s)) = (rs, c)" by fastforce
  have "length rs = 3" using exchange_all_length [of bus "with_address READ addr []" "bus_select bus (chip s)"]
    unfolding x by (simp add: with_address_def)
  then show ?thesis
    unfolding spi_eeprom_read_def send_address_exchange spi_receive_exchange transaction_def
      with_address_append [of READ addr "replicate (unat len) 0xFF"] exchange_all_append
    by (auto simp: spi_slave_on_def spi_slave_off_def x split: prod.splits)
qed

lemma unat_eq_63: "unat (x :: u16) = 63 \<Longrightarrow> x = 63"
  by (simp add: word_unat_eq_iff)

lemma scast_small: "unat (n :: u8) \<le> 64 \<Longrightarrow> (scast n :: u16) = ucast n"
  unfolding scast_eq ucast_eq by (simp only: sint_small)

lemma chunk_facts:
  assumes "cnt \<noteq> 0" "n = page_chunk (64 - dst_page_off dst) cnt"
  shows "n \<noteq> 0" "unat n \<le> 64" "unat n \<le> unat cnt" "unat dst mod 64 + unat n \<le> 64"
    "unat (cnt - ucast n) = unat cnt - unat n" "unat (cnt - ucast n) < unat cnt"
proof -
  have un: "unat n = min (unat cnt) (64 - unat dst mod 64)" unfolding assms(2) page_chunk_unat spi_page_rest ..
  have "0 < unat cnt" using assms(1) unat_gt_0 by blast
  moreover have lt: "unat dst mod 64 < 64" by simp
  ultimately have "0 < unat n" unfolding un by linarith
  then show "n \<noteq> 0" unfolding unat_gt_0 .
  show "unat n \<le> 64" "unat n \<le> unat cnt" "unat dst mod 64 + unat n \<le> 64" using lt unfolding un by linarith+
  show r: "unat (cnt - ucast n) = unat cnt - unat n" unfolding assms(2) page_chunk_rest page_chunk_unat ..
  show "unat (cnt - ucast n) < unat cnt" using \<open>0 < unat n\<close> \<open>0 < unat cnt\<close> unfolding r by linarith
qed

lemma chunk_back_facts:
  assumes "cnt \<noteq> 0" "n = memmove_chunk False dst cnt"
  shows "n \<noteq> 0" "unat n \<le> 64" "unat n \<le> unat cnt" "unat n \<le> unat dst mod 64 + 1"
    "unat (cnt - ucast n) = unat cnt - unat n" "unat (cnt - ucast n) < unat cnt"
proof -
  have un: "unat n = min (unat cnt) (unat dst mod 64 + 1)" unfolding assms(2) memmove_chunk_def page_chunk_unat
    by (simp add: spi_page_before)
  have "0 < unat cnt" using assms(1) unat_gt_0 by blast
  then have "0 < unat n" unfolding un by linarith
  then show "n \<noteq> 0" unfolding unat_gt_0 .
  have "unat dst mod 64 < 64" by simp
  then show "unat n \<le> 64" "unat n \<le> unat cnt" "unat n \<le> unat dst mod 64 + 1" unfolding un by linarith+
  show r: "unat (cnt - ucast n) = unat cnt - unat n" unfolding assms(2) memmove_chunk_def page_chunk_rest page_chunk_unat ..
  show "unat (cnt - ucast n) < unat cnt" using \<open>0 < unat n\<close> \<open>0 < unat cnt\<close> unfolding r by linarith
qed

text \<open>A page write that starts at most a page offset and one byte below \<open>d\<close> stays below \<open>d\<close>.\<close>

lemma page_write_below:
  assumes "n \<le> d mod 64 + 1" "n \<le> d" "length bs = n" "d \<le> x" "0 < n"
  shows "page_write SPI_MEM_PAGE_SIZE m ((d - n) - (d - n) mod 64) ((d - n) mod 64) bs x = m x"
proof (cases "n \<le> d mod 64")
  case True
  have "d - n = 64 * (d div 64) + (d mod 64 - n)" using True mult_div_mod_eq [of 64 d] by linarith
  moreover have "d mod 64 - n < 64" by (simp add: less_imp_diff_less)
  ultimately have r: "(d - n) mod 64 = d mod 64 - n" by simp
  have "(d - n) mod 64 + length bs \<le> 64" unfolding r assms(3) using True by (simp add: order_less_imp_le)
  moreover have "(d - n) - (d - n) mod 64 + (d - n) mod 64 = d - n" by (rule le_add_diff_inverse2) simp
  ultimately have "page_write SPI_MEM_PAGE_SIZE m ((d - n) - (d - n) mod 64) ((d - n) mod 64) bs = mem_write m (d - n) bs"
    unfolding SPI_MEM_PAGE_SIZE_def [symmetric] by (metis page_write_within)
  then show ?thesis using assms by (simp add: mem_write_apart)
next
  case False
  then have n: "n = d mod 64 + 1" using assms(1) by simp
  have e: "64 * (d div 64) + d mod 64 = d" by simp
  with n assms(2) have "d div 64 \<noteq> 0" by linarith
  then obtain q where "d div 64 = Suc q" using not0_implies_Suc by blast
  with e have "64 * Suc q + d mod 64 = d" by simp
  then obtain r where "64 * Suc q + r = d" "n = r + 1" using n by blast
  then have k: "d - n = 64 * q + 63" "64 * q + 64 \<le> d" by auto
  have "(d - n) mod 64 = 63" unfolding k(1) by simp
  moreover have "d - n - 63 + 64 \<le> x" using k assms(4) by linarith
  ultimately show ?thesis by (intro page_write_outside) (auto simp: SPI_MEM_PAGE_SIZE_def)
qed

subsection \<open>The chip\<close>

text \<open>
  \<open>contents\<close> is the memory once a running write cycle ends, \<open>cycle\<close> the time the cycle still takes,
  \<open>enabled\<close> the write enable latch and \<open>idle\<close> a chip that is not selected and whose protection bits
  are clear.
\<close>

locale spi_eeprom_chip =
  fixes bus :: "'c spi_bus" and contents :: "'c \<Rightarrow> memory" and idle :: "'c \<Rightarrow> bool" and enabled :: "'c \<Rightarrow> bool"
    and cycle :: "'c \<Rightarrow> nat" and capacity :: nat
  assumes status_law: "idle c \<Longrightarrow> transaction bus [command_code RDSR, 0xFF] c = (rs, d) \<Longrightarrow>
      (rs ! 1 AND SPI_STATUS_WRITE_IN_PROGRESS_MASK = 0 \<longleftrightarrow> cycle c = 0)
      \<and> idle d \<and> contents d = contents c \<and> cycle d \<le> cycle c"
    and delay_law: "idle c \<Longrightarrow> idle (bus_delay bus c) \<and> contents (bus_delay bus c) = contents c
      \<and> cycle (bus_delay bus c) \<le> cycle c - 1"
    and enable_law: "idle c \<Longrightarrow> cycle c = 0 \<Longrightarrow> transaction bus [command_code WREN] c = (rs, d) \<Longrightarrow>
      idle d \<and> cycle d = 0 \<and> contents d = contents c \<and> enabled d"
    and read_law: "idle c \<Longrightarrow> cycle c = 0 \<Longrightarrow> unat addr + n \<le> capacity \<Longrightarrow>
      transaction bus (with_address READ addr (replicate n 0xFF)) c = (rs, d) \<Longrightarrow>
      drop 3 rs = mem_read (contents c) (unat addr) n \<and> idle d \<and> cycle d = 0 \<and> contents d = contents c"
    and write_law: "idle c \<Longrightarrow> cycle c = 0 \<Longrightarrow> enabled c \<Longrightarrow> unat addr < capacity \<Longrightarrow> bs \<noteq> [] \<Longrightarrow>
      transaction bus (with_address WRITE addr bs) c = (rs, d) \<Longrightarrow>
      idle d \<and> contents d
        = page_write SPI_MEM_PAGE_SIZE (contents c) (unat addr - unat addr mod SPI_MEM_PAGE_SIZE) (unat addr mod SPI_MEM_PAGE_SIZE) bs"
    and capacity_law: "capacity \<le> 0x10000"
begin

text \<open>The driver at rest, with \<open>m\<close> in the chip.\<close>

definition holds :: "memory \<Rightarrow> 'c spi_state \<Rightarrow> bool" where
  "holds m s \<longleftrightarrow> idle (chip s) \<and> contents (chip s) = m"

lemma wait_ends:
  assumes "holds m s"
  shows "\<exists>t. spi_eeprom_wait_for_last_write_end bus s = Some t \<and> holds m t \<and> cycle (chip t) = 0
    \<and> storage_errno t = storage_errno s"
  using assms
proof (induction "cycle (chip s)" arbitrary: s rule: less_induct)
  case less
  obtain rs d where tr: "transaction bus [command_code RDSR, 0xFF] (chip s) = (rs, d)" by fastforce
  note st = status_law [OF _ tr]
  show ?case
  proof (cases "cycle (chip s) = 0")
    case True
    then show ?thesis using st less.prems
      by (subst spi_eeprom_wait_for_last_write_end.simps) (simp add: read_status_transaction tr holds_def)
  next
    case False
    let ?t = "s\<lparr>chip := bus_delay bus d\<rparr>"
    have "cycle (chip ?t) < cycle (chip s) \<and> holds m ?t"
      using st less.prems False delay_law [of d] by (cases "cycle d = 0") (auto simp: holds_def)
    then show ?thesis using less.hyps [of ?t] st less.prems False
      by (subst spi_eeprom_wait_for_last_write_end.simps) (simp add: read_status_transaction tr holds_def)
  qed
qed

lemma write_page_wraps:
  assumes "holds m s" "cycle (chip s) = 0" "unat addr < capacity" "len \<noteq> 0" "buf \<noteq> []"
  shows "\<exists>t. spi_eeprom_write_page bus addr buf len s = (len, t) \<and> storage_errno t = storage_errno s
    \<and> holds (page_write SPI_MEM_PAGE_SIZE m (unat addr - unat addr mod 64) (unat addr mod 64) (take (unat len) buf)) t"
proof -
  obtain rs c where c: "transaction bus [command_code WREN] (chip s) = (rs, c)" by fastforce
  with enable_law [OF _ _ c] assms have e: "idle c" "cycle c = 0" "contents c = m" "enabled c" by (auto simp: holds_def)
  obtain qs d where d: "transaction bus (with_address WRITE addr (take (unat len) buf)) c = (qs, d)" by fastforce
  have "take (unat len) buf \<noteq> []" using assms(4,5) by (simp add: unat_eq_0)
  from write_law [OF e(1,2,4) assms(3) this d]
  show ?thesis by (simp add: write_page_transaction enable_write_transaction c d holds_def e(3) SPI_MEM_PAGE_SIZE_def)
qed

lemma write_page_within:
  assumes "holds m s" "cycle (chip s) = 0" "unat addr + unat len \<le> capacity" "len \<noteq> 0" "unat len \<le> length buf"
    "unat addr mod 64 + unat len \<le> 64"
  shows "\<exists>t. spi_eeprom_write_page bus addr buf len s = (len, t) \<and> storage_errno t = storage_errno s
    \<and> holds (mem_write m (unat addr) (take (unat len) buf)) t"
proof -
  have "0 < unat len" using assms(4) by (simp add: unat_gt_0)
  then have "unat addr < capacity" "buf \<noteq> []" using assms(3,5) by auto
  moreover have "page_write SPI_MEM_PAGE_SIZE m (unat addr - unat addr mod 64) (unat addr mod 64) (take (unat len) buf) = mem_write m (unat addr) (take (unat len) buf)"
    using assms(5,6) by (subst page_write_within) (auto simp: SPI_MEM_PAGE_SIZE_def)
  ultimately show ?thesis using write_page_wraps [OF assms(1,2) _ assms(4)] by metis
qed

lemma read_block:
  assumes "holds m s" "cycle (chip s) = 0" "unat addr + unat len \<le> capacity"
  shows "\<exists>t. spi_eeprom_read bus addr len s = (len, mem_read m (unat addr) (unat len), t) \<and> storage_errno t = storage_errno s
    \<and> holds m t \<and> cycle (chip t) = 0"
proof -
  obtain rs d where d: "transaction bus (with_address READ addr (replicate (unat len) 0xFF)) (chip s) = (rs, d)" by fastforce
  from read_law [OF _ _ _ d] assms show ?thesis by (simp add: read_transaction d holds_def)
qed


lemma read_byte_holds:
  assumes "holds m s" "cycle (chip s) = 0" "unat addr < capacity"
  shows "\<exists>t. spi_eeprom_read_byte bus addr s = (m (unat addr), t) \<and> holds m t \<and> cycle (chip t) = 0"
  using read_block [OF assms(1,2), of addr 1] assms(3) by (auto simp: spi_eeprom_read_byte_def mem_read_def)

text \<open>A write cycle is over when enough time has passed.\<close>

lemma delays_rest:
  assumes "idle c"
  shows "idle ((bus_delay bus ^^ n) c) \<and> contents ((bus_delay bus ^^ n) c) = contents c \<and> cycle ((bus_delay bus ^^ n) c) \<le> cycle c - n"
proof (induction n)
  case (Suc n)
  then show ?case using delay_law [of "(bus_delay bus ^^ n) c"] by fastforce
qed (simp add: assms)

lemma advance: "unat dst + unat n < 0x10000 \<Longrightarrow> unat (dst + ucast (n :: u8) :: u16) = unat dst + unat n"
  by (simp add: unat_word_ariths(1))

lemma write_loop_block:
  assumes "holds m s" "unat dst + unat cnt \<le> capacity" "unat cnt \<le> length buf"
  shows "\<exists>t. spi_write_loop bus dst buf cnt w s = Some (w + cnt, t) \<and> storage_errno t = storage_errno s
    \<and> holds (mem_write m (unat dst) (take (unat cnt) buf)) t"
  using assms
proof (induction "unat cnt" arbitrary: m s dst cnt buf w rule: less_induct)
  case less
  show ?case
  proof (cases "cnt = 0")
    case True
    then show ?thesis using less.prems by (subst spi_write_loop.simps) simp
  next
    case False
    define n where "n = page_chunk (64 - dst_page_off dst) cnt"
    define cnt' where "cnt' = cnt - ucast n"
    note n = chunk_facts [OF False n_def]
    have uc: "unat cnt' = unat cnt - unat n" unfolding cnt'_def by (rule n(5))
    obtain a where a: "spi_eeprom_wait_for_last_write_end bus s = Some a" "holds m a" "cycle (chip a) = 0"
      "storage_errno a = storage_errno s" using wait_ends [OF less.prems(1)] by blast
    obtain b where b: "spi_eeprom_write_page bus dst buf n a = (n, b)" "storage_errno b = storage_errno a"
      "holds (mem_write m (unat dst) (take (unat n) buf)) b"
      using write_page_within [OF a(2,3) _ n(1) _ n(4), of buf] n less.prems by auto
    have step: "spi_write_loop bus dst buf cnt w s = spi_write_loop bus (dst + ucast n) (drop (unat n) buf) cnt' (w + ucast n) b"
      using False a(1) b(1) sint_small [OF n(2)] scast_small [OF n(2)]
      by (subst spi_write_loop.simps) (simp add: n_def [symmetric] cnt'_def [symmetric])
    have w: "w + ucast n + cnt' = w + cnt" by (simp add: cnt'_def)
    show ?thesis
    proof (cases "cnt' = 0")
      case True
      then have "unat n = unat cnt" using uc n(3) by simp
      then show ?thesis using step b a(4) w True by (subst (asm) spi_write_loop.simps) simp
    next
      case False
      then have "0 < unat cnt'" by (simp add: unat_gt_0)
      then have d: "unat (dst + ucast n) = unat dst + unat n" using less.prems(2) capacity_law uc by (intro advance) linarith
      have "take (unat cnt) buf = take (unat n) buf @ take (unat cnt') (drop (unat n) buf)"
        using uc n(3) by (metis le_add_diff_inverse take_add)
      then have m: "mem_write m (unat dst) (take (unat cnt) buf)
          = mem_write (mem_write m (unat dst) (take (unat n) buf)) (unat dst + unat n) (take (unat cnt') (drop (unat n) buf))"
        using n(3) less.prems(3) by (simp add: mem_write_append min_def)
      have lt: "unat cnt' < unat cnt" unfolding cnt'_def by (rule n(6))
      have "unat (dst + ucast n) + unat cnt' \<le> capacity" "unat cnt' \<le> length (drop (unat n) buf)"
        using d uc n(3) less.prems(2,3) by auto
      from less.hyps [OF lt b(3) this, of "w + ucast n"] show ?thesis unfolding step m w d b(2) a(4) .
    qed
  qed
qed


lemma memset_block:
  assumes "holds m s" "unat dst + unat len \<le> capacity"
  shows "\<exists>t. spi_eeprom_memset bus dst c len s = Some (SPI_EEPROM_OK, t) \<and> storage_errno t = storage_errno s
    \<and> holds (mem_set m (unat dst) c (unat len)) t"
  using assms
proof (induction "unat len" arbitrary: m s dst len rule: less_induct)
  case less
  show ?case
  proof (cases "len = 0")
    case True
    then show ?thesis using less.prems by (subst spi_eeprom_memset.simps) (simp add: mem_set_def)
  next
    case False
    define n where "n = page_chunk (64 - dst_page_off dst) len"
    note n = chunk_facts [OF False n_def]
    obtain a where a: "spi_eeprom_wait_for_last_write_end bus s = Some a" "holds m a" "cycle (chip a) = 0"
      "storage_errno a = storage_errno s" using wait_ends [OF less.prems(1)] by blast
    obtain b where b: "spi_eeprom_write_page bus dst (replicate SPI_MEM_PAGE_SIZE c) n a = (n, b)"
      "storage_errno b = storage_errno a" "holds (mem_set m (unat dst) c (unat n)) b"
      using write_page_within [OF a(2,3) _ n(1) _ n(4), of "replicate SPI_MEM_PAGE_SIZE c"] n less.prems
      by (auto simp: SPI_MEM_PAGE_SIZE_def mem_set_def min_def)
    have step: "spi_eeprom_memset bus dst c len s = spi_eeprom_memset bus (dst + ucast n) c (len - ucast n) b"
      using False a(1) b(1) by (subst spi_eeprom_memset.simps) (simp add: n_def [symmetric])
    show ?thesis
    proof (cases "len - ucast n = 0")
      case True
      then have "unat n = unat len" using n(3,5) by simp
      then show ?thesis using step b a(4) True by (subst (asm) (2) spi_eeprom_memset.simps) simp
    next
      case False
      then have "0 < unat (len - ucast n)" unfolding unat_gt_0 .
      then have d: "unat (dst + ucast n) = unat dst + unat n" using less.prems(2) capacity_law n(5) by (intro advance) linarith
      have "replicate (unat len) c = replicate (unat n) c @ replicate (unat (len - ucast n)) c"
        unfolding n(5) using n(3) by (metis le_add_diff_inverse replicate_add)
      then have m: "mem_set m (unat dst) c (unat len) = mem_set (mem_set m (unat dst) c (unat n)) (unat dst + unat n) c (unat (len - ucast n))"
        by (simp add: mem_set_def mem_write_append)
      show ?thesis using less.hyps [OF n(6) b(3), of "dst + ucast n"] step b(2) a(4) d m n(3,5) less.prems(2) by auto
    qed
  qed
qed

lemma memmove_down_block:
  assumes "holds m s" "unat src + unat cnt \<le> capacity" "dst \<le> src"
  shows "\<exists>t. spi_move_loop bus True dst src cnt s = Some (SPI_EEPROM_OK, t) \<and> storage_errno t = storage_errno s
    \<and> holds (mem_move m (unat dst) (unat src) (unat cnt)) t"
  using assms
proof (induction "unat cnt" arbitrary: m s dst src cnt rule: less_induct)
  case less
  have le: "unat dst \<le> unat src" using less.prems(3) by (simp add: word_le_nat_alt)
  show ?case
  proof (cases "cnt = 0")
    case True
    then show ?thesis using less.prems by (subst spi_move_loop.simps) (simp add: mem_move_def mem_read_def)
  next
    case False
    define n where "n = page_chunk (64 - dst_page_off dst) cnt"
    note n = chunk_facts [OF False n_def]
    have un: "unat (ucast n :: u16) = unat n" by simp
    obtain a where a: "spi_eeprom_wait_for_last_write_end bus s = Some a" "holds m a" "cycle (chip a) = 0"
      "storage_errno a = storage_errno s" using wait_ends [OF less.prems(1)] by blast
    have "unat src + unat (ucast n :: u16) \<le> capacity" using n(3) less.prems(2) unfolding un by linarith
    then obtain r where r: "spi_eeprom_read bus src (ucast n) a = (ucast n, mem_read m (unat src) (unat n), r)"
      "storage_errno r = storage_errno a" "holds m r" "cycle (chip r) = 0" using read_block [OF a(2,3), of src "ucast n"] by auto
    obtain b where b: "spi_eeprom_write_page bus dst (mem_read m (unat src) (unat n)) n r = (n, b)"
      "storage_errno b = storage_errno r" "holds (mem_move m (unat dst) (unat src) (unat n)) b"
      using write_page_within [OF r(3,4) _ n(1) _ n(4), of "mem_read m (unat src) (unat n)"] n(3) less.prems(2) le
      by (auto simp: mem_move_def)
    have step: "spi_move_loop bus True dst src cnt s = spi_move_loop bus True (dst + ucast n) (src + ucast n) (cnt - ucast n) b"
      using False a(1) r(1) b(1) sint_small [OF n(2)] by (subst spi_move_loop.simps) (simp add: memmove_chunk_def n_def [symmetric])
    show ?thesis
    proof (cases "cnt - ucast n = 0")
      case True
      then have "unat n = unat cnt" using n(3,5) by simp
      then show ?thesis using step b(2,3) r(2) a(4) True by (subst (asm) (2) spi_move_loop.simps) simp
    next
      case False
      then have "0 < unat (cnt - ucast n)" unfolding unat_gt_0 .
      then have d: "unat (dst + ucast n) = unat dst + unat n" "unat (src + ucast n) = unat src + unat n"
        using less.prems(2) capacity_law n(5) le by (intro advance; linarith)+
      have "mem_move (mem_move m (unat dst) (unat src) (unat n)) (unat dst + unat n) (unat src + unat n) (unat (cnt - ucast n))
          = mem_move m (unat dst) (unat src) (unat cnt)"
        using le n(3) unfolding n(5) by (auto simp: fun_eq_iff mem_move_apply)
      moreover have "dst + ucast n \<le> src + ucast n" using d le by (simp add: word_le_nat_alt)
      ultimately show ?thesis using less.hyps [OF n(6) b(3), of "src + ucast n" "dst + ucast n"] step b(2) r(2) a(4) d n(3,5) less.prems(2)
        by auto
    qed
  qed
qed


lemma move_up_keeps_destination:
  assumes "holds m s" "unat cnt \<le> unat src" "src < dst" "unat dst \<le> capacity"
  shows "\<exists>t m'. spi_move_loop bus False dst src cnt s = Some (SPI_EEPROM_OK, t) \<and> holds m' t
    \<and> (\<forall>x\<ge>unat dst. m' x = m x)"
  using assms
proof (induction "unat cnt" arbitrary: m s dst src cnt rule: less_induct)
  case less
  have lt: "unat src < unat dst" using less.prems(3) by (simp add: word_less_nat_alt)
  show ?case
  proof (cases "cnt = 0")
    case True
    then show ?thesis using less.prems by (subst spi_move_loop.simps) auto
  next
    case False
    define n where "n = memmove_chunk False dst cnt"
    note n = chunk_back_facts [OF False n_def]
    have un: "unat (ucast n :: u16) = unat n" by simp
    have d: "unat (dst - ucast n) = unat dst - unat n" "unat (src - ucast n) = unat src - unat n"
      using n(3) less.prems(2) lt by (auto simp: unat_sub word_le_nat_alt)
    obtain a where a: "spi_eeprom_wait_for_last_write_end bus s = Some a" "holds m a" "cycle (chip a) = 0"
      using wait_ends [OF less.prems(1)] by blast
    have "unat (src - ucast n) + unat (ucast n :: u16) \<le> capacity"
      using n(3) less.prems(2,4) lt unfolding un d by linarith
    then obtain bs r where r: "spi_eeprom_read bus (src - ucast n) (ucast n) a = (ucast n, bs, r)" "holds m r" "cycle (chip r) = 0"
      "length bs = unat n"
      using read_block [OF a(2,3)] un by (metis length_mem_read)
    have "unat (dst - ucast n) < capacity" "bs \<noteq> []" using n(1,3) r(4) less.prems(2,4) lt d by (auto simp flip: unat_gt_0)
    then obtain b m1 where b: "spi_eeprom_write_page bus (dst - ucast n) bs n r = (n, b)" "holds m1 b"
      and m1: "m1 = page_write SPI_MEM_PAGE_SIZE m (unat dst - unat n - (unat dst - unat n) mod 64) ((unat dst - unat n) mod 64) bs"
      using write_page_wraps [OF r(2,3) _ n(1), of "dst - ucast n" bs] r(4) by (auto simp: d)
    have step: "spi_move_loop bus False dst src cnt s = spi_move_loop bus False (dst - ucast n) (src - ucast n) (cnt - ucast n) b"
      using False a(1) r(1) b(1) sint_small [OF n(2)] by (subst spi_move_loop.simps) (simp add: n_def [symmetric])
    have "unat (cnt - ucast n) \<le> unat (src - ucast n)" "src - ucast n < dst - ucast n" "unat (dst - ucast n) \<le> capacity"
      using n(3,5) d lt less.prems(2,4) by (auto simp: word_less_nat_alt)
    from less.hyps [OF n(6) b(2) this] obtain t m' where "spi_move_loop bus False dst src cnt s = Some (SPI_EEPROM_OK, t)"
      "holds m' t" "\<forall>x\<ge>unat dst - unat n. m' x = m1 x" unfolding step d by blast
    moreover have "m1 x = m x" if "unat dst \<le> x" for x
      unfolding m1 using n(3,4) less.prems(2) lt r(4) that n(1) by (intro page_write_below) (auto simp flip: unat_gt_0)
    ultimately show ?thesis by (metis diff_le_self order_trans)
  qed
qed

lemma write_short_block:
  assumes "holds m s" "unat dst + 2 \<le> capacity"
  shows "\<exists>t. spi_eeprom_write_short bus dst v s = Some (SPI_EEPROM_OK, t) \<and> holds (mem_write_short m (unat dst) v) t"
proof (cases "dst AND 63 = 63")
  case True
  obtain t where "spi_write_loop bus dst (bytes_of_short v) 2 0 s = Some (2, t)" "holds (mem_write m (unat dst) (bytes_of_short v)) t"
    using write_loop_block [OF assms(1), of dst 2 "bytes_of_short v" 0] assms(2) by auto
  then show ?thesis using True by (simp add: spi_eeprom_write_short_def spi_eeprom_write_def mem_write_short_def)
next
  case False
  obtain a where a: "spi_eeprom_wait_for_last_write_end bus s = Some a" "holds m a" "cycle (chip a) = 0"
    using wait_ends [OF assms(1)] by blast
  have "unat dst mod 64 \<noteq> 63" using False unfolding unat_and_63 [symmetric] by (metis unat_eq_63)
  then have "unat dst mod 64 + 2 \<le> 64" using mod_less_divisor [of 64 "unat dst"] by linarith
  then obtain b where "spi_eeprom_write_page bus dst (bytes_of_short v) 2 a = (2, b)" "holds (mem_write m (unat dst) (bytes_of_short v)) b"
    using write_page_within [OF a(2,3), of dst 2 "bytes_of_short v"] assms(2) by auto
  then show ?thesis using False a(1) by (simp add: spi_eeprom_write_short_def mem_write_short_def)
qed

end

subsection \<open>A chip that follows its documentation\<close>

text \<open>
  A 32 KB chip: it collects the bytes of a transaction, answers status and read commands as they come
  in, and executes the command when it is deselected. A page write clears the latch and takes a while.
\<close>

record serial_eeprom =
  cells :: memory
  latch :: bool
  busy :: nat
  frame_bytes :: "u8 list option"

definition serial_reply :: "u8 list \<Rightarrow> serial_eeprom \<Rightarrow> u8" where
  "serial_reply bs c = (case bs of
     [] \<Rightarrow> 0xFF
   | cmd # args \<Rightarrow>
       if cmd = command_code RDSR then (if busy c = 0 then 0 else 1)
       else if cmd = command_code READ then (case args of
           hi # lo # rest \<Rightarrow> cells c (unat (short_of_bytes [lo, hi]) + length rest) | _ \<Rightarrow> 0xFF)
       else 0xFF)"

definition serial_exchange :: "u8 \<Rightarrow> serial_eeprom \<Rightarrow> u8 \<times> serial_eeprom" where
  "serial_exchange b c = (case frame_bytes c of
     None \<Rightarrow> (0xFF, c) | Some bs \<Rightarrow> (serial_reply bs c, c\<lparr>frame_bytes := Some (bs @ [b])\<rparr>))"

definition serial_execute :: "serial_eeprom \<Rightarrow> serial_eeprom" where
  "serial_execute c = (let d = c\<lparr>frame_bytes := None\<rparr> in case frame_bytes c of
     Some [cmd] \<Rightarrow> if cmd = command_code WREN then d\<lparr>latch := True\<rparr> else d
   | Some (cmd # hi # lo # b # bs) \<Rightarrow>
       if cmd = command_code WRITE \<and> latch c \<and> busy c = 0
       then let a = unat (short_of_bytes [lo, hi]) in
         d\<lparr>cells := page_write SPI_MEM_PAGE_SIZE (cells c) (a - a mod SPI_MEM_PAGE_SIZE) (a mod SPI_MEM_PAGE_SIZE) (b # bs), latch := False, busy := 3\<rparr>
       else d
   | _ \<Rightarrow> d)"

definition serial_bus :: "serial_eeprom spi_bus" where
  "serial_bus = \<lparr>bus_select = (\<lambda>c. c\<lparr>frame_bytes := Some []\<rparr>), bus_deselect = serial_execute,
     bus_exchange = serial_exchange, bus_delay = (\<lambda>c. c\<lparr>busy := busy c - 1\<rparr>)\<rparr>"

lemma serial_bus_simps [simp]:
  "bus_select serial_bus c = c\<lparr>frame_bytes := Some []\<rparr>" "bus_deselect serial_bus = serial_execute"
  "bus_exchange serial_bus = serial_exchange" "bus_delay serial_bus c = c\<lparr>busy := busy c - 1\<rparr>"
  by (simp_all add: serial_bus_def)

lemma serial_exchange_all:
  "frame_bytes c = Some bs \<Longrightarrow> snd (exchange_all serial_bus xs c) = c\<lparr>frame_bytes := Some (bs @ xs)\<rparr>"
  by (induction xs arbitrary: bs c) (simp_all add: serial_exchange_def case_prod_unfold)

lemma serial_read_bytes:
  "frame_bytes c = Some (command_code READ # hi # lo # rest) \<Longrightarrow>
    fst (exchange_all serial_bus (replicate n b) c) = mem_read (cells c) (unat (short_of_bytes [lo, hi]) + length rest) n"
proof (induction n arbitrary: c rest)
  case (Suc n)
  have "mem_read (cells c) a (Suc n) = cells c a # mem_read (cells c) (Suc a) n" for a
    using mem_read_append [of "cells c" a 1 n] by (simp add: mem_read_def)
  moreover have "serial_exchange b c = (cells c (unat (short_of_bytes [lo, hi]) + length rest),
      c\<lparr>frame_bytes := Some (command_code READ # hi # lo # rest @ [b])\<rparr>)"
    using Suc.prems by (simp add: serial_exchange_def serial_reply_def command_code.simps)
  ultimately show ?case using Suc.IH [of "snd (serial_exchange b c)" "rest @ [b]"] by (simp add: case_prod_unfold)
qed (simp add: mem_read_def)

lemma address_bytes: "short_of_bytes [ucast (addr AND 0xFF), ucast (drop_bit 8 addr)] = addr"
proof -
  have "(0xFF :: u16) = mask 8" by (simp add: mask_eq_decr_exp)
  moreover have "(ucast (addr AND mask 8) :: u8) = ucast addr"
    by (rule bit_word_eqI) (auto simp: bit_simps)
  ultimately show ?thesis using short_bytes_roundtrip [of addr] by (simp add: bytes_of_short_def)
qed

lemma serial_transaction:
  "snd (transaction serial_bus bs c) = serial_execute (c\<lparr>frame_bytes := Some bs\<rparr>)"
  using serial_exchange_all [of "c\<lparr>frame_bytes := Some []\<rparr>" "[]" bs]
  by (simp add: transaction_def case_prod_unfold)

interpretation serial: spi_eeprom_chip serial_bus cells "\<lambda>c. frame_bytes c = None" latch busy "0x8000"
proof
  fix c d :: serial_eeprom and rs
  assume i: "frame_bytes c = None"
  {
    assume t: "transaction serial_bus [command_code RDSR, 0xFF] c = (rs, d)"
    then have "rs ! 1 = (if busy c = 0 then 0 else 1)"
      by (auto simp: transaction_def serial_exchange_def serial_reply_def)
    moreover have "d = c" using serial_transaction [of "[command_code RDSR, 0xFF]" c] t i by (simp add: serial_execute_def)
    ultimately show "(rs ! 1 AND SPI_STATUS_WRITE_IN_PROGRESS_MASK = 0) = (busy c = 0)
      \<and> frame_bytes d = None \<and> cells d = cells c \<and> busy d \<le> busy c"
      using i by (simp add: SPI_STATUS_WRITE_IN_PROGRESS_MASK_def)
  next
    assume "busy c = 0" and t: "transaction serial_bus [command_code WREN] c = (rs, d)"
    moreover have "d = c\<lparr>latch := True\<rparr>" using serial_transaction [of "[command_code WREN]" c] t i by (simp add: serial_execute_def)
    ultimately show "frame_bytes d = None \<and> busy d = 0 \<and> cells d = cells c \<and> latch d" using i by simp
  next
    fix addr n
    assume "busy c = 0" and t: "transaction serial_bus (with_address READ addr (replicate n 0xFF)) c = (rs, d)"
    moreover have "d = c" using serial_transaction [of "with_address READ addr (replicate n 0xFF)" c] t i
      by (cases n) (simp_all add: serial_execute_def with_address_def command_code.simps)
    moreover have "drop 3 rs = mem_read (cells c) (unat addr) n"
    proof -
      define e where "e = snd (exchange_all serial_bus (with_address READ addr []) (c\<lparr>frame_bytes := Some []\<rparr>))"
      have e: "e = c\<lparr>frame_bytes := Some (with_address READ addr [])\<rparr>" unfolding e_def by (subst serial_exchange_all) auto
      have "rs = fst (exchange_all serial_bus (with_address READ addr []) (c\<lparr>frame_bytes := Some []\<rparr>))
          @ fst (exchange_all serial_bus (replicate n 0xFF) e)"
        using t unfolding transaction_def with_address_append [of READ addr "replicate n 0xFF"] exchange_all_append
        by (simp add: case_prod_unfold Let_def e_def)
      moreover have "length (fst (exchange_all serial_bus (with_address READ addr []) (c\<lparr>frame_bytes := Some []\<rparr>))) = 3"
        unfolding exchange_all_length by (simp add: with_address_def)
      ultimately show ?thesis
        using serial_read_bytes [of e _ _ "[]" n "0xFF"] by (simp add: e with_address_def address_bytes)
    qed
    ultimately show "drop 3 rs = mem_read (cells c) (unat addr) n \<and> frame_bytes d = None \<and> busy d = 0 \<and> cells d = cells c"
      using i by simp
  next
    fix addr and bs :: "u8 list"
    assume "busy c = 0" "latch c" "bs \<noteq> []" and t: "transaction serial_bus (with_address WRITE addr bs) c = (rs, d)"
    then show "frame_bytes d = None \<and> cells d = page_write SPI_MEM_PAGE_SIZE (cells c) (unat addr - unat addr mod SPI_MEM_PAGE_SIZE)
        (unat addr mod SPI_MEM_PAGE_SIZE) bs"
      using serial_transaction [of "with_address WRITE addr bs" c] i
      by (cases bs) (auto simp: serial_execute_def with_address_def address_bytes Let_def)
  }
qed auto


subsection \<open>Properties\<close>

text \<open>
  C10: through the SPI driver the chip is a byte memory. From any state of the chip, in the middle of a
  write cycle or not, \<open>spi_eeprom_write\<close>, \<open>spi_eeprom_memset\<close>, \<open>spi_eeprom_write_short\<close> and a
  \<open>spi_eeprom_memmove\<close> to lower addresses return, report success and change exactly their block, however
  it lies across pages; after waiting, \<open>spi_eeprom_read\<close> returns the block. For blocks of \<open>0x8000\<close> bytes or
  more the counters of the source are not defined by C (see \<open>SpiEeprom\<close>); there the statement is about the
  counters of the model.
\<close>

theorem spi_eeprom_refines_memory:
  assumes chip: "spi_eeprom_chip bus contents idle enabled cycle capacity" and rest: "idle (chip s)"
  defines "m \<equiv> contents (chip s)"
  shows "(unat dst + unat cnt \<le> capacity \<and> unat cnt \<le> length buf \<longrightarrow>
      (\<exists>t. spi_eeprom_write bus dst buf cnt s = Some (cnt, t) \<and> idle (chip t)
        \<and> contents (chip t) = mem_write m (unat dst) (take (unat cnt) buf)))
    \<and> (unat dst + unat cnt \<le> capacity \<longrightarrow>
      (\<exists>t. spi_eeprom_memset bus dst b cnt s = Some (SPI_EEPROM_OK, t) \<and> idle (chip t)
        \<and> contents (chip t) = mem_set m (unat dst) b (unat cnt)))
    \<and> (dst \<le> src \<and> unat src + unat cnt \<le> capacity \<longrightarrow>
      (\<exists>t. spi_eeprom_memmove bus dst src cnt s = Some (SPI_EEPROM_OK, t) \<and> idle (chip t)
        \<and> contents (chip t) = mem_move m (unat dst) (unat src) (unat cnt)))
    \<and> (unat dst + 2 \<le> capacity \<longrightarrow>
      (\<exists>t. spi_eeprom_write_short bus dst v s = Some (SPI_EEPROM_OK, t) \<and> idle (chip t)
        \<and> contents (chip t) = mem_write_short m (unat dst) v))
    \<and> (unat dst + unat cnt \<le> capacity \<longrightarrow>
      (\<exists>t u. spi_eeprom_wait_for_last_write_end bus s = Some t
        \<and> spi_eeprom_read bus dst cnt t = (cnt, mem_read m (unat dst) (unat cnt), u) \<and> idle (chip u) \<and> contents (chip u) = m))"
proof -
  note holds = spi_eeprom_chip.holds_def [OF chip]
  have h: "spi_eeprom_chip.holds contents idle m s" using rest by (simp add: holds m_def)
  note laws = spi_eeprom_chip.write_loop_block [OF chip h, of dst cnt buf 0, unfolded holds]
    spi_eeprom_chip.memset_block [OF chip h, of dst cnt b, unfolded holds]
    spi_eeprom_chip.memmove_down_block [OF chip h, of src cnt dst, unfolded holds]
    spi_eeprom_chip.write_short_block [OF chip h, of dst v, unfolded holds]
  have w: "\<exists>t u. spi_eeprom_wait_for_last_write_end bus s = Some t
      \<and> spi_eeprom_read bus dst cnt t = (cnt, mem_read m (unat dst) (unat cnt), u) \<and> idle (chip u) \<and> contents (chip u) = m"
    if "unat dst + unat cnt \<le> capacity"
    using spi_eeprom_chip.wait_ends [OF chip h] spi_eeprom_chip.read_block [OF chip _ _ that, of m] unfolding holds by metis
  show ?thesis
    using w by (intro conjI impI; (elim conjE)?;
      (use laws(1) in \<open>auto simp: spi_eeprom_write_def; fail\<close>)?; (use laws(2) in \<open>auto; fail\<close>)?;
      (use laws(3) in \<open>auto simp: spi_eeprom_memmove_def not_less [symmetric]; fail\<close>)?; (use laws(4) in \<open>auto; fail\<close>)?)
qed

definition fresh_chip :: "serial_eeprom spi_state" where
  "fresh_chip = \<lparr>chip = \<lparr>cells = (\<lambda>a. 0xFF), latch = False, busy = 2, frame_bytes = None\<rparr>, storage_errno = 0\<rparr>"

theorem spi_eeprom_refines_memory_witness:
  "\<exists>t. spi_eeprom_write serial_bus 62 [1, 2, 3, 4] 4 fresh_chip = Some (4, t)
     \<and> cells (chip t) = mem_write (\<lambda>a. 0xFF) 62 [1, 2, 3, 4]"
  using spi_eeprom_refines_memory [OF serial.spi_eeprom_chip_axioms, of fresh_chip 62 4 "[1, 2, 3, 4]" 0 0 0]
  by (simp add: fresh_chip_def) blast

text \<open>
  C38: moving a block to a higher address fails silently: \<open>spi_eeprom_memmove\<close> reports success, but it
  moves its cursors down from the start of the blocks instead of their ends, so nothing at or above the
  destination has changed.
\<close>

theorem spi_eeprom_memmove_up_misses:
  assumes chip: "spi_eeprom_chip bus contents idle enabled cycle capacity" and rest: "idle (chip s)"
    and block: "src < dst" "unat dst \<le> capacity" "unat cnt \<le> unat src"
  shows "\<exists>t. spi_eeprom_memmove bus dst src cnt s = Some (SPI_EEPROM_OK, t)
    \<and> (\<forall>x\<ge>unat dst. contents (chip t) x = contents (chip s) x)"
  using spi_eeprom_chip.move_up_keeps_destination [OF chip _ block(3,1,2), of "contents (chip s)" s] rest block(1)
  by (auto simp: spi_eeprom_chip.holds_def [OF chip] spi_eeprom_memmove_def)

theorem spi_eeprom_memmove_up_misses_witness:
  "\<exists>t. spi_eeprom_memmove serial_bus 130 100 50 fresh_chip = Some (SPI_EEPROM_OK, t)
    \<and> (\<forall>x\<ge>130. cells (chip t) x = cells (chip fresh_chip) x)"
  using spi_eeprom_memmove_up_misses [OF serial.spi_eeprom_chip_axioms, of fresh_chip 100 130 50]
  by (simp add: fresh_chip_def)

end
