(* ===== verification/UsbStreamCorrect.thy ===== *)
theory UsbStreamCorrect
  imports UsbStream SpiEepromCorrect
begin

text \<open>
  What the control transfers do, whatever the timing of the bus: a completed transfer from the host
  stores exactly the bytes the host sent, in packets of any size, and a transfer to the host sends the
  stored bytes in order. For the SPI storage this includes the page writes that stay open from one packet
  to the next.
\<close>

subsection \<open>From the host\<close>

fun put_bytes :: "(u16 \<Rightarrow> u8 \<Rightarrow> nat \<Rightarrow> 's \<Rightarrow> 's option) \<Rightarrow> u16 \<Rightarrow> u8 list \<Rightarrow> nat \<Rightarrow> 's \<Rightarrow> 's option" where
  "put_bytes wr addr [] len s = Some s"
| "put_bytes wr addr (b # bs) len s = do { s \<leftarrow> wr addr b len s; put_bytes wr (addr + 1) bs (len - 1) s }"

lemma put_bytes_append:
  "put_bytes wr addr (xs @ ys) len s
    = do { s \<leftarrow> put_bytes wr addr xs len s; put_bytes wr (addr + of_nat (length xs)) ys (len - length xs) s }"
  by (induction xs arbitrary: addr len s) (auto simp: add.assoc add.commute split: bind_splits)

lemma drain_packet_put:
  "drain_packet wr addr len bs s = map_option (\<lambda>s. (addr + of_nat (min len (length bs)), len - length bs, s))
    (put_bytes wr addr (take len bs) len s)"
proof (induction wr addr len bs s rule: drain_packet.induct)
  case (3 wr addr len b bs s)
  then show ?case by (cases "wr addr b (Suc len) s") (auto simp: add.assoc)
qed auto

lemma control_read_stores:
  assumes "control_read wr addr len ps s = Some (ENDPOINT_RWCSTREAM_NoError, t)"
  shows "length (host_bytes len ps) = len" "put_bytes wr addr (host_bytes len ps) len s = Some t"
proof -
  have "control_read wr addr len ps s = Some (ENDPOINT_RWCSTREAM_NoError, t) \<Longrightarrow>
    length (host_bytes len ps) = len \<and> put_bytes wr addr (host_bytes len ps) len s = Some t"
  proof (induction ps arbitrary: addr len s)
    case (Cons p ps)
    show ?case
    proof (cases "len = 0 \<or> stream_failure p \<noteq> None \<or> \<not> IsOUTReceived p")
      case True
      then show ?thesis using Cons by (auto split: option.splits if_splits simp: stream_failure_def bus_failure_def)
    next
      case False
      let ?n = "min len (length (out_packet p))"
      obtain u where u: "put_bytes wr addr (take len (out_packet p)) len s = Some u"
        "control_read wr (addr + of_nat ?n) (len - length (out_packet p)) ps u = Some (ENDPOINT_RWCSTREAM_NoError, t)"
        using Cons.prems False by (auto simp: drain_packet_put split: bind_splits option.splits)
      from Cons.IH [OF u(2)] u(1) False show ?thesis
        by (auto simp: put_bytes_append min_def split: if_splits)
    qed
  qed simp
  then show "length (host_bytes len ps) = len" "put_bytes wr addr (host_bytes len ps) len s = Some t" using assms by auto
qed

text \<open>A transfer completes when the host sends enough bytes and then waits for the acknowledgement.\<close>

lemma wait_for_IN_completes:
  "list_all (\<lambda>p. stream_failure p = None) qs \<Longrightarrow> IsINReady r \<Longrightarrow> wait_for_IN (qs @ r # rs) = Some ENDPOINT_RWCSTREAM_NoError"
  by (induction qs) (auto simp: stream_failure_def split: option.splits)

lemma control_read_completes:
  "list_all (\<lambda>p. stream_failure p = None) qs \<Longrightarrow> IsINReady r \<Longrightarrow> length (host_bytes len qs) = len \<Longrightarrow>
    put_bytes wr addr (host_bytes len qs) len s = Some t \<Longrightarrow>
    control_read wr addr len (qs @ r # rs) s = Some (ENDPOINT_RWCSTREAM_NoError, t)"
proof (induction qs arbitrary: addr len s)
  case (Cons p qs)
  show ?case
  proof (cases "len = 0 \<or> \<not> IsOUTReceived p")
    case True
    then show ?thesis using Cons wait_for_IN_completes [of "p # qs" r rs] by (auto simp: host_bytes.simps(2) split: if_splits)
  next
    case False
    let ?n = "min len (length (out_packet p))"
    have hb: "host_bytes len (p # qs) = take len (out_packet p) @ host_bytes (len - length (out_packet p)) qs"
      using False Cons.prems(1) by auto
    have n: "length (take len (out_packet p)) = ?n" "len - ?n = len - length (out_packet p)" by (simp_all add: min_def)
    obtain u where u: "put_bytes wr addr (take len (out_packet p)) len s = Some u"
      "put_bytes wr (addr + of_nat ?n) (host_bytes (len - length (out_packet p)) qs) (len - length (out_packet p)) u = Some t"
      using Cons.prems(4) unfolding hb put_bytes_append n by (auto split: bind_splits)
    have "length (host_bytes (len - length (out_packet p)) qs) = len - length (out_packet p)"
      using Cons.prems(3) unfolding hb by (auto simp: min_def split: if_splits)
    from Cons.IH [OF _ Cons.prems(2) this u(2)] Cons.prems(1) u(1) False show ?thesis
      by (auto simp: drain_packet_put)
  qed
qed auto

lemma host_bytes_append: "length (host_bytes len qs) = len \<Longrightarrow> host_bytes len (qs @ rs) = host_bytes len qs"
proof (induction qs arbitrary: len)
  case Nil
  then show ?case by (cases rs) auto
next
  case (Cons p qs)
  show ?case
  proof (cases "len = 0 \<or> stream_failure p \<noteq> None \<or> \<not> IsOUTReceived p")
    case True
    then show ?thesis using Cons by (auto split: if_splits)
  next
    case False
    then have "length (host_bytes (len - length (out_packet p)) qs) = len - length (out_packet p)"
      using Cons.prems by (auto simp: min_def split: if_splits)
    then show ?thesis using Cons.IH False by simp
  qed
qed

lemma put_eeprom_bytes:
  "unat addr + length bs \<le> 0x10000 \<Longrightarrow> put_bytes eeprom_transfer_in addr bs len m = Some (mem_write m (unat addr) bs)"
proof (induction bs arbitrary: addr len m)
  case (Cons b bs)
  show ?case
  proof (cases "bs = []")
    case True
    then show ?thesis by (auto simp: eeprom_transfer_in_def mem_write_def)
  next
    case False
    then have a: "unat (addr + 1) = unat addr + 1" using Cons.prems by (cases bs) (auto simp: unat_word_ariths(1))
    have "mem_write m (unat addr) (b # bs) = mem_write (m(unat addr := b)) (unat addr + 1) bs"
      using mem_write_append [of m "unat addr" "[b]" bs] mem_write_snoc [of m "unat addr" "[]" b] by simp
    then show ?thesis using Cons.IH [of "addr + 1" "len - 1" "m(unat addr := b)"] Cons.prems a by (simp add: eeprom_transfer_in_def fun_upd_def)
  qed
qed simp

subsection \<open>To the host\<close>

definition data_at :: "(u16 \<Rightarrow> u8) \<Rightarrow> u16 \<Rightarrow> nat \<Rightarrow> u8 list" where
  "data_at f addr len = map (\<lambda>i. f (addr + of_nat i)) [0..<len]"

lemma length_data_at [simp]: "length (data_at f addr len) = len"
  by (simp add: data_at_def)

lemma data_at_split: "k \<le> len \<Longrightarrow> data_at f addr len = data_at f addr k @ data_at f (addr + of_nat k) (len - k)"
  by (rule nth_equalityI) (auto simp: data_at_def nth_append add.assoc simp flip: of_nat_add)

text \<open>
  A host that is ready for enough packets, and only then sends its acknowledgement, gets all the data.
  A packet shorter than the endpoint, possibly empty, marks the end.
\<close>

definition packets_needed :: "nat \<Rightarrow> bool \<Rightarrow> nat" where
  "packets_needed len full = (if len = 0 then if full then 1 else 0 else len div USB_Device_ControlEndpointSize + 1)"

definition quiet :: "poll \<Rightarrow> bool" where
  "quiet p \<longleftrightarrow> stream_failure p = None \<and> \<not> IsOUTReceived p \<and> in_bytes p = 0"

lemma wait_for_OUT_quiet: "list_all quiet qs \<Longrightarrow> IsOUTReceived r \<Longrightarrow> wait_for_OUT (qs @ r # rs) = Some ENDPOINT_RWCSTREAM_NoError"
  by (induction qs) (auto simp: quiet_def)

text \<open>The loops with a transfer of one byte that changes the state, within an invariant.\<close>

lemma data_at_Suc: "data_at f addr (Suc n) = f addr # data_at f (addr + 1) n"
  using data_at_split [of 1 "Suc n" f addr] by (simp add: data_at_def)

lemma fill_packet_within:
  assumes rd: "\<And>a s. good s \<Longrightarrow> P a \<Longrightarrow> \<exists>t. rd a s = (f a, t) \<and> good t"
  shows "good s \<Longrightarrow> (\<And>i. i < min len room \<Longrightarrow> P (addr + of_nat i)) \<Longrightarrow>
    \<exists>t. fill_packet rd addr len room s = (data_at f addr (min len room), addr + of_nat (min len room), len - room, t) \<and> good t"
proof (induction len arbitrary: addr room s)
  case (Suc len)
  show ?case
  proof (cases room)
    case (Suc r)
    have "P addr" using Suc.prems(2) [of 0] Suc by simp
    then obtain t where t: "rd addr s = (f addr, t)" "good t" using rd [OF Suc.prems(1)] by blast
    have "P (addr + 1 + of_nat i)" if "i < min len r" for i
      using Suc.prems(2) [of "Suc i"] that Suc by (simp add: add.assoc)
    from Suc.IH [OF t(2) this] obtain u where
      "fill_packet rd (addr + 1) len r t = (data_at f (addr + 1) (min len r), addr + 1 + of_nat (min len r), len - r, u)" "good u" by auto
    then show ?thesis using t(1) Suc by (auto simp: data_at_Suc add.assoc)
  qed (use Suc.prems in \<open>simp add: data_at_def\<close>)
qed (auto simp: data_at_def)

lemma control_write_within:
  assumes rd: "\<And>a s. good s \<Longrightarrow> P a \<Longrightarrow> \<exists>t. rd a s = (f a, t) \<and> good t" and r: "IsOUTReceived r"
  shows "list_all quiet qs \<Longrightarrow> packets_needed len full \<le> length (filter IsINReady qs) \<Longrightarrow> good s \<Longrightarrow>
    (\<And>i. i < len \<Longrightarrow> P (addr + of_nat i)) \<Longrightarrow>
    \<exists>packets t. control_write rd addr len full (qs @ r # rs) s = Some (ENDPOINT_RWCSTREAM_NoError, packets, t)
      \<and> concat packets = data_at f addr len \<and> good t"
proof (induction qs arbitrary: addr len full s)
  case Nil
  then have "len = 0" "\<not> full" by (auto simp: packets_needed_def split: if_splits)
  then show ?case using r Nil.prems(3) by (simp add: data_at_def)
next
  case (Cons p ps)
  have q: "stream_failure p = None" "\<not> IsOUTReceived p" "in_bytes p = 0" using Cons.prems(1) by (auto simp: quiet_def)
  consider (over) "len = 0" "\<not> full" | (idle) "len \<noteq> 0 \<or> full" "\<not> IsINReady p" | (send) "len \<noteq> 0 \<or> full" "IsINReady p" by blast
  then show ?case
  proof cases
    case over
    then show ?thesis using wait_for_OUT_quiet [of "p # ps" r rs] Cons.prems(1,3) r by (simp add: data_at_def)
  next
    case idle
    then show ?thesis using Cons q by auto
  next
    case send
    define k where "k = min len 8"
    have k: "len - k = len - 8" "k \<le> len" "k \<le> 8" by (simp_all add: k_def min_def)
    have "P (addr + of_nat i)" if "i < min len 8" for i using that Cons.prems(4) by simp
    from fill_packet_within [where good = good and P = P and f = f and rd = rd and addr = addr and len = len and room = 8,
      OF rd Cons.prems(3) this] obtain t where
      t: "fill_packet rd addr len 8 s = (data_at f addr k, addr + of_nat k, len - 8, t)" "good t" by (auto simp: k_def)
    have n: "packets_needed (len - 8) (k = 8) \<le> length (filter IsINReady ps)"
      using Cons.prems(2) send(2) by (auto simp: packets_needed_def USB_Device_ControlEndpointSize_def k_def le_div_geq split: if_splits)
    have "P (addr + of_nat k + of_nat i)" if "i < len - 8" for i
      using Cons.prems(4) [of "k + i"] that k by (simp add: add.assoc k_def)
    from Cons.IH [OF _ n t(2) this] Cons.prems(1) obtain packets u where
      "control_write rd (addr + of_nat k) (len - 8) (k = 8) (ps @ r # rs) t = Some (ENDPOINT_RWCSTREAM_NoError, packets, u)"
      "concat packets = data_at f (addr + of_nat k) (len - 8)" "good u" by auto
    then show ?thesis using send q t(1) k data_at_split [OF k(2), of f addr]
      by (auto simp: USB_Device_ControlEndpointSize_def)
  qed
qed

lemma control_write_completes:
  assumes "\<And>a. rd a s = (f a, s)" "IsOUTReceived r" "list_all quiet qs" "packets_needed len full \<le> length (filter IsINReady qs)"
  shows "\<exists>packets. control_write rd addr len full (qs @ r # rs) s = Some (ENDPOINT_RWCSTREAM_NoError, packets, s)
      \<and> concat packets = data_at f addr len"
  using control_write_within [where good = "\<lambda>t. t = s" and P = "\<lambda>a. True" and f = f and rd = rd and rs = rs and addr = addr,
    OF _ assms(2-4)] assms(1) by auto

subsection \<open>Uploads to the SPI storage\<close>

context spi_eeprom_chip
begin

text \<open>A page write at \<open>a\<close> that is open after the bytes \<open>d\<close>.\<close>

definition writing :: "memory \<Rightarrow> u16 \<Rightarrow> u8 list \<Rightarrow> 'c spi_state \<Rightarrow> bool" where
  "writing m a d s \<longleftrightarrow> (\<exists>c. idle c \<and> cycle c = 0 \<and> enabled c \<and> contents c = m
     \<and> chip s = snd (exchange_all bus (with_address WRITE a d) (bus_select bus c)))"

lemma start_writing:
  assumes "holds m s"
  shows "\<exists>t. spi_eeprom_checked_start_write bus a s = Some t \<and> writing m a [] t"
proof -
  obtain t where t: "spi_eeprom_wait_for_last_write_end bus s = Some t" "holds m t" "cycle (chip t) = 0"
    using wait_ends [OF assms] by blast
  obtain rs c where c: "transaction bus [command_code WREN] (chip t) = (rs, c)" by fastforce
  with enable_law [OF _ _ c] t have "idle c" "cycle c = 0" "contents c = m" "enabled c" by (auto simp: holds_def)
  then show ?thesis using t(1) c
    by (auto simp: spi_eeprom_checked_start_write_def spi_eeprom_start_write_def send_address_exchange
      enable_write_transaction spi_slave_on_def writing_def)
qed

lemma send_writing: "writing m a d s \<Longrightarrow> writing m a (d @ [b]) (spi_send bus b s)"
proof -
  assume "writing m a d s"
  then obtain c where c: "idle c" "cycle c = 0" "enabled c" "contents c = m"
    "chip s = snd (exchange_all bus (with_address WRITE a d) (bus_select bus c))" by (auto simp: writing_def)
  have "with_address WRITE a (d @ [b]) = with_address WRITE a d @ [b]" by (simp add: with_address_def)
  then have "chip (spi_send bus b s) = snd (exchange_all bus (with_address WRITE a (d @ [b])) (bus_select bus c))"
    using c(5) by (simp only: exchange_all_append) (simp add: spi_send_def spi_transfer_def case_prod_unfold Let_def)
  then show ?thesis using c(1-4) by (auto simp: writing_def)
qed

lemma end_writing:
  assumes "writing m a d s" "d \<noteq> []" "unat a < capacity" "unat a mod 64 + length d \<le> 64"
  shows "holds (mem_write m (unat a) d) (spi_slave_off bus s)"
proof -
  obtain c where c: "idle c" "cycle c = 0" "enabled c" "contents c = m"
    "chip s = snd (exchange_all bus (with_address WRITE a d) (bus_select bus c))" using assms(1) by (auto simp: writing_def)
  obtain rs e where e: "transaction bus (with_address WRITE a d) c = (rs, e)" by fastforce
  then have "chip (spi_slave_off bus s) = e"
    using c(5) by (simp add: transaction_def spi_slave_off_def case_prod_unfold Let_def)
  moreover have "page_write SPI_MEM_PAGE_SIZE m (unat a - unat a mod 64) (unat a mod 64) d = mem_write m (unat a) d"
    using assms(4) by (subst page_write_within) (auto simp: SPI_MEM_PAGE_SIZE_def)
  ultimately show ?thesis using write_law [OF c(1-3) assms(3,2) e] by (simp add: holds_def c(4) SPI_MEM_PAGE_SIZE_def)
qed

lemma transfer_in_step:
  "spi_transfer_in bus addr b len s = do {
     s \<leftarrow> (if addr AND 63 = 0 then spi_eeprom_checked_start_write bus addr s else Some s);
     Some (if len = 1 \<or> (addr + 1) AND 63 = 0 then spi_slave_off bus (spi_send bus b s) else spi_send bus b s) }"
  by (cases "spi_eeprom_wait_for_last_write_end bus s")
    (auto simp: spi_transfer_in_def spi_eeprom_write_step_def spi_eeprom_checked_start_write_def
      spi_eeprom_start_write_def spi_eeprom_continue_write_def SPI_EEPROM_OK_def)

lemma put_spi_bytes:
  assumes "bs \<noteq> []" "unat addr + length bs \<le> capacity"
    "if addr AND 63 = 0 then holds m s \<and> a = addr \<and> d = []
     else writing m a d s \<and> unat addr = unat a + length d \<and> unat a mod 64 + length d < 64"
  shows "\<exists>t. put_bytes (spi_transfer_in bus) addr bs (length bs) s = Some t \<and> holds (mem_write m (unat a) (d @ bs)) t"
  using assms
proof (induction bs arbitrary: addr m s a d)
  case (Cons b bs)
  obtain t where t: "(if addr AND 63 = 0 then spi_eeprom_checked_start_write bus addr s else Some s) = Some t" "writing m a d t"
    using Cons.prems(3) start_writing [of m s addr] by (auto split: if_splits)
  have a: "unat addr = unat a + length d" "unat a mod 64 + length d < 64"
    using Cons.prems(3) by (auto split: if_splits)
  define u where "u = spi_send bus b t"
  have w: "writing m a (d @ [b]) u" unfolding u_def by (rule send_writing [OF t(2)])
  have off: "holds (mem_write m (unat a) (d @ [b])) (spi_slave_off bus u)"
    using w a Cons.prems(2) by (intro end_writing) auto
  have step: "spi_transfer_in bus addr b (length (b # bs)) s
      = Some (if bs = [] \<or> (addr + 1) AND 63 = 0 then spi_slave_off bus u else u)"
    unfolding transfer_in_step t(1) by (simp add: u_def)
  show ?case
  proof (cases "bs = []")
    case True
    then show ?thesis using step off by simp
  next
    case False
    then have n: "unat (addr + 1) = unat addr + 1" "unat (addr + 1) + length bs \<le> capacity"
      using Cons.prems(2) capacity_law by (cases bs; auto simp: unat_word_ariths(1))+
    show ?thesis
    proof (cases "(addr + 1) AND 63 = 0")
      case True
      then obtain v where "put_bytes (spi_transfer_in bus) (addr + 1) bs (length bs) (spi_slave_off bus u) = Some v"
        "holds (mem_write (mem_write m (unat a) (d @ [b])) (unat (addr + 1)) bs) v"
        using Cons.IH [of "addr + 1" "mem_write m (unat a) (d @ [b])" "spi_slave_off bus u" "addr + 1" "[]"] False n(2) off by auto
      then show ?thesis using step True n(1) a(1) mem_write_append [of m "unat a" "d @ [b]" bs] by simp
    next
      case unaligned: False
      have "unat a mod 64 + length (d @ [b]) \<noteq> 64"
      proof
        assume "unat a mod 64 + length (d @ [b]) = 64"
        then have "(unat a + length (d @ [b])) mod 64 = 0" by (metis mod_add_left_eq mod_self)
        then have "unat ((addr + 1) AND 63) = 0" unfolding unat_and_63 n(1) a(1) by simp
        then show False using unaligned by (simp add: unat_eq_0)
      qed
      then show ?thesis using Cons.IH [of "addr + 1" m u a "d @ [b]"] step unaligned False n w a by auto
    qed
  qed
qed simp

lemma upload_starts:
  assumes "holds m s"
  shows "\<exists>u. spi_eeprom_start_write_if_unaligned bus addr s = Some u \<and>
    (if addr AND 63 = 0 then holds m u \<and> addr = addr \<and> ([] :: u8 list) = []
     else writing m addr [] u \<and> unat addr = unat addr + length ([] :: u8 list) \<and> unat addr mod 64 + length ([] :: u8 list) < 64)"
  using assms start_writing [OF assms, of addr] by (auto simp: spi_eeprom_start_write_if_unaligned_def)

lemma upload_completes:
  assumes "holds m s" "unat addr + unat len \<le> capacity" "len \<noteq> 0"
    "list_all (\<lambda>p. stream_failure p = None) qs" "IsINReady r" "length (host_bytes (unat len) qs) = unat len"
  shows "\<exists>t. Endpoint_Read_Control_SpiMemStream_LE bus addr len (qs @ r # rs) s = Some (ENDPOINT_RWCSTREAM_NoError, t)"
proof -
  obtain u where u: "spi_eeprom_start_write_if_unaligned bus addr s = Some u"
    "if addr AND 63 = 0 then holds m u \<and> addr = addr \<and> ([] :: u8 list) = []
     else writing m addr [] u \<and> unat addr = unat addr + length ([] :: u8 list) \<and> unat addr mod 64 + length ([] :: u8 list) < 64"
    using upload_starts [OF assms(1)] by blast
  have "host_bytes (unat len) qs \<noteq> []" using assms(3,6) by (auto simp: unat_eq_0)
  from put_spi_bytes [OF this _ u(2)] assms(2,6)
  obtain t where "put_bytes (spi_transfer_in bus) addr (host_bytes (unat len) qs) (unat len) u = Some t" by auto
  from control_read_completes [OF assms(4-6) this, of rs] u(1)
  show ?thesis by (auto simp: Endpoint_Read_Control_SpiMemStream_LE_def)
qed

lemma upload_block:
  assumes "holds m s" "unat addr + unat len \<le> capacity" "len \<noteq> 0"
    "Endpoint_Read_Control_SpiMemStream_LE bus addr len ps s = Some (ENDPOINT_RWCSTREAM_NoError, t)"
  shows "length (host_bytes (unat len) ps) = unat len" "holds (mem_write m (unat addr) (host_bytes (unat len) ps)) t"
proof -
  obtain u where u: "spi_eeprom_start_write_if_unaligned bus addr s = Some u"
    "control_read (spi_transfer_in bus) addr (unat len) ps u = Some (ENDPOINT_RWCSTREAM_NoError, t)"
    using assms(4) by (auto simp: Endpoint_Read_Control_SpiMemStream_LE_def split: bind_splits)
  note r = control_read_stores [OF u(2)]
  show "length (host_bytes (unat len) ps) = unat len" by (rule r(1))
  have ne: "host_bytes (unat len) ps \<noteq> []" using assms(3) r(1) by (auto simp: unat_eq_0)
  from upload_starts [OF assms(1), of addr] u(1)
  have "if addr AND 63 = 0 then holds m u \<and> addr = addr \<and> ([] :: u8 list) = []
     else writing m addr [] u \<and> unat addr = unat addr + length ([] :: u8 list) \<and> unat addr mod 64 + length ([] :: u8 list) < 64"
    by auto
  from put_spi_bytes [OF ne _ this] r assms(2)
  show "holds (mem_write m (unat addr) (host_bytes (unat len) ps)) t" by auto
qed

lemma download_block:
  assumes "holds m s" "cycle (chip s) = 0" "unat addr + unat len \<le> capacity" "len \<le> wLength" "len \<noteq> 0"
    "list_all quiet qs" "packets_needed (unat len) False \<le> length (filter IsINReady qs)" "IsOUTReceived r"
  shows "\<exists>packets t. Endpoint_Write_Control_SpiMemStream_LE bus addr len wLength (qs @ r # rs) s
      = Some (ENDPOINT_RWCSTREAM_NoError, packets, t) \<and> concat packets = mem_read m (unat addr) (unat len) \<and> holds m t"
proof -
  have a: "unat (addr + of_nat i) = unat addr + i" if "i < unat len" for i
    using that assms(3) capacity_law by (simp add: unat_word_ariths(1) unat_of_nat)
  have ok: "unat (addr + of_nat i) < capacity" if "i < unat len" for i using a [OF that] that assms(3) by linarith
  have rd: "\<exists>u. spi_eeprom_read_byte bus b t = (m (unat b), u) \<and> (holds m u \<and> cycle (chip u) = 0)"
    if "holds m t \<and> cycle (chip t) = 0" "unat b < capacity" for b t using that(1) read_byte_holds [OF _ _ that(2)] by auto
  have g: "holds m s \<and> cycle (chip s) = 0" using assms(1,2) by blast
  obtain packets t where p: "control_write (spi_eeprom_read_byte bus) addr (unat len) False (qs @ r # rs) s
      = Some (ENDPOINT_RWCSTREAM_NoError, packets, t)" "concat packets = data_at (\<lambda>a. m (unat a)) addr (unat len)"
    "holds m t \<and> cycle (chip t) = 0"
    using control_write_within [where good = "\<lambda>t. holds m t \<and> cycle (chip t) = 0" and P = "\<lambda>a. unat a < capacity"
        and f = "\<lambda>a. m (unat a)" and rd = "spi_eeprom_read_byte bus" and rs = rs, OF rd assms(8,6,7) g ok] by blast
  moreover have "data_at (\<lambda>a. m (unat a)) addr (unat len) = mem_read m (unat addr) (unat len)"
    by (rule nth_equalityI) (auto simp: data_at_def mem_read_def a)
  moreover have "min len wLength = len" using assms(4) by (simp add: min_def)
  ultimately show ?thesis using assms(5)
    by (auto simp: Endpoint_Write_Control_SpiMemStream_LE_def Endpoint_Write_Control_Stream_def)
qed

end

subsection \<open>Properties\<close>

text \<open>
  C11: an upload through \<open>Endpoint_Read_Control_SpiMemStream_LE\<close> completes when the bus stays up, the host
  sends the announced bytes and then waits for the acknowledgement. Whenever it completes it has stored
  exactly the bytes the host sent, from the given address on and nowhere else, however the host divides
  them into packets and wherever the page boundaries of the chip lie, and the chip is at rest.
\<close>

theorem spi_upload_stores_host_bytes:
  assumes chip: "spi_eeprom_chip bus contents idle enabled cycle capacity" "idle (chip s)"
    and block: "unat addr + unat len \<le> capacity" "len \<noteq> 0"
  shows "(list_all (\<lambda>p. stream_failure p = None) qs \<and> length (host_bytes (unat len) qs) = unat len \<and> IsINReady r \<longrightarrow>
      (\<exists>t. Endpoint_Read_Control_SpiMemStream_LE bus addr len (qs @ r # rs) s = Some (ENDPOINT_RWCSTREAM_NoError, t)))
    \<and> (Endpoint_Read_Control_SpiMemStream_LE bus addr len ps s = Some (ENDPOINT_RWCSTREAM_NoError, t) \<longrightarrow>
      length (host_bytes (unat len) ps) = unat len \<and> idle (chip t)
      \<and> contents (chip t) = mem_write (contents (chip s)) (unat addr) (host_bytes (unat len) ps))"
proof -
  have h: "spi_eeprom_chip.holds contents idle (contents (chip s)) s"
    using chip by (simp add: spi_eeprom_chip.holds_def [OF chip(1)])
  show ?thesis
    using spi_eeprom_chip.upload_completes [OF chip(1) h block] spi_eeprom_chip.upload_block [OF chip(1) h block]
    by (auto simp: spi_eeprom_chip.holds_def [OF chip(1)])
qed

definition quiet_poll :: poll where
  "quiet_poll = \<lparr>USB_DeviceState = DEVICE_STATE_Configured, IsSETUPReceived = False, IsOUTReceived = False,
     IsINReady = False, out_packet = [], in_bytes = 0\<rparr>"

definition out_poll :: "u8 list \<Rightarrow> poll" where
  "out_poll bs = quiet_poll\<lparr>IsOUTReceived := True, out_packet := bs\<rparr>"

definition in_poll :: poll where
  "in_poll = quiet_poll\<lparr>IsINReady := True\<rparr>"

theorem spi_upload_stores_host_bytes_witness:
  "\<exists>t. Endpoint_Read_Control_SpiMemStream_LE serial_bus 62 3 [quiet_poll, out_poll [1, 2], quiet_poll, out_poll [3], in_poll] fresh_chip
      = Some (ENDPOINT_RWCSTREAM_NoError, t)
    \<and> cells (chip t) = mem_write (cells (chip fresh_chip)) 62 [1, 2, 3]"
proof -
  let ?qs = "[quiet_poll, out_poll [1, 2], quiet_poll, out_poll [3]]"
  note polls = quiet_poll_def out_poll_def in_poll_def stream_failure_def bus_failure_def
  have b: "host_bytes 3 (?qs @ [in_poll]) = [1, 2, 3]" "host_bytes 3 ?qs = [1, 2, 3]"
    "list_all (\<lambda>p. stream_failure p = None) ?qs" "IsINReady in_poll" by (simp_all add: polls)
  have c: "frame_bytes (chip fresh_chip) = None" by (simp add: fresh_chip_def)
  obtain t where t: "Endpoint_Read_Control_SpiMemStream_LE serial_bus 62 3 (?qs @ [in_poll]) fresh_chip = Some (ENDPOINT_RWCSTREAM_NoError, t)"
    using spi_upload_stores_host_bytes [OF serial.spi_eeprom_chip_axioms c, of 62 3 ?qs in_poll "[]"] b by auto
  then show ?thesis
    using spi_upload_stores_host_bytes [OF serial.spi_eeprom_chip_axioms c, of 62 3 ?qs in_poll "[]" "?qs @ [in_poll]" t] b by auto
qed

end
