(* ===== verification/UsbDeviceCorrect.thy ===== *)
theory UsbDeviceCorrect
  imports UsbDevice UsbStreamCorrect KeyboardInvariant
begin

text \<open>
  The vendor requests: an area that the host wrote is what it reads back, and no request but a new mapping
  can break the invariant of the keyboard.
\<close>

subsection \<open>The storage areas\<close>

lemma bytes_of_short_of_bytes: "bytes_of_short (short_of_bytes [x, y]) = [x, y]"
proof -
  have "(ucast (ucast x OR push_bit 8 (ucast y) :: u16) :: u8) = x"
    by (rule bit_word_eqI) (auto simp: bit_simps)
  moreover have "(ucast (drop_bit 8 (ucast x OR push_bit 8 (ucast y) :: u16)) :: u8) = y"
    by (rule bit_word_eqI) (auto simp: bit_simps dest: bit_imp_le_length)
  ultimately show ?thesis by (simp add: bytes_of_short_def short_of_bytes_def)
qed

lemma entry_bytes_at: "entry_bytes (entry_at m j) = mem_read m (j * 6) 6"
proof -
  have r: "mem_read m a 2 = [m a, m (a + 1)]" for a by (simp add: mem_read_def numeral_2_eq_2)
  have "bytes_of_short (mem_read_short m a) = mem_read m a 2" for a
    unfolding mem_read_short_def r by (rule bytes_of_short_of_bytes)
  then show ?thesis
    using mem_read_append [of m "j * 6" 4 2] by (simp add: entry_bytes_def entry_at_def MACRO_MAX_KEYS_def)
qed

lemma index_bytes: "concat (map entry_bytes (map (entry_at m) [0..<n])) = mem_read m 0 (n * 6)"
proof (induction n)
  case (Suc n)
  then show ?case using mem_read_append [of m 0 "n * 6" 6] by (simp add: entry_bytes_at add.commute)
qed (simp add: mem_read_def)

lemma area_bytes_store: "i < area_size area \<Longrightarrow> area_bytes area (area_store area m s) i = m i"
proof (cases area)
  case MappingArea
  moreover assume "i < area_size area"
  ultimately show ?thesis by (simp add: NUM_LOGICAL_KEYS_def KEYPAD_LAYER_SIZE_def unat_of_nat)
next
  case MacroIndexArea
  moreover assume "i < area_size area"
  ultimately show ?thesis
    using index_bytes [of m MACRO_INDEX_COUNT] by (simp add: MACRO_INDEX_SIZE_def MACRO_MAX_KEYS_def comp_def)
qed simp_all

lemma area_size_small: "area_size area \<le> 0x10000"
  by (cases area) (simp_all add: NUM_LOGICAL_KEYS_def KEYPAD_LAYER_SIZE_def PROGRAM_SIZE_def MACRO_INDEX_SIZE_def
    MACRO_INDEX_COUNT_def MACRO_MAX_KEYS_def MACROS_SIZE_def)

lemma receive_area_stores:
  assumes "receive_area area len ps (s, d) = Some (Received ENDPOINT_RWCSTREAM_NoError, t, e)"
  shows "e = d" "unat len \<le> area_size area" "length (host_bytes (unat len) ps) = unat len"
    "t = area_store area (mem_write (area_bytes area s) 0 (host_bytes (unat len) ps)) s"
proof -
  from assms show len: "unat len \<le> area_size area" and "e = d" by (auto simp: receive_area_def split: if_splits)
  with assms obtain m where
    m: "control_read eeprom_transfer_in 0 (unat len) ps (area_bytes area s) = Some (ENDPOINT_RWCSTREAM_NoError, m)" "t = area_store area m s"
    by (auto simp: receive_area_def Endpoint_Read_Control_EStream_LE_def)
  note r = control_read_stores [OF m(1)]
  show "length (host_bytes (unat len) ps) = unat len" by (rule r(1))
  then show "t = area_store area (mem_write (area_bytes area s) 0 (host_bytes (unat len) ps)) s"
    using r(2) m(2) put_eeprom_bytes [of 0 "host_bytes (unat len) ps" "unat len" "area_bytes area s"] len area_size_small [of area] by simp
qed

lemma receive_area_completes:
  assumes "unat len \<le> area_size area" "list_all (\<lambda>p. stream_failure p = None) qs" "IsINReady r" "length (host_bytes (unat len) qs) = unat len"
  shows "\<exists>t. receive_area area len (qs @ r # rs) (s, d) = Some (Received ENDPOINT_RWCSTREAM_NoError, t, d)"
proof -
  have "put_bytes eeprom_transfer_in 0 (host_bytes (unat len) qs) (unat len) (area_bytes area s)
      = Some (mem_write (area_bytes area s) 0 (host_bytes (unat len) qs))"
    using put_eeprom_bytes [of 0 "host_bytes (unat len) qs" "unat len" "area_bytes area s"] assms(1,4) area_size_small [of area] by simp
  from control_read_completes [OF assms(2-4) this] assms(1) show ?thesis
    by (simp add: receive_area_def Endpoint_Read_Control_EStream_LE_def)
qed

lemma send_area_sends:
  assumes "unat len \<le> bytes" "\<And>i. i < unat len \<Longrightarrow> m i = data ! i" "length data = unat len"
    "list_all quiet qs" "IsOUTReceived r" "packets_needed (unat len) False \<le> length (filter IsINReady qs)"
  shows "\<exists>packets. send_area bytes m len (qs @ r # rs) s = Some (Sent ENDPOINT_RWCSTREAM_NoError packets, s) \<and> concat packets = data"
proof -
  obtain packets where p: "control_write eeprom_transfer_out 0 (unat len) False (qs @ r # rs) m = Some (ENDPOINT_RWCSTREAM_NoError, packets, m)"
    "concat packets = data_at (\<lambda>a. m (unat a)) 0 (unat len)"
    using control_write_completes [of eeprom_transfer_out m "\<lambda>a. m (unat a)" r qs "unat len" False 0 rs] assms(4-6)
    by (auto simp: eeprom_transfer_out_def)
  have "data_at (\<lambda>a. m (unat a)) 0 (unat len) = data"
  proof (rule nth_equalityI)
    fix i assume "i < length (data_at (\<lambda>a. m (unat a)) 0 (unat len))"
    then have i: "i < unat len" by simp
    then have "unat (of_nat i :: u16) = i" using unsigned_less [of len, where 'a = nat] by (simp add: unat_of_nat)
    then show "data_at (\<lambda>a. m (unat a)) 0 (unat len) ! i = data ! i" using i assms(2) by (simp add: data_at_def)
  qed (simp add: assms(3))
  then show ?thesis using assms(1) p
    by (auto simp: send_area_def Endpoint_Write_Control_EStream_LE_def Endpoint_Write_Control_Stream_def)
qed

subsection \<open>The invariant\<close>

lemma area_store_inv:
  assumes "kb_inv fx s" "fy \<Longrightarrow> fx \<and> special_fixed (logical_to_hid_map (area_store area m s))"
  shows "kb_inv fy (area_store area m s)"
proof (rule kb_inv_config)
  show "config_state.more (area_store area m s) = config_state.more s" by (cases area) simp_all
  show "kb_inv fy s" using assms by (auto intro: kb_inv_mono)
  show "config_ok fy (area_store area m s)"
    using assms by (cases area) (auto simp: kb_inv_def config_ok_def)
qed

lemma send_keeps: "send_area n m len ps sd = Some (answer, te) \<Longrightarrow> te = sd" "send_value bs sd = Some (answer, te) \<Longrightarrow> te = sd"
  by (auto simp: send_area_def send_value_def split: if_splits)

lemma send_macros_keeps: "send_macros bus macros len ps (s, d) = Some (answer, t, e) \<Longrightarrow> t = s"
  by (auto simp: send_macros_def split: if_splits)

lemma vendor_read_keeps: "vendor_read bus macros req ps (s, d) = Some (answer, t, e) \<Longrightarrow> t = s"
  by (auto simp: vendor_read_def Let_def dest: send_keeps send_macros_keeps split: option.splits vendor_request.splits)

lemma vendor_write_cases:
  assumes "vendor_write bus macros req ps (s, d) = Some (answer, t, e)"
  obtains (area) area m where "t = area_store area m s" | (flags) f where "t = config_save_flags f s"
    | (defaults) "t = config_reset_defaults s" | (fully) "t = config_reset_fully s" | (same) "t = s"
  using assms by (auto simp: vendor_write_def Let_def receive_area_def receive_macros_def
      simp del: area_store.simps area_bytes.simps area_size.simps
      split: option.splits vendor_request.splits if_splits)

lemma vendor_request_cases:
  assumes "EVENT_USB_Device_ControlRequest bus macros req ps (s, d) = Some (answer, t, e)"
  obtains (area) area m where "t = area_store area m s" | (flags) f where "t = config_save_flags f s"
    | (defaults) "t = config_reset_defaults s" | (fully) "t = config_reset_fully s" | (same) "t = s"
proof (cases "bmRequestType req = REQ_VENDOR_OUT")
  case True
  then have "vendor_write bus macros req ps (s, d) = Some (answer, t, e)"
    using assms by (simp add: EVENT_USB_Device_ControlRequest_def REQ_VENDOR_IN_def REQ_VENDOR_OUT_def)
  then show thesis by (cases rule: vendor_write_cases) (use area flags defaults fully same in blast)+
next
  case False
  then have "t = s" using assms
    by (auto simp: EVENT_USB_Device_ControlRequest_def dest: vendor_read_keeps split: if_splits)
  then show thesis by (rule same)
qed

text \<open>Whatever the host writes, only the meaning of the layer and program keys may be lost.\<close>

lemma vendor_request_inv:
  assumes "EVENT_USB_Device_ControlRequest bus macros req ps (s, d) = Some (answer, t, e)" "kb_inv fx s"
    "fy \<Longrightarrow> fx \<and> special_fixed (logical_to_hid_map t)"
  shows "kb_inv fy t"
proof -
  have fy: "kb_inv fy s" using assms(2,3) by (auto intro: kb_inv_mono)
  show ?thesis using assms(1)
  proof (cases rule: vendor_request_cases)
    case area
    then show ?thesis using area_store_inv [OF assms(2)] assms(3) by blast
  qed (use fy kb_inv_configs(1-3) [OF fy] in auto)
qed

subsection \<open>Properties\<close>

definition vendor_in :: "u8 \<Rightarrow> u16 \<Rightarrow> USB_Request_Header" where
  "vendor_in req_code len = \<lparr>bmRequestType = REQ_VENDOR_IN, bRequest = req_code, wValue = 0, wLength = len\<rparr>"

definition vendor_out :: "u8 \<Rightarrow> u16 \<Rightarrow> USB_Request_Header" where
  "vendor_out req_code len = \<lparr>bmRequestType = REQ_VENDOR_OUT, bRequest = req_code, wValue = 0, wLength = len\<rparr>"

text \<open>The codes of the areas: to write and to read.\<close>

fun area_codes :: "eeprom_area \<Rightarrow> u8 \<times> u8" where
  "area_codes MappingArea = (2, 3)"
| "area_codes ProgramsArea = (7, 8)"
| "area_codes MacroIndexArea = (14, 15)"

lemma area_requests:
  "requested (vendor_out (fst (area_codes area)) len) = Some (case area of MappingArea \<Rightarrow> WRITE_MAPPING
     | ProgramsArea \<Rightarrow> WRITE_PROGRAMS | MacroIndexArea \<Rightarrow> WRITE_MACRO_INDEX)"
  "requested (vendor_in (snd (area_codes area)) len) = Some (case area of MappingArea \<Rightarrow> READ_MAPPING
     | ProgramsArea \<Rightarrow> READ_PROGRAMS | MacroIndexArea \<Rightarrow> READ_MACRO_INDEX)"
  by (cases area; simp add: requested_def vendor_out_def vendor_in_def vendor_requests_def)+

lemma area_transfers:
  "EVENT_USB_Device_ControlRequest bus macros (vendor_out (fst (area_codes area)) len) ps sd = receive_area area len ps sd"
  "EVENT_USB_Device_ControlRequest bus macros (vendor_in (snd (area_codes area)) len) ps (s, d)
    = send_area (area_size area) (area_bytes area s) len ps (s, d)"
  using area_requests [of area len]
  by (cases sd; cases area; simp add: EVENT_USB_Device_ControlRequest_def vendor_write_def vendor_read_def REQ_VENDOR_IN_def REQ_VENDOR_OUT_def
      vendor_out_def vendor_in_def)+

lemma macro_transfers:
  "EVENT_USB_Device_ControlRequest bus macros (vendor_out 17 len) ps (s, d) = receive_macros bus macros len ps (s, d)"
  "EVENT_USB_Device_ControlRequest bus macros (vendor_in 18 len) ps (s, d) = send_macros bus macros len ps (s, d)"
  by (simp_all add: EVENT_USB_Device_ControlRequest_def vendor_write_def vendor_read_def REQ_VENDOR_IN_def REQ_VENDOR_OUT_def
      vendor_out_def vendor_in_def requested_def vendor_requests_def)


text \<open>The macro storage, over the laws of the chip that holds it.\<close>

context spi_eeprom_chip
begin

lemma receive_macros_stores:
  assumes "holds m d" "unat macros + MACROS_SIZE \<le> capacity" "len \<noteq> 0"
    "receive_macros bus macros len ps (s, d) = Some (Received ENDPOINT_RWCSTREAM_NoError, t, e)"
  shows "t = s" "unat len \<le> MACROS_SIZE" "length (host_bytes (unat len) ps) = unat len"
    "holds (mem_write m (unat macros) (host_bytes (unat len) ps)) e"
proof -
  show "t = s" and len: "unat len \<le> MACROS_SIZE" using assms(4) by (auto simp: receive_macros_def split: if_splits)
  with assms(4) have up: "Endpoint_Read_Control_SpiMemStream_LE bus macros len ps d = Some (ENDPOINT_RWCSTREAM_NoError, e)"
    by (auto simp: receive_macros_def)
  have "unat macros + unat len \<le> capacity" using len assms(2) by linarith
  from upload_block [OF assms(1) this assms(3) up]
  show "length (host_bytes (unat len) ps) = unat len" "holds (mem_write m (unat macros) (host_bytes (unat len) ps)) e" by auto
qed

lemma receive_macros_completes:
  assumes "holds m d" "unat macros + MACROS_SIZE \<le> capacity" "len \<noteq> 0" "unat len \<le> MACROS_SIZE"
    "list_all (\<lambda>p. stream_failure p = None) qs" "IsINReady r" "length (host_bytes (unat len) qs) = unat len"
  shows "\<exists>e. receive_macros bus macros len (qs @ r # rs) (s, d) = Some (Received ENDPOINT_RWCSTREAM_NoError, s, e)"
proof -
  have "unat macros + unat len \<le> capacity" using assms(2,4) by linarith
  from upload_completes [OF assms(1) this assms(3,5-7)] assms(4) show ?thesis by (auto simp: receive_macros_def)
qed

lemma send_macros_sends:
  assumes "holds m d" "cycle (chip d) \<le> n" "unat macros + MACROS_SIZE \<le> capacity" "len \<noteq> 0" "unat len \<le> MACROS_SIZE"
    "list_all quiet qs" "IsOUTReceived r" "packets_needed (unat len) False \<le> length (filter IsINReady qs)"
  shows "\<exists>packets f. send_macros bus macros len (qs @ r # rs) (s, d\<lparr>chip := (bus_delay bus ^^ n) (chip d)\<rparr>)
      = Some (Sent ENDPOINT_RWCSTREAM_NoError packets, s, f)
    \<and> concat packets = mem_read m (unat macros) (unat len) \<and> holds m f"
proof -
  let ?d = "d\<lparr>chip := (bus_delay bus ^^ n) (chip d)\<rparr>"
  have "holds m ?d" "cycle (chip ?d) = 0"
    using delays_rest [of "chip d" n] assms(1,2) by (auto simp: holds_def)
  moreover have "unat macros + unat len \<le> capacity" using assms(3,5) by linarith
  ultimately show ?thesis using download_block [of m ?d macros len len qs r rs] assms(4-8)
    by (auto simp: send_macros_def)
qed

end

text \<open>
  C12: what the host wrote to the mapping, the programs, the macro index or the macro storage is what it
  reads back. A write request completes when the bus stays up and the host sends the announced bytes and
  then waits for the acknowledgement. Whenever it completes, in whatever packets the data came, the next
  read request of the same length sends these bytes in order to a host that takes enough packets. The write
  changes no other area and no state outside the storage. The first three areas are in the internal EEPROM;
  the macro storage is in the serial EEPROM, where a write request leaves a page write running in the
  chip: the bytes are read back once that has ended, after any time \<open>n\<close> that is as long as it takes.
  The documentation of \<open>spi_eeprom_read\<close> asks its caller to wait for this; the read request does not.
\<close>

theorem vendor_upload_roundtrip:
  assumes chip: "spi_eeprom_chip bus contents resting enabled cycle capacity" "resting (chip d)" "unat macros + MACROS_SIZE \<le> capacity"
    and host: "list_all quiet qs" "IsOUTReceived r" "packets_needed (unat len) False \<le> length (filter IsINReady qs)"
  defines "request \<equiv> EVENT_USB_Device_ControlRequest bus macros"
    and "later \<equiv> \<lambda>n e. e\<lparr>chip := (bus_delay bus ^^ n) (chip e)\<rparr>"
  shows "(request (vendor_out (fst (area_codes area)) len) ps (s, d) = Some (Received ENDPOINT_RWCSTREAM_NoError, t, e) \<longrightarrow>
      length (host_bytes (unat len) ps) = unat len \<and> e = d \<and> macros_storage t = macros_storage s
      \<and> config_state.more t = config_state.more s \<and> (\<forall>other. other \<noteq> area \<longrightarrow> area_bytes other t = area_bytes other s)
      \<and> (\<exists>packets. request (vendor_in (snd (area_codes area)) len) (qs @ r # rs) (t, e)
            = Some (Sent ENDPOINT_RWCSTREAM_NoError packets, t, e) \<and> concat packets = host_bytes (unat len) ps))
    \<and> (len \<noteq> 0 \<and> request (vendor_out 17 len) ps (s, d) = Some (Received ENDPOINT_RWCSTREAM_NoError, t, e) \<longrightarrow>
      length (host_bytes (unat len) ps) = unat len \<and> t = s \<and> resting (chip e)
      \<and> contents (chip e) = mem_write (contents (chip d)) (unat macros) (host_bytes (unat len) ps)
      \<and> (\<forall>n\<ge>cycle (chip e). \<exists>packets f. request (vendor_in 18 len) (qs @ r # rs) (s, later n e)
            = Some (Sent ENDPOINT_RWCSTREAM_NoError packets, s, f) \<and> concat packets = host_bytes (unat len) ps
          \<and> contents (chip f) = contents (chip e)))
    \<and> (list_all (\<lambda>p. stream_failure p = None) us \<and> length (host_bytes (unat len) us) = unat len \<and> IsINReady v \<longrightarrow>
      (unat len \<le> area_size area \<longrightarrow>
        (\<exists>t. request (vendor_out (fst (area_codes area)) len) (us @ v # rs) (s, d) = Some (Received ENDPOINT_RWCSTREAM_NoError, t, d)))
      \<and> (len \<noteq> 0 \<and> unat len \<le> MACROS_SIZE \<longrightarrow>
        (\<exists>e. request (vendor_out 17 len) (us @ v # rs) (s, d) = Some (Received ENDPOINT_RWCSTREAM_NoError, s, e))))"
proof -
  note holds = spi_eeprom_chip.holds_def [OF chip(1)]
  have h: "spi_eeprom_chip.holds contents resting (contents (chip d)) d" using chip(2) by (simp add: holds)
  note receives = spi_eeprom_chip.receive_macros_stores [OF chip(1) h chip(3)]
  note completes = spi_eeprom_chip.receive_macros_completes [OF chip(1) h chip(3)]
  have eeprom: "length (host_bytes (unat len) ps) = unat len \<and> e = d \<and> macros_storage t = macros_storage s
      \<and> config_state.more t = config_state.more s \<and> (\<forall>other. other \<noteq> area \<longrightarrow> area_bytes other t = area_bytes other s)
      \<and> (\<exists>packets. send_area (area_size area) (area_bytes area t) len (qs @ r # rs) (t, e)
            = Some (Sent ENDPOINT_RWCSTREAM_NoError packets, t, e) \<and> concat packets = host_bytes (unat len) ps)"
    if up: "receive_area area len ps (s, d) = Some (Received ENDPOINT_RWCSTREAM_NoError, t, e)"
  proof -
    note u = receive_area_stores [OF up]
    have d: "area_bytes area t i = host_bytes (unat len) ps ! i" if "i < unat len" for i
      unfolding u(4) using that u(2,3) by (subst area_bytes_store) (auto simp: mem_write_def)
    have "area_bytes other t = area_bytes other s" if "other \<noteq> area" for other
      unfolding u(4) using that by (cases area; cases other) simp_all
    moreover have "config_state.more t = config_state.more s" "macros_storage t = macros_storage s"
      unfolding u(4) by (cases area; simp)+
    ultimately show ?thesis using u(1,3) send_area_sends [OF u(2) d u(3) host, where s = "(t, e)"] by blast
  qed
  have macro: "length (host_bytes (unat len) ps) = unat len \<and> t = s \<and> resting (chip e)
      \<and> contents (chip e) = mem_write (contents (chip d)) (unat macros) (host_bytes (unat len) ps)
      \<and> (\<forall>n\<ge>cycle (chip e). \<exists>packets f. send_macros bus macros len (qs @ r # rs) (s, later n e)
            = Some (Sent ENDPOINT_RWCSTREAM_NoError packets, s, f) \<and> concat packets = host_bytes (unat len) ps
          \<and> contents (chip f) = contents (chip e))"
    if len: "len \<noteq> 0" and up: "receive_macros bus macros len ps (s, d) = Some (Received ENDPOINT_RWCSTREAM_NoError, t, e)"
  proof -
    note u = receives [OF len up]
    have "\<exists>packets f. send_macros bus macros len (qs @ r # rs) (s, later n e)
        = Some (Sent ENDPOINT_RWCSTREAM_NoError packets, s, f) \<and> concat packets = host_bytes (unat len) ps \<and> contents (chip f) = contents (chip e)"
      if n: "cycle (chip e) \<le> n" for n
      using spi_eeprom_chip.send_macros_sends [OF chip(1) u(4) n chip(3) len u(2) host, of rs s] u(3,4)
      by (auto simp: holds later_def)
    then show ?thesis using u by (auto simp: holds)
  qed
  show ?thesis unfolding request_def area_transfers macro_transfers
  proof (rule conjI, rule impI, erule eeprom, rule conjI, rule impI, erule conjE, erule (1) macro, intro impI conjI; elim conjE)
    assume up: "list_all (\<lambda>p. stream_failure p = None) us" "length (host_bytes (unat len) us) = unat len" "IsINReady v"
    show "\<exists>t. receive_area area len (us @ v # rs) (s, d) = Some (Received ENDPOINT_RWCSTREAM_NoError, t, d)" if "unat len \<le> area_size area"
      using that up(1,3,2) by (rule receive_area_completes)
    show "\<exists>e. receive_macros bus macros len (us @ v # rs) (s, d) = Some (Received ENDPOINT_RWCSTREAM_NoError, s, e)"
      if "len \<noteq> 0" "unat len \<le> MACROS_SIZE"
      using that up(1,3,2) by (rule completes)
  qed
qed

theorem vendor_upload_roundtrip_witness:
  "\<exists>e packets f. EVENT_USB_Device_ControlRequest serial_bus 0x100 (vendor_out 17 3) [out_poll [2, 0], quiet_poll, out_poll [9], in_poll]
      (remapped_config, fresh_chip) = Some (Received ENDPOINT_RWCSTREAM_NoError, remapped_config, e)
    \<and> EVENT_USB_Device_ControlRequest serial_bus 0x100 (vendor_in 18 3) [quiet_poll, in_poll, out_poll []]
      (remapped_config, e\<lparr>chip := (bus_delay serial_bus ^^ busy (chip e)) (chip e)\<rparr>)
      = Some (Sent ENDPOINT_RWCSTREAM_NoError packets, remapped_config, f)
    \<and> concat packets = [2, 0, 9]"
proof -
  let ?us = "[out_poll [2, 0], quiet_poll, out_poll [9]]" and ?qs = "[quiet_poll, in_poll]" and ?s = remapped_config
  note polls = quiet_poll_def out_poll_def in_poll_def stream_failure_def bus_failure_def
  have c: "frame_bytes (chip fresh_chip) = None" "unat (0x100 :: u16) + MACROS_SIZE \<le> 0x8000"
    by (simp_all add: fresh_chip_def MACROS_SIZE_def)
  have q: "list_all quiet ?qs" "IsOUTReceived (out_poll [])" "packets_needed (unat (3 :: u16)) False \<le> length (filter IsINReady ?qs)"
    by (simp_all add: quiet_def polls packets_needed_def USB_Device_ControlEndpointSize_def)
  have u: "list_all (\<lambda>p. stream_failure p = None) ?us \<and> length (host_bytes (unat (3 :: u16)) ?us) = unat (3 :: u16) \<and> IsINReady in_poll"
    "host_bytes (unat (3 :: u16)) (?us @ [in_poll]) = [2, 0, 9]" by (simp_all add: polls)
  have l: "(3 :: u16) \<noteq> 0 \<and> unat (3 :: u16) \<le> MACROS_SIZE" by (simp add: MACROS_SIZE_def)
  note run = vendor_upload_roundtrip [OF serial.spi_eeprom_chip_axioms c q]
  from run [where us = ?us and v = in_poll and rs = "[]" and s = ?s, THEN conjunct2, THEN conjunct2, THEN mp, OF u(1), THEN conjunct2, THEN mp, OF l]
  obtain e where e: "EVENT_USB_Device_ControlRequest serial_bus 0x100 (vendor_out 17 3) (?us @ [in_poll]) (?s, fresh_chip)
      = Some (Received ENDPOINT_RWCSTREAM_NoError, ?s, e)" by blast
  have "(3 :: u16) \<noteq> 0 \<and> EVENT_USB_Device_ControlRequest serial_bus 0x100 (vendor_out 17 3) (?us @ [in_poll]) (?s, fresh_chip)
      = Some (Received ENDPOINT_RWCSTREAM_NoError, ?s, e)" using e by simp
  from run [where rs = "[]", THEN conjunct2, THEN conjunct1, THEN mp, OF this] e u(2) show ?thesis by auto
qed

end
