(* ===== verification/KeyboardCorrect.thy ===== *)
theory KeyboardCorrect
  imports UsbDeviceCorrect
begin

text \<open>
  The firmware as a transition system: the power-on states, the steps of the main loop, of its
  callbacks and of the host in any order, the reachable states, and the properties that hold in all of them.
\<close>

subsection \<open>Power on\<close>

text \<open>
  The static variables are zero. The EEPROM holds either no configuration, or one that an earlier run
  left: its numbers are in range and its table of layouts is well formed, but a host may have moved the
  layer and program keys in it.
\<close>

definition power_on :: "keyboard_state \<Rightarrow> bool" where
  "power_on s \<longleftrightarrow> keystate_change_hook_fn s = False \<and> key_press_count s = 0 \<and> layer s = normal_layer_t
     \<and> debounce_bitfields s = replicate MAX_DEBOUNCE_LEN (replicate BITFIELD_WORDS 0)
     \<and> debounced_bitfield s = replicate BITFIELD_WORDS 0
     \<and> current_state s = STATE_NORMAL \<and> next_state s = STATE_NORMAL \<and> new_debounce_len s = 0
     \<and> trigger_key s = replicate MACRO_MAX_KEYS 0 \<and> last_count s = 0 \<and> program_src_hkey s = 0
     \<and> recording_macro s = False \<and> adc_index s = 0 \<and> adc_rv s = replicate 20 0 \<and> length (vms s) = PROGRAM_COUNT
     \<and> (eeprom_sentinel_byte s \<noteq> EEPROM_SENTINEL \<or> config_ok False s)"

lemma no_keys_wf:
  assumes "config_ok fx s" "key_states s = replicate KEYSTATE_COUNT empty_key_state" "key_press_count s = 0"
    "debounce_bitfields s = replicate MAX_DEBOUNCE_LEN (replicate BITFIELD_WORDS 0)"
    "debounced_bitfield s = replicate BITFIELD_WORDS 0" "lid (layer s) \<le> 2"
  shows "keystate_wf s"
proof -
  have "slots_ok D (replicate KEYSTATE_COUNT empty_key_state)" for D
    by (simp add: slots_ok_def slots_mid_def slot_keys_def occupied_def empty_key_state_def)
  moreover have "down_now m (replicate KEYSTATE_COUNT empty_key_state) = 0" for m
    by (simp add: down_now_def empty_key_state_def)
  moreover have "k div 8 < BITFIELD_WORDS" if "k < 88" for k
    using that by (simp add: BITFIELD_WORDS_def KEYPAD_LAYER_SIZE_def BITFIELD_WORD_BITS_def less_mult_imp_div_less)
  then have "layer_keys (replicate BITFIELD_WORDS 0)" by (simp add: layer_keys_def get_bit_iff)
  ultimately show ?thesis
    using assms by (simp add: keystate_wf_def config_ok_def list_all_iff MAX_DEBOUNCE_LEN_def)
qed

lemma Keyboard_setup_inv:
  assumes "power_on s" "fx \<Longrightarrow> eeprom_sentinel_byte s \<noteq> EEPROM_SENTINEL \<or> config_ok True s"
  shows "kb_inv fx (Keyboard_setup s)"
proof -
  define a where "a = keystate_init (buzzer_init s)"
  define b where "b = config_init a"
  have m: "macro_state.more (buzzer_init s) = macro_state.more s" by (rule frame)
  note 1 = above_macro [OF m] and 2 = above_config [OF above_macro(1) [OF m]]
  have "eeprom_sentinel_byte s \<noteq> EEPROM_SENTINEL \<or> config_ok fx s" using assms by (cases fx) (auto simp: power_on_def)
  then have "eeprom_sentinel_byte a \<noteq> EEPROM_SENTINEL \<or> config_ok fx a"
    using 1 by (simp add: a_def keystate_init_def config_ok_def)
  then have c: "config_ok fx b" unfolding b_def by (rule config_ok_init)
  have k: "key_states a = replicate KEYSTATE_COUNT empty_key_state" "key_press_count a = 0" "layer a = normal_layer_t"
    "debounce_bitfields a = replicate MAX_DEBOUNCE_LEN (replicate BITFIELD_WORDS 0)"
    "debounced_bitfield a = replicate BITFIELD_WORDS 0"
    using assms(1) 2 by (simp_all add: power_on_def a_def keystate_init_def)
  have mb: "config_state.more b = config_state.more a" by (simp add: b_def frame)
  have "keystate_wf b"
    using k above_config [OF mb] by (intro no_keys_wf [OF c]) (simp_all add: normal_layer_t_def)
  then have "keys_ok fx b" by (simp add: keys_ok_def keystate_wf_slots)
  moreover have "control_ok fx (buzzer_init s)"
    using assms(1) control_ok_config [OF above_macro(1) [OF m]]
    by (simp add: power_on_def control_ok_def MAX_DEBOUNCE_LEN_def MACRO_MAX_KEYS_def SPECIAL_HID_KEY_NOREMAP_def SPECIAL_HID_KEY_LAYER_LOCK_def)
  then have "control_ok fx a" by (simp add: a_def keystate_init_def control_ok_def)
  then have "control_ok fx b" using control_ok_config [OF mb] by simp
  ultimately have "kb_inv fx b" using c by (simp add: kb_inv_def)
  then have "kb_inv fx (vm_init b)" by (simp add: vm_init_def kb_inv_vms)
  then show ?thesis by (simp add: Keyboard_setup_def Let_def a_def b_def)
qed

subsection \<open>Steps and reachable states\<close>

text \<open>
  A pass of the main loop with any key matrix and any answer of the light sensor; the timer; the USB
  driver that asks for reports, keeps the last one it sent, and reports LEDs and its own state; and any
  vendor request of the host that stays within its area of the storage, with any data. The macro storage
  is in the chip at the end of the SPI bus; after a request it holds whatever the chip holds. A step also
  says whether it left a layer or program key with another meaning than its default, which only a request
  of the host can do.
\<close>

inductive kb_step :: "bool \<Rightarrow> keyboard_state \<Rightarrow> keyboard_state \<Rightarrow> bool" where
  pass: "\<not> rebooted s \<Longrightarrow> Keyboard_pass matrix adc s = Some t \<Longrightarrow> kb_step False s t"
| millis: "kb_step False s (Update_Millis n s)"
| keyboard_report: "kb_step False s (snd (Fill_KeyboardReport r s))"
| mouse_report: "kb_step False s (snd (Fill_MouseReport mr s))"
| report_sent: "kb_step False s (s\<lparr>PrevKeyboardHIDReportBuffer := r\<rparr>)"
| led_report: "kb_step False s (Process_KeyboardLEDReport leds s)"
| usb_state: "kb_step False s (Update_USBState st s)"
| vendor: "EVENT_USB_Device_ControlRequest (bus :: serial_eeprom spi_bus) macros req polls (s, d) = Some (answer, t, e) \<Longrightarrow>
    kb_step (\<not> special_fixed (logical_to_hid_map t)) s (t\<lparr>macros_storage := m\<rparr>)"

text \<open>
  The reachable states, each with the record of whether the layer or program keys have been moved so far:
  by a request of the host in this run or, in the EEPROM, in an earlier one.
\<close>

inductive reachable :: "bool \<Rightarrow> keyboard_state \<Rightarrow> bool" where
  start: "power_on s \<Longrightarrow> reachable (eeprom_sentinel_byte s = EEPROM_SENTINEL \<and> \<not> config_ok True s) (Keyboard_setup s)"
| step: "reachable moved s \<Longrightarrow> kb_step moves s t \<Longrightarrow> reachable (moved \<or> moves) t"

lemma kb_inv_macros_storage [simp]: "kb_inv fx (s\<lparr>macros_storage := m\<rparr>) \<longleftrightarrow> kb_inv fx s"
  by (rule kb_inv_above) simp

lemma kb_step_inv: "kb_step moves s t \<Longrightarrow> kb_inv fx s \<Longrightarrow> kb_inv (fx \<and> \<not> moves) t"
proof (induction rule: kb_step.induct)
  case (pass s matrix adc t)
  then show ?case by (auto intro: Keyboard_pass_inv)
next
  case (vendor bus macros req polls s d answer t e m)
  then show ?case by (auto intro: vendor_request_inv)
next
  case (report_sent s r)
  then show ?case by (simp add: kb_inv_def config_ok_def keys_ok_def slots_wf_def control_ok_def)
qed (simp_all add: callbacks_inv Fill_KeyboardReport_inv Fill_MouseReport_inv)

lemma reachable_inv: "reachable moved s \<Longrightarrow> kb_inv (\<not> moved) s"
proof (induction rule: reachable.induct)
  case (start s)
  then show ?case by (auto intro: Keyboard_setup_inv)
next
  case (step moved s moves t)
  then show ?case using kb_step_inv [of moves s t "\<not> moved"] by simp
qed

subsection \<open>The pressed keys\<close>

lemma layers_notify_alike:
  assumes "l \<le> 2" "p < KEYPAD_LAYER_SIZE"
  shows "is_hid_key_to_notify_about (logical_to_hid_map_default ! (p + l * KEYPAD_LAYER_SIZE))
    \<longleftrightarrow> is_hid_key_to_notify_about (logical_to_hid_map_default ! p)"
proof -
  have "list_all (\<lambda>l. list_all (\<lambda>p. is_hid_key_to_notify_about (logical_to_hid_map_default ! (p + l * KEYPAD_LAYER_SIZE))
      \<longleftrightarrow> is_hid_key_to_notify_about (logical_to_hid_map_default ! p)) [0..<KEYPAD_LAYER_SIZE]) [0..<3]"
    by code_simp
  then show ?thesis using assms by (simp add: list_all_iff)
qed

lemma extract_notified:
  assumes "special_fixed (logical_to_hid_map s)" "lid l \<le> 2" "unat (p_key k) < KEYPAD_LAYER_SIZE"
  shows "is_hid_key_to_notify_about (extract_keycode l k HID s) \<longleftrightarrow> notified (logical_to_hid_map s) k"
proof -
  define n where "n = (if base l then 0 else lid l)"
  have n: "unat n \<le> 2" using assms(2) by (simp add: n_def word_le_nat_alt)
  define q where "q = p_key k + n * of_nat KEYPAD_LAYER_SIZE"
  have q: "unat q = unat (p_key k) + unat n * KEYPAD_LAYER_SIZE"
    using n assms(3) by (simp add: q_def unat_word_ariths KEYPAD_LAYER_SIZE_def)
  let ?k = "\<lambda>p. \<lparr>p_key = p, prev_state = True, state = True, hidden = False\<rparr>"
  have "notified (logical_to_hid_map s) (?k q) \<longleftrightarrow> is_hid_key_to_notify_about (default_hid q)"
    using q n assms(3) by (subst special_fixed_notified [OF assms(1)]) (simp_all add: NUM_LOGICAL_KEYS_def KEYPAD_LAYER_SIZE_def)
  also have "\<dots> \<longleftrightarrow> is_hid_key_to_notify_about (default_hid (p_key k))"
    unfolding q by (rule layers_notify_alike [OF n assms(3)])
  also have "\<dots> \<longleftrightarrow> notified (logical_to_hid_map s) k"
    using assms(3) special_fixed_notified [OF assms(1)] by (simp add: NUM_LOGICAL_KEYS_def)
  finally show ?thesis
    by (simp add: notified_def extract_keycode_def q_def n_def config_get_definition_def Let_def)
qed

lemma get_keys_bound:
  assumes "slots_wf s"
  shows "length (keystate_get_keys ty s) \<le> KEYSTATE_COUNT"
proof -
  have "length (key_states s) = KEYSTATE_COUNT" using assms by (simp add: slots_wf_def slots_ok_def slots_mid_def)
  moreover have "length (keystate_get_keys ty s) \<le> length (key_states s)"
    by (simp add: keystate_get_keys_def min.coboundedI1)
  ultimately show ?thesis by simp
qed

lemma get_keys_all:
  assumes "kb_inv True s"
  shows "keystate_get_keys ty s = map (\<lambda>k. extract_keycode (layer s) k ty s)
      (filter (\<lambda>k. state k \<and> notified (logical_to_hid_map s) k) (key_states s))"
    "length (keystate_get_keys ty s) = unat (key_press_count s)" "unat (key_press_count s) \<le> KEYSTATE_COUNT"
proof -
  have wf: "keystate_wf s" and sp: "special_fixed (logical_to_hid_map s)" "lid (layer s) \<le> 2"
    using assms by (simp_all add: kb_inv_def config_ok_def keys_ok_wf(2) keystate_wf_def)
  have f: "filter (\<lambda>k. state k \<and> is_hid_key_to_notify_about (extract_keycode (layer s) k HID s)) (key_states s)
      = filter (\<lambda>k. state k \<and> notified (logical_to_hid_map s) k) (key_states s)" (is "_ = ?ks")
    using extract_notified [OF sp] slot_key_small [OF keystate_wf_slotsD [OF wf]] by (intro filter_cong) auto
  have "length ?ks \<le> KEYSTATE_COUNT"
    using wf le_trans [OF length_filter_le] by (metis keystate_wf_def order_refl slots_mid_def slots_ok_def)
  moreover have "key_press_count s = of_nat (length ?ks)" using wf by (simp add: keystate_wf_def down_now_def)
  ultimately have c: "unat (key_press_count s) = length ?ks" "length ?ks \<le> KEYSTATE_COUNT"
    by (simp_all add: unat_of_nat KEYSTATE_COUNT_def)
  show "keystate_get_keys ty s = map (\<lambda>k. extract_keycode (layer s) k ty s) ?ks"
    unfolding keystate_get_keys_def f using c by simp
  then show "length (keystate_get_keys ty s) = unat (key_press_count s)" "unat (key_press_count s) \<le> KEYSTATE_COUNT"
    using c by simp_all
qed

subsection \<open>A sample keyboard\<close>

text \<open>Switched on with one key remapped and nothing pressed.\<close>

definition blank_vm :: vmstate where
  "blank_vm = \<lparr>vm_state = VMSTOPPED, delay_end_ms = 0, wait_key = 0, trigger_lkey = 0,
     keyboardreport = ExtraKeyboardReport_clear, mousereport = \<lparr>Button = 0, X = 0, Y = 0, VWheel = 0, HWheel = 0\<rparr>,
     vm_program = 0, code = 0, ip = 0, stack_top = 0, current_frame = 0, stack = replicate (nat STACK_SIZE) 0\<rparr>"

definition off_keystate :: keystate_state where
  "off_keystate = config_state.extend (config_state.truncate remapped_config)
     (keystate_state.fields (replicate KEYSTATE_COUNT empty_key_state) False 0 0 normal_layer_t normal_layer_t 0
        (replicate MAX_DEBOUNCE_LEN (replicate BITFIELD_WORDS 0)) (replicate BITFIELD_WORDS 0) (replicate BITFIELD_WORDS 0)
        0 0 0 0 0 0 0)"

definition off_board :: board_state where
  "off_board = interpreter_state.extend
     (keystate_state.extend (keystate_state.truncate off_keystate) (interpreter_state.fields (replicate PROGRAM_COUNT blank_vm) 0))
     (board_state.fields 0xFFFF 0xFFFF 0 0xFFFF 0xFFFF [] None None None None 0 (replicate 20 0) False 0)"

definition off_keyboard :: keyboard_state where
  "off_keyboard = board_state.extend (board_state.truncate off_board)
     (keyboard_state.fields STATE_NORMAL STATE_NORMAL 0 False 0 0 0 0 (replicate MACRO_MAX_KEYS 0) 0 False 0 0 0xFFFF False False)"

lemmas off_defs = off_keyboard_def off_board_def off_keystate_def board_state.defs keyboard_state.defs
  interpreter_state.defs keystate_state.defs config_state.defs remapped_config_def macro_state.defs

lemma off_keyboard_fields:
  "keystate_change_hook_fn off_keyboard = False" "key_press_count off_keyboard = 0" "layer off_keyboard = normal_layer_t"
  "debounce_bitfields off_keyboard = replicate MAX_DEBOUNCE_LEN (replicate BITFIELD_WORDS 0)"
  "debounced_bitfield off_keyboard = replicate BITFIELD_WORDS 0"
  "current_state off_keyboard = STATE_NORMAL" "next_state off_keyboard = STATE_NORMAL" "new_debounce_len off_keyboard = 0"
  "trigger_key off_keyboard = replicate MACRO_MAX_KEYS 0" "last_count off_keyboard = 0" "program_src_hkey off_keyboard = 0"
  "recording_macro off_keyboard = False" "adc_index off_keyboard = 0" "adc_rv off_keyboard = replicate 20 0"
  "vms off_keyboard = replicate PROGRAM_COUNT blank_vm"
  "debounce_len off_keyboard = 3" "mouse_div off_keyboard = 25" "wheel_div off_keyboard = 4"
  "eeprom_sentinel_byte off_keyboard = EEPROM_SENTINEL"
  "logical_to_hid_map off_keyboard = (\<lambda>l. config_get_default_definition l)(20 := 0x2A)"
  "saved_key_mapping_indices off_keyboard = replicate NUM_KEY_MAPPING_INDICES (NO_KEY, NO_KEY)"
  "key_states off_keyboard = replicate KEYSTATE_COUNT empty_key_state"
  by (simp_all add: off_defs)

lemma off_keyboard_config: "config_ok True off_keyboard"
proof -
  have d: "\<not> SPECIAL_HID_KEY_NOREMAP (config_get_default_definition 20)" "\<not> SPECIAL_HID_KEY_NOREMAP 0x2A" by code_simp+
  have "special_fixed (\<lambda>l. config_get_default_definition l)"
    by (rule special_fixed_default) (simp add: config_get_default_definition_def)
  then have "special_fixed ((\<lambda>l. config_get_default_definition l)(20 := 0x2A))"
    using d unfolding special_fixed_def
    by (metis (no_types, lifting) config_get_default_definition_def fun_upd_apply)
  then show ?thesis
    using layouts_ok_none by (simp add: config_ok_def off_keyboard_fields MAX_DEBOUNCE_LEN_def layout_def)
qed

lemma off_keyboard_power_on: "power_on off_keyboard"
  unfolding power_on_def using config_ok_mono [OF off_keyboard_config, of False] by (simp add: off_keyboard_fields)

lemma setup_reachable: "reachable False (Keyboard_setup off_keyboard)"
  using start [OF off_keyboard_power_on] off_keyboard_config by simp

lemma setup_inv: "kb_inv True (Keyboard_setup off_keyboard)"
  using reachable_inv [OF setup_reachable] by simp

subsection \<open>Properties of all reachable states\<close>

text \<open>
  C1: however the main loop, the timer, the USB driver and vendor requests of the host with any data are
  interleaved, in every state the firmware can be in the divisors of the mouse reports and the debounce
  length are not zero and the debounce length fits the ring; the slots are well formed; the pressed keys
  that are read fit the buffers of the state machine and are keys of the table; and the recording hook is
  registered exactly while a macro is recorded, which happens in its state only. As long as neither an
  earlier nor the present run let the host move the layer and program keys, moreover, the count of pressed
  keys agrees with the slots, reading the keys yields exactly \<open>key_press_count\<close> of them, so that the buffers
  are filled, and the layer and program keys keep their default meaning, whatever is remapped, loaded or
  reset with the keyboard and whatever else the host writes.
\<close>

theorem reachable_states_safe:
  assumes "reachable moved s"
  shows "0 < config_get_mouse_div s \<and> 0 < config_get_wheel_div s
    \<and> 0 < config_get_debounce_len s \<and> unat (config_get_debounce_len s) \<le> MAX_DEBOUNCE_LEN
    \<and> slots_wf s
    \<and> length (keystate_get_keys LOGICAL s) \<le> unat (key_press_count s) \<and> length (keystate_get_keys LOGICAL s) \<le> KEYSTATE_COUNT
    \<and> (\<forall>k\<in>set (keystate_get_keys LOGICAL s). unat k < NUM_LOGICAL_KEYS)
    \<and> (keystate_change_hook_fn s \<longleftrightarrow> recording_macro s)
    \<and> (recording_macro s \<longrightarrow> current_state s = STATE_MACRO_RECORD)
    \<and> (\<not> moved \<longrightarrow> keystate_wf s
      \<and> length (keystate_get_keys LOGICAL s) = unat (key_press_count s) \<and> unat (key_press_count s) \<le> KEYSTATE_COUNT
      \<and> (\<forall>k. unat k < NUM_LOGICAL_KEYS \<longrightarrow> SPECIAL_HID_KEY_NOREMAP (config_get_default_definition k) \<longrightarrow>
          config_get_definition k s = config_get_default_definition k))"
proof -
  have i: "kb_inv (\<not> moved) s" by (rule reachable_inv [OF assms])
  then have wf: "slots_wf s" unfolding kb_inv_def by (blast intro: keys_ok_wf(1))
  have "keystate_wf s \<and> length (keystate_get_keys LOGICAL s) = unat (key_press_count s) \<and> unat (key_press_count s) \<le> KEYSTATE_COUNT
      \<and> (\<forall>k. unat k < NUM_LOGICAL_KEYS \<longrightarrow> SPECIAL_HID_KEY_NOREMAP (config_get_default_definition k) \<longrightarrow>
          config_get_definition k s = config_get_default_definition k)" if "\<not> moved"
  proof -
    have i: "kb_inv True s" using i that by simp
    then have "special_fixed (logical_to_hid_map s)" by (simp add: kb_inv_def config_ok_def)
    then have "config_get_definition k s = config_get_default_definition k"
      if "unat k < NUM_LOGICAL_KEYS" "SPECIAL_HID_KEY_NOREMAP (config_get_default_definition k)" for k
      using that unfolding special_fixed_def config_get_definition_def config_get_default_definition_def by metis
    then show ?thesis using i get_keys_all(2) [OF i, of LOGICAL] get_keys_all(3) [OF i] by (simp add: kb_inv_def keys_ok_wf(2))
  qed
  then show ?thesis
    using i wf get_keys_length [of LOGICAL s] get_keys_bound [OF wf, of LOGICAL] get_keys_small [OF wf]
    by (simp add: kb_inv_def config_ok_def control_ok_def config_get_mouse_div_def config_get_wheel_div_def
        config_get_debounce_len_def)
qed

theorem reachable_states_safe_witness:
  "reachable False (Update_Millis 1 (Keyboard_setup off_keyboard))
   \<and> 0 < config_get_mouse_div (Update_Millis 1 (Keyboard_setup off_keyboard))
   \<and> config_get_definition 0 (Update_Millis 1 (Keyboard_setup off_keyboard)) = config_get_default_definition 0"
proof -
  have r: "reachable False (Update_Millis 1 (Keyboard_setup off_keyboard))"
    using step [OF setup_reachable millis] by simp
  have "unat (0 :: u8) < NUM_LOGICAL_KEYS" "SPECIAL_HID_KEY_NOREMAP (config_get_default_definition 0)" by code_simp+
  then show ?thesis using reachable_states_safe [OF r] r by blast
qed

text \<open>
  Why the count of pressed keys depends on the host: a scan changes the count by the keys it sees change, so
  a count that a new meaning of a held key has made wrong stays wrong by the same amount.
\<close>

lemma wrong_count_stays_wrong:
  assumes "slots_wf s" and "t = keystate_update macro_record_hook matrix s"
  shows "key_press_count t - of_nat (down_now (logical_to_hid_map s) (key_states t))
    = key_press_count s - of_nat (down_now (logical_to_hid_map s) (key_states s))"
  unfolding assms(2) by (rule record_hook.keystate_update_count [OF assms(1)])

subsection \<open>Scanning and debouncing\<close>

text \<open>
  The scans the ring holds, as sets of keys, and the debouncing they stand for: a key goes down when
  all scans have it, goes up when none has it, and otherwise stays as it was.
\<close>

definition scans :: "'a keystate_state_scheme \<Rightarrow> nat set list" where
  "scans s = map (\<lambda>i. {k. k < 88 \<and> get_bit (debounce_bitfields s ! i) k}) [0..<unat (debounce_len s)]"

definition keys_of :: "(nat \<Rightarrow> nat \<Rightarrow> bool) \<Rightarrow> nat set" where
  "keys_of matrix = {k. k < 88 \<and> reads matrix k}"

definition debounce_spec :: "nat set list \<Rightarrow> nat set \<Rightarrow> nat set" where
  "debounce_spec hist D = {k. (\<forall>h\<in>set hist. k \<in> h) \<or> k \<in> D \<and> (\<exists>h\<in>set hist. k \<in> h)}"

lemma debounce_refines:
  assumes wf: "keystate_wf s" and t: "t = keystate_update macro_record_hook matrix s"
  shows "active_debounce_index t = (active_debounce_index s + 1) mod unat (debounce_len s)"
    and "scans t = (scans s)[active_debounce_index t := keys_of matrix]"
    and "debounced t = debounce_spec (scans t) (debounced s)"
proof -
  note e = record_hook.keystate_update_effect [OF keystate_wf_slotsD [OF wf], of matrix, folded t]
  have pos: "0 < config_get_debounce_len s" "unat (debounce_len s) \<le> length (debounce_bitfields s)" "0 < unat (debounce_len s)"
    using wf by (simp_all add: keystate_wf_def config_get_debounce_len_def word_less_nat_alt)
  show a: "active_debounce_index t = (active_debounce_index s + 1) mod unat (debounce_len s)"
    by (simp add: e(8) debounce_matrix_frame)
  have "{k. k < 88 \<and> get_bit (scan_matrix matrix) k} = keys_of matrix"
    using scan_matrix_bit by (auto simp: keys_of_def)
  then show sc: "scans t = (scans s)[active_debounce_index t := keys_of matrix]"
    unfolding scans_def a e(5) using pos
    by (intro nth_equalityI) (auto simp: e(4) debounce_matrix_frame nth_list_update)
  have "k \<in> debounced t \<longleftrightarrow> k \<in> debounce_spec (scans t) (debounced s)" for k
  proof (cases "k < 88")
    case True
    have "get_bit (debounced_bitfield t) k \<longleftrightarrow>
      (if \<forall>i < unat (debounce_len s). get_bit (debounce_bitfields t ! i) k then True
       else if \<forall>i < unat (debounce_len s). \<not> get_bit (debounce_bitfields t ! i) k then False
       else get_bit (debounced_bitfield s) k)"
      unfolding e(3,4) by (rule debounce_matrix_bits(1) [OF True pos(1), unfolded config_get_debounce_len_def])
    then show ?thesis using True unfolding debounced_def debounce_spec_def scans_def e(5) by auto
  next
    case False
    then show ?thesis using pos(3) unfolding debounced_def debounce_spec_def scans_def e(5) by auto
  qed
  then show "debounced t = debounce_spec (scans t) (debounced s)" by blast
qed

text \<open>
  C2: \<open>keystate_update\<close> implements the debouncing of sets of keys, with the hook of the keyboard
  registered or not. The new scan replaces the oldest one; a key is down when all of the last
  \<open>debounce_len\<close> scans had it, up when none had, and unchanged otherwise; the slots hold only keys that
  are down, keep every key that stays down, and hold all of them as long as no more than the fourteen
  slots are needed.
\<close>

theorem keystate_update_refines_debouncing:
  assumes wf: "keystate_wf s" and t: "t = keystate_update macro_record_hook matrix s"
  shows "keystate_wf t
    \<and> scans t = (scans s)[(active_debounce_index s + 1) mod unat (config_get_debounce_len s) := keys_of matrix]
    \<and> debounced t = debounce_spec (scans t) (debounced s)
    \<and> pressed t \<subseteq> debounced t \<and> pressed s \<inter> debounced t \<subseteq> pressed t
    \<and> (pressed s = debounced s \<and> card (debounced s \<union> debounced t) \<le> KEYSTATE_COUNT \<longrightarrow> pressed t = debounced t)"
  using record_hook.keystate_update_wf [OF wf, of matrix] record_hook.keystate_update_pressed [OF keystate_wf_slotsD [OF wf], of matrix]
    debounce_refines [OF wf t] by (simp add: t config_get_debounce_len_def)

theorem keystate_update_refines_debouncing_witness:
  "let s = Keyboard_setup off_keyboard; t = keystate_update macro_record_hook (\<lambda>row col. True) s in
     keystate_wf t \<and> pressed t \<subseteq> debounced t \<and> debounced t = debounce_spec (scans t) (debounced s)"
proof -
  have "keystate_wf (Keyboard_setup off_keyboard)"
    using setup_inv by (simp add: kb_inv_def keys_ok_wf(2))
  then show ?thesis unfolding Let_def using keystate_update_refines_debouncing [OF _ refl] by blast
qed

text \<open>
  C9: debouncing ends. After as many consecutive scans that agree on a key as the debounce length, the
  key is down if they read it closed and up if they read it open, whatever was there before.
\<close>

theorem debounce_settles:
  assumes "keystate_wf s" and "length ms = unat (config_get_debounce_len s)" and "k < KEYPAD_LAYER_SIZE"
    and "\<forall>m\<in>set ms. reads m k \<longleftrightarrow> v"
  shows "k \<in> debounced (fold (keystate_update macro_record_hook) ms s) \<longleftrightarrow> v"
  using record_hook.updates_debounce [OF keystate_wf_slotsD [OF assms(1)] _ _ assms(4)] assms(2,3)
  by (simp add: config_get_debounce_len_def KEYPAD_LAYER_SIZE_def)

theorem debounce_settles_witness:
  "let s = Keyboard_setup off_keyboard in
     20 \<in> debounced (fold (keystate_update macro_record_hook) (replicate 3 (\<lambda>row col. True)) s)"
proof -
  have wf: "keystate_wf (Keyboard_setup off_keyboard)"
    using setup_inv by (simp add: kb_inv_def keys_ok_wf(2))
  have "macro_state.more (buzzer_init off_keyboard) = macro_state.more off_keyboard" by (rule frame)
  note f = above_macro [OF this]
  have len: "config_get_debounce_len (Keyboard_setup off_keyboard) = 3"
    using f by (simp add: Keyboard_setup_def vm_init_def keystate_init_def config_init_def config_get_debounce_len_def
        off_keyboard_fields Let_def)
  have "\<exists>row < MATRIX_ROWS. \<exists>col < MATRIX_COLS. matrix_to_logical_map ! row ! col = 20"
  proof -
    have "list_ex (\<lambda>row. list_ex (\<lambda>col. matrix_to_logical_map ! row ! col = 20) [0..<MATRIX_COLS]) [0..<MATRIX_ROWS]"
      by code_simp
    then show ?thesis unfolding list_ex_iff set_upt by (meson atLeastLessThan_iff)
  qed
  then have "reads (\<lambda>row col. True) 20" by (fastforce simp: reads_def)
  then show ?thesis
    using debounce_settles [OF wf, of "replicate 3 (\<lambda>row col. True)" 20 True] len by (simp add: KEYPAD_LAYER_SIZE_def)
qed

end
