(* ===== verification/PanelCorrect.thy ===== *)
theory PanelCorrect
  imports KeyboardCorrect
begin

text \<open>
  What the panel shows. The LCD is read as a screen: a text is written from the cursor on, and the cursor
  moves behind it. \<open>set_all_leds\<close> rewrites only what changed; it is shown that the screen and the LEDs
  always correspond to the mask, the light value and the number it was given last, and what that means for
  the user: layer, locks and mode of the keyboard.
\<close>

type_synonym screen = "(nat \<times> nat) \<times> (nat \<Rightarrow> nat \<Rightarrow> char)"

fun lcd_exec :: "lcd_op \<Rightarrow> screen \<Rightarrow> screen" where
  "lcd_exec (lcd_set_position row col) (cursor, scr) = ((row, col), scr)"
| "lcd_exec (lcd_print txt) ((row, col), scr) = ((row, col + length txt),
     scr(row := \<lambda>x. if col \<le> x \<and> x < col + length txt then txt ! (x - col) else scr row x))"

definition screen_of :: "lcd_op list \<Rightarrow> screen" where
  "screen_of ops = fold lcd_exec ops ((0, 0), \<lambda>row col. CHR '' '')"

definition lcd_line :: "'a board_state_scheme \<Rightarrow> nat \<Rightarrow> string" where
  "lcd_line s row = map (snd (screen_of (lcd s)) row) [0..<8]"

text \<open>The panel for a mask: two lines and the LEDs, each off or lit for a light value.\<close>

definition lit_leds :: "u8 \<Rightarrow> u16 \<Rightarrow> u16 option list" where
  "lit_leds m lux = map (\<lambda>on. if on then Some lux else None)
     [m AND LED_CAPS \<noteq> 0, m AND LED_NUM \<noteq> 0, m AND LED_SCROLL \<noteq> 0, m AND LED_KEYPAD \<noteq> 0 \<or> m AND LED_FUNCTION \<noteq> 0]"

definition leds :: "'a board_state_scheme \<Rightarrow> u16 option list" where
  "leds s = [red_led s, yellow_led s, green_led s, blue_led s]"

definition displays :: "u8 \<Rightarrow> u16 \<Rightarrow> u16 \<Rightarrow> 'a board_state_scheme \<Rightarrow> bool" where
  "displays m lux num s \<longleftrightarrow> lcd_line s 0 = layer_name m
     \<and> lcd_line s 1 = lock_message m @ tag_message (m AND 0xE0) (s\<lparr>sLuxValToShowOnLcd := lux, sNumberToShowOnLcd := num\<rparr>)
     \<and> leds s = lit_leds m lux"

text \<open>The masks that carry a USB status have all the tag bits set; they only replace the first line.\<close>

definition panel_ok :: "'a board_state_scheme \<Rightarrow> bool" where
  "panel_ok s \<longleftrightarrow> (prev_led_mask s AND 0xE0 \<noteq> 0xE0 \<longrightarrow> displays (prev_led_mask s) (prev_lux_val s) (prev_num_val s) s)"

text \<open>What \<open>set_all_leds\<close> has shown last.\<close>

definition remembered :: "u8 \<Rightarrow> 'a board_state_scheme \<Rightarrow> 'a board_state_scheme \<Rightarrow> bool" where
  "remembered m s t \<longleftrightarrow> prev_led_mask t = m \<and> prev_lux_val t = sLuxValToShowOnLcd s \<and> prev_num_val t = sNumberToShowOnLcd s
     \<and> sLuxValToShowOnLcd t = sLuxValToShowOnLcd s \<and> sNumberToShowOnLcd t = sNumberToShowOnLcd s"

subsection \<open>Texts have the size of their fields\<close>

lemma layer_name_length: "length (layer_name m) = 8"
  by (simp add: layer_name_def)

lemma lock_message_length: "length (lock_message m) = 4"
  by (simp add: lock_message_def Let_def)

lemma usb_message_length: "length (usb_message m) = 8"
  by (simp add: usb_message_def)

lemma uitoa_short: "unat x \<le> 9999 \<Longrightarrow> length (uitoa x) \<le> 4"
  using uitoa_loop_length [of "unat x" 3 "[]"] by (simp add: uitoa_def)

lemma get_lux_str_length: "length (get_lux_str l) = 4"
proof -
  have "length (uitoa l) \<le> 4" if "0 \<le> sint l" "sint l \<le> 9999"
  proof (rule uitoa_short)
    have "uint l = sint l" using that unfolding uint_sint [of l] by (simp add: take_bit_int_eq_self)
    then show "unat l \<le> 9999" using that(2) uint_nat [of l] by linarith
  qed
  then show ?thesis by (simp add: get_lux_str_def Let_def)
qed

lemma tag_message_length: "length (tag_message g s) = 4"
  by (simp add: tag_message_def get_lux_str_length)

lemma tag_message_board: "sLuxValToShowOnLcd s = sLuxValToShowOnLcd t \<Longrightarrow> sNumberToShowOnLcd s = sNumberToShowOnLcd t \<Longrightarrow>
    tag_message g s = tag_message g t"
  by (simp add: tag_message_def)

subsection \<open>Writing on the screen\<close>

lemma screen_out: "screen_of (ops @ ops') = fold lcd_exec ops' (screen_of ops)"
  by (simp add: screen_of_def)

lemma lcd_out_simps [simp]:
  "lcd (lcd_out ops s) = lcd s @ ops" "leds (lcd_out ops s) = leds s" "tag_message g (lcd_out ops s) = tag_message g s"
  "remembered m q (lcd_out ops s) = remembered m q s"
  by (simp_all add: lcd_out_def leds_def tag_message_def remembered_def)

lemma update_leds_simps [simp]:
  "lcd (update_leds m s) = lcd s" "leds (update_leds m s) = lit_leds m (sLuxValToShowOnLcd s)"
  "tag_message g (update_leds m s) = tag_message g s" "remembered k q (update_leds m s) = remembered k q s"
  by (simp_all add: update_leds_def Let_def leds_def lit_leds_def tag_message_def remembered_def)

lemma prev_simps [simp]:
  "leds (s\<lparr>prev_led_mask := m\<rparr>) = leds s" "leds (s\<lparr>prev_lux_val := x\<rparr>) = leds s" "leds (s\<lparr>prev_num_val := x\<rparr>) = leds s"
  "tag_message g (s\<lparr>prev_led_mask := m\<rparr>) = tag_message g s" "tag_message g (s\<lparr>prev_lux_val := x\<rparr>) = tag_message g s"
  "tag_message g (s\<lparr>prev_num_val := x\<rparr>) = tag_message g s"
  by (simp_all add: leds_def tag_message_def)

lemma line_eq: "length txt = 8 \<Longrightarrow> (\<And>i. i < 8 \<Longrightarrow> f i = txt ! i) \<Longrightarrow> map f [0..<8] = txt"
  by (intro nth_equalityI) auto

text \<open>The whole panel rewritten, and the last four characters only.\<close>

lemma lines_rewritten:
  assumes "length a = 8" "length b = 4" "length c = 4"
    "lcd t = lcd s @ [lcd_set_position 0 0, lcd_print a, lcd_set_position 1 0, lcd_print b, lcd_print c]"
  shows "lcd_line t 0 = a" "lcd_line t 1 = b @ c"
proof -
  obtain cur scr where scr: "screen_of (lcd s) = (cur, scr)" by fastforce
  show "lcd_line t 0 = a" "lcd_line t 1 = b @ c"
    unfolding lcd_line_def assms(4) screen_out scr using assms(1-3) by (intro line_eq; auto simp: nth_append)+
qed

lemma line_end_rewritten:
  assumes "length c = 4" "lcd t = lcd s @ [lcd_set_position 1 4, lcd_print c]"
  shows "lcd_line t 0 = lcd_line s 0" "lcd_line t 1 = take 4 (lcd_line s 1) @ c"
proof -
  obtain cur scr where scr: "screen_of (lcd s) = (cur, scr)" by fastforce
  show "lcd_line t 0 = lcd_line s 0" unfolding lcd_line_def assms(2) screen_out scr using assms(1) by simp
  show "lcd_line t 1 = take 4 (lcd_line s 1) @ c"
    unfolding lcd_line_def assms(2) screen_out scr using assms(1) by (intro line_eq) (auto simp: nth_append)
qed

lemma first_line_rewritten:
  assumes "length a = 8" "lcd t = lcd s @ [lcd_set_position 0 0, lcd_print a]"
  shows "lcd_line t 0 = a"
proof -
  obtain cur scr where scr: "screen_of (lcd s) = (cur, scr)" by fastforce
  show ?thesis unfolding lcd_line_def assms(2) screen_out scr using assms(1) by (intro line_eq) auto
qed

subsection \<open>The three ways through \<open>set_all_leds\<close>\<close>

lemma status_shown:
  assumes "m \<noteq> prev_led_mask s" "m \<noteq> LEDMASK_NOP" "m AND 0xE0 = 0xE0"
  shows "remembered m s (set_all_leds m s) \<and> lcd_line (set_all_leds m s) 0 = usb_message m"
proof -
  have "lcd (set_all_leds m s) = lcd s @ [lcd_set_position 0 0, lcd_print (usb_message m)]"
    using assms by (simp add: set_all_leds_def Let_def lcd_print_position_def)
  moreover have "remembered m s (set_all_leds m s)"
    using assms by (simp add: set_all_leds_def Let_def lcd_print_position_def) (simp add: remembered_def)
  ultimately show ?thesis using first_line_rewritten [OF usb_message_length] by blast
qed

lemma mask_shown:
  assumes "m \<noteq> prev_led_mask s" "m \<noteq> LEDMASK_NOP" "m AND 0xE0 \<noteq> 0xE0"
  shows "remembered m s (set_all_leds m s) \<and> displays m (sLuxValToShowOnLcd s) (sNumberToShowOnLcd s) (set_all_leds m s)"
proof -
  let ?t = "set_all_leds m s"
  have lcd: "lcd ?t = lcd s @ [lcd_set_position 0 0, lcd_print (layer_name m), lcd_set_position 1 0,
      lcd_print (lock_message m), lcd_print (tag_message (m AND 0xE0) s)]"
    using assms by (simp add: set_all_leds_def Let_def lcd_print_position_def)
  have "remembered m s ?t"
    using assms by (simp add: set_all_leds_def Let_def lcd_print_position_def) (simp add: remembered_def)
  moreover have "leds ?t = lit_leds m (sLuxValToShowOnLcd s)"
    using assms by (simp add: set_all_leds_def Let_def lcd_print_position_def)
  moreover have "tag_message (m AND 0xE0) (?t\<lparr>sLuxValToShowOnLcd := sLuxValToShowOnLcd s, sNumberToShowOnLcd := sNumberToShowOnLcd s\<rparr>)
      = tag_message (m AND 0xE0) s" by (rule tag_message_board) simp_all
  ultimately show ?thesis
    using lines_rewritten [OF layer_name_length lock_message_length tag_message_length lcd] by (simp add: displays_def)
qed

lemma values_shown:
  assumes "m = prev_led_mask s \<or> m = LEDMASK_NOP" "panel_ok s"
  shows "remembered (prev_led_mask s) s (set_all_leds m s) \<and> panel_ok (set_all_leds m s)"
proof (cases "sLuxValToShowOnLcd s = prev_lux_val s \<and> sNumberToShowOnLcd s = prev_num_val s")
  case True
  then show ?thesis using assms by (auto simp: set_all_leds_def Let_def remembered_def)
next
  case False
  let ?t = "set_all_leds m s" and ?p = "prev_led_mask s"
  have lcd: "lcd ?t = lcd s @ [lcd_set_position 1 4, lcd_print (tag_message (?p AND 0xE0) s)]"
    using assms(1) False by (auto simp: set_all_leds_def Let_def)
  have r: "remembered ?p s ?t"
    using assms(1) False by (auto simp: set_all_leds_def Let_def) (simp_all add: remembered_def)
  have "leds ?t = (if sLuxValToShowOnLcd s = prev_lux_val s then leds s else lit_leds ?p (sLuxValToShowOnLcd s))"
    using assms(1) False by (auto simp: set_all_leds_def Let_def)
  moreover have "tag_message (?p AND 0xE0) (?t\<lparr>sLuxValToShowOnLcd := sLuxValToShowOnLcd s, sNumberToShowOnLcd := sNumberToShowOnLcd s\<rparr>)
      = tag_message (?p AND 0xE0) s" by (rule tag_message_board) simp_all
  ultimately show ?thesis
    using r assms(2) line_end_rewritten [OF tag_message_length lcd] lock_message_length [of ?p]
    by (auto simp: panel_ok_def displays_def remembered_def)
qed

subsection \<open>The mask of the keyboard\<close>

definition mode_tag :: "'a keyboard_state_scheme \<Rightarrow> u8" where
  "mode_tag s = (case current_state s of
     STATE_PROGRAMMING_SRC \<Rightarrow> LEDMASK_PROGRAMMING_SRC | STATE_PROGRAMMING_DST \<Rightarrow> LEDMASK_PROGRAMMING_DST
   | STATE_MACRO_RECORD_TRIGGER \<Rightarrow> LEDMASK_MACRO_TRIGGER | STATE_MACRO_RECORD \<Rightarrow> LEDMASK_MACRO_RECORD
   | _ \<Rightarrow> if programs_enabled (config_get_flags s) then LEDMASK_PROGRAMS_ENABLED
         else if macros_enabled (config_get_flags s) then LEDMASK_MACROS_ENABLED else 0)"

lemma mode_tag_cases: "mode_tag s \<in> {0, 0x20, 0x40, 0x60, 0x80, 0xA0, 0xC0}"
  by (auto simp: mode_tag_def led_masks split: kb_state.splits)

lemma mask_fields:
  shows "led_mask_of s AND 0xE0 = mode_tag s"
    "led_mask_of s AND LED_KEYPAD \<noteq> 0 \<longleftrightarrow> keystate_get_layer_id s = 1"
    "led_mask_of s AND LED_FUNCTION \<noteq> 0 \<longleftrightarrow> keystate_get_layer_id s = 2"
    "led_mask_of s AND LED_CAPS \<noteq> 0 \<longleftrightarrow> USB_LEDReport s AND 2 \<noteq> 0"
    "led_mask_of s AND LED_NUM \<noteq> 0 \<longleftrightarrow> USB_LEDReport s AND 1 \<noteq> 0"
    "led_mask_of s AND LED_SCROLL \<noteq> 0 \<longleftrightarrow> USB_LEDReport s AND 4 \<noteq> 0"
proof -
  have m: "led_mask_of s = (if keystate_get_layer_id s = 1 then 8 else if keystate_get_layer_id s = 2 then 16 else 0) OR mode_tag s
      OR (if USB_LEDReport s AND 1 \<noteq> 0 then 2 else 0) OR (if USB_LEDReport s AND 2 \<noteq> 0 then 1 else 0)
      OR (if USB_LEDReport s AND 4 \<noteq> 0 then 4 else 0)"
    unfolding led_mask_of_def Let_def mode_tag_def LED_KEYPAD_def LED_FUNCTION_def LED_NUM_def LED_CAPS_def LED_SCROLL_def
    by (rule refl)
  note eval = m bit.conj_disj_distrib2 if_distrib [where f = "\<lambda>x. x AND _"] led_masks
  have t: "mode_tag s AND 0xE0 = mode_tag s" "mode_tag s AND 8 = 0" "mode_tag s AND 16 = 0" "mode_tag s AND 1 = 0"
    "mode_tag s AND 2 = 0" "mode_tag s AND 4 = 0"
    using mode_tag_cases [of s] by auto
  show "led_mask_of s AND 0xE0 = mode_tag s"
    "led_mask_of s AND LED_KEYPAD \<noteq> 0 \<longleftrightarrow> keystate_get_layer_id s = 1"
    "led_mask_of s AND LED_FUNCTION \<noteq> 0 \<longleftrightarrow> keystate_get_layer_id s = 2"
    "led_mask_of s AND LED_CAPS \<noteq> 0 \<longleftrightarrow> USB_LEDReport s AND 2 \<noteq> 0"
    "led_mask_of s AND LED_NUM \<noteq> 0 \<longleftrightarrow> USB_LEDReport s AND 1 \<noteq> 0"
    "led_mask_of s AND LED_SCROLL \<noteq> 0 \<longleftrightarrow> USB_LEDReport s AND 4 \<noteq> 0"
    by (simp_all add: eval t)
qed

lemma mask_not_status: "led_mask_of s AND 0xE0 \<noteq> 0xE0" "led_mask_of s \<noteq> LEDMASK_NOP"
proof -
  show t: "led_mask_of s AND 0xE0 \<noteq> 0xE0" unfolding mask_fields using mode_tag_cases [of s] by auto
  show "led_mask_of s \<noteq> LEDMASK_NOP" using t by (auto simp: LEDMASK_NOP_def)
qed

lemma ledstate_displays:
  assumes "panel_ok s \<or> led_mask_of s \<noteq> prev_led_mask s"
  shows "displays (led_mask_of s) (sLuxValToShowOnLcd s) (sNumberToShowOnLcd s) (ledstate_update s)
    \<and> remembered (led_mask_of s) s (ledstate_update s)"
proof (cases "led_mask_of s = prev_led_mask s")
  case True
  then show ?thesis using values_shown [of "led_mask_of s" s] assms mask_not_status [of s]
    by (auto simp: ledstate_update_def panel_ok_def remembered_def)
next
  case False
  then show ?thesis using mask_shown [OF False mask_not_status(2,1)] by (simp add: ledstate_update_def)
qed

lemma panel_ok_values: "panel_ok (s\<lparr>sNumberToShowOnLcd := x\<rparr>) = panel_ok s"
  by (simp add: panel_ok_def displays_def lcd_line_def leds_def)

subsection \<open>Properties\<close>

definition lock_text :: "'a keyboard_state_scheme \<Rightarrow> string" where
  "lock_text s =
     (let l = (if USB_LEDReport s AND 2 \<noteq> 0 then ''C'' else []) @ (if USB_LEDReport s AND 1 \<noteq> 0 then ''N'' else [])
              @ (if USB_LEDReport s AND 4 \<noteq> 0 then ''S'' else [])
      in l @ replicate (3 - length l) CHR '' '')"

definition mode_text :: "'a keyboard_state_scheme \<Rightarrow> string" where
  "mode_text s = (case current_state s of
     STATE_PROGRAMMING_SRC \<Rightarrow> '' Src?'' | STATE_PROGRAMMING_DST \<Rightarrow> '' Dst?''
   | STATE_MACRO_RECORD_TRIGGER \<Rightarrow> '' Trg?'' | STATE_MACRO_RECORD \<Rightarrow> '' Rec?''
   | _ \<Rightarrow> (if programs_enabled (config_get_flags s) then CHR ''Q'' else if macros_enabled (config_get_flags s) then CHR ''q'' else CHR '' '')
         # get_lux_str (if sNumberToShowOnLcd s \<noteq> 0xFFFF then sNumberToShowOnLcd s else sLuxValToShowOnLcd s))"

lemma second_line: "lock_message (led_mask_of s) @ tag_message (led_mask_of s AND 0xE0) s = lock_text s @ mode_text s"
proof -
  let ?q = "if mode_tag s = LEDMASK_PROGRAMS_ENABLED then ''Q'' else if mode_tag s = LEDMASK_MACROS_ENABLED then ''q'' else '' ''"
  have "lock_message (led_mask_of s) = lock_text s @ ?q"
    unfolding lock_message_def Let_def mask_fields lock_text_def by (simp only: append_assoc)
  moreover have "?q @ tag_message (mode_tag s) s = mode_text s"
    by (cases "current_state s") (simp_all add: mode_text_def mode_tag_def tag_message_def led_masks)
  ultimately show ?thesis by (simp only: mask_fields append_assoc)
qed

text \<open>
  C19: the panel shows the state of the keyboard. Once the panel is in step, or the mask of the LEDs has
  changed, \<open>ledstate_update\<close> leaves the name of the active layer in the first line, in the second line
  the locks the host reported, whether macros and programs are enabled, and the step of a remapping or
  recording or else the number to show or the light value, and lights exactly the LEDs of the locks and
  of a layer that is not the normal one. Showing a number keeps the panel in step, and so does a new USB
  status, which appears in the first line.
\<close>

theorem panel_shows_keyboard:
  assumes "panel_ok s \<or> led_mask_of s \<noteq> prev_led_mask s"
  shows "panel_ok (ledstate_update s)
    \<and> lcd_line (ledstate_update s) 0 = (if keystate_get_layer_id s = 1 then ''Keypad  ''
        else if keystate_get_layer_id s = 2 then ''Function'' else ''Normal  '')
    \<and> lcd_line (ledstate_update s) 1 = lock_text s @ mode_text s
    \<and> leds (ledstate_update s) = map (\<lambda>on. if on then Some (sLuxValToShowOnLcd s) else None)
        [USB_LEDReport s AND 2 \<noteq> 0, USB_LEDReport s AND 1 \<noteq> 0, USB_LEDReport s AND 4 \<noteq> 0,
         keystate_get_layer_id s = 1 \<or> keystate_get_layer_id s = 2]
    \<and> panel_ok (set_number_to_show_on_lcd x (ledstate_update s))
    \<and> panel_ok (Update_USBState st (ledstate_update s))
    \<and> lcd_line (Update_USBState st (ledstate_update s)) 0 = (case st of NOTREADY \<Rightarrow> ''Usb Wait''
        | ENUMERATING \<Rightarrow> ''Usb Enum'' | READY \<Rightarrow> ''Usb OK  '' | ERROR \<Rightarrow> ''Usb Err '')"
proof -
  let ?t = "ledstate_update s" and ?m = "led_mask_of s"
  have d: "displays ?m (sLuxValToShowOnLcd s) (sNumberToShowOnLcd s) ?t" "remembered ?m s ?t"
    using ledstate_displays [OF assms] by auto
  have tag: "tag_message (?m AND 0xE0) (?t\<lparr>sLuxValToShowOnLcd := sLuxValToShowOnLcd s, sNumberToShowOnLcd := sNumberToShowOnLcd s\<rparr>)
      = tag_message (?m AND 0xE0) s" by (rule tag_message_board) simp_all
  have ok: "panel_ok ?t" using d by (simp add: panel_ok_def remembered_def)
  have num: "panel_ok (set_number_to_show_on_lcd x ?t)"
    using values_shown [of LEDMASK_NOP "?t\<lparr>sNumberToShowOnLcd := x\<rparr>"] ok
    by (simp add: set_number_to_show_on_lcd_def panel_ok_values)
  have usb: "panel_ok (set_all_leds k ?t) \<and> lcd_line (set_all_leds k ?t) 0 = usb_message k"
    if k: "k AND 0xE0 = 0xE0" "k \<noteq> LEDMASK_NOP" for k
  proof -
    have "k \<noteq> prev_led_mask ?t" using mask_not_status(1) [of s] k(1) d(2) by (auto simp: remembered_def)
    from status_shown [OF this k(2,1)] k(1) show ?thesis by (simp add: panel_ok_def remembered_def)
  qed
  have "panel_ok (Update_USBState st ?t) \<and> lcd_line (Update_USBState st ?t) 0 = (case st of NOTREADY \<Rightarrow> ''Usb Wait''
        | ENUMERATING \<Rightarrow> ''Usb Enum'' | READY \<Rightarrow> ''Usb OK  '' | ERROR \<Rightarrow> ''Usb Err '')"
    by (cases st) (simp_all add: Update_USBState_def usb led_masks usb_message_def)
  with d(1) ok num show ?thesis
    unfolding displays_def tag second_line by (simp add: layer_name_def lit_leds_def mask_fields)
qed

theorem panel_shows_keyboard_witness:
  "lcd_line (ledstate_update (off_keyboard\<lparr>prev_led_mask := LEDMASK_USB_READY\<rparr>)) 0 = ''Normal  ''"
proof -
  let ?s = "off_keyboard\<lparr>prev_led_mask := LEDMASK_USB_READY\<rparr>"
  have "panel_ok ?s" by (simp add: panel_ok_def LEDMASK_USB_READY_def)
  moreover have "layer_id_of (layer ?s) = 0" by (simp add: off_keyboard_fields normal_layer_t_def layer_id_of_def)
  ultimately show ?thesis using panel_shows_keyboard [of ?s 0 READY] by (simp add: keystate_get_layer_id_def)
qed

end
