(* ===== verification/Behaviour.thy ===== *)
theory Behaviour
  imports KeyboardCorrect
begin

text \<open>
  What the user can do with the state machine: remap keys, set the numbers, record macros.
\<close>

subsection \<open>Remapping\<close>

text \<open>
  C30: remapping. In remap mode the first key pressed is the source and, after all keys are released,
  the next one the destination: the destination gets the default HID code of the source, no other key
  changes, and the keyboard is ready for the next source. Ordinary keys only; what else happens to the
  key state between the presses does not matter.
\<close>

theorem remap_copies_default:
  assumes src: "current_state s = STATE_PROGRAMMING_SRC" "key_press_count s = 1" "keystate_get_keys LOGICAL s = [src]"
      "\<not> SPECIAL_HID_KEY_NOREMAP (config_get_definition src s)"
    and released: "handle_state s = Some s1" "u = s1\<lparr>key_press_count := 0, key_states := ks, layer := l\<rparr>" "handle_state u = Some v"
    and dst: "w = v\<lparr>key_press_count := 1, key_states := ks', layer := l'\<rparr>" "keystate_get_keys LOGICAL w = [dst]"
      "\<not> SPECIAL_HID_KEY_NOREMAP (config_get_definition dst s)"
  shows "\<exists>t. handle_state w = Some t \<and> config_get_definition dst t = config_get_default_definition src
    \<and> (\<forall>k. k \<noteq> dst \<longrightarrow> config_get_definition k t = config_get_definition k s)
    \<and> current_state t = STATE_WAITING \<and> next_state t = STATE_PROGRAMMING_SRC"
proof -
  have s1: "s1 = go_to STATE_WAITING STATE_PROGRAMMING_DST (s\<lparr>program_src_hkey := config_get_default_definition src\<rparr>)"
    using src released(1) by (simp add: handle_state_def handle_state_programming_def read_keys_def)
  have "v = u\<lparr>wait_key_press_count := 0, current_state := STATE_PROGRAMMING_DST, next_state := STATE_NORMAL\<rparr>"
    using released(3) by (simp add: handle_state_def released(2) s1 go_to_def)
  then have "current_state w = STATE_PROGRAMMING_DST" "program_src_hkey w = config_get_default_definition src"
    "logical_to_hid_map w = logical_to_hid_map s" "key_press_count w = 1"
    by (simp_all add: dst(1) released(2) s1 go_to_def)
  then show ?thesis
    using dst(2,3)
    by (simp add: handle_state_def handle_state_programming_def read_keys_def config_get_definition_def
        config_save_definition_def go_to_def)
qed

text \<open>One key down, on the normal layer.\<close>

definition one_slot :: "logical_keycode \<Rightarrow> key_state list" where
  "one_slot p = \<lparr>p_key = p, prev_state = True, state = True, hidden = False\<rparr> # replicate 13 empty_key_state"

lemma one_slot_keys:
  assumes "layer s = normal_layer_t" "key_states s = one_slot p" "key_press_count s = 1"
    "is_hid_key_to_notify_about (logical_to_hid_map s p)"
  shows "keystate_get_keys LOGICAL s = [p]"
  using assms by (simp add: keystate_get_keys_def one_slot_def extract_keycode_def normal_layer_t_def empty_key_state_def
      config_get_definition_def)

theorem remap_copies_default_witness:
  "let s = off_keyboard\<lparr>current_state := STATE_PROGRAMMING_SRC, key_press_count := 1, key_states := one_slot 30\<rparr> in
   \<exists>s1 v t. handle_state s = Some s1
     \<and> handle_state (s1\<lparr>key_press_count := 0, key_states := replicate 14 empty_key_state, layer := normal_layer_t\<rparr>) = Some v
     \<and> handle_state (v\<lparr>key_press_count := 1, key_states := one_slot 31, layer := normal_layer_t\<rparr>) = Some t
     \<and> config_get_definition 31 t = config_get_default_definition 30"
proof -
  let ?s = "off_keyboard\<lparr>current_state := STATE_PROGRAMMING_SRC, key_press_count := 1, key_states := one_slot 30\<rparr>"
  have d: "is_hid_key_to_notify_about (config_get_default_definition 30)" "is_hid_key_to_notify_about (config_get_default_definition 31)"
    "\<not> SPECIAL_HID_KEY_NOREMAP (config_get_default_definition 30)" "\<not> SPECIAL_HID_KEY_NOREMAP (config_get_default_definition 31)"
    by code_simp+
  have "keystate_get_keys LOGICAL ?s = [30]"
    using d by (intro one_slot_keys) (simp_all add: off_keyboard_fields)
  moreover have "\<not> SPECIAL_HID_KEY_NOREMAP (config_get_definition 30 ?s)" "\<not> SPECIAL_HID_KEY_NOREMAP (config_get_definition 31 ?s)"
    using d by (simp_all add: off_keyboard_fields config_get_definition_def)
  ultimately have k: "keystate_get_keys LOGICAL ?s = [30]" "\<not> SPECIAL_HID_KEY_NOREMAP (config_get_definition 30 ?s)"
    "\<not> SPECIAL_HID_KEY_NOREMAP (config_get_definition 31 ?s)" by blast+
  obtain s1 where s1: "handle_state ?s = Some s1" "s1 = go_to STATE_WAITING STATE_PROGRAMMING_DST (?s\<lparr>program_src_hkey := config_get_default_definition 30\<rparr>)"
    using k by (simp add: handle_state_def handle_state_programming_def read_keys_def)
  let ?u = "s1\<lparr>key_press_count := 0, key_states := replicate 14 empty_key_state, layer := normal_layer_t\<rparr>"
  obtain v where v: "handle_state ?u = Some v" "v = ?u\<lparr>wait_key_press_count := 0, current_state := STATE_PROGRAMMING_DST, next_state := STATE_NORMAL\<rparr>"
    by (simp add: handle_state_def s1(2) go_to_def)
  let ?w = "v\<lparr>key_press_count := 1, key_states := one_slot 31, layer := normal_layer_t\<rparr>"
  have "keystate_get_keys LOGICAL ?w = [31]"
    using d by (intro one_slot_keys) (simp_all add: v(2) s1(2) go_to_def off_keyboard_fields)
  from remap_copies_default [OF _ _ k(1,2) s1(1) refl v(1) refl this k(3)]
  obtain t where "handle_state ?w = Some t" "config_get_definition 31 t = config_get_default_definition 30"
    by (auto simp: off_keyboard_fields)
  then show ?thesis using s1(1) v(1) by (auto simp: Let_def)
qed

subsection \<open>Setting the numbers\<close>

definition debounce_press :: "bool \<Rightarrow> u8 \<Rightarrow> u8" where
  "debounce_press up n = (if up then if unat n < MAX_DEBOUNCE_LEN then n + 1 else n else if n > 2 then n - 1 else n)"

lemma setup_number_finish_fields [simp]:
  "new_debounce_len (setup_number_finish n s) = new_debounce_len s" "new_mouse_div (setup_number_finish n s) = new_mouse_div s"
  "new_wheel_div (setup_number_finish n s) = new_wheel_div s" "in_prg_chord_with_lcd_info (setup_number_finish n s)"
  "debounce_len (setup_number_finish n s) = debounce_len s" "mouse_div (setup_number_finish n s) = mouse_div s"
  "wheel_div (setup_number_finish n s) = wheel_div s"
  by (simp_all add: setup_number_finish_def go_to_def set_number_to_show_on_lcd_def set_all_leds_def Let_def lcd_out_def
      lcd_print_position_def update_leds_def)

lemma debounce_presses:
  fixes ups :: "bool list"
  assumes "in_prg_chord_with_lcd_info s" "0 < new_debounce_len s" "unat (new_debounce_len s) \<le> MAX_DEBOUNCE_LEN"
  defines "t \<equiv> fold (\<lambda>up. change_debounce (debounce_press up)) ups s"
  shows "in_prg_chord_with_lcd_info t \<and> new_debounce_len t = fold debounce_press ups (new_debounce_len s) \<and> 0 < fold debounce_press ups (new_debounce_len s)
    \<and> new_mouse_div t = new_mouse_div s \<and> new_wheel_div t = new_wheel_div s \<and> mouse_div t = mouse_div s \<and> wheel_div t = wheel_div s"
  unfolding t_def using assms(1-3)
proof (induction ups arbitrary: s)
  case (Cons up ups)
  let ?n = "debounce_press up (new_debounce_len s)"
  have n: "0 < ?n" "unat ?n \<le> MAX_DEBOUNCE_LEN"
    using Cons.prems(2,3) unat_add_lem [of "new_debounce_len s" 1] unat_sub [of 1 "new_debounce_len s"]
    by (auto simp: debounce_press_def MAX_DEBOUNCE_LEN_def word_less_nat_alt word_le_nat_alt)
  have c: "change_debounce (debounce_press up) s = setup_number_finish ?n (s\<lparr>new_debounce_len := ?n\<rparr>)"
    using Cons.prems(1,2) by (simp add: change_debounce_def setup_number_def)
  show ?case using Cons.IH [of "setup_number_finish ?n (s\<lparr>new_debounce_len := ?n\<rparr>)"] n by (simp add: c)
qed simp

lemma clear_number_fields [simp]:
  "debounce_len (clear_number_to_show_on_lcd s) = debounce_len s" "mouse_div (clear_number_to_show_on_lcd s) = mouse_div s"
  "wheel_div (clear_number_to_show_on_lcd s) = wheel_div s"
  by (simp_all add: clear_number_to_show_on_lcd_def set_number_to_show_on_lcd_def set_all_leds_def Let_def lcd_out_def
      lcd_print_position_def update_leds_def)

lemma save_numbers_settings:
  "debounce_len (save_numbers s) = (if new_debounce_len s \<noteq> 0 then new_debounce_len s else debounce_len s)"
  "mouse_div (save_numbers s) = (if new_mouse_div s \<noteq> 0 then new_mouse_div s else mouse_div s)"
  "wheel_div (save_numbers s) = (if new_wheel_div s \<noteq> 0 then new_wheel_div s else wheel_div s)"
  by (auto simp: save_numbers_def Let_def config_save_debounce_len_def config_save_mouse_div_def config_save_wheel_div_def
      config_get_debounce_len_def config_get_mouse_div_def config_get_wheel_div_def)

text \<open>Program key and the key for up or for down.\<close>

definition debounce_chord :: "bool \<Rightarrow> 'a keyboard_state_scheme \<Rightarrow> 'a keyboard_state_scheme" where
  "debounce_chord up s = the (two_key_chord (if up then SPECIAL_HKEY_DEBOUNCE_UP else SPECIAL_HKEY_DEBOUNCE_DW) s)"

lemmas hkey_defs = SPECIAL_HKEY_MACRO_RECORD_def SPECIAL_HKEY_REMAP_def SPECIAL_HKEY_REBOOT_def SPECIAL_HKEY_MACROS_ENABLE_def
  SPECIAL_HKEY_RESET_CONFIG_def SPECIAL_HKEY_TOGGLE_BUZZER_def SPECIAL_HKEY_DEBOUNCE_UP_def SPECIAL_HKEY_DEBOUNCE_DW_def
  SPECIAL_HKEY_MOUSE_DIV_UP_def SPECIAL_HKEY_MOUSE_DIV_DW_def SPECIAL_HKEY_WHEEL_DIV_UP_def SPECIAL_HKEY_WHEEL_DIV_DW_def

lemma debounce_chord_press: "debounce_chord up = change_debounce (debounce_press up)"
  by (cases up) (simp_all add: fun_eq_iff debounce_chord_def two_key_chord_def hkey_defs debounce_press_def [abs_def])

text \<open>
  Setting the debounce length from the keyboard. The first press of the combination shows the
  current length, each further one counts it up to at most eight or down to no less than two (a length
  of one is kept), and when all keys are released the last number shown is the new length. The mouse
  and wheel divisors stay as they are.
\<close>

theorem debounce_setup_saves:
  fixes ups :: "bool list" and first :: bool
  assumes "\<not> in_prg_chord_with_lcd_info s" "new_mouse_div s = 0" "new_wheel_div s = 0"
    and "0 < config_get_debounce_len s" "unat (config_get_debounce_len s) \<le> MAX_DEBOUNCE_LEN"
  defines "t \<equiv> save_numbers (fold debounce_chord (first # ups) s)"
  shows "config_get_debounce_len t = fold debounce_press ups (config_get_debounce_len s)
    \<and> config_get_mouse_div t = config_get_mouse_div s \<and> config_get_wheel_div t = config_get_wheel_div s"
proof -
  define u where "u = setup_number_finish (debounce_len s) (s\<lparr>new_debounce_len := debounce_len s\<rparr>)"
  have "debounce_chord first s = u"
    using assms(1) by (simp add: debounce_chord_press change_debounce_def setup_number_def u_def config_get_debounce_len_def)
  then have t: "t = save_numbers (fold (\<lambda>up. change_debounce (debounce_press up)) ups u)"
    by (simp add: t_def debounce_chord_press [abs_def])
  have "0 < new_debounce_len u" "unat (new_debounce_len u) \<le> MAX_DEBOUNCE_LEN" "in_prg_chord_with_lcd_info u"
    using assms(4,5) by (simp_all add: u_def config_get_debounce_len_def)
  note p = debounce_presses [OF this(3,1,2), of ups]
  then show ?thesis
    using assms(2,3) unfolding t config_get_debounce_len_def config_get_mouse_div_def config_get_wheel_div_def save_numbers_settings
    by (auto simp: u_def)
qed

theorem debounce_setup_saves_witness:
  "config_get_debounce_len (save_numbers (fold debounce_chord [True, True, True] off_keyboard)) = 5"
  using debounce_setup_saves [of off_keyboard True "[True, True]"]
  by (simp add: off_keyboard_fields config_get_debounce_len_def MAX_DEBOUNCE_LEN_def debounce_press_def off_defs)

subsection \<open>Recording a macro\<close>

text \<open>
  C32: a cancelled trigger is not forgotten. Leaving the choice of a trigger with the record
  combination keeps \<open>last_count\<close> and the keys seen so far. The next time a trigger is to be recorded,
  with no key pressed yet, these stale keys are at once taken as the trigger: the recording starts
  without asking for one.
\<close>

theorem cancelled_trigger_is_reused:
  assumes cancel: "keystate_check_keys [SPECIAL_HID_KEY_PROGRAM, SPECIAL_HKEY_MACRO_RECORD] HID s" "last_count s \<noteq> 0"
    and again: "key_press_count u = 0" "last_count u = last_count (handle_state_macro_record_trigger s)"
      "trigger_key u = trigger_key (handle_state_macro_record_trigger s)"
    and stale: "macro_idx_format_key (trigger_key s) (unat (last_count s)) = (key, True)"
      "macros_start_macro key (u\<lparr>trigger_key := key, last_count := 0\<rparr>) = (True, t)"
  shows "handle_state_macro_record_trigger s = go_to STATE_WAITING STATE_NORMAL s
    \<and> handle_state_macro_record_trigger u = go_to STATE_WAITING STATE_MACRO_RECORD t"
proof -
  have h: "handle_state_macro_record_trigger s = go_to STATE_WAITING STATE_NORMAL s"
    using cancel(1) by (simp add: handle_state_macro_record_trigger_def)
  then have u: "last_count u = last_count s" "trigger_key u = trigger_key s"
    using again by (simp_all add: go_to_def)
  have "\<not> keystate_check_keys ks ty u" if "ks \<noteq> []" for ks ty
    using again(1) that by (simp add: keystate_check_keys_def)
  then have "handle_state_macro_record_trigger u = go_to STATE_WAITING STATE_MACRO_RECORD t"
    using again(1) cancel(2) stale
    by (simp add: handle_state_macro_record_trigger_def u word_le_nat_alt unat_eq_0)
  then show ?thesis using h by blast
qed

text \<open>The macro store sees only the fields of the macro component.\<close>

lemma macro_parts_eq:
  assumes "macros_storage t = macros_storage s" "macro_index t = macro_index s" "storage_faults t = storage_faults s"
    "recording_state t = recording_state s"
  shows "recording k evs t \<longleftrightarrow> recording k evs s" "macro_store t = macro_store s" "heap_ok K t \<longleftrightarrow> heap_ok K s"
  unfolding recording_def heap_ok_def macro_store_def [abs_def] macro_idx_lookup_def assms by (rule refl)+

lemma off_keyboard_macros:
  "heap_ok {} off_keyboard" "storage_faults off_keyboard = []" "idx_map (macro_index off_keyboard) = Map.empty"
  "end_of (macros_storage off_keyboard) = 0" "macro_store off_keyboard = macro_store macro_reset"
proof -
  have e: "macros_storage off_keyboard = macros_storage macro_reset" "macro_index off_keyboard = macro_index macro_reset"
    "storage_faults off_keyboard = storage_faults macro_reset" "recording_state off_keyboard = recording_state macro_reset"
    by (simp_all add: off_defs macro_reset_def)
  show "heap_ok {} off_keyboard" "macro_store off_keyboard = macro_store macro_reset"
    using macro_parts_eq(3) [OF e] macro_reset_ok(1) macro_parts_eq(2) [OF e] by simp_all
  show "storage_faults off_keyboard = []" "idx_map (macro_index off_keyboard) = Map.empty"
    "end_of (macros_storage off_keyboard) = 0"
    using macro_reset_ok by (simp_all add: e)
qed

text \<open>The program key and W are down; the program key was seen first.\<close>

definition cancelling :: keyboard_state where
  "cancelling = off_keyboard\<lparr>current_state := STATE_MACRO_RECORD_TRIGGER, key_press_count := 2, last_count := 1,
     key_states := [\<lparr>p_key = 0, prev_state = True, state = True, hidden = False\<rparr>,
                    \<lparr>p_key = 30, prev_state = True, state = True, hidden = False\<rparr>] @ replicate 12 empty_key_state\<rparr>"

lemma start_single_key:
  assumes "macros_storage u = macros_storage off_keyboard" "macro_index u = macro_index off_keyboard"
    "storage_faults u = []" "recording_state u = recording_state off_keyboard" "k \<noteq> NO_KEY"
  shows "\<exists>t. macros_start_macro [k, NO_KEY, NO_KEY, NO_KEY] u = (True, t) \<and> recording [k, NO_KEY, NO_KEY, NO_KEY] [] t"
proof -
  have "heap_ok {} u" using macro_parts_eq(3) [of u off_keyboard "{}"] assms off_keyboard_macros by simp
  moreover have "key_wf [k, NO_KEY, NO_KEY, NO_KEY]" using assms(5) by (simp add: key_wf_def MACRO_MAX_KEYS_def)
  ultimately show ?thesis
    using macros_start_macro_records [of u "[k, NO_KEY, NO_KEY, NO_KEY]"] assms off_keyboard_macros
    by (auto simp: MACRO_INDEX_COUNT_def)
qed

lemma cancelling_check:
  "keystate_check_keys [SPECIAL_HID_KEY_PROGRAM, SPECIAL_HKEY_MACRO_RECORD] HID cancelling"
proof -
  have "config_get_default_definition 0 = SPECIAL_HID_KEY_PROGRAM" "config_get_default_definition 30 = SPECIAL_HKEY_MACRO_RECORD"
    "SPECIAL_HID_KEY_PROGRAM \<noteq> SPECIAL_HKEY_MACRO_RECORD"
    by code_simp+
  then show ?thesis
    by (simp add: keystate_check_keys_def keystate_check_key_def cancelling_def extract_keycode_def off_keyboard_fields
        normal_layer_t_def config_get_definition_def)
qed

theorem cancelled_trigger_is_reused_witness:
  "\<exists>(u :: keyboard_state) t. current_state u = STATE_MACRO_RECORD_TRIGGER \<and> key_press_count u = 0
    \<and> handle_state_macro_record_trigger cancelling = go_to STATE_WAITING STATE_NORMAL cancelling
    \<and> handle_state_macro_record_trigger u = go_to STATE_WAITING STATE_MACRO_RECORD t
    \<and> recording [0, NO_KEY, NO_KEY, NO_KEY] [] t"
proof -
  let ?k = "[0, NO_KEY, NO_KEY, NO_KEY] :: macro_idx_key"
  let ?u = "cancelling\<lparr>key_press_count := 0, key_states := replicate 14 empty_key_state\<rparr>"
  have k: "macro_idx_format_key (trigger_key cancelling) (unat (last_count cancelling)) = (?k, True)"
  proof -
    have "macro_idx_format_key (replicate MACRO_MAX_KEYS 0) 1 = (?k, True)" by code_simp
    then show ?thesis by (simp add: cancelling_def off_keyboard_fields)
  qed
  have n: "(0 :: u8) \<noteq> NO_KEY" by (simp add: NO_KEY_def)
  obtain t where t: "macros_start_macro ?k (?u\<lparr>trigger_key := ?k, last_count := 0\<rparr>) = (True, t)" "recording ?k [] t"
    using start_single_key [OF _ _ _ _ n, of "?u\<lparr>trigger_key := ?k, last_count := 0\<rparr>"] off_keyboard_macros(2)
    by (auto simp: cancelling_def)
  have "handle_state_macro_record_trigger cancelling = go_to STATE_WAITING STATE_NORMAL cancelling
    \<and> handle_state_macro_record_trigger ?u = go_to STATE_WAITING STATE_MACRO_RECORD t"
    by (rule cancelled_trigger_is_reused [OF cancelling_check _ _ _ _ k t(1)])
      (use cancelling_check in \<open>simp_all add: handle_state_macro_record_trigger_def go_to_def, simp_all add: cancelling_def\<close>)
  then show ?thesis using t(2) by (intro exI [of _ ?u] exI [of _ t]) (simp add: cancelling_def)
qed

text \<open>What the hook appends for a list of key changes.\<close>

definition recorded_codes :: "(logical_keycode \<times> bool) list \<Rightarrow> 'a config_state_scheme \<Rightarrow> hid_keycode list" where
  "recorded_codes changes s = filter (\<lambda>h. h < SPECIAL_HID_KEYS_START) (map (\<lambda>(key, press). config_get_definition key s) changes)"

definition hook_changes :: "(logical_keycode \<times> bool) list \<Rightarrow> 'a keyboard_state_scheme \<Rightarrow> 'a keyboard_state_scheme" where
  "hook_changes changes s = fold (\<lambda>(key, press). macro_record_hook key press) changes s"

lemma queries_above:
  assumes "macro_state.more t = macro_state.more s"
  shows "keystate_check_key h ty t = keystate_check_key h ty s" "recorded_codes cs t = recorded_codes cs s"
  unfolding keystate_check_key_def extract_keycode_def config_get_definition_def recorded_codes_def
    above_macro [OF assms] above_config [OF above_macro(1) [OF assms]] by (rule refl)+

lemma hook_records:
  assumes "recording k evs s" "\<not> keystate_check_key SPECIAL_HID_KEY_PROGRAM HID s"
  shows "recording k (evs @ recorded_codes changes s) (hook_changes changes s)
    \<and> (\<forall>j. j \<noteq> k \<longrightarrow> macro_store (hook_changes changes s) j = macro_store s j)
    \<and> end_of (macros_storage (hook_changes changes s)) = end_of (macros_storage s)
    \<and> macro_state.more (hook_changes changes s) = macro_state.more s
    \<and> (\<forall>a. 4 + end_of (macros_storage s) + length evs + length (recorded_codes changes s) \<le> a \<longrightarrow>
          macros_storage (hook_changes changes s) a = macros_storage s a)"
  using assms
proof (induction changes arbitrary: evs s)
  case Nil
  then show ?case by (simp add: hook_changes_def recorded_codes_def)
next
  case (Cons c changes)
  obtain key press where c: "c = (key, press)" by fastforce
  let ?h = "config_get_definition key s"
  show ?case
  proof (cases "?h < SPECIAL_HID_KEYS_START")
    case True
    obtain t where t: "macros_append ?h s = (True, t)" "recording k (evs @ [?h]) t"
      "\<forall>j. j \<noteq> k \<longrightarrow> macro_store t j = macro_store s j" "end_of (macros_storage t) = end_of (macros_storage s)"
      "\<forall>a. 4 + end_of (macros_storage s) + Suc (length evs) \<le> a \<longrightarrow> macros_storage t a = macros_storage s a"
      using macros_append_records [OF Cons.prems(1)] by blast
    have m: "macro_state.more t = macro_state.more s" by (rule macros_append_above [OF t(1)])
    have "macro_record_hook key press s = t"
      using True t(1) Cons.prems(2) by (simp add: macro_record_hook_def Let_def)
    then have "hook_changes (c # changes) s = hook_changes changes t" by (simp add: hook_changes_def c)
    moreover have "recorded_codes (c # changes) s = ?h # recorded_codes changes t"
      using True by (simp add: queries_above(2) [OF m]) (simp add: recorded_codes_def c)
    moreover have "\<not> keystate_check_key SPECIAL_HID_KEY_PROGRAM HID t"
      using Cons.prems(2) by (simp add: queries_above(1) [OF m])
    ultimately show ?thesis using Cons.IH [OF t(2)] t(3-5) m by simp
  next
    case False
    then have "macro_record_hook key press s = s" by (simp add: macro_record_hook_def Let_def)
    then have "hook_changes (c # changes) s = hook_changes changes s" by (simp add: hook_changes_def c)
    moreover have "recorded_codes (c # changes) s = recorded_codes changes s"
      using False by (simp add: recorded_codes_def c)
    ultimately show ?thesis using Cons.IH [OF Cons.prems] by simp
  qed
qed

text \<open>
  C6: what is typed while a macro is recorded is what the macro store has afterwards. Every press and
  release of an ordinary key that the scan reports to the hook appends the HID code of the key; the
  record combination then ends the recording, unregisters the hook, and stores exactly these codes in
  this order under the trigger, with every other macro unchanged and no byte behind the array of the macros
  touched, if the array has room for them.
\<close>

theorem recorded_keys_are_stored:
  assumes rec: "recording k [] s" "\<not> keystate_check_key SPECIAL_HID_KEY_PROGRAM HID s"
    and codes: "recorded_codes changes s \<noteq> []" "macro_room (2 + length (recorded_codes changes s)) s"
    and stop: "u = (hook_changes changes s)\<lparr>key_states := ks, key_press_count := n, layer := l, recording_macro := True\<rparr>"
      "keystate_check_keys [SPECIAL_HID_KEY_PROGRAM, SPECIAL_HKEY_MACRO_RECORD] HID u"
  shows "macro_store (handle_state_macro_record u) = (macro_store s)(k \<mapsto> Events (recorded_codes changes s))
    \<and> heap_ok {} (handle_state_macro_record u)
    \<and> (\<forall>a\<ge>MACROS_SIZE. macros_storage (handle_state_macro_record u) a = macros_storage s a)
    \<and> current_state (handle_state_macro_record u) = STATE_WAITING \<and> next_state (handle_state_macro_record u) = STATE_NORMAL
    \<and> \<not> keystate_change_hook_fn (handle_state_macro_record u) \<and> \<not> recording_macro (handle_state_macro_record u)"
proof -
  let ?t = "hook_changes changes s"
  define v where "v = keystate_register_change_hook False (u\<lparr>recording_macro := False\<rparr>)"
  have h: "handle_state_macro_record u = go_to STATE_WAITING STATE_NORMAL (macros_commit_macro v)"
    using stop by (simp add: handle_state_macro_record_def v_def Let_def)
  have v: "macros_storage v = macros_storage ?t" "macro_index v = macro_index ?t" "storage_faults v = storage_faults ?t"
    "recording_state v = recording_state ?t"
    by (simp_all add: v_def stop(1) keystate_register_change_hook_def)
  note r = hook_records [OF rec, of changes]
  have "recording k (recorded_codes changes s) v" using r macro_parts_eq(1) [OF v] by simp
  moreover have room: "macro_room (2 + length (recorded_codes changes s)) v" using codes(2) r v(1) by (simp add: macro_room_def)
  ultimately have c: "macro_store (macros_commit_macro v) = (macro_store v)(k \<mapsto> Events (recorded_codes changes s))"
    "heap_ok {} (macros_commit_macro v)"
    "\<forall>a. 4 + end_of (macros_storage v) \<le> a \<longrightarrow> macros_storage (macros_commit_macro v) a = macros_storage v a"
    using macros_commit_macro_ok [of k "recorded_codes changes s" v] codes(1) by blast+
  have "macros_storage (macros_commit_macro v) a = macros_storage s a" if "MACROS_SIZE \<le> a" for a
    using that codes(2) r v(1) c(3) by (simp add: macro_room_def)
  moreover have "(macro_store v)(k \<mapsto> Events (recorded_codes changes s)) = (macro_store s)(k \<mapsto> Events (recorded_codes changes s))"
    using r macro_parts_eq(2) [OF v] by (auto simp: fun_eq_iff)
  moreover have "macros_storage (go_to a b x) = macros_storage x" "macro_store (go_to a b x) = macro_store x" "heap_ok K (go_to a b x) \<longleftrightarrow> heap_ok K x"
    for a b K and x :: "'a keyboard_state_scheme"
    by (simp add: go_to_def) (intro macro_parts_eq; simp add: go_to_def)+
  moreover have "macro_state.more (macros_commit_macro v) = macro_state.more v" by (rule frame)
  note m = above_macro(1) [OF this]
  have "\<not> keystate_change_hook_fn (macros_commit_macro v)" "\<not> recording_macro (macros_commit_macro v)"
    using above_config [OF m] recording_config [OF m] by (simp_all add: v_def keystate_register_change_hook_def)
  ultimately show ?thesis using c(1,2) unfolding h by (simp add: go_to_def)
qed

theorem recorded_keys_are_stored_witness:
  "\<exists>s :: keyboard_state. macros_start_macro [9, NO_KEY, NO_KEY, NO_KEY] off_keyboard = (True, s)
    \<and> macro_store (handle_state_macro_record ((hook_changes [(30, True), (30, False)] s)
        \<lparr>key_states := key_states cancelling, key_press_count := 2, layer := normal_layer_t, recording_macro := True\<rparr>))
      [9, NO_KEY, NO_KEY, NO_KEY] = Some (Events [0x1A, 0x1A])"
proof -
  let ?k = "[9, NO_KEY, NO_KEY, NO_KEY] :: macro_idx_key"
  have "(9 :: u8) \<noteq> NO_KEY" by (simp add: NO_KEY_def)
  then obtain s where s: "macros_start_macro ?k off_keyboard = (True, s)" "recording ?k [] s"
    using start_single_key [OF refl refl _ refl] off_keyboard_macros(2) by blast
  have m: "macro_state.more s = macro_state.more off_keyboard" using start_macro_above [of ?k off_keyboard] s(1) by simp
  have d30: "config_get_default_definition 30 = 0x1A" "(0x1A :: u8) < SPECIAL_HID_KEYS_START" by code_simp+
  have p: "\<not> keystate_check_key SPECIAL_HID_KEY_PROGRAM HID s"
    unfolding queries_above(1) [OF m]
    by (auto simp: keystate_check_key_def off_keyboard_fields empty_key_state_def find_Some_iff split: option.split)
  have c: "recorded_codes [(30, True), (30, False)] s = [0x1A, 0x1A]"
    unfolding queries_above(2) [OF m]
    using d30 by (simp add: recorded_codes_def config_get_definition_def off_keyboard_fields)
  have e: "end_of (macros_storage s) < 10"
    using macros_start_macro_records [of off_keyboard ?k] s(1) off_keyboard_macros
    by (auto simp: key_wf_def MACRO_MAX_KEYS_def NO_KEY_def MACRO_INDEX_COUNT_def)
  let ?t = "hook_changes [(30, True), (30, False)] s"
  let ?u = "?t\<lparr>key_states := key_states cancelling, key_press_count := 2, layer := normal_layer_t, recording_macro := True\<rparr>"
  have mt: "macro_state.more ?t = macro_state.more off_keyboard" using hook_records [OF s(2) p] m by simp
  have "keystate_check_keys ks HID ?u \<longleftrightarrow> keystate_check_keys ks HID cancelling" for ks
    by (simp add: keystate_check_keys_def keystate_check_key_def extract_keycode_def config_get_definition_def
        above_macro [OF mt]) (simp add: cancelling_def off_keyboard_fields)
  then have stop: "keystate_check_keys [SPECIAL_HID_KEY_PROGRAM, SPECIAL_HKEY_MACRO_RECORD] HID ?u"
    using cancelling_check by simp
  have room: "recorded_codes [(30, True), (30, False)] s \<noteq> []"
    "macro_room (2 + length (recorded_codes [(30, True), (30, False)] s)) s"
    using e by (simp_all add: c macro_room_def MACROS_SIZE_def)
  show ?thesis using recorded_keys_are_stored [OF s(2) p room refl stop] c s(1) by (intro exI [of _ s]) simp
qed

end
