(* ===== verification/Descriptors.thy ===== *)
theory Descriptors
  imports Storage
begin

text \<open>
  \<open>Descriptors.c\<close>: what the device tells the host about itself. The descriptors are the bytes of the
  packed structures, in the order of their fields, with 16-bit fields low byte first.
\<close>

subsection \<open>Items of a report descriptor\<close>

text \<open>\<open>_HID_RI_ENTRY\<close>: type, tag and size in one byte, then the data, low byte first.\<close>

fun HID_RI_ENCODE :: "nat \<Rightarrow> int \<Rightarrow> u8 list" where
  "HID_RI_ENCODE bits v = (if bits = 0 then [] else if bits = 8 then [of_int v] else [of_int v, of_int (v div 256)])"

definition HID_RI_ENTRY :: "u8 \<Rightarrow> u8 \<Rightarrow> nat \<Rightarrow> int \<Rightarrow> u8 list" where
  "HID_RI_ENTRY ty tag bits v = (ty OR tag OR (if bits = 0 then 0 else if bits = 8 then 1 else 2)) # HID_RI_ENCODE bits v"

definition HID_RI_INPUT :: "nat \<Rightarrow> int \<Rightarrow> u8 list" where "HID_RI_INPUT = HID_RI_ENTRY 0 0x80"
definition HID_RI_OUTPUT :: "nat \<Rightarrow> int \<Rightarrow> u8 list" where "HID_RI_OUTPUT = HID_RI_ENTRY 0 0x90"
definition HID_RI_COLLECTION :: "nat \<Rightarrow> int \<Rightarrow> u8 list" where "HID_RI_COLLECTION = HID_RI_ENTRY 0 0xA0"
definition HID_RI_USAGE_PAGE :: "nat \<Rightarrow> int \<Rightarrow> u8 list" where "HID_RI_USAGE_PAGE = HID_RI_ENTRY 4 0x00"
definition HID_RI_LOGICAL_MINIMUM :: "nat \<Rightarrow> int \<Rightarrow> u8 list" where "HID_RI_LOGICAL_MINIMUM = HID_RI_ENTRY 4 0x10"
definition HID_RI_LOGICAL_MAXIMUM :: "nat \<Rightarrow> int \<Rightarrow> u8 list" where "HID_RI_LOGICAL_MAXIMUM = HID_RI_ENTRY 4 0x20"
definition HID_RI_REPORT_SIZE :: "nat \<Rightarrow> int \<Rightarrow> u8 list" where "HID_RI_REPORT_SIZE = HID_RI_ENTRY 4 0x70"
definition HID_RI_REPORT_COUNT :: "nat \<Rightarrow> int \<Rightarrow> u8 list" where "HID_RI_REPORT_COUNT = HID_RI_ENTRY 4 0x90"
definition HID_RI_USAGE :: "nat \<Rightarrow> int \<Rightarrow> u8 list" where "HID_RI_USAGE = HID_RI_ENTRY 8 0x00"
definition HID_RI_USAGE_MINIMUM :: "nat \<Rightarrow> int \<Rightarrow> u8 list" where "HID_RI_USAGE_MINIMUM = HID_RI_ENTRY 8 0x10"
definition HID_RI_USAGE_MAXIMUM :: "nat \<Rightarrow> int \<Rightarrow> u8 list" where "HID_RI_USAGE_MAXIMUM = HID_RI_ENTRY 8 0x20"
definition HID_RI_END_COLLECTION :: "u8 list" where "HID_RI_END_COLLECTION = HID_RI_ENTRY 0 0xC0 0 0"

definition HID_IOF_DATA :: int where "HID_IOF_DATA = 0"
definition HID_IOF_CONSTANT :: int where "HID_IOF_CONSTANT = 1"
definition HID_IOF_VARIABLE :: int where "HID_IOF_VARIABLE = 2"
definition HID_IOF_ARRAY :: int where "HID_IOF_ARRAY = 0"
definition HID_IOF_RELATIVE :: int where "HID_IOF_RELATIVE = 4"
definition HID_IOF_ABSOLUTE :: int where "HID_IOF_ABSOLUTE = 0"
definition HID_IOF_NON_VOLATILE :: int where "HID_IOF_NON_VOLATILE = 0"

definition KEYBOARDREPORT_KEY_COUNT :: int where "KEYBOARDREPORT_KEY_COUNT = 6"
definition HID_EPSIZE :: u8 where "HID_EPSIZE = 8"

definition MouseReport :: "u8 list" where
  "MouseReport = concat [
     HID_RI_USAGE_PAGE 8 0x01,
     HID_RI_USAGE 8 0x02,
     HID_RI_COLLECTION 8 0x01,
     HID_RI_USAGE 8 0x01,
     HID_RI_COLLECTION 8 0x00,
     HID_RI_USAGE_PAGE 8 0x09,
     HID_RI_USAGE_MINIMUM 8 0x01,
     HID_RI_USAGE_MAXIMUM 8 0x05,
     HID_RI_LOGICAL_MINIMUM 8 0x00,
     HID_RI_LOGICAL_MAXIMUM 8 0x01,
     HID_RI_REPORT_COUNT 8 0x05,
     HID_RI_REPORT_SIZE 8 0x01,
     HID_RI_INPUT 8 (HID_IOF_DATA OR HID_IOF_VARIABLE OR HID_IOF_ABSOLUTE),
     HID_RI_REPORT_COUNT 8 0x01,
     HID_RI_REPORT_SIZE 8 0x03,
     HID_RI_INPUT 8 HID_IOF_CONSTANT,
     HID_RI_USAGE_PAGE 8 0x01,
     HID_RI_USAGE 8 0x30,
     HID_RI_USAGE 8 0x31,
     HID_RI_USAGE 8 0x38,
     HID_RI_LOGICAL_MINIMUM 8 (- 127),
     HID_RI_LOGICAL_MAXIMUM 8 127,
     HID_RI_REPORT_COUNT 8 0x03,
     HID_RI_REPORT_SIZE 8 0x08,
     HID_RI_INPUT 8 (HID_IOF_DATA OR HID_IOF_VARIABLE OR HID_IOF_RELATIVE),
     HID_RI_USAGE_PAGE 8 0x0c,
     HID_RI_USAGE 16 0x238,
     HID_RI_LOGICAL_MINIMUM 8 (- 127),
     HID_RI_LOGICAL_MAXIMUM 8 127,
     HID_RI_REPORT_COUNT 8 0x01,
     HID_RI_REPORT_SIZE 8 0x08,
     HID_RI_INPUT 8 (HID_IOF_DATA OR HID_IOF_VARIABLE OR HID_IOF_RELATIVE),
     HID_RI_END_COLLECTION,
     HID_RI_END_COLLECTION]"

definition KeyboardReport :: "u8 list" where
  "KeyboardReport = concat [
     HID_RI_USAGE_PAGE 8 0x01,
     HID_RI_USAGE 8 0x06,
     HID_RI_COLLECTION 8 0x01,
     HID_RI_USAGE_PAGE 8 0x07,
     HID_RI_USAGE_MINIMUM 8 0xE0,
     HID_RI_USAGE_MAXIMUM 8 0xE7,
     HID_RI_LOGICAL_MINIMUM 8 0x00,
     HID_RI_LOGICAL_MAXIMUM 8 0x01,
     HID_RI_REPORT_SIZE 8 0x01,
     HID_RI_REPORT_COUNT 8 0x08,
     HID_RI_INPUT 8 (HID_IOF_DATA OR HID_IOF_VARIABLE OR HID_IOF_ABSOLUTE),
     HID_RI_REPORT_COUNT 8 0x01,
     HID_RI_REPORT_SIZE 8 0x08,
     HID_RI_INPUT 8 HID_IOF_CONSTANT,
     HID_RI_USAGE_PAGE 8 0x08,
     HID_RI_USAGE_MINIMUM 8 0x01,
     HID_RI_USAGE_MAXIMUM 8 0x05,
     HID_RI_REPORT_COUNT 8 0x05,
     HID_RI_REPORT_SIZE 8 0x01,
     HID_RI_OUTPUT 8 (HID_IOF_DATA OR HID_IOF_VARIABLE OR HID_IOF_ABSOLUTE OR HID_IOF_NON_VOLATILE),
     HID_RI_REPORT_COUNT 8 0x01,
     HID_RI_REPORT_SIZE 8 0x03,
     HID_RI_OUTPUT 8 HID_IOF_CONSTANT,
     HID_RI_LOGICAL_MINIMUM 8 0x00,
     HID_RI_LOGICAL_MAXIMUM 16 0xE7,
     HID_RI_USAGE_PAGE 8 0x07,
     HID_RI_USAGE_MINIMUM 8 0x00,
     HID_RI_USAGE_MAXIMUM 8 0xE7,
     HID_RI_REPORT_COUNT 8 KEYBOARDREPORT_KEY_COUNT,
     HID_RI_REPORT_SIZE 8 0x08,
     HID_RI_INPUT 8 (HID_IOF_DATA OR HID_IOF_ARRAY OR HID_IOF_ABSOLUTE),
     HID_RI_END_COLLECTION]"

lemmas hid_item_defs = HID_RI_ENTRY_def HID_RI_INPUT_def HID_RI_OUTPUT_def HID_RI_COLLECTION_def HID_RI_USAGE_PAGE_def HID_RI_LOGICAL_MINIMUM_def HID_RI_LOGICAL_MAXIMUM_def HID_RI_REPORT_SIZE_def HID_RI_REPORT_COUNT_def HID_RI_USAGE_def HID_RI_USAGE_MINIMUM_def HID_RI_USAGE_MAXIMUM_def
  HID_RI_END_COLLECTION_def HID_IOF_DATA_def HID_IOF_CONSTANT_def HID_IOF_VARIABLE_def HID_IOF_ARRAY_def HID_IOF_RELATIVE_def HID_IOF_ABSOLUTE_def HID_IOF_NON_VOLATILE_def KEYBOARDREPORT_KEY_COUNT_def

subsection \<open>Device and configuration\<close>

definition DTYPE_Device :: u8 where "DTYPE_Device = 0x01"
definition DTYPE_Configuration :: u8 where "DTYPE_Configuration = 0x02"
definition DTYPE_String :: u8 where "DTYPE_String = 0x03"
definition DTYPE_Interface :: u8 where "DTYPE_Interface = 0x04"
definition DTYPE_Endpoint :: u8 where "DTYPE_Endpoint = 0x05"
definition HID_DTYPE_HID :: u8 where "HID_DTYPE_HID = 0x21"
definition HID_DTYPE_Report :: u8 where "HID_DTYPE_Report = 0x22"

definition VERSION_BCD :: "nat \<Rightarrow> nat \<Rightarrow> nat \<Rightarrow> u16" where
  "VERSION_BCD major minor revision = of_nat (major mod 256 * 256 + minor mod 16 * 16 + revision mod 16)"

definition USB_VENDOR_ID :: u16 where "USB_VENDOR_ID = 0x1d50"
definition USB_PRODUCT_ID :: u16 where "USB_PRODUCT_ID = 0x6028"

definition DeviceDescriptor :: "u8 list" where
  "DeviceDescriptor = [18, DTYPE_Device] @ bytes_of_short (VERSION_BCD 1 1 0) @ [0, 0, 0, 8]
     @ bytes_of_short USB_VENDOR_ID @ bytes_of_short USB_PRODUCT_ID @ bytes_of_short (VERSION_BCD 1 1 0)
     @ [0x01, 0x02, 0x03, 1]"

definition interface_descriptor :: "u8 \<Rightarrow> u8 \<Rightarrow> u8 \<Rightarrow> u8 \<Rightarrow> u8 \<Rightarrow> u8 list" where
  "interface_descriptor number endpoints class_code subclass protocol =
     [9, DTYPE_Interface, number, 0, endpoints, class_code, subclass, protocol, 0]"

definition hid_descriptor :: "nat \<Rightarrow> u8 list" where
  "hid_descriptor report_length = [9, HID_DTYPE_HID] @ bytes_of_short (VERSION_BCD 1 1 1) @ [0, 1, HID_DTYPE_Report]
     @ bytes_of_short (of_nat report_length)"

definition endpoint_descriptor :: "u8 \<Rightarrow> u8 list" where
  "endpoint_descriptor number = [7, DTYPE_Endpoint, 0x80 OR number, 0x03] @ bytes_of_short (ucast HID_EPSIZE) @ [0x02]"

definition CFG_Interface :: "u8 list" where "CFG_Interface = interface_descriptor 0 0 0xFF 0 0"
definition HID1_KeyboardInterface :: "u8 list" where "HID1_KeyboardInterface = interface_descriptor 1 1 0x03 0x01 0x01"
definition HID1_KeyboardHID :: "u8 list" where "HID1_KeyboardHID = hid_descriptor (length KeyboardReport)"
definition HID1_ReportINEndpoint :: "u8 list" where "HID1_ReportINEndpoint = endpoint_descriptor 1"
definition HID2_MouseInterface :: "u8 list" where "HID2_MouseInterface = interface_descriptor 2 1 0x03 0x01 0x02"
definition HID2_MouseHID :: "u8 list" where "HID2_MouseHID = hid_descriptor (length MouseReport)"
definition HID2_ReportINEndpoint :: "u8 list" where "HID2_ReportINEndpoint = endpoint_descriptor 3"

text \<open>The size of \<open>USB_Descriptor_Configuration_t\<close>: a header of 9, three interfaces, two HID descriptors, two endpoints.\<close>

definition CONFIGURATION_SIZE :: u16 where "CONFIGURATION_SIZE = 9 + 3 * 9 + 2 * 9 + 2 * 7"

definition ConfigurationDescriptor :: "u8 list" where
  "ConfigurationDescriptor = [9, DTYPE_Configuration] @ bytes_of_short CONFIGURATION_SIZE @ [3, 1, 0, 0x80 OR 0x20, 15]
     @ CFG_Interface @ HID1_KeyboardInterface @ HID1_KeyboardHID @ HID1_ReportINEndpoint
     @ HID2_MouseInterface @ HID2_MouseHID @ HID2_ReportINEndpoint"

subsection \<open>Strings\<close>

text \<open>The characters of a wide string literal, without its terminator.\<close>

definition string_descriptor :: "string \<Rightarrow> u8 list" where
  "string_descriptor str = [2 + 2 * of_nat (length str), DTYPE_String] @ concat (map (\<lambda>c. bytes_of_short (of_char c)) str)"

definition LanguageString :: "u8 list" where "LanguageString = [4, DTYPE_String] @ bytes_of_short 0x0409"
definition ManufacturerString :: "u8 list" where "ManufacturerString = string_descriptor ''andreae.gen.nz''"
definition ProductString :: "u8 list" where "ProductString = string_descriptor ''K84CS USB Keyboard''"
definition SerialNumberString :: "u8 list" where "SerialNumberString = string_descriptor ''andreae.gen.nz:k84cs''"

subsection \<open>Lookup\<close>

text \<open>The descriptor and the size reported for it; no descriptor has size 0.\<close>

definition CALLBACK_USB_GetDescriptor :: "u16 \<Rightarrow> u8 \<Rightarrow> (u8 list) option \<times> u16" where
  "CALLBACK_USB_GetDescriptor wValue wIndex =
     (let DescriptorType = (ucast (drop_bit 8 wValue) :: u8); DescriptorNumber = (ucast (wValue AND 0xFF) :: u8);
          string_of = (\<lambda>d. (Some d, ucast (d ! 0)))
      in if DescriptorType = DTYPE_Device then (Some DeviceDescriptor, 18)
         else if DescriptorType = DTYPE_Configuration then (Some ConfigurationDescriptor, CONFIGURATION_SIZE)
         else if DescriptorType = DTYPE_String then
           if DescriptorNumber = 0 then string_of LanguageString
           else if DescriptorNumber = 1 then string_of ManufacturerString
           else if DescriptorNumber = 2 then string_of ProductString
           else if DescriptorNumber = 3 then string_of SerialNumberString
           else (None, 0)
         else if DescriptorType = HID_DTYPE_HID then
           if wIndex = 1 then (Some HID1_KeyboardHID, 9) else if wIndex = 2 then (Some HID2_MouseHID, 9) else (None, 0)
         else if DescriptorType = HID_DTYPE_Report then
           if wIndex = 1 then (Some KeyboardReport, of_nat (length KeyboardReport))
           else if wIndex = 2 then (Some MouseReport, of_nat (length MouseReport)) else (None, 0)
         else (None, 0))"

text \<open>\<open>usbFunctionDescriptor\<close>, the lookup of the V-USB build, is given an index of two bytes.\<close>

definition usbFunctionDescriptor :: "u16 \<Rightarrow> u16 \<Rightarrow> (u8 list) option \<times> u16" where
  "usbFunctionDescriptor wValue wIndex =
     (let DescriptorType = (ucast (drop_bit 8 wValue) :: u8); DescriptorNumber = (ucast (wValue AND 0xFF) :: u8);
          string_of = (\<lambda>d. (Some d, ucast (d ! 0)))
      in if DescriptorType = DTYPE_Device then (Some DeviceDescriptor, 18)
         else if DescriptorType = DTYPE_Configuration then (Some ConfigurationDescriptor, CONFIGURATION_SIZE)
         else if DescriptorType = DTYPE_String then
           if DescriptorNumber = 0 then string_of LanguageString
           else if DescriptorNumber = 1 then string_of ManufacturerString
           else if DescriptorNumber = 2 then string_of ProductString
           else if DescriptorNumber = 3 then string_of SerialNumberString
           else (None, 0)
         else if DescriptorType = HID_DTYPE_HID then
           if wIndex = 1 then (Some HID1_KeyboardHID, 9) else if wIndex = 2 then (Some HID2_MouseHID, 9) else (None, 0)
         else if DescriptorType = HID_DTYPE_Report then
           if wIndex = 1 then (Some KeyboardReport, of_nat (length KeyboardReport))
           else if wIndex = 2 then (Some MouseReport, of_nat (length MouseReport)) else (None, 0)
         else (None, 0))"

end
