(* ===== verification/DescriptorsCorrect.thy ===== *)
theory DescriptorsCorrect
  imports Descriptors
begin

text \<open>
  What a host makes of the descriptors: the items of a report descriptor are read as the HID
  specification says and give the fields of the reports; the parts of the configuration follow each other
  with the lengths they state.
\<close>

subsection \<open>Reading a report descriptor\<close>

datatype field_kind = Input | Output

record report_field =
  kind :: field_kind
  is_constant :: bool
  is_array :: bool
  is_relative :: bool
  usage_page :: int
  usages :: "int list"
  logical_range :: "int \<times> int"
  field_bits :: nat
  field_count :: nat

text \<open>Items: the tag byte without the size, and the data.\<close>

function hid_items :: "u8 list \<Rightarrow> (u8 \<times> u8 list) list" where
  "hid_items [] = []"
| "hid_items (b # bs) =
     (let n = [0, 1, 2, 4] ! unat (b AND 3) in (b AND 0xFC, take n bs) # hid_items (drop n bs))"
  by pat_completeness auto
termination
  by (relation "measure length") auto

fun unsigned_item :: "u8 list \<Rightarrow> int" where
  "unsigned_item [] = 0"
| "unsigned_item (b # bs) = uint b + 256 * unsigned_item bs"

definition signed_item :: "u8 list \<Rightarrow> int" where
  "signed_item bs = (let v = unsigned_item bs; m = 256 ^ length bs in if 2 * v \<ge> m then v - m else v)"

record hid_state =
  st_page :: int
  st_min :: int
  st_max :: int
  st_size :: nat
  st_count :: nat
  st_usages :: "int list"
  st_usage_min :: int
  st_depth :: nat
  st_fields :: "report_field list"

definition emit_field :: "field_kind \<Rightarrow> int \<Rightarrow> hid_state \<Rightarrow> hid_state" where
  "emit_field k flags s = s\<lparr>st_usages := [], st_fields := st_fields s @
     [\<lparr>kind = k, is_constant = bit flags 0, is_array = \<not> bit flags 1, is_relative = bit flags 2, usage_page = st_page s,
       usages = st_usages s, logical_range = (st_min s, st_max s), field_bits = st_size s, field_count = st_count s\<rparr>]\<rparr>"

definition hid_step :: "u8 \<times> u8 list \<Rightarrow> hid_state \<Rightarrow> hid_state" where
  "hid_step = (\<lambda>(tag, bs) s. let v = unsigned_item bs in
     if tag = 0x04 then s\<lparr>st_page := v\<rparr>
     else if tag = 0x14 then s\<lparr>st_min := signed_item bs\<rparr>
     else if tag = 0x24 then s\<lparr>st_max := signed_item bs\<rparr>
     else if tag = 0x74 then s\<lparr>st_size := nat v\<rparr>
     else if tag = 0x94 then s\<lparr>st_count := nat v\<rparr>
     else if tag = 0x08 then s\<lparr>st_usages := st_usages s @ [v]\<rparr>
     else if tag = 0x18 then s\<lparr>st_usage_min := v\<rparr>
     else if tag = 0x28 then s\<lparr>st_usages := st_usages s @ [st_usage_min s..v]\<rparr>
     else if tag = 0x80 then emit_field Input v s
     else if tag = 0x90 then emit_field Output v s
     else if tag = 0xA0 then s\<lparr>st_usages := [], st_depth := st_depth s + 1\<rparr>
     else if tag = 0xC0 then s\<lparr>st_depth := st_depth s - 1\<rparr>
     else s)"

definition hid_parse :: "u8 list \<Rightarrow> hid_state" where
  "hid_parse bs = fold hid_step (hid_items bs) \<lparr>st_page = 0, st_min = 0, st_max = 0, st_size = 0, st_count = 0,
     st_usages = [], st_usage_min = 0, st_depth = 0, st_fields = []\<rparr>"

definition report_bits :: "field_kind \<Rightarrow> u8 list \<Rightarrow> nat" where
  "report_bits k bs = sum_list (map (\<lambda>f. field_bits f * field_count f) (filter (\<lambda>f. kind f = k) (st_fields (hid_parse bs))))"

subsection \<open>Walking a configuration\<close>

text \<open>The lengths and types of the descriptors that follow each other; \<open>None\<close> if they do not add up.\<close>

fun walk :: "nat \<Rightarrow> u8 list \<Rightarrow> (u8 list) list option" where
  "walk 0 bs = (if bs = [] then Some [] else None)"
| "walk (Suc n) [] = Some []"
| "walk (Suc n) (b # bs) =
     (let l = unat b in if l = 0 \<or> l > length (b # bs) then None
      else map_option ((#) (take l (b # bs))) (walk n (drop l (b # bs))))"

definition variable_field :: "field_kind \<Rightarrow> bool \<Rightarrow> int \<Rightarrow> int list \<Rightarrow> int \<times> int \<Rightarrow> nat \<Rightarrow> nat \<Rightarrow> report_field" where
  "variable_field k rel page us lims bits n =
     \<lparr>kind = k, is_constant = False, is_array = False, is_relative = rel, usage_page = page, usages = us, logical_range = lims,
      field_bits = bits, field_count = n\<rparr>"

definition padding_field :: "field_kind \<Rightarrow> int \<Rightarrow> int \<times> int \<Rightarrow> nat \<Rightarrow> report_field" where
  "padding_field k page lims bits =
     \<lparr>kind = k, is_constant = True, is_array = True, is_relative = False, usage_page = page, usages = [], logical_range = lims,
      field_bits = bits, field_count = 1\<rparr>"

subsection \<open>Enumeration\<close>

text \<open>
  A host asks for the configuration and takes the other descriptors from there: the parts of each
  interface, its HID descriptor, and the report descriptor whose length that one states. A lookup is given
  the type and the number of a descriptor in one value.
\<close>

type_synonym lookup = "u16 \<Rightarrow> u8 \<Rightarrow> (u8 list) option \<times> u16"

abbreviation descriptor_value :: "u8 \<Rightarrow> u8 \<Rightarrow> u16" where
  "descriptor_value ty num \<equiv> short_of_bytes [num, ty]"

definition of_type :: "u8 \<Rightarrow> u8 list \<Rightarrow> bool" where
  "of_type ty d \<longleftrightarrow> 2 \<le> length d \<and> d ! 1 = ty"

text \<open>Each interface with the descriptors that follow it.\<close>

definition interface_groups :: "(u8 list) list \<Rightarrow> (u8 list \<times> (u8 list) list) list" where
  "interface_groups ds = fst (foldr (\<lambda>d (gs, following). if of_type DTYPE_Interface d then ((d, following) # gs, [])
     else (gs, d # following)) ds ([], []))"

definition interface_number :: "u8 list \<Rightarrow> u8" where "interface_number i = i ! 2"
definition stated_endpoints :: "u8 list \<Rightarrow> u8" where "stated_endpoints i = i ! 4"
definition report_length :: "u8 list \<Rightarrow> u16" where "report_length h = short_of_bytes (drop 7 h)"
definition packet_bytes :: "u8 list \<Rightarrow> u16" where "packet_bytes e = short_of_bytes (take 2 (drop 4 e))"

text \<open>
  The reports of an interface fit into one packet of each of its endpoints, which send to the host by interrupts.
\<close>

definition report_reachable :: "lookup \<Rightarrow> u8 \<Rightarrow> u8 list \<Rightarrow> (u8 list) list \<Rightarrow> bool" where
  "report_reachable get i h endpoints \<longleftrightarrow>
     get (descriptor_value HID_DTYPE_HID 0) i = (Some h, of_nat (length h))
     \<and> (case get (descriptor_value HID_DTYPE_Report 0) i of
          (Some r, n) \<Rightarrow> n = report_length h \<and> length r = unat n \<and> st_depth (hid_parse r) = 0 \<and> st_fields (hid_parse r) \<noteq> []
            \<and> report_bits Input r mod 8 = 0 \<and> report_bits Output r mod 8 = 0
            \<and> list_all (\<lambda>e. bit (e ! 2) 7 \<and> e ! 3 = 3 \<and> report_bits Input r \<le> 8 * unat (packet_bytes e)) endpoints
        | (None, n) \<Rightarrow> False)"

definition interface_ok :: "lookup \<Rightarrow> u8 list \<times> (u8 list) list \<Rightarrow> bool" where
  "interface_ok get = (\<lambda>(i, ds).
     let endpoints = filter (of_type DTYPE_Endpoint) ds; hids = filter (of_type HID_DTYPE_HID) ds in
     length endpoints = unat (stated_endpoints i) \<and> length ds = length endpoints + length hids
     \<and> list_all (\<lambda>h. report_reachable get (interface_number i) h endpoints) hids)"

definition enumerates :: "lookup \<Rightarrow> bool" where
  "enumerates get \<longleftrightarrow> (case get (descriptor_value DTYPE_Configuration 0) 0 of
     (Some c, n) \<Rightarrow> length c = unat n \<and> short_of_bytes (take 2 (drop 2 c)) = n
       \<and> (case walk 8 c of
            Some (config # parts) \<Rightarrow> of_type DTYPE_Configuration config
              \<and> map (interface_number \<circ> fst) (interface_groups parts) = map of_nat [0..<unat (config ! 4)]
              \<and> list_all (interface_ok get) (interface_groups parts)
              \<and> distinct (map (\<lambda>e. e ! 2) (filter (of_type DTYPE_Endpoint) parts))
          | _ \<Rightarrow> False)
   | (None, n) \<Rightarrow> False)"

text \<open>What is asked for, and what an answer has to look like: no descriptor has size 0.\<close>

definition has_descriptor :: "u8 \<Rightarrow> u8 \<Rightarrow> u8 \<Rightarrow> bool" where
  "has_descriptor ty num i \<longleftrightarrow> ty \<in> {DTYPE_Device, DTYPE_Configuration} \<or> ty = DTYPE_String \<and> num \<le> 3
     \<or> ty \<in> {HID_DTYPE_HID, HID_DTYPE_Report} \<and> i \<in> {1, 2}"

definition answer_ok :: "u8 \<Rightarrow> (u8 list) option \<times> u16 \<Rightarrow> bool" where
  "answer_ok ty = (\<lambda>(d, n). case d of None \<Rightarrow> n = 0
     | Some b \<Rightarrow> n \<noteq> 0 \<and> length b = unat n \<and> (ty \<noteq> HID_DTYPE_Report \<longrightarrow> b ! 1 = ty \<and>
         (if ty = DTYPE_Configuration then b ! 0 = 9 \<and> short_of_bytes (take 2 (drop 2 b)) = n else b ! 0 = ucast n)))"

text \<open>The characters of a string descriptor.\<close>

fun descriptor_text :: "u8 list \<Rightarrow> nat list" where
  "descriptor_text (l # h # bs) = unat (short_of_bytes [l, h]) # descriptor_text bs"
| "descriptor_text bs = []"

definition says :: "(u8 list) option \<times> u16 \<Rightarrow> string \<Rightarrow> bool" where
  "says r str \<longleftrightarrow> map_option (descriptor_text \<circ> drop 2) (fst r) = Some (map of_char str)"

lemma keyboard_fields: "st_fields (hid_parse KeyboardReport) = [
    variable_field Input False 7 [0xE0..0xE7] (0, 1) 1 8,
    padding_field Input 7 (0, 1) 8,
    variable_field Output False 8 [1..5] (0, 1) 1 5,
    padding_field Output 8 (0, 1) 3,
    (variable_field Input False 7 [0..0xE7] (0, 0xE7) 8 6)\<lparr>is_array := True\<rparr>]
  \<and> st_depth (hid_parse KeyboardReport) = 0"
  by code_simp

lemma mouse_fields: "st_fields (hid_parse MouseReport) = [
    variable_field Input False 9 [1..5] (0, 1) 1 5,
    padding_field Input 9 (0, 1) 3,
    variable_field Input True 1 [0x30, 0x31, 0x38] (- 127, 127) 8 3,
    variable_field Input True 0x0C [0x238] (- 127, 127) 8 1]
  \<and> st_depth (hid_parse MouseReport) = 0"
  by code_simp

lemma configuration_walk: "walk 8 ConfigurationDescriptor = Some [take 9 ConfigurationDescriptor, CFG_Interface,
    HID1_KeyboardInterface, HID1_KeyboardHID, HID1_ReportINEndpoint, HID2_MouseInterface, HID2_MouseHID, HID2_ReportINEndpoint]"
  by code_simp

lemma value_parts:
  "ucast (drop_bit 8 (descriptor_value ty num)) = ty" "ucast (descriptor_value ty num AND 0xFF) = num"
proof -
  show "ucast (drop_bit 8 (descriptor_value ty num)) = ty"
    by (rule bit_word_eqI) (auto simp: bit_simps short_of_bytes_def dest: bit_imp_le_length)
  have m: "(0xFF :: u16) = mask 8" by (simp add: mask_eq_decr_exp)
  show "ucast (descriptor_value ty num AND 0xFF) = num"
    unfolding m by (rule bit_word_eqI) (auto simp: bit_simps short_of_bytes_def)
qed

lemma every_answer:
  "list_all (answer_ok DTYPE_String) [(Some LanguageString, ucast (LanguageString ! 0)),
     (Some ManufacturerString, ucast (ManufacturerString ! 0)), (Some ProductString, ucast (ProductString ! 0)),
     (Some SerialNumberString, ucast (SerialNumberString ! 0))]"
  "answer_ok DTYPE_Device (Some DeviceDescriptor, 18)"
  "answer_ok DTYPE_Configuration (Some ConfigurationDescriptor, CONFIGURATION_SIZE)"
  "answer_ok HID_DTYPE_HID (Some HID1_KeyboardHID, 9)" "answer_ok HID_DTYPE_HID (Some HID2_MouseHID, 9)"
  "answer_ok HID_DTYPE_Report (Some KeyboardReport, of_nat (length KeyboardReport))"
  "answer_ok HID_DTYPE_Report (Some MouseReport, of_nat (length MouseReport))"
  by code_simp+

lemmas descriptor_types = DTYPE_Device_def DTYPE_Configuration_def DTYPE_String_def HID_DTYPE_HID_def HID_DTYPE_Report_def

lemma small_number: "num \<le> 3 \<longleftrightarrow> num = 0 \<or> num = 1 \<or> num = 2 \<or> num = 3" for num :: u8
  by (simp add: word_le_nat_alt word_unat_eq_iff) presburger

lemma lookup_answers:
  "answer_ok ty (CALLBACK_USB_GetDescriptor (descriptor_value ty num) i)
   \<and> (fst (CALLBACK_USB_GetDescriptor (descriptor_value ty num) i) = None \<longleftrightarrow> \<not> has_descriptor ty num i)"
proof -
  have "answer_ok ty (None, 0)" by (simp add: answer_ok_def)
  then show ?thesis using every_answer unfolding CALLBACK_USB_GetDescriptor_def value_parts Let_def has_descriptor_def small_number
    by (auto simp: descriptor_types)
qed

lemma vusb_lookup: "usbFunctionDescriptor v (ucast i) = CALLBACK_USB_GetDescriptor v i"
proof -
  have "(ucast i :: u16) = 1 \<longleftrightarrow> i = 1" "(ucast i :: u16) = 2 \<longleftrightarrow> i = 2" by (simp_all add: word_unat_eq_iff)
  then show ?thesis by (simp add: usbFunctionDescriptor_def CALLBACK_USB_GetDescriptor_def)
qed

lemma lookup_enumerates: "enumerates CALLBACK_USB_GetDescriptor"
  by code_simp

lemma lookup_texts:
  "says (CALLBACK_USB_GetDescriptor (descriptor_value DTYPE_String (DeviceDescriptor ! 14)) 0) ''andreae.gen.nz''"
  "says (CALLBACK_USB_GetDescriptor (descriptor_value DTYPE_String (DeviceDescriptor ! 15)) 0) ''K84CS USB Keyboard''"
  "says (CALLBACK_USB_GetDescriptor (descriptor_value DTYPE_String (DeviceDescriptor ! 16)) 0) ''andreae.gen.nz:k84cs''"
  by code_simp+

text \<open>
  C40: what the host is told about the device is complete and consistent. For every type, number and index
  the lookup returns a descriptor exactly when there is one, with its length, its own type and the length
  (of the configuration, the total) that it states. From the configuration that the lookup returns the host
  can enumerate the device: the parts follow each other with the lengths they state and fill the total; the
  interfaces are numbered from 0 and are as many as it states, each followed by as many endpoints as it
  states; the lookup returns for each interface the HID descriptor that is in the configuration and a report
  descriptor of the length this one states, and the reports it describes are whole bytes and fit into a packet of
  the endpoints, which have different numbers and send interrupts to the host. These reports are eight
  modifier bits, a constant byte and six key codes up to \<open>0xE7\<close>, eight bytes in all, with a report of five
  LEDs; and five buttons, three relative axes and a horizontal wheel, five bytes in all. The strings that
  the device descriptor points to are those of the keyboard. The lookup of the V-USB build returns the same.
\<close>

theorem usb_descriptors_consistent:
  "(\<forall>ty num i. answer_ok ty (CALLBACK_USB_GetDescriptor (descriptor_value ty num) i)
     \<and> (fst (CALLBACK_USB_GetDescriptor (descriptor_value ty num) i) = None \<longleftrightarrow> \<not> has_descriptor ty num i))
   \<and> enumerates CALLBACK_USB_GetDescriptor
   \<and> map_option (st_fields \<circ> hid_parse) (fst (CALLBACK_USB_GetDescriptor 0x2200 1)) = Some [
     variable_field Input False 7 [0xE0..0xE7] (0, 1) 1 8, padding_field Input 7 (0, 1) 8,
     variable_field Output False 8 [1..5] (0, 1) 1 5, padding_field Output 8 (0, 1) 3,
     (variable_field Input False 7 [0..0xE7] (0, 0xE7) 8 6)\<lparr>is_array := True\<rparr>]
   \<and> map_option (st_fields \<circ> hid_parse) (fst (CALLBACK_USB_GetDescriptor 0x2200 2)) = Some [
     variable_field Input False 9 [1..5] (0, 1) 1 5, padding_field Input 9 (0, 1) 3,
     variable_field Input True 1 [0x30, 0x31, 0x38] (- 127, 127) 8 3, variable_field Input True 0x0C [0x238] (- 127, 127) 8 1]
   \<and> report_bits Input KeyboardReport = 8 * 8 \<and> report_bits Output KeyboardReport = 8 \<and> report_bits Input MouseReport = 8 * 5
   \<and> walk 8 ConfigurationDescriptor = Some [take 9 ConfigurationDescriptor, CFG_Interface, HID1_KeyboardInterface, HID1_KeyboardHID,
       HID1_ReportINEndpoint, HID2_MouseInterface, HID2_MouseHID, HID2_ReportINEndpoint]
   \<and> says (CALLBACK_USB_GetDescriptor (descriptor_value DTYPE_String (DeviceDescriptor ! 14)) 0) ''andreae.gen.nz''
   \<and> says (CALLBACK_USB_GetDescriptor (descriptor_value DTYPE_String (DeviceDescriptor ! 15)) 0) ''K84CS USB Keyboard''
   \<and> says (CALLBACK_USB_GetDescriptor (descriptor_value DTYPE_String (DeviceDescriptor ! 16)) 0) ''andreae.gen.nz:k84cs''
   \<and> (\<forall>v i. usbFunctionDescriptor v (ucast i) = CALLBACK_USB_GetDescriptor v i)"
proof -
  have "report_bits Input KeyboardReport = 8 * 8" "report_bits Output KeyboardReport = 8" "report_bits Input MouseReport = 8 * 5"
    using keyboard_fields mouse_fields by (simp_all add: report_bits_def variable_field_def padding_field_def)
  moreover have "fst (CALLBACK_USB_GetDescriptor 0x2200 1) = Some KeyboardReport" "fst (CALLBACK_USB_GetDescriptor 0x2200 2) = Some MouseReport"
    by code_simp+
  ultimately show ?thesis
    using keyboard_fields mouse_fields configuration_walk lookup_answers lookup_enumerates lookup_texts vusb_lookup
    by (simp only: option.map comp_apply) blast
qed

end
