(* ===== verification/Twi.thy ===== *)
theory Twi
  imports Prelude "HOL-Library.Monad_Syntax"
begin

text \<open>
  \<open>twi.c\<close>: the two-wire bus of the boards that keep macros and programs in an I2C EEPROM. The file has
  two implementations of one interface. The one for boards without the bus peripheral on the right
  pins drives the two lines by hand; what the lines do is a parameter \<open>wires\<close>. The other, whose names
  carry the suffix \<open>_hw\<close>, programs the peripheral, whose registers are a parameter \<open>twi_unit\<close>. A wait
  that never ends is \<open>None\<close>.
\<close>

datatype twi_ack = ACK | NACK
datatype twi_wait = NOWAIT | WAIT

fun twi_ack_code :: "twi_ack \<Rightarrow> u8" where
  "twi_ack_code ACK = 0"
| "twi_ack_code NACK = 1"

text \<open>The interface of \<open>twi.h\<close>, with the millisecond delay its clients use between attempts.\<close>

record 'c twi_port =
  port_start :: "'c \<Rightarrow> 'c option"
  port_stop :: "twi_wait \<Rightarrow> 'c \<Rightarrow> 'c option"
  port_read_byte :: "twi_ack \<Rightarrow> 'c \<Rightarrow> (u8 \<times> 'c) option"
  port_write_byte :: "u8 \<Rightarrow> 'c \<Rightarrow> (twi_ack \<times> 'c) option"
  port_delay_ms :: "'c \<Rightarrow> 'c"

subsection \<open>The lines driven by hand\<close>

text \<open>
  The lines have pull-ups: a pin that is an output holds its line low, a pin that is an input lets it
  float. \<open>wires_react\<close> is the effect of new pin settings (direction and port register) on the lines and
  the devices, \<open>wires_pin\<close> the levels the pin register reads.
\<close>

definition EEPROM_SCL :: u8 where "EEPROM_SCL = 2"
definition EEPROM_SDA :: u8 where "EEPROM_SDA = 4"

record 'd wires =
  wires_react :: "u8 \<Rightarrow> u8 \<Rightarrow> 'd \<Rightarrow> 'd"
  wires_pin :: "'d \<Rightarrow> u8"
  wires_clock :: "'d \<Rightarrow> 'd"
  wires_ms :: "'d \<Rightarrow> 'd"

record 'd twi_lines =
  EEPROM_DDR :: u8
  EEPROM_PORT :: u8
  world :: 'd

definition set_EEPROM_DDR :: "'d wires \<Rightarrow> u8 \<Rightarrow> 'd twi_lines \<Rightarrow> 'd twi_lines" where
  "set_EEPROM_DDR w v s = s\<lparr>EEPROM_DDR := v, world := wires_react w v (EEPROM_PORT s) (world s)\<rparr>"

definition set_EEPROM_PORT :: "'d wires \<Rightarrow> u8 \<Rightarrow> 'd twi_lines \<Rightarrow> 'd twi_lines" where
  "set_EEPROM_PORT w v s = s\<lparr>EEPROM_PORT := v, world := wires_react w (EEPROM_DDR s) v (world s)\<rparr>"

definition twi_delay :: "'d wires \<Rightarrow> 'd twi_lines \<Rightarrow> 'd twi_lines" where
  "twi_delay w s = s\<lparr>world := wires_clock w (world s)\<rparr>"

definition twi_sda_high :: "'d wires \<Rightarrow> 'd twi_lines \<Rightarrow> 'd twi_lines" where
  "twi_sda_high w s = set_EEPROM_DDR w (EEPROM_DDR s AND NOT EEPROM_SDA) s"

definition twi_sda_low :: "'d wires \<Rightarrow> 'd twi_lines \<Rightarrow> 'd twi_lines" where
  "twi_sda_low w s = set_EEPROM_DDR w (EEPROM_DDR s OR EEPROM_SDA) s"

definition twi_scl_high :: "'d wires \<Rightarrow> 'd twi_lines \<Rightarrow> 'd twi_lines" where
  "twi_scl_high w s = set_EEPROM_DDR w (EEPROM_DDR s AND NOT EEPROM_SCL) s"

definition twi_scl_low :: "'d wires \<Rightarrow> 'd twi_lines \<Rightarrow> 'd twi_lines" where
  "twi_scl_low w s = set_EEPROM_DDR w (EEPROM_DDR s OR EEPROM_SCL) s"

definition twi_init :: "'d wires \<Rightarrow> 'd twi_lines \<Rightarrow> 'd twi_lines" where
  "twi_init w s =
     (let s = set_EEPROM_PORT w (EEPROM_PORT s AND NOT (EEPROM_SCL OR EEPROM_SDA)) s
      in set_EEPROM_DDR w (EEPROM_DDR s AND NOT (EEPROM_SCL OR EEPROM_SDA)) s)"

definition twi_start :: "'d wires \<Rightarrow> 'd twi_lines \<Rightarrow> 'd twi_lines" where
  "twi_start w s =
     (let s = set_EEPROM_DDR w (EEPROM_DDR s AND NOT (EEPROM_SDA OR EEPROM_SCL)) s;
          s = twi_delay w s;
          s = twi_sda_low w s;
          s = twi_delay w s
      in twi_scl_low w s)"

definition twi_stop :: "'d wires \<Rightarrow> 'd twi_lines \<Rightarrow> 'd twi_lines" where
  "twi_stop w s =
     (let s = twi_sda_low w s;
          s = twi_delay w s;
          s = twi_scl_high w s;
          s = twi_delay w s;
          s = twi_sda_high w s
      in twi_delay w s)"

partial_function (option) twi_clock_stretch :: "'d wires \<Rightarrow> 'd twi_lines \<Rightarrow> 'd twi_lines option" where
  "twi_clock_stretch w s =
     (if wires_pin w (world s) AND EEPROM_SCL = 0 then twi_clock_stretch w (twi_delay w s) else Some s)"

definition twi_write_bit :: "'d wires \<Rightarrow> u8 \<Rightarrow> 'd twi_lines \<Rightarrow> 'd twi_lines option" where
  "twi_write_bit w b s = do {
     let s = (if b \<noteq> 0 then twi_sda_high w s else twi_sda_low w s);
     let s = twi_delay w s;
     let s = twi_scl_high w s;
     s \<leftarrow> twi_clock_stretch w s;
     let s = twi_delay w s;
     Some (twi_scl_low w s) }"

definition twi_read_bit :: "'d wires \<Rightarrow> 'd twi_lines \<Rightarrow> (u8 \<times> 'd twi_lines) option" where
  "twi_read_bit w s = do {
     let s = twi_sda_high w s;
     let s = twi_delay w s;
     let s = twi_scl_high w s;
     s \<leftarrow> twi_clock_stretch w s;
     let s = twi_delay w s;
     let c = (if wires_pin w (world s) AND EEPROM_SDA \<noteq> 0 then 1 else 0);
     Some (c, twi_scl_low w s) }"

text \<open>The loops over the eight bits; \<open>n\<close> iterations are left.\<close>

fun twi_write_bits :: "'d wires \<Rightarrow> nat \<Rightarrow> u8 \<Rightarrow> 'd twi_lines \<Rightarrow> 'd twi_lines option" where
  "twi_write_bits w 0 b s = Some s"
| "twi_write_bits w (Suc n) b s = do {
     s \<leftarrow> twi_write_bit w (b AND 128) s;
     twi_write_bits w n (push_bit 1 b) s }"

fun twi_read_bits :: "'d wires \<Rightarrow> nat \<Rightarrow> u8 \<Rightarrow> 'd twi_lines \<Rightarrow> (u8 \<times> 'd twi_lines) option" where
  "twi_read_bits w 0 r s = Some (r, s)"
| "twi_read_bits w (Suc n) r s = do {
     (c, s) \<leftarrow> twi_read_bit w s;
     twi_read_bits w n (push_bit 1 r OR c) s }"

definition twi_write_byte :: "'d wires \<Rightarrow> u8 \<Rightarrow> 'd twi_lines \<Rightarrow> (twi_ack \<times> 'd twi_lines) option" where
  "twi_write_byte w b s = do {
     s \<leftarrow> twi_write_bits w 8 b s;
     (c, s) \<leftarrow> twi_read_bit w s;
     Some (if c = twi_ack_code ACK then ACK else NACK, s) }"

definition twi_read_byte :: "'d wires \<Rightarrow> twi_ack \<Rightarrow> 'd twi_lines \<Rightarrow> (u8 \<times> 'd twi_lines) option" where
  "twi_read_byte w ack s = do {
     (r, s) \<leftarrow> twi_read_bits w 8 0 s;
     s \<leftarrow> twi_write_bit w (twi_ack_code ack) s;
     Some (r, s) }"

text \<open>\<open>twi_stop\<close> takes no argument here: the lines are idle when it returns.\<close>

definition bitbang_port :: "'d wires \<Rightarrow> 'd twi_lines twi_port" where
  "bitbang_port w =
     \<lparr>port_start = (\<lambda>s. Some (twi_start w s)), port_stop = (\<lambda>_ s. Some (twi_stop w s)),
      port_read_byte = twi_read_byte w, port_write_byte = twi_write_byte w,
      port_delay_ms = (\<lambda>s. s\<lparr>world := wires_ms w (world s)\<rparr>)\<rparr>"

subsection \<open>The bus peripheral\<close>

text \<open>
  The registers of the peripheral: writing \<open>TWCR\<close> starts a job, reading it takes time. \<open>TW_STATUS\<close>
  is \<open>TWSR\<close> without its prescaler bits.
\<close>

record 'h twi_unit =
  set_TWCR :: "u8 \<Rightarrow> 'h \<Rightarrow> 'h"
  get_TWCR :: "'h \<Rightarrow> u8 \<times> 'h"
  set_TWDR :: "u8 \<Rightarrow> 'h \<Rightarrow> 'h"
  get_TWDR :: "'h \<Rightarrow> u8"
  set_TWSR :: "u8 \<Rightarrow> 'h \<Rightarrow> 'h"
  get_TWSR :: "'h \<Rightarrow> u8"
  set_TWBR :: "u8 \<Rightarrow> 'h \<Rightarrow> 'h"
  unit_ms :: "'h \<Rightarrow> 'h"

definition TWINT :: u8 where "TWINT = 0x80"
definition TWEA :: u8 where "TWEA = 0x40"
definition TWSTA :: u8 where "TWSTA = 0x20"
definition TWSTO :: u8 where "TWSTO = 0x10"
definition TWEN :: u8 where "TWEN = 0x04"
definition TW_STATUS_MASK :: u8 where "TW_STATUS_MASK = 0xF8"
definition TW_MT_SLA_ACK :: u8 where "TW_MT_SLA_ACK = 0x18"
definition TW_MT_DATA_ACK :: u8 where "TW_MT_DATA_ACK = 0x28"
definition TW_MR_SLA_ACK :: u8 where "TW_MR_SLA_ACK = 0x40"
definition TWI_FREQ :: nat where "TWI_FREQ = 100000"

definition twi_init_hw :: "'h twi_unit \<Rightarrow> nat \<Rightarrow> 'h \<Rightarrow> 'h" where
  "twi_init_hw u f_cpu h =
     (let h = set_TWSR u (get_TWSR u h AND NOT 3) h in set_TWBR u (of_nat ((f_cpu div TWI_FREQ - 16) div 2)) h)"

text \<open>The wait until a bit of \<open>TWCR\<close> is set, or clear.\<close>

partial_function (option) twi_await :: "'h twi_unit \<Rightarrow> u8 \<Rightarrow> bool \<Rightarrow> 'h \<Rightarrow> 'h option" where
  "twi_await u m v h = (let (r, h) = get_TWCR u h in if (r AND m \<noteq> 0) = v then Some h else twi_await u m v h)"

definition twi_start_hw :: "'h twi_unit \<Rightarrow> 'h \<Rightarrow> 'h option" where
  "twi_start_hw u h = twi_await u TWINT True (set_TWCR u (TWINT OR TWSTA OR TWEN) h)"

definition twi_stop_hw :: "'h twi_unit \<Rightarrow> twi_wait \<Rightarrow> 'h \<Rightarrow> 'h option" where
  "twi_stop_hw u wait h =
     (let h = set_TWCR u (TWINT OR TWSTO OR TWEN) h in if wait = WAIT then twi_await u TWSTO False h else Some h)"

definition twi_read_byte_hw :: "'h twi_unit \<Rightarrow> twi_ack \<Rightarrow> 'h \<Rightarrow> (u8 \<times> 'h) option" where
  "twi_read_byte_hw u ack h = do {
     let h = set_TWCR u (TWINT OR TWEN) h;
     let h = (if ack = ACK then (let (r, h) = get_TWCR u h in set_TWCR u (r OR TWEA) h) else h);
     h \<leftarrow> twi_await u TWINT True h;
     Some (get_TWDR u h, h) }"

definition twi_write_byte_hw :: "'h twi_unit \<Rightarrow> u8 \<Rightarrow> 'h \<Rightarrow> (twi_ack \<times> 'h) option" where
  "twi_write_byte_hw u v h = do {
     let h = set_TWDR u v h;
     let h = set_TWCR u (TWINT OR TWEN) h;
     h \<leftarrow> twi_await u TWINT True h;
     let status = get_TWSR u h AND TW_STATUS_MASK;
     Some (if status = TW_MT_DATA_ACK \<or> status = TW_MT_SLA_ACK \<or> status = TW_MR_SLA_ACK then ACK else NACK, h) }"

definition hardware_port :: "'h twi_unit \<Rightarrow> 'h twi_port" where
  "hardware_port u =
     \<lparr>port_start = twi_start_hw u, port_stop = twi_stop_hw u, port_read_byte = twi_read_byte_hw u,
      port_write_byte = twi_write_byte_hw u, port_delay_ms = unit_ms u\<rparr>"

end
