(* ===== verification/TwiCorrect.thy ===== *)
theory TwiCorrect
  imports Twi
begin

text \<open>
  What the two-wire bus carries. A device on the bus is known by what it does with whole bytes, the
  record \<open>i2c_device\<close>; the locale \<open>i2c_bus\<close> says that a port delivers start and stop conditions, bytes
  and acknowledgements to the device. Both implementations of \<open>twi.c\<close> are shown to be such ports: the
  lines driven by hand for a device that watches the levels of the two lines and may stretch the
  clock, the peripheral for any device behind a unit that works as its data sheet says.
\<close>

subsection \<open>A device on the bus\<close>

text \<open>
  \<open>dev_byte\<close> takes a byte and tells whether it acknowledges it, \<open>dev_give\<close> is the byte the device sends
  while it \<open>dev_talks\<close>, \<open>dev_sent\<close> follows it with the answer of the other side. \<open>dev_open\<close> holds between
  a start and the next stop condition.
\<close>

record 'e i2c_device =
  dev_start :: "'e \<Rightarrow> 'e"
  dev_stop :: "'e \<Rightarrow> 'e"
  dev_byte :: "u8 \<Rightarrow> 'e \<Rightarrow> bool \<times> 'e"
  dev_talks :: "'e \<Rightarrow> bool"
  dev_give :: "'e \<Rightarrow> u8"
  dev_sent :: "bool \<Rightarrow> 'e \<Rightarrow> 'e"
  dev_open :: "'e \<Rightarrow> bool"
  dev_ms :: "'e \<Rightarrow> 'e"
  dev_stretch :: "'e \<Rightarrow> nat"

locale i2c_bus =
  fixes port :: "'c twi_port" and dev :: "'e i2c_device" and joined :: "'c \<Rightarrow> 'e \<Rightarrow> bool"
  assumes start_law: "joined c e \<Longrightarrow> \<not> dev_talks dev e \<Longrightarrow>
      \<exists>d. port_start port c = Some d \<and> joined d (dev_start dev e)"
    and stop_law: "joined c e \<Longrightarrow> \<not> dev_talks dev e \<Longrightarrow>
      \<exists>d. port_stop port NOWAIT c = Some d \<and> joined d (dev_stop dev e)"
    and write_law: "joined c e \<Longrightarrow> dev_open dev e \<Longrightarrow> \<not> dev_talks dev e \<Longrightarrow> dev_byte dev b e = (a, f) \<Longrightarrow>
      \<exists>d. port_write_byte port b c = Some (if a then ACK else NACK, d) \<and> joined d f"
    and read_law: "joined c e \<Longrightarrow> dev_talks dev e \<Longrightarrow>
      \<exists>d. port_read_byte port k c = Some (dev_give dev e, d) \<and> joined d (dev_sent dev (k = ACK) e)"
    and delay_law: "joined c e \<Longrightarrow> \<not> dev_talks dev e \<Longrightarrow> joined (port_delay_ms port c) (dev_ms dev e)"

text \<open>What every device keeps to.\<close>

locale i2c_listener =
  fixes dev :: "'e i2c_device"
  assumes open_start: "dev_open dev (dev_start dev e)"
    and open_stop: "\<not> dev_open dev (dev_stop dev e)"
    and open_byte: "dev_open dev e \<Longrightarrow> dev_open dev (snd (dev_byte dev b e))"
    and open_sent: "dev_open dev e \<Longrightarrow> dev_open dev (dev_sent dev k e)"
    and open_ms: "dev_open dev (dev_ms dev e) = dev_open dev e"
    and talks_open: "dev_talks dev e \<Longrightarrow> dev_open dev e"
    and talks_start: "\<not> dev_talks dev (dev_start dev e)"
    and talks_ms: "\<not> dev_talks dev e \<Longrightarrow> \<not> dev_talks dev (dev_ms dev e)"
    and stop_again: "\<not> dev_open dev e \<Longrightarrow> dev_stop dev (dev_start dev e) = dev_stop dev e"

subsection \<open>Watching the lines\<close>

text \<open>
  A device that watches the lines. \<open>sda_master\<close> and \<open>scl_master\<close> tell that the firmware lets the line
  float, \<open>pulls_sda\<close> and \<open>stretch\<close> that the device holds it low; \<open>sda_line\<close> and \<open>scl_line\<close> are the last
  levels. \<open>frame_in\<close> holds the bits since the last boundary of nine clocks, sampled when the clock
  rises; the device acts when it falls.
\<close>

record 'e line_device =
  inner :: 'e
  sda_master :: bool
  scl_master :: bool
  sda_line :: bool
  scl_line :: bool
  pulls_sda :: bool
  stretch :: nat
  frame_in :: "bool list"
  sending :: bool

definition byte_of_bits :: "bool list \<Rightarrow> u8" where
  "byte_of_bits bs = foldl (\<lambda>r c. push_bit 1 r OR (if c then 1 else 0)) 0 bs"

definition next_frame :: "'e i2c_device \<Rightarrow> 'e line_device \<Rightarrow> 'e line_device" where
  "next_frame dev d =
     d\<lparr>frame_in := [], sending := dev_talks dev (inner d), stretch := 0,
       pulls_sda := dev_talks dev (inner d) \<and> \<not> bit (dev_give dev (inner d)) 7\<rparr>"

definition clock_fall :: "'e i2c_device \<Rightarrow> 'e line_device \<Rightarrow> 'e line_device" where
  "clock_fall dev d =
     (let k = length (frame_in d); e = inner d; w = dev_stretch dev e in
      if k = 0 then d
      else if sending d then
        if k < 8 then d\<lparr>pulls_sda := \<not> bit (dev_give dev e) (7 - k), stretch := w\<rparr>
        else if k = 8 then d\<lparr>pulls_sda := False, stretch := w\<rparr>
        else next_frame dev (d\<lparr>inner := dev_sent dev (\<not> last (frame_in d)) e\<rparr>)
      else if k < 8 then d\<lparr>stretch := w\<rparr>
      else if k = 8 then let (a, e) = dev_byte dev (byte_of_bits (frame_in d)) e in d\<lparr>inner := e, pulls_sda := a, stretch := w\<rparr>
      else next_frame dev d)"

definition condition_seen :: "('e \<Rightarrow> 'e) \<Rightarrow> 'e line_device \<Rightarrow> 'e line_device" where
  "condition_seen f d = d\<lparr>inner := f (inner d), frame_in := [], sending := False, pulls_sda := False\<rparr>"

definition settle :: "'e i2c_device \<Rightarrow> 'e line_device \<Rightarrow> 'e line_device" where
  "settle dev d =
     (let sda = sda_master d \<and> \<not> pulls_sda d; scl = scl_master d \<and> stretch d = 0 in
      if scl_line d \<and> scl then
        (let d' = d\<lparr>sda_line := sda\<rparr> in
         if sda_line d \<and> \<not> sda then condition_seen (dev_start dev) d'
         else if \<not> sda_line d \<and> sda then condition_seen (dev_stop dev) d' else d')
      else if scl then d\<lparr>sda_line := sda, scl_line := True, frame_in := frame_in d @ [sda]\<rparr>
      else if scl_line d then
        (let d = clock_fall dev (d\<lparr>scl_line := False\<rparr>) in d\<lparr>sda_line := sda_master d \<and> \<not> pulls_sda d\<rparr>)
      else d\<lparr>sda_line := sda\<rparr>)"

definition device_wires :: "'e i2c_device \<Rightarrow> 'e line_device wires" where
  "device_wires dev =
     \<lparr>wires_react = (\<lambda>ddr port d. settle dev (d\<lparr>sda_master := \<not> bit ddr 2 \<or> bit port 2, scl_master := \<not> bit ddr 1 \<or> bit port 1\<rparr>)),
      wires_pin = (\<lambda>d. (if sda_line d then EEPROM_SDA else 0) OR (if scl_line d then EEPROM_SCL else 0)),
      wires_clock = (\<lambda>d. settle dev (d\<lparr>stretch := stretch d - 1\<rparr>)),
      wires_ms = (\<lambda>d. d\<lparr>inner := dev_ms dev (inner d)\<rparr>)\<rparr>"

subsection \<open>Pins and registers\<close>

definition pins_ok :: "'e line_device twi_lines \<Rightarrow> bool" where
  "pins_ok s \<longleftrightarrow> \<not> bit (EEPROM_PORT s) 1 \<and> \<not> bit (EEPROM_PORT s) 2
     \<and> sda_master (world s) = (\<not> bit (EEPROM_DDR s) 2) \<and> scl_master (world s) = (\<not> bit (EEPROM_DDR s) 1)"

lemma pin_bits [simp]:
  "bit EEPROM_SCL n \<longleftrightarrow> n = 1" "bit EEPROM_SDA n \<longleftrightarrow> n = 2"
proof -
  have p: "EEPROM_SCL = 2 ^ 1" "EEPROM_SDA = 2 ^ 2" by (simp_all add: EEPROM_SCL_def EEPROM_SDA_def)
  show "bit EEPROM_SCL n \<longleftrightarrow> n = 1" "bit EEPROM_SDA n \<longleftrightarrow> n = 2" unfolding p bit_exp_iff by auto
qed

lemma wires_simps [simp]:
  "wires_pin (device_wires dev) d AND EEPROM_SCL = 0 \<longleftrightarrow> \<not> scl_line d"
  "wires_pin (device_wires dev) d AND EEPROM_SDA = 0 \<longleftrightarrow> \<not> sda_line d"
  "wires_clock (device_wires dev) d = settle dev (d\<lparr>stretch := stretch d - 1\<rparr>)"
  "wires_ms (device_wires dev) d = d\<lparr>inner := dev_ms dev (inner d)\<rparr>"
  by (auto simp: device_wires_def EEPROM_SCL_def EEPROM_SDA_def)

lemma settle_master [simp]:
  "sda_master (settle dev d) = sda_master d" "scl_master (settle dev d) = scl_master d"
  by (auto simp: settle_def Let_def clock_fall_def condition_seen_def next_frame_def split: prod.splits)

lemma set_ddr_world:
  assumes "pins_ok s"
  shows "world (set_EEPROM_DDR (device_wires dev) v s)
      = settle dev ((world s)\<lparr>sda_master := \<not> bit v 2, scl_master := \<not> bit v 1\<rparr>)"
    and "pins_ok (set_EEPROM_DDR (device_wires dev) v s)"
  using assms by (auto simp: set_EEPROM_DDR_def pins_ok_def device_wires_def)

lemma same_master [simp]:
  "sda_master d = x \<Longrightarrow> d\<lparr>sda_master := x, scl_master := y\<rparr> = d\<lparr>scl_master := y\<rparr>"
  "scl_master d = y \<Longrightarrow> d\<lparr>sda_master := x, scl_master := y\<rparr> = d\<lparr>sda_master := x\<rparr>"
  by (cases d; simp)+

lemma line_operations:
  assumes "pins_ok s"
  shows "world (twi_sda_high (device_wires dev) s) = settle dev ((world s)\<lparr>sda_master := True\<rparr>)"
    "world (twi_sda_low (device_wires dev) s) = settle dev ((world s)\<lparr>sda_master := False\<rparr>)"
    "world (twi_scl_high (device_wires dev) s) = settle dev ((world s)\<lparr>scl_master := True\<rparr>)"
    "world (twi_scl_low (device_wires dev) s) = settle dev ((world s)\<lparr>scl_master := False\<rparr>)"
    "world (twi_delay (device_wires dev) s) = settle dev ((world s)\<lparr>stretch := stretch (world s) - 1\<rparr>)"
    "world (set_EEPROM_DDR (device_wires dev) (EEPROM_DDR s AND NOT EEPROM_SDA AND NOT EEPROM_SCL) s)
      = settle dev ((world s)\<lparr>sda_master := True, scl_master := True\<rparr>)"
    "pins_ok (twi_sda_high (device_wires dev) s)" "pins_ok (twi_sda_low (device_wires dev) s)"
    "pins_ok (twi_scl_high (device_wires dev) s)" "pins_ok (twi_scl_low (device_wires dev) s)"
    "pins_ok (twi_delay (device_wires dev) s)"
    "pins_ok (set_EEPROM_DDR (device_wires dev) v s)"
  using assms
  by (simp_all add: twi_sda_high_def twi_sda_low_def twi_scl_high_def twi_scl_low_def set_ddr_world bit_simps)
    (auto simp: pins_ok_def twi_delay_def)

text \<open>One clock with the line released or held low by the firmware, from a low clock to the next.\<close>

definition clock_low :: "'e line_device \<Rightarrow> bool" where
  "clock_low d \<longleftrightarrow> \<not> scl_master d \<and> \<not> scl_line d"

definition clocked :: "'e i2c_device \<Rightarrow> bool \<Rightarrow> 'e line_device \<Rightarrow> 'e line_device" where
  "clocked dev r d =
     (let v = r \<and> \<not> pulls_sda d;
          d = clock_fall dev (d\<lparr>sda_master := r, sda_line := v, stretch := 0, frame_in := frame_in d @ [v]\<rparr>)
      in d\<lparr>sda_line := sda_master d \<and> \<not> pulls_sda d\<rparr>)"

definition clock_high :: "bool \<Rightarrow> 'e line_device \<Rightarrow> 'e line_device" where
  "clock_high r d = (let v = r \<and> \<not> pulls_sda d in
     d\<lparr>sda_master := r, scl_master := True, sda_line := v, scl_line := True, stretch := 0, frame_in := frame_in d @ [v]\<rparr>)"

definition clock_held :: "bool \<Rightarrow> nat \<Rightarrow> 'e line_device \<Rightarrow> 'e line_device" where
  "clock_held r n d = (if n = 0 then clock_high r d else
     d\<lparr>sda_master := r, scl_master := True, sda_line := r \<and> \<not> pulls_sda d, scl_line := False, stretch := n\<rparr>)"

lemma settle_held: "settle dev ((clock_held r n d)\<lparr>stretch := n - 1\<rparr>) = clock_held r (n - 1) d"
  by (auto simp: settle_def clock_held_def clock_high_def Let_def)

lemma clock_held_simps [simp]:
  "stretch (clock_held r n d) = n" "scl_line (clock_held r n d) \<longleftrightarrow> n = 0"
  by (auto simp: clock_held_def clock_high_def Let_def)

lemma clock_held_0: "clock_held r 0 d = clock_high r d"
  by (simp add: clock_held_def)

lemma stretch_ends:
  assumes "pins_ok s" "world s = clock_held r n d"
  shows "\<exists>t. twi_clock_stretch (device_wires dev) s = Some t \<and> pins_ok t \<and> world t = clock_high r d"
  using assms
proof (induction n arbitrary: s)
  case 0
  then have "scl_line (world s)" by simp
  then show ?case using 0 by (subst twi_clock_stretch.simps) (simp add: clock_held_0)
next
  case (Suc n)
  have "world (twi_delay (device_wires dev) s) = clock_held r n d"
    using Suc.prems settle_held [of dev "Suc n" r d] by (simp add: line_operations)
  with Suc.IH [of "twi_delay (device_wires dev) s"] Suc.prems show ?case
    by (subst twi_clock_stretch.simps) (simp add: line_operations)
qed

text \<open>Both bit operations begin by setting the data line and releasing the clock.\<close>

lemma clock_rises:
  assumes "pins_ok s" "clock_low (world s)"
  shows "\<exists>t. twi_clock_stretch (device_wires dev) (twi_scl_high (device_wires dev) (twi_delay (device_wires dev)
        (if r then twi_sda_high (device_wires dev) s else twi_sda_low (device_wires dev) s))) = Some t
    \<and> pins_ok t \<and> world t = clock_high r (world s)"
proof (rule stretch_ends)
  show "pins_ok (twi_scl_high (device_wires dev) (twi_delay (device_wires dev)
        (if r then twi_sda_high (device_wires dev) s else twi_sda_low (device_wires dev) s)))"
    using assms(1) by (simp add: line_operations)
  show "world (twi_scl_high (device_wires dev) (twi_delay (device_wires dev)
        (if r then twi_sda_high (device_wires dev) s else twi_sda_low (device_wires dev) s)))
      = clock_held r (stretch (world s) - 1) (world s)"
    using assms by (cases r) (auto simp: line_operations settle_def clock_low_def clock_held_def clock_high_def Let_def)
qed

lemma clock_falls:
  assumes "pins_ok s" "clock_low d" "world s = clock_high r d"
  shows "world (twi_delay (device_wires dev) s) = clock_high r d"
    and "world (twi_scl_low (device_wires dev) (twi_delay (device_wires dev) s)) = clocked dev r d"
proof -
  show h: "world (twi_delay (device_wires dev) s) = clock_high r d"
    using assms by (auto simp: line_operations settle_def clock_high_def Let_def)
  have "settle dev ((clock_high r d)\<lparr>scl_master := False\<rparr>) = clocked dev r d"
    using assms(2) by (cases d) (auto simp: settle_def clock_high_def clocked_def clock_low_def Let_def)
  then show "world (twi_scl_low (device_wires dev) (twi_delay (device_wires dev) s)) = clocked dev r d"
    using assms h by (simp add: line_operations)
qed

lemma write_bit_clocks:
  assumes "pins_ok s" "clock_low (world s)"
  shows "\<exists>t. twi_write_bit (device_wires dev) b s = Some t \<and> pins_ok t \<and> world t = clocked dev (b \<noteq> 0) (world s)"
  using clock_rises [OF assms, of dev "b \<noteq> 0"] clock_falls [OF _ assms(2)]
  by (auto simp: twi_write_bit_def line_operations split: if_splits)

lemma read_bit_clocks:
  assumes "pins_ok s" "clock_low (world s)"
  shows "\<exists>t. twi_read_bit (device_wires dev) s = Some (if pulls_sda (world s) then 0 else 1, t)
    \<and> pins_ok t \<and> world t = clocked dev True (world s)"
  using clock_rises [OF assms, of dev True] clock_falls [OF _ assms(2)]
  by (auto simp: twi_read_bit_def line_operations) (auto simp: clock_high_def)

lemma clocked_low: "clock_low d \<Longrightarrow> clock_low (clocked dev r d)"
  by (auto simp: clock_low_def clocked_def clock_fall_def next_frame_def Let_def split: prod.splits)

subsection \<open>Bytes\<close>

text \<open>A device in the middle of a byte it takes, and of one it sends.\<close>

definition taking :: "'e line_device \<Rightarrow> bool list \<Rightarrow> 'e \<Rightarrow> bool" where
  "taking d bs e \<longleftrightarrow> clock_low d \<and> \<not> sending d \<and> \<not> pulls_sda d \<and> frame_in d = bs \<and> inner d = e"

definition giving :: "'e i2c_device \<Rightarrow> 'e line_device \<Rightarrow> nat \<Rightarrow> 'e \<Rightarrow> bool" where
  "giving dev d k e \<longleftrightarrow> clock_low d \<and> sending d \<and> length (frame_in d) = k \<and> inner d = e
     \<and> pulls_sda d = (k < 8 \<and> \<not> bit (dev_give dev e) (7 - k))"

definition answering :: "'e line_device \<Rightarrow> bool \<Rightarrow> 'e \<Rightarrow> bool" where
  "answering d a e \<longleftrightarrow> clock_low d \<and> \<not> sending d \<and> pulls_sda d = a \<and> length (frame_in d) = 8 \<and> inner d = e"

text \<open>A device between two bytes.\<close>

definition between :: "'e i2c_device \<Rightarrow> 'e line_device \<Rightarrow> 'e \<Rightarrow> bool" where
  "between dev d e \<longleftrightarrow> clock_low d \<and> frame_in d = [] \<and> inner d = e \<and> sending d = dev_talks dev e \<and> stretch d = 0
     \<and> pulls_sda d = (dev_talks dev e \<and> \<not> bit (dev_give dev e) 7)"

lemma taking_bit: "taking d bs e \<Longrightarrow> length bs < 7 \<Longrightarrow> taking (clocked dev r d) (bs @ [r]) e"
  using clocked_low [of d dev r] by (auto simp: taking_def clocked_def clock_fall_def Let_def)

lemma taking_last_bit:
  "taking d bs e \<Longrightarrow> length bs = 7 \<Longrightarrow> dev_byte dev (byte_of_bits (bs @ [r])) e = (a, f) \<Longrightarrow> answering (clocked dev r d) a f"
  using clocked_low [of d dev r] by (auto simp: taking_def answering_def clocked_def clock_fall_def Let_def)

lemma answering_bit: "answering d a e \<Longrightarrow> between dev (clocked dev r d) e"
  using clocked_low [of d dev r] by (auto simp: answering_def between_def clocked_def clock_fall_def next_frame_def Let_def)

lemma giving_bit: "giving dev d k e \<Longrightarrow> k < 8 \<Longrightarrow> giving dev (clocked dev True d) (Suc k) e"
  using clocked_low [of d dev True] by (auto simp: giving_def clocked_def clock_fall_def Let_def)

lemma giving_answer: "giving dev d 8 e \<Longrightarrow> between dev (clocked dev r d) (dev_sent dev (\<not> r) e)"
  using clocked_low [of d dev r] by (auto simp: giving_def between_def clocked_def clock_fall_def next_frame_def Let_def)

lemma top_bit: "(b :: u8) AND 128 \<noteq> 0 \<longleftrightarrow> bit b 7"
proof -
  have "(128 :: u8) = 2 ^ 7" by simp
  then show ?thesis by (simp only: and_exp_eq_0_iff_not_bit not_not)
qed

definition bits_of :: "u8 \<Rightarrow> nat \<Rightarrow> bool list" where
  "bits_of b n = map (\<lambda>i. bit b (7 - i)) [0..<n]"

lemma bits_of_push: "n < 8 \<Longrightarrow> bits_of b (Suc n) = bit b 7 # bits_of (push_bit 1 b) n"
proof -
  assume "n < 8"
  then have "bit (push_bit 1 b) (7 - i) = bit b (7 - Suc i)" if "i < n" for i
    using that by (subst bit_push_bit_iff) auto
  then show ?thesis
    unfolding bits_of_def upt_conv_Cons [OF zero_less_Suc] map_Suc_upt [symmetric] by (simp del: push_bit_Suc)
qed

lemma byte_of_bits_snoc: "byte_of_bits (bs @ [c]) = push_bit 1 (byte_of_bits bs) OR (if c then 1 else 0)"
  by (simp add: byte_of_bits_def)

lemma next_bit:
  assumes "k < 8"
  shows "push_bit 1 (drop_bit (Suc k) b) OR (if bit b k then 1 else 0) = drop_bit k (b :: u8)"
proof (rule bit_word_eqI)
  fix n assume "n < LENGTH(8)"
  then show "bit (push_bit 1 (drop_bit (Suc k) b) OR (if bit b k then 1 else 0)) n = bit (drop_bit k b) n"
    unfolding bit_or_iff bit_push_bit_iff bit_drop_bit_eq by (cases n) auto
qed

lemma byte_of_bits_of: "n \<le> 8 \<Longrightarrow> byte_of_bits (bits_of b n) = drop_bit (8 - n) b"
proof (induction n)
  case 0
  show ?case by (simp add: byte_of_bits_def bits_of_def)
next
  case (Suc n)
  have "bits_of b (Suc n) = bits_of b n @ [bit b (7 - n)]" by (simp add: bits_of_def)
  moreover have "byte_of_bits (bits_of b n) = drop_bit (Suc (7 - n)) b"
    using Suc Suc_diff_le [of n 7] by simp
  ultimately have "byte_of_bits (bits_of b (Suc n)) = push_bit 1 (drop_bit (Suc (7 - n)) b) OR (if bit b (7 - n) then 1 else 0)"
    by (simp only: byte_of_bits_snoc)
  also have "\<dots> = drop_bit (7 - n) b" by (rule next_bit) simp
  finally show ?case by simp
qed

lemma write_bits_clock:
  assumes "pins_ok s" "clock_low (world s)" "n \<le> 8"
  shows "\<exists>t. twi_write_bits (device_wires dev) n b s = Some t \<and> pins_ok t
    \<and> world t = fold (clocked dev) (bits_of b n) (world s)"
  using assms
proof (induction n arbitrary: b s)
  case (Suc n)
  obtain t where t: "twi_write_bit (device_wires dev) (b AND 128) s = Some t" "pins_ok t" "world t = clocked dev (bit b 7) (world s)"
    using write_bit_clocks [OF Suc.prems(1,2), of dev "b AND 128"] by (auto simp: top_bit)
  then show ?case using Suc.IH [of t "push_bit 1 b"] Suc.prems clocked_low [of "world s" dev "bit b 7"] by (auto simp: bits_of_push)
qed (simp add: bits_of_def)

lemma read_bits_clock:
  assumes "pins_ok s" "giving dev (world s) k e" "k + n = 8"
  shows "\<exists>t. twi_read_bits (device_wires dev) n r s
      = Some (foldl (\<lambda>r i. push_bit 1 r OR (if bit (dev_give dev e) (7 - i) then 1 else 0)) r [k..<8], t)
    \<and> pins_ok t \<and> giving dev (world t) 8 e"
  using assms
proof (induction n arbitrary: k r s)
  case (Suc n)
  have low: "clock_low (world s)" "pulls_sda (world s) = (\<not> bit (dev_give dev e) (7 - k))" using Suc.prems by (auto simp: giving_def)
  obtain t where t: "twi_read_bit (device_wires dev) s = Some (if bit (dev_give dev e) (7 - k) then 1 else 0, t)"
    "pins_ok t" "world t = clocked dev True (world s)"
    using read_bit_clocks [OF Suc.prems(1) low(1), of dev] low(2) by auto
  moreover have "[k..<8] = k # [Suc k..<8]" using Suc.prems by (simp add: upt_rec)
  ultimately show ?case using Suc.IH [of t "Suc k"] Suc.prems giving_bit [of dev "world s" k e] by auto
qed simp

subsection \<open>The lines as a bus\<close>

definition lines_idle :: "'e line_device \<Rightarrow> 'e \<Rightarrow> bool" where
  "lines_idle d e \<longleftrightarrow> inner d = e \<and> sda_master d \<and> scl_master d \<and> sda_line d \<and> scl_line d
     \<and> \<not> pulls_sda d \<and> stretch d = 0"

definition lines_joined :: "'e i2c_device \<Rightarrow> 'e line_device twi_lines \<Rightarrow> 'e \<Rightarrow> bool" where
  "lines_joined dev s e \<longleftrightarrow> pins_ok s \<and> (if dev_open dev e then between dev (world s) e else lines_idle (world s) e)"

lemma bitbang_port_simps [simp]:
  "port_start (bitbang_port w) s = Some (twi_start w s)" "port_stop (bitbang_port w) k s = Some (twi_stop w s)"
  "port_read_byte (bitbang_port w) = twi_read_byte w" "port_write_byte (bitbang_port w) = twi_write_byte w"
  "port_delay_ms (bitbang_port w) s = s\<lparr>world := wires_ms w (world s)\<rparr>"
  by (simp_all add: bitbang_port_def)

lemma taking_bits:
  assumes "taking d [] e" "n \<le> 7"
  shows "taking (fold (clocked dev) (bits_of b n) d) (bits_of b n) e"
  using assms(2)
proof (induction n)
  case (Suc n)
  have "bits_of b (Suc n) = bits_of b n @ [bit b (7 - n)]" "length (bits_of b n) < 7" using Suc.prems by (simp_all add: bits_of_def)
  then show ?case using Suc taking_bit by simp
qed (use assms(1) in \<open>simp add: bits_of_def\<close>)

lemma write_byte_between:
  assumes "pins_ok s" "between dev (world s) e" "\<not> dev_talks dev e" "dev_byte dev b e = (a, f)"
  shows "\<exists>t. twi_write_byte (device_wires dev) b s = Some (if a then ACK else NACK, t) \<and> pins_ok t \<and> between dev (world t) f"
proof -
  have t0: "taking (world s) [] e" using assms(2,3) by (auto simp: taking_def between_def)
  then obtain t where t: "twi_write_bits (device_wires dev) 8 b s = Some t" "pins_ok t"
    "world t = fold (clocked dev) (bits_of b 8) (world s)"
    using write_bits_clock [OF assms(1), of 8 dev b] by (auto simp: taking_def)
  have "taking (fold (clocked dev) (bits_of b 7) (world s)) (bits_of b 7) e" using taking_bits [OF t0] by simp
  moreover have "bits_of b 8 = bits_of b 7 @ [bit b 0]" by (simp add: bits_of_def eval_nat_numeral)
  ultimately have ans: "answering (world t) a f"
    using taking_last_bit [of _ "bits_of b 7" e dev "bit b 0" a f] assms(4) byte_of_bits_of [of 8 b]
    by (simp add: t(3)) (simp add: bits_of_def)
  then obtain u where "twi_read_bit (device_wires dev) t = Some (if a then 0 else 1, u)" "pins_ok u"
    "world u = clocked dev True (world t)"
    using read_bit_clocks [OF t(2), of dev] by (auto simp: answering_def)
  with t(1) answering_bit [OF ans] show ?thesis by (simp add: twi_write_byte_def)
qed

lemma read_byte_between:
  assumes "pins_ok s" "between dev (world s) e" "dev_talks dev e"
  shows "\<exists>t. twi_read_byte (device_wires dev) k s = Some (dev_give dev e, t) \<and> pins_ok t
    \<and> between dev (world t) (dev_sent dev (k = ACK) e)"
proof -
  have "giving dev (world s) 0 e" using assms(2,3) by (auto simp: giving_def between_def)
  moreover have "foldl (\<lambda>r i. push_bit 1 r OR (if bit (dev_give dev e) (7 - i) then 1 else 0)) 0 [0..<8] = dev_give dev e"
    using byte_of_bits_of [of 8 "dev_give dev e"] by (simp only: byte_of_bits_def bits_of_def foldl_map) simp
  ultimately obtain t where t: "twi_read_bits (device_wires dev) 8 0 s = Some (dev_give dev e, t)" "pins_ok t"
    "giving dev (world t) 8 e" using read_bits_clock [OF assms(1), of dev 0 e 8 0] by auto
  then obtain u where "twi_write_bit (device_wires dev) (twi_ack_code k) t = Some u" "pins_ok u"
    "world u = clocked dev (twi_ack_code k \<noteq> 0) (world t)"
    using write_bit_clocks [OF t(2)] by (auto simp: giving_def)
  moreover have "(twi_ack_code k \<noteq> 0) = (\<not> k = ACK)" by (cases k) auto
  ultimately show ?thesis using t(1) giving_answer [OF t(3), of "twi_ack_code k \<noteq> 0"] by (simp add: twi_read_byte_def)
qed

text \<open>The changes of the lines one by one.\<close>

lemma settle_low: "\<not> scl_line d \<Longrightarrow> \<not> scl_master d \<Longrightarrow> settle dev d = d\<lparr>sda_line := sda_master d \<and> \<not> pulls_sda d\<rparr>"
  by (simp add: settle_def)

lemma settle_rise:
  "\<not> scl_line d \<Longrightarrow> scl_master d \<Longrightarrow> stretch d = 0 \<Longrightarrow> settle dev d
    = d\<lparr>sda_line := sda_master d \<and> \<not> pulls_sda d, scl_line := True, frame_in := frame_in d @ [sda_master d \<and> \<not> pulls_sda d]\<rparr>"
  by (simp add: settle_def Let_def)

lemma settle_high:
  "scl_line d \<Longrightarrow> scl_master d \<Longrightarrow> stretch d = 0 \<Longrightarrow> sda_line d = (sda_master d \<and> \<not> pulls_sda d) \<Longrightarrow> settle dev d = d"
  by (cases d) (auto simp: settle_def Let_def)

lemma settle_start:
  "scl_line d \<Longrightarrow> scl_master d \<Longrightarrow> stretch d = 0 \<Longrightarrow> sda_line d \<Longrightarrow> \<not> sda_master d \<Longrightarrow>
    settle dev d = condition_seen (dev_start dev) (d\<lparr>sda_line := False\<rparr>)"
  by (simp add: settle_def)

lemma settle_stop:
  "scl_line d \<Longrightarrow> scl_master d \<Longrightarrow> stretch d = 0 \<Longrightarrow> \<not> sda_line d \<Longrightarrow> sda_master d \<Longrightarrow> \<not> pulls_sda d \<Longrightarrow>
    settle dev d = condition_seen (dev_stop dev) (d\<lparr>sda_line := True\<rparr>)"
  by (simp add: settle_def)

lemma settle_fall:
  "scl_line d \<Longrightarrow> \<not> scl_master d \<Longrightarrow> frame_in d = [] \<Longrightarrow>
    settle dev d = d\<lparr>scl_line := False, sda_line := sda_master d \<and> \<not> pulls_sda d\<rparr>"
  by (simp add: settle_def clock_fall_def Let_def)

lemmas settle_steps = settle_low settle_rise settle_high settle_start settle_stop settle_fall condition_seen_def

lemma start_condition:
  assumes "pins_ok s" "between dev (world s) e \<or> lines_idle (world s) e" "\<not> dev_talks dev e" "\<not> dev_talks dev (dev_start dev e)"
  shows "between dev (world (twi_start (device_wires dev) s)) (dev_start dev e)"
  using assms(2)
proof
  assume "between dev (world s) e"
  then show ?thesis using assms(1,3,4) by (simp add: twi_start_def line_operations between_def clock_low_def settle_steps)
next
  assume "lines_idle (world s) e"
  then show ?thesis using assms(1,4) by (simp add: twi_start_def line_operations between_def lines_idle_def clock_low_def settle_steps)
qed

lemma stop_condition:
  assumes "pins_ok s" "between dev (world s) e" "\<not> dev_talks dev e"
  shows "lines_idle (world (twi_stop (device_wires dev) s)) (dev_stop dev e)"
  using assms by (simp add: twi_stop_def line_operations lines_idle_def between_def clock_low_def settle_steps)

text \<open>A stop on idle lines is seen as a start and a stop.\<close>

lemma stop_from_idle:
  assumes "pins_ok s" "lines_idle (world s) e"
  shows "lines_idle (world (twi_stop (device_wires dev) s)) (dev_stop dev (dev_start dev e))"
  using assms by (simp add: twi_stop_def line_operations lines_idle_def settle_steps)

lemma pins_conditions:
  "pins_ok s \<Longrightarrow> pins_ok (twi_start (device_wires dev) s)" "pins_ok s \<Longrightarrow> pins_ok (twi_stop (device_wires dev) s)"
  by (simp_all add: twi_start_def twi_stop_def line_operations Let_def)

sublocale i2c_listener \<subseteq> lines: i2c_bus "bitbang_port (device_wires dev)" dev "lines_joined dev"
proof
  fix c e a f b k
  assume j: "lines_joined dev c e"
  show "\<exists>d. port_start (bitbang_port (device_wires dev)) c = Some d \<and> lines_joined dev d (dev_start dev e)"
    if "\<not> dev_talks dev e"
    using that j start_condition [OF _ _ that talks_start, of c] by (auto simp: lines_joined_def open_start pins_conditions split: if_splits)
  show "\<exists>d. port_stop (bitbang_port (device_wires dev)) NOWAIT c = Some d \<and> lines_joined dev d (dev_stop dev e)"
    if "\<not> dev_talks dev e"
    using that j stop_condition [of c dev e] stop_from_idle [of c e dev] stop_again [of e]
    by (auto simp: lines_joined_def open_stop pins_conditions split: if_splits)
  show "\<exists>d. port_write_byte (bitbang_port (device_wires dev)) b c = Some (if a then ACK else NACK, d) \<and> lines_joined dev d f"
    if "dev_open dev e" "\<not> dev_talks dev e" "dev_byte dev b e = (a, f)"
    using that j write_byte_between [OF _ _ that(2,3), of c] open_byte [OF that(1), of b] by (auto simp: lines_joined_def)
  show "\<exists>d. port_read_byte (bitbang_port (device_wires dev)) k c = Some (dev_give dev e, d)
      \<and> lines_joined dev d (dev_sent dev (k = ACK) e)" if "dev_talks dev e"
    using that j read_byte_between [OF _ _ that, of c k] talks_open [OF that] open_sent [of e "k = ACK"]
    by (auto simp: lines_joined_def)
  show "lines_joined dev (port_delay_ms (bitbang_port (device_wires dev)) c) (dev_ms dev e)" if "\<not> dev_talks dev e"
    using that j talks_ms [OF that] by (auto simp: lines_joined_def open_ms pins_ok_def between_def lines_idle_def clock_low_def)
qed

text \<open>\<open>twi_init\<close> on idle lines, whatever the port register was.\<close>

lemma twi_init_joins:
  assumes "EEPROM_DDR s = 0" "lines_idle (world s) e" "\<not> dev_open dev e"
  shows "lines_joined dev (twi_init (device_wires dev) s) e"
  using assms
  by (auto simp: twi_init_def set_EEPROM_PORT_def set_EEPROM_DDR_def lines_joined_def lines_idle_def pins_ok_def
    device_wires_def settle_high bit_simps)

subsection \<open>The peripheral as a bus\<close>

text \<open>
  A peripheral that works as its data sheet says. Writing \<open>TWCR\<close> with \<open>TWINT\<close> set clears the flag and
  begins a job, which is done when \<open>TWCR\<close> has been read \<open>latency\<close> times; then \<open>TWINT\<close> is set, or after
  a stop condition \<open>TWSTO\<close> is cleared. A byte is acknowledged when \<open>TWEA\<close> is set by the end of the job.
\<close>

datatype unit_job = Job_start | Job_stop | Job_send | Job_receive

record 'e bus_unit =
  unit_dev :: 'e
  TWCR :: u8
  TWDR :: u8
  TWSR :: u8
  TWBR :: u8
  job :: "unit_job option"
  ticks :: nat
  addressing :: bool

definition begin_job :: "'e i2c_device \<Rightarrow> nat \<Rightarrow> u8 \<Rightarrow> 'e bus_unit \<Rightarrow> 'e bus_unit" where
  "begin_job dev latency v h =
     (if v AND TWINT = 0 then h\<lparr>TWCR := v\<rparr>
      else let h = h\<lparr>TWCR := v AND NOT TWINT, ticks := latency\<rparr> in
        if v AND TWSTA \<noteq> 0 then h\<lparr>job := Some Job_start\<rparr>
        else if v AND TWSTO \<noteq> 0 then h\<lparr>job := Some Job_stop, unit_dev := dev_stop dev (unit_dev h)\<rparr>
        else h\<lparr>job := Some (if dev_talks dev (unit_dev h) then Job_receive else Job_send)\<rparr>)"

definition send_status :: "bool \<Rightarrow> bool \<Rightarrow> bool \<Rightarrow> u8" where
  "send_status sla rd a = (if sla then if rd then if a then 0x40 else 0x48 else if a then 0x18 else 0x20
     else if a then 0x28 else 0x30)"

definition end_job :: "'e i2c_device \<Rightarrow> 'e bus_unit \<Rightarrow> 'e bus_unit" where
  "end_job dev h = (let g = h\<lparr>job := None, TWCR := TWCR h OR TWINT\<rparr> in case job h of
     None \<Rightarrow> h
   | Some Job_start \<Rightarrow> g\<lparr>unit_dev := dev_start dev (unit_dev h), TWSR := 0x08, addressing := True\<rparr>
   | Some Job_stop \<Rightarrow> h\<lparr>job := None, TWCR := TWCR h AND NOT TWSTO\<rparr>
   | Some Job_send \<Rightarrow> (let (a, e) = dev_byte dev (TWDR h) (unit_dev h) in
       g\<lparr>unit_dev := e, TWSR := send_status (addressing h) (bit (TWDR h) 0) a, addressing := False\<rparr>)
   | Some Job_receive \<Rightarrow> g\<lparr>TWDR := dev_give dev (unit_dev h), unit_dev := dev_sent dev (TWCR h AND TWEA \<noteq> 0) (unit_dev h),
       TWSR := (if TWCR h AND TWEA \<noteq> 0 then 0x50 else 0x58)\<rparr>)"

definition poll_unit :: "'e i2c_device \<Rightarrow> 'e bus_unit \<Rightarrow> u8 \<times> 'e bus_unit" where
  "poll_unit dev h = (let h = (if ticks h = 0 then end_job dev h else h\<lparr>ticks := ticks h - 1\<rparr>) in (TWCR h, h))"

definition device_unit :: "'e i2c_device \<Rightarrow> nat \<Rightarrow> 'e bus_unit twi_unit" where
  "device_unit dev latency =
     \<lparr>set_TWCR = begin_job dev latency, get_TWCR = poll_unit dev,
      set_TWDR = (\<lambda>v h. h\<lparr>TWDR := v\<rparr>), get_TWDR = TWDR, set_TWSR = (\<lambda>v h. h\<lparr>TWSR := v\<rparr>), get_TWSR = TWSR,
      set_TWBR = (\<lambda>v h. h\<lparr>TWBR := v\<rparr>), unit_ms = (\<lambda>h. h\<lparr>unit_dev := dev_ms dev (unit_dev h)\<rparr>)\<rparr>"

definition unit_joined :: "'e bus_unit \<Rightarrow> 'e \<Rightarrow> bool" where
  "unit_joined h e \<longleftrightarrow> unit_dev h = e"

lemmas unit_flags = TWINT_def TWEA_def TWSTA_def TWSTO_def TWEN_def

lemma device_unit_simps [simp]:
  "set_TWCR (device_unit dev n) = begin_job dev n" "get_TWCR (device_unit dev n) = poll_unit dev"
  "set_TWDR (device_unit dev n) v h = h\<lparr>TWDR := v\<rparr>" "get_TWDR (device_unit dev n) h = TWDR h"
  "get_TWSR (device_unit dev n) h = TWSR h" "unit_ms (device_unit dev n) h = h\<lparr>unit_dev := dev_ms dev (unit_dev h)\<rparr>"
  by (simp_all add: device_unit_def)

lemma flag_raised: "(x OR TWINT) AND TWINT \<noteq> 0"
proof -
  have "(x OR TWINT) AND TWINT = TWINT" by (rule bit_word_eqI) (auto simp: bit_simps)
  then show ?thesis by (simp add: TWINT_def)
qed

lemma await_job:
  assumes "job h \<in> {Some Job_start, Some Job_send, Some Job_receive}" "TWCR h AND TWINT = 0"
  shows "twi_await (device_unit dev n) TWINT True h = Some (end_job dev (h\<lparr>ticks := 0\<rparr>))"
  using assms
proof (induction "ticks h" arbitrary: h)
  case 0
  then have e: "h\<lparr>ticks := 0\<rparr> = h" by (cases h) simp
  have "TWCR (end_job dev h) AND TWINT \<noteq> 0"
    using 0 flag_raised [of "TWCR h"] by (auto simp: end_job_def Let_def split: prod.splits)
  then show ?case unfolding e using 0 by (subst twi_await.simps) (simp add: poll_unit_def Let_def)
next
  case (Suc k)
  let ?g = "h\<lparr>ticks := k\<rparr>"
  have "poll_unit dev h = (TWCR h, ?g)" using Suc.hyps(2) by (simp add: poll_unit_def flip: Suc.hyps(2))
  then have "twi_await (device_unit dev n) TWINT True h = twi_await (device_unit dev n) TWINT True ?g"
    using Suc.prems(2) by (subst twi_await.simps) simp
  then show ?case using Suc.hyps(1) [of ?g] Suc.prems by simp
qed

sublocale i2c_listener \<subseteq> unit: i2c_bus "hardware_port (device_unit dev (Suc latency))" dev unit_joined
proof
  fix c :: "'e bus_unit" and e f :: 'e and a b k
  let ?u = "device_unit dev (Suc latency)"
  assume "unit_joined c e"
  then have j: "unit_dev c = e" by (simp add: unit_joined_def)
  show "\<exists>d. port_start (hardware_port ?u) c = Some d \<and> unit_joined d (dev_start dev e)" if "\<not> dev_talks dev e"
    using j by (simp add: hardware_port_def twi_start_hw_def begin_job_def unit_flags await_job [unfolded unit_flags])
      (simp add: unit_joined_def end_job_def)
  show "\<exists>d. port_stop (hardware_port ?u) NOWAIT c = Some d \<and> unit_joined d (dev_stop dev e)" if "\<not> dev_talks dev e"
    using j by (simp add: hardware_port_def twi_stop_hw_def begin_job_def unit_flags unit_joined_def)
  show "\<exists>d. port_write_byte (hardware_port ?u) b c = Some (if a then ACK else NACK, d) \<and> unit_joined d f"
    if "dev_open dev e" "\<not> dev_talks dev e" "dev_byte dev b e = (a, f)"
    using j that by (simp add: hardware_port_def twi_write_byte_hw_def begin_job_def unit_flags await_job [unfolded unit_flags])
      (simp add: unit_joined_def end_job_def send_status_def Let_def TW_STATUS_MASK_def TW_MT_DATA_ACK_def TW_MT_SLA_ACK_def TW_MR_SLA_ACK_def)
  show "\<exists>d. port_read_byte (hardware_port ?u) k c = Some (dev_give dev e, d) \<and> unit_joined d (dev_sent dev (k = ACK) e)"
    if "dev_talks dev e"
    using j that by (cases k) (simp_all add: hardware_port_def twi_read_byte_hw_def begin_job_def poll_unit_def unit_flags await_job [unfolded unit_flags] unit_joined_def end_job_def)
  show "unit_joined (port_delay_ms (hardware_port ?u) c) (dev_ms dev e)" if "\<not> dev_talks dev e"
    using j by (simp add: hardware_port_def unit_joined_def)
qed

end
