(* ===== verification/I2cEeprom.thy ===== *)
theory I2cEeprom
  imports Storage Twi
begin

text \<open>
  \<open>storage/i2c_eeprom.c\<close>: the driver of the I2C EEPROM (AT24C164) over the bus interface of \<open>twi.h\<close>.
  Unlike the SPI chip the EEPROM answers every byte, so every operation can fail and says where. Addresses
  and counts are 16 bits wide and wrap. A bus operation that never ends is \<open>None\<close>. \<open>USB_KeepAlive\<close>
  does not touch the bus and has no counterpart; the two test routines at the end of the file are
  compiled only for debugging.
\<close>

datatype i2c_eeprom_err = SUCCESS | WSELECT_ERROR | RSELECT_ERROR | ADDRESS_ERROR | DATA_ERROR

record 'c i2c_state =
  twi :: 'c
  storage_errno :: i2c_eeprom_err

definition EEEXT_PAGE_SIZE :: nat where "EEEXT_PAGE_SIZE = 16"

text \<open>The calls of the bus functions.\<close>

definition bus_start :: "'c twi_port \<Rightarrow> 'c i2c_state \<Rightarrow> 'c i2c_state option" where
  "bus_start port s = do { c \<leftarrow> port_start port (twi s); Some (s\<lparr>twi := c\<rparr>) }"

definition bus_stop :: "'c twi_port \<Rightarrow> 'c i2c_state \<Rightarrow> 'c i2c_state option" where
  "bus_stop port s = do { c \<leftarrow> port_stop port NOWAIT (twi s); Some (s\<lparr>twi := c\<rparr>) }"

definition bus_write_byte :: "'c twi_port \<Rightarrow> u8 \<Rightarrow> 'c i2c_state \<Rightarrow> (twi_ack \<times> 'c i2c_state) option" where
  "bus_write_byte port b s = do { (a, c) \<leftarrow> port_write_byte port b (twi s); Some (a, s\<lparr>twi := c\<rparr>) }"

definition bus_read_byte :: "'c twi_port \<Rightarrow> twi_ack \<Rightarrow> 'c i2c_state \<Rightarrow> (u8 \<times> 'c i2c_state) option" where
  "bus_read_byte port k s = do { (b, c) \<leftarrow> port_read_byte port k (twi s); Some (b, s\<lparr>twi := c\<rparr>) }"

subsection \<open>Within a page\<close>

text \<open>The bits of the address that go into the select byte: the chip and its 256-byte block.\<close>

definition select_bits :: "u16 \<Rightarrow> u8" where
  "select_bits addr = ucast (drop_bit 7 addr AND 0x7E)"

fun i2c_select_loop :: "'c twi_port \<Rightarrow> u8 \<Rightarrow> nat \<Rightarrow> 'c i2c_state \<Rightarrow> (bool \<times> 'c i2c_state) option" where
  "i2c_select_loop port address_byte 0 s = Some (False, s)"
| "i2c_select_loop port address_byte (Suc n) s = do {
     s \<leftarrow> bus_start port s;
     (a, s) \<leftarrow> bus_write_byte port address_byte s;
     if a = ACK then Some (True, s)
     else i2c_select_loop port address_byte n (s\<lparr>twi := port_delay_ms port (twi s)\<rparr>) }"

definition i2c_eeprom_start_write :: "'c twi_port \<Rightarrow> u16 \<Rightarrow> 'c i2c_state \<Rightarrow> (i2c_eeprom_err \<times> 'c i2c_state) option" where
  "i2c_eeprom_start_write port addr s = do {
     let address_byte = 0xA0 XOR select_bits addr;
     (ack, s) \<leftarrow> i2c_select_loop port address_byte 11 s;
     if \<not> ack then do { s \<leftarrow> bus_stop port s; Some (WSELECT_ERROR, s) }
     else do {
       (a, s) \<leftarrow> bus_write_byte port (ucast (addr AND 0xFF)) s;
       if a \<noteq> ACK then do { s \<leftarrow> bus_stop port s; Some (ADDRESS_ERROR, s) }
       else Some (SUCCESS, s) } }"

fun i2c_send_loop :: "'c twi_port \<Rightarrow> u8 list \<Rightarrow> u8 \<Rightarrow> 'c i2c_state \<Rightarrow> (u8 \<times> 'c i2c_state) option" where
  "i2c_send_loop port [] i s = Some (i, s)"
| "i2c_send_loop port (b # bs) i s = do {
     (a, s) \<leftarrow> bus_write_byte port b s;
     if a \<noteq> ACK then do { s \<leftarrow> bus_stop port (s\<lparr>storage_errno := DATA_ERROR\<rparr>); Some (i, s) }
     else i2c_send_loop port bs (i + 1) s }"

definition i2c_eeprom_continue_write :: "'c twi_port \<Rightarrow> u8 list \<Rightarrow> u8 \<Rightarrow> 'c i2c_state \<Rightarrow> (u8 \<times> 'c i2c_state) option" where
  "i2c_eeprom_continue_write port buf len s = i2c_send_loop port (take (unat len) buf) 0 s"

definition i2c_eeprom_end_write :: "'c twi_port \<Rightarrow> 'c i2c_state \<Rightarrow> 'c i2c_state option" where
  "i2c_eeprom_end_write port s = bus_stop port s"

definition i2c_eeprom_write_page :: "'c twi_port \<Rightarrow> u16 \<Rightarrow> u8 list \<Rightarrow> u8 \<Rightarrow> 'c i2c_state \<Rightarrow> (u8 \<times> 'c i2c_state) option" where
  "i2c_eeprom_write_page port addr buf len s = do {
     (r, s) \<leftarrow> i2c_eeprom_start_write port addr (s\<lparr>storage_errno := SUCCESS\<rparr>);
     if r \<noteq> SUCCESS then Some (0, s\<lparr>storage_errno := r\<rparr>)
     else do {
       (wr, s) \<leftarrow> i2c_eeprom_continue_write port buf len s;
       if sint wr = uint len then do { s \<leftarrow> i2c_eeprom_end_write port s; Some (wr, s) }
       else Some (wr, s) } }"

fun i2c_receive_loop :: "'c twi_port \<Rightarrow> nat \<Rightarrow> 'c i2c_state \<Rightarrow> (u8 list \<times> 'c i2c_state) option" where
  "i2c_receive_loop port 0 s = Some ([], s)"
| "i2c_receive_loop port (Suc n) s = do {
     (b, s) \<leftarrow> bus_read_byte port (if n \<noteq> 0 then ACK else NACK) s;
     (bs, s) \<leftarrow> i2c_receive_loop port n s;
     Some (b # bs, s) }"

text \<open>The result and the bytes stored in the buffer.\<close>

definition i2c_eeprom_read :: "'c twi_port \<Rightarrow> u16 \<Rightarrow> u16 \<Rightarrow> 'c i2c_state \<Rightarrow> (u16 \<times> u8 list \<times> 'c i2c_state) option" where
  "i2c_eeprom_read port addr len s = do {
     (r, s) \<leftarrow> i2c_eeprom_start_write port addr (s\<lparr>storage_errno := SUCCESS\<rparr>);
     (buf, s) \<leftarrow> (if r \<noteq> SUCCESS then Some ([], s\<lparr>storage_errno := r\<rparr>)
       else do {
         s \<leftarrow> bus_start port s;
         (a, s) \<leftarrow> bus_write_byte port (0xA1 XOR select_bits addr) s;
         if a \<noteq> ACK then Some ([], s\<lparr>storage_errno := RSELECT_ERROR\<rparr>)
         else i2c_receive_loop port (unat len) s });
     s \<leftarrow> bus_stop port s;
     Some (if buf \<noteq> [] then of_nat (length buf) else -1, buf, s) }"

text \<open>\<open>junk\<close> is what the uninitialised local variable holds.\<close>

definition i2c_eeprom_read_byte :: "'c twi_port \<Rightarrow> u8 \<Rightarrow> u16 \<Rightarrow> 'c i2c_state \<Rightarrow> (u8 \<times> 'c i2c_state) option" where
  "i2c_eeprom_read_byte port junk addr s = do {
     (_, buf, s) \<leftarrow> i2c_eeprom_read port addr 1 s;
     Some (if buf = [] then junk else buf ! 0, s) }"

definition i2c_eeprom_read_short :: "'c twi_port \<Rightarrow> u16 \<Rightarrow> u16 \<Rightarrow> 'c i2c_state \<Rightarrow> (u16 \<times> 'c i2c_state) option" where
  "i2c_eeprom_read_short port junk addr s = do {
     (_, buf, s) \<leftarrow> i2c_eeprom_read port addr 2 s;
     Some (if buf = [] then junk else short_of_bytes buf, s) }"

definition i2c_eeprom_write_step :: "'c twi_port \<Rightarrow> u16 \<Rightarrow> u8 list \<Rightarrow> u8 \<Rightarrow> bool \<Rightarrow> 'c i2c_state \<Rightarrow> (i2c_eeprom_err \<times> 'c i2c_state) option" where
  "i2c_eeprom_write_step port dst data len last_step s = do {
     (r, s) \<leftarrow> (if dst AND 15 = 0 then i2c_eeprom_start_write port dst s else Some (SUCCESS, s));
     if r \<noteq> SUCCESS then Some (r, s)
     else do {
       (w, s) \<leftarrow> i2c_eeprom_continue_write port data len s;
       if len \<noteq> w then Some (storage_errno s, s)
       else do {
         s \<leftarrow> (if last_step \<or> (dst + ucast len) AND 15 = 0 then i2c_eeprom_end_write port s else Some s);
         Some (SUCCESS, s) } } }"

subsection \<open>Blocks\<close>

definition i2c_page_off :: "u16 \<Rightarrow> u8" where
  "i2c_page_off dst = ucast (dst AND 15)"

lemma i2c_page_off_unat: "unat (i2c_page_off dst) = unat dst mod 16"
proof -
  have "unat (dst AND 15) = unat dst mod 16" using unat_and_mask [of dst 4] by (simp add: mask_eq_decr_exp)
  then show ?thesis unfolding i2c_page_off_def unat_ucast_16_8 by simp
qed

lemma i2c_page_rest: "unat (16 - i2c_page_off dst) = 16 - unat dst mod 16"
  using i2c_page_off_unat [of dst] by (subst unat_sub) (auto simp: word_le_nat_alt)

lemma i2c_rest_less: "cnt \<noteq> 0 \<Longrightarrow> unat (cnt - ucast (page_chunk (16 - i2c_page_off dst) cnt)) < unat cnt"
  unfolding page_chunk_rest i2c_page_rest by (auto simp: word_facts)

function i2c_write_loop :: "'c twi_port \<Rightarrow> u16 \<Rightarrow> u8 list \<Rightarrow> u16 \<Rightarrow> u16 \<Rightarrow> 'c i2c_state \<Rightarrow> (u16 \<times> 'c i2c_state) option" where
  "i2c_write_loop port dst data cnt written s =
     (if cnt = 0 then Some (written, s)
      else let n = page_chunk (16 - i2c_page_off dst) cnt in do {
        (w, s) \<leftarrow> i2c_eeprom_write_page port dst data n s;
        let written = written + ucast w;
        if w \<noteq> n then Some (if written = 0 then written else -1, s)
        else i2c_write_loop port (dst + ucast n) (drop (unat n) data) (cnt - ucast n) written s })"
  by pat_completeness auto
termination
  by (relation "measure (\<lambda>(port, dst, data, cnt, written, s). unat cnt)") (auto intro: i2c_rest_less)

definition i2c_eeprom_write :: "'c twi_port \<Rightarrow> u16 \<Rightarrow> u8 list \<Rightarrow> u16 \<Rightarrow> 'c i2c_state \<Rightarrow> (u16 \<times> 'c i2c_state) option" where
  "i2c_eeprom_write port dst data cnt s = i2c_write_loop port dst data cnt 0 s"

definition i2c_eeprom_write_byte :: "'c twi_port \<Rightarrow> u16 \<Rightarrow> u8 \<Rightarrow> 'c i2c_state \<Rightarrow> (i2c_eeprom_err \<times> 'c i2c_state) option" where
  "i2c_eeprom_write_byte port dst b s = do {
     (r, s) \<leftarrow> i2c_eeprom_write_page port dst [b] 1 s;
     Some (if r = 1 then SUCCESS else storage_errno s, s) }"

definition i2c_eeprom_write_short :: "'c twi_port \<Rightarrow> u16 \<Rightarrow> u16 \<Rightarrow> 'c i2c_state \<Rightarrow> (i2c_eeprom_err \<times> 'c i2c_state) option" where
  "i2c_eeprom_write_short port dst v s = do {
     (r, s) \<leftarrow> i2c_eeprom_write port dst (bytes_of_short v) 2 s;
     Some (if r = 1 then SUCCESS else storage_errno s, s) }"

function i2c_eeprom_memset :: "'c twi_port \<Rightarrow> u16 \<Rightarrow> u8 \<Rightarrow> u16 \<Rightarrow> 'c i2c_state \<Rightarrow> (i2c_eeprom_err \<times> 'c i2c_state) option" where
  "i2c_eeprom_memset port dst c len s =
     (if len = 0 then Some (SUCCESS, s)
      else let n = page_chunk (16 - i2c_page_off dst) len in do {
        (r, s) \<leftarrow> i2c_eeprom_write_page port dst (replicate EEEXT_PAGE_SIZE c) n s;
        if r \<noteq> n then Some (storage_errno s, s)
        else i2c_eeprom_memset port (dst + ucast n) c (len - ucast n) s })"
  by pat_completeness auto
termination
  by (relation "measure (\<lambda>(port, dst, c, len, s). unat len)") (auto intro: i2c_rest_less)

text \<open>
  \<open>i2c_eeprom_memmove\<close>: \<open>up\<close> is \<open>direction > 0\<close>. In the other direction the cursors start behind the
  blocks, and a chunk reaches down to the page boundary below the cursor.
\<close>

definition i2c_memmove_chunk :: "bool \<Rightarrow> u16 \<Rightarrow> u16 \<Rightarrow> u8" where
  "i2c_memmove_chunk up dst cnt =
     page_chunk (if up then 16 - i2c_page_off dst else if i2c_page_off dst = 0 then 16 else i2c_page_off dst) cnt"

lemma i2c_memmove_chunk_less: "cnt \<noteq> 0 \<Longrightarrow> unat (cnt - ucast (i2c_memmove_chunk up dst cnt)) < unat cnt"
  by (simp add: i2c_memmove_chunk_def i2c_rest_less) (auto simp: page_chunk_rest word_facts)

function i2c_move_loop :: "'c twi_port \<Rightarrow> bool \<Rightarrow> u16 \<Rightarrow> u16 \<Rightarrow> u16 \<Rightarrow> 'c i2c_state \<Rightarrow> (i2c_eeprom_err \<times> 'c i2c_state) option" where
  "i2c_move_loop port up dst src cnt s =
     (if cnt = 0 then Some (SUCCESS, s)
      else let n = i2c_memmove_chunk up dst cnt;
               src = (if up then src else src - ucast n);
               dst = (if up then dst else dst - ucast n) in do {
        (r, buf, s) \<leftarrow> i2c_eeprom_read port src (ucast n) s;
        if r \<noteq> ucast n then Some (storage_errno s, s)
        else do {
          (w, s) \<leftarrow> i2c_eeprom_write_page port dst buf n s;
          if w \<noteq> n then Some (storage_errno s, s)
          else i2c_move_loop port up (if up then dst + ucast n else dst) (if up then src + ucast n else src) (cnt - ucast n) s } })"
  by pat_completeness auto
termination
  by (relation "measure (\<lambda>(port, up, dst, src, cnt, s). unat cnt)") (auto intro: i2c_memmove_chunk_less)

definition i2c_eeprom_memmove :: "'c twi_port \<Rightarrow> u16 \<Rightarrow> u16 \<Rightarrow> u16 \<Rightarrow> 'c i2c_state \<Rightarrow> (i2c_eeprom_err \<times> 'c i2c_state) option" where
  "i2c_eeprom_memmove port dst src cnt s =
     (if src < dst then i2c_move_loop port False (dst + cnt) (src + cnt) cnt s
      else i2c_move_loop port True dst src cnt s)"

declare i2c_write_loop.simps [simp del] i2c_eeprom_memset.simps [simp del] i2c_move_loop.simps [simp del]

end
