(* ===== verification/I2cEepromCorrect.thy ===== *)
theory I2cEepromCorrect
  imports I2cEeprom TwiCorrect
begin

text \<open>
  What the I2C driver promises. The EEPROM is a device on the two-wire bus that keeps to the locale
  \<open>at24_protocol\<close>, the protocol of its data sheet: select byte, address byte, data bytes loaded into
  one page, written when the stop condition comes; no answer while a write cycle runs, which takes at most
  ten milliseconds. Over any bus that carries bytes the driver is shown to implement a byte memory, and
  to report what failed when no chip answers.
\<close>

datatype chip_phase = Quiet | Started | Selected nat | Loading nat "u8 list" | Sending nat

locale at24_protocol = i2c_listener dev
  for dev :: "'e i2c_device" +
  fixes contents :: "'e \<Rightarrow> memory" and phase :: "'e \<Rightarrow> chip_phase" and cycle :: "'e \<Rightarrow> nat" and pointer :: "'e \<Rightarrow> nat"
    and capacity :: nat
  assumes talks_phase: "dev_talks dev e \<longleftrightarrow> (\<exists>a. phase e = Sending a)"
    and start_phase: "phase e = Quiet \<or> phase e = Loading a [] \<Longrightarrow>
      phase (dev_start dev e) = Started \<and> contents (dev_start dev e) = contents e \<and> cycle (dev_start dev e) = cycle e"
    and start_pointer: "phase e = Loading a [] \<Longrightarrow> pointer (dev_start dev e) = a"
    and select_phase: "phase e = Started \<Longrightarrow> unat addr < capacity \<Longrightarrow> dev_byte dev (0xA0 XOR select_bits addr) e = (k, f) \<Longrightarrow>
      k = (cycle e = 0) \<and> phase f = (if k then Selected (unat addr div 256) else Quiet) \<and> contents f = contents e \<and> cycle f = cycle e"
    and address_phase: "phase e = Selected h \<Longrightarrow> dev_byte dev b e = (k, f) \<Longrightarrow>
      k \<and> phase f = Loading (256 * h + unat b) [] \<and> contents f = contents e \<and> cycle f = cycle e"
    and data_phase: "phase e = Loading a bs \<Longrightarrow> dev_byte dev b e = (k, f) \<Longrightarrow>
      k \<and> phase f = Loading a (bs @ [b]) \<and> contents f = contents e"
    and quiet_stop: "phase e = Quiet \<Longrightarrow> phase (dev_stop dev e) = Quiet \<and> contents (dev_stop dev e) = contents e"
    and write_stop: "phase e = Loading a bs \<Longrightarrow> bs \<noteq> [] \<Longrightarrow> phase (dev_stop dev e) = Quiet \<and>
      contents (dev_stop dev e) = page_write EEEXT_PAGE_SIZE (contents e) (a - a mod EEEXT_PAGE_SIZE) (a mod EEEXT_PAGE_SIZE) bs"
    and read_phase: "phase e = Started \<Longrightarrow> cycle e = 0 \<Longrightarrow> unat addr < capacity \<Longrightarrow>
      dev_byte dev (0xA1 XOR select_bits addr) e = (k, f) \<Longrightarrow> k \<and> phase f = Sending (pointer e) \<and> contents f = contents e"
    and give_phase: "phase e = Sending a \<Longrightarrow> dev_give dev e = contents e a"
    and sent_phase: "phase e = Sending a \<Longrightarrow> Suc a < capacity \<Longrightarrow>
      phase (dev_sent dev True e) = Sending (Suc a) \<and> contents (dev_sent dev True e) = contents e"
    and last_phase: "phase e = Sending a \<Longrightarrow>
      phase (dev_sent dev False e) = Quiet \<and> contents (dev_sent dev False e) = contents e"
    and ms_phase: "phase e = Quiet \<Longrightarrow> phase (dev_ms dev e) = Quiet \<and> contents (dev_ms dev e) = contents e
      \<and> cycle (dev_ms dev e) \<le> cycle e - 1"
    and cycle_time: "cycle e \<le> 10"
    and capacity_law: "capacity \<le> 0x4000"

locale i2c_eeprom_chip = i2c_bus port dev joined + at24_protocol dev contents phase cycle pointer capacity
  for port :: "'c twi_port" and dev :: "'e i2c_device" and joined contents phase cycle pointer capacity

text \<open>Such a chip on either bus of \<open>twi.c\<close>.\<close>

sublocale at24_protocol \<subseteq> on_lines: i2c_eeprom_chip "bitbang_port (device_wires dev)" dev "lines_joined dev" contents phase cycle pointer capacity
  by unfold_locales

sublocale at24_protocol \<subseteq> on_unit: i2c_eeprom_chip "hardware_port (device_unit dev (Suc latency))" dev unit_joined contents phase cycle pointer capacity
  by unfold_locales

subsection \<open>Chunks of a block\<close>

lemma i2c_chunk_facts:
  assumes "cnt \<noteq> 0" "n = page_chunk (16 - i2c_page_off dst) cnt"
  shows "n \<noteq> 0" "unat n \<le> unat cnt" "unat dst mod 16 + unat n \<le> 16"
    "unat (cnt - ucast n) = unat cnt - unat n" "unat (cnt - ucast n) < unat cnt"
proof -
  have un: "unat n = min (unat cnt) (16 - unat dst mod 16)" unfolding assms(2) page_chunk_unat i2c_page_rest ..
  have "0 < unat cnt" using assms(1) unat_gt_0 by blast
  moreover have lt: "unat dst mod 16 < 16" by simp
  ultimately have pos: "0 < unat n" unfolding un by linarith
  then show "n \<noteq> 0" unfolding unat_gt_0 .
  show "unat n \<le> unat cnt" unfolding un by simp
  show "unat dst mod 16 + unat n \<le> 16" using lt unfolding un by linarith
  show r: "unat (cnt - ucast n) = unat cnt - unat n" unfolding assms(2) page_chunk_rest page_chunk_unat ..
  show "unat (cnt - ucast n) < unat cnt" using pos \<open>0 < unat cnt\<close> unfolding r by linarith
qed

lemma mod_below:
  assumes "(n :: nat) \<le> (if d mod 16 = 0 then 16 else d mod 16)" "n \<le> d" "0 < n"
  shows "(d - n) mod 16 + n \<le> 16"
proof (cases "n \<le> d mod 16")
  case True
  have "d - n = 16 * (d div 16) + (d mod 16 - n)" using True mult_div_mod_eq [of 16 d] by linarith
  moreover have "d mod 16 - n < 16" by (simp add: less_imp_diff_less)
  ultimately have "(d - n) mod 16 = d mod 16 - n" by simp
  then show ?thesis using True by (simp add: order_less_imp_le)
next
  case False
  then have z: "d mod 16 = 0" "n \<le> 16" using assms(1) by (auto split: if_splits)
  then obtain q where "d = 16 * q" by (metis mod_0_imp_dvd dvdE)
  moreover from this assms(2,3) obtain r where "q = Suc r" by (cases q) auto
  ultimately have "d - n = 16 * r + (16 - n)" using z(2) by simp
  then have "(d - n) mod 16 = 16 - n" using assms(3) by simp
  then show ?thesis using z(2) by simp
qed

lemma i2c_chunk_back_facts:
  assumes "cnt \<noteq> 0" "n = i2c_memmove_chunk False dst cnt" "unat cnt \<le> unat dst"
  shows "n \<noteq> 0" "unat n \<le> unat cnt" "(unat dst - unat n) mod 16 + unat n \<le> 16"
    "unat (cnt - ucast n) = unat cnt - unat n" "unat (cnt - ucast n) < unat cnt"
proof -
  have "i2c_page_off dst = 0 \<longleftrightarrow> unat dst mod 16 = 0" unfolding i2c_page_off_unat [symmetric] by (simp add: unat_eq_0)
  then have un: "unat n = min (unat cnt) (if unat dst mod 16 = 0 then 16 else unat dst mod 16)"
    unfolding assms(2) i2c_memmove_chunk_def page_chunk_unat by (simp add: i2c_page_off_unat)
  have c: "0 < unat cnt" using assms(1) unat_gt_0 by blast
  then have pos: "0 < unat n" unfolding un by auto
  then show "n \<noteq> 0" unfolding unat_gt_0 .
  show le: "unat n \<le> unat cnt" unfolding un by simp
  show "(unat dst - unat n) mod 16 + unat n \<le> 16" using un le assms(3) pos by (intro mod_below) auto
  show r: "unat (cnt - ucast n) = unat cnt - unat n" unfolding assms(2) i2c_memmove_chunk_def page_chunk_rest page_chunk_unat ..
  show "unat (cnt - ucast n) < unat cnt" using pos c unfolding r by linarith
qed

lemma cursor_up: "unat dst + unat n < 0x10000 \<Longrightarrow> unat (dst + ucast (n :: u8) :: u16) = unat dst + unat n"
  by (simp add: unat_word_ariths(1))

lemma cursor_down: "unat n \<le> unat dst \<Longrightarrow> unat (dst - ucast (n :: u8) :: u16) = unat dst - unat n"
  by (subst unat_sub) (auto simp: word_le_nat_alt)

subsection \<open>Bus operations\<close>

context i2c_listener
begin

lemma lines_bus: "i2c_bus (bitbang_port (device_wires dev)) dev (lines_joined dev)"
  by (rule lines.i2c_bus_axioms)

end

context i2c_bus
begin

lemma bus_start_ok:
  "joined (twi s) e \<Longrightarrow> \<not> dev_talks dev e \<Longrightarrow> \<exists>t. bus_start port s = Some t \<and> joined (twi t) (dev_start dev e)
    \<and> storage_errno t = storage_errno s"
  using start_law [of "twi s" e] by (auto simp: bus_start_def)

lemma bus_stop_ok:
  "joined (twi s) e \<Longrightarrow> \<not> dev_talks dev e \<Longrightarrow> \<exists>t. bus_stop port s = Some t \<and> joined (twi t) (dev_stop dev e)
    \<and> storage_errno t = storage_errno s"
  using stop_law [of "twi s" e] by (auto simp: bus_stop_def)

lemma bus_write_ok:
  "joined (twi s) e \<Longrightarrow> dev_open dev e \<Longrightarrow> \<not> dev_talks dev e \<Longrightarrow> dev_byte dev b e = (a, f) \<Longrightarrow>
    \<exists>t. bus_write_byte port b s = Some (if a then ACK else NACK, t) \<and> joined (twi t) f \<and> storage_errno t = storage_errno s"
  using write_law [of "twi s" e b a f] by (auto simp: bus_write_byte_def)

lemma bus_read_ok:
  "joined (twi s) e \<Longrightarrow> dev_talks dev e \<Longrightarrow> \<exists>t. bus_read_byte port k s = Some (dev_give dev e, t)
    \<and> joined (twi t) (dev_sent dev (k = ACK) e) \<and> storage_errno t = storage_errno s"
  using read_law [of "twi s" e k] by (auto simp: bus_read_byte_def)

end

context i2c_eeprom_chip
begin

text \<open>The driver and the chip in the middle of a transaction, and at rest with \<open>m\<close> in the chip.\<close>

definition midway :: "chip_phase \<Rightarrow> memory \<Rightarrow> 'c i2c_state \<Rightarrow> 'e \<Rightarrow> bool" where
  "midway p m s e \<longleftrightarrow> joined (twi s) e \<and> dev_open dev e \<and> phase e = p \<and> contents e = m"

definition holds :: "memory \<Rightarrow> 'c i2c_state \<Rightarrow> bool" where
  "holds m s \<longleftrightarrow> (\<exists>e. joined (twi s) e \<and> phase e = Quiet \<and> contents e = m)"

lemma select_ok:
  assumes "joined (twi s) e" "phase e = Quiet" "contents e = m" "cycle e < n" "unat addr < capacity"
  shows "\<exists>t f. i2c_select_loop port (0xA0 XOR select_bits addr) n s = Some (True, t) \<and> midway (Selected (unat addr div 256)) m t f
    \<and> cycle f = 0 \<and> storage_errno t = storage_errno s"
  using assms(1-4)
proof (induction n arbitrary: s e)
  case (Suc n)
  let ?e = "dev_start dev e" and ?b = "0xA0 XOR select_bits addr"
  obtain k f where b: "dev_byte dev ?b ?e = (k, f)" by fastforce
  have st: "phase ?e = Started" "contents ?e = m" "cycle ?e = cycle e" using start_phase [of e] Suc.prems by auto
  note sel = select_phase [OF st(1) assms(5) b]
  obtain t where t: "bus_start port s = Some t" "joined (twi t) ?e" "storage_errno t = storage_errno s"
    using bus_start_ok [OF Suc.prems(1)] Suc.prems(2) by (auto simp: talks_phase)
  obtain u where u: "bus_write_byte port ?b t = Some (if k then ACK else NACK, u)" "joined (twi u) f" "storage_errno u = storage_errno s"
    using bus_write_ok [OF t(2) open_start _ b] st(1) t(3) by (auto simp: talks_phase)
  show ?case
  proof (cases k)
    case True
    then show ?thesis using t(1) u sel st open_byte [OF open_start, of ?b e] b by (auto simp: midway_def)
  next
    case False
    let ?u = "u\<lparr>twi := port_delay_ms port (twi u)\<rparr>"
    have q: "phase f = Quiet" "contents f = m" "cycle f = cycle e" "0 < cycle e" using sel st False by auto
    then have "joined (twi ?u) (dev_ms dev f)" using delay_law [OF u(2)] by (simp add: talks_phase)
    moreover have "phase (dev_ms dev f) = Quiet" "contents (dev_ms dev f) = m" "cycle (dev_ms dev f) < n"
      using ms_phase [OF q(1)] q Suc.prems(4) by auto
    ultimately show ?thesis using Suc.IH [of ?u "dev_ms dev f"] t(1) u False by simp
  qed
qed simp

lemma start_write_ok:
  assumes "joined (twi s) e" "phase e = Quiet" "contents e = m" "unat addr < capacity"
  shows "\<exists>t f. i2c_eeprom_start_write port addr s = Some (SUCCESS, t) \<and> midway (Loading (unat addr) []) m t f
    \<and> cycle f = 0 \<and> storage_errno t = storage_errno s"
proof -
  have "cycle e < 11" using cycle_time [of e] by linarith
  from select_ok [OF assms(1-3) this assms(4)] obtain t f where
    t: "i2c_select_loop port (0xA0 XOR select_bits addr) 11 s = Some (True, t)" "cycle f = 0" "storage_errno t = storage_errno s"
    and f: "joined (twi t) f" "dev_open dev f" "phase f = Selected (unat addr div 256)" "contents f = m" unfolding midway_def by blast
  let ?b = "ucast (addr AND 0xFF) :: u8"
  obtain k g where b: "dev_byte dev ?b f = (k, g)" by fastforce
  have "unat (addr AND 0xFF) = unat addr mod 256" using unat_and_mask [of addr 8] by (simp add: mask_eq_decr_exp)
  then have "unat ?b = unat addr mod 256" unfolding unat_ucast_16_8 by simp
  then have "256 * (unat addr div 256) + unat ?b = unat addr" by simp
  with address_phase [OF f(3) b] have g: "k" "phase g = Loading (unat addr) []" "contents g = m" "cycle g = 0"
    using f(4) t(2) by simp_all
  obtain u where "bus_write_byte port ?b t = Some (ACK, u)" "joined (twi u) g" "storage_errno u = storage_errno s"
    using bus_write_ok [OF f(1,2) _ b] f(3) g(1) t(3) by (auto simp: talks_phase)
  then show ?thesis using t(1) g open_byte [OF f(2), of ?b] b
    by (simp add: i2c_eeprom_start_write_def midway_def) blast
qed

lemma send_ok:
  assumes "midway (Loading a xs) m s e"
  shows "\<exists>t f. i2c_send_loop port bs i s = Some (i + of_nat (length bs), t) \<and> midway (Loading a (xs @ bs)) m t f
    \<and> storage_errno t = storage_errno s"
  using assms
proof (induction bs arbitrary: xs s e i)
  case (Cons b bs)
  obtain k f where b: "dev_byte dev b e = (k, f)" by fastforce
  from Cons.prems have e: "joined (twi s) e" "dev_open dev e" "phase e = Loading a xs" "contents e = m" by (auto simp: midway_def)
  have f: "k" "phase f = Loading a (xs @ [b])" "contents f = m" using data_phase [OF e(3) b] e(4) by auto
  obtain t where t: "bus_write_byte port b s = Some (ACK, t)" "joined (twi t) f" "storage_errno t = storage_errno s"
    using bus_write_ok [OF e(1,2) _ b] e(3) f(1) by (auto simp: talks_phase)
  have "midway (Loading a (xs @ [b])) m t f" using t(2) f open_byte [OF e(2), of b] b by (simp add: midway_def)
  from Cons.IH [OF this, of "i + 1"] t show ?case by (simp add: add.assoc)
qed auto

lemma receive_ok:
  assumes "midway (Sending a) m s e" "a + n \<le> capacity" "0 < n"
  shows "\<exists>t f. i2c_receive_loop port n s = Some (mem_read m a n, t) \<and> midway Quiet m t f \<and> storage_errno t = storage_errno s"
  using assms
proof (induction n arbitrary: a s e)
  case (Suc n)
  from Suc.prems have e: "joined (twi s) e" "dev_open dev e" "phase e = Sending a" "contents e = m" by (auto simp: midway_def)
  obtain t where t: "bus_read_byte port (if n \<noteq> 0 then ACK else NACK) s = Some (m a, t)"
    "joined (twi t) (dev_sent dev (n \<noteq> 0) e)" "storage_errno t = storage_errno s"
    using bus_read_ok [OF e(1), of "if n \<noteq> 0 then ACK else NACK"] e give_phase [OF e(3)]
    by (cases "n = 0") (auto simp: talks_phase)
  have m: "mem_read m a (Suc n) = m a # mem_read m (Suc a) n" using mem_read_append [of m a 1 n] by (simp add: mem_read_def)
  show ?case
  proof (cases "n = 0")
    case True
    then show ?thesis using t e last_phase [OF e(3)] open_sent [OF e(2), of False]
      by (auto simp: midway_def mem_read_def)
  next
    case False
    then have "midway (Sending (Suc a)) m t (dev_sent dev True e)"
      using t(2) sent_phase [OF e(3)] Suc.prems(2) open_sent [OF e(2), of True] e(4) by (simp add: midway_def)
    from Suc.IH [OF this] False Suc.prems(2) t(1,3) show ?thesis unfolding m by auto
  qed
qed simp

lemma write_page_block:
  assumes "holds m s" "unat addr < capacity" "len \<noteq> 0" "unat len \<le> length buf" "unat addr mod 16 + unat len \<le> 16"
  shows "\<exists>t. i2c_eeprom_write_page port addr buf len s = Some (len, t) \<and> storage_errno t = SUCCESS
    \<and> holds (mem_write m (unat addr) (take (unat len) buf)) t"
proof -
  let ?s = "s\<lparr>storage_errno := SUCCESS\<rparr>" and ?bs = "take (unat len) buf"
  obtain e where e: "joined (twi ?s) e" "phase e = Quiet" "contents e = m" using assms(1) by (auto simp: holds_def)
  obtain t f where t: "i2c_eeprom_start_write port addr ?s = Some (SUCCESS, t)" "midway (Loading (unat addr) []) m t f"
    "storage_errno t = SUCCESS" using start_write_ok [OF e assms(2)] by auto
  have l: "length ?bs = unat len" using assms(4) by simp
  then obtain u g where u: "i2c_send_loop port ?bs 0 t = Some (len, u)" "joined (twi u) g" "phase g = Loading (unat addr) ?bs"
    "contents g = m" "storage_errno u = SUCCESS" using send_ok [OF t(2), of ?bs 0] t(3) by (auto simp: midway_def)
  have "?bs \<noteq> []" using l assms(3) by (auto simp: unat_eq_0)
  from write_stop [OF u(3) this] have g: "phase (dev_stop dev g) = Quiet" "contents (dev_stop dev g) = mem_write m (unat addr) ?bs"
    using assms(5) l by (simp_all add: EEEXT_PAGE_SIZE_def u(4) page_write_within)
  have "sint len = uint len" using assms(5) by (intro sint_small) linarith
  moreover obtain v where "bus_stop port u = Some v" "joined (twi v) (dev_stop dev g)" "storage_errno v = SUCCESS"
    using bus_stop_ok [OF u(2)] u(3,5) by (auto simp: talks_phase)
  ultimately show ?thesis using t(1) u(1) g
    by (auto simp: i2c_eeprom_write_page_def i2c_eeprom_continue_write_def i2c_eeprom_end_write_def holds_def)
qed

lemma read_block:
  assumes "holds m s" "unat addr + unat len \<le> capacity" "len \<noteq> 0"
  shows "\<exists>t. i2c_eeprom_read port addr len s = Some (len, mem_read m (unat addr) (unat len), t) \<and> storage_errno t = SUCCESS \<and> holds m t"
proof -
  let ?s = "s\<lparr>storage_errno := SUCCESS\<rparr>" and ?b = "0xA1 XOR select_bits addr"
  have pos: "0 < unat len" using assms(3) by (simp add: unat_gt_0)
  then have a: "unat addr < capacity" using assms(2) by linarith
  obtain e where e: "joined (twi ?s) e" "phase e = Quiet" "contents e = m" using assms(1) by (auto simp: holds_def)
  obtain t f where t: "i2c_eeprom_start_write port addr ?s = Some (SUCCESS, t)" "storage_errno t = SUCCESS"
    and f: "joined (twi t) f" "phase f = Loading (unat addr) []" "contents f = m" "cycle f = 0"
    using start_write_ok [OF e a] by (auto simp: midway_def)
  let ?f = "dev_start dev f"
  have st: "phase ?f = Started" "contents ?f = m" "cycle ?f = 0" "pointer ?f = unat addr"
    using start_phase [of f] start_pointer [OF f(2)] f by auto
  obtain u where u: "bus_start port t = Some u" "joined (twi u) ?f" "storage_errno u = SUCCESS"
    using bus_start_ok [OF f(1)] f(2) t(2) by (auto simp: talks_phase)
  obtain k g where b: "dev_byte dev ?b ?f = (k, g)" by fastforce
  with read_phase [OF st(1,3) a b] st have g: "k" "phase g = Sending (unat addr)" "contents g = m" by auto
  obtain v where v: "bus_write_byte port ?b u = Some (ACK, v)" "joined (twi v) g" "storage_errno v = SUCCESS"
    using bus_write_ok [OF u(2) open_start _ b] st(1) g(1) u(3) by (auto simp: talks_phase)
  have "midway (Sending (unat addr)) m v g" using v(2) g open_byte [OF open_start, of ?b f] b by (simp add: midway_def)
  from receive_ok [OF this assms(2) pos] obtain w h where
    w: "i2c_receive_loop port (unat len) v = Some (mem_read m (unat addr) (unat len), w)" "storage_errno w = SUCCESS"
    and h: "joined (twi w) h" "phase h = Quiet" "contents h = m" using v(3) by (auto simp: midway_def)
  obtain x where "bus_stop port w = Some x" "joined (twi x) (dev_stop dev h)" "storage_errno x = SUCCESS"
    using bus_stop_ok [OF h(1)] h(2) w(2) by (auto simp: talks_phase)
  moreover have "mem_read m (unat addr) (unat len) \<noteq> []" using pos by (metis length_0_conv length_mem_read less_irrefl)
  ultimately show ?thesis using t(1) u(1) v(1) w(1) quiet_stop [OF h(2)] h(3)
    by (auto simp: i2c_eeprom_read_def holds_def)
qed

lemma write_block:
  assumes "holds m s" "unat dst + unat cnt \<le> capacity" "unat cnt \<le> length data"
  shows "\<exists>t. i2c_write_loop port dst data cnt w s = Some (w + cnt, t) \<and> (cnt \<noteq> 0 \<longrightarrow> storage_errno t = SUCCESS)
    \<and> holds (mem_write m (unat dst) (take (unat cnt) data)) t"
  using assms
proof (induction "unat cnt" arbitrary: m s dst cnt data w rule: less_induct)
  case less
  show ?case
  proof (cases "cnt = 0")
    case True
    then show ?thesis using less.prems by (subst i2c_write_loop.simps) simp
  next
    case False
    define n where "n = page_chunk (16 - i2c_page_off dst) cnt"
    define c where "c = cnt - ucast n"
    note n = i2c_chunk_facts [OF False n_def, folded c_def]
    have "0 < unat cnt" using False by (simp add: unat_gt_0)
    then obtain b where b: "i2c_eeprom_write_page port dst data n s = Some (n, b)" "storage_errno b = SUCCESS"
      "holds (mem_write m (unat dst) (take (unat n) data)) b"
      using write_page_block [OF less.prems(1) _ n(1) _ n(3), of data] n(2) less.prems(2,3) by auto
    have step: "i2c_write_loop port dst data cnt w s = i2c_write_loop port (dst + ucast n) (drop (unat n) data) c (w + ucast n) b"
      using False b(1) by (subst i2c_write_loop.simps) (simp add: n_def [symmetric] c_def [symmetric])
    have d: "unat (dst + ucast n) = unat dst + unat n" using less.prems(2) capacity_law n(2) by (intro cursor_up) linarith
    have "take (unat cnt) data = take (unat n) data @ take (unat c) (drop (unat n) data)"
      unfolding n(4) using n(2) by (metis le_add_diff_inverse take_add)
    then have m: "mem_write m (unat dst) (take (unat cnt) data)
        = mem_write (mem_write m (unat dst) (take (unat n) data)) (unat dst + unat n) (take (unat c) (drop (unat n) data))"
      using n(2) less.prems(3) by (simp add: mem_write_append min_def)
    have w: "w + ucast n + c = w + cnt" by (simp add: c_def)
    have "unat (dst + ucast n) + unat c \<le> capacity" "unat c \<le> length (drop (unat n) data)"
      using d n(2,4) less.prems(2,3) by auto
    from less.hyps [OF n(5) b(3) this, of "w + ucast n"] obtain t where
      t: "i2c_write_loop port (dst + ucast n) (drop (unat n) data) c (w + ucast n) b = Some (w + cnt, t)"
      "c \<noteq> 0 \<longrightarrow> storage_errno t = SUCCESS" "holds (mem_write m (unat dst) (take (unat cnt) data)) t"
      unfolding d m w by blast
    moreover have "c = 0 \<Longrightarrow> t = b" using t(1) by (subst (asm) i2c_write_loop.simps) simp
    ultimately show ?thesis unfolding step using b(2) by blast
  qed
qed

lemma write_short_block:
  assumes "holds m s" "unat dst + 2 \<le> capacity"
  shows "\<exists>t. i2c_eeprom_write_short port dst v s = Some (SUCCESS, t) \<and> holds (mem_write_short m (unat dst) v) t"
  using write_block [OF assms(1), of dst 2 "bytes_of_short v" 0] assms(2)
  by (auto simp: i2c_eeprom_write_short_def i2c_eeprom_write_def mem_write_short_def)

lemma memset_block:
  assumes "holds m s" "unat dst + unat len \<le> capacity"
  shows "\<exists>t. i2c_eeprom_memset port dst c len s = Some (SUCCESS, t) \<and> holds (mem_set m (unat dst) c (unat len)) t"
  using assms
proof (induction "unat len" arbitrary: m s dst len rule: less_induct)
  case less
  show ?case
  proof (cases "len = 0")
    case True
    then show ?thesis using less.prems by (subst i2c_eeprom_memset.simps) (simp add: mem_set_def)
  next
    case False
    define n where "n = page_chunk (16 - i2c_page_off dst) len"
    note n = i2c_chunk_facts [OF False n_def]
    have "0 < unat len" using False by (simp add: unat_gt_0)
    then obtain b where b: "i2c_eeprom_write_page port dst (replicate EEEXT_PAGE_SIZE c) n s = Some (n, b)"
      "holds (mem_set m (unat dst) c (unat n)) b"
      using write_page_block [OF less.prems(1) _ n(1) _ n(3), of "replicate EEEXT_PAGE_SIZE c"] n(2,3) less.prems(2)
      by (auto simp: EEEXT_PAGE_SIZE_def mem_set_def min_def)
    have step: "i2c_eeprom_memset port dst c len s = i2c_eeprom_memset port (dst + ucast n) c (len - ucast n) b"
      using False b(1) by (subst i2c_eeprom_memset.simps) (simp add: n_def [symmetric])
    have d: "unat (dst + ucast n) = unat dst + unat n" using less.prems(2) capacity_law n(2) by (intro cursor_up) linarith
    have "replicate (unat len) c = replicate (unat n) c @ replicate (unat (len - ucast n)) c"
      unfolding n(4) using n(2) by (metis le_add_diff_inverse replicate_add)
    then have m: "mem_set m (unat dst) c (unat len) = mem_set (mem_set m (unat dst) c (unat n)) (unat dst + unat n) c (unat (len - ucast n))"
      by (simp add: mem_set_def mem_write_append)
    show ?thesis using less.hyps [OF n(5) b(2), of "dst + ucast n"] n(2,4) less.prems(2) unfolding step m d by auto
  qed
qed

text \<open>One chunk of a move.\<close>

lemma move_chunk:
  assumes "holds m s" "unat src + unat n \<le> capacity" "unat dst < capacity" "n \<noteq> 0" "unat dst mod 16 + unat n \<le> 16"
  shows "\<exists>r b. i2c_eeprom_read port src (ucast n) s = Some (ucast n, mem_read m (unat src) (unat n), r)
    \<and> i2c_eeprom_write_page port dst (mem_read m (unat src) (unat n)) n r = Some (n, b)
    \<and> holds (mem_move m (unat dst) (unat src) (unat n)) b"
proof -
  have "(ucast n :: u16) \<noteq> 0" using assms(4) by (metis unat_ucast_8_16 unat_eq_0)
  then obtain r where r: "i2c_eeprom_read port src (ucast n) s = Some (ucast n, mem_read m (unat src) (unat n), r)" "holds m r"
    using read_block [OF assms(1), of src "ucast n"] assms(2) by auto
  then show ?thesis using write_page_block [OF r(2) assms(3,4) _ assms(5), of "mem_read m (unat src) (unat n)"]
    by (auto simp: mem_move_def)
qed

lemma move_down_block:
  assumes "holds m s" "unat src + unat cnt \<le> capacity" "dst \<le> src"
  shows "\<exists>t. i2c_move_loop port True dst src cnt s = Some (SUCCESS, t) \<and> holds (mem_move m (unat dst) (unat src) (unat cnt)) t"
  using assms
proof (induction "unat cnt" arbitrary: m s dst src cnt rule: less_induct)
  case less
  have le: "unat dst \<le> unat src" using less.prems(3) by (simp add: word_le_nat_alt)
  show ?case
  proof (cases "cnt = 0")
    case True
    then show ?thesis using less.prems by (subst i2c_move_loop.simps) (simp add: mem_move_def mem_read_def)
  next
    case False
    define n where "n = page_chunk (16 - i2c_page_off dst) cnt"
    note n = i2c_chunk_facts [OF False n_def]
    have "0 < unat n" using n(1) by (simp add: unat_gt_0)
    then obtain r b where b: "i2c_eeprom_read port src (ucast n) s = Some (ucast n, mem_read m (unat src) (unat n), r)"
      "i2c_eeprom_write_page port dst (mem_read m (unat src) (unat n)) n r = Some (n, b)"
      "holds (mem_move m (unat dst) (unat src) (unat n)) b"
      using move_chunk [OF less.prems(1) _ _ n(1,3), of src] n(2) less.prems(2) le by auto
    have step: "i2c_move_loop port True dst src cnt s = i2c_move_loop port True (dst + ucast n) (src + ucast n) (cnt - ucast n) b"
      using False b(1,2) by (subst i2c_move_loop.simps) (simp add: i2c_memmove_chunk_def n_def [symmetric])
    have d: "unat (dst + ucast n) = unat dst + unat n" "unat (src + ucast n) = unat src + unat n"
      using less.prems(2) capacity_law n(2) le by (intro cursor_up; linarith)+
    have m: "mem_move (mem_move m (unat dst) (unat src) (unat n)) (unat dst + unat n) (unat src + unat n) (unat (cnt - ucast n))
        = mem_move m (unat dst) (unat src) (unat cnt)"
      using le n(2) unfolding n(4) by (auto simp: fun_eq_iff mem_move_apply)
    have "unat (src + ucast n) + unat (cnt - ucast n) \<le> capacity" "dst + ucast n \<le> src + ucast n"
      using d le n(2,4) less.prems(2) by (auto simp: word_le_nat_alt)
    from less.hyps [OF n(5) b(3) this] show ?thesis unfolding step d m .
  qed
qed

lemma move_up_block:
  assumes "holds m s" "unat cnt \<le> unat src" "unat dst \<le> capacity" "src < dst"
  shows "\<exists>t. i2c_move_loop port False dst src cnt s = Some (SUCCESS, t)
    \<and> holds (mem_move m (unat dst - unat cnt) (unat src - unat cnt) (unat cnt)) t"
  using assms
proof (induction "unat cnt" arbitrary: m s dst src cnt rule: less_induct)
  case less
  have lt: "unat src < unat dst" using less.prems(4) by (simp add: word_less_nat_alt)
  show ?case
  proof (cases "cnt = 0")
    case True
    then show ?thesis using less.prems by (subst i2c_move_loop.simps) (simp add: mem_move_def mem_read_def)
  next
    case False
    define n where "n = i2c_memmove_chunk False dst cnt"
    have "unat cnt \<le> unat dst" using lt less.prems(2) by linarith
    note n = i2c_chunk_back_facts [OF False n_def this]
    have d: "unat (dst - ucast n) = unat dst - unat n" "unat (src - ucast n) = unat src - unat n"
      using n(2) lt less.prems(2) by (intro cursor_down; linarith)+
    have "unat (src - ucast n) + unat n \<le> capacity" "unat (dst - ucast n) < capacity" "unat (dst - ucast n) mod 16 + unat n \<le> 16"
      using n(1,2,3) d lt less.prems(2,3) by (auto simp flip: unat_gt_0)
    then obtain r b where b: "i2c_eeprom_read port (src - ucast n) (ucast n) s = Some (ucast n, mem_read m (unat src - unat n) (unat n), r)"
      "i2c_eeprom_write_page port (dst - ucast n) (mem_read m (unat src - unat n) (unat n)) n r = Some (n, b)"
      "holds (mem_move m (unat dst - unat n) (unat src - unat n) (unat n)) b"
      using move_chunk [OF less.prems(1) _ _ n(1), of "src - ucast n" "dst - ucast n"] unfolding d by auto
    have step: "i2c_move_loop port False dst src cnt s = i2c_move_loop port False (dst - ucast n) (src - ucast n) (cnt - ucast n) b"
      using False b(1,2) by (subst i2c_move_loop.simps) (simp add: n_def [symmetric])
    have m: "mem_move (mem_move m (unat dst - unat n) (unat src - unat n) (unat n)) (unat dst - unat n - unat (cnt - ucast n))
          (unat src - unat n - unat (cnt - ucast n)) (unat (cnt - ucast n))
        = mem_move m (unat dst - unat cnt) (unat src - unat cnt) (unat cnt)"
      using lt n(2) less.prems(2) unfolding n(4) by (auto simp: fun_eq_iff mem_move_apply)
    have "unat (cnt - ucast n) \<le> unat (src - ucast n)" "unat (dst - ucast n) \<le> capacity" "src - ucast n < dst - ucast n"
      using d lt n(2,4) less.prems(2,3) by (auto simp: word_less_nat_alt)
    from less.hyps [OF n(5) b(3) this] show ?thesis unfolding step d m .
  qed
qed

lemma memmove_block:
  assumes "holds m s" "unat src + unat cnt \<le> capacity" "unat dst + unat cnt \<le> capacity"
  shows "\<exists>t. i2c_eeprom_memmove port dst src cnt s = Some (SUCCESS, t) \<and> holds (mem_move m (unat dst) (unat src) (unat cnt)) t"
proof (cases "src < dst")
  case True
  have "unat (dst + cnt) = unat dst + unat cnt" "unat (src + cnt) = unat src + unat cnt"
    using assms(2,3) capacity_law by (simp_all add: unat_word_ariths(1))
  then show ?thesis using move_up_block [OF assms(1), of cnt "src + cnt" "dst + cnt"] True assms(3)
    by (simp add: i2c_eeprom_memmove_def word_less_nat_alt)
next
  case False
  then show ?thesis using move_down_block [OF assms(1,2), of dst] by (simp add: i2c_eeprom_memmove_def)
qed

end

subsection \<open>Addresses no chip answers\<close>

definition ignores :: "'e i2c_device \<Rightarrow> ('e \<Rightarrow> chip_phase) \<Rightarrow> ('e \<Rightarrow> memory) \<Rightarrow> u16 \<Rightarrow> bool" where
  "ignores dev phase contents addr \<longleftrightarrow> (\<forall>e. phase e = Quiet \<longrightarrow>
     (case dev_byte dev (0xA0 XOR select_bits addr) (dev_start dev e) of (k, f) \<Rightarrow>
       \<not> k \<and> phase f = Quiet \<and> contents f = contents e))"

context i2c_eeprom_chip
begin

lemma select_ignored:
  assumes "ignores dev phase contents addr" "holds m s"
  shows "\<exists>t. i2c_select_loop port (0xA0 XOR select_bits addr) n s = Some (False, t) \<and> holds m t \<and> storage_errno t = storage_errno s"
  using assms(2)
proof (induction n arbitrary: s)
  case (Suc n)
  then obtain e where e: "joined (twi s) e" "phase e = Quiet" "contents e = m" by (auto simp: holds_def)
  let ?b = "0xA0 XOR select_bits addr"
  obtain k f where b: "dev_byte dev ?b (dev_start dev e) = (k, f)" by fastforce
  then have f: "\<not> k" "phase f = Quiet" "contents f = m" using assms(1) e(2,3) by (auto simp: ignores_def)
  obtain t where t: "bus_start port s = Some t" "joined (twi t) (dev_start dev e)" "storage_errno t = storage_errno s"
    using bus_start_ok [OF e(1)] e(2) by (auto simp: talks_phase)
  obtain u where u: "bus_write_byte port ?b t = Some (NACK, u)" "joined (twi u) f" "storage_errno u = storage_errno s"
    using bus_write_ok [OF t(2) open_start talks_start b] f(1) t(3) by auto
  have "holds m (u\<lparr>twi := port_delay_ms port (twi u)\<rparr>)"
    using delay_law [OF u(2)] ms_phase [OF f(2)] f(2,3) by (auto simp: holds_def talks_phase)
  from Suc.IH [OF this] show ?case using t(1) u(1,3) by auto
qed simp

lemma start_write_ignored:
  assumes "ignores dev phase contents addr" "holds m s"
  shows "\<exists>t. i2c_eeprom_start_write port addr s = Some (WSELECT_ERROR, t) \<and> holds m t"
proof -
  obtain t e where t: "i2c_select_loop port (0xA0 XOR select_bits addr) 11 s = Some (False, t)" "joined (twi t) e"
    "phase e = Quiet" "contents e = m" using select_ignored [OF assms, of 11] by (auto simp: holds_def)
  then show ?thesis using bus_stop_ok [OF t(2)] quiet_stop [OF t(3)]
    by (auto simp: i2c_eeprom_start_write_def holds_def talks_phase)
qed

lemma holds_errno [simp]: "holds m (s\<lparr>storage_errno := x\<rparr>) = holds m s"
  by (simp add: holds_def)

lemma write_page_ignored:
  assumes "ignores dev phase contents addr" "holds m s"
  shows "\<exists>t. i2c_eeprom_write_page port addr data n s = Some (0, t) \<and> storage_errno t = WSELECT_ERROR \<and> holds m t"
proof -
  obtain t where "i2c_eeprom_start_write port addr (s\<lparr>storage_errno := SUCCESS\<rparr>) = Some (WSELECT_ERROR, t)" "holds m t"
    using start_write_ignored [OF assms(1), of m "s\<lparr>storage_errno := SUCCESS\<rparr>"] assms(2) by auto
  then show ?thesis by (simp add: i2c_eeprom_write_page_def)
qed

lemma read_ignored:
  assumes "ignores dev phase contents addr" "holds m s"
  shows "\<exists>t. i2c_eeprom_read port addr len s = Some (-1, [], t) \<and> storage_errno t = WSELECT_ERROR \<and> holds m t"
proof -
  obtain t where t: "i2c_eeprom_start_write port addr (s\<lparr>storage_errno := SUCCESS\<rparr>) = Some (WSELECT_ERROR, t)" "holds m t"
    using start_write_ignored [OF assms(1), of m "s\<lparr>storage_errno := SUCCESS\<rparr>"] assms(2) by auto
  let ?t = "t\<lparr>storage_errno := WSELECT_ERROR\<rparr>"
  obtain e where e: "joined (twi ?t) e" "phase e = Quiet" "contents e = m" using t(2) by (auto simp: holds_def)
  then obtain u where "bus_stop port ?t = Some u" "storage_errno u = WSELECT_ERROR" "holds m u"
    using bus_stop_ok [OF e(1)] quiet_stop [OF e(2)] by (auto simp: holds_def talks_phase)
  then show ?thesis using t(1) by (simp add: i2c_eeprom_read_def)
qed

lemma write_loop_ignored:
  assumes "ignores dev phase contents addr" "holds m s" "cnt \<noteq> 0"
  shows "\<exists>t. i2c_write_loop port addr data cnt w s = Some (if w = 0 then 0 else -1, t) \<and> storage_errno t = WSELECT_ERROR \<and> holds m t"
proof -
  define n where "n = page_chunk (16 - i2c_page_off addr) cnt"
  have "n \<noteq> 0" by (rule i2c_chunk_facts(1) [OF assms(3) n_def])
  then show ?thesis using write_page_ignored [OF assms(1,2), of data n] assms(3)
    by (subst i2c_write_loop.simps) (auto simp: n_def [symmetric])
qed

lemma memset_ignored:
  assumes "ignores dev phase contents addr" "holds m s" "len \<noteq> 0"
  shows "\<exists>t. i2c_eeprom_memset port addr c len s = Some (WSELECT_ERROR, t) \<and> holds m t"
proof -
  define n where "n = page_chunk (16 - i2c_page_off addr) len"
  have "n \<noteq> 0" by (rule i2c_chunk_facts(1) [OF assms(3) n_def])
  then show ?thesis using write_page_ignored [OF assms(1,2), of "replicate EEEXT_PAGE_SIZE c" n] assms(3)
    by (subst i2c_eeprom_memset.simps) (auto simp: n_def [symmetric])
qed

text \<open>A block that runs into such an address at a page boundary.\<close>

lemma write_runs_out:
  assumes "ignores dev phase contents addr" "holds m s" "unat dst < capacity" "unat addr = unat dst + k" "unat addr mod 16 = 0"
    "0 < k" "k \<le> 16" "k < unat cnt" "k \<le> length data"
  shows "\<exists>t. i2c_eeprom_write port dst data cnt s = Some (-1, t) \<and> storage_errno t = WSELECT_ERROR
    \<and> holds (mem_write m (unat dst) (take k data)) t"
proof -
  define n where "n = page_chunk (16 - i2c_page_off dst) cnt"
  have c: "cnt \<noteq> 0" using assms(8) by auto
  note n = i2c_chunk_facts [OF c n_def]
  have "unat dst mod 16 = (16 - k) mod 16"
  proof -
    obtain q where "unat addr = 16 * q" using assms(5) by (metis mod_0_imp_dvd dvdE)
    with assms(4,6,7) obtain r where "q = Suc r" by (cases q) auto
    with \<open>unat addr = 16 * q\<close> have "unat dst = 16 * r + (16 - k)" using assms(4,7) by simp
    then show ?thesis by simp
  qed
  then have "16 - unat dst mod 16 = k" using assms(6,7) by (cases "k = 16") auto
  then have k: "unat n = k" unfolding n_def page_chunk_unat i2c_page_rest using assms(8) by simp
  have "dst + ucast n = addr" using assms(3,4,7) capacity_law k by (simp add: word_unat_eq_iff cursor_up)
  moreover have "cnt - ucast n \<noteq> 0" using n(4) k assms(8) by (metis unat_0 zero_less_diff less_irrefl)
  moreover obtain b where b: "i2c_eeprom_write_page port dst data n s = Some (n, b)" "holds (mem_write m (unat dst) (take k data)) b"
    using write_page_block [OF assms(2,3) n(1) _ n(3), of data] k assms(9) by auto
  moreover have "(ucast n :: u16) \<noteq> 0" using n(1) by (metis unat_ucast_8_16 unat_eq_0)
  ultimately show ?thesis using write_loop_ignored [OF assms(1) b(2), of "cnt - ucast n" "drop k data" "ucast n"] c k
    unfolding i2c_eeprom_write_def by (subst i2c_write_loop.simps) (simp add: n_def [symmetric])
qed

end

subsection \<open>A chip that follows the protocol\<close>

text \<open>A 2 KB chip that answers to the first device address.\<close>

record at24_chip =
  at_cells :: memory
  at_phase :: chip_phase
  at_busy :: nat
  at_pointer :: nat
  at_open :: bool

definition at24_phase :: "at24_chip \<Rightarrow> chip_phase" where
  "at24_phase c = (if at_open c then at_phase c else Quiet)"

definition at24_cycle :: "at24_chip \<Rightarrow> nat" where
  "at24_cycle c = min 10 (at_busy c)"

definition at24_start :: "at24_chip \<Rightarrow> at24_chip" where
  "at24_start c = c\<lparr>at_phase := Started, at_open := True,
     at_pointer := (case at24_phase c of Loading a [] \<Rightarrow> a | _ \<Rightarrow> at_pointer c)\<rparr>"

definition at24_stop :: "at24_chip \<Rightarrow> at24_chip" where
  "at24_stop c = (let d = c\<lparr>at_phase := Quiet, at_open := False\<rparr> in case at24_phase c of
     Loading a (b # bs) \<Rightarrow> d\<lparr>at_cells := page_write EEEXT_PAGE_SIZE (at_cells c) (a - a mod EEEXT_PAGE_SIZE) (a mod EEEXT_PAGE_SIZE) (b # bs),
       at_busy := 10\<rparr>
   | _ \<Rightarrow> d)"

definition at24_byte :: "u8 \<Rightarrow> at24_chip \<Rightarrow> bool \<times> at24_chip" where
  "at24_byte b c = (case at24_phase c of
     Started \<Rightarrow>
       if b AND 0xF0 = 0xA0 \<and> at24_cycle c = 0
       then (True, c\<lparr>at_phase := (if bit b 0 then Sending (at_pointer c) else Selected (unat (drop_bit 1 b AND 7)))\<rparr>)
       else (False, c\<lparr>at_phase := Quiet\<rparr>)
   | Selected h \<Rightarrow> (True, c\<lparr>at_phase := Loading (256 * h + unat b) []\<rparr>)
   | Loading a bs \<Rightarrow> (True, c\<lparr>at_phase := Loading a (bs @ [b])\<rparr>)
   | _ \<Rightarrow> (False, c))"

definition at24_sent :: "bool \<Rightarrow> at24_chip \<Rightarrow> at24_chip" where
  "at24_sent k c = (case at24_phase c of
     Sending a \<Rightarrow> c\<lparr>at_phase := (if k then Sending (Suc a mod 0x800) else Quiet)\<rparr> | _ \<Rightarrow> c)"

definition at24_talks :: "at24_chip \<Rightarrow> bool" where
  "at24_talks c = (case at24_phase c of Sending a \<Rightarrow> True | _ \<Rightarrow> False)"

definition at24_give :: "at24_chip \<Rightarrow> u8" where
  "at24_give c = (case at24_phase c of Sending a \<Rightarrow> at_cells c a | _ \<Rightarrow> 0xFF)"

definition at24_dev :: "at24_chip i2c_device" where
  "at24_dev = \<lparr>dev_start = at24_start, dev_stop = at24_stop, dev_byte = at24_byte, dev_talks = at24_talks,
     dev_give = at24_give, dev_sent = at24_sent, dev_open = at_open,
     dev_ms = (\<lambda>c. c\<lparr>at_busy := at24_cycle c - 1\<rparr>), dev_stretch = (\<lambda>c. 2)\<rparr>"

lemmas at24_defs = at24_phase_def at24_cycle_def at24_start_def at24_stop_def at24_byte_def at24_sent_def at24_talks_def at24_give_def

lemma select_bits_eq: "select_bits addr = of_nat (2 * (unat addr div 256 mod 64))"
proof -
  have p: "(0x7E :: u16) = push_bit 1 (mask 6)" by (simp add: mask_eq_decr_exp)
  have e: "drop_bit 7 addr AND 0x7E = push_bit 1 (drop_bit 8 addr AND mask 6)"
  proof (rule bit_word_eqI)
    fix n assume "n < LENGTH(16)"
    then show "bit (drop_bit 7 addr AND 0x7E) n = bit (push_bit 1 (drop_bit 8 addr AND mask 6)) n"
      unfolding p bit_and_iff bit_drop_bit_eq bit_push_bit_iff bit_mask_iff by (cases n) (auto simp: bit_simps)
  qed
  have "unat (drop_bit 8 addr) = unat addr div 256" by (simp add: drop_bit_eq_div unat_div_distrib)
  then have u: "unat (drop_bit 8 addr AND mask 6) = unat addr div 256 mod 64" unfolding unat_and_mask by simp
  have "unat (push_bit 1 y) = 2 * (unat addr div 256 mod 64)" if "unat y = unat addr div 256 mod 64" for y :: u16
    using that by (simp add: unat_word_ariths(2))
  from this [OF u] have "unat (push_bit 1 (drop_bit 8 addr AND mask 6)) = 2 * (unat addr div 256 mod 64)" .
  then have "unat (drop_bit 7 addr AND 0x7E) = 2 * (unat addr div 256 mod 64)" unfolding e .
  moreover have "2 * (unat addr div 256 mod 64) < 256" using mod_less_divisor [of 64 "unat addr div 256"] by linarith
  ultimately have "unat (select_bits addr) = 2 * (unat addr div 256 mod 64)" unfolding select_bits_def unat_ucast_16_8 by simp
  then show ?thesis by (metis of_nat_unat ucast_id)
qed

lemma select_byte:
  assumes "unat addr < 0x800"
  shows "(0xA0 XOR select_bits addr) AND 0xF0 = 0xA0" "(0xA1 XOR select_bits addr) AND 0xF0 = 0xA0"
    "\<not> bit (0xA0 XOR select_bits addr) 0" "bit (0xA1 XOR select_bits addr) 0"
    "unat (drop_bit 1 (0xA0 XOR select_bits addr) AND 7) = unat addr div 256"
proof -
  have "unat addr div 256 \<in> {0, 1, 2, 3, 4, 5, 6, 7}" using assms by auto
  then show "(0xA0 XOR select_bits addr) AND 0xF0 = 0xA0" "(0xA1 XOR select_bits addr) AND 0xF0 = 0xA0"
    "\<not> bit (0xA0 XOR select_bits addr) 0" "bit (0xA1 XOR select_bits addr) 0"
    "unat (drop_bit 1 (0xA0 XOR select_bits addr) AND 7) = unat addr div 256"
    unfolding select_bits_eq by auto
qed

interpretation at24: at24_protocol at24_dev at_cells at24_phase at24_cycle at_pointer "0x800"
  by unfold_locales
    (auto simp: at24_dev_def at24_defs select_byte select_byte(5) [simplified] Let_def split: chip_phase.splits list.splits if_splits)

lemma at24_ignores: "0x800 \<le> unat addr \<Longrightarrow> unat addr < 0x1000 \<Longrightarrow> ignores at24_dev at24_phase at_cells addr"
proof -
  assume "0x800 \<le> unat addr" "unat addr < 0x1000"
  then have "unat addr div 256 \<in> {8, 9, 10, 11, 12, 13, 14, 15}" by auto
  then have "(0xA0 XOR select_bits addr) AND 0xF0 \<noteq> 0xA0" unfolding select_bits_eq by auto
  then show ?thesis by (simp add: ignores_def at24_dev_def at24_defs)
qed

text \<open>The chip on idle lines, a write cycle still running.\<close>

definition fresh_at24 :: at24_chip where
  "fresh_at24 = \<lparr>at_cells = (\<lambda>a. 0xFF), at_phase = Quiet, at_busy = 7, at_pointer = 0, at_open = False\<rparr>"

definition fresh_lines :: "at24_chip line_device twi_lines" where
  "fresh_lines = \<lparr>EEPROM_DDR = 0, EEPROM_PORT = 0, world = \<lparr>inner = fresh_at24, sda_master = True, scl_master = True,
     sda_line = True, scl_line = True, pulls_sda = False, stretch = 0, frame_in = [], sending = False\<rparr>\<rparr>"

lemma fresh_joined: "lines_joined at24_dev fresh_lines fresh_at24"
  by (simp add: lines_joined_def pins_ok_def lines_idle_def fresh_lines_def fresh_at24_def at24_dev_def)

subsection \<open>Properties\<close>

text \<open>
  C33: the two-wire bus driven by hand carries bytes. A device that watches the lines, and may stretch the
  clock within a byte, sees the start and stop conditions of \<open>twi_start\<close> and \<open>twi_stop\<close> and the byte of
  \<open>twi_write_byte\<close>, most significant bit first, and its answer is what \<open>twi_write_byte\<close> returns; while it
  sends, \<open>twi_read_byte\<close> returns its byte and the device gets the acknowledgement. Every operation returns.
\<close>

theorem twi_carries_bytes:
  assumes dev: "i2c_listener dev" and joined: "lines_joined dev s e"
  shows "(\<not> dev_talks dev e \<longrightarrow> lines_joined dev (twi_start (device_wires dev) s) (dev_start dev e)
      \<and> lines_joined dev (twi_stop (device_wires dev) s) (dev_stop dev e))
    \<and> (dev_open dev e \<and> \<not> dev_talks dev e \<longrightarrow> (\<exists>t. twi_write_byte (device_wires dev) b s
        = Some (if fst (dev_byte dev b e) then ACK else NACK, t) \<and> lines_joined dev t (snd (dev_byte dev b e))))
    \<and> (dev_talks dev e \<longrightarrow> (\<exists>t. twi_read_byte (device_wires dev) k s = Some (dev_give dev e, t)
        \<and> lines_joined dev t (dev_sent dev (k = ACK) e)))"
proof -
  have bus: "i2c_bus (bitbang_port (device_wires dev)) dev (lines_joined dev)"
    by (rule i2c_listener.lines_bus [OF dev])
  show ?thesis
    using i2c_bus.start_law [OF bus joined] i2c_bus.stop_law [OF bus joined] i2c_bus.read_law [OF bus joined, of k]
      i2c_bus.write_law [OF bus joined, of b "fst (dev_byte dev b e)" "snd (dev_byte dev b e)"] by auto
qed

theorem twi_carries_bytes_witness:
  "lines_joined at24_dev (twi_start (device_wires at24_dev) fresh_lines) (at24_start fresh_at24)"
  using twi_carries_bytes [OF at24.i2c_listener_axioms fresh_joined, of 0 ACK]
  by (simp add: at24_dev_def at24_defs fresh_at24_def)

text \<open>
  C13: through the I2C driver the EEPROM is a byte memory, on either bus of \<open>twi.c\<close>. From any state of the
  chip at rest, a write cycle running or not, \<open>i2c_eeprom_write\<close>, \<open>i2c_eeprom_memset\<close>,
  \<open>i2c_eeprom_memmove\<close> in both directions and \<open>i2c_eeprom_write_short\<close> return, report success and change
  exactly their block, however it lies across pages, and \<open>i2c_eeprom_read\<close> returns the block.
\<close>

theorem i2c_eeprom_refines_memory:
  assumes chip: "i2c_eeprom_chip port dev joined contents phase cycle pointer capacity"
    and rest: "joined (twi s) e" "phase e = Quiet"
  defines "m \<equiv> contents e" and "holding \<equiv> \<lambda>m t. \<exists>f. joined (twi t) f \<and> phase f = Quiet \<and> contents f = m"
  shows "(unat dst + unat cnt \<le> capacity \<and> unat cnt \<le> length data \<longrightarrow>
      (\<exists>t. i2c_eeprom_write port dst data cnt s = Some (cnt, t) \<and> holding (mem_write m (unat dst) (take (unat cnt) data)) t))
    \<and> (unat dst + unat cnt \<le> capacity \<longrightarrow>
      (\<exists>t. i2c_eeprom_memset port dst b cnt s = Some (SUCCESS, t) \<and> holding (mem_set m (unat dst) b (unat cnt)) t))
    \<and> (unat src + unat cnt \<le> capacity \<and> unat dst + unat cnt \<le> capacity \<longrightarrow>
      (\<exists>t. i2c_eeprom_memmove port dst src cnt s = Some (SUCCESS, t) \<and> holding (mem_move m (unat dst) (unat src) (unat cnt)) t))
    \<and> (unat dst + 2 \<le> capacity \<longrightarrow>
      (\<exists>t. i2c_eeprom_write_short port dst v s = Some (SUCCESS, t) \<and> holding (mem_write_short m (unat dst) v) t))
    \<and> (unat dst + unat cnt \<le> capacity \<and> cnt \<noteq> 0 \<longrightarrow>
      (\<exists>t. i2c_eeprom_read port dst cnt s = Some (cnt, mem_read m (unat dst) (unat cnt), t) \<and> holding m t))"
proof -
  have h: "i2c_eeprom_chip.holds joined contents phase m s" using rest by (auto simp: i2c_eeprom_chip.holds_def [OF chip] m_def)
  have eq: "i2c_eeprom_chip.holds joined contents phase = holding"
    by (auto simp: fun_eq_iff i2c_eeprom_chip.holds_def [OF chip] holding_def)
  note laws = i2c_eeprom_chip.write_block [OF chip h, of dst cnt data 0] i2c_eeprom_chip.memset_block [OF chip h, of dst cnt b]
    i2c_eeprom_chip.memmove_block [OF chip h, of src cnt dst] i2c_eeprom_chip.write_short_block [OF chip h, of dst v]
    i2c_eeprom_chip.read_block [OF chip h, of dst cnt]
  from laws [unfolded eq] show ?thesis unfolding i2c_eeprom_write_def by simp blast
qed

definition fresh_i2c :: "at24_chip line_device twi_lines i2c_state" where
  "fresh_i2c = \<lparr>twi = fresh_lines, storage_errno = SUCCESS\<rparr>"

lemma fresh_rest: "lines_joined at24_dev (twi fresh_i2c) fresh_at24" "at24_phase fresh_at24 = Quiet"
  using fresh_joined by (simp_all add: fresh_i2c_def at24_phase_def) (simp add: fresh_at24_def)

theorem i2c_eeprom_refines_memory_witness:
  "\<exists>t f. i2c_eeprom_memmove (bitbang_port (device_wires at24_dev)) 0x114 0x100 50 fresh_i2c = Some (SUCCESS, t)
     \<and> lines_joined at24_dev (twi t) f \<and> at_cells f = mem_move (\<lambda>a. 0xFF) 0x114 0x100 50"
proof -
  have "at_cells fresh_at24 = (\<lambda>a. 0xFF)" by (simp add: fresh_at24_def)
  then show ?thesis
    using i2c_eeprom_refines_memory [OF at24.on_lines.i2c_eeprom_chip_axioms fresh_rest, of "0x114" 50 "[]" 0 "0x100" 0] by auto
qed

text \<open>
  C34: at an address that no chip answers the I2C driver gives up after eleven attempts and changes
  nothing: \<open>i2c_eeprom_write\<close> returns 0, \<open>i2c_eeprom_read\<close> returns -1, the others the error, which is in
  \<open>storage_errno\<close>. A write that runs into such an address returns -1 although its first bytes are
  stored; the documented values are the other way round, -1 for nothing written and else the number of
  bytes.
\<close>

theorem i2c_eeprom_no_answer:
  assumes chip: "i2c_eeprom_chip port dev joined contents phase cycle pointer capacity"
    and rest: "joined (twi s) e" "phase e = Quiet" and silent: "ignores dev phase contents addr" and some: "cnt \<noteq> 0"
  defines "m \<equiv> contents e"
    and "failed \<equiv> \<lambda>m t. storage_errno t = WSELECT_ERROR \<and> (\<exists>f. joined (twi t) f \<and> phase f = Quiet \<and> contents f = m)"
  shows "(\<exists>t. i2c_eeprom_write port addr data cnt s = Some (0, t) \<and> failed m t)
    \<and> (\<exists>t. i2c_eeprom_read port addr cnt s = Some (-1, [], t) \<and> failed m t)
    \<and> (\<exists>t. i2c_eeprom_write_short port addr v s = Some (WSELECT_ERROR, t) \<and> failed m t)
    \<and> (unat dst < capacity \<and> unat addr = unat dst + k \<and> unat addr mod 16 = 0 \<and> 0 < k \<and> k \<le> 16 \<and> k < unat cnt \<and> k \<le> length data \<longrightarrow>
      (\<exists>t. i2c_eeprom_write port dst data cnt s = Some (-1, t) \<and> failed (mem_write m (unat dst) (take k data)) t))"
proof -
  note holds = i2c_eeprom_chip.holds_def [OF chip]
  have h: "i2c_eeprom_chip.holds joined contents phase m s" using rest by (auto simp: holds m_def)
  note laws = i2c_eeprom_chip.write_loop_ignored [OF chip silent h, of _ _ 0, unfolded holds]
    i2c_eeprom_chip.read_ignored [OF chip silent h, of cnt, unfolded holds]
    i2c_eeprom_chip.write_runs_out [OF chip silent h, of dst k cnt data, unfolded holds]
  show ?thesis unfolding failed_def
  proof (intro conjI impI)
    show "\<exists>t. i2c_eeprom_write_short port addr v s = Some (WSELECT_ERROR, t) \<and> storage_errno t = WSELECT_ERROR
        \<and> (\<exists>f. joined (twi t) f \<and> phase f = Quiet \<and> contents f = m)"
      using laws(1) [of 2 "bytes_of_short v"] by (auto simp: i2c_eeprom_write_short_def i2c_eeprom_write_def)
  qed (use laws(1) [OF some, of data] laws(2,3) in \<open>auto simp: i2c_eeprom_write_def\<close>)
qed

theorem i2c_eeprom_no_answer_witness:
  "\<exists>t f. i2c_eeprom_write (bitbang_port (device_wires at24_dev)) 0x7FE [1, 2, 3, 4] 4 fresh_i2c = Some (-1, t)
     \<and> lines_joined at24_dev (twi t) f \<and> at_cells f = mem_write (\<lambda>a. 0xFF) 0x7FE [1, 2]"
proof -
  have "at_cells fresh_at24 = (\<lambda>a. 0xFF)" by (simp add: fresh_at24_def)
  moreover have "ignores at24_dev at24_phase at_cells 0x800" by (rule at24_ignores) simp_all
  ultimately show ?thesis
    using i2c_eeprom_no_answer [OF at24.on_lines.i2c_eeprom_chip_axioms fresh_rest, of "0x800" 4 "[1, 2, 3, 4]" 0 "0x7FE" 2]
    by auto
qed

end
