(* ===== verification/BusWaits.thy ===== *)
theory BusWaits
  imports SpiEepromCorrect TwiCorrect
begin

text \<open>
  The loops that wait for a device: \<open>spi_eeprom_wait_for_last_write_end\<close>, \<open>twi_clock_stretch\<close> and the
  loops on \<open>TWCR\<close>. Each polls, and returns exactly when some poll finds what it waits for. Locale \<open>polling\<close>
  is the shape they share.
\<close>

locale polling =
  fixes loop :: "'s \<Rightarrow> 't option" and ready :: "'s \<Rightarrow> bool" and result :: "'s \<Rightarrow> 't" and again :: "'s \<Rightarrow> 's"
  assumes unfolds: "loop s = (if ready s then Some (result s) else loop (again s))"
    and least: "loop s = Some t \<Longrightarrow> \<exists>n. ready ((again ^^ n) s)"
begin

lemma returns_after:
  assumes "ready ((again ^^ n) s)"
  shows "\<exists>k \<le> n. loop s = Some (result ((again ^^ k) s)) \<and> ready ((again ^^ k) s) \<and> (\<forall>i < k. \<not> ready ((again ^^ i) s))"
  using assms
proof (induction n arbitrary: s)
  case 0
  then show ?case using unfolds [of s] by simp
next
  case (Suc n)
  show ?case
  proof (cases "ready s")
    case True
    then show ?thesis using unfolds [of s] by (intro exI [of _ 0]) simp
  next
    case False
    from Suc obtain k where k: "k \<le> n" "loop (again s) = Some (result ((again ^^ Suc k) s))" "ready ((again ^^ Suc k) s)"
      "\<forall>i < k. \<not> ready ((again ^^ Suc i) s)" by (fastforce simp: funpow_swap1)
    then have "\<forall>i < Suc k. \<not> ready ((again ^^ i) s)" using False by (simp add: All_less_Suc2)
    then show ?thesis using k False unfolds [of s] by (intro exI [of _ "Suc k"]) simp
  qed
qed

lemma returns_iff: "(\<exists>t. loop s = Some t) \<longleftrightarrow> (\<exists>n. ready ((again ^^ n) s))"
  using least returns_after by blast

text \<open>A wait that something measures down returns within that many polls.\<close>

lemma measured_wait:
  assumes "good s" "\<And>s. good s \<Longrightarrow> \<not> ready s \<Longrightarrow> good (again s) \<and> m (again s) < m s"
  shows "\<exists>n \<le> (m s :: nat). ready ((again ^^ n) s)"
  using assms(1)
proof (induction "m s" arbitrary: s rule: less_induct)
  case less
  show ?case
  proof (cases "ready s")
    case True
    then show ?thesis by (intro exI [of _ 0]) simp
  next
    case False
    then have d: "good (again s)" "m (again s) < m s" using assms(2) less.prems by auto
    from less.hyps [OF d(2,1)] obtain n where "n \<le> m (again s)" "ready ((again ^^ Suc n) s)" by (auto simp: funpow_swap1)
    then show ?thesis using d(2) by (intro exI [of _ "Suc n"]) simp
  qed
qed

end

subsection \<open>The three loops\<close>

text \<open>What a poll that does not succeed leads to.\<close>

definition spi_poll :: "'c spi_bus \<Rightarrow> 'c spi_state \<Rightarrow> 'c spi_state" where
  "spi_poll bus s = (let s = snd (spi_eeprom_read_status bus s) in s\<lparr>chip := bus_delay bus (chip s)\<rparr>)"

definition write_ended :: "'c spi_bus \<Rightarrow> 'c spi_state \<Rightarrow> bool" where
  "write_ended bus s \<longleftrightarrow> fst (spi_eeprom_read_status bus s) AND SPI_STATUS_WRITE_IN_PROGRESS_MASK = 0"

definition clock_released :: "'d wires \<Rightarrow> 'd twi_lines \<Rightarrow> bool" where
  "clock_released w s \<longleftrightarrow> wires_pin w (world s) AND EEPROM_SCL \<noteq> 0"

definition unit_poll :: "'h twi_unit \<Rightarrow> 'h \<Rightarrow> 'h" where
  "unit_poll u h = snd (get_TWCR u h)"

definition flag_read :: "'h twi_unit \<Rightarrow> u8 \<Rightarrow> bool \<Rightarrow> 'h \<Rightarrow> bool" where
  "flag_read u m v h \<longleftrightarrow> (fst (get_TWCR u h) AND m \<noteq> 0) = v"

lemma poll_0: "r s \<Longrightarrow> \<exists>n. r ((f ^^ n) s)" by (rule exI [of _ 0]) simp

lemma poll_Suc: "\<exists>n. r ((f ^^ n) (f s)) \<Longrightarrow> \<exists>n. r ((f ^^ n) s)"
  by (metis comp_apply funpow_Suc_right)

lemma wait_least:
  "spi_eeprom_wait_for_last_write_end bus s = Some t \<Longrightarrow> \<exists>n. write_ended bus ((spi_poll bus ^^ n) s)"
proof (rule spi_eeprom_wait_for_last_write_end.raw_induct [where P = "\<lambda>bus s t. \<exists>n. write_ended bus ((spi_poll bus ^^ n) s)"])
  fix loop bus s t
  assume loop: "\<And>bus s t. loop bus s = Some t \<Longrightarrow> \<exists>n. write_ended bus ((spi_poll bus ^^ n) s)"
    and body: "(let (rv, s) = spi_eeprom_read_status bus s in if rv AND SPI_STATUS_WRITE_IN_PROGRESS_MASK = 0 then Some s
      else loop bus (s\<lparr>chip := bus_delay bus (chip s)\<rparr>)) = Some t"
  show "\<exists>n. write_ended bus ((spi_poll bus ^^ n) s)"
  proof (cases "write_ended bus s")
    case False
    with body have "loop bus (spi_poll bus s) = Some t" by (simp add: write_ended_def spi_poll_def Let_def split: prod.splits)
    then show ?thesis by (rule poll_Suc [OF loop])
  qed (rule poll_0)
qed

lemma stretch_least: "twi_clock_stretch w s = Some t \<Longrightarrow> \<exists>n. clock_released w ((twi_delay w ^^ n) s)"
proof (rule twi_clock_stretch.raw_induct [where P = "\<lambda>w s t. \<exists>n. clock_released w ((twi_delay w ^^ n) s)"])
  fix loop w s t
  assume loop: "\<And>w s t. loop w s = Some t \<Longrightarrow> \<exists>n. clock_released w ((twi_delay w ^^ n) s)"
    and body: "(if wires_pin w (world s) AND EEPROM_SCL = 0 then loop w (twi_delay w s) else Some s) = Some t"
  show "\<exists>n. clock_released w ((twi_delay w ^^ n) s)"
  proof (cases "clock_released w s")
    case False
    with body have "loop w (twi_delay w s) = Some t" by (simp add: clock_released_def)
    then show ?thesis by (rule poll_Suc [OF loop])
  qed (rule poll_0)
qed

lemma await_least: "twi_await u m v h = Some t \<Longrightarrow> \<exists>n. flag_read u m v ((unit_poll u ^^ n) h)"
proof (rule twi_await.raw_induct [where P = "\<lambda>u m v h t. \<exists>n. flag_read u m v ((unit_poll u ^^ n) h)"])
  fix loop u m v h t
  assume loop: "\<And>u m v h t. loop u m v h = Some t \<Longrightarrow> \<exists>n. flag_read u m v ((unit_poll u ^^ n) h)"
    and body: "(let (r, h) = get_TWCR u h in if (r AND m \<noteq> 0) = v then Some h else loop u m v h) = Some t"
  show "\<exists>n. flag_read u m v ((unit_poll u ^^ n) h)"
  proof (cases "flag_read u m v h")
    case False
    with body have "loop u m v (unit_poll u h) = Some t" by (simp add: flag_read_def unit_poll_def split: prod.splits)
    then show ?thesis by (rule poll_Suc [OF loop])
  qed (rule poll_0)
qed

interpretation write_end: polling "spi_eeprom_wait_for_last_write_end bus" "write_ended bus"
  "\<lambda>s. snd (spi_eeprom_read_status bus s)" "spi_poll bus" for bus :: "'c spi_bus"
proof
  show "spi_eeprom_wait_for_last_write_end bus s = (if write_ended bus s then Some (snd (spi_eeprom_read_status bus s))
    else spi_eeprom_wait_for_last_write_end bus (spi_poll bus s))" for s
    by (subst spi_eeprom_wait_for_last_write_end.simps) (simp add: write_ended_def spi_poll_def Let_def split: prod.splits)
qed (rule wait_least)

interpretation stretched: polling "twi_clock_stretch w" "clock_released w" "\<lambda>s. s" "twi_delay w" for w :: "'d wires"
proof
  show "twi_clock_stretch w s = (if clock_released w s then Some s else twi_clock_stretch w (twi_delay w s))" for s
    by (subst twi_clock_stretch.simps) (simp add: clock_released_def)
qed (rule stretch_least)

interpretation awaited: polling "twi_await u m v" "flag_read u m v" "unit_poll u" "unit_poll u" for u :: "'h twi_unit" and m v
proof
  show "twi_await u m v h = (if flag_read u m v h then Some (unit_poll u h) else twi_await u m v (unit_poll u h))" for h
    by (subst twi_await.simps) (simp add: flag_read_def unit_poll_def split: prod.splits)
qed (rule await_least)

subsection \<open>Devices that do their part\<close>

context spi_eeprom_chip
begin

text \<open>The write cycle measures the wait down.\<close>

lemma wait_within_cycle:
  assumes "idle (chip s)"
  shows "\<exists>n \<le> cycle (chip s). write_ended bus ((spi_poll bus ^^ n) s)"
proof (rule write_end.measured_wait [where good = "\<lambda>s. idle (chip s)" and m = "\<lambda>s. cycle (chip s)"])
  fix s assume i: "idle (chip s)" and w: "\<not> write_ended bus s"
  obtain rs d where t: "transaction bus [command_code RDSR, 0xFF] (chip s) = (rs, d)" by fastforce
  note st = status_law [OF i t]
  have "cycle (chip s) \<noteq> 0" using st w by (simp add: write_ended_def read_status_transaction t)
  then show "idle (chip (spi_poll bus s)) \<and> cycle (chip (spi_poll bus s)) < cycle (chip s)"
    using st delay_law [of d] by (auto simp: spi_poll_def read_status_transaction t intro: le_less_trans)
qed (rule assms)

end

lemma unit_wait_within:
  fixes dev :: "'e i2c_device"
  assumes "job h \<in> {Some Job_start, Some Job_send, Some Job_receive}"
  shows "\<exists>n \<le> ticks h. flag_read (device_unit dev k) TWINT True ((unit_poll (device_unit dev k) ^^ n) h)"
proof (rule awaited.measured_wait [where good = "\<lambda>h. job h \<in> {Some Job_start, Some Job_send, Some Job_receive}" and m = ticks])
  fix h :: "'e bus_unit" assume j: "job h \<in> {Some Job_start, Some Job_send, Some Job_receive}"
    and w: "\<not> flag_read (device_unit dev k) TWINT True h"
  have "ticks h \<noteq> 0"
  proof
    assume "ticks h = 0"
    moreover have "TWCR (end_job dev h) AND TWINT \<noteq> 0"
      using j flag_raised [of "TWCR h"] by (auto simp: end_job_def Let_def split: prod.splits)
    ultimately show False using w by (simp add: flag_read_def poll_unit_def Let_def)
  qed
  then show "job (unit_poll (device_unit dev k) h) \<in> {Some Job_start, Some Job_send, Some Job_receive}
      \<and> ticks (unit_poll (device_unit dev k) h) < ticks h"
    using j by (simp add: unit_poll_def poll_unit_def)
qed (rule assms)

subsection \<open>Property\<close>

text \<open>
  C18: the loops of the firmware that wait for a device return exactly when some poll finds what they wait
  for: \<open>spi_eeprom_wait_for_last_write_end\<close> a status without the write-in-progress bit, \<open>twi_clock_stretch\<close>
  a released clock line, the loops on \<open>TWCR\<close> the flag. Nothing else ends them, and nothing else keeps them from ending. A serial memory that follows its documentation ends the first within the length of its write
  cycle, whatever the state of the cycle, and a bus peripheral that finishes the jobs it is given ends the last.
\<close>

theorem bus_waits_return_iff:
  "((\<exists>t. spi_eeprom_wait_for_last_write_end bus s = Some t) \<longleftrightarrow> (\<exists>n. write_ended bus ((spi_poll bus ^^ n) s)))
    \<and> ((\<exists>t. twi_clock_stretch w l = Some t) \<longleftrightarrow> (\<exists>n. clock_released w ((twi_delay w ^^ n) l)))
    \<and> ((\<exists>t. twi_await u m v h = Some t) \<longleftrightarrow> (\<exists>n. flag_read u m v ((unit_poll u ^^ n) h)))
    \<and> (spi_eeprom_chip bus contents idle enabled cycle capacity \<and> idle (chip s) \<longrightarrow>
        (\<exists>n t. n \<le> cycle (chip s) \<and> spi_eeprom_wait_for_last_write_end bus s = Some t
          \<and> t = snd (spi_eeprom_read_status bus ((spi_poll bus ^^ n) s))))
    \<and> (job g \<in> {Some Job_start, Some Job_send, Some Job_receive} \<longrightarrow>
        (\<exists>n t. n \<le> ticks g \<and> twi_await (device_unit dev k) TWINT True g = Some t
          \<and> t = (unit_poll (device_unit dev k) ^^ Suc n) g))"
proof (intro conjI impI)
  assume "spi_eeprom_chip bus contents idle enabled cycle capacity \<and> idle (chip s)"
  then obtain n where "n \<le> cycle (chip s)" "write_ended bus ((spi_poll bus ^^ n) s)"
    using spi_eeprom_chip.wait_within_cycle by blast
  with write_end.returns_after [of bus n s] show "\<exists>n t. n \<le> cycle (chip s) \<and> spi_eeprom_wait_for_last_write_end bus s = Some t
      \<and> t = snd (spi_eeprom_read_status bus ((spi_poll bus ^^ n) s))" by fastforce
next
  assume "job g \<in> {Some Job_start, Some Job_send, Some Job_receive}"
  then obtain n where "n \<le> ticks g" "flag_read (device_unit dev k) TWINT True ((unit_poll (device_unit dev k) ^^ n) g)"
    using unit_wait_within by blast
  with awaited.returns_after [of "device_unit dev k" TWINT True n g] show "\<exists>n t. n \<le> ticks g
      \<and> twi_await (device_unit dev k) TWINT True g = Some t \<and> t = (unit_poll (device_unit dev k) ^^ Suc n) g" by fastforce
qed (rule write_end.returns_iff stretched.returns_iff awaited.returns_iff)+

definition busy_serial :: "serial_eeprom spi_state" where
  "busy_serial = \<lparr>chip = \<lparr>cells = (\<lambda>a. 0), latch = False, busy = 3, frame_bytes = None\<rparr>, storage_errno = 0\<rparr>"

definition busy_unit :: "bool bus_unit" where
  "busy_unit = \<lparr>unit_dev = False, TWCR = TWSTA OR TWEN, TWDR = 0, TWSR = 0xF8, TWBR = 72, job = Some Job_start, ticks = 5, addressing = False\<rparr>"

theorem bus_waits_return_iff_witness:
  "(\<exists>n t. n \<le> 3 \<and> spi_eeprom_wait_for_last_write_end serial_bus busy_serial = Some t
      \<and> t = snd (spi_eeprom_read_status serial_bus ((spi_poll serial_bus ^^ n) busy_serial)))
    \<and> (\<forall>dev. \<exists>n t. n \<le> 5 \<and> twi_await (device_unit dev 5) TWINT True busy_unit = Some t
      \<and> t = (unit_poll (device_unit dev 5) ^^ Suc n) busy_unit)"
proof -
  have "chip busy_serial = \<lparr>cells = (\<lambda>a. 0), latch = False, busy = 3, frame_bytes = None\<rparr>"
    "job busy_unit = Some Job_start" "ticks busy_unit = 5" by (simp_all add: busy_serial_def busy_unit_def)
  then show ?thesis
    using bus_waits_return_iff [of serial_bus busy_serial "device_wires dev" l "device_unit dev 5" TWINT True busy_unit
        cells "\<lambda>c. frame_bytes c = None" latch busy "0x8000" busy_unit dev 5 for dev l] serial.spi_eeprom_chip_axioms
    by (simp only: HOL.simp_thms insert_iff serial_eeprom.simps)
qed

end
