(* ===== verification/I2cSteps.thy ===== *)
theory I2cSteps
  imports I2cEepromCorrect
begin

text \<open>
  Storage that is written in steps. A transfer from the host arrives in packets, and the storage gets a part of the
  block with every packet: locale \<open>step_storage\<close> says what such a storage promises. The I2C driver's
  \<open>i2c_eeprom_write_step\<close>, which keeps the page of the chip open between the steps, is one for every chip that
  follows its protocol.
\<close>

subsection \<open>A storage written in steps\<close>

text \<open>
  \<open>rest m\<close> says that the storage holds \<open>m\<close> and nothing is under way, \<open>ready m a\<close> that it holds \<open>m\<close> once the
  steps taken so far are ended and expects the next one at address \<open>a\<close>. A step has to fit where it is taken,
  the first one starts at an aligned address.
\<close>

locale step_storage =
  fixes step :: "u16 \<Rightarrow> u8 list \<Rightarrow> u8 \<Rightarrow> bool \<Rightarrow> 'f \<Rightarrow> (u8 \<times> 'f) option"
    and read :: "u16 \<Rightarrow> u16 \<Rightarrow> 'f \<Rightarrow> (u16 \<times> u8 list \<times> 'f) option"
    and rest :: "memory \<Rightarrow> 'f \<Rightarrow> bool" and ready :: "memory \<Rightarrow> nat \<Rightarrow> 'f \<Rightarrow> bool"
    and aligned :: "nat \<Rightarrow> bool" and fits :: "nat \<Rightarrow> nat \<Rightarrow> bool" and capacity :: nat
  assumes begin_law: "rest m f \<Longrightarrow> aligned a \<Longrightarrow> ready m a f"
    and step_law: "ready m a f \<Longrightarrow> bs \<noteq> [] \<Longrightarrow> length bs < 256 \<Longrightarrow> fits a (length bs) \<Longrightarrow> a + length bs \<le> capacity \<Longrightarrow>
      \<exists>g. step (of_nat a) bs (of_nat (length bs)) last_step f = Some (0, g)
        \<and> (if last_step then rest (mem_write m a bs) g else ready (mem_write m a bs) (a + length bs) g)"
    and read_law: "rest m f \<Longrightarrow> a + n \<le> capacity \<Longrightarrow> 0 < n \<Longrightarrow>
      \<exists>g. read (of_nat a) (of_nat n) f = Some (of_nat n, mem_read m a n, g) \<and> rest m g"
    and capacity_law: "capacity < 0x10000"

subsection \<open>The I2C EEPROM\<close>

text \<open>The codes of the errors, in which the two drivers agree on 0 for success.\<close>

fun i2c_err_code :: "i2c_eeprom_err \<Rightarrow> u8" where
  "i2c_err_code SUCCESS = 0"
| "i2c_err_code WSELECT_ERROR = 1"
| "i2c_err_code RSELECT_ERROR = 2"
| "i2c_err_code ADDRESS_ERROR = 3"
| "i2c_err_code DATA_ERROR = 4"

definition i2c_step :: "'c twi_port \<Rightarrow> u16 \<Rightarrow> u8 list \<Rightarrow> u8 \<Rightarrow> bool \<Rightarrow> 'c i2c_state \<Rightarrow> (u8 \<times> 'c i2c_state) option" where
  "i2c_step port dst data len last_step s =
     map_option (\<lambda>(e, s). (i2c_err_code e, s)) (i2c_eeprom_write_step port dst data len last_step s)"

context i2c_eeprom_chip
begin

definition page_open :: "memory \<Rightarrow> nat \<Rightarrow> 'c i2c_state \<Rightarrow> bool" where
  "page_open m a s \<longleftrightarrow> (if a mod 16 = 0 then holds m s
     else \<exists>m0 p bs e. midway (Loading p bs) m0 s e \<and> p + length bs = a \<and> p div 16 = a div 16 \<and> m = mem_write m0 p bs)"

lemma aligned_test: "(of_nat a :: u16) AND 15 = 0 \<longleftrightarrow> a mod 16 = 0" if "a < 0x10000"
proof -
  have "unat ((of_nat a :: u16) AND 15) = a mod 16"
    using unat_and_mask [of "of_nat a :: u16" 4] that by (simp add: mask_eq_decr_exp unat_of_nat)
  then show ?thesis by (metis unat_0 unat_eq_0)
qed

lemma close_page:
  assumes "midway (Loading a bs) m s e" "bs \<noteq> []" "a mod 16 + length bs \<le> 16"
  shows "\<exists>t. i2c_eeprom_end_write port s = Some t \<and> holds (mem_write m a bs) t"
proof -
  have e: "joined (twi s) e" "phase e = Loading a bs" "contents e = m" using assms(1) by (auto simp: midway_def)
  obtain t where "bus_stop port s = Some t" "joined (twi t) (dev_stop dev e)"
    using bus_stop_ok [OF e(1)] e(2) by (auto simp: talks_phase)
  then show ?thesis using write_stop [OF e(2) assms(2)] assms(3) e(3)
    by (auto simp: i2c_eeprom_end_write_def holds_def EEEXT_PAGE_SIZE_def page_write_within)
qed

lemma open_page:
  assumes "page_open m a s" "a < capacity"
  shows "\<exists>t m0 p xs e. (if (of_nat a :: u16) AND 15 = 0 then i2c_eeprom_start_write port (of_nat a) s else Some (SUCCESS, s)) = Some (SUCCESS, t)
    \<and> midway (Loading p xs) m0 t e \<and> p + length xs = a \<and> p div 16 = a div 16 \<and> m = mem_write m0 p xs"
proof (cases "a mod 16 = 0")
  case True
  then obtain e where e: "joined (twi s) e" "phase e = Quiet" "contents e = m" using assms(1) by (auto simp: page_open_def holds_def)
  have u: "unat (of_nat a :: u16) = a" using assms(2) capacity_law by (simp add: unat_of_nat)
  obtain t f where "i2c_eeprom_start_write port (of_nat a) s = Some (SUCCESS, t)" "midway (Loading a []) m t f"
    using start_write_ok [OF e, of "of_nat a"] assms(2) u by auto
  with True show ?thesis using aligned_test [of a] assms(2) capacity_law
    by (intro exI [of _ t] exI [of _ m] exI [of _ a] exI [of _ "[]"] exI [of _ f]) simp
next
  case False
  then show ?thesis using assms aligned_test [of a] capacity_law by (auto simp: page_open_def)
qed

lemma step_taken:
  assumes "page_open m a s" "bs \<noteq> []" "length bs < 256" "a mod 16 + length bs \<le> 16" "a + length bs \<le> capacity"
  shows "\<exists>t. i2c_step port (of_nat a) bs (of_nat (length bs)) last_step s = Some (0, t)
    \<and> (if last_step then holds (mem_write m a bs) t else page_open (mem_write m a bs) (a + length bs) t)"
proof -
  let ?n = "length bs"
  have pos: "0 < ?n" using assms(2) by simp
  then have "a < capacity" using assms(5) by linarith
  from open_page [OF assms(1) this] obtain t m0 p xs e where
    t: "(if (of_nat a :: u16) AND 15 = 0 then i2c_eeprom_start_write port (of_nat a) s else Some (SUCCESS, s)) = Some (SUCCESS, t)"
    and e: "midway (Loading p xs) m0 t e" "p + length xs = a" "p div 16 = a div 16" "m = mem_write m0 p xs" by blast
  have un: "unat (of_nat ?n :: u8) = ?n" using assms(3) by (simp add: unat_of_nat)
  obtain u g where u: "i2c_eeprom_continue_write port bs (of_nat ?n) t = Some (of_nat ?n, u)" "midway (Loading p (xs @ bs)) m0 u g"
    using send_ok [OF e(1), of bs 0] un by (auto simp: i2c_eeprom_continue_write_def)
  have m: "mem_write m0 p (xs @ bs) = mem_write m a bs" using e(2,4) by (simp add: mem_write_append)
  have p: "p mod 16 + length (xs @ bs) \<le> 16"
    unfolding length_append using e(2,3) assms(4) div_mult_mod_eq [of p 16] div_mult_mod_eq [of a 16] by linarith
  have "ucast (of_nat ?n :: u8) = (of_nat ?n :: u16)" using assms(3) by (simp add: unsigned_of_nat take_bit_nat_eq_self)
  then have sum: "((of_nat a :: u16) + ucast (of_nat ?n :: u8)) AND 15 = 0 \<longleftrightarrow> (a + ?n) mod 16 = 0"
    using aligned_test [of "a + ?n"] assms(5) capacity_law by simp
  show ?thesis
  proof (cases "last_step \<or> (a + ?n) mod 16 = 0")
    case True
    obtain v where "i2c_eeprom_end_write port u = Some v" "holds (mem_write m a bs) v"
      using close_page [OF u(2) _ p] m assms(2) by auto
    with True show ?thesis using t u(1) sum by (auto simp: i2c_step_def i2c_eeprom_write_step_def page_open_def)
  next
    case False
    have r: "(a + ?n) mod 16 = a mod 16 + ?n"
    proof -
      have "(a + ?n) mod 16 = (a mod 16 + ?n) mod 16" by (simp add: mod_simps)
      moreover have "a mod 16 + ?n \<noteq> 16" using False calculation by auto
      ultimately show ?thesis using assms(4) by simp
    qed
    then have "p div 16 = (a + ?n) div 16"
      using e(3) div_mult_mod_eq [of "a + ?n" 16] div_mult_mod_eq [of a 16] by linarith
    moreover have "p + length (xs @ bs) = a + ?n" using e(2) by simp
    ultimately have "page_open (mem_write m a bs) (a + ?n) u" using False u(2) m unfolding page_open_def by metis
    with False show ?thesis using t u(1) sum by (auto simp: i2c_step_def i2c_eeprom_write_step_def)
  qed
qed

end

text \<open>Every chip that follows the protocol, on any bus, is such a storage.\<close>

sublocale i2c_eeprom_chip \<subseteq> steps: step_storage "i2c_step port" "i2c_eeprom_read port" holds page_open
  "\<lambda>a. a mod 16 = 0" "\<lambda>a n. a mod 16 + n \<le> 16" capacity
proof
  show "page_open m a s" if "holds m s" "a mod 16 = 0" for m s a using that by (simp add: page_open_def)
  show "\<exists>g. i2c_step port (of_nat a) bs (of_nat (length bs)) last_step s = Some (0, g)
      \<and> (if last_step then holds (mem_write m a bs) g else page_open (mem_write m a bs) (a + length bs) g)"
    if "page_open m a s" "bs \<noteq> []" "length bs < 256" "a mod 16 + length bs \<le> 16" "a + length bs \<le> capacity" for m a s bs last_step
    by (rule step_taken [OF that])
  show "\<exists>g. i2c_eeprom_read port (of_nat a) (of_nat n) s = Some (of_nat n, mem_read m a n, g) \<and> holds m g"
    if "holds m s" "a + n \<le> capacity" "0 < n" for m s a n
  proof -
    have u: "unat (of_nat a :: u16) = a" "unat (of_nat n :: u16) = n" using that(2) capacity_law by (simp_all add: unat_of_nat)
    then have "(of_nat n :: u16) \<noteq> 0" using that(3) by (metis less_irrefl unat_0)
    then show ?thesis using read_block [OF that(1), of "of_nat a" "of_nat n"] that(2) u by auto
  qed
  show "capacity < 0x10000" using capacity_law by simp
qed

context i2c_eeprom_chip
begin

lemma stepwise: "step_storage (i2c_step port) (i2c_eeprom_read port) holds page_open (\<lambda>a. a mod 16 = 0) (\<lambda>a n. a mod 16 + n \<le> 16) capacity"
  by (rule steps.step_storage_axioms)

end

end
