(* ===== verification/I2cStream.thy ===== *)
theory I2cStream
  imports UsbStreamCorrect I2cSteps
begin

text \<open>
  \<open>lufa/eeext_endpoint_stream.c\<close>: the control transfers of the boards with LUFA and an I2C memory. The loops are
  those of \<open>UsbStream\<close>; a byte from the host is a step of \<open>i2c_eeprom_write_step\<close>, so that a page write stays
  open from one packet to the next, and a byte to the host is read on its own. A completed upload is shown to
  store the bytes of the host, and a download to send them back.
\<close>

subsection \<open>Instances of the transfer loops\<close>

definition i2c_eeprom_start_write_if_unaligned :: "'c twi_port \<Rightarrow> u16 \<Rightarrow> 'c i2c_state \<Rightarrow> 'c i2c_state option" where
  "i2c_eeprom_start_write_if_unaligned port addr s =
     (if addr AND 15 \<noteq> 0 then map_option snd (i2c_eeprom_start_write port addr s) else Some s)"

definition i2c_transfer_in :: "'c twi_port \<Rightarrow> u16 \<Rightarrow> u8 \<Rightarrow> nat \<Rightarrow> 'c i2c_state \<Rightarrow> 'c i2c_state option" where
  "i2c_transfer_in port addr b len s = map_option snd (i2c_eeprom_write_step port addr [b] 1 (len = 1) s)"

definition Endpoint_Read_Control_SEStream_LE :: "'c twi_port \<Rightarrow> u16 \<Rightarrow> u16 \<Rightarrow> poll list \<Rightarrow> 'c i2c_state
    \<Rightarrow> (stream_error \<times> 'c i2c_state) option" where
  "Endpoint_Read_Control_SEStream_LE port addr len ps s = do {
     s \<leftarrow> i2c_eeprom_start_write_if_unaligned port addr s;
     control_read (i2c_transfer_in port) addr (unat len) ps s }"

text \<open>The state of the driver is \<open>None\<close> after a read that does not return; \<open>junk\<close> is the buffer of a read that fails.\<close>

definition i2c_transfer_out :: "'c twi_port \<Rightarrow> u8 \<Rightarrow> u16 \<Rightarrow> 'c i2c_state option \<Rightarrow> u8 \<times> 'c i2c_state option" where
  "i2c_transfer_out port junk addr s = (case s of None \<Rightarrow> (junk, None)
     | Some s \<Rightarrow> (case i2c_eeprom_read_byte port junk addr s of None \<Rightarrow> (junk, None) | Some (b, s) \<Rightarrow> (b, Some s)))"

definition Endpoint_Write_Control_SEStream_LE :: "'c twi_port \<Rightarrow> u8 \<Rightarrow> u16 \<Rightarrow> u16 \<Rightarrow> u16 \<Rightarrow> poll list \<Rightarrow> 'c i2c_state
    \<Rightarrow> (stream_error \<times> u8 list list \<times> 'c i2c_state) option" where
  "Endpoint_Write_Control_SEStream_LE port junk addr len wLength ps s = do {
     (e, packets, s) \<leftarrow> Endpoint_Write_Control_Stream (i2c_transfer_out port junk) addr len wLength ps (Some s);
     s \<leftarrow> s;
     Some (e, packets, s) }"

subsection \<open>From the host\<close>

context i2c_eeprom_chip
begin

lemma put_i2c_bytes:
  assumes "bs \<noteq> []" "page_open m (unat addr) s" "unat addr + length bs \<le> capacity"
  shows "\<exists>t. put_bytes (i2c_transfer_in port) addr bs (length bs) s = Some t \<and> holds (mem_write m (unat addr) bs) t"
  using assms
proof (induction bs arbitrary: addr m s)
  case (Cons b bs)
  have "unat addr mod 16 + length [b] \<le> 16" using mod_less_divisor [of 16 "unat addr"] by simp
  then obtain t where t: "i2c_step port addr [b] 1 (bs = []) s = Some (0, t)"
    "if bs = [] then holds (mem_write m (unat addr) [b]) t else page_open (mem_write m (unat addr) [b]) (unat addr + 1) t"
    using step_taken [OF Cons.prems(2), of "[b]" "bs = []"] Cons.prems(3) by (cases "bs = []") auto
  then have step: "i2c_transfer_in port addr b (length (b # bs)) s = Some t"
    by (auto simp: i2c_transfer_in_def i2c_step_def)
  show ?case
  proof (cases "bs = []")
    case True
    then show ?thesis using t(2) step by simp
  next
    case False
    then have n: "unat (addr + 1) = unat addr + 1"
      using Cons.prems(3) capacity_law by (cases bs; auto simp: unat_word_ariths(1))
    obtain u where "put_bytes (i2c_transfer_in port) (addr + 1) bs (length bs) t = Some u"
      "holds (mem_write (mem_write m (unat addr) [b]) (unat addr + 1) bs) u"
      using Cons.IH [of "mem_write m (unat addr) [b]" "addr + 1" t] False t(2) n Cons.prems(3) by auto
    then show ?thesis using step mem_write_append [of m "unat addr" "[b]" bs] by simp
  qed
qed simp

lemma page_start: "addr AND 15 = 0 \<longleftrightarrow> unat addr mod 16 = 0" for addr :: u16
  using aligned_test [of "unat addr"] unsigned_less [of addr] by simp

lemma i2c_upload_starts:
  assumes "holds m s" "unat addr < capacity"
  shows "\<exists>u. i2c_eeprom_start_write_if_unaligned port addr s = Some u \<and> page_open m (unat addr) u"
proof (cases "unat addr mod 16 = 0")
  case True
  then show ?thesis using assms page_start [of addr] by (simp add: i2c_eeprom_start_write_if_unaligned_def page_open_def)
next
  case False
  obtain e where e: "joined (twi s) e" "phase e = Quiet" "contents e = m" using assms(1) by (auto simp: holds_def)
  obtain t f where t: "i2c_eeprom_start_write port addr s = Some (SUCCESS, t)" "midway (Loading (unat addr) []) m t f"
    using start_write_ok [OF e assms(2)] by auto
  then have "page_open m (unat addr) t" using False unfolding page_open_def
    by (metis add.right_neutral list.size(3) mem_write_Nil)
  then show ?thesis using t(1) False page_start [of addr] by (simp add: i2c_eeprom_start_write_if_unaligned_def)
qed

lemma i2c_upload_completes:
  assumes "holds m s" "unat addr + unat len \<le> capacity" "len \<noteq> 0"
    "list_all (\<lambda>p. stream_failure p = None) qs" "IsINReady r" "length (host_bytes (unat len) qs) = unat len"
  shows "\<exists>t. Endpoint_Read_Control_SEStream_LE port addr len (qs @ r # rs) s = Some (ENDPOINT_RWCSTREAM_NoError, t)"
proof -
  have len: "0 < unat len" using assms(3) by (simp add: unat_gt_0)
  then obtain u where u: "i2c_eeprom_start_write_if_unaligned port addr s = Some u" "page_open m (unat addr) u"
    using i2c_upload_starts [OF assms(1), of addr] assms(2) by auto
  have "host_bytes (unat len) qs \<noteq> []" using len assms(6) by auto
  from put_i2c_bytes [OF this u(2)] assms(2,6)
  obtain t where "put_bytes (i2c_transfer_in port) addr (host_bytes (unat len) qs) (unat len) u = Some t" by auto
  from control_read_completes [OF assms(4-6) this, of rs] u(1)
  show ?thesis by (auto simp: Endpoint_Read_Control_SEStream_LE_def)
qed

lemma i2c_upload_block:
  assumes "holds m s" "unat addr + unat len \<le> capacity" "len \<noteq> 0"
    "Endpoint_Read_Control_SEStream_LE port addr len ps s = Some (ENDPOINT_RWCSTREAM_NoError, t)"
  shows "length (host_bytes (unat len) ps) = unat len" "holds (mem_write m (unat addr) (host_bytes (unat len) ps)) t"
proof -
  have len: "0 < unat len" using assms(3) by (simp add: unat_gt_0)
  then obtain u where u: "i2c_eeprom_start_write_if_unaligned port addr s = Some u" "page_open m (unat addr) u"
    using i2c_upload_starts [OF assms(1), of addr] assms(2) by auto
  then have "control_read (i2c_transfer_in port) addr (unat len) ps u = Some (ENDPOINT_RWCSTREAM_NoError, t)"
    using assms(4) by (simp add: Endpoint_Read_Control_SEStream_LE_def)
  note r = control_read_stores [OF this]
  show "length (host_bytes (unat len) ps) = unat len" by (rule r(1))
  then have "host_bytes (unat len) ps \<noteq> []" using len by auto
  from put_i2c_bytes [OF this u(2)] r assms(2) show "holds (mem_write m (unat addr) (host_bytes (unat len) ps)) t" by auto
qed

end

subsection \<open>To the host\<close>

context i2c_eeprom_chip
begin

lemma i2c_read_out:
  assumes "\<exists>u. s = Some u \<and> holds m u" "unat a < capacity"
  shows "\<exists>t. i2c_transfer_out port junk a s = (m (unat a), t) \<and> (\<exists>u. t = Some u \<and> holds m u)"
proof -
  obtain u where u: "s = Some u" "holds m u" using assms(1) by blast
  obtain t where "i2c_eeprom_read port a 1 u = Some (1, mem_read m (unat a) 1, t)" "holds m t"
    using read_block [OF u(2), of a 1] assms(2) by auto
  then show ?thesis using u(1) by (simp add: i2c_transfer_out_def i2c_eeprom_read_byte_def mem_read_def)
qed

lemma i2c_download_block:
  assumes "holds m s" "unat addr + unat len \<le> capacity" "len \<noteq> 0" "len \<le> wLength"
    "list_all quiet qs" "packets_needed (unat len) False \<le> length (filter IsINReady qs)" "IsOUTReceived r"
  shows "\<exists>packets t. Endpoint_Write_Control_SEStream_LE port junk addr len wLength (qs @ r # rs) s
      = Some (ENDPOINT_RWCSTREAM_NoError, packets, t) \<and> concat packets = mem_read m (unat addr) (unat len) \<and> holds m t"
proof -
  have a: "unat (addr + of_nat i) = unat addr + i" if "i < unat len" for i
    using that assms(2) capacity_law by (simp add: unat_word_ariths(1) unat_of_nat)
  have ok: "unat (addr + of_nat i) < capacity" if "i < unat len" for i using a [OF that] that assms(2) by linarith
  have g: "\<exists>u. Some s = Some u \<and> holds m u" using assms(1) by blast
  obtain packets t where p: "control_write (i2c_transfer_out port junk) addr (unat len) False (qs @ r # rs) (Some s)
      = Some (ENDPOINT_RWCSTREAM_NoError, packets, t)" "concat packets = data_at (\<lambda>a. m (unat a)) addr (unat len)"
    "\<exists>u. t = Some u \<and> holds m u"
    using control_write_within [where good = "\<lambda>s. \<exists>u. s = Some u \<and> holds m u" and P = "\<lambda>a. unat a < capacity" and f = "\<lambda>a. m (unat a)"
        and rd = "i2c_transfer_out port junk" and rs = rs, OF i2c_read_out assms(7,5,6) g ok] by blast
  moreover have "data_at (\<lambda>a. m (unat a)) addr (unat len) = mem_read m (unat addr) (unat len)"
    by (rule nth_equalityI) (auto simp: data_at_def mem_read_def a)
  moreover have "min len wLength = len" using assms(4) by (simp add: min_def)
  ultimately show ?thesis using assms(3)
    by (auto simp: Endpoint_Write_Control_SEStream_LE_def Endpoint_Write_Control_Stream_def)
qed

end

subsection \<open>Property\<close>

text \<open>
  C14: on the boards with LUFA and an I2C memory an upload completes when the bus stays up and the host sends the
  announced bytes, however it divides them into packets and wherever the pages of the chip lie; whenever it
  completes, the memory holds exactly the bytes of the host from the given address on and nothing else has
  changed; and the download that follows sends the host the same bytes.
\<close>

theorem i2c_upload_download:
  assumes chip: "i2c_eeprom_chip port dev joined contents phase cycle pointer capacity"
    and rest: "joined (twi s) e" "phase e = Quiet" and block: "unat addr + unat len \<le> capacity" "len \<noteq> 0"
  defines "holding \<equiv> \<lambda>m t. \<exists>f. joined (twi t) f \<and> phase f = Quiet \<and> contents f = m"
    and "stored \<equiv> \<lambda>ps. mem_write (contents e) (unat addr) (host_bytes (unat len) ps)"
  shows "(list_all (\<lambda>p. stream_failure p = None) qs \<and> length (host_bytes (unat len) qs) = unat len \<and> IsINReady r \<longrightarrow>
      (\<exists>t. Endpoint_Read_Control_SEStream_LE port addr len (qs @ r # rs) s = Some (ENDPOINT_RWCSTREAM_NoError, t)))
    \<and> (Endpoint_Read_Control_SEStream_LE port addr len ps s = Some (ENDPOINT_RWCSTREAM_NoError, t) \<longrightarrow>
      length (host_bytes (unat len) ps) = unat len \<and> holding (stored ps) t
      \<and> (list_all quiet qs \<and> packets_needed (unat len) False \<le> length (filter IsINReady qs) \<and> IsOUTReceived r \<longrightarrow>
        (\<exists>packets u. Endpoint_Write_Control_SEStream_LE port junk addr len len (qs @ r # rs) t
            = Some (ENDPOINT_RWCSTREAM_NoError, packets, u) \<and> concat packets = host_bytes (unat len) ps \<and> holding (stored ps) u)))"
proof -
  have h: "i2c_eeprom_chip.holds joined contents phase (contents e) s"
    using rest by (auto simp: i2c_eeprom_chip.holds_def [OF chip])
  have eq: "i2c_eeprom_chip.holds joined contents phase = holding"
    by (auto simp: fun_eq_iff i2c_eeprom_chip.holds_def [OF chip] holding_def)
  note up = i2c_eeprom_chip.i2c_upload_block [OF chip h block, unfolded eq]
  have "\<exists>packets u. Endpoint_Write_Control_SEStream_LE port junk addr len len (qs @ r # rs) t
      = Some (ENDPOINT_RWCSTREAM_NoError, packets, u) \<and> concat packets = host_bytes (unat len) ps \<and> holding (stored ps) u"
    if ok: "Endpoint_Read_Control_SEStream_LE port addr len ps s = Some (ENDPOINT_RWCSTREAM_NoError, t)"
      and d: "list_all quiet qs" "packets_needed (unat len) False \<le> length (filter IsINReady qs)" "IsOUTReceived r"
    using i2c_eeprom_chip.i2c_download_block [OF chip up(2) [OF ok, folded eq] block order_refl d, of junk rs] up(1) [OF ok]
    unfolding eq stored_def by simp
  then show ?thesis
    using i2c_eeprom_chip.i2c_upload_completes [OF chip h block] up unfolding stored_def by blast
qed

theorem i2c_upload_download_witness:
  "\<exists>t u packets. Endpoint_Read_Control_SEStream_LE (bitbang_port (device_wires at24_dev)) 14 3
       [quiet_poll, out_poll [1, 2], quiet_poll, out_poll [3], in_poll] fresh_i2c = Some (ENDPOINT_RWCSTREAM_NoError, t)
     \<and> Endpoint_Write_Control_SEStream_LE (bitbang_port (device_wires at24_dev)) 0 14 3 3 [in_poll, quiet_poll, out_poll []] t
       = Some (ENDPOINT_RWCSTREAM_NoError, packets, u) \<and> concat packets = [1, 2, 3]"
proof -
  let ?port = "bitbang_port (device_wires at24_dev)"
  define qs where "qs = [quiet_poll, out_poll [1, 2], quiet_poll, out_poll [3]]"
  define ds where "ds = [in_poll, quiet_poll]"
  note polls = quiet_poll_def out_poll_def in_poll_def stream_failure_def bus_failure_def
  have b: "list_all (\<lambda>p. stream_failure p = None) qs \<and> length (host_bytes (unat (3 :: u16)) qs) = unat (3 :: u16) \<and> IsINReady in_poll"
    and h: "host_bytes 3 (qs @ [in_poll]) = [1, 2, 3]" by (simp_all add: polls qs_def)
  have d: "list_all quiet ds \<and> packets_needed (unat (3 :: u16)) False \<le> length (filter IsINReady ds) \<and> IsOUTReceived (out_poll [])"
    by (simp add: polls quiet_def packets_needed_def USB_Device_ControlEndpointSize_def ds_def)
  have "unat (14 :: u16) + unat (3 :: u16) \<le> 0x800" "(3 :: u16) \<noteq> 0" by simp_all
  note run = i2c_upload_download [OF at24.on_lines.i2c_eeprom_chip_axioms fresh_rest this]
  obtain t where t: "Endpoint_Read_Control_SEStream_LE ?port 14 3 (qs @ [in_poll]) fresh_i2c = Some (ENDPOINT_RWCSTREAM_NoError, t)"
    using run [THEN conjunct1, THEN mp, OF b, of "[]"] by blast
  from run [THEN conjunct2, THEN mp, OF t, THEN conjunct2, THEN conjunct2, THEN mp, OF d, of 0 "[]"] obtain packets u where
    "Endpoint_Write_Control_SEStream_LE ?port 0 14 3 3 (ds @ [out_poll []]) t = Some (ENDPOINT_RWCSTREAM_NoError, packets, u)"
    "concat packets = host_bytes (unat (3 :: u16)) (qs @ [in_poll])" by blast
  then show ?thesis using t h by (auto simp: qs_def ds_def)
qed

end
