(* ===== verification/KatyMatrix.thy ===== *)
theory KatyMatrix
  imports Keystate
begin

text \<open>
  How the board of \<open>k84cs.c\<close> selects a line of the matrix and reads what crosses it, and the scan of
  \<open>keystate.c\<close> over it. On the right hand the lines are pins of port A. The left hand is reached by three wires
  that feed two shift registers, one that drives its lines and one that collects the levels, and one wire that
  returns them. What is at the other end of the wires is an argument: it reacts to a wire that is set and has a
  level on the wire that is read. \<open>select_left\<close> and \<open>shift_in\<close> are the code that the boards of this family
  share, over the operation that sets a wire.
\<close>

subsection \<open>The wires to the left hand\<close>

datatype wire = oLoad | CLK0 | CLK1

record 'h hand_ops =
  hand_wire :: "wire \<Rightarrow> bool \<Rightarrow> 'h \<Rightarrow> 'h"
  hand_iData :: "'h \<Rightarrow> bool"

definition select_left :: "(wire \<Rightarrow> bool \<Rightarrow> 's \<Rightarrow> 's) \<Rightarrow> u8 \<Rightarrow> 's \<Rightarrow> 's" where
  "select_left set_wire matrix_row s =
     (let s = (if matrix_row = 0 then set_wire CLK0 False (set_wire CLK0 True (set_wire oLoad False s)) else s)
      in set_wire CLK0 False (set_wire CLK0 True (set_wire oLoad True (set_wire oLoad False s))))"

text \<open>\<open>n\<close> further bits of the register.\<close>

fun shift_in :: "(wire \<Rightarrow> bool \<Rightarrow> 's \<Rightarrow> 's) \<Rightarrow> ('s \<Rightarrow> bool) \<Rightarrow> nat \<Rightarrow> u8 \<Rightarrow> 's \<Rightarrow> u8 \<times> 's" where
  "shift_in set_wire iData 0 v s = (v, s)"
| "shift_in set_wire iData (Suc n) v s =
     (let s = set_wire CLK1 False (set_wire CLK1 True s)
      in shift_in set_wire iData n (push_bit 1 v OR (if iData s then 1 else 0)) s)"

text \<open>Eight pulses of \<open>CLK0\<close> at the start.\<close>

definition clear_left :: "(wire \<Rightarrow> bool \<Rightarrow> 's \<Rightarrow> 's) \<Rightarrow> 's \<Rightarrow> 's" where
  "clear_left set_wire s = ((\<lambda>s. set_wire CLK0 False (set_wire CLK0 True s)) ^^ 8) s"

subsection \<open>Ports\<close>

record 'h katy_state =
  PORTA_DIR :: u8
  PORTA_OUT :: u8
  PORTB_DIR :: u8
  PORTC_DIR :: u8
  PORTC_OUT :: u8
  PORTD_DIR :: u8
  processing_row :: u8
  register_165_state :: u8
  left_hand :: 'h

definition PIN0_bm :: u8 where "PIN0_bm = 0x01"
definition PIN1_bm :: u8 where "PIN1_bm = 0x02"
definition PIN2_bm :: u8 where "PIN2_bm = 0x04"
definition PIN3_bm :: u8 where "PIN3_bm = 0x08"

fun wire_bm :: "wire \<Rightarrow> u8" where
  "wire_bm oLoad = PIN3_bm"
| "wire_bm CLK0 = PIN1_bm"
| "wire_bm CLK1 = PIN2_bm"

text \<open>\<open>PORTC.OUTSET\<close> and \<open>PORTC.OUTCLR\<close> at the pin of a wire.\<close>

definition PORTC_wire :: "'h hand_ops \<Rightarrow> wire \<Rightarrow> bool \<Rightarrow> 'h katy_state \<Rightarrow> 'h katy_state" where
  "PORTC_wire dev w b s =
     s\<lparr>PORTC_OUT := (if b then PORTC_OUT s OR wire_bm w else PORTC_OUT s AND NOT (wire_bm w)),
       left_hand := hand_wire dev w b (left_hand s)\<rparr>"

definition PORTC_iData :: "'h hand_ops \<Rightarrow> 'h katy_state \<Rightarrow> bool" where
  "PORTC_iData dev s = hand_iData dev (left_hand s)"

text \<open>The part of \<open>ports_init\<close> that sets up the matrix; the pull-ups of the input pins are not in the state.\<close>

definition ports_init_matrix :: "'h hand_ops \<Rightarrow> 'h katy_state \<Rightarrow> 'h katy_state" where
  "ports_init_matrix dev s =
     (let s = s\<lparr>PORTD_DIR := PORTD_DIR s AND NOT 0x1F, PORTB_DIR := PORTB_DIR s AND NOT PIN2_bm,
                PORTA_DIR := PORTA_DIR s AND NOT 0xFF, PORTC_DIR := PORTC_DIR s OR PIN3_bm\<rparr>;
          s = PORTC_wire dev oLoad True s;
          s = s\<lparr>PORTC_DIR := PORTC_DIR s AND NOT PIN0_bm\<rparr>;
          s = s\<lparr>PORTC_DIR := PORTC_DIR s OR (PIN1_bm OR PIN2_bm)\<rparr>;
          s = PORTC_wire dev CLK1 False (PORTC_wire dev CLK0 False s)
      in clear_left (PORTC_wire dev) s)"

subsection \<open>Selecting and reading\<close>

text \<open>All lines of the right hand to input, the selected one to low output.\<close>

definition select_right :: "nat \<Rightarrow> u8 \<Rightarrow> 'h katy_state \<Rightarrow> 'h katy_state" where
  "select_right half matrix_row s =
     (let pin = push_bit (unat matrix_row - half) 1;
          s = s\<lparr>PORTA_DIR := PORTA_DIR s AND NOT 0xFF\<rparr>
      in s\<lparr>PORTA_DIR := PORTA_DIR s OR pin, PORTA_OUT := PORTA_OUT s AND NOT pin\<rparr>)"

definition matrix_select_row :: "'h hand_ops \<Rightarrow> u8 \<Rightarrow> 'h katy_state \<Rightarrow> 'h katy_state" where
  "matrix_select_row dev matrix_row s =
     (let s = (if unat matrix_row < MATRIX_ROWS div 2 then select_left (PORTC_wire dev) matrix_row s
               else select_right (MATRIX_ROWS div 2) matrix_row s)
      in s\<lparr>processing_row := matrix_row\<rparr>)"

text \<open>
  What the input pins of the right hand read follows from what port A drives: \<open>portb\<close> and \<open>portd\<close> take its
  direction and its output.
\<close>

record right_pins =
  portb :: "u8 \<Rightarrow> u8 \<Rightarrow> u8"
  portd :: "u8 \<Rightarrow> u8 \<Rightarrow> u8"

definition read_left :: "'h hand_ops \<Rightarrow> nat \<Rightarrow> u8 \<Rightarrow> 'h katy_state \<Rightarrow> u8 \<times> 'h katy_state" where
  "read_left dev shifts matrix_column s =
     (let s = (if matrix_column = 0
               then let (v, s) = shift_in (PORTC_wire dev) (PORTC_iData dev) shifts (if PORTC_iData dev s then 1 else 0) s
                    in s\<lparr>register_165_state := v\<rparr>
               else s)
      in (if push_bit (unat matrix_column) 1 AND register_165_state s \<noteq> 0 then 1 else 0, s))"

definition matrix_read_column :: "'h hand_ops \<Rightarrow> right_pins \<Rightarrow> u8 \<Rightarrow> 'h katy_state \<Rightarrow> bool \<times> 'h katy_state" where
  "matrix_read_column dev pins matrix_column s =
     (let (v, s) = (if unat (processing_row s) < MATRIX_ROWS div 2 then read_left dev 5 matrix_column s
                    else if matrix_column > 4 then (drop_bit 2 (portb pins (PORTA_DIR s) (PORTA_OUT s)) AND 1, s)
                    else (drop_bit (unat matrix_column) (portd pins (PORTA_DIR s) (PORTA_OUT s)) AND 1, s))
      in if v = 0 \<and> unat (processing_row s) \<ge> MATRIX_ROWS div 2 then (True, s) else (v = 0, s))"

subsection \<open>The scan\<close>

text \<open>
  The loops of \<open>keystate_update\<close> that fill a cleared bitfield, for the board that provides the two functions. A
  column is read only where the table has a key.
\<close>

definition scan_column ::
    "(u8 \<Rightarrow> 's \<Rightarrow> bool \<times> 's) \<Rightarrow> logical_keycode list list \<Rightarrow> nat \<Rightarrow> nat \<Rightarrow> u8 list \<times> 's \<Rightarrow> u8 list \<times> 's" where
  "scan_column read table row col x =
     (let (ws, s) = x; p_key = table ! row ! col
      in if p_key \<noteq> NO_KEY
         then let (v, s) = read (of_nat col) s in (if v then set_bit ws (unat p_key) else ws, s)
         else (ws, s))"

definition scan_ports ::
    "(u8 \<Rightarrow> 's \<Rightarrow> 's) \<Rightarrow> (u8 \<Rightarrow> 's \<Rightarrow> bool \<times> 's) \<Rightarrow> logical_keycode list list \<Rightarrow> nat \<Rightarrow> nat \<Rightarrow> nat \<Rightarrow> 's \<Rightarrow> u8 list \<times> 's" where
  "scan_ports select read table rows cols bitfield_words s =
     fold (\<lambda>row (ws, s). fold (scan_column read table row) [0..<cols] (ws, select (of_nat row) s)) [0..<rows]
       (replicate bitfield_words 0, s)"

end
