(* ===== verification/KatyMatrixCorrect.thy ===== *)
theory KatyMatrixCorrect
  imports KatyMatrix
begin

text \<open>
  The scan of a board with a left hand behind shift registers finds the keys that are held. Locale
  \<open>left_wires\<close> is what the registers are documented to do with the wires: a rising \<open>CLK0\<close> shifts the level of
  \<open>oLoad\<close> into the lines of the matrix, a low \<open>oLoad\<close> loads what the lines let through, a rising \<open>CLK1\<close> passes on to
  the next bit. Whether the wires are set directly or by writes to ports makes no difference. Locale
  \<open>matrix_driver\<close> is what the scan needs of a board.
\<close>

subsection \<open>The registers of the left hand\<close>

text \<open>The lines of the matrix with one of them low, and the levels of the \<open>n\<close> inputs in the order they are sent.\<close>

definition one_low :: "nat \<Rightarrow> bool list" where
  "one_low k = map (\<lambda>i. i \<noteq> k) [0..<8]"

definition rows_read :: "nat \<Rightarrow> nat \<Rightarrow> (nat \<Rightarrow> nat \<Rightarrow> bool) \<Rightarrow> bool list \<Rightarrow> bool list" where
  "rows_read half n keys cols = map (\<lambda>i. \<not> (\<exists>c < half. \<not> cols ! c \<and> keys c (n - 1 - i))) [0..<n]"

definition at_rest :: "wire \<Rightarrow> bool" where
  "at_rest = (\<lambda>w. w = oLoad)"

lemma at_rest_iff: "f = at_rest \<longleftrightarrow> f oLoad \<and> \<not> f CLK0 \<and> \<not> f CLK1"
proof
  assume "f oLoad \<and> \<not> f CLK0 \<and> \<not> f CLK1"
  then have "f w = at_rest w" for w by (cases w) (simp_all add: at_rest_def)
  then show "f = at_rest" by (rule ext)
qed (simp add: at_rest_def)

lemmas at_rest_lines [simp] = iffD1 [OF at_rest_iff, OF refl]

lemma shift_one: "True # butlast (one_low k) = one_low (Suc k)"
  by (intro nth_equalityI) (auto simp: one_low_def nth_Cons nth_butlast split: nat.splits)

lemma shift_zero: "7 \<le> k \<Longrightarrow> False # butlast (one_low k) = one_low 0"
  by (simp add: one_low_def upt_rec)

lemma rows_read_one_low: "r < half \<Longrightarrow> half \<le> 8 \<Longrightarrow> rows_read half n keys (one_low r) = map (\<lambda>i. \<not> keys r (n - 1 - i)) [0..<n]"
  by (auto simp: rows_read_def one_low_def)

text \<open>The byte collected from the bits: the last one is bit 0.\<close>

lemma collected_bits:
  "length bs + k \<le> 8 \<Longrightarrow> j < length bs + k \<Longrightarrow>
   bit (fold (\<lambda>b v. push_bit 1 v OR (if b then 1 else 0)) bs (v :: u8)) j
     = (if j < length bs then bs ! (length bs - 1 - j) else bit v (j - length bs))"
proof (induction bs arbitrary: v k)
  case Nil then show ?case by simp
next
  case (Cons b bs)
  have e: "bit (push_bit 1 v OR (if b then 1 else 0)) i = (if i = 0 then b else bit v (i - 1))" if "i < 8" for i
    unfolding bit_or_iff bit_push_bit_iff using that by (cases i) auto
  have "j < length bs + Suc k" "length bs + Suc k \<le> 8" using Cons.prems by simp_all
  note ih = Cons.IH [OF this(2,1), of "push_bit 1 v OR (if b then 1 else 0)"]
  show ?case
  proof (cases "j < length bs")
    case True then show ?thesis using ih by (simp add: nth_Cons' )
  next
    case False
    moreover have "j - length bs < 8" using Cons.prems by simp
    ultimately show ?thesis using ih e [of "j - length bs"] Cons.prems by (auto simp: nth_Cons')
  qed
qed

lemma shift_in_frame: "(\<And>w b s. f (set_wire w b s) = f s) \<Longrightarrow> f (snd (shift_in set_wire iData n v s)) = f s"
  by (induction n arbitrary: v s) (simp_all add: Let_def)

locale left_wires =
  fixes set_wire :: "wire \<Rightarrow> bool \<Rightarrow> 's \<Rightarrow> 's" and iData :: "'s \<Rightarrow> bool"
    and level :: "'s \<Rightarrow> wire \<Rightarrow> bool" and lines :: "'s \<Rightarrow> bool list" and shifted :: "'s \<Rightarrow> bool list"
    and rows_in :: "bool list \<Rightarrow> bool list"
  assumes level: "level (set_wire w b s) = (level s)(w := b)"
    and lines: "lines (set_wire w b s) =
      (if w = CLK0 \<and> b \<and> \<not> level s CLK0 then level s oLoad # butlast (lines s) else lines s)"
    and shifted: "shifted (set_wire w b s) =
      (if \<not> level (set_wire w b s) oLoad then rows_in (lines (set_wire w b s))
       else if w = CLK1 \<and> b \<and> \<not> level s CLK1 then tl (shifted s) else shifted s)"
    and iData: "shifted s \<noteq> [] \<Longrightarrow> iData s = hd (shifted s)"
begin

definition resting :: "nat \<Rightarrow> 's \<Rightarrow> bool" where
  "resting k s \<longleftrightarrow> level s = at_rest \<and> lines s = one_low k"

text \<open>Row \<open>r\<close> may be selected: its line is the next, or the lines have run through.\<close>

definition ready_left :: "nat \<Rightarrow> 's \<Rightarrow> bool" where
  "ready_left r s \<longleftrightarrow> (if r = 0 then \<exists>k \<ge> 7. resting k s else resting r s)"

lemma select_left_row:
  assumes "ready_left r s" "r < 8"
  shows "resting (Suc r) (select_left set_wire (of_nat r) s)" "shifted (select_left set_wire (of_nat r) s) = rows_in (one_low r)"
proof -
  have z: "(of_nat r :: u8) = 0 \<longleftrightarrow> r = 0" using assms(2) by (simp add: u8_of_nat_0)
  let ?t = "if r = 0 then set_wire CLK0 False (set_wire CLK0 True (set_wire oLoad False s)) else s"
  have t: "level ?t CLK0 = False \<and> level ?t CLK1 = False \<and> lines ?t = one_low r"
    using assms(1) by (cases "r = 0") (auto simp: ready_left_def resting_def level lines at_rest_iff shift_zero)
  have e: "select_left set_wire (of_nat r) s = set_wire CLK0 False (set_wire CLK0 True (set_wire oLoad True (set_wire oLoad False ?t)))"
    by (simp add: select_left_def Let_def z)
  show "resting (Suc r) (select_left set_wire (of_nat r) s)"
    unfolding e resting_def using t by (simp only: level lines) (auto simp: at_rest_iff shift_one)
  show "shifted (select_left set_wire (of_nat r) s) = rows_in (one_low r)"
    unfolding e using t by (simp only: shifted level lines) simp
qed

lemma shift_in_bits:
  assumes "resting k s" "n < length (shifted s)"
  shows "\<exists>t. shift_in set_wire iData n v s = (fold (\<lambda>b v. push_bit 1 v OR (if b then 1 else 0)) (take n (tl (shifted s))) v, t) \<and> resting k t"
  using assms
proof (induction n arbitrary: v s)
  case 0 then show ?case by auto
next
  case (Suc n)
  let ?t = "set_wire CLK1 False (set_wire CLK1 True s)"
  have sh: "shifted ?t = tl (shifted s)" using Suc.prems(1) by (simp only: resting_def level lines shifted) (simp add: at_rest_def)
  have r: "resting k ?t" using Suc.prems(1) by (simp only: resting_def level lines) (auto simp: at_rest_iff)
  have ne: "tl (shifted s) \<noteq> []" using Suc.prems(2) by (cases "shifted s") auto
  have tk: "take (Suc n) (tl (shifted s)) = hd (tl (shifted s)) # take n (tl (tl (shifted s)))" using ne by (cases "tl (shifted s)") auto
  have i: "iData ?t = hd (tl (shifted s))" using iData [of ?t] sh ne by simp
  have "n < length (shifted ?t)" using Suc.prems(2) sh by simp
  from Suc.IH [OF r this, of "push_bit 1 v OR (if iData ?t then 1 else 0)"] show ?case
    by (simp add: Let_def tk i sh)
qed

text \<open>A row of \<open>n\<close> keys arrives as a byte of zeros for the held ones.\<close>

lemma collect_row:
  assumes "resting k s" "shifted s = map (\<lambda>i. \<not> ks (n - 1 - i)) [0..<n]" "0 < n" "n \<le> 8"
  shows "\<exists>v t. shift_in set_wire iData (n - 1) (if iData s then 1 else 0) s = (v, t) \<and> resting k t \<and> (\<forall>c < n. bit v c \<longleftrightarrow> \<not> ks c)"
proof -
  let ?bs = "map (\<lambda>i. \<not> ks (n - 1 - i)) [0..<n]"
  have l: "n - 1 < length (shifted s)" using assms by simp
  let ?v = "fold (\<lambda>b v. push_bit 1 v OR (if b then 1 else 0)) ?bs (0 :: u8)"
  have h: "?bs = hd ?bs # tl ?bs" using assms(3) by (cases ?bs) auto
  have "iData s = hd ?bs" using iData [of s] assms by auto
  then have v: "?v = fold (\<lambda>b v. push_bit 1 v OR (if b then 1 else 0)) (take (n - 1) (tl ?bs)) (if iData s then 1 else 0 :: u8)"
    by (subst h) simp
  have "bit ?v c \<longleftrightarrow> \<not> ks c" if "c < n" for c
    using collected_bits [of ?bs 0 c 0] that assms(4) by simp
  then show ?thesis using shift_in_bits [OF assms(1) l, of "if iData s then 1 else 0"] unfolding v assms(2) by blast
qed

lemma clear_left_rests:
  assumes "level s = at_rest" "length (lines s) = 8"
  shows "resting 8 (clear_left set_wire s)"
proof -
  have "level (((\<lambda>s. set_wire CLK0 False (set_wire CLK0 True s)) ^^ n) s) = at_rest
      \<and> lines (((\<lambda>s. set_wire CLK0 False (set_wire CLK0 True s)) ^^ n) s) = replicate n True @ take (8 - n) (lines s)" if "n \<le> 8" for n
    using that
  proof (induction n)
    case 0 then show ?case using assms by simp
  next
    case (Suc n)
    then show ?case using assms(2) by (auto simp: level lines at_rest_iff butlast_append butlast_take)
  qed
  from this [of 8] show ?thesis by (simp add: clear_left_def resting_def one_low_def upt_rec numeral_eq_Suc)
qed

end

subsection \<open>What the scan needs of a board\<close>

text \<open>The bitfield of the keys that are held.\<close>

definition scan_key :: "(nat \<Rightarrow> nat \<Rightarrow> bool) \<Rightarrow> logical_keycode list list \<Rightarrow> nat \<Rightarrow> nat \<Rightarrow> u8 list \<Rightarrow> u8 list" where
  "scan_key keys table row col ws =
     (let p = table ! row ! col in if p \<noteq> NO_KEY then if keys row col then set_bit ws (unat p) else ws else ws)"

definition scan_keys :: "logical_keycode list list \<Rightarrow> nat \<Rightarrow> nat \<Rightarrow> nat \<Rightarrow> (nat \<Rightarrow> nat \<Rightarrow> bool) \<Rightarrow> u8 list" where
  "scan_keys table rows cols bitfield_words keys =
     fold (\<lambda>row. fold (scan_key keys table row) [0..<cols]) [0..<rows] (replicate bitfield_words 0)"

lemma scan_keys_scan_matrix: "scan_keys matrix_to_logical_map MATRIX_ROWS MATRIX_COLS BITFIELD_WORDS keys = scan_matrix keys"
proof -
  have "scan_key keys matrix_to_logical_map row = scan_position keys row" for row
    by (simp add: scan_key_def scan_position_def fun_eq_iff)
  then show ?thesis by (simp add: scan_keys_def scan_matrix_def)
qed

text \<open>
  The first column of a row may change the state, the others only read; every row uses its first column.
  After the last row the board is ready for the first.
\<close>

locale matrix_driver =
  fixes select :: "u8 \<Rightarrow> 's \<Rightarrow> 's" and read :: "u8 \<Rightarrow> 's \<Rightarrow> bool \<times> 's" and table :: "logical_keycode list list"
    and rows cols :: nat and keys :: "nat \<Rightarrow> nat \<Rightarrow> bool"
    and ready selected entered :: "nat \<Rightarrow> 's \<Rightarrow> bool"
  assumes select: "ready r s \<Longrightarrow> r < rows \<Longrightarrow> selected r (select (of_nat r) s)"
    and first: "selected r s \<Longrightarrow> r < rows \<Longrightarrow> \<exists>t. read 0 s = (keys r 0, t) \<and> entered r t"
    and next_column: "entered r s \<Longrightarrow> r < rows \<Longrightarrow> 0 < c \<Longrightarrow> c < cols \<Longrightarrow> read (of_nat c) s = (keys r c, s)"
    and leave: "entered r s \<Longrightarrow> r < rows \<Longrightarrow> ready (Suc r) s"
    and wrap: "ready rows s \<Longrightarrow> ready 0 s"
    and used: "r < rows \<Longrightarrow> table ! r ! 0 \<noteq> NO_KEY" and columns: "0 < cols"
begin

lemma scan_columns:
  assumes "entered r s" "r < rows" "\<forall>c \<in> set cs. 0 < c \<and> c < cols"
  shows "fold (scan_column read table r) cs (ws, s) = (fold (scan_key keys table r) cs ws, s)"
  using assms
proof (induction cs arbitrary: ws)
  case (Cons c cs)
  then have "scan_column read table r c (ws, s) = (scan_key keys table r c ws, s)"
    using next_column [of r s c] by (simp add: scan_column_def scan_key_def Let_def)
  with Cons show ?case by simp
qed simp

lemma scan_one_row:
  assumes "ready r s" "r < rows"
  shows "\<exists>t. fold (scan_column read table r) [0..<cols] (ws, select (of_nat r) s)
      = (fold (scan_key keys table r) [0..<cols] ws, t) \<and> ready (Suc r) t"
proof -
  obtain t where t: "read 0 (select (of_nat r) s) = (keys r 0, t)" "entered r t" using select [OF assms] first assms(2) by blast
  have e: "scan_column read table r 0 (ws, select (of_nat r) s) = (scan_key keys table r 0 ws, t)"
    using used [OF assms(2)] t(1) by (simp add: scan_column_def scan_key_def Let_def)
  have "[0..<cols] = 0 # [1..<cols]" using columns by (simp add: upt_conv_Cons)
  then show ?thesis using e scan_columns [OF t(2) assms(2), of "[1..<cols]"] leave [OF t(2) assms(2)] by simp
qed

lemma scan:
  assumes "ready 0 s"
  shows "\<exists>t. scan_ports select read table rows cols n s = (scan_keys table rows cols n keys, t) \<and> ready 0 t"
proof -
  have "\<exists>t. fold (\<lambda>row (ws, s). fold (scan_column read table row) [0..<cols] (ws, select (of_nat row) s)) [0..<m] (ws, s)
      = (fold (\<lambda>row. fold (scan_key keys table row) [0..<cols]) [0..<m] ws, t) \<and> ready m t" if "m \<le> rows" for m ws
    using that
  proof (induction m)
    case 0 then show ?case using assms by simp
  next
    case (Suc m)
    then obtain t where t: "fold (\<lambda>row (ws, s). fold (scan_column read table row) [0..<cols] (ws, select (of_nat row) s)) [0..<m] (ws, s)
      = (fold (\<lambda>row. fold (scan_key keys table row) [0..<cols]) [0..<m] ws, t)" "ready m t" by auto
    show ?case using scan_one_row [OF t(2)] Suc.prems t(1) by simp
  qed
  from this [of rows] wrap show ?thesis by (fastforce simp: scan_ports_def scan_keys_def)
qed

end

text \<open>The state the set-up and every scan leave: the wires at rest and the low line run out of the left hand.\<close>

definition hand_rested :: "('h \<Rightarrow> wire \<Rightarrow> bool) \<Rightarrow> ('h \<Rightarrow> bool list) \<Rightarrow> 'h \<Rightarrow> bool" where
  "hand_rested level lines h \<longleftrightarrow> level h = at_rest \<and> (\<exists>k \<ge> 7. lines h = one_low k)"

subsection \<open>A board with two hands\<close>

text \<open>
  What the boards of this family have in common: the left hand has its first \<open>half\<close> lines wired and \<open>n\<close> keys on
  each, the right hand as many; \<open>keys r c\<close> says what is held. The state has a row, a register and the wires, which
  do not interfere.
\<close>

locale two_hands = left_wires set_wire iData level lines shifted "rows_read half n keys"
  for set_wire :: "wire \<Rightarrow> bool \<Rightarrow> 's \<Rightarrow> 's" and iData level lines shifted and half n :: nat and keys :: "nat \<Rightarrow> nat \<Rightarrow> bool" +
  fixes row reg :: "'s \<Rightarrow> u8" and set_row set_reg :: "u8 \<Rightarrow> 's \<Rightarrow> 's"
    and right_selected :: "nat \<Rightarrow> 's \<Rightarrow> bool" and select_right :: "u8 \<Rightarrow> 's \<Rightarrow> 's"
    and select :: "u8 \<Rightarrow> 's \<Rightarrow> 's" and read :: "u8 \<Rightarrow> 's \<Rightarrow> bool \<times> 's" and table :: "logical_keycode list list"
  assumes half: "7 \<le> half" "half \<le> 8" and n: "0 < n" "n \<le> 8"
    and row: "row (set_wire w b s) = row s" "row (set_reg v s) = row s" "row (set_row r s) = r" and reg: "reg (set_reg v s) = v"
    and level_frame: "level (set_row r s) = level s" "level (set_reg r s) = level s" "level (select_right r s) = level s"
    and lines_frame: "lines (set_row r s) = lines s" "lines (set_reg r s) = lines s" "lines (select_right r s) = lines s"
    and shifted_frame: "shifted (set_row r s) = shifted s" and right_frame: "right_selected k (set_row r s) = right_selected k s"
    and right: "k < half \<Longrightarrow> right_selected k (select_right (of_nat (half + k)) s)"
    and select: "select r s = set_row r (if unat r < half then select_left set_wire r s else select_right r s)"
    and read_left: "unat (row s) < half \<Longrightarrow> read c s =
      (let s = (if c = 0 then let (v, s) = shift_in set_wire iData (n - 1) (if iData s then 1 else 0) s in set_reg v s else s)
       in (push_bit (unat c) 1 AND reg s = 0, s))"
    and right_column_read: "row s = of_nat (half + k) \<Longrightarrow> right_selected k s \<Longrightarrow> k < half \<Longrightarrow> j < n \<Longrightarrow> read (of_nat j) s = (keys (half + k) j, s)"
    and used: "j < 2 * half \<Longrightarrow> table ! j ! 0 \<noteq> NO_KEY"
begin

definition ready :: "nat \<Rightarrow> 's \<Rightarrow> bool" where
  "ready r s \<longleftrightarrow> (if r < half then ready_left r s else resting half s)"

definition selected :: "nat \<Rightarrow> 's \<Rightarrow> bool" where
  "selected r s \<longleftrightarrow> row s = of_nat r \<and>
     (if r < half then resting (Suc r) s \<and> shifted s = map (\<lambda>i. \<not> keys r (n - 1 - i)) [0..<n]
      else resting half s \<and> right_selected (r - half) s)"

definition entered :: "nat \<Rightarrow> 's \<Rightarrow> bool" where
  "entered r s \<longleftrightarrow> row s = of_nat r \<and>
     (if r < half then resting (Suc r) s \<and> (\<forall>c < n. bit (reg s) c \<longleftrightarrow> \<not> keys r c)
      else resting half s \<and> right_selected (r - half) s)"

lemma resting_frame [simp]:
  "resting k (set_row r s) = resting k s" "resting k (set_reg v s) = resting k s" "resting k (select_right r s) = resting k s"
  by (simp_all add: resting_def level_frame lines_frame)

lemma row_number: "r < 2 * half \<Longrightarrow> unat (of_nat r :: u8) = r"
  using half by (intro u8_of_nat) simp

lemma select_row:
  assumes "ready r s" "r < 2 * half"
  shows "selected r (select (of_nat r) s)"
proof (cases "r < half")
  case True
  then show ?thesis
    using assms half select_left_row [of r s] rows_read_one_low [of r half n keys]
    by (simp add: ready_def selected_def select row_number row shifted_frame)
next
  case False
  then have "right_selected (r - half) (select_right (of_nat r) s)" using right [of "r - half" s] assms(2) by simp
  then show ?thesis using False assms by (simp add: ready_def selected_def select row_number row right_frame)
qed

lemma read_entered_right:
  assumes "entered r s" "\<not> r < half" "r < 2 * half" "c < n"
  shows "read (of_nat c) s = (keys r c, s)"
  using right_column_read [of s "r - half" c] assms by (simp add: entered_def)

lemma read_first:
  assumes "selected r s" "r < 2 * half"
  shows "\<exists>t. read 0 s = (keys r 0, t) \<and> entered r t"
proof (cases "r < half")
  case True
  then have s: "resting (Suc r) s" "shifted s = map (\<lambda>i. \<not> keys r (n - 1 - i)) [0..<n]" "row s = of_nat r"
    using assms(1) by (simp_all add: selected_def)
  obtain v t where t: "shift_in set_wire iData (n - 1) (if iData s then 1 else 0) s = (v, t)"
    "resting (Suc r) t" "\<forall>c < n. bit v c \<longleftrightarrow> \<not> keys r c"
    using collect_row [OF s(1,2) n] by blast
  have "read 0 s = (keys r 0, set_reg v t)"
    using read_left [of s 0] True t(1,3) n and_bit_eq_0 [of v 0] s(3) row_number [OF assms(2)] by (simp add: reg and.commute)
  moreover have "row t = row s" using shift_in_frame [of row set_wire] t(1) row(1) by (metis snd_conv)
  then have "entered r (set_reg v t)" using t(2,3) s(3) True by (simp add: entered_def row reg)
  ultimately show ?thesis by blast
next
  case False
  then have "entered r s" using assms(1) by (simp add: selected_def entered_def)
  then show ?thesis using read_entered_right [of r s 0] False assms(2) n by simp
qed

lemma read_next:
  assumes "entered r s" "r < 2 * half" "0 < c" "c < n"
  shows "read (of_nat c) s = (keys r c, s)"
proof (cases "r < half")
  case True
  have "c < 256" using assms(4) n by simp
  then have "unat (of_nat c :: u8) = c" "(of_nat c :: u8) \<noteq> 0" using u8_of_nat u8_of_nat_0 assms(3) by auto
  then show ?thesis
    using assms True and_bit_eq_0 [of "reg s" c] read_left [of s "of_nat c"] row_number
    by (simp add: entered_def and.commute)
qed (use assms read_entered_right in simp)

end

sublocale two_hands \<subseteq> scan: matrix_driver select read table "2 * half" n keys ready selected entered
proof
  show "ready (Suc r) s" if "entered r s" "r < 2 * half" for r s
    using that half by (cases "Suc r = half") (auto simp: ready_def entered_def ready_left_def)
  show "ready 0 s" if "ready (2 * half) s" for s using that half by (auto simp: ready_def ready_left_def)
qed (use select_row read_first read_next used n in auto)

context two_hands begin

lemma ready_first: "ready 0 s \<longleftrightarrow> hand_rested level lines s"
  using half by (auto simp: ready_def ready_left_def resting_def hand_rested_def)

lemma scan_finds:
  "hand_rested level lines s \<Longrightarrow>
   \<exists>t. scan_ports select read table (2 * half) n m s = (scan_keys table (2 * half) n m keys, t) \<and> hand_rested level lines t"
  using scan.scan [of s m] by (simp add: ready_first)

end

subsection \<open>The ports of the XMEGA boards\<close>

text \<open>A write to the port sets a wire.\<close>

locale katy_left = hand: left_wires "hand_wire dev" "hand_iData dev" level lines shifted "rows_read half n keys"
  for dev :: "'h hand_ops" and level lines shifted and half n :: nat and keys :: "nat \<Rightarrow> nat \<Rightarrow> bool"

sublocale katy_left \<subseteq> port: left_wires "PORTC_wire dev" "PORTC_iData dev" "\<lambda>s. level (left_hand s)" "\<lambda>s. lines (left_hand s)"
    "\<lambda>s. shifted (left_hand s)" "rows_read half n keys"
  by unfold_locales (simp_all add: PORTC_wire_def PORTC_iData_def hand.level hand.lines hand.shifted hand.iData)

definition right_selected :: "nat \<Rightarrow> 'h katy_state \<Rightarrow> bool" where
  "right_selected k s \<longleftrightarrow> PORTA_DIR s = push_bit k 1 \<and> \<not> bit (PORTA_OUT s) k"

lemma not_ff: "NOT (0xFF :: u8) = 0"
  by (simp add: not_eq_complement)

lemma line_is_low: "half \<le> 8 \<Longrightarrow> k < half \<Longrightarrow> right_selected k (select_right half (of_nat (half + k)) s)"
proof -
  assume k: "half \<le> 8" "k < half"
  then have "unat (of_nat (half + k) :: u8) = half + k" by (intro u8_of_nat) simp
  moreover have "PORTA_DIR s AND NOT 0xFF = 0" unfolding not_ff by simp
  ultimately show ?thesis using k by (simp add: right_selected_def select_right_def Let_def bit_simps)
qed

lemma drop_bit_one: "drop_bit i x AND 1 = 0 \<longleftrightarrow> \<not> bit (x :: u8) i"
  by (simp add: bit_iff_odd_drop_bit and_one_eq odd_iff_mod_2_eq_one)

lemma wire_right_frame [simp]:
  "processing_row (PORTC_wire dev w b s) = processing_row s"
  "left_hand (select_right h r s) = left_hand s"
  "right_selected k (s\<lparr>processing_row := r\<rparr>) = right_selected k s"
  by (simp_all add: PORTC_wire_def select_right_def Let_def right_selected_def)

subsection \<open>The K84CS\<close>

text \<open>The right hand: with one of its lines low the inputs read the keys on it.\<close>

locale k84cs_keys = katy_left dev level lines shifted 7 6 keys
  for dev :: "'h hand_ops" and level lines shifted keys +
  fixes pins :: right_pins
  assumes portd: "k < 7 \<Longrightarrow> c < 5 \<Longrightarrow> \<not> bit out k \<Longrightarrow> bit (portd pins (push_bit k 1) out) c \<longleftrightarrow> \<not> keys (7 + k) c"
    and portb: "k < 7 \<Longrightarrow> \<not> bit out k \<Longrightarrow> bit (portb pins (push_bit k 1) out) 2 \<longleftrightarrow> \<not> keys (7 + k) 5"
begin

lemma right_column_read:
  assumes "processing_row s = of_nat (7 + k)" "right_selected k s" "k < 7" "c < 6"
  shows "matrix_read_column dev pins (of_nat c) s = (keys (7 + k) c, s)"
proof -
  have r: "unat (processing_row s) = 7 + k" using assms(1,3) u8_of_nat [of "7 + k"] by simp
  have c: "unat (of_nat c :: u8) = c" using assms by (intro u8_of_nat) simp
  then have w: "(4 :: u8) < of_nat c \<longleftrightarrow> 4 < c" by (simp add: word_less_nat_alt)
  show ?thesis
    using assms(2-4) drop_bit_one portd [of k c "PORTA_OUT s"] portb [of k "PORTA_OUT s"]
    by (cases "c = 5") (simp_all add: matrix_read_column_def Let_def w c r right_selected_def MATRIX_ROWS_def)
qed

end

lemma k84cs_uses_first: "r < 14 \<Longrightarrow> matrix_to_logical_map ! r ! 0 \<noteq> NO_KEY"
proof -
  have "list_all (\<lambda>r. matrix_to_logical_map ! r ! 0 \<noteq> NO_KEY) [0..<14]" by code_simp
  then show "r < 14 \<Longrightarrow> matrix_to_logical_map ! r ! 0 \<noteq> NO_KEY" by (simp add: list_all_iff)
qed

sublocale k84cs_keys \<subseteq> board: two_hands "PORTC_wire dev" "PORTC_iData dev" "\<lambda>s. level (left_hand s)" "\<lambda>s. lines (left_hand s)"
    "\<lambda>s. shifted (left_hand s)" 7 6 keys processing_row register_165_state
    "\<lambda>r s. s\<lparr>processing_row := r\<rparr>" "\<lambda>v s. s\<lparr>register_165_state := v\<rparr>" right_selected "select_right 7"
    "matrix_select_row dev" "matrix_read_column dev pins" matrix_to_logical_map
proof (unfold_locales)
  show "right_selected k (select_right 7 (of_nat (7 + k)) s)" if "k < 7" for k and s :: "'a katy_state"
    using line_is_low [of 7 k s] that by simp
qed (use right_column_read k84cs_uses_first in \<open>auto simp: matrix_select_row_def matrix_read_column_def read_left_def MATRIX_ROWS_def
  split: prod.splits\<close>)

subsection \<open>A pair of registers\<close>

record shift_chips =
  chip_level :: "wire \<Rightarrow> bool"
  chip_lines :: "bool list"
  chip_shifted :: "bool list"

definition chip_wire :: "nat \<Rightarrow> nat \<Rightarrow> (nat \<Rightarrow> nat \<Rightarrow> bool) \<Rightarrow> wire \<Rightarrow> bool \<Rightarrow> shift_chips \<Rightarrow> shift_chips" where
  "chip_wire half n keys w b c =
     (let level' = (chip_level c)(w := b);
          lines' = (if w = CLK0 \<and> b \<and> \<not> chip_level c CLK0 then chip_level c oLoad # butlast (chip_lines c) else chip_lines c)
      in \<lparr>chip_level = level', chip_lines = lines',
          chip_shifted = (if \<not> level' oLoad then rows_read half n keys lines'
            else if w = CLK1 \<and> b \<and> \<not> chip_level c CLK1 then tl (chip_shifted c) else chip_shifted c)\<rparr>)"

definition chip_ops :: "nat \<Rightarrow> nat \<Rightarrow> (nat \<Rightarrow> nat \<Rightarrow> bool) \<Rightarrow> shift_chips hand_ops" where
  "chip_ops half n keys = \<lparr>hand_wire = chip_wire half n keys, hand_iData = (\<lambda>c. chip_shifted c = [] \<or> hd (chip_shifted c))\<rparr>"

lemma chip_registers: "left_wires (hand_wire (chip_ops half n keys)) (hand_iData (chip_ops half n keys)) chip_level chip_lines chip_shifted (rows_read half n keys)"
  by unfold_locales (auto simp: chip_ops_def chip_wire_def Let_def)

text \<open>Inputs that a held key on a low line pulls down; input \<open>c\<close> of a port carries column \<open>from c\<close>.\<close>

definition pulled_pins :: "nat \<Rightarrow> (nat \<Rightarrow> nat \<Rightarrow> bool) \<Rightarrow> (nat \<Rightarrow> nat) \<Rightarrow> u8 \<Rightarrow> u8 \<Rightarrow> u8" where
  "pulled_pins half keys column dir out =
     horner_sum of_bool 2 (map (\<lambda>c. \<not> (\<exists>k < half. bit dir k \<and> \<not> bit out k \<and> keys (half + k) (column c))) [0..<8])"

lemma bit_pulled_pins:
  "k < half \<Longrightarrow> half \<le> 8 \<Longrightarrow> c < 8 \<Longrightarrow> \<not> bit out k \<Longrightarrow>
   bit (pulled_pins half keys column (push_bit k 1) out) c \<longleftrightarrow> \<not> keys (half + k) (column c)"
  by (auto simp: pulled_pins_def bit_horner_sum_bit_word_iff bit_simps)

definition chip_pins :: "(nat \<Rightarrow> nat \<Rightarrow> bool) \<Rightarrow> right_pins" where
  "chip_pins keys = \<lparr>portb = pulled_pins 7 keys (\<lambda>c. 5), portd = pulled_pins 7 keys (\<lambda>c. c)\<rparr>"

interpretation chips: k84cs_keys "chip_ops 7 6 keys" chip_level chip_lines chip_shifted keys "chip_pins keys" for keys
  by (intro k84cs_keys.intro katy_left.intro k84cs_keys_axioms.intro chip_registers)
    (simp_all add: chip_pins_def bit_pulled_pins del: push_bit_of_1)

subsection \<open>The scan finds the keys\<close>

context katy_left begin

lemma init_rested:
  assumes "length (lines (left_hand s)) = 8"
  shows "hand_rested level lines (left_hand (ports_init_matrix dev s))"
proof -
  have "port.resting 8 (ports_init_matrix dev s)"
    unfolding ports_init_matrix_def Let_def
    by (rule port.clear_left_rests) (simp_all add: PORTC_wire_def hand.level hand.lines at_rest_iff assms)
  then show ?thesis by (auto simp: port.resting_def hand_rested_def intro: exI [of _ 8])
qed

end

context k84cs_keys begin

lemma scan_finds:
  assumes "hand_rested level lines (left_hand s)"
  shows "\<exists>t. scan_ports (matrix_select_row dev) (matrix_read_column dev pins) matrix_to_logical_map MATRIX_ROWS MATRIX_COLS BITFIELD_WORDS s
     = (scan_matrix keys, t) \<and> hand_rested level lines (left_hand t)"
  using board.scan_finds [of s BITFIELD_WORDS] assms
  by (simp add: hand_rested_def MATRIX_ROWS_def MATRIX_COLS_def flip: scan_keys_scan_matrix)

end

text \<open>
  C16: the scan of the K84CS finds the keys. After the set-up of the ports, or after any earlier scan, selecting
  the rows of the matrix one after the other and reading their columns, through the shift registers of the left
  hand and the pins of the right, yields the bitfield of exactly the keys that are held, and leaves the registers
  ready for the next scan. The registers are those of locale \<open>left_wires\<close>; an input of the right hand is low when
  the key on the line driven low is held.
\<close>

theorem k84cs_scan_reads_keys:
  assumes board: "k84cs_keys dev level lines shifted keys pins"
    and start: "hand_rested level lines (left_hand s) \<or>
      (\<exists>s0. length (lines (left_hand s0)) = 8 \<and> s = ports_init_matrix dev s0)"
  shows "\<exists>t. scan_ports (matrix_select_row dev) (matrix_read_column dev pins) matrix_to_logical_map MATRIX_ROWS MATRIX_COLS BITFIELD_WORDS s
      = (scan_matrix keys, t) \<and> hand_rested level lines (left_hand t)"
proof -
  have left: "katy_left dev level lines shifted 7 6 keys" using board by (simp add: k84cs_keys_def)
  have "hand_rested level lines (left_hand s)" using start katy_left.init_rested [OF left] by blast
  then show ?thesis by (rule k84cs_keys.scan_finds [OF board])
qed

definition cold_ports :: "shift_chips katy_state" where
  "cold_ports = \<lparr>PORTA_DIR = 0, PORTA_OUT = 0, PORTB_DIR = 0, PORTC_DIR = 0, PORTC_OUT = 0, PORTD_DIR = 0, processing_row = 0,
     register_165_state = 0, left_hand = \<lparr>chip_level = (\<lambda>w. False), chip_lines = replicate 8 False, chip_shifted = []\<rparr>\<rparr>"

theorem k84cs_scan_reads_keys_witness:
  "\<exists>t. scan_ports (matrix_select_row (chip_ops 7 6 (\<lambda>r c. r = 3 \<and> c = 2))) (matrix_read_column (chip_ops 7 6 (\<lambda>r c. r = 3 \<and> c = 2))
      (chip_pins (\<lambda>r c. r = 3 \<and> c = 2))) matrix_to_logical_map MATRIX_ROWS MATRIX_COLS BITFIELD_WORDS
      (ports_init_matrix (chip_ops 7 6 (\<lambda>r c. r = 3 \<and> c = 2)) cold_ports)
    = (scan_matrix (\<lambda>r c. r = 3 \<and> c = 2), t) \<and> hand_rested chip_level chip_lines (left_hand t)"
  by (rule k84cs_scan_reads_keys [OF chips.k84cs_keys_axioms], rule disjI2, rule exI [of _ cold_ports]) (simp add: cold_ports_def)

end
