(* ===== verification/OtherBoards.thy ===== *)
theory OtherBoards
  imports Hardware Twi
begin

text \<open>
  The boards with an AVR controller: \<open>hardware/ergodox.c\<close>, \<open>hardware/kinesis.c\<close> and
  \<open>hardware/kinesis110.c\<close>, each in place of \<open>k84cs.c\<close> in a build of its own. Their definitions carry the name
  of the board. The port registers of the controller are a record; the levels of the input pins are
  arguments. The left hand of the Ergodox sits behind an MCP23018 port expander on the two-wire bus, which the
  board reaches through the interface of \<open>twi.h\<close>. The port registers of the Kinesis that the lines of its
  memory share are set up here; the traffic on them is in \<open>Twi\<close>.
\<close>

record avr_ports =
  PORTA :: u8
  DDRA :: u8
  PORTB :: u8
  DDRB :: u8
  PORTC :: u8
  DDRC :: u8
  PORTD :: u8
  DDRD :: u8
  PORTF :: u8
  DDRF :: u8

section \<open>Ergodox\<close>

subsection \<open>Tables of the Ergodox\<close>

definition NUM_PHYSICAL_KEYS_ergodox :: nat where "NUM_PHYSICAL_KEYS_ergodox = 76"
definition MATRIX_COLS_ergodox :: nat where "MATRIX_COLS_ergodox = 12"
definition MATRIX_ROWS_ergodox :: nat where "MATRIX_ROWS_ergodox = 7"

definition matrix_to_logical_map_ergodox :: "logical_keycode list list" where
  "matrix_to_logical_map_ergodox =
    [[61, 62, NO_KEY, 63, NO_KEY, 70, 40, 41, 42, 43, 44, NO_KEY],
     [31, 24, 7, 13, NO_KEY, 71, 26, 16, 0, 25, 45, 67],
     [32, 20, 9, 12, 60, 72, 27, 22, 18, 23, 46, 69],
     [33, 8, 10, 37, 59, 75, 28, 4, 3, 2, 47, 68],
     [34, 14, 11, 38, 58, 74, 29, 17, 5, 21, 48, 66],
     [35, 15, 36, 39, 57, 73, 30, 19, 6, 1, NO_KEY, 65],
     [52, 53, 54, 55, 56, NO_KEY, 49, 50, NO_KEY, 51, NO_KEY, 64]]"

definition logical_to_hid_map_default_ergodox :: "hid_keycode list" where
  "logical_to_hid_map_default_ergodox =
    [0x04, 0x05, 0x06, 0x07, 0x08, 0x09, 0x0A, 0x0B, 0x0C, 0x0D, 0x0E, 0x0F, 0x10, 0x11, 0x12, 0x13,
     0x14, 0x15, 0x16, 0x17, 0x18, 0x19, 0x1A, 0x1B, 0x1C, 0x1D, 0x1E, 0x1F, 0x20, 0x21, 0x22, 0x23,
     0x24, 0x25, 0x26, 0x27, 0x33, 0x36, 0x37, 0x38, 0x2E, 0x2B, 0x39, 0xE1, 0xE3, 0x35, 0x64, 0x50,
     0x4F, 0xFA, 0xFB, 0xFF, 0x2D, 0x31, 0x34, 0xE5, 0xE7, 0x30, 0x2F, 0x51, 0x52, 0xFE, 0xFB, 0xFF,
     0xE2, 0xE0, 0x4A, 0x4D, 0x2A, 0x4C, 0xE6, 0xE4, 0x4B, 0x4E, 0x28, 0x2C]
    @ [0x04, 0x05, 0x06, 0xEE, 0xED, 0xF0, 0x0A, 0x0B, 0x60, 0x5C, 0x5D, 0x5E, 0x59, 0x11, 0x61, 0x56,
       0x14, 0x15, 0xEF, 0x17, 0x5F, 0x19, 0x1A, 0x1B, 0x1C, 0x1D, 0x1E, 0x1F, 0x20, 0x21, 0x22, 0x23,
       0x53, 0x2E, 0x54, 0x55, 0x33, 0x36, 0x37, 0x38, 0x2E, 0x2B, 0x39, 0xE1, 0xE3, 0x35, 0x64, 0x50,
       0x4F, 0xFA, 0xFB, 0xFF, 0x2D, 0x31, 0x34, 0xE5, 0xE7, 0x58, 0x63, 0x51, 0x52, 0xFE, 0xFB, 0xFF,
       0xE2, 0xEA, 0xEB, 0xEC, 0xE8, 0xE9, 0xE6, 0xE4, 0x4B, 0x4E, 0x28, 0x2C]"

subsection \<open>Pins and registers of the Ergodox\<close>

definition RIGHT_MATRIX_IN_MASK :: u8 where "RIGHT_MATRIX_IN_MASK = 0xF3"
definition RIGHT_MATRIX_OUT_1_MASK :: u8 where "RIGHT_MATRIX_OUT_1_MASK = 0x0F"
definition RIGHT_MATRIX_OUT_2_MASK :: u8 where "RIGHT_MATRIX_OUT_2_MASK = 0x0C"
definition RIGHT_MATRIX_OUT_2_START :: u8 where "RIGHT_MATRIX_OUT_2_START = 0x04"
definition RIGHT_MATRIX_OUT_3_MASK :: u8 where "RIGHT_MATRIX_OUT_3_MASK = 0x40"
definition LED_CAPS_ergodox :: u8 where "LED_CAPS_ergodox = 0x20"
definition LED_NUMLOCK_ergodox :: u8 where "LED_NUMLOCK_ergodox = 0x40"
definition LED_KEYPAD_ergodox :: u8 where "LED_KEYPAD_ergodox = 0x80"
definition ALL_LEDS_ergodox :: u8 where "ALL_LEDS_ergodox = LED_CAPS_ergodox OR LED_NUMLOCK_ergodox OR LED_KEYPAD_ergodox"
definition MCP23018_ADDR :: u8 where "MCP23018_ADDR = 0x40"
definition MCP23018_WRITE :: u8 where "MCP23018_WRITE = 0"
definition MCP23018_READ :: u8 where "MCP23018_READ = 1"
definition MCP23018_IODIRA :: u8 where "MCP23018_IODIRA = 0x00"
definition MCP23018_GPPUB :: u8 where "MCP23018_GPPUB = 0x0D"
definition MCP23018_GPIOA :: u8 where "MCP23018_GPIOA = 0x12"
definition MCP23018_GPIOB :: u8 where "MCP23018_GPIOB = 0x13"
definition MCP23018_OLATA :: u8 where "MCP23018_OLATA = 0x14"

record 'c ergodox_state = avr_ports +
  bus :: 'c
  cached_mcp_columns :: u8

subsection \<open>The port expander\<close>

text \<open>
  One of the three blocks of \<open>init_mcp23018\<close>: a register is written unless the chip does not answer, in
  which case the rest of the function is skipped.
\<close>

definition mcp23018_set :: "'c twi_port \<Rightarrow> u8 \<Rightarrow> u8 \<Rightarrow> 'c \<Rightarrow> (bool \<times> 'c) option" where
  "mcp23018_set port r v c = do {
     c \<leftarrow> port_start port c;
     (a, c) \<leftarrow> port_write_byte port (MCP23018_ADDR OR MCP23018_WRITE) c;
     if a \<noteq> ACK then Some (False, c)
     else do {
       (_, c) \<leftarrow> port_write_byte port r c;
       (_, c) \<leftarrow> port_write_byte port v c;
       c \<leftarrow> port_stop port WAIT c;
       Some (True, c) } }"

definition init_mcp23018 :: "'c twi_port \<Rightarrow> 'c \<Rightarrow> (u8 \<times> 'c) option" where
  "init_mcp23018 port c = do {
     (ok, c) \<leftarrow> mcp23018_set port MCP23018_IODIRA 0x80 c;
     (ok, c) \<leftarrow> (if ok then mcp23018_set port MCP23018_GPPUB 0x3F c else Some (False, c));
     (ok, c) \<leftarrow> (if ok then mcp23018_set port MCP23018_OLATA 0x7F c else Some (False, c));
     if ok then Some (1, c) else do { c \<leftarrow> port_stop port NOWAIT c; Some (0, c) } }"

text \<open>The left hand of \<open>matrix_select_row\<close>: write the row, then read the columns; \<open>None\<close> for the error exit.\<close>

definition mcp23018_read_row :: "'c twi_port \<Rightarrow> u8 \<Rightarrow> 'c \<Rightarrow> (u8 option \<times> 'c) option" where
  "mcp23018_read_row port matrix_row c = do {
     c \<leftarrow> port_start port c;
     (a, c) \<leftarrow> port_write_byte port (MCP23018_ADDR OR MCP23018_WRITE) c;
     if a \<noteq> ACK then do { c \<leftarrow> port_stop port NOWAIT c; Some (None, c) }
     else do {
       (_, c) \<leftarrow> port_write_byte port MCP23018_GPIOA c;
       (_, c) \<leftarrow> port_write_byte port (0xFF AND NOT (push_bit (unat matrix_row) 1)) c;
       c \<leftarrow> port_start port c;
       (a, c) \<leftarrow> port_write_byte port (MCP23018_ADDR OR MCP23018_READ) c;
       if a \<noteq> ACK then do { c \<leftarrow> port_stop port NOWAIT c; Some (None, c) }
       else do {
         (columns, c) \<leftarrow> port_read_byte port NACK c;
         c \<leftarrow> port_stop port WAIT c;
         Some (Some columns, c) } } }"

subsection \<open>Operations of the Ergodox\<close>

definition ports_init_ergodox :: "'h twi_unit \<Rightarrow> nat \<Rightarrow> 'h ergodox_state \<Rightarrow> 'h ergodox_state option" where
  "ports_init_ergodox u f_cpu s = do {
     let s = s\<lparr>DDRF := DDRF s AND NOT RIGHT_MATRIX_IN_MASK, PORTF := PORTF s OR RIGHT_MATRIX_IN_MASK\<rparr>;
     let s = s\<lparr>DDRB := DDRB s AND NOT RIGHT_MATRIX_OUT_1_MASK, PORTB := PORTB s AND NOT RIGHT_MATRIX_OUT_1_MASK\<rparr>;
     let s = s\<lparr>DDRD := DDRD s AND NOT RIGHT_MATRIX_OUT_2_MASK, PORTD := PORTD s AND NOT RIGHT_MATRIX_OUT_2_MASK\<rparr>;
     let s = s\<lparr>DDRC := DDRC s AND NOT RIGHT_MATRIX_OUT_3_MASK, PORTC := PORTC s AND NOT RIGHT_MATRIX_OUT_3_MASK\<rparr>;
     let s = s\<lparr>DDRB := DDRB s OR ALL_LEDS_ergodox, PORTB := PORTB s AND NOT ALL_LEDS_ergodox\<rparr>;
     let s = s\<lparr>bus := set_TWCR u TWEN (twi_init_hw u f_cpu (bus s))\<rparr>;
     let s = s\<lparr>DDRD := DDRD s OR 0x40, PORTD := PORTD s AND NOT 0x40\<rparr>;
     (_, c) \<leftarrow> init_mcp23018 (hardware_port u) (bus s);
     Some (s\<lparr>bus := c\<rparr>) }"

definition matrix_select_right :: "u8 \<Rightarrow> 'c ergodox_state \<Rightarrow> 'c ergodox_state" where
  "matrix_select_right matrix_row s =
     (let s = s\<lparr>DDRB := DDRB s AND NOT RIGHT_MATRIX_OUT_1_MASK, DDRD := DDRD s AND NOT RIGHT_MATRIX_OUT_2_MASK,
                DDRC := DDRC s AND NOT RIGHT_MATRIX_OUT_3_MASK\<rparr>
      in if matrix_row < 4 then s\<lparr>DDRB := DDRB s OR push_bit (unat matrix_row) 1\<rparr>
         else if matrix_row < 6 then s\<lparr>DDRD := DDRD s OR push_bit (unat (matrix_row - 4)) RIGHT_MATRIX_OUT_2_START\<rparr>
         else if matrix_row = 6 then s\<lparr>DDRC := DDRC s OR RIGHT_MATRIX_OUT_3_MASK\<rparr>
         else s)"

text \<open>The chip is set up again with every scan: it may have been unplugged.\<close>

definition mcp23018_reinit :: "'c twi_port \<Rightarrow> u8 \<Rightarrow> 'c \<Rightarrow> 'c option" where
  "mcp23018_reinit port matrix_row c =
     (if matrix_row = 0 then do { (_, c) \<leftarrow> init_mcp23018 port c; Some c } else Some c)"

definition matrix_select_row_ergodox :: "'c twi_port \<Rightarrow> u8 \<Rightarrow> 'c ergodox_state \<Rightarrow> 'c ergodox_state option" where
  "matrix_select_row_ergodox port matrix_row s = do {
     let s = matrix_select_right matrix_row s;
     c \<leftarrow> mcp23018_reinit port matrix_row (bus s);
     (columns, c) \<leftarrow> mcp23018_read_row port matrix_row c;
     Some (case columns of Some v \<Rightarrow> s\<lparr>bus := c, cached_mcp_columns := v\<rparr> | None \<Rightarrow> s\<lparr>bus := c\<rparr>) }"

text \<open>\<open>pinf\<close> is the level of the pins of port F.\<close>

definition matrix_read_column_ergodox :: "u8 \<Rightarrow> u8 \<Rightarrow> 'c ergodox_state \<Rightarrow> bool" where
  "matrix_read_column_ergodox pinf matrix_column s =
     (if matrix_column < 6
      then let shift = (if matrix_column > 1 then matrix_column + 2 else matrix_column) in pinf AND push_bit (unat shift) 1 = 0
      else let shift = matrix_column - 6 in cached_mcp_columns s AND push_bit (unat shift) 1 = 0)"

definition set_all_leds_ergodox :: "u8 \<Rightarrow> 'c ergodox_state \<Rightarrow> 'c ergodox_state" where
  "set_all_leds_ergodox led_mask s =
     (let led_mask = led_mask AND ALL_LEDS_ergodox in s\<lparr>PORTB := (DDRB s AND NOT ALL_LEDS_ergodox) OR led_mask\<rparr>)"

definition test_leds_ergodox :: "'c ergodox_state \<Rightarrow> 'c ergodox_state" where
  "test_leds_ergodox s =
     fold (\<lambda>i. fold set_all_leds_ergodox [0, LED_CAPS_ergodox, LED_NUMLOCK_ergodox, LED_KEYPAD_ergodox]) [0 ..< 10 :: nat] s"

section \<open>Kinesis\<close>

subsection \<open>Tables of the Kinesis\<close>

definition NUM_PHYSICAL_KEYS_kinesis :: nat where "NUM_PHYSICAL_KEYS_kinesis = 86"
definition MATRIX_COLS_kinesis :: nat where "MATRIX_COLS_kinesis = 10"
definition MATRIX_ROWS_kinesis :: nat where "MATRIX_ROWS_kinesis = 16"

definition matrix_to_logical_map_kinesis :: "logical_keycode list list" where
  "matrix_to_logical_map_kinesis =
    [[1, 0, 43, 40, 52, 46, 49, 66, NO_KEY, NO_KEY],
     [NO_KEY, NO_KEY, 45, 42, 39, 48, 61, NO_KEY, NO_KEY, NO_KEY],
     [NO_KEY, NO_KEY, 44, 41, 38, 47, 62, NO_KEY, NO_KEY, NO_KEY],
     [NO_KEY, NO_KEY, 32, 21, 8, 3, 58, 71, 72, NO_KEY],
     [NO_KEY, NO_KEY, 31, 19, 7, 23, NO_KEY, NO_KEY, 69, 78],
     [NO_KEY, NO_KEY, 30, 6, 5, 4, 57, 68, 70, NO_KEY],
     [NO_KEY, NO_KEY, 29, 24, 20, 25, 63, NO_KEY, 79, 75],
     [NO_KEY, NO_KEY, 28, 18, 2, 27, 64, 67, 76, NO_KEY],
     [NO_KEY, NO_KEY, 50, 51, 53, 54, NO_KEY, NO_KEY, 77, 74],
     [NO_KEY, NO_KEY, NO_KEY, NO_KEY, NO_KEY, 55, 33, 26, 9, 15],
     [NO_KEY, NO_KEY, NO_KEY, NO_KEY, NO_KEY, NO_KEY, 34, 22, 11, 14],
     [NO_KEY, NO_KEY, NO_KEY, NO_KEY, NO_KEY, 56, 35, 10, 12, 82],
     [NO_KEY, NO_KEY, NO_KEY, NO_KEY, NO_KEY, NO_KEY, NO_KEY, NO_KEY, NO_KEY, NO_KEY],
     [NO_KEY, NO_KEY, NO_KEY, NO_KEY, NO_KEY, 59, 36, 16, 13, 83],
     [NO_KEY, NO_KEY, NO_KEY, NO_KEY, NO_KEY, 60, 37, 17, 80, 84],
     [NO_KEY, NO_KEY, NO_KEY, NO_KEY, NO_KEY, NO_KEY, 65, 73, 81, 85]]"

definition logical_to_hid_map_default_kinesis :: "hid_keycode list" where
  "logical_to_hid_map_default_kinesis =
    [0xFE, 0xFA, 0x04, 0x05, 0x06, 0x07, 0x08, 0x09, 0x0A, 0x0B, 0x0C, 0x0D, 0x0E, 0x0F, 0x10, 0x11,
     0x12, 0x13, 0x14, 0x15, 0x16, 0x17, 0x18, 0x19, 0x1A, 0x1B, 0x1C, 0x1D, 0x1E, 0x1F, 0x20, 0x21,
     0x22, 0x23, 0x24, 0x25, 0x26, 0x27, 0x3A, 0x3B, 0x3C, 0x3D, 0x3E, 0x3F, 0x40, 0x41, 0x42, 0x43,
     0x44, 0x45, 0x2E, 0x2B, 0x29, 0x39, 0xE1, 0x52, 0x51, 0x50, 0x4F, 0x2F, 0x30, 0x47, 0x46, 0x64,
     0x35, 0x2D, 0x48, 0x4D, 0x4A, 0x4C, 0x2A, 0xE2, 0xE0, 0x31, 0x4E, 0x4B, 0x28, 0x2C, 0xE6, 0xE4,
     0x33, 0x34, 0x36, 0x37, 0x38, 0xE5]
    @ [0xFE, 0xFA, 0x04, 0x05, 0x06, 0xEE, 0xED, 0xF0, 0x0A, 0x0B, 0x60, 0x5C, 0x5D, 0x5E, 0x59, 0x11,
       0x61, 0x56, 0x14, 0x15, 0xEF, 0x17, 0x5F, 0x19, 0x1A, 0x1B, 0x1C, 0x1D, 0x1E, 0x1F, 0x20, 0x21,
       0x22, 0x23, 0x53, 0x2E, 0x54, 0x55, 0x3A, 0x3B, 0x3C, 0x3D, 0x3E, 0x3F, 0x40, 0x41, 0x42, 0x43,
       0x44, 0x45, 0x2E, 0x2B, 0x29, 0xFF, 0xE1, 0x52, 0x51, 0x50, 0x4F, 0x63, 0x58, 0xE7, 0xE3, 0x49,
       0x35, 0x2D, 0x65, 0xEC, 0xEB, 0xE9, 0xE8, 0xE2, 0xEA, 0x31, 0x4E, 0x4B, 0x28, 0x62, 0xE6, 0xE4,
       0x57, 0x34, 0x5A, 0x5B, 0x58, 0xE5]"

subsection \<open>Pins of the Kinesis\<close>

text \<open>
  The header has two layouts, one for each controller the board is built with: the original one and the
  second version. The two keys wired directly have their pins on port D or port C.
\<close>

datatype kinesis_layout = ATmega16A | ATmega32

definition MATRIX_SELECT_A :: u8 where "MATRIX_SELECT_A = 1"
definition MATRIX_SELECT_B :: u8 where "MATRIX_SELECT_B = 2"
definition MATRIX_SELECT_C :: u8 where "MATRIX_SELECT_C = 4"
definition MATRIX_SELECT_P138SEL :: u8 where "MATRIX_SELECT_P138SEL = 8"
definition MATRIX_MASK :: u8 where "MATRIX_MASK = MATRIX_SELECT_A OR MATRIX_SELECT_B OR MATRIX_SELECT_C OR MATRIX_SELECT_P138SEL"

fun INPUT_PIN5 :: "kinesis_layout \<Rightarrow> u8" where
  "INPUT_PIN5 ATmega16A = 8"
| "INPUT_PIN5 ATmega32 = 8"

fun INPUT_PIN6 :: "kinesis_layout \<Rightarrow> u8" where
  "INPUT_PIN6 ATmega16A = 1"
| "INPUT_PIN6 ATmega32 = 4"

fun LED_CAPS_kinesis :: "kinesis_layout \<Rightarrow> u8" where
  "LED_CAPS_kinesis ATmega16A = 0x10"
| "LED_CAPS_kinesis ATmega32 = 0x08"

fun LED_NUMLOCK_kinesis :: "kinesis_layout \<Rightarrow> u8" where
  "LED_NUMLOCK_kinesis ATmega16A = 0x80"
| "LED_NUMLOCK_kinesis ATmega32 = 0x40"

fun LED_SCROLLLOCK_kinesis :: "kinesis_layout \<Rightarrow> u8" where
  "LED_SCROLLLOCK_kinesis ATmega16A = 0x40"
| "LED_SCROLLLOCK_kinesis ATmega32 = 0x20"

fun LED_KEYPAD_kinesis :: "kinesis_layout \<Rightarrow> u8" where
  "LED_KEYPAD_kinesis ATmega16A = 0x20"
| "LED_KEYPAD_kinesis ATmega32 = 0x10"

definition ALL_LEDS_kinesis :: "kinesis_layout \<Rightarrow> u8" where
  "ALL_LEDS_kinesis b = LED_CAPS_kinesis b OR LED_NUMLOCK_kinesis b OR LED_SCROLLLOCK_kinesis b OR LED_KEYPAD_kinesis b"

text \<open>The pin of the buzzer, on port D, of the second version; the original has none.\<close>

definition BUZZER_kinesis :: u8 where "BUZZER_kinesis = 0x80"

subsection \<open>Operations of the Kinesis\<close>

text \<open>\<open>twi_init\<close> is the last step: the lines driven by hand on the original board, the peripheral on the second version.\<close>

definition ports_init_kinesis :: "kinesis_layout \<Rightarrow> 'h twi_unit \<Rightarrow> nat \<Rightarrow> 'a avr_ports_scheme \<Rightarrow> 'h \<Rightarrow> 'a avr_ports_scheme \<times> 'h" where
  "ports_init_kinesis b u f_cpu s h =
     (let s = (case b of
            ATmega16A \<Rightarrow> s\<lparr>DDRD := DDRD s AND NOT (INPUT_PIN5 b), PORTD := PORTD s OR INPUT_PIN5 b\<rparr>
          | ATmega32 \<Rightarrow> s\<lparr>DDRC := DDRC s AND NOT (INPUT_PIN5 b), PORTC := PORTC s OR INPUT_PIN5 b\<rparr>);
          s = s\<lparr>DDRC := DDRC s AND NOT (INPUT_PIN6 b), PORTC := PORTC s OR INPUT_PIN6 b\<rparr>;
          s = s\<lparr>DDRA := DDRA s AND NOT 0xFF, PORTA := PORTA s OR 0xFF\<rparr>;
          s = s\<lparr>PORTB := PORTB s AND NOT MATRIX_MASK, DDRB := DDRB s OR MATRIX_MASK\<rparr>;
          s = s\<lparr>PORTD := PORTD s AND NOT (ALL_LEDS_kinesis b), DDRD := DDRD s AND NOT (ALL_LEDS_kinesis b)\<rparr>
      in case b of
           ATmega16A \<Rightarrow> (s\<lparr>PORTC := PORTC s AND NOT (EEPROM_SCL OR EEPROM_SDA), DDRC := DDRC s AND NOT (EEPROM_SCL OR EEPROM_SDA)\<rparr>, h)
         | ATmega32 \<Rightarrow> (s\<lparr>PORTD := PORTD s AND NOT BUZZER_kinesis, DDRD := DDRD s OR BUZZER_kinesis\<rparr>, twi_init_hw u f_cpu h))"

definition matrix_select_row_kinesis :: "u8 \<Rightarrow> 'a avr_ports_scheme \<Rightarrow> 'a avr_ports_scheme" where
  "matrix_select_row_kinesis matrix_row s =
     (let v = MATRIX_MASK;
          v = (if matrix_row AND 1 \<noteq> 0 then v AND NOT MATRIX_SELECT_A else v);
          v = (if matrix_row AND 2 \<noteq> 0 then v AND NOT MATRIX_SELECT_B else v);
          v = (if matrix_row AND 4 \<noteq> 0 then v AND NOT MATRIX_SELECT_C else v);
          v = (if matrix_row AND 8 \<noteq> 0 then v AND NOT MATRIX_SELECT_P138SEL else v)
      in s\<lparr>DDRB := (DDRB s AND NOT MATRIX_MASK) OR v\<rparr>)"

text \<open>The levels of the pins of ports A, C and D.\<close>

definition matrix_read_column_kinesis :: "kinesis_layout \<Rightarrow> u8 \<Rightarrow> u8 \<Rightarrow> u8 \<Rightarrow> u8 \<Rightarrow> bool" where
  "matrix_read_column_kinesis b pina pinc pind matrix_column =
     (if matrix_column = 0 then (case b of ATmega16A \<Rightarrow> pind | ATmega32 \<Rightarrow> pinc) AND INPUT_PIN5 b = 0
      else if matrix_column = 1 then pinc AND INPUT_PIN6 b = 0
      else let shift = matrix_column - 2 in pina AND push_bit (unat shift) 1 = 0)"

definition set_all_leds_kinesis :: "kinesis_layout \<Rightarrow> u8 \<Rightarrow> 'a avr_ports_scheme \<Rightarrow> 'a avr_ports_scheme" where
  "set_all_leds_kinesis b led_mask s =
     (let led_mask = led_mask AND ALL_LEDS_kinesis b in s\<lparr>DDRD := (DDRD s AND NOT (ALL_LEDS_kinesis b)) OR led_mask\<rparr>)"

definition test_leds_kinesis :: "kinesis_layout \<Rightarrow> 'a avr_ports_scheme \<Rightarrow> 'a avr_ports_scheme" where
  "test_leds_kinesis b s =
     fold (\<lambda>i. fold (set_all_leds_kinesis b)
       [0, LED_CAPS_kinesis b, LED_NUMLOCK_kinesis b, LED_SCROLLLOCK_kinesis b, LED_KEYPAD_kinesis b]) [0 ..< 10 :: nat] s"

section \<open>Kinesis 110\<close>

subsection \<open>Tables of the Kinesis 110\<close>

definition MATRIX_COLS_kinesis110 :: nat where "MATRIX_COLS_kinesis110 = 8"
definition MATRIX_ROWS_kinesis110 :: nat where "MATRIX_ROWS_kinesis110 = 13"

definition matrix_to_logical_map_kinesis110 :: "logical_keycode list list" where
  "matrix_to_logical_map_kinesis110 =
    [[52, 44, 45, 24, 29, 50, 51, 53],
     [38, 43, 42, 20, 25, 28, 18, 54],
     [39, 40, 41, NO_KEY, 63, 2, 27, 64],
     [32, 3, 19, 31, 57, 4, 5, NO_KEY],
     [21, 8, 7, 23, 58, 30, 6, NO_KEY],
     [NO_KEY, NO_KEY, NO_KEY, 79, 75, 72, 67, NO_KEY],
     [NO_KEY, NO_KEY, NO_KEY, 76, 78, 70, 71, NO_KEY],
     [NO_KEY, NO_KEY, NO_KEY, 74, 77, 68, 69, NO_KEY],
     [26, 9, 11, 14, 55, 35, 10, NO_KEY],
     [33, 15, 22, 34, 56, 82, 12, NO_KEY],
     [46, 1, 0, NO_KEY, 59, 80, 84, 60],
     [47, 66, 61, 13, 83, 37, 17, 85],
     [48, 49, 62, 16, 36, 65, 73, 81]]"

definition logical_to_hid_map_default_kinesis110 :: "hid_keycode list" where
  "logical_to_hid_map_default_kinesis110 =
    [0xFE, 0xFA, 0x04, 0x05, 0x06, 0x07, 0x08, 0x09, 0x0A, 0x0B, 0x0C, 0x0D, 0x0E, 0x0F, 0x10, 0x11,
     0x12, 0x13, 0x14, 0x15, 0x16, 0x17, 0x18, 0x19, 0x1A, 0x1B, 0x1C, 0x1D, 0x1E, 0x1F, 0x20, 0x21,
     0x22, 0x23, 0x24, 0x25, 0x26, 0x27, 0x3A, 0x3B, 0x3C, 0x3D, 0x3E, 0x3F, 0x40, 0x41, 0x42, 0x43,
     0x44, 0x45, 0x2E, 0x2B, 0x29, 0x39, 0xE1, 0x52, 0x51, 0x50, 0x4F, 0x2F, 0x30, 0x47, 0x46, 0x64,
     0x35, 0x2D, 0x48, 0x4D, 0x4A, 0x4C, 0x2A, 0xE2, 0xE0, 0x31, 0x4E, 0x4B, 0x28, 0x2C, 0xE6, 0xE4,
     0x33, 0x34, 0x36, 0x37, 0x38, 0xE5]
    @ [0xFE, 0xFA, 0x04, 0x05, 0x06, 0xEE, 0xED, 0xF0, 0x0A, 0x0B, 0x60, 0x5C, 0x5D, 0x5E, 0x59, 0x11,
       0x61, 0x56, 0x14, 0x15, 0xEF, 0x17, 0x5F, 0x19, 0x1A, 0x1B, 0x1C, 0x1D, 0x1E, 0x1F, 0x20, 0x21,
       0x22, 0x23, 0x53, 0x2E, 0x54, 0x55, 0x3A, 0x3B, 0x3C, 0x3D, 0x3E, 0x3F, 0x40, 0x41, 0x42, 0x43,
       0x44, 0x45, 0x2E, 0x2B, 0x29, 0xFF, 0xE1, 0x52, 0x51, 0x50, 0x4F, 0x63, 0x58, 0xE7, 0xE3, 0x49,
       0x35, 0x2D, 0x65, 0xEC, 0xEB, 0xE9, 0xE8, 0xE2, 0xEA, 0x31, 0x4E, 0x4B, 0x28, 0x62, 0xE6, 0xE4,
       0x57, 0x34, 0x5A, 0x5B, 0x58, 0xE5]"

subsection \<open>Operations of the Kinesis 110\<close>

text \<open>The selector has the same pins as on the Kinesis.\<close>

definition ALL_LEDS_kinesis110 :: u8 where "ALL_LEDS_kinesis110 = 0x40 OR 0x08 OR 0x10"
definition BUZZER_kinesis110 :: u8 where "BUZZER_kinesis110 = 0x80"

definition ports_init_kinesis110 :: "'h twi_unit \<Rightarrow> 'a avr_ports_scheme \<Rightarrow> 'h \<Rightarrow> 'a avr_ports_scheme \<times> 'h" where
  "ports_init_kinesis110 u s h =
     (let s = s\<lparr>DDRA := DDRA s AND NOT 0xFF, PORTA := PORTA s OR 0xFF\<rparr>;
          s = s\<lparr>PORTB := PORTB s AND NOT MATRIX_MASK, DDRB := DDRB s OR MATRIX_MASK\<rparr>;
          s = s\<lparr>PORTD := PORTD s AND NOT ALL_LEDS_kinesis110, DDRD := DDRD s AND NOT ALL_LEDS_kinesis110\<rparr>;
          s = s\<lparr>PORTD := PORTD s AND NOT BUZZER_kinesis110, DDRD := DDRD s OR BUZZER_kinesis110\<rparr>;
          h = set_TWSR u 0 h;
          h = set_TWBR u 72 h;
          h = set_TWCR u TWEN h
      in (s, h))"

definition matrix_select_row_kinesis110 :: "u8 \<Rightarrow> 'a avr_ports_scheme \<Rightarrow> 'a avr_ports_scheme" where
  "matrix_select_row_kinesis110 matrix_row s =
     (let v = 0;
          v = (if matrix_row AND 1 \<noteq> 0 then v OR MATRIX_SELECT_A else v);
          v = (if matrix_row AND 2 \<noteq> 0 then v OR MATRIX_SELECT_B else v);
          v = (if matrix_row AND 4 \<noteq> 0 then v OR MATRIX_SELECT_C else v);
          v = (if matrix_row AND 8 \<noteq> 0 then v OR MATRIX_SELECT_P138SEL else v)
      in s\<lparr>PORTB := (PORTB s AND NOT MATRIX_MASK) OR v\<rparr>)"

definition matrix_read_column_kinesis110 :: "u8 \<Rightarrow> u8 \<Rightarrow> bool" where
  "matrix_read_column_kinesis110 pina matrix_column \<longleftrightarrow> pina AND push_bit (unat matrix_column) 1 = 0"

definition set_all_leds_kinesis110 :: "u8 \<Rightarrow> 'a avr_ports_scheme \<Rightarrow> 'a avr_ports_scheme" where
  "set_all_leds_kinesis110 led_mask s =
     (let led_mask = led_mask AND ALL_LEDS_kinesis110 in s\<lparr>DDRD := (DDRD s AND NOT ALL_LEDS_kinesis110) OR led_mask\<rparr>)"

end
