(* ===== verification/OtherBoardsCorrect.thy ===== *)
theory OtherBoardsCorrect
  imports OtherBoards BusWaits
begin

text \<open>
  What the AVR boards promise the scanner: the tables name every key once, selecting a row drives the row and
  nothing else, and reading a column tells whether the key at that place is pressed. For the left hand of the
  Ergodox this rests on the port expander, locale \<open>mcp23018\<close>, at the other end of the two-wire bus, which has to
  finish a stop condition that is waited for, locale \<open>i2c_bus_wait\<close>.
\<close>

subsection \<open>Tables\<close>

definition consistent_tables :: "nat \<Rightarrow> nat \<Rightarrow> nat \<Rightarrow> logical_keycode list list \<Rightarrow> hid_keycode list \<Rightarrow> bool" where
  "consistent_tables n rows cols m d \<longleftrightarrow>
     sort (filter (\<lambda>k. k \<noteq> NO_KEY) (concat m)) = map of_nat [0..<n] \<and> length m = rows \<and> list_all (\<lambda>r. length r = cols) m
     \<and> length d = 2 * n
     \<and> list_all (\<lambda>i. SPECIAL_HID_KEY_NOREMAP (d ! i) \<or> SPECIAL_HID_KEY_NOREMAP (d ! (n + i)) \<longrightarrow> d ! (n + i) = d ! i) [0..<n]
     \<and> List.member (take n d) SPECIAL_HID_KEY_LAYER_LOCK \<and> List.member (take n d) SPECIAL_HID_KEY_PROGRAM"

text \<open>
  The tables of the AVR boards are consistent: in the matrix of each of them every physical key has exactly
  one place, every key has a default code on both layers, there are a layer lock and a program key, and the
  keys that cannot be remapped have the same code on the keypad layer, so that it can be left again.
\<close>

theorem avr_board_tables_consistent:
  "consistent_tables NUM_PHYSICAL_KEYS_ergodox MATRIX_ROWS_ergodox MATRIX_COLS_ergodox
     matrix_to_logical_map_ergodox logical_to_hid_map_default_ergodox
   \<and> consistent_tables NUM_PHYSICAL_KEYS_kinesis MATRIX_ROWS_kinesis MATRIX_COLS_kinesis
     matrix_to_logical_map_kinesis logical_to_hid_map_default_kinesis
   \<and> consistent_tables NUM_PHYSICAL_KEYS_kinesis MATRIX_ROWS_kinesis110 MATRIX_COLS_kinesis110
     matrix_to_logical_map_kinesis110 logical_to_hid_map_default_kinesis110"
  by (intro conjI; code_simp)

subsection \<open>Single bits\<close>

lemma below_7: "(k :: nat) < 7 \<Longrightarrow> k \<in> {0, 1, 2, 3, 4, 5, 6}" "(k :: nat) < 4 \<Longrightarrow> k \<in> {0, 1, 2, 3}"
    "(k :: nat) < 8 \<Longrightarrow> k \<in> {0, 1, 2, 3, 4, 5, 6, 7}"
  by auto

subsection \<open>Kinesis\<close>

text \<open>
  The level of a select line of the demultiplexers: on the Kinesis a pin with its port bit clear sinks current
  when it is an output and is pulled up from outside when it is an input; on the Kinesis 110 the pin is driven.
\<close>

definition select_line_kinesis :: "'a avr_ports_scheme \<Rightarrow> nat \<Rightarrow> bool" where
  "select_line_kinesis s k \<longleftrightarrow> \<not> bit (DDRB s) k"

lemma select_row_kinesis_bits:
  "k < 4 \<Longrightarrow> bit (DDRB (matrix_select_row_kinesis row s)) k \<longleftrightarrow> \<not> bit row k"
  "4 \<le> k \<Longrightarrow> k < 8 \<Longrightarrow> bit (DDRB (matrix_select_row_kinesis row s)) k \<longleftrightarrow> bit (DDRB s) k"
  "k < 4 \<Longrightarrow> bit (PORTB (matrix_select_row_kinesis110 row s)) k \<longleftrightarrow> bit row k"
  "4 \<le> k \<Longrightarrow> k < 8 \<Longrightarrow> bit (PORTB (matrix_select_row_kinesis110 row s)) k \<longleftrightarrow> bit (PORTB s) k"
proof -
  have b: "row AND 1 \<noteq> 0 \<longleftrightarrow> bit row 0" "row AND 2 \<noteq> 0 \<longleftrightarrow> bit row 1" "row AND 4 \<noteq> 0 \<longleftrightarrow> bit row 2" "row AND 8 \<noteq> 0 \<longleftrightarrow> bit row 3"
    using and_bit_eq_0 [of row 0] and_bit_eq_0 [of row 1] and_bit_eq_0 [of row 2] and_bit_eq_0 [of row 3] by simp_all
  note d = matrix_select_row_kinesis_def matrix_select_row_kinesis110_def MATRIX_MASK_def MATRIX_SELECT_A_def MATRIX_SELECT_B_def
    MATRIX_SELECT_C_def MATRIX_SELECT_P138SEL_def b Let_def
  show "bit (DDRB (matrix_select_row_kinesis row s)) k \<longleftrightarrow> \<not> bit row k" "bit (PORTB (matrix_select_row_kinesis110 row s)) k \<longleftrightarrow> bit row k"
    if "k < 4" for k using below_7(2) [OF that] by (elim insertE; simp add: d bit_simps)+
  show "bit (DDRB (matrix_select_row_kinesis row s)) k \<longleftrightarrow> bit (DDRB s) k" "bit (PORTB (matrix_select_row_kinesis110 row s)) k \<longleftrightarrow> bit (PORTB s) k"
    if "4 \<le> k" "k < 8" for k using below_7(3) [OF that(2)] that(1) by (elim insertE; simp add: d bit_simps)+
qed

subsection \<open>The right hand of the Ergodox\<close>

text \<open>A row pulls its line low when its pin is an output and its port bit is clear.\<close>

definition right_low :: "'c ergodox_state \<Rightarrow> nat \<Rightarrow> bool" where
  "right_low s r \<longleftrightarrow>
     (if r < 4 then bit (DDRB s) r \<and> \<not> bit (PORTB s) r
      else if r < 6 then bit (DDRD s) (r - 2) \<and> \<not> bit (PORTD s) (r - 2)
      else bit (DDRC s) 6 \<and> \<not> bit (PORTC s) 6)"

definition rows_ready :: "'c ergodox_state \<Rightarrow> bool" where
  "rows_ready s \<longleftrightarrow> PORTB s AND RIGHT_MATRIX_OUT_1_MASK = 0 \<and> PORTD s AND RIGHT_MATRIX_OUT_2_MASK = 0
     \<and> PORTC s AND RIGHT_MATRIX_OUT_3_MASK = 0"

lemmas out_masks = RIGHT_MATRIX_OUT_1_MASK_def RIGHT_MATRIX_OUT_2_MASK_def RIGHT_MATRIX_OUT_2_START_def RIGHT_MATRIX_OUT_3_MASK_def

lemma masked_bits: "x AND m = 0 \<Longrightarrow> bit m k \<Longrightarrow> \<not> bit (x :: u8) k"
  by (metis bit_0_eq bit_and_iff bot_apply bot_bool_def)

lemma rows_ready_bits:
  assumes "rows_ready s"
  shows "r < 4 \<Longrightarrow> \<not> bit (PORTB s) r" "\<not> bit (PORTD s) 2" "\<not> bit (PORTD s) 3" "\<not> bit (PORTC s) 6"
  using assms masked_bits [of "PORTB s" RIGHT_MATRIX_OUT_1_MASK r] masked_bits [of "PORTD s" RIGHT_MATRIX_OUT_2_MASK 2]
    masked_bits [of "PORTD s" RIGHT_MATRIX_OUT_2_MASK 3] masked_bits [of "PORTC s" RIGHT_MATRIX_OUT_3_MASK 6] below_7(2) [of r]
  by (auto simp: rows_ready_def out_masks)

lemma select_right_low:
  assumes "rows_ready s" "r < 7" "q < 7"
  shows "right_low (matrix_select_right (of_nat r) s) q \<longleftrightarrow> q = r"
  using below_7(1) [OF assms(2)] below_7(1) [OF assms(3)] rows_ready_bits [OF assms(1)]
  by (elim insertE emptyE; simp add: matrix_select_right_def right_low_def out_masks bit_simps)

lemma select_right_ports [simp]:
  "PORTB (matrix_select_right r s) = PORTB s" "PORTC (matrix_select_right r s) = PORTC s" "PORTD (matrix_select_right r s) = PORTD s"
  "bus (matrix_select_right r s) = bus s" "cached_mcp_columns (matrix_select_right r s) = cached_mcp_columns s"
  by (simp_all add: matrix_select_right_def Let_def)

subsection \<open>A bus that can wait for the stop condition\<close>

locale i2c_bus_wait = i2c_bus port dev joined for port :: "'c twi_port" and dev :: "'e i2c_device" and joined +
  assumes wait_law: "joined c e \<Longrightarrow> \<not> dev_talks dev e \<Longrightarrow>
      \<exists>d. port_stop port WAIT c = Some d \<and> joined d (dev_stop dev e)"

lemma await_stop:
  assumes "job h = Some Job_stop" "TWCR h AND TWSTO \<noteq> 0"
  shows "\<exists>g. twi_await (device_unit dev n) TWSTO False h = Some g \<and> unit_dev g = unit_dev h"
  using assms
proof (induction "ticks h" arbitrary: h)
  case 0
  have "(TWCR h AND NOT TWSTO) AND TWSTO = 0" by (rule bit_word_eqI) (auto simp: bit_simps)
  with 0 show ?case by (subst twi_await.simps) (simp add: poll_unit_def end_job_def)
next
  case (Suc k)
  let ?g = "h\<lparr>ticks := k\<rparr>"
  have "poll_unit dev h = (TWCR h, ?g)" using Suc.hyps(2) by (simp add: poll_unit_def flip: Suc.hyps(2))
  then have "twi_await (device_unit dev n) TWSTO False h = twi_await (device_unit dev n) TWSTO False ?g"
    using Suc.prems(2) by (subst twi_await.simps) simp
  then show ?case using Suc.hyps(1) [of ?g] Suc.prems by simp
qed

context i2c_listener
begin

lemma unit_waits: "i2c_bus_wait (hardware_port (device_unit dev (Suc latency))) dev unit_joined"
proof (intro i2c_bus_wait.intro i2c_bus_wait_axioms.intro)
  show "i2c_bus (hardware_port (device_unit dev (Suc latency))) dev unit_joined" by (rule unit.i2c_bus_axioms)
  fix c :: "'e bus_unit" and e assume "unit_joined c e"
  then have j: "unit_dev c = e" by (simp add: unit_joined_def)
  show "\<exists>d. port_stop (hardware_port (device_unit dev (Suc latency))) WAIT c = Some d \<and> unit_joined d (dev_stop dev e)"
    using j await_stop [of "begin_job dev (Suc latency) (TWINT OR TWSTO OR TWEN) c" dev "Suc latency"]
    by (simp add: hardware_port_def twi_stop_hw_def begin_job_def unit_flags unit_joined_def)
qed

end

subsection \<open>The port expander\<close>

text \<open>
  What the data sheet of the MCP23018 says of the transactions the board uses. \<open>regs\<close> are its registers,
  \<open>mcp_mode\<close> where it is in a transaction and \<open>mcp_pointer\<close> the register a read starts at. A byte written
  to \<open>GPIOA\<close> goes to the output latch; the pointer moves on after every byte. \<open>keys\<close> tells which keys of the
  left hand are pressed: a column with its pull-up enabled reads low when a pressed key joins it to a row
  that is driven low.
\<close>

datatype mcp_mode = Unselected | Called | Opened | At u8 | Giving u8

definition mcp_store :: "u8 \<Rightarrow> u8 \<Rightarrow> (u8 \<Rightarrow> u8) \<Rightarrow> u8 \<Rightarrow> u8" where
  "mcp_store r b R = (if r = MCP23018_GPIOA then R(MCP23018_OLATA := b) else R(r := b))"

definition left_low :: "(u8 \<Rightarrow> u8) \<Rightarrow> nat \<Rightarrow> bool" where
  "left_low R r \<longleftrightarrow> \<not> bit (R MCP23018_IODIRA) r \<and> \<not> bit (R MCP23018_OLATA) r"

text \<open>Seven rows are outputs, six columns have pull-ups.\<close>

definition configured :: "(u8 \<Rightarrow> u8) \<Rightarrow> bool" where
  "configured R \<longleftrightarrow> R MCP23018_IODIRA = 0x80 \<and> R MCP23018_GPPUB = 0x3F"

locale mcp23018 = i2c_listener dev
  for dev :: "'e i2c_device" +
  fixes regs :: "'e \<Rightarrow> u8 \<Rightarrow> u8" and mode :: "'e \<Rightarrow> mcp_mode" and mcp_pointer :: "'e \<Rightarrow> u8" and keys :: "nat \<Rightarrow> nat \<Rightarrow> bool"
  assumes talks_mode: "dev_talks dev e \<longleftrightarrow> (\<exists>r. mode e = Giving r)"
    and start_mode: "\<not> dev_talks dev e \<Longrightarrow> mode (dev_start dev e) = Called \<and> regs (dev_start dev e) = regs e"
    and start_pointer: "mode e = At r \<Longrightarrow> mcp_pointer (dev_start dev e) = r"
    and called_write: "mode e = Called \<Longrightarrow> dev_byte dev (MCP23018_ADDR OR MCP23018_WRITE) e = (k, f) \<Longrightarrow>
      k \<and> mode f = Opened \<and> regs f = regs e"
    and called_read: "mode e = Called \<Longrightarrow> dev_byte dev (MCP23018_ADDR OR MCP23018_READ) e = (k, f) \<Longrightarrow>
      k \<and> mode f = Giving (mcp_pointer e) \<and> regs f = regs e"
    and point: "mode e = Opened \<Longrightarrow> dev_byte dev r e = (k, f) \<Longrightarrow> mode f = At r \<and> regs f = regs e"
    and store: "mode e = At r \<Longrightarrow> dev_byte dev b e = (k, f) \<Longrightarrow> mode f = At (r + 1) \<and> regs f = mcp_store r b (regs e)"
    and give: "mode e = Giving MCP23018_GPIOB \<Longrightarrow> bit (regs e MCP23018_GPPUB) c \<Longrightarrow>
      bit (dev_give dev e) c \<longleftrightarrow> \<not> (\<exists>r < 7. left_low (regs e) r \<and> keys r c)"
    and gave: "mode e = Giving r \<Longrightarrow> mode (dev_sent dev False e) = Unselected \<and> regs (dev_sent dev False e) = regs e"
    and stop_mode: "\<not> dev_talks dev e \<Longrightarrow> mode (dev_stop dev e) = Unselected \<and> regs (dev_stop dev e) = regs e"

locale ergodox_left = i2c_bus_wait port dev joined + mcp23018 dev regs mode mcp_pointer keys
  for port :: "'c twi_port" and dev :: "'e i2c_device" and joined regs mode mcp_pointer keys
begin

text \<open>The bus and the chip in the middle of a transaction.\<close>

definition at_mode :: "mcp_mode \<Rightarrow> (u8 \<Rightarrow> u8) \<Rightarrow> 'c \<Rightarrow> 'e \<Rightarrow> bool" where
  "at_mode m R c e \<longleftrightarrow> joined c e \<and> dev_open dev e \<and> mode e = m \<and> regs e = R"

definition resting :: "(u8 \<Rightarrow> u8) \<Rightarrow> 'c \<Rightarrow> bool" where
  "resting R c \<longleftrightarrow> (\<exists>e. joined c e \<and> mode e = Unselected \<and> regs e = R)"

lemma start_ok:
  assumes "joined c e" "\<not> dev_talks dev e"
  shows "\<exists>d. port_start port c = Some d \<and> at_mode Called (regs e) d (dev_start dev e)"
  using start_law [OF assms] start_mode [OF assms(2)] open_start [of e] by (auto simp: at_mode_def)

lemma byte_ok:
  assumes "at_mode m R c e" "\<And>r. m \<noteq> Giving r" "dev_byte dev b e = (k, f)"
  shows "\<exists>d. port_write_byte port b c = Some (if k then ACK else NACK, d) \<and> at_mode (mode f) (regs f) d f"
  using write_law [of c e b k f] open_byte [of e b] assms by (auto simp: at_mode_def talks_mode)

lemma call_write_ok:
  assumes "at_mode Called R c e"
  shows "\<exists>d f. port_write_byte port (MCP23018_ADDR OR MCP23018_WRITE) c = Some (ACK, d) \<and> at_mode Opened R d f"
proof -
  obtain k f where b: "dev_byte dev (MCP23018_ADDR OR MCP23018_WRITE) e = (k, f)" by fastforce
  have "mode e = Called" "regs e = R" using assms by (auto simp: at_mode_def)
  then have "k" "mode f = Opened" "regs f = R" using called_write [OF _ b] by auto
  then show ?thesis using byte_ok [OF assms _ b] by auto
qed

lemma call_read_ok:
  assumes "at_mode Called R c e"
  shows "\<exists>d f. port_write_byte port (MCP23018_ADDR OR MCP23018_READ) c = Some (ACK, d) \<and> at_mode (Giving (mcp_pointer e)) R d f"
proof -
  obtain k f where b: "dev_byte dev (MCP23018_ADDR OR MCP23018_READ) e = (k, f)" by fastforce
  have "mode e = Called" "regs e = R" using assms by (auto simp: at_mode_def)
  then have "k" "mode f = Giving (mcp_pointer e)" "regs f = R" using called_read [OF _ b] by auto
  then show ?thesis using byte_ok [OF assms _ b] by auto
qed

lemma point_ok:
  assumes "at_mode Opened R c e"
  shows "\<exists>a d f. port_write_byte port r c = Some (a, d) \<and> at_mode (At r) R d f"
proof -
  obtain k f where b: "dev_byte dev r e = (k, f)" by fastforce
  have "mode f = At r" "regs f = R" using point [OF _ b] assms by (auto simp: at_mode_def)
  then show ?thesis using byte_ok [OF assms _ b] by auto
qed

lemma store_ok:
  assumes "at_mode (At r) R c e"
  shows "\<exists>a d f. port_write_byte port b c = Some (a, d) \<and> at_mode (At (r + 1)) (mcp_store r b R) d f"
proof -
  obtain k f where x: "dev_byte dev b e = (k, f)" by fastforce
  have "mode f = At (r + 1)" "regs f = mcp_store r b R" using store [OF _ x] assms by (auto simp: at_mode_def)
  then show ?thesis using byte_ok [OF assms _ x] by auto
qed

lemma stop_ok:
  assumes "joined c e" "\<not> dev_talks dev e"
  shows "\<exists>d. port_stop port WAIT c = Some d \<and> resting (regs e) d"
  using wait_law [OF assms] stop_mode [OF assms(2)] by (auto simp: resting_def)

lemma set_ok:
  assumes "resting R c"
  shows "\<exists>d. mcp23018_set port r v c = Some (True, d) \<and> resting (mcp_store r v R) d"
proof -
  obtain e where e: "joined c e" "\<not> dev_talks dev e" "regs e = R" using assms by (auto simp: resting_def talks_mode)
  obtain c1 e1 where c1: "port_start port c = Some c1" "at_mode Called R c1 e1" using start_ok [OF e(1,2)] e(3) by auto
  obtain c2 e2 where c2: "port_write_byte port (MCP23018_ADDR OR MCP23018_WRITE) c1 = Some (ACK, c2)" "at_mode Opened R c2 e2"
    using call_write_ok [OF c1(2)] by auto
  obtain a3 c3 e3 where c3: "port_write_byte port r c2 = Some (a3, c3)" "at_mode (At r) R c3 e3" using point_ok [OF c2(2)] by blast
  obtain a4 c4 e4 where c4: "port_write_byte port v c3 = Some (a4, c4)" "at_mode (At (r + 1)) (mcp_store r v R) c4 e4"
    using store_ok [OF c3(2)] by blast
  then obtain c5 where "port_stop port WAIT c4 = Some c5" "resting (mcp_store r v R) c5"
    using stop_ok [of c4 e4] by (auto simp: at_mode_def talks_mode)
  then show ?thesis using c1 c2 c3 c4 by (simp add: mcp23018_set_def)
qed

lemma init_ok:
  assumes "resting R c"
  shows "\<exists>d R'. init_mcp23018 port c = Some (1, d) \<and> resting R' d \<and> configured R'"
proof -
  obtain c1 where c1: "mcp23018_set port MCP23018_IODIRA 0x80 c = Some (True, c1)" "resting (mcp_store MCP23018_IODIRA 0x80 R) c1"
    using set_ok [OF assms] by blast
  obtain c2 where c2: "mcp23018_set port MCP23018_GPPUB 0x3F c1 = Some (True, c2)"
    "resting (mcp_store MCP23018_GPPUB 0x3F (mcp_store MCP23018_IODIRA 0x80 R)) c2" using set_ok [OF c1(2)] by blast
  obtain c3 where c3: "mcp23018_set port MCP23018_OLATA 0x7F c2 = Some (True, c3)"
    "resting (mcp_store MCP23018_OLATA 0x7F (mcp_store MCP23018_GPPUB 0x3F (mcp_store MCP23018_IODIRA 0x80 R))) c3"
    using set_ok [OF c2(2)] by blast
  moreover have "configured (mcp_store MCP23018_OLATA 0x7F (mcp_store MCP23018_GPPUB 0x3F (mcp_store MCP23018_IODIRA 0x80 R)))"
    by (simp add: configured_def mcp_store_def MCP23018_IODIRA_def MCP23018_GPPUB_def MCP23018_OLATA_def MCP23018_GPIOA_def)
  ultimately show ?thesis using c1(1) c2(1) by (auto simp: init_mcp23018_def)
qed

lemma row_written:
  assumes "configured R" "r < 7" "q < 7"
  defines "R' \<equiv> mcp_store MCP23018_GPIOA (0xFF AND NOT (push_bit r 1)) R"
  shows "configured R'" "left_low R' q \<longleftrightarrow> q = r"
proof -
  have R': "R' = R(MCP23018_OLATA := 0xFF AND NOT (push_bit r 1))" by (simp add: R'_def mcp_store_def)
  show "configured R'" unfolding R' using assms(1)
    by (simp add: configured_def MCP23018_IODIRA_def MCP23018_GPPUB_def MCP23018_OLATA_def)
  then have "R' MCP23018_IODIRA = 0x80" by (simp add: configured_def)
  moreover have "R' MCP23018_OLATA = 0xFF AND NOT (push_bit r 1)" by (simp add: R')
  ultimately show "left_low R' q \<longleftrightarrow> q = r"
    using below_7(1) [OF assms(2)] below_7(1) [OF assms(3)] unfolding left_low_def
    by (elim insertE emptyE; simp add: bit_simps)
qed

lemma columns_read:
  assumes "at_mode (Giving MCP23018_GPIOB) R c e" "configured R" "\<And>q. q < 7 \<Longrightarrow> left_low R q \<longleftrightarrow> q = r" "r < 7"
  shows "\<exists>v d. port_read_byte port NACK c = Some (v, d) \<and> (\<exists>f. joined d f \<and> mode f = Unselected \<and> regs f = R)
    \<and> (\<forall>k < 6. bit v k \<longleftrightarrow> \<not> keys r k)"
proof -
  have e: "joined c e" "mode e = Giving MCP23018_GPIOB" "regs e = R" using assms(1) by (auto simp: at_mode_def)
  then obtain d where d: "port_read_byte port NACK c = Some (dev_give dev e, d)" "joined d (dev_sent dev False e)"
    using read_law [of c e NACK] by (auto simp: talks_mode)
  have "bit (dev_give dev e) k \<longleftrightarrow> \<not> keys r k" if "k < 6" for k
  proof -
    have "bit (0x3F :: u8) k" using that below_7(1) [of k] by auto
    then have "bit (dev_give dev e) k \<longleftrightarrow> \<not> (\<exists>q < 7. left_low R q \<and> keys q k)"
      using give [OF e(2), of k] assms(2) by (simp add: configured_def e(3))
    then show ?thesis using assms(3,4) by auto
  qed
  then show ?thesis using d gave [OF e(2)] e(3) by blast
qed

lemma read_row_ok:
  assumes "resting R c" "configured R" "r < 7"
  shows "\<exists>v d R'. mcp23018_read_row port (of_nat r) c = Some (Some v, d) \<and> resting R' d \<and> configured R'
    \<and> (\<forall>k < 6. bit v k \<longleftrightarrow> \<not> keys r k)"
proof -
  have u: "unat (of_nat r :: u8) = r" using assms(3) by (simp add: unat_of_nat)
  let ?b = "0xFF AND NOT (push_bit r 1) :: u8" and ?w = "MCP23018_ADDR OR MCP23018_WRITE"
  let ?R = "mcp_store MCP23018_GPIOA ?b R"
  obtain e where e: "joined c e" "\<not> dev_talks dev e" "regs e = R" using assms(1) by (auto simp: resting_def talks_mode)
  obtain c1 e1 where c1: "port_start port c = Some c1" "at_mode Called R c1 e1" using start_ok [OF e(1,2)] e(3) by auto
  obtain c2 e2 where c2: "port_write_byte port ?w c1 = Some (ACK, c2)" "at_mode Opened R c2 e2" using call_write_ok [OF c1(2)] by auto
  obtain a3 c3 e3 where c3: "port_write_byte port MCP23018_GPIOA c2 = Some (a3, c3)" "at_mode (At MCP23018_GPIOA) R c3 e3"
    using point_ok [OF c2(2)] by blast
  obtain a4 c4 e4 where c4: "port_write_byte port ?b c3 = Some (a4, c4)" "at_mode (At (MCP23018_GPIOA + 1)) ?R c4 e4"
    using store_ok [OF c3(2)] by blast
  then have e4: "joined c4 e4" "\<not> dev_talks dev e4" "mode e4 = At MCP23018_GPIOB" "regs e4 = ?R"
    by (auto simp: at_mode_def talks_mode MCP23018_GPIOA_def MCP23018_GPIOB_def)
  obtain c5 where c5: "port_start port c4 = Some c5" "at_mode Called ?R c5 (dev_start dev e4)" using start_ok [OF e4(1,2)] e4(4) by auto
  obtain c6 e6 where c6: "port_write_byte port (MCP23018_ADDR OR MCP23018_READ) c5 = Some (ACK, c6)"
    "at_mode (Giving MCP23018_GPIOB) ?R c6 e6" using call_read_ok [OF c5(2)] start_pointer [OF e4(3)] by auto
  obtain v c7 e7 where c7: "port_read_byte port NACK c6 = Some (v, c7)" "joined c7 e7" "mode e7 = Unselected" "regs e7 = ?R"
    "\<forall>k < 6. bit v k \<longleftrightarrow> \<not> keys r k"
    using columns_read [OF c6(2) row_written(1) row_written(2) assms(3)] assms(2,3) by blast
  then obtain c8 where "port_stop port WAIT c7 = Some c8" "resting ?R c8" using stop_ok [of c7 e7] by (auto simp: talks_mode)
  then show ?thesis using c1(1) c2(1) c3(1) c4(1) c5(1) c6(1) c7 row_written(1) [OF assms(2,3), of 0]
    by (auto simp: mcp23018_read_row_def u)
qed

lemma select_row_ok:
  assumes "resting R (bus s)" "r < 7" "r = 0 \<or> configured R"
  shows "\<exists>t R'. matrix_select_row_ergodox port (of_nat r) s = Some t \<and> resting R' (bus t) \<and> configured R'
    \<and> (\<forall>k < 6. bit (cached_mcp_columns t) k \<longleftrightarrow> \<not> keys r k)
    \<and> (\<exists>c v. t = (matrix_select_right (of_nat r) s)\<lparr>bus := c, cached_mcp_columns := v\<rparr>)"
proof -
  have z: "(of_nat r :: u8) = 0 \<longleftrightarrow> r = 0" using below_7(1) [OF assms(2)] by auto
  obtain c Q where c: "mcp23018_reinit port (of_nat r) (bus s) = Some c"
    "resting Q c" "configured Q"
  proof (cases "r = 0")
    case True
    with init_ok [OF assms(1)] that show ?thesis by (auto simp: mcp23018_reinit_def)
  next
    case False
    with assms(1,3) z that show ?thesis by (auto simp: mcp23018_reinit_def)
  qed
  obtain v d R' where d: "mcp23018_read_row port (of_nat r) c = Some (Some v, d)" "resting R' d" "configured R'"
    "\<forall>k < 6. bit v k \<longleftrightarrow> \<not> keys r k" using read_row_ok [OF c(2,3) assms(2)] by blast
  let ?t = "(matrix_select_right (of_nat r) s)\<lparr>bus := d, cached_mcp_columns := v\<rparr>"
  have "matrix_select_row_ergodox port (of_nat r) s = Some ?t"
    using c(1) d(1) by (simp add: matrix_select_row_ergodox_def Let_def)
  then show ?thesis using d(2-4) by auto
qed

end

subsection \<open>A hand that is not plugged in\<close>

definition silent_device :: "'e i2c_device \<Rightarrow> bool" where
  "silent_device dev \<longleftrightarrow> (\<forall>e b. dev_open dev e \<longrightarrow> \<not> fst (dev_byte dev b e)) \<and> (\<forall>e. \<not> dev_talks dev e)"

context i2c_bus
begin

lemma silent_exchange:
  assumes "i2c_listener dev" "silent_device dev" "joined c e"
  shows "\<exists>c1 c2 c3 f. port_start port c = Some c1 \<and> port_write_byte port b c1 = Some (NACK, c2)
    \<and> port_stop port NOWAIT c2 = Some c3 \<and> joined c3 f"
proof -
  have q: "\<not> dev_talks dev e" for e using assms(2) by (simp add: silent_device_def)
  obtain c1 where c1: "port_start port c = Some c1" "joined c1 (dev_start dev e)" using start_law [OF assms(3) q] by blast
  obtain k f where b: "dev_byte dev b (dev_start dev e) = (k, f)" by fastforce
  have o: "dev_open dev (dev_start dev e)" by (rule i2c_listener.open_start [OF assms(1)])
  moreover have "\<not> k" using assms(2) o b by (metis fst_conv silent_device_def)
  ultimately obtain c2 where c2: "port_write_byte port b c1 = Some (NACK, c2)" "joined c2 f"
    using write_law [OF c1(2) o q b] by auto
  then show ?thesis using c1(1) stop_law [OF c2(2) q] by blast
qed

lemma select_row_silent:
  assumes "i2c_listener dev" "silent_device dev" "joined (bus s) e"
  shows "\<exists>c f. matrix_select_row_ergodox port row s = Some ((matrix_select_right row s)\<lparr>bus := c\<rparr>) \<and> joined c f"
proof -
  note x = silent_exchange [OF assms(1,2), of _ _ "MCP23018_ADDR OR MCP23018_WRITE"]
  obtain c f where c: "mcp23018_reinit port row (bus s) = Some c" "joined c f"
  proof (cases "row = 0")
    case True
    with x [OF assms(3)] that show ?thesis by (auto simp: mcp23018_reinit_def init_mcp23018_def mcp23018_set_def)
  qed (use assms(3) that in \<open>auto simp: mcp23018_reinit_def\<close>)
  from x [OF this(2)] obtain d g where "mcp23018_read_row port row c = Some (None, d)" "joined d g"
    by (auto simp: mcp23018_read_row_def)
  then show ?thesis using c(1) by (auto simp: matrix_select_row_ergodox_def Let_def)
qed

end

subsection \<open>A port expander that follows its data sheet\<close>

record mcp_chip =
  m_regs :: "u8 \<Rightarrow> u8"
  m_mode :: mcp_mode
  m_pointer :: u8
  m_open :: bool

definition chip_mode :: "mcp_chip \<Rightarrow> mcp_mode" where
  "chip_mode c = (if m_open c then m_mode c else Unselected)"

definition chip_columns :: "(nat \<Rightarrow> nat \<Rightarrow> bool) \<Rightarrow> (u8 \<Rightarrow> u8) \<Rightarrow> u8" where
  "chip_columns keys R = horner_sum of_bool 2 (map (\<lambda>c. \<not> (\<exists>r \<in> {0..<7}. left_low R r \<and> keys r c)) [0..<8])"

definition chip_byte :: "u8 \<Rightarrow> mcp_chip \<Rightarrow> bool \<times> mcp_chip" where
  "chip_byte b c = (case chip_mode c of
     Called \<Rightarrow> if b = MCP23018_ADDR OR MCP23018_WRITE then (True, c\<lparr>m_mode := Opened\<rparr>)
       else if b = MCP23018_ADDR OR MCP23018_READ then (True, c\<lparr>m_mode := Giving (m_pointer c)\<rparr>)
       else (False, c\<lparr>m_mode := Unselected\<rparr>)
   | Opened \<Rightarrow> (True, c\<lparr>m_mode := At b\<rparr>)
   | At r \<Rightarrow> (True, c\<lparr>m_mode := At (r + 1), m_regs := mcp_store r b (m_regs c)\<rparr>)
   | _ \<Rightarrow> (False, c))"

definition chip_dev :: "(nat \<Rightarrow> nat \<Rightarrow> bool) \<Rightarrow> mcp_chip i2c_device" where
  "chip_dev keys = \<lparr>dev_start = (\<lambda>c. c\<lparr>m_mode := Called, m_open := True,
       m_pointer := (case chip_mode c of At r \<Rightarrow> r | _ \<Rightarrow> m_pointer c)\<rparr>),
     dev_stop = (\<lambda>c. c\<lparr>m_mode := Unselected, m_open := False\<rparr>), dev_byte = chip_byte,
     dev_talks = (\<lambda>c. case chip_mode c of Giving r \<Rightarrow> True | _ \<Rightarrow> False),
     dev_give = (\<lambda>c. case chip_mode c of
         Giving r \<Rightarrow> if r = MCP23018_GPIOB then chip_columns keys (m_regs c) else m_regs c r | _ \<Rightarrow> 0xFF),
     dev_sent = (\<lambda>k c. case chip_mode c of Giving r \<Rightarrow> c\<lparr>m_mode := (if k then Giving (r + 1) else Unselected)\<rparr> | _ \<Rightarrow> c),
     dev_open = m_open, dev_ms = (\<lambda>c. c), dev_stretch = (\<lambda>c. 0)\<rparr>"

lemma chip_columns_bit: "c < 8 \<Longrightarrow> bit (chip_columns keys R) c \<longleftrightarrow> \<not> (\<exists>r < 7. left_low R r \<and> keys r c)"
  unfolding chip_columns_def by (subst bit_horner_sum_bit_iff) auto

interpretation expander: mcp23018 "chip_dev keys" m_regs chip_mode m_pointer keys for keys
  by unfold_locales
    (auto simp: chip_dev_def chip_mode_def chip_byte_def chip_columns_bit MCP23018_ADDR_def MCP23018_WRITE_def MCP23018_READ_def
      dest: bit_imp_le_length split: mcp_mode.splits if_splits)

definition idle_expander :: mcp_chip where
  "idle_expander = \<lparr>m_regs = (\<lambda>r. 0xFF), m_mode = Unselected, m_pointer = 0, m_open = False\<rparr>"

definition idle_unit :: "'e \<Rightarrow> 'e bus_unit" where
  "idle_unit e = \<lparr>unit_dev = e, TWCR = TWEN, TWDR = 0, TWSR = 0xF8, TWBR = 72, job = None, ticks = 0, addressing = False\<rparr>"

definition idle_ergodox :: "'e \<Rightarrow> 'e bus_unit ergodox_state" where
  "idle_ergodox e = \<lparr>PORTA = 0, DDRA = 0, PORTB = 0, DDRB = 0xE0, PORTC = 0, DDRC = 0, PORTD = 0, DDRD = 0x40,
     PORTF = 0xF3, DDRF = 0, bus = idle_unit e, cached_mcp_columns = 0x3F\<rparr>"

text \<open>A device that answers nothing.\<close>

definition absent_dev :: "bool i2c_device" where
  "absent_dev = \<lparr>dev_start = (\<lambda>e. True), dev_stop = (\<lambda>e. False), dev_byte = (\<lambda>b e. (False, e)), dev_talks = (\<lambda>e. False),
     dev_give = (\<lambda>e. 0xFF), dev_sent = (\<lambda>k e. e), dev_open = (\<lambda>e. e), dev_ms = (\<lambda>e. e), dev_stretch = (\<lambda>e. 0)\<rparr>"

interpretation absent: i2c_listener absent_dev
  by unfold_locales (simp_all add: absent_dev_def)

lemma absent_silent: "silent_device absent_dev"
  by (simp add: silent_device_def absent_dev_def)

subsection \<open>Properties\<close>

lemma left_column: "k < 6 \<Longrightarrow> \<not> 6 + of_nat k < (6 :: u8)" "k < 6 \<Longrightarrow> unat (6 + of_nat k - 6 :: u8) = k"
  using below_7(1) [of k] by auto

lemma right_column:
  "k < 6 \<Longrightarrow> of_nat k < (6 :: u8)"
  "k < 6 \<Longrightarrow> unat (if of_nat k > (1 :: u8) then of_nat k + 2 else of_nat k :: u8) = (if k > 1 then k + 2 else k)"
  using below_7(1) [of k] by auto

lemma read_left: "k < 6 \<Longrightarrow> matrix_read_column_ergodox pinf (6 + of_nat k) s \<longleftrightarrow> \<not> bit (cached_mcp_columns s) k"
  unfolding matrix_read_column_ergodox_def Let_def by (simp only: left_column and_bit_eq_0 if_False)

lemma read_right:
  "k < 6 \<Longrightarrow> matrix_read_column_ergodox pinf (of_nat k) s \<longleftrightarrow> \<not> bit pinf (if k > 1 then k + 2 else k)"
  unfolding matrix_read_column_ergodox_def Let_def by (simp only: right_column and_bit_eq_0 if_True)

lemma right_low_frame: "right_low (s\<lparr>bus := c, cached_mcp_columns := v\<rparr>) q = right_low s q"
  by (simp add: right_low_def)

text \<open>
  C17: on the Ergodox, selecting a row and reading its twelve columns gives exactly the keys that are pressed in
  that row on both hands. \<open>matrix_select_row\<close> returns, drives the row of the right hand low and no other, sets up
  the port expander of the left hand when it starts a scan with row 0 and writes and reads it in one
  transaction; \<open>matrix_read_column\<close> finds each column behind the gap in port F or in the byte read. The
  conditions under which the next row can be read hold again afterwards.
\<close>

theorem ergodox_row_reads_keys:
  assumes hand: "ergodox_left port dev joined regs mode mcp_pointer keys"
    and rest: "joined (bus s) e" "mode e = Unselected" "r = 0 \<or> configured (regs e)" and rows: "rows_ready s" "r < 7"
  shows "\<exists>t f. matrix_select_row_ergodox port (of_nat r) s = Some t
    \<and> joined (bus t) f \<and> mode f = Unselected \<and> configured (regs f) \<and> rows_ready t
    \<and> (\<forall>k < 6. matrix_read_column_ergodox pinf (6 + of_nat k) t \<longleftrightarrow> keys r k)
    \<and> ((\<forall>k < 6. bit pinf (if k > 1 then k + 2 else k) \<longleftrightarrow> \<not> (\<exists>q < 7. right_low t q \<and> right_keys q k)) \<longrightarrow>
        (\<forall>k < 6. matrix_read_column_ergodox pinf (of_nat k) t \<longleftrightarrow> right_keys r k))"
proof -
  have "ergodox_left.resting joined regs mode (regs e) (bus s)"
    unfolding ergodox_left.resting_def [OF hand] using rest(1,2) by blast
  from ergodox_left.select_row_ok [OF hand this rows(2) rest(3)] obtain t f c v where
    t: "matrix_select_row_ergodox port (of_nat r) s = Some t" "t = (matrix_select_right (of_nat r) s)\<lparr>bus := c, cached_mcp_columns := v\<rparr>"
    and f: "joined (bus t) f" "mode f = Unselected" "configured (regs f)"
    and l: "\<forall>k < 6. bit (cached_mcp_columns t) k \<longleftrightarrow> \<not> keys r k"
    unfolding ergodox_left.resting_def [OF hand] by blast
  have low: "right_low t q \<longleftrightarrow> q = r" if "q < 7" for q
    unfolding t(2) right_low_frame by (rule select_right_low [OF rows that])
  have "rows_ready t" using rows(1) by (simp add: t(2) rows_ready_def)
  moreover have "matrix_read_column_ergodox pinf (of_nat k) t \<longleftrightarrow> right_keys r k"
    if "\<forall>k < 6. bit pinf (if k > 1 then k + 2 else k) \<longleftrightarrow> \<not> (\<exists>q < 7. right_low t q \<and> right_keys q k)" "k < 6" for k
    unfolding read_right [OF that(2)] using that low rows(2) by auto
  moreover have "\<forall>k < 6. matrix_read_column_ergodox pinf (6 + of_nat k) t \<longleftrightarrow> keys r k" using l by (simp add: read_left)
  ultimately show ?thesis using t(1) f by (intro exI [of _ t] exI [of _ f]) simp
qed

lemma expander_hand:
  "ergodox_left (hardware_port (device_unit (chip_dev keys) (Suc n))) (chip_dev keys) unit_joined m_regs chip_mode m_pointer keys"
  by (intro ergodox_left.intro expander.unit_waits expander.mcp23018_axioms)

theorem ergodox_row_reads_keys_witness:
  "\<exists>t. matrix_select_row_ergodox (hardware_port (device_unit (chip_dev (\<lambda>r c. r = 0 \<and> c = 3)) 5)) 0 (idle_ergodox idle_expander) = Some t
     \<and> matrix_read_column_ergodox 0xF3 9 t \<and> \<not> matrix_read_column_ergodox 0xF3 8 t"
proof -
  have i: "unit_joined (bus (idle_ergodox idle_expander)) idle_expander" "chip_mode idle_expander = Unselected"
    by (simp_all add: unit_joined_def idle_ergodox_def idle_unit_def idle_expander_def chip_mode_def)
  have "rows_ready (idle_ergodox idle_expander)" by (simp add: rows_ready_def idle_ergodox_def)
  from ergodox_row_reads_keys [OF expander_hand [of "\<lambda>r c. r = 0 \<and> c = 3" 4] i _ this, of 0 "0xF3" "\<lambda>_ _. False"] obtain t where
    t: "matrix_select_row_ergodox (hardware_port (device_unit (chip_dev (\<lambda>r c. r = 0 \<and> c = 3)) 5)) 0 (idle_ergodox idle_expander) = Some t"
    "\<forall>k < 6. matrix_read_column_ergodox 0xF3 (6 + of_nat k) t \<longleftrightarrow> k = 3" by auto
  note c = t(2) [THEN spec, THEN mp]
  have "matrix_read_column_ergodox 0xF3 9 t" "\<not> matrix_read_column_ergodox 0xF3 8 t" using c [of 3] c [of 2] by simp_all
  then show ?thesis using t(1) by auto
qed

text \<open>
  C37: when the left hand of the Ergodox does not answer, \<open>matrix_select_row\<close> returns for every row, the bus is
  left idle and the right hand is scanned as before, but the columns of the left hand keep the byte that was
  read last: a key that was down in the last row read before the hand was unplugged reads as pressed in every
  row from then on.
\<close>

theorem ergodox_unplugged_keeps_columns:
  assumes dev: "i2c_bus port dev joined" "i2c_listener dev" "silent_device dev" and rest: "joined (bus s) e"
  shows "\<exists>t f. matrix_select_row_ergodox port row s = Some t \<and> joined (bus t) f
    \<and> t = (matrix_select_right row s)\<lparr>bus := bus t\<rparr>
    \<and> (\<forall>k < 6. matrix_read_column_ergodox pinf (6 + of_nat k) t \<longleftrightarrow> matrix_read_column_ergodox pinf (6 + of_nat k) s)"
proof -
  obtain c f where "matrix_select_row_ergodox port row s = Some ((matrix_select_right row s)\<lparr>bus := c\<rparr>)" "joined c f"
    using i2c_bus.select_row_silent [OF dev rest] by blast
  moreover have "\<forall>k < 6. matrix_read_column_ergodox pinf (6 + of_nat k) ((matrix_select_right row s)\<lparr>bus := c\<rparr>)
      \<longleftrightarrow> matrix_read_column_ergodox pinf (6 + of_nat k) s" by (intro allI impI) (simp add: read_left)
  ultimately show ?thesis by auto
qed

theorem ergodox_unplugged_keeps_columns_witness:
  "\<exists>t. matrix_select_row_ergodox (hardware_port (device_unit absent_dev 3)) 2 ((idle_ergodox False)\<lparr>cached_mcp_columns := 0x3E\<rparr>) = Some t
     \<and> matrix_read_column_ergodox 0xF3 6 t"
proof -
  let ?s = "(idle_ergodox False)\<lparr>cached_mcp_columns := 0x3E\<rparr>"
  have u: "unit_joined (bus ?s) False" by (simp add: unit_joined_def idle_ergodox_def idle_unit_def)
  have p: "i2c_bus (hardware_port (device_unit absent_dev 3)) absent_dev unit_joined"
    using absent.unit.i2c_bus_axioms [of 2] by (simp add: numeral_3_eq_3)
  obtain t where t: "matrix_select_row_ergodox (hardware_port (device_unit absent_dev 3)) 2 ?s = Some t"
    "\<forall>k < 6. matrix_read_column_ergodox 0xF3 (6 + of_nat k) t \<longleftrightarrow> matrix_read_column_ergodox 0xF3 (6 + of_nat k) ?s"
    using ergodox_unplugged_keeps_columns [OF p absent.i2c_listener_axioms absent_silent u, of 2 "0xF3"] by blast
  have "matrix_read_column_ergodox 0xF3 6 ?s" using read_left [of 0 "0xF3" ?s] by simp
  then show ?thesis using t(1) t(2) [THEN spec, THEN mp, of 0] by auto
qed

text \<open>
  \<open>set_all_leds\<close> of the Ergodox lights exactly the LEDs of the mask, and keeps the rows of the right hand
  ready while none of the four rows on port B is selected, as after a complete scan. It takes the other
  bits of the port from the direction register, though: called while one of these rows is selected it sets the
  port bit of the row, and until it is called again the row is driven high when it is selected, so that no key
  pulls a column low.
\<close>

theorem ergodox_leds_and_rows:
  assumes ready: "rows_ready s" and row: "r < 4"
  shows "PORTB (set_all_leds_ergodox leds s) AND ALL_LEDS_ergodox = leds AND ALL_LEDS_ergodox
    \<and> (DDRB s AND RIGHT_MATRIX_OUT_1_MASK = 0 \<longrightarrow> rows_ready (set_all_leds_ergodox leds s))
    \<and> \<not> right_low (matrix_select_right (of_nat r) (set_all_leds_ergodox leds (matrix_select_right (of_nat r) s))) r"
proof (intro conjI impI)
  have "ALL_LEDS_ergodox = 0xE0" by (simp add: ALL_LEDS_ergodox_def LED_CAPS_ergodox_def LED_NUMLOCK_ergodox_def LED_KEYPAD_ergodox_def)
  note led = this set_all_leds_ergodox_def Let_def
  show "PORTB (set_all_leds_ergodox leds s) AND ALL_LEDS_ergodox = leds AND ALL_LEDS_ergodox"
    by (rule bit_word_eqI) (auto simp: led bit_simps)
  assume d: "DDRB s AND RIGHT_MATRIX_OUT_1_MASK = 0"
  have "((DDRB s AND NOT 0xE0) OR (leds AND 0xE0)) AND RIGHT_MATRIX_OUT_1_MASK
    = (DDRB s AND RIGHT_MATRIX_OUT_1_MASK) AND NOT 0xE0"
  proof (rule bit_word_eqI)
    fix n assume "n < LENGTH(8)"
    with below_7(3) [of n] show "bit (((DDRB s AND NOT 0xE0) OR (leds AND 0xE0)) AND RIGHT_MATRIX_OUT_1_MASK) n
        = bit ((DDRB s AND RIGHT_MATRIX_OUT_1_MASK) AND NOT 0xE0) n"
      by (auto simp: RIGHT_MATRIX_OUT_1_MASK_def bit_simps)
  qed
  then show "rows_ready (set_all_leds_ergodox leds s)" using ready d by (simp add: rows_ready_def led)
next
  have "bit (DDRB (matrix_select_right (of_nat r) s)) r"
    using below_7(2) [OF row] by (auto simp: matrix_select_right_def out_masks bit_simps)
  then have "bit (PORTB (set_all_leds_ergodox leds (matrix_select_right (of_nat r) s))) r"
    using below_7(2) [OF row] by (auto simp: set_all_leds_ergodox_def ALL_LEDS_ergodox_def LED_CAPS_ergodox_def
      LED_NUMLOCK_ergodox_def LED_KEYPAD_ergodox_def bit_simps)
  then show "\<not> right_low (matrix_select_right (of_nat r) (set_all_leds_ergodox leds (matrix_select_right (of_nat r) s))) r"
    using row by (simp add: right_low_def)
qed

theorem ergodox_leds_and_rows_witness:
  "\<not> right_low (matrix_select_right 1 (set_all_leds_ergodox 0x20 (matrix_select_right 1 (idle_ergodox False)))) 1"
proof -
  have "rows_ready (idle_ergodox False)" by (simp add: rows_ready_def idle_ergodox_def)
  from ergodox_leds_and_rows [OF this, of 1 "0x20"] show ?thesis by simp
qed

text \<open>
  On the Kinesis boards, selecting a row puts its number on the four select lines of the demultiplexers, as
  a released or sinking pin on the Kinesis and as a driven level on the Kinesis 110, and touches no other pin.
  The LEDs are on other pins: lighting them keeps the row selected and the pins that are not LEDs as they are.
\<close>

theorem kinesis_selects_row:
  "(\<forall>k < 4. select_line_kinesis (matrix_select_row_kinesis row s) k = bit row k
      \<and> bit (PORTB (matrix_select_row_kinesis110 row s)) k = bit row k)
    \<and> (\<forall>k \<in> {4..<8}. bit (DDRB (matrix_select_row_kinesis row s)) k = bit (DDRB s) k
      \<and> bit (PORTB (matrix_select_row_kinesis110 row s)) k = bit (PORTB s) k)
    \<and> DDRB (set_all_leds_kinesis b leds s) = DDRB s \<and> PORTB (set_all_leds_kinesis110 leds s) = PORTB s
    \<and> DDRD (set_all_leds_kinesis b leds s) AND ALL_LEDS_kinesis b = leds AND ALL_LEDS_kinesis b
    \<and> DDRD (set_all_leds_kinesis b leds s) AND NOT (ALL_LEDS_kinesis b) = DDRD s AND NOT (ALL_LEDS_kinesis b)
    \<and> DDRD (set_all_leds_kinesis110 leds s) AND ALL_LEDS_kinesis110 = leds AND ALL_LEDS_kinesis110
    \<and> DDRD (set_all_leds_kinesis110 leds s) AND NOT ALL_LEDS_kinesis110 = DDRD s AND NOT ALL_LEDS_kinesis110"
proof -
  have m: "((d AND NOT a) OR (m AND a)) AND a = m AND a" "((d AND NOT a) OR (m AND a)) AND NOT a = d AND NOT a" for a d m :: u8
    by (rule bit_word_eqI; auto simp: bit_simps)+
  show ?thesis
    by (auto simp: select_line_kinesis_def select_row_kinesis_bits set_all_leds_kinesis_def set_all_leds_kinesis110_def Let_def m)
qed

theorem kinesis_selects_row_witness:
  "bit (PORTB (matrix_select_row_kinesis110 5 (idle_ergodox False))) 2"
proof -
  have "bit (5 :: u8) 2" by simp
  then show ?thesis using kinesis_selects_row [of 5 "idle_ergodox False" ATmega32 0] by auto
qed

end
