(* ===== verification/K80cs.thy ===== *)
theory K80cs
  imports KatyMatrix Board OtherBoards
begin

text \<open>
  \<open>hardware/k80cs.c\<close>, the predecessor of the K84CS, which is built for an XMEGA or for an AVR controller. Its
  matrix, panel and number formatting are those of \<open>k84cs.c\<close> (the panel line by line, see \<open>Board\<close>); different are
  the size, the tables, the ports of the AVR build and the light sensor, which has to be powered up step by step.
\<close>

subsection \<open>Tables of the K80CS\<close>

definition KEYPAD_LAYER_SIZE_k80cs :: nat where "KEYPAD_LAYER_SIZE_k80cs = 80"
definition MATRIX_COLS_k80cs :: nat where "MATRIX_COLS_k80cs = 5"
definition MATRIX_ROWS_k80cs :: nat where "MATRIX_ROWS_k80cs = 16"

definition matrix_to_logical_map_k80cs :: "logical_keycode list list" where
  "matrix_to_logical_map_k80cs =
    [[66, 68, 69, 72, 2],
     [52, 53, 54, 67, 70],
     [34, 23, 10, 5, 71],
     [33, 21, 9, 25, 51],
     [32, 8, 7, 6, 50],
     [31, 26, 22, 27, 49],
     [30, 20, 4, 29, 48],
     [44, 45, 46, 47, 0],
     [3, 79, 76, 75, 73],
     [77, 74, 65, 64, 63],
     [78, 17, 11, 28, 35],
     [62, 16, 13, 24, 36],
     [61, 41, 14, 12, 37],
     [60, 42, 15, 18, 38],
     [59, 43, 40, 19, 39],
     [1, 58, 57, 56, 55]]"

definition logical_to_hid_map_default_k80cs :: "hid_keycode list" where
  "logical_to_hid_map_default_k80cs =
    [0xFE, 0xFA, 0xFB, 0xFB, 0x04, 0x05, 0x06, 0x07, 0x08, 0x09, 0x0A, 0x0B, 0x0C, 0x0D, 0x0E, 0x0F,
     0x10, 0x11, 0x12, 0x13, 0x14, 0x15, 0x16, 0x17, 0x18, 0x19, 0x1A, 0x1B, 0x1C, 0x1D, 0x1E, 0x1F,
     0x20, 0x21, 0x22, 0x23, 0x24, 0x25, 0x26, 0x27, 0x33, 0x36, 0x37, 0x38, 0x2E, 0x2B, 0x29, 0x4C,
     0x35, 0x64, 0x50, 0x4F, 0x46, 0x39, 0x81, 0x2D, 0x31, 0x34, 0x28, 0x30, 0x2F, 0x52, 0x51, 0x48,
     0x65, 0x49, 0xE2, 0xE0, 0x4A, 0x4D, 0xE1, 0x2A, 0xE3, 0xE6, 0xE4, 0x4B, 0x4E, 0xE5, 0x2C, 0xE7]
    @ [0xFE, 0xFA, 0xFB, 0xFB, 0xE8, 0x05, 0x06, 0xEE, 0xED, 0xF0, 0x0A, 0x54, 0x60, 0x5C, 0x5D, 0x5E,
       0x59, 0x62, 0x61, 0x57, 0xE9, 0xEB, 0xEF, 0xEC, 0x5F, 0x19, 0xEA, 0x1B, 0x55, 0x1D, 0x3A, 0x3B,
       0x3C, 0x3D, 0x3E, 0x3F, 0x40, 0x41, 0x42, 0x43, 0x56, 0x5A, 0x5B, 0x58, 0x44, 0x2B, 0x29, 0x4C,
       0x7F, 0x64, 0x50, 0x4F, 0x46, 0x39, 0x80, 0x45, 0xE8, 0xE9, 0xEA, 0x28, 0x63, 0x52, 0x51, 0x48,
       0x53, 0x68, 0xE2, 0xE0, 0x4A, 0x4D, 0xE1, 0x2A, 0xE3, 0xE6, 0xE4, 0x4B, 0x4E, 0xE5, 0x2C, 0xE7]"

subsection \<open>Matrix of the XMEGA build\<close>

definition matrix_select_row_k80cs :: "'h hand_ops \<Rightarrow> u8 \<Rightarrow> 'h katy_state \<Rightarrow> 'h katy_state" where
  "matrix_select_row_k80cs dev matrix_row s =
     (let s = (if unat matrix_row < MATRIX_ROWS_k80cs div 2 then select_left (PORTC_wire dev) matrix_row s
               else select_right (MATRIX_ROWS_k80cs div 2) matrix_row s)
      in s\<lparr>processing_row := matrix_row\<rparr>)"

definition matrix_read_column_k80cs :: "'h hand_ops \<Rightarrow> right_pins \<Rightarrow> u8 \<Rightarrow> 'h katy_state \<Rightarrow> bool \<times> 'h katy_state" where
  "matrix_read_column_k80cs dev pins matrix_column s =
     (let (v, s) = (if unat (processing_row s) < MATRIX_ROWS_k80cs div 2 then read_left dev 4 matrix_column s
                    else (drop_bit (unat matrix_column) (portd pins (PORTA_DIR s) (PORTA_OUT s)) AND 1, s))
      in (v = 0, s))"

subsection \<open>Matrix of the AVR build\<close>

text \<open>
  The wires to the left hand are pins of three ports; the lines of the right hand are the upper half of port F and
  the lower half of port D, its inputs single pins of ports B to E. These pins are a function of the lines driven
  low.
\<close>

record 'h k80cs_avr = avr_ports +
  PORTE :: u8
  DDRE :: u8
  avr_processing_row :: u8
  avr_register_165_state :: u8
  avr_left_hand :: 'h

record avr_pins =
  pinb :: "(nat \<Rightarrow> bool) \<Rightarrow> u8"
  pinc :: "(nat \<Rightarrow> bool) \<Rightarrow> u8"
  pind :: "(nat \<Rightarrow> bool) \<Rightarrow> u8"
  pine :: "(nat \<Rightarrow> bool) \<Rightarrow> u8"

definition RIGHT_MATRIX_IN_1_MASK_k80cs :: u8 where "RIGHT_MATRIX_IN_1_MASK_k80cs = 0x40"
definition RIGHT_MATRIX_IN_2_MASK_k80cs :: u8 where "RIGHT_MATRIX_IN_2_MASK_k80cs = 0x80"
definition RIGHT_MATRIX_IN_3_MASK_k80cs :: u8 where "RIGHT_MATRIX_IN_3_MASK_k80cs = 0x40"
definition RIGHT_MATRIX_IN_4_MASK_k80cs :: u8 where "RIGHT_MATRIX_IN_4_MASK_k80cs = 0x90"
definition RIGHT_MATRIX_OUT_1_MASK_k80cs :: u8 where "RIGHT_MATRIX_OUT_1_MASK_k80cs = 0xF0"
definition RIGHT_MATRIX_OUT_2_MASK_k80cs :: u8 where "RIGHT_MATRIX_OUT_2_MASK_k80cs = 0x0F"
definition LEFT_O_LOAD_MASK :: u8 where "LEFT_O_LOAD_MASK = 0x01"
definition LEFT_I_DATA_MASK :: u8 where "LEFT_I_DATA_MASK = 0x02"
definition LEFT_CLK0_MASK :: u8 where "LEFT_CLK0_MASK = 0x20"
definition LEFT_CLK1_MASK :: u8 where "LEFT_CLK1_MASK = 0x01"

lemmas k80cs_masks = RIGHT_MATRIX_IN_1_MASK_k80cs_def RIGHT_MATRIX_IN_2_MASK_k80cs_def RIGHT_MATRIX_IN_3_MASK_k80cs_def
  RIGHT_MATRIX_IN_4_MASK_k80cs_def RIGHT_MATRIX_OUT_1_MASK_k80cs_def RIGHT_MATRIX_OUT_2_MASK_k80cs_def
  LEFT_O_LOAD_MASK_def LEFT_I_DATA_MASK_def LEFT_CLK0_MASK_def LEFT_CLK1_MASK_def

text \<open>\<open>LEFT_O_LOAD_HIGH\<close> and its kin; \<open>pin_write v m b\<close> is a port with the pins \<open>m\<close> set or cleared.\<close>

definition pin_write :: "u8 \<Rightarrow> u8 \<Rightarrow> bool \<Rightarrow> u8" where
  "pin_write v m b = (if b then v OR m else v AND NOT m)"

definition avr_wire :: "'h hand_ops \<Rightarrow> wire \<Rightarrow> bool \<Rightarrow> 'h k80cs_avr \<Rightarrow> 'h k80cs_avr" where
  "avr_wire dev w b s =
     (let s = (case w of
         oLoad \<Rightarrow> s\<lparr>PORTF := pin_write (PORTF s) LEFT_O_LOAD_MASK b\<rparr>
       | CLK0 \<Rightarrow> s\<lparr>PORTD := pin_write (PORTD s) LEFT_CLK0_MASK b\<rparr>
       | CLK1 \<Rightarrow> s\<lparr>PORTB := pin_write (PORTB s) LEFT_CLK1_MASK b\<rparr>)
      in s\<lparr>avr_left_hand := hand_wire dev w b (avr_left_hand s)\<rparr>)"

definition avr_iData :: "'h hand_ops \<Rightarrow> 'h k80cs_avr \<Rightarrow> bool" where
  "avr_iData dev s = hand_iData dev (avr_left_hand s)"

text \<open>The part of \<open>ports_init\<close> for the matrix.\<close>

definition ports_init_k80cs_avr :: "'h hand_ops \<Rightarrow> 'h k80cs_avr \<Rightarrow> 'h k80cs_avr" where
  "ports_init_k80cs_avr dev s =
     (let s = s\<lparr>DDRC := DDRC s AND NOT RIGHT_MATRIX_IN_1_MASK_k80cs, PORTC := PORTC s OR RIGHT_MATRIX_IN_1_MASK_k80cs\<rparr>;
          s = s\<lparr>DDRD := DDRD s AND NOT RIGHT_MATRIX_IN_2_MASK_k80cs, PORTD := PORTD s OR RIGHT_MATRIX_IN_2_MASK_k80cs\<rparr>;
          s = s\<lparr>DDRE := DDRE s AND NOT RIGHT_MATRIX_IN_3_MASK_k80cs, PORTE := PORTE s OR RIGHT_MATRIX_IN_3_MASK_k80cs\<rparr>;
          s = s\<lparr>DDRB := DDRB s AND NOT RIGHT_MATRIX_IN_4_MASK_k80cs, PORTB := PORTB s OR RIGHT_MATRIX_IN_4_MASK_k80cs\<rparr>;
          s = s\<lparr>DDRF := DDRF s AND NOT RIGHT_MATRIX_OUT_1_MASK_k80cs, PORTF := PORTF s AND NOT RIGHT_MATRIX_OUT_1_MASK_k80cs\<rparr>;
          s = s\<lparr>DDRD := DDRD s AND NOT RIGHT_MATRIX_OUT_2_MASK_k80cs, PORTD := PORTD s AND NOT RIGHT_MATRIX_OUT_2_MASK_k80cs\<rparr>;
          s = s\<lparr>DDRF := DDRF s OR LEFT_O_LOAD_MASK\<rparr>;
          s = s\<lparr>DDRF := DDRF s AND NOT LEFT_I_DATA_MASK\<rparr>;
          s = avr_wire dev oLoad True s;
          s = s\<lparr>DDRD := DDRD s OR LEFT_CLK0_MASK, DDRB := DDRB s OR LEFT_CLK1_MASK\<rparr>;
          s = avr_wire dev CLK1 False (avr_wire dev CLK0 False s)
      in clear_left (avr_wire dev) s)"

definition select_right_avr :: "u8 \<Rightarrow> 'h k80cs_avr \<Rightarrow> 'h k80cs_avr" where
  "select_right_avr matrix_row s =
     (let s = s\<lparr>DDRF := DDRF s AND NOT RIGHT_MATRIX_OUT_1_MASK_k80cs, DDRD := DDRD s AND NOT RIGHT_MATRIX_OUT_2_MASK_k80cs\<rparr>
      in if matrix_row < 12
         then let m = push_bit (unat matrix_row - 4) 1 in s\<lparr>DDRF := DDRF s OR m, PORTF := PORTF s AND NOT m\<rparr>
         else let m = push_bit (unat matrix_row - 12) 1 in s\<lparr>DDRD := DDRD s OR m, PORTD := PORTD s AND NOT m\<rparr>)"

definition matrix_select_row_k80cs_avr :: "'h hand_ops \<Rightarrow> u8 \<Rightarrow> 'h k80cs_avr \<Rightarrow> 'h k80cs_avr" where
  "matrix_select_row_k80cs_avr dev matrix_row s =
     (let s = (if unat matrix_row < MATRIX_ROWS_k80cs div 2 then select_left (avr_wire dev) matrix_row s
               else select_right_avr matrix_row s)
      in s\<lparr>avr_processing_row := matrix_row\<rparr>)"

text \<open>Line \<open>k\<close> of the right hand is driven low.\<close>

definition line_low :: "'h k80cs_avr \<Rightarrow> nat \<Rightarrow> bool" where
  "line_low s k =
     (if k < 4 then bit (DDRF s) (k + 4) \<and> \<not> bit (PORTF s) (k + 4)
      else k < 8 \<and> bit (DDRD s) (k - 4) \<and> \<not> bit (PORTD s) (k - 4))"

definition read_right_avr :: "avr_pins \<Rightarrow> u8 \<Rightarrow> 'h k80cs_avr \<Rightarrow> u8" where
  "read_right_avr pins matrix_column s =
     (if matrix_column = 0 then pinc pins (line_low s) AND RIGHT_MATRIX_IN_1_MASK_k80cs
      else if matrix_column = 1 then pind pins (line_low s) AND RIGHT_MATRIX_IN_2_MASK_k80cs
      else if matrix_column = 2 then pine pins (line_low s) AND RIGHT_MATRIX_IN_3_MASK_k80cs
      else if matrix_column = 3 then pinb pins (line_low s) AND push_bit 4 1
      else if matrix_column = 4 then pinb pins (line_low s) AND push_bit 7 1
      else 1)"

definition matrix_read_column_k80cs_avr :: "'h hand_ops \<Rightarrow> avr_pins \<Rightarrow> u8 \<Rightarrow> 'h k80cs_avr \<Rightarrow> bool \<times> 'h k80cs_avr" where
  "matrix_read_column_k80cs_avr dev pins matrix_column s =
     (let (v, s) = (if unat (avr_processing_row s) < MATRIX_ROWS_k80cs div 2 then
            let s = (if matrix_column = 0
                     then let (v, s) = shift_in (avr_wire dev) (avr_iData dev) 4 (if avr_iData dev s then 1 else 0) s
                          in s\<lparr>avr_register_165_state := v\<rparr>
                     else s)
            in (if push_bit (unat matrix_column) 1 AND avr_register_165_state s \<noteq> 0 then 1 else 0, s)
          else (read_right_avr pins matrix_column s, s))
      in (v = 0, s))"

subsection \<open>Light sensor\<close>

text \<open>
  The sensor of the XMEGA build is powered through a converter whose output rises step by step; the codes of the
  voltages 1.1, 2.6 and 0.115 are what \<open>get_photoDrv_voltage_code\<close> computes of these constants. A call sees the
  time, what its up to three readings of the 2 microsecond counter give, and the finished conversion, if any;
  \<open>adc_started\<close> is the start bit of the converter.
\<close>

datatype photosensor_state = PHOTOSENSOR_OFF | PHOTOSENSOR_STARTING | PHOTOSENSOR_STARTED | PHOTOSENSOR_WAITING | PHOTOSENSOR_RUNNING

record k80cs_state = board_state +
  photo_state :: photosensor_state
  next_step_time_2us :: u16
  DACB_CH0DATA :: u16

definition photoDrv_1100mV :: u16 where "photoDrv_1100mV = 1365"
definition photoDrv_2600mV :: u16 where "photoDrv_2600mV = 3227"
definition photoDrv_115mV :: u16 where "photoDrv_115mV = 142"

definition step_not_due :: "u16 \<Rightarrow> u16 \<Rightarrow> u16 \<Rightarrow> bool" where
  "step_not_due cnt cnt' due \<longleftrightarrow> cnt < due \<or> cnt' - due > 0x8000"

definition photosensor_result :: "u32 \<Rightarrow> 'a k80cs_state_scheme \<Rightarrow> 'a k80cs_state_scheme" where
  "photosensor_result cur_time_ms s =
     (let adc_average = fold (\<lambda>i a. a + ucast (adc_rv s ! i)) [0..<20] (0 :: u32) div 20;
          lux_val = (if adc_average < 182 then 0 else ucast (adc_average - 182));
          s = set_all_leds LEDMASK_NOP (s\<lparr>sLuxValToShowOnLcd := lux_val\<rparr>)
      in s\<lparr>DACB_CH0DATA := photoDrv_1100mV, next_step_time_ms := cur_time_ms + 1000, photo_state := PHOTOSENSOR_OFF\<rparr>)"

definition run_photosensor_k80cs ::
    "u32 \<Rightarrow> u16 \<times> u16 \<times> u16 \<Rightarrow> u16 option \<Rightarrow> 'a k80cs_state_scheme \<Rightarrow> bool \<times> 'a k80cs_state_scheme" where
  "run_photosensor_k80cs cur_time_ms cnt adc s =
     (let (c1, c2, c3) = cnt in
      case photo_state s of
        PHOTOSENSOR_OFF \<Rightarrow>
          if cur_time_ms < next_step_time_ms s then (False, s)
          else (False, s\<lparr>DACB_CH0DATA := photoDrv_1100mV, next_step_time_2us := c1 + 7, photo_state := PHOTOSENSOR_STARTING\<rparr>)
      | PHOTOSENSOR_STARTING \<Rightarrow>
          if step_not_due c1 c2 (next_step_time_2us s) then (False, s)
          else if DACB_CH0DATA s \<ge> photoDrv_2600mV
          then (False, s\<lparr>DACB_CH0DATA := 0xFFF, next_step_time_2us := c3 + 51, photo_state := PHOTOSENSOR_STARTED\<rparr>)
          else (False, s\<lparr>DACB_CH0DATA := DACB_CH0DATA s + photoDrv_115mV, next_step_time_2us := c3 + 7\<rparr>)
      | PHOTOSENSOR_STARTED \<Rightarrow>
          if step_not_due c1 c2 (next_step_time_2us s) then (False, s)
          else (False, s\<lparr>adc_index := 0, next_step_time_ms := cur_time_ms + 1, photo_state := PHOTOSENSOR_WAITING\<rparr>)
      | PHOTOSENSOR_WAITING \<Rightarrow>
          if cur_time_ms < next_step_time_ms s then (False, s)
          else (False, s\<lparr>adc_started := True, next_step_time_ms := cur_time_ms + 1, photo_state := PHOTOSENSOR_RUNNING\<rparr>)
      | PHOTOSENSOR_RUNNING \<Rightarrow> (case adc of None \<Rightarrow> (False, s) | Some ch0res \<Rightarrow>
          let s = s\<lparr>adc_started := False, adc_rv := (adc_rv s)[adc_index s := ch0res AND 0x0FFF], adc_index := adc_index s + 1\<rparr>
          in if adc_index s < 20 then (False, s\<lparr>next_step_time_ms := cur_time_ms + 1, photo_state := PHOTOSENSOR_WAITING\<rparr>)
             else (False, photosensor_result cur_time_ms s)))"

end
