(* ===== verification/K80csCorrect.thy ===== *)
theory K80csCorrect
  imports K80cs KatyMatrixCorrect OtherBoardsCorrect InterpreterCorrect
begin

text \<open>
  Both builds of the K80CS drive the matrix as locale \<open>two_hands\<close> of \<open>KatyMatrixCorrect\<close> demands, so that their
  scans find the keys that are held. The sequencer of the light sensor keeps within its buffer, converts at full power
  only, and gives values the panel can show.
\<close>

subsection \<open>The XMEGA build\<close>

locale k80cs_keys = katy_left dev level lines shifted 8 5 keys
  for dev :: "'h hand_ops" and level lines shifted keys +
  fixes pins :: right_pins
  assumes portd: "k < 8 \<Longrightarrow> c < 5 \<Longrightarrow> \<not> bit out k \<Longrightarrow> bit (portd pins (push_bit k 1) out) c \<longleftrightarrow> \<not> keys (8 + k) c"

lemma k80cs_table: "r < 16 \<Longrightarrow> matrix_to_logical_map_k80cs ! r ! 0 \<noteq> NO_KEY"
proof -
  have "list_all (\<lambda>r. matrix_to_logical_map_k80cs ! r ! 0 \<noteq> NO_KEY) [0..<16]" by code_simp
  then show "r < 16 \<Longrightarrow> matrix_to_logical_map_k80cs ! r ! 0 \<noteq> NO_KEY" by (simp add: list_all_iff)
qed

context k80cs_keys begin

lemma right_column_read:
  assumes "processing_row s = of_nat (8 + k)" "right_selected k s" "k < 8" "c < 5"
  shows "matrix_read_column_k80cs dev pins (of_nat c) s = (keys (8 + k) c, s)"
proof -
  have "unat (processing_row s) = 8 + k" using assms(1,3) u8_of_nat [of "8 + k"] by simp
  moreover have "unat (of_nat c :: u8) = c" using assms by (intro u8_of_nat) simp
  ultimately show ?thesis
    using assms(2-4) drop_bit_one portd [of k c "PORTA_OUT s"]
    by (simp add: matrix_read_column_k80cs_def Let_def right_selected_def MATRIX_ROWS_k80cs_def)
qed

end

sublocale k80cs_keys \<subseteq> board: two_hands "PORTC_wire dev" "PORTC_iData dev" "\<lambda>s. level (left_hand s)" "\<lambda>s. lines (left_hand s)"
    "\<lambda>s. shifted (left_hand s)" 8 5 keys processing_row register_165_state
    "\<lambda>r s. s\<lparr>processing_row := r\<rparr>" "\<lambda>v s. s\<lparr>register_165_state := v\<rparr>" right_selected "select_right 8"
    "matrix_select_row_k80cs dev" "matrix_read_column_k80cs dev pins" matrix_to_logical_map_k80cs
proof (unfold_locales)
  show "right_selected k (select_right 8 (of_nat (8 + k)) s)" if "k < 8" for k and s :: "'a katy_state"
    using line_is_low [of 8 k s] that by simp
qed (use right_column_read k80cs_table in \<open>auto simp: matrix_select_row_k80cs_def matrix_read_column_k80cs_def read_left_def MATRIX_ROWS_k80cs_def
  split: prod.splits\<close>)

subsection \<open>The AVR build\<close>

locale k80cs_avr_keys = katy_left dev level lines shifted 8 5 keys
  for dev :: "'h hand_ops" and level lines shifted keys +
  fixes pins :: avr_pins
  assumes inputs: "k < 8 \<Longrightarrow> bit (pinc pins (\<lambda>j. j = k)) 6 \<longleftrightarrow> \<not> keys (8 + k) 0" "k < 8 \<Longrightarrow> bit (pind pins (\<lambda>j. j = k)) 7 \<longleftrightarrow> \<not> keys (8 + k) 1"
    "k < 8 \<Longrightarrow> bit (pine pins (\<lambda>j. j = k)) 6 \<longleftrightarrow> \<not> keys (8 + k) 2" "k < 8 \<Longrightarrow> bit (pinb pins (\<lambda>j. j = k)) 4 \<longleftrightarrow> \<not> keys (8 + k) 3"
    "k < 8 \<Longrightarrow> bit (pinb pins (\<lambda>j. j = k)) 7 \<longleftrightarrow> \<not> keys (8 + k) 4"

definition right_selected_avr :: "nat \<Rightarrow> 'h k80cs_avr \<Rightarrow> bool" where
  "right_selected_avr k s \<longleftrightarrow> line_low s = (\<lambda>j. j = k)"

lemma nibbles: "bit (0xF0 :: u8) j \<longleftrightarrow> 4 \<le> j \<and> j < 8" "bit (0x0F :: u8) j \<longleftrightarrow> j < 4"
    "bit (- 241 :: u8) j \<longleftrightarrow> j < 4" "bit (- 16 :: u8) j \<longleftrightarrow> 4 \<le> j \<and> j < 8"
proof -
  have m: "(0x0F :: u8) = mask 4" "(0xF0 :: u8) = push_bit 4 (mask 4)" "(- 241 :: u8) = mask 4" "(- 16 :: u8) = push_bit 4 (mask 4)"
    by (simp_all add: mask_eq_decr_exp)
  show "bit (0xF0 :: u8) j \<longleftrightarrow> 4 \<le> j \<and> j < 8" "bit (0x0F :: u8) j \<longleftrightarrow> j < 4"
    "bit (- 241 :: u8) j \<longleftrightarrow> j < 4" "bit (- 16 :: u8) j \<longleftrightarrow> 4 \<le> j \<and> j < 8"
    unfolding m by (auto simp only: bit_push_bit_iff bit_mask_iff) (auto dest: bit_imp_le_length)
qed

lemma line_is_low_avr:
  assumes "unat r = 8 + k" "k < 8"
  shows "right_selected_avr k (select_right_avr r s)"
proof -
  have w: "r < 12 \<longleftrightarrow> k < 4" using assms(1) by (simp add: word_less_nat_alt)
  have "line_low (select_right_avr r s) j \<longleftrightarrow> j = k" for j
    unfolding line_low_def select_right_avr_def Let_def w assms(1) k80cs_masks using assms(2)
    by (auto simp: bit_and_iff bit_or_iff bit_not_iff bit_push_bit_iff bit_exp_iff nibbles simp del: bit_neg_numeral_word_iff)
  then show ?thesis by (auto simp: right_selected_avr_def)
qed

context k80cs_avr_keys begin

lemma right_column_read:
  assumes "avr_processing_row s = of_nat (8 + k)" "right_selected_avr k s" "k < 8" "c < 5"
  shows "matrix_read_column_k80cs_avr dev pins (of_nat c) s = (keys (8 + k) c, s)"
proof -
  have r: "unat (avr_processing_row s) = 8 + k" using assms(1,3) u8_of_nat [of "8 + k"] by simp
  have "c \<in> {0, 1, 2, 3, 4}" using assms(4) by auto
  then have "read_right_avr pins (of_nat c) s = 0 \<longleftrightarrow> keys (8 + k) c"
    using inputs [OF assms(3)] assms(2) and_bit_eq_0 [of _ 6] and_bit_eq_0 [of _ 7] and_bit_eq_0 [of _ 4]
    by (elim insertE emptyE) (simp_all add: read_right_avr_def k80cs_masks right_selected_avr_def)
  then show ?thesis by (simp add: matrix_read_column_k80cs_avr_def r MATRIX_ROWS_k80cs_def)
qed

end

sublocale katy_left \<subseteq> avr: left_wires "avr_wire dev" "avr_iData dev" "\<lambda>s. level (avr_left_hand s)" "\<lambda>s. lines (avr_left_hand s)"
    "\<lambda>s. shifted (avr_left_hand s)" "rows_read half n keys"
  by unfold_locales (simp_all add: avr_wire_def avr_iData_def hand.level hand.lines hand.shifted hand.iData split: wire.splits)

lemma avr_frame [simp]:
  "avr_processing_row (avr_wire dev w b s) = avr_processing_row s"
  "avr_left_hand (select_right_avr r s) = avr_left_hand s"
  "right_selected_avr k (s\<lparr>avr_processing_row := r\<rparr>) = right_selected_avr k s"
  by (simp_all add: avr_wire_def select_right_avr_def Let_def right_selected_avr_def line_low_def fun_eq_iff split: wire.splits)

sublocale k80cs_avr_keys \<subseteq> board: two_hands "avr_wire dev" "avr_iData dev" "\<lambda>s. level (avr_left_hand s)" "\<lambda>s. lines (avr_left_hand s)"
    "\<lambda>s. shifted (avr_left_hand s)" 8 5 keys avr_processing_row avr_register_165_state
    "\<lambda>r s. s\<lparr>avr_processing_row := r\<rparr>" "\<lambda>v s. s\<lparr>avr_register_165_state := v\<rparr>" right_selected_avr select_right_avr
    "matrix_select_row_k80cs_avr dev" "matrix_read_column_k80cs_avr dev pins" matrix_to_logical_map_k80cs
proof (unfold_locales)
  show "right_selected_avr k (select_right_avr (of_nat (8 + k)) s)" if "k < 8" for k and s :: "'a k80cs_avr"
    using line_is_low_avr [of "of_nat (8 + k)" k s] u8_of_nat [of "8 + k"] that by simp
qed (use right_column_read k80cs_table in \<open>auto simp: matrix_select_row_k80cs_avr_def matrix_read_column_k80cs_avr_def MATRIX_ROWS_k80cs_def
  split: prod.splits\<close>)

text \<open>Both boards with the registers and inputs of \<open>KatyMatrixCorrect\<close>.\<close>

definition chip_pins_k80cs :: "(nat \<Rightarrow> nat \<Rightarrow> bool) \<Rightarrow> right_pins" where
  "chip_pins_k80cs keys = \<lparr>portb = (\<lambda>dir out. 0), portd = pulled_pins 8 keys (\<lambda>c. c)\<rparr>"

definition chip_avr_pins :: "(nat \<Rightarrow> nat \<Rightarrow> bool) \<Rightarrow> avr_pins" where
  "chip_avr_pins keys =
     (let inputs = (\<lambda>column low. horner_sum of_bool 2 (map (\<lambda>c. \<not> (\<exists>k < 8. low k \<and> keys (8 + k) (column c))) [0..<8]))
      in \<lparr>pinb = inputs (\<lambda>c. if c = 4 then 3 else 4), pinc = inputs (\<lambda>c. 0), pind = inputs (\<lambda>c. 1), pine = inputs (\<lambda>c. 2)\<rparr>)"

interpretation chips_k80cs: k80cs_keys "chip_ops 8 5 keys" chip_level chip_lines chip_shifted keys "chip_pins_k80cs keys" for keys
  by (intro k80cs_keys.intro katy_left.intro k80cs_keys_axioms.intro chip_registers)
    (simp_all add: chip_pins_k80cs_def bit_pulled_pins del: push_bit_of_1)

interpretation chips_k80cs_avr: k80cs_avr_keys "chip_ops 8 5 keys" chip_level chip_lines chip_shifted keys "chip_avr_pins keys" for keys
  by (intro k80cs_avr_keys.intro katy_left.intro k80cs_avr_keys_axioms.intro chip_registers)
    (auto simp: chip_avr_pins_def bit_horner_sum_bit_word_iff)

text \<open>The scan of both builds.\<close>

context k80cs_keys begin

lemma scan_finds:
  assumes "hand_rested level lines (left_hand s)"
  shows "\<exists>t. scan_ports (matrix_select_row_k80cs dev) (matrix_read_column_k80cs dev pins) matrix_to_logical_map_k80cs
      MATRIX_ROWS_k80cs MATRIX_COLS_k80cs 10 s
    = (scan_keys matrix_to_logical_map_k80cs MATRIX_ROWS_k80cs MATRIX_COLS_k80cs 10 keys, t) \<and> hand_rested level lines (left_hand t)"
  using board.scan_finds [of s 10] assms by (simp add: hand_rested_def MATRIX_ROWS_k80cs_def MATRIX_COLS_k80cs_def)

end

context k80cs_avr_keys begin

lemma scan_finds:
  assumes "hand_rested level lines (avr_left_hand s)"
  shows "\<exists>t. scan_ports (matrix_select_row_k80cs_avr dev) (matrix_read_column_k80cs_avr dev pins) matrix_to_logical_map_k80cs
      MATRIX_ROWS_k80cs MATRIX_COLS_k80cs 10 s
    = (scan_keys matrix_to_logical_map_k80cs MATRIX_ROWS_k80cs MATRIX_COLS_k80cs 10 keys, t) \<and> hand_rested level lines (avr_left_hand t)"
  using board.scan_finds [of s 10] assms by (simp add: hand_rested_def MATRIX_ROWS_k80cs_def MATRIX_COLS_k80cs_def)

end

lemma k80cs_tables_consistent:
  "consistent_tables KEYPAD_LAYER_SIZE_k80cs MATRIX_ROWS_k80cs MATRIX_COLS_k80cs matrix_to_logical_map_k80cs logical_to_hid_map_default_k80cs"
  by code_simp

subsection \<open>The light sensor\<close>

definition photo_ok :: "'a k80cs_state_scheme \<Rightarrow> bool" where
  "photo_ok s \<longleftrightarrow> length (adc_rv s) = 20 \<and> list_all (\<lambda>v. v \<le> 0xFFF) (adc_rv s) \<and> DACB_CH0DATA s \<le> 0xFFF \<and> sLuxValToShowOnLcd s \<le> 3913 \<and>
     (case photo_state s of PHOTOSENSOR_OFF \<Rightarrow> True
      | PHOTOSENSOR_STARTING \<Rightarrow> photoDrv_1100mV \<le> DACB_CH0DATA s \<and> DACB_CH0DATA s < photoDrv_2600mV + photoDrv_115mV
      | PHOTOSENSOR_STARTED \<Rightarrow> DACB_CH0DATA s = 0xFFF
      | _ \<Rightarrow> DACB_CH0DATA s = 0xFFF \<and> adc_index s < 20)"

lemma set_all_leds_photo [simp]:
  "adc_rv (set_all_leds m s) = adc_rv s" "adc_index (set_all_leds m s) = adc_index s"
  "sLuxValToShowOnLcd (set_all_leds m s) = sLuxValToShowOnLcd s"
  by (simp_all add: set_all_leds_def Let_def lcd_print_position_def lcd_out_def update_leds_def)

lemma sample_sum:
  fixes rv :: "u16 list"
  assumes "list_all (\<lambda>v. v \<le> 0xFFF) rv" "n \<le> length rv" "length rv = 20"
  shows "unat (fold (\<lambda>i a. a + ucast (rv ! i)) [0..<n] (0 :: u32)) \<le> n * 4095"
  using assms(2)
proof (induction n)
  case (Suc n)
  let ?a = "fold (\<lambda>i a. a + ucast (rv ! i)) [0..<n] (0 :: u32)"
  have "unat (rv ! n) \<le> 4095" using assms(1) Suc.prems by (simp add: list_all_length word_le_nat_alt)
  then have v: "unat (ucast (rv ! n) :: u32) \<le> 4095" by (simp add: unsigned_ucast_eq take_bit_nat_eq_self)
  have a: "unat ?a \<le> n * 4095" using Suc by simp
  have "n * 4095 + 4095 < 2 ^ 32" using Suc.prems assms(3) by simp
  then have "unat (?a + ucast (rv ! n)) = unat ?a + unat (ucast (rv ! n) :: u32)" using a v by (intro unat_add_lem [THEN iffD1]) simp
  then show ?case using a v by simp
qed simp

text \<open>Samples of twelve bits give at most 3913.\<close>

lemma lux_bound:
  fixes rv :: "u16 list"
  assumes "list_all (\<lambda>v. v \<le> 0xFFF) rv" "length rv = 20"
  shows "(let a = fold (\<lambda>i a. a + ucast (rv ! i)) [0..<20] (0 :: u32) div 20 in if a < 182 then 0 else ucast (a - 182) :: u16) \<le> 3913"
proof -
  let ?a = "fold (\<lambda>i a. a + ucast (rv ! i)) [0..<20] (0 :: u32) div 20"
  have "unat ?a \<le> 4095" using sample_sum [of rv 20] assms by (simp add: unat_div)
  then have "unat (ucast (?a - 182) :: u16) \<le> 3913" if "\<not> ?a < 182"
    using that by (simp add: unsigned_ucast_eq unat_sub word_less_nat_alt not_less word_le_nat_alt take_bit_nat_eq_self)
  then show ?thesis by (auto simp: Let_def word_le_nat_alt)
qed

lemma photo_result:
  assumes "length (adc_rv s) = 20" "list_all (\<lambda>v. v \<le> 0xFFF) (adc_rv s)"
  shows "photo_ok (photosensor_result t s)"
  using assms lux_bound [of "adc_rv s"] by (simp add: photosensor_result_def photo_ok_def photoDrv_1100mV_def Let_def)

lemma photo_step:
  assumes "photo_ok s"
  shows "photo_ok (snd (run_photosensor_k80cs t cnt adc s))"
proof (cases "photo_state s")
  case PHOTOSENSOR_RUNNING
  show ?thesis
  proof (cases adc)
    case (Some v)
    let ?s = "s\<lparr>adc_started := False, adc_rv := (adc_rv s)[adc_index s := v AND 0x0FFF], adc_index := adc_index s + 1\<rparr>"
    have "v AND 0x0FFF \<le> 0xFFF" by (rule word_and_le1)
    then have "list_all (\<lambda>v. v \<le> 0xFFF) (adc_rv ?s)"
      using assms PHOTOSENSOR_RUNNING by (auto simp: photo_ok_def list_all_length nth_list_update)
    moreover have l: "length (adc_rv ?s) = 20" using assms by (simp add: photo_ok_def)
    ultimately have r: "photo_ok (photosensor_result t ?s)" by (intro photo_result)
    have e: "snd (run_photosensor_k80cs t cnt adc s) = (if adc_index s < 19 then
        ?s\<lparr>next_step_time_ms := t + 1, photo_state := PHOTOSENSOR_WAITING\<rparr> else photosensor_result t ?s)"
      using PHOTOSENSOR_RUNNING Some by (simp add: run_photosensor_k80cs_def Let_def split: prod.splits)
    show ?thesis
    proof (cases "adc_index s < 19")
      case True
      then show ?thesis using e assms PHOTOSENSOR_RUNNING \<open>list_all _ (adc_rv ?s)\<close> by (simp add: photo_ok_def)
    qed (use e r in simp)
  qed (use assms PHOTOSENSOR_RUNNING in \<open>simp add: run_photosensor_k80cs_def split: prod.splits\<close>)
next
  case PHOTOSENSOR_STARTING
  have "d + photoDrv_115mV < photoDrv_2600mV + photoDrv_115mV" "photoDrv_1100mV \<le> d + photoDrv_115mV" "d + photoDrv_115mV \<le> 0xFFF"
    if "d < photoDrv_2600mV" "photoDrv_1100mV \<le> d" for d
    using that by (simp_all add: photoDrv_1100mV_def photoDrv_2600mV_def photoDrv_115mV_def word_less_nat_alt word_le_nat_alt unat_word_ariths)
  then show ?thesis using assms PHOTOSENSOR_STARTING
    by (auto simp: run_photosensor_k80cs_def photo_ok_def split: prod.splits)
qed (use assms in \<open>auto simp: run_photosensor_k80cs_def photo_ok_def photoDrv_1100mV_def photoDrv_2600mV_def photoDrv_115mV_def split: prod.splits\<close>)

definition run_sensor :: "(u32 \<times> (u16 \<times> u16 \<times> u16) \<times> u16 option) list \<Rightarrow> 'a k80cs_state_scheme \<Rightarrow> 'a k80cs_state_scheme" where
  "run_sensor calls s = fold (\<lambda>(t, cnt, adc) s. snd (run_photosensor_k80cs t cnt adc s)) calls s"

lemma run_sensor_ok: "photo_ok s \<Longrightarrow> photo_ok (run_sensor calls s)"
  unfolding run_sensor_def by (induction calls arbitrary: s) (auto simp: photo_step)

lemma light_changes:
  assumes "photo_ok s" "sLuxValToShowOnLcd (snd (run_photosensor_k80cs t cnt adc s)) \<noteq> sLuxValToShowOnLcd s"
  shows "photo_state s = PHOTOSENSOR_RUNNING \<and> adc \<noteq> None \<and> adc_index s = 19 \<and> DACB_CH0DATA s = 0xFFF"
  using assms by (cases "photo_state s"; cases adc) (auto simp: run_photosensor_k80cs_def photo_ok_def Let_def split: prod.splits if_splits)

text \<open>
  C35: the light sensor of the K80CS. However its calls, the counter and the converter interleave, from the off state
  the sequencer never writes outside its buffer of twenty samples, raises the supply only within the range of the
  converter, converts at full power only, and changes the light value only with the twentieth sample of a set, to
  one of at most four digits.
\<close>

theorem photosensor_k80cs_invariant:
  assumes "photo_state s = PHOTOSENSOR_OFF" "DACB_CH0DATA s = 0" "adc_rv s = replicate 20 0" "sLuxValToShowOnLcd s = 0"
  shows "let u = run_sensor calls s in photo_ok u
    \<and> (sLuxValToShowOnLcd (snd (run_photosensor_k80cs t cnt adc u)) \<noteq> sLuxValToShowOnLcd u \<longrightarrow>
        photo_state u = PHOTOSENSOR_RUNNING \<and> adc \<noteq> None \<and> adc_index u = 19 \<and> DACB_CH0DATA u = 0xFFF)"
proof -
  have "photo_ok s" using assms by (simp add: photo_ok_def list_all_length)
  then have "photo_ok (run_sensor calls s)" by (rule run_sensor_ok)
  then show ?thesis using light_changes unfolding Let_def by blast
qed

definition dark_sensor :: k80cs_state where
  "dark_sensor = board_state.extend
     (interpreter_state.extend (interpreter_state.truncate sample_machines)
       (board_state.fields 0 0 0 0 0 [] None None None None 500 (replicate 20 0) False 0))
     (k80cs_state.fields PHOTOSENSOR_OFF 0 0)"

theorem photosensor_k80cs_invariant_witness:
  "photo_ok (run_sensor [(500, (0, 0, 0), None), (500, (7, 7, 7), None)] dark_sensor)"
proof -
  have f: "photo_state dark_sensor = PHOTOSENSOR_OFF" "DACB_CH0DATA dark_sensor = 0" "adc_rv dark_sensor = replicate 20 0"
    "sLuxValToShowOnLcd dark_sensor = 0"
    by (simp_all add: dark_sensor_def board_state.defs interpreter_state.defs k80cs_state.defs)
  show ?thesis
    using photosensor_k80cs_invariant [OF f, of "[(500, (0, 0, 0), None), (500, (7, 7, 7), None)]"] unfolding Let_def by blast
qed

text \<open>
  A step that falls due just before the counter wraps is missed when no call comes before the wrap: while every
  reading is below the due time nothing happens.
\<close>

theorem photosensor_k80cs_misses_wrap:
  assumes "photo_state s = PHOTOSENSOR_STARTING \<or> photo_state s = PHOTOSENSOR_STARTED"
    and "\<forall>(t, (c1, c2, c3), adc) \<in> set calls. c1 < next_step_time_2us s"
  shows "run_sensor calls s = s"
  using assms unfolding run_sensor_def
  by (induction calls) (auto simp: run_photosensor_k80cs_def step_not_due_def)

end
