(* ===== verification/VusbMain.thy ===== *)
theory VusbMain
  imports Storage "HOL-Library.Monad_Syntax"
begin

text \<open>
  \<open>vusb/vusb_main.c\<close>: the main program of the boards that bit-bang USB with the V-USB driver. It answers the
  control requests of the host, moves data between the host and the storage in packets of at most eight bytes,
  keeps the time from a free-running timer and sends the reports. What it calls of the firmware is a record of
  functions on the state \<open>'f\<close> of the rest of the firmware, and what the board's header and the linker fix is a
  record of constants: the program is compiled for several boards. The driver is the caller of the request
  functions; its \<open>usbPoll\<close>, and whether an endpoint is ready, are arguments. \<open>main\<close> sets up the timer and the
  connection and enters \<open>Keyboard_Main\<close>.
\<close>

subsection \<open>What the program is compiled against\<close>

text \<open>
  The functions of the firmware. Reports are their bytes, filled into a buffer; the flags are the byte they are cast to. A storage
  operation that does not return is \<open>None\<close>; \<open>read\<close> delivers the value of the C function and the buffer.
\<close>

record 'f firmware =
  fw_Fill_KeyboardReport :: "u8 list \<Rightarrow> 'f \<Rightarrow> u8 list \<times> 'f"
  fw_Fill_MouseReport :: "u8 list \<Rightarrow> 'f \<Rightarrow> u8 list \<times> 'f"
  fw_Process_KeyboardLEDReport :: "u8 \<Rightarrow> 'f \<Rightarrow> 'f"
  fw_Update_Millis :: "u8 \<Rightarrow> 'f \<Rightarrow> 'f"
  fw_buzzer_start :: "u16 \<Rightarrow> 'f \<Rightarrow> 'f"
  fw_vm_init :: "'f \<Rightarrow> 'f"
  fw_config_get_flags :: "'f \<Rightarrow> u8"
  fw_config_save_flags :: "u8 \<Rightarrow> 'f \<Rightarrow> 'f"
  fw_config_reset_defaults :: "'f \<Rightarrow> 'f"
  fw_config_reset_fully :: "'f \<Rightarrow> 'f"
  fw_avr_eeprom_write_step :: "u16 \<Rightarrow> u8 list \<Rightarrow> u8 \<Rightarrow> bool \<Rightarrow> 'f \<Rightarrow> (u8 \<times> 'f) option"
  fw_i2c_eeprom_write_step :: "u16 \<Rightarrow> u8 list \<Rightarrow> u8 \<Rightarrow> bool \<Rightarrow> 'f \<Rightarrow> (u8 \<times> 'f) option"
  fw_avr_eeprom_read :: "u16 \<Rightarrow> u16 \<Rightarrow> 'f \<Rightarrow> (u16 \<times> u8 list \<times> 'f) option"
  fw_avr_pgm_read :: "u16 \<Rightarrow> u16 \<Rightarrow> 'f \<Rightarrow> (u16 \<times> u8 list \<times> 'f) option"
  fw_i2c_eeprom_read :: "u16 \<Rightarrow> u16 \<Rightarrow> 'f \<Rightarrow> (u16 \<times> u8 list \<times> 'f) option"

text \<open>
  The constants of the board. \<open>wheel\<close> is the field \<open>Wheel\<close> the main loop reads of a mouse report, which the
  structure of the report does not have.
\<close>

record board =
  board_PROGRAM_COUNT :: u8
  board_LAYOUT_ID :: u8
  board_NUM_LOGICAL_KEYS :: u16
  board_MACRO_MAX_KEYS :: u8
  board_PROGRAM_SIZE :: u16
  board_MACRO_INDEX_SIZE :: u16
  board_MACROS_SIZE :: u16
  board_PROGRAM_STORAGE :: u8
  board_MACRO_INDEX_STORAGE :: u8
  board_MACROS_STORAGE :: u8
  board_MAPPING_STORAGE :: u8
  board_CONSTANT_STORAGE :: u8
  programs_address :: u16
  macro_index_address :: u16
  macros_address :: u16
  mapping_address :: u16
  default_mapping_address :: u16
  wheel :: "u8 list \<Rightarrow> u8"

text \<open>\<open>storage_type\<close> and \<open>transfer_action\<close>, which the build makes one byte long.\<close>

definition storage_avr_pgm :: u8 where "storage_avr_pgm = 1"
definition storage_avr_eeprom :: u8 where "storage_avr_eeprom = 2"
definition storage_i2c_eeprom :: u8 where "storage_i2c_eeprom = 3"
definition transfer_LED_REPORT :: u8 where "transfer_LED_REPORT = 0"
definition transfer_READ :: u8 where "transfer_READ = 1"
definition transfer_WRITE :: u8 where "transfer_WRITE = 2"

lemmas transfer_codes = storage_avr_pgm_def storage_avr_eeprom_def storage_i2c_eeprom_def
  transfer_LED_REPORT_def transfer_READ_def transfer_WRITE_def

text \<open>
  The functions of \<open>storage/avr_eeprom.h\<close> that come in here, on the contents of the internal EEPROM, and the one of
  \<open>storage/avr_pgm.h\<close>, on the program memory; the library copies the blocks.
\<close>

definition avr_eeprom_write_step :: "u16 \<Rightarrow> u8 list \<Rightarrow> u8 \<Rightarrow> bool \<Rightarrow> memory \<Rightarrow> (u8 \<times> memory) option" where
  "avr_eeprom_write_step dst data len last_step m = Some (0, mem_write m (unat dst) (take (unat len) data))"

definition avr_eeprom_read :: "u16 \<Rightarrow> u16 \<Rightarrow> memory \<Rightarrow> (u16 \<times> u8 list \<times> memory) option" where
  "avr_eeprom_read addr len m = Some (len, mem_read m (unat addr) (unat len), m)"

definition avr_pgm_read :: "u16 \<Rightarrow> u16 \<Rightarrow> memory \<Rightarrow> (u16 \<times> u8 list \<times> memory) option" where
  "avr_pgm_read src len m = Some (len, map (\<lambda>i. m (unat src + i)) [0..<unat len], m)"

subsection \<open>State\<close>

text \<open>Where \<open>usbMsgPtr\<close> points: the driver sends the bytes found there.\<close>

datatype msg_ptr = at_KeyboardReportData | at_MouseReportData | at_kbd_idleRate | at_mouse_idleRate
  | at_reportProtocol | at_transfer_byte | at_transfer_word

text \<open>
  The union \<open>transfer\<close> has the layout of its structure: one byte each for the action and the storage, then the
  address and the remaining length. Its members \<open>byte\<close> and \<open>word\<close> lie over the first one and two bytes.
  \<open>transfer_callback\<close> is null or \<open>vm_init\<close>. \<open>sent_keyboard\<close> and \<open>sent_mouse\<close> are the reports handed to the driver.
\<close>

record 'f vusb_state =
  kbd_idleRate :: u8
  mouse_idleRate :: u8
  reportProtocol :: u8
  KeyboardReportData :: "u8 list"
  PrevKeyboardHIDReportBuffer :: "u8 list"
  MouseReportData :: "u8 list"
  PrevMouseHIDReportBuffer :: "u8 list"
  transfer_type :: u8
  transfer_storage :: u8
  transfer_addr :: u16
  transfer_remaining :: u16
  transfer_callback :: bool
  usbMsgPtr :: msg_ptr
  keyboard_idle_ms :: u8
  mouse_idle_ms :: u8
  uptime_remainder :: u8
  TCNT1 :: u16
  in_poll :: bool
  sending_keyboard :: bool
  sending_mouse :: bool
  sent_keyboard :: "u8 list list"
  sent_mouse :: "u8 list list"
  fw :: 'f

definition set_transfer_byte :: "u8 \<Rightarrow> 'f vusb_state \<Rightarrow> 'f vusb_state" where
  "set_transfer_byte v s = s\<lparr>transfer_type := v\<rparr>"

definition set_transfer_word :: "u16 \<Rightarrow> 'f vusb_state \<Rightarrow> 'f vusb_state" where
  "set_transfer_word v s = s\<lparr>transfer_type := ucast v, transfer_storage := ucast (drop_bit 8 v)\<rparr>"

definition set_transfer_state :: "u8 \<Rightarrow> u8 \<Rightarrow> u16 \<Rightarrow> u16 \<Rightarrow> 'f vusb_state \<Rightarrow> 'f vusb_state" where
  "set_transfer_state action storage addr remaining s =
     s\<lparr>transfer_type := action, transfer_storage := storage, transfer_addr := addr, transfer_remaining := remaining\<rparr>"

fun usb_msg_bytes :: "msg_ptr \<Rightarrow> 'f vusb_state \<Rightarrow> u8 list" where
  "usb_msg_bytes at_KeyboardReportData s = KeyboardReportData s"
| "usb_msg_bytes at_MouseReportData s = MouseReportData s"
| "usb_msg_bytes at_kbd_idleRate s = [kbd_idleRate s]"
| "usb_msg_bytes at_mouse_idleRate s = [mouse_idleRate s]"
| "usb_msg_bytes at_reportProtocol s = [reportProtocol s]"
| "usb_msg_bytes at_transfer_byte s = [transfer_type s]"
| "usb_msg_bytes at_transfer_word s = [transfer_type s, transfer_storage s]"

definition on_fw :: "('f \<Rightarrow> 'f) \<Rightarrow> 'f vusb_state \<Rightarrow> 'f vusb_state" where
  "on_fw f s = s\<lparr>fw := f (fw s)\<rparr>"

definition min_u16 :: "u16 \<Rightarrow> u16 \<Rightarrow> u16" where
  "min_u16 a b = (if a < b then a else b)"

subsection \<open>Control requests\<close>

record usbRequest =
  rq_bmRequestType :: u8
  rq_bRequest :: u8
  rq_wValue :: u16
  rq_wIndex :: u16
  rq_wLength :: u16

definition USBRQ_TYPE_MASK :: u8 where "USBRQ_TYPE_MASK = 0x60"
definition USBRQ_TYPE_CLASS :: u8 where "USBRQ_TYPE_CLASS = 0x20"
definition USBRQ_HID_GET_REPORT :: u8 where "USBRQ_HID_GET_REPORT = 0x01"
definition USBRQ_HID_GET_IDLE :: u8 where "USBRQ_HID_GET_IDLE = 0x02"
definition USBRQ_HID_GET_PROTOCOL :: u8 where "USBRQ_HID_GET_PROTOCOL = 0x03"
definition USBRQ_HID_SET_REPORT :: u8 where "USBRQ_HID_SET_REPORT = 0x09"
definition USBRQ_HID_SET_IDLE :: u8 where "USBRQ_HID_SET_IDLE = 0x0A"
definition USBRQ_HID_SET_PROTOCOL :: u8 where "USBRQ_HID_SET_PROTOCOL = 0x0B"

text \<open>The value of \<open>usbFunctionSetup\<close>: a length of what \<open>usbMsgPtr\<close> points at, or \<open>USB_NO_MSG\<close>.\<close>

datatype msg_len = USB_NO_MSG | Msg nat

text \<open>\<open>wValue.bytes[1]\<close>, the upper byte.\<close>

definition value_high :: "usbRequest \<Rightarrow> u8" where
  "value_high rq = ucast (drop_bit 8 (rq_wValue rq))"

definition class_request :: "'f firmware \<Rightarrow> usbRequest \<Rightarrow> 'f vusb_state \<Rightarrow> msg_len \<times> 'f vusb_state" where
  "class_request env rq s =
     (if rq_bRequest rq = USBRQ_HID_GET_REPORT then
        if rq_wIndex rq = 1 then
          let (report, f) = fw_Fill_KeyboardReport env (KeyboardReportData s) (fw s);
              s = s\<lparr>fw := f, KeyboardReportData := report\<rparr>;
              s = s\<lparr>PrevKeyboardHIDReportBuffer := KeyboardReportData s, usbMsgPtr := at_KeyboardReportData\<rparr>
          in (Msg (length report), s)
        else
          let (report, f) = fw_Fill_MouseReport env (MouseReportData s) (fw s);
              s = s\<lparr>fw := f, MouseReportData := report, usbMsgPtr := at_MouseReportData\<rparr>
          in (Msg (length report), s)
      else if rq_bRequest rq = USBRQ_HID_SET_REPORT then
        if rq_wIndex rq = 1 \<and> rq_wLength rq = 1 then (USB_NO_MSG, s\<lparr>transfer_type := transfer_LED_REPORT\<rparr>) else (Msg 0, s)
      else if rq_bRequest rq = USBRQ_HID_GET_IDLE then
        (Msg 1, s\<lparr>usbMsgPtr := (if rq_wIndex rq = 2 then at_mouse_idleRate else at_kbd_idleRate)\<rparr>)
      else if rq_bRequest rq = USBRQ_HID_SET_IDLE then
        (Msg 0, if rq_wIndex rq = 2 then s\<lparr>mouse_idleRate := value_high rq\<rparr> else s\<lparr>kbd_idleRate := value_high rq\<rparr>)
      else if rq_bRequest rq = USBRQ_HID_GET_PROTOCOL then (Msg 1, s\<lparr>usbMsgPtr := at_reportProtocol\<rparr>)
      else if rq_bRequest rq = USBRQ_HID_SET_PROTOCOL then (Msg 0, s\<lparr>reportProtocol := value_high rq\<rparr>)
      else (Msg 0, s))"

text \<open>The codes of \<open>vendor_request\<close> in \<open>usb_vendor_interface.h\<close> by position.\<close>

definition request_READ_LAYOUT_ID :: u8 where "request_READ_LAYOUT_ID = 0"
definition request_READ_MAPPING_SIZE :: u8 where "request_READ_MAPPING_SIZE = 1"
definition request_WRITE_MAPPING :: u8 where "request_WRITE_MAPPING = 2"
definition request_READ_MAPPING :: u8 where "request_READ_MAPPING = 3"
definition request_READ_DEFAULT_MAPPING :: u8 where "request_READ_DEFAULT_MAPPING = 4"
definition request_READ_NUM_PROGRAMS :: u8 where "request_READ_NUM_PROGRAMS = 5"
definition request_READ_PROGRAMS_SIZE :: u8 where "request_READ_PROGRAMS_SIZE = 6"
definition request_WRITE_PROGRAMS :: u8 where "request_WRITE_PROGRAMS = 7"
definition request_READ_PROGRAMS :: u8 where "request_READ_PROGRAMS = 8"
definition request_RESET_DEFAULTS :: u8 where "request_RESET_DEFAULTS = 9"
definition request_RESET_FULLY :: u8 where "request_RESET_FULLY = 10"
definition request_READ_CONFIG_FLAGS :: u8 where "request_READ_CONFIG_FLAGS = 11"
definition request_WRITE_CONFIG_FLAGS :: u8 where "request_WRITE_CONFIG_FLAGS = 12"
definition request_READ_MACRO_INDEX_SIZE :: u8 where "request_READ_MACRO_INDEX_SIZE = 13"
definition request_WRITE_MACRO_INDEX :: u8 where "request_WRITE_MACRO_INDEX = 14"
definition request_READ_MACRO_INDEX :: u8 where "request_READ_MACRO_INDEX = 15"
definition request_READ_MACRO_STORAGE_SIZE :: u8 where "request_READ_MACRO_STORAGE_SIZE = 16"
definition request_WRITE_MACRO_STORAGE :: u8 where "request_WRITE_MACRO_STORAGE = 17"
definition request_READ_MACRO_STORAGE :: u8 where "request_READ_MACRO_STORAGE = 18"
definition request_READ_MACRO_MAX_KEYS :: u8 where "request_READ_MACRO_MAX_KEYS = 19"

lemmas request_codes = request_READ_LAYOUT_ID_def request_READ_MAPPING_SIZE_def request_WRITE_MAPPING_def request_READ_MAPPING_def
  request_READ_DEFAULT_MAPPING_def request_READ_NUM_PROGRAMS_def request_READ_PROGRAMS_SIZE_def request_WRITE_PROGRAMS_def
  request_READ_PROGRAMS_def request_RESET_DEFAULTS_def request_RESET_FULLY_def request_READ_CONFIG_FLAGS_def request_WRITE_CONFIG_FLAGS_def
  request_READ_MACRO_INDEX_SIZE_def request_WRITE_MACRO_INDEX_def request_READ_MACRO_INDEX_def request_READ_MACRO_STORAGE_SIZE_def
  request_WRITE_MACRO_STORAGE_def request_READ_MACRO_STORAGE_def request_READ_MACRO_MAX_KEYS_def

text \<open>The labels \<open>transfer_byte\<close> and \<open>transfer_word\<close>.\<close>

definition answer_byte :: "u8 \<Rightarrow> 'f vusb_state \<Rightarrow> msg_len \<times> 'f vusb_state" where
  "answer_byte v s = (Msg 1, (set_transfer_byte v s)\<lparr>usbMsgPtr := at_transfer_byte\<rparr>)"

definition answer_word :: "u16 \<Rightarrow> 'f vusb_state \<Rightarrow> msg_len \<times> 'f vusb_state" where
  "answer_word v s = (Msg 2, (set_transfer_word v s)\<lparr>usbMsgPtr := at_transfer_word\<rparr>)"

definition vendor_request_vusb :: "'f firmware \<Rightarrow> board \<Rightarrow> usbRequest \<Rightarrow> 'f vusb_state \<Rightarrow> msg_len \<times> 'f vusb_state" where
  "vendor_request_vusb env hw rq s =
     (let r = rq_bRequest rq; len = rq_wLength rq in
      if r = request_READ_NUM_PROGRAMS then answer_byte (board_PROGRAM_COUNT hw) s
      else if r = request_READ_LAYOUT_ID then answer_byte (board_LAYOUT_ID hw) s
      else if r = request_READ_MAPPING_SIZE then answer_byte (ucast (board_NUM_LOGICAL_KEYS hw)) s
      else if r = request_READ_CONFIG_FLAGS then answer_byte (fw_config_get_flags env (fw s)) s
      else if r = request_READ_MACRO_MAX_KEYS then answer_byte (board_MACRO_MAX_KEYS hw) s
      else if r = request_READ_PROGRAMS_SIZE then answer_word (board_PROGRAM_SIZE hw) s
      else if r = request_READ_MACRO_INDEX_SIZE then answer_word (board_MACRO_INDEX_SIZE hw) s
      else if r = request_READ_MACRO_STORAGE_SIZE then answer_word (board_MACROS_SIZE hw) s
      else if r = request_WRITE_PROGRAMS then
        (USB_NO_MSG, (set_transfer_state transfer_WRITE (board_PROGRAM_STORAGE hw) (programs_address hw) len s)\<lparr>transfer_callback := True\<rparr>)
      else if r = request_READ_PROGRAMS then
        (USB_NO_MSG, set_transfer_state transfer_READ (board_PROGRAM_STORAGE hw) (programs_address hw) len s)
      else if r = request_WRITE_MACRO_INDEX then
        (USB_NO_MSG, set_transfer_state transfer_WRITE (board_MACRO_INDEX_STORAGE hw) (macro_index_address hw) len s)
      else if r = request_READ_MACRO_INDEX then
        (USB_NO_MSG, set_transfer_state transfer_READ (board_MACRO_INDEX_STORAGE hw) (macro_index_address hw) len s)
      else if r = request_WRITE_MACRO_STORAGE then
        (USB_NO_MSG, set_transfer_state transfer_WRITE (board_MACROS_STORAGE hw) (macros_address hw) len s)
      else if r = request_READ_MACRO_STORAGE then
        (USB_NO_MSG, set_transfer_state transfer_READ (board_MACROS_STORAGE hw) (macros_address hw) len s)
      else if r = request_WRITE_CONFIG_FLAGS then
        (Msg 0, on_fw (fw_config_save_flags env (ucast (rq_wValue rq AND 0xFF))) s)
      else if r = request_WRITE_MAPPING then
        (USB_NO_MSG, set_transfer_state transfer_WRITE (board_MAPPING_STORAGE hw) (mapping_address hw) (min_u16 (board_NUM_LOGICAL_KEYS hw) len) s)
      else if r = request_READ_DEFAULT_MAPPING then
        (USB_NO_MSG, set_transfer_state transfer_READ (board_CONSTANT_STORAGE hw) (default_mapping_address hw) (min_u16 (board_NUM_LOGICAL_KEYS hw) len) s)
      else if r = request_READ_MAPPING then
        (USB_NO_MSG, set_transfer_state transfer_READ (board_MAPPING_STORAGE hw) (mapping_address hw) (min_u16 (board_NUM_LOGICAL_KEYS hw) len) s)
      else if r = request_RESET_DEFAULTS then (Msg 0, on_fw (fw_config_reset_defaults env) s)
      else if r = request_RESET_FULLY then (Msg 0, on_fw (fw_config_reset_fully env) s)
      else (Msg 0, s))"

definition usbFunctionSetup :: "'f firmware \<Rightarrow> board \<Rightarrow> usbRequest \<Rightarrow> 'f vusb_state \<Rightarrow> msg_len \<times> 'f vusb_state" where
  "usbFunctionSetup env hw rq s =
     (if rq_bmRequestType rq AND USBRQ_TYPE_MASK = USBRQ_TYPE_CLASS then class_request env rq s
      else vendor_request_vusb env hw rq s)"

subsection \<open>Data packets\<close>

text \<open>The size of a packet, cut to what remains of the transfer.\<close>

definition packet_size :: "u8 \<Rightarrow> 'f vusb_state \<Rightarrow> u8" where
  "packet_size len s = (if ucast len \<le> transfer_remaining s then len else ucast (transfer_remaining s))"

definition transfer_failed :: "'f firmware \<Rightarrow> 'f vusb_state \<Rightarrow> 'f vusb_state" where
  "transfer_failed env s = on_fw (fw_buzzer_start env 200) s"

text \<open>The end of \<open>usbFunctionWrite\<close>: the callback runs once when the transfer is over.\<close>

definition write_done :: "'f firmware \<Rightarrow> bool \<Rightarrow> 'f vusb_state \<Rightarrow> bool \<times> 'f vusb_state" where
  "write_done env ret s =
     (ret, if ret \<and> transfer_callback s then (on_fw (fw_vm_init env) s)\<lparr>transfer_callback := False\<rparr> else s)"

definition write_step_fn :: "'f firmware \<Rightarrow> u8 \<Rightarrow> (u16 \<Rightarrow> u8 list \<Rightarrow> u8 \<Rightarrow> bool \<Rightarrow> 'f \<Rightarrow> (u8 \<times> 'f) option) option" where
  "write_step_fn env storage =
     (if storage = storage_avr_eeprom then Some (fw_avr_eeprom_write_step env)
      else if storage = storage_i2c_eeprom then Some (fw_i2c_eeprom_write_step env)
      else None)"

text \<open>\<open>data\<close> holds the \<open>len\<close> bytes of the packet; a packet to another storage than these two is an error.\<close>

definition usbFunctionWrite :: "'f firmware \<Rightarrow> u8 list \<Rightarrow> u8 \<Rightarrow> 'f vusb_state \<Rightarrow> (bool \<times> 'f vusb_state) option" where
  "usbFunctionWrite env data len s =
     (let write_sz = packet_size len s in
      if transfer_type s = transfer_WRITE then
        (case write_step_fn env (transfer_storage s) of
           None \<Rightarrow> Some (True, transfer_failed env s)
         | Some write_fn \<Rightarrow> do {
             (r, f) \<leftarrow> write_fn (transfer_addr s) (take (unat write_sz) data) write_sz (transfer_remaining s = ucast write_sz) (fw s);
             let s = s\<lparr>fw := f\<rparr>;
             if r \<noteq> 0 then Some (True, transfer_failed env s)
             else do {
               let s = s\<lparr>transfer_addr := transfer_addr s + ucast write_sz, transfer_remaining := transfer_remaining s - ucast write_sz\<rparr>;
               Some (write_done env (transfer_remaining s = 0) s) } })
      else if transfer_type s = transfer_LED_REPORT then Some (write_done env True (on_fw (fw_Process_KeyboardLEDReport env (hd data)) s))
      else Some (write_done env True s))"

definition read_fn :: "'f firmware \<Rightarrow> u8 \<Rightarrow> (u16 \<Rightarrow> u16 \<Rightarrow> 'f \<Rightarrow> (u16 \<times> u8 list \<times> 'f) option) option" where
  "read_fn env storage =
     (if storage = storage_avr_eeprom then Some (fw_avr_eeprom_read env)
      else if storage = storage_avr_pgm then Some (fw_avr_pgm_read env)
      else if storage = storage_i2c_eeprom then Some (fw_i2c_eeprom_read env)
      else None)"

text \<open>The number of bytes for the host, and the bytes.\<close>

definition usbFunctionRead :: "'f firmware \<Rightarrow> u8 \<Rightarrow> 'f vusb_state \<Rightarrow> (u8 \<times> u8 list \<times> 'f vusb_state) option" where
  "usbFunctionRead env len s =
     (let read_sz = packet_size len s in
      if transfer_type s = transfer_READ then
        (case read_fn env (transfer_storage s) of
           None \<Rightarrow> Some (0, [], transfer_failed env s)
         | Some read \<Rightarrow> do {
             (r, data, f) \<leftarrow> read (transfer_addr s) (ucast read_sz) (fw s);
             let s = s\<lparr>fw := f\<rparr>;
             if r = -1 then Some (0, [], transfer_failed env s)
             else Some (ucast r, data, s\<lparr>transfer_addr := transfer_addr s + r, transfer_remaining := transfer_remaining s - r\<rparr>) })
      else Some (0, [], s))"

subsection \<open>Time\<close>

text \<open>A tick of the timer is 4 microseconds.\<close>

definition update_uptimems :: "'f firmware \<Rightarrow> 'f vusb_state \<Rightarrow> 'f vusb_state" where
  "update_uptimems env s =
     (let elapsed_ticks = TCNT1 s;
          s = s\<lparr>TCNT1 := 0\<rparr>;
          elapsed_ticks = elapsed_ticks + ucast (uptime_remainder s);
          elapsed = elapsed_ticks div 250;
          s = s\<lparr>uptime_remainder := ucast (elapsed_ticks mod 250)\<rparr>;
          s = (if elapsed > 0 then on_fw (fw_Update_Millis env (ucast elapsed)) s else s)
      in s\<lparr>keyboard_idle_ms := (if elapsed \<ge> ucast (keyboard_idle_ms s) then 0 else keyboard_idle_ms s - ucast elapsed),
           mouse_idle_ms := (if elapsed \<ge> ucast (mouse_idle_ms s) then 0 else mouse_idle_ms s - ucast elapsed)\<rparr>)"

text \<open>\<open>usbPoll\<close> lets the driver work, which may call the request functions above.\<close>

definition USB_KeepAlive_vusb :: "'f firmware \<Rightarrow> ('f vusb_state \<Rightarrow> 'f vusb_state) \<Rightarrow> bool \<Rightarrow> 'f vusb_state \<Rightarrow> 'f vusb_state" where
  "USB_KeepAlive_vusb env usbPoll poll s =
     (let s = update_uptimems env s
      in if poll \<and> \<not> in_poll s then (usbPoll (s\<lparr>in_poll := True\<rparr>))\<lparr>in_poll := False\<rparr> else s)"

subsection \<open>Reports\<close>

text \<open>The new contents of the two buffers and the new state of the firmware.\<close>

definition update_and_compare :: "(u8 list \<Rightarrow> 'f \<Rightarrow> u8 list \<times> 'f) \<Rightarrow> u8 list \<Rightarrow> u8 list \<Rightarrow> 'f \<Rightarrow> bool \<times> u8 list \<times> u8 list \<times> 'f" where
  "update_and_compare fill_fn buf prev_buf f =
     (let buf = replicate (length buf) 0; (buf, f) = fill_fn buf f
      in if buf = prev_buf then (False, buf, prev_buf, f) else (True, buf, buf, f))"

definition update_keyboard :: "'f firmware \<Rightarrow> bool \<Rightarrow> 'f vusb_state \<Rightarrow> 'f vusb_state" where
  "update_keyboard env ready s =
     (let s = (if sending_keyboard s then s
               else let (c, buf, prev, f) = update_and_compare (fw_Fill_KeyboardReport env) (KeyboardReportData s) (PrevKeyboardHIDReportBuffer s) (fw s)
                    in s\<lparr>sending_keyboard := c, KeyboardReportData := buf, PrevKeyboardHIDReportBuffer := prev, fw := f\<rparr>);
          s = (if \<not> sending_keyboard s \<and> kbd_idleRate s \<noteq> 0 \<and> keyboard_idle_ms s = 0
               then s\<lparr>KeyboardReportData := PrevKeyboardHIDReportBuffer s, sending_keyboard := True\<rparr> else s)
      in if sending_keyboard s \<and> ready
         then s\<lparr>sent_keyboard := sent_keyboard s @ [KeyboardReportData s], sending_keyboard := False, keyboard_idle_ms := kbd_idleRate s * 4\<rparr>
         else s)"

definition update_mouse :: "'f firmware \<Rightarrow> board \<Rightarrow> bool \<Rightarrow> 'f vusb_state \<Rightarrow> 'f vusb_state" where
  "update_mouse env hw ready s =
     (let s = (if sending_mouse s then s
               else let (c, buf, prev, f) = update_and_compare (fw_Fill_MouseReport env) (MouseReportData s) (PrevMouseHIDReportBuffer s) (fw s);
                        s = s\<lparr>sending_mouse := c, MouseReportData := buf, PrevMouseHIDReportBuffer := prev, fw := f\<rparr>
                    in if MouseReportData s ! 1 \<noteq> 0 \<or> MouseReportData s ! 2 \<noteq> 0 \<or> wheel hw (MouseReportData s) \<noteq> 0
                       then s\<lparr>sending_mouse := True\<rparr> else s);
          s = (if \<not> sending_mouse s \<and> mouse_idleRate s \<noteq> 0 \<and> mouse_idle_ms s = 0
               then s\<lparr>MouseReportData := PrevMouseHIDReportBuffer s, sending_mouse := True\<rparr> else s)
      in if sending_mouse s \<and> ready
         then s\<lparr>sent_mouse := sent_mouse s @ [MouseReportData s], sending_mouse := False, mouse_idle_ms := mouse_idleRate s * 4\<rparr>
         else s)"

definition USB_Perform_Update_vusb :: "'f firmware \<Rightarrow> board \<Rightarrow> ('f vusb_state \<Rightarrow> 'f vusb_state) \<Rightarrow> bool \<Rightarrow> bool \<Rightarrow> 'f vusb_state \<Rightarrow> 'f vusb_state" where
  "USB_Perform_Update_vusb env hw usbPoll ready1 ready3 s =
     (let s = USB_KeepAlive_vusb env usbPoll True s;
          s = update_keyboard env ready1 s;
          s = update_mouse env hw ready3 s
      in update_uptimems env s)"

end
