(* ===== verification/VusbCorrect.thy ===== *)
theory VusbCorrect
  imports VusbMain I2cSteps
begin

text \<open>
  What the V-USB main program promises. Its transfers rest on locale \<open>step_storage\<close>, of which the internal EEPROM
  is another instance: an upload stores the bytes of the host, and a download returns them. The clock keeps the
  time of a timer that is read often enough.
\<close>

subsection \<open>The internal EEPROM\<close>

interpretation internal: step_storage avr_eeprom_write_step avr_eeprom_read "\<lambda>m f. f = m" "\<lambda>m a f. f = m" "\<lambda>a. True" "\<lambda>a n. True" "0x1000"
proof
  fix a n :: nat and bs :: "u8 list" and m f :: memory and last_step
  assume f: "f = m"
  {
    assume "length bs < 256" "a + length bs \<le> 0x1000"
    then show "\<exists>g. avr_eeprom_write_step (of_nat a) bs (of_nat (length bs)) last_step f = Some (0, g)
        \<and> (if last_step then g = mem_write m a bs else g = mem_write m a bs)"
      using f by (simp add: avr_eeprom_write_step_def unat_of_nat)
  next
    assume "a + n \<le> 0x1000"
    then show "\<exists>g. avr_eeprom_read (of_nat a) (of_nat n) f = Some (of_nat n, mem_read m a n, g) \<and> g = m"
      using f by (simp add: avr_eeprom_read_def unat_of_nat)
  }
qed simp_all

subsection \<open>The driver's part of a transfer\<close>

text \<open>The driver hands over the data of the host in packets of eight bytes, the last one shorter, and asks for it likewise.\<close>

function packets_of :: "'a list \<Rightarrow> 'a list list" where
  "packets_of xs = (if length xs \<le> 8 then [xs] else take 8 xs # packets_of (drop 8 xs))"
  by auto

termination by (relation "measure length") auto

declare packets_of.simps [simp del]

fun send_packets :: "'f firmware \<Rightarrow> u8 list list \<Rightarrow> 'f vusb_state \<Rightarrow> (bool list \<times> 'f vusb_state) option" where
  "send_packets env [] s = Some ([], s)"
| "send_packets env (p # ps) s = do {
     (r, s) \<leftarrow> usbFunctionWrite env p (of_nat (length p)) s;
     (rs, s) \<leftarrow> send_packets env ps s;
     Some (r # rs, s) }"

fun fetch_packets :: "'f firmware \<Rightarrow> nat list \<Rightarrow> 'f vusb_state \<Rightarrow> (u8 list \<times> 'f vusb_state) option" where
  "fetch_packets env [] s = Some ([], s)"
| "fetch_packets env (n # ns) s = do {
     (r, bs, s) \<leftarrow> usbFunctionRead env (of_nat n) s;
     (cs, s) \<leftarrow> fetch_packets env ns s;
     Some (take (unat r) bs @ cs, s) }"

definition packet_sizes :: "nat \<Rightarrow> nat list" where
  "packet_sizes n = map length (packets_of (replicate n ()))"

lemma packet_sizes_step: "packet_sizes n = (if n \<le> 8 then [n] else 8 # packet_sizes (n - 8))"
  by (subst packet_sizes_def, subst packets_of.simps) (simp add: packet_sizes_def)

lemma packet_size_of_nat:
  "k < 256 \<Longrightarrow> n < 0x10000 \<Longrightarrow> transfer_remaining s = of_nat n \<Longrightarrow> k \<le> n \<Longrightarrow> packet_size (of_nat k) s = of_nat k"
  by (simp add: packet_size_def unsigned_of_nat take_bit_nat_eq_self word_le_nat_alt unat_of_nat)

text \<open>A transfer about to move \<open>n\<close> bytes from or to address \<open>a\<close>.\<close>

definition moving :: "u8 \<Rightarrow> u8 \<Rightarrow> nat \<Rightarrow> nat \<Rightarrow> 'f vusb_state \<Rightarrow> bool" where
  "moving action storage a n s \<longleftrightarrow> transfer_type s = action \<and> transfer_storage s = storage
     \<and> transfer_addr s = of_nat a \<and> transfer_remaining s = of_nat n"

context step_storage
begin

lemma write_packet:
  assumes "write_step_fn env st = Some step" "moving transfer_WRITE st a n s" "ready m a (fw s)" "bs \<noteq> []" "length bs \<le> 8"
    "length bs \<le> n" "fits a (length bs)" "a + n \<le> capacity"
  shows "\<exists>g. usbFunctionWrite env bs (of_nat (length bs)) s = Some (write_done env (n = length bs)
      (s\<lparr>fw := g, transfer_addr := of_nat (a + length bs), transfer_remaining := of_nat (n - length bs)\<rparr>))
    \<and> (if n = length bs then rest (mem_write m a bs) g else ready (mem_write m a bs) (a + length bs) g)"
proof -
  let ?k = "length bs"
  have n: "n < 0x10000" using assms(8) capacity_law by linarith
  have sz: "packet_size (of_nat ?k) s = of_nat ?k"
    by (rule packet_size_of_nat [OF _ n _ assms(6)]) (use assms(2,5) in \<open>auto simp: moving_def\<close>)
  have u: "unat (of_nat ?k :: u8) = ?k" "ucast (of_nat ?k :: u8) = (of_nat ?k :: u16)"
    using assms(5) by (simp_all add: unat_of_nat unsigned_of_nat take_bit_nat_eq_self)
  have rem: "(of_nat n :: u16) - of_nat ?k = of_nat (n - ?k)" using assms(6) by (simp add: of_nat_diff)
  have last: "(of_nat n :: u16) = of_nat ?k \<longleftrightarrow> n = ?k" "(of_nat (n - ?k) :: u16) = 0 \<longleftrightarrow> n = ?k"
  proof -
    have w: "unat (of_nat j :: u16) = j" if "j \<le> n" for j using that n by (simp only: unat_of_nat) simp
    show "(of_nat n :: u16) = of_nat ?k \<longleftrightarrow> n = ?k" using w [OF order_refl] w [OF assms(6)] by metis
    show "(of_nat (n - ?k) :: u16) = 0 \<longleftrightarrow> n = ?k" using w [of "n - ?k"] assms(6) by (metis diff_is_0_eq diff_le_self le_antisym order_refl unat_0 word_unat_eq_iff)
  qed
  obtain g where g: "step (of_nat a) bs (of_nat ?k) (n = ?k) (fw s) = Some (0, g)"
    "if n = ?k then rest (mem_write m a bs) g else ready (mem_write m a bs) (a + ?k) g"
    using step_law [OF assms(3,4) _ assms(7), of "n = ?k"] assms(5,6,8) by fastforce
  have "usbFunctionWrite env bs (of_nat ?k) s = Some (write_done env (n = ?k)
      (s\<lparr>fw := g, transfer_addr := of_nat (a + ?k), transfer_remaining := of_nat (n - ?k)\<rparr>))"
    unfolding usbFunctionWrite_def Let_def sz using assms(1,2) g(1) by (simp add: moving_def u rem last)
  with g(2) show ?thesis by blast
qed

lemma upload_ok:
  assumes "write_step_fn env st = Some step" "moving transfer_WRITE st a (length data) s" "ready m a (fw s)" "data \<noteq> []"
    "\<And>k n. n \<le> 8 \<Longrightarrow> fits (a + 8 * k) n" "a + length data \<le> capacity"
  shows "\<exists>t g. send_packets env (packets_of data) s = Some (replicate (length (packets_of data) - 1) False @ [True], t)
    \<and> rest (mem_write m a data) g \<and> fw t = (if transfer_callback s then fw_vm_init env g else g) \<and> \<not> transfer_callback t"
  using assms(2-6)
proof (induction "length data" arbitrary: data a s m rule: less_induct)
  case less
  show ?case
  proof (cases "length data \<le> 8")
    case True
    have "fits a (length data)" using less.prems(4) [of "length data" 0] True by simp
    then obtain g where "usbFunctionWrite env data (of_nat (length data)) s = Some (write_done env True
        (s\<lparr>fw := g, transfer_addr := of_nat (a + length data), transfer_remaining := of_nat (length data - length data)\<rparr>))"
      "rest (mem_write m a data) g" using write_packet [OF assms(1) less.prems(1-3) True] less.prems(5) by auto
    with True show ?thesis by (subst packets_of.simps) (auto simp: write_done_def on_fw_def packets_of.simps)
  next
    case False
    let ?p = "take 8 data" and ?q = "drop 8 data"
    have l: "length ?p = 8" "length data \<noteq> length ?p" "?p \<noteq> []" using False by auto
    have "fits a (length ?p)" using less.prems(4) [of 8 0] l(1) by simp
    then obtain g where g: "usbFunctionWrite env ?p (of_nat (length ?p)) s = Some (write_done env False
        (s\<lparr>fw := g, transfer_addr := of_nat (a + length ?p), transfer_remaining := of_nat (length data - length ?p)\<rparr>))"
      "ready (mem_write m a ?p) (a + length ?p) g"
      using write_packet [OF assms(1) less.prems(1,2) l(3)] l less.prems(5) by (auto simp: min_def split: if_splits)
    let ?t = "s\<lparr>fw := g, transfer_addr := of_nat (a + 8), transfer_remaining := of_nat (length ?q)\<rparr>"
    have "\<exists>t h. send_packets env (packets_of ?q) ?t = Some (replicate (length (packets_of ?q) - 1) False @ [True], t)
      \<and> rest (mem_write (mem_write m a ?p) (a + 8) ?q) h \<and> fw t = (if transfer_callback ?t then fw_vm_init env h else h) \<and> \<not> transfer_callback t"
    proof (rule less.hyps)
      show "moving transfer_WRITE st (a + 8) (length ?q) ?t" using less.prems(1) by (simp add: moving_def)
      show "fits (a + 8 + 8 * k) n" if "n \<le> 8" for k n using less.prems(4) [OF that, of "Suc k"] by (simp add: add.assoc)
    qed (use False g(2) l(1) less.prems(5) in auto)
    moreover have "mem_write (mem_write m a ?p) (a + 8) ?q = mem_write m a data" using mem_write_append [of m a ?p ?q] l(1) by simp
    ultimately obtain t h where t: "send_packets env (packets_of ?q) ?t = Some (replicate (length (packets_of ?q) - 1) False @ [True], t)"
      "rest (mem_write m a data) h" "fw t = (if transfer_callback s then fw_vm_init env h else h)" "\<not> transfer_callback t" by auto
    have p: "packets_of data = ?p # packets_of ?q" using False by (subst packets_of.simps) simp
    have "packets_of ?q \<noteq> []" by (subst packets_of.simps) simp
    then have "length (packets_of data) - 1 = Suc (length (packets_of ?q) - 1)" unfolding p by (cases "packets_of ?q") auto
    moreover have "send_packets env (packets_of data) s = Some (False # replicate (length (packets_of ?q) - 1) False @ [True], t)"
      using g(1) t(1) l(1) by (simp add: p write_done_def)
    ultimately show ?thesis using t(2-4) by auto
  qed
qed

lemma read_packet:
  assumes "read_fn env st = Some read" "moving transfer_READ st a n s" "rest m (fw s)" "0 < k" "k \<le> 8" "k \<le> n" "a + n \<le> capacity"
  shows "\<exists>g. usbFunctionRead env (of_nat k) s = Some (of_nat k, mem_read m a k,
      s\<lparr>fw := g, transfer_addr := of_nat (a + k), transfer_remaining := of_nat (n - k)\<rparr>) \<and> rest m g"
proof -
  have n: "n < 0x10000" using assms(7) capacity_law by linarith
  have sz: "packet_size (of_nat k) s = of_nat k"
    by (rule packet_size_of_nat [OF _ n _ assms(6)]) (use assms(2,5) in \<open>auto simp: moving_def\<close>)
  have u: "ucast (of_nat k :: u8) = (of_nat k :: u16)" "ucast (of_nat k :: u16) = (of_nat k :: u8)"
    using assms(5) by (simp_all add: unsigned_of_nat take_bit_nat_eq_self)
  have rem: "(of_nat n :: u16) - of_nat k = of_nat (n - k)" using assms(6) by (simp add: of_nat_diff)
  have "unat (of_nat (Suc k) :: u16) = Suc k" using assms(5) by (simp only: unat_of_nat) simp
  then have "(of_nat (Suc k) :: u16) \<noteq> 0" by (metis Zero_not_Suc unat_0)
  then have ne: "(of_nat k :: u16) \<noteq> - 1" by (metis add.right_inverse of_nat_Suc)
  obtain g where g: "read (of_nat a) (of_nat k) (fw s) = Some (of_nat k, mem_read m a k, g)" "rest m g"
    using read_law [OF assms(3) _ assms(4), of a] assms(6,7) by fastforce
  have "usbFunctionRead env (of_nat k) s = Some (of_nat k, mem_read m a k,
      s\<lparr>fw := g, transfer_addr := of_nat (a + k), transfer_remaining := of_nat (n - k)\<rparr>)"
    unfolding usbFunctionRead_def Let_def sz using assms(1,2) g(1) ne by (simp add: moving_def u rem)
  with g(2) show ?thesis by blast
qed

lemma download_ok:
  assumes "read_fn env st = Some read" "moving transfer_READ st a n s" "rest m (fw s)" "0 < n" "a + n \<le> capacity"
  shows "\<exists>t. fetch_packets env (packet_sizes n) s = Some (mem_read m a n, t) \<and> rest m (fw t)"
  using assms(2-5)
proof (induction n arbitrary: a s rule: less_induct)
  case (less n)
  define k where "k = min n 8"
  have k: "0 < k" "k \<le> 8" "k \<le> n" using less.prems(3) by (auto simp: k_def)
  obtain g where g: "usbFunctionRead env (of_nat k) s = Some (of_nat k, mem_read m a k,
      s\<lparr>fw := g, transfer_addr := of_nat (a + k), transfer_remaining := of_nat (n - k)\<rparr>)" "rest m g"
    using read_packet [OF assms(1) less.prems(1,2) k less.prems(4)] by auto
  have u: "unat (of_nat k :: u8) = k" using k(2) by (simp add: unat_of_nat)
  show ?case
  proof (cases "n \<le> 8")
    case True
    then show ?thesis using g u by (subst packet_sizes_step) (simp add: k_def)
  next
    case False
    then have k8: "k = 8" by (simp add: k_def)
    let ?t = "s\<lparr>fw := g, transfer_addr := of_nat (a + 8), transfer_remaining := of_nat (n - 8)\<rparr>"
    have "moving transfer_READ st (a + 8) (n - 8) ?t" using less.prems(1) by (simp add: moving_def)
    then obtain t where t: "fetch_packets env (packet_sizes (n - 8)) ?t = Some (mem_read m (a + 8) (n - 8), t)" "rest m (fw t)"
      using less.IH [of "n - 8" "a + 8" ?t] g(2) False less.prems(4) by auto
    have "mem_read m a n = mem_read m a 8 @ mem_read m (a + 8) (n - 8)" using mem_read_append [of m a 8 "n - 8"] False by simp
    then show ?thesis using g(1) t False u k8 by (subst packet_sizes_step) simp
  qed
qed

end

subsection \<open>Uploads and downloads\<close>

text \<open>The areas of the storage with their requests: the code that writes, the code that reads, the storage and the address.\<close>

definition area_requests :: "board \<Rightarrow> (u8 \<times> u8 \<times> u8 \<times> u16) list" where
  "area_requests hw =
     [(request_WRITE_PROGRAMS, request_READ_PROGRAMS, board_PROGRAM_STORAGE hw, programs_address hw),
      (request_WRITE_MACRO_INDEX, request_READ_MACRO_INDEX, board_MACRO_INDEX_STORAGE hw, macro_index_address hw),
      (request_WRITE_MACRO_STORAGE, request_READ_MACRO_STORAGE, board_MACROS_STORAGE hw, macros_address hw),
      (request_WRITE_MAPPING, request_READ_MAPPING, board_MAPPING_STORAGE hw, mapping_address hw)]"

definition vendor_rq :: "u8 \<Rightarrow> nat \<Rightarrow> usbRequest" where
  "vendor_rq r n = \<lparr>rq_bmRequestType = 0x40, rq_bRequest = r, rq_wValue = 0, rq_wIndex = 0, rq_wLength = of_nat n\<rparr>"

definition host_upload :: "'f firmware \<Rightarrow> board \<Rightarrow> u8 \<Rightarrow> u8 list \<Rightarrow> 'f vusb_state \<Rightarrow> (bool list \<times> 'f vusb_state) option" where
  "host_upload env hw w data s = (case usbFunctionSetup env hw (vendor_rq w (length data)) s of
     (USB_NO_MSG, s) \<Rightarrow> send_packets env (packets_of data) s | _ \<Rightarrow> None)"

definition host_download :: "'f firmware \<Rightarrow> board \<Rightarrow> u8 \<Rightarrow> nat \<Rightarrow> 'f vusb_state \<Rightarrow> (u8 list \<times> 'f vusb_state) option" where
  "host_download env hw r n s = (case usbFunctionSetup env hw (vendor_rq r n) s of
     (USB_NO_MSG, s) \<Rightarrow> fetch_packets env (packet_sizes n) s | _ \<Rightarrow> None)"

lemma area_setup:
  assumes "(w, r, st, a) \<in> set (area_requests hw)" "n < 0x10000" "w = request_WRITE_MAPPING \<Longrightarrow> n \<le> unat (board_NUM_LOGICAL_KEYS hw)"
  shows "\<exists>t. usbFunctionSetup env hw (vendor_rq w n) s = (USB_NO_MSG, t) \<and> moving transfer_WRITE st (unat a) n t \<and> fw t = fw s"
    "\<exists>t. usbFunctionSetup env hw (vendor_rq r n) s = (USB_NO_MSG, t) \<and> moving transfer_READ st (unat a) n t \<and> fw t = fw s
      \<and> transfer_callback t = transfer_callback s"
proof -
  have m: "min_u16 (board_NUM_LOGICAL_KEYS hw) (of_nat n) = of_nat n" if "n \<le> unat (board_NUM_LOGICAL_KEYS hw)"
    using that assms(2) by (auto simp: min_u16_def word_less_nat_alt unat_of_nat)
  show "\<exists>t. usbFunctionSetup env hw (vendor_rq w n) s = (USB_NO_MSG, t) \<and> moving transfer_WRITE st (unat a) n t \<and> fw t = fw s"
    using assms(1,3) by (auto simp: area_requests_def usbFunctionSetup_def vendor_rq_def USBRQ_TYPE_MASK_def
      USBRQ_TYPE_CLASS_def vendor_request_vusb_def request_codes set_transfer_state_def moving_def m)
  show "\<exists>t. usbFunctionSetup env hw (vendor_rq r n) s = (USB_NO_MSG, t) \<and> moving transfer_READ st (unat a) n t \<and> fw t = fw s
      \<and> transfer_callback t = transfer_callback s"
    using assms(1,3) by (auto simp: area_requests_def usbFunctionSetup_def vendor_rq_def USBRQ_TYPE_MASK_def
      USBRQ_TYPE_CLASS_def vendor_request_vusb_def request_codes set_transfer_state_def moving_def m)
qed

text \<open>
  C15: on the boards that use V-USB, what the host uploads with a vendor request is stored, and the matching
  request returns it. For every area (programs, macro index, macros, mapping) and every storage that can be
  written in steps, the bytes arrive at the address of the area whatever their number, cut into packets of eight
  bytes by the driver; \<open>usbFunctionWrite\<close> reports the end of the transfer with the last packet and not before, and
  the callback has run by then. The download that follows delivers the same bytes. The I2C memory and the
  internal EEPROM are such storages.
\<close>

theorem vusb_upload_roundtrip:
  assumes storage: "step_storage step read rest ready aligned fits capacity"
    and fns: "write_step_fn env st = Some step" "read_fn env st = Some read"
    and area: "(w, r, st, a) \<in> set (area_requests hw)"
    and room: "data \<noteq> []" "unat a + length data \<le> capacity" "w = request_WRITE_MAPPING \<Longrightarrow> length data \<le> unat (board_NUM_LOGICAL_KEYS hw)"
    and place: "aligned (unat a)" "\<And>k n. n \<le> 8 \<Longrightarrow> fits (unat a + 8 * k) n"
    and start: "rest m (fw s)" and init: "\<And>m f. rest m f \<Longrightarrow> rest m (fw_vm_init env f)"
  shows "\<exists>t u. host_upload env hw w data s = Some (replicate (length (packets_of data) - 1) False @ [True], t)
    \<and> rest (mem_write m (unat a) data) (fw t) \<and> \<not> transfer_callback t
    \<and> host_download env hw r (length data) t = Some (data, u) \<and> rest (mem_write m (unat a) data) (fw u)"
proof -
  let ?m = "mem_write m (unat a) data"
  have n: "length data < 0x10000" using room(2) step_storage.capacity_law [OF storage] by linarith
  obtain s1 where s1: "usbFunctionSetup env hw (vendor_rq w (length data)) s = (USB_NO_MSG, s1)"
    "moving transfer_WRITE st (unat a) (length data) s1" "fw s1 = fw s" using area_setup(1) [OF area n room(3)] by blast
  have "ready m (unat a) (fw s1)" unfolding s1(3) by (rule step_storage.begin_law [OF storage start place(1)])
  from step_storage.upload_ok [OF storage fns(1) s1(2) this room(1) place(2) room(2)] obtain t g where
    t: "send_packets env (packets_of data) s1 = Some (replicate (length (packets_of data) - 1) False @ [True], t)"
    "rest ?m g" "fw t = (if transfer_callback s1 then fw_vm_init env g else g)" "\<not> transfer_callback t" by blast
  then have rt: "rest ?m (fw t)" using init [OF t(2)] by simp
  obtain t1 where t1: "usbFunctionSetup env hw (vendor_rq r (length data)) t = (USB_NO_MSG, t1)"
    "moving transfer_READ st (unat a) (length data) t1" "fw t1 = fw t" using area_setup(2) [OF area n room(3)] by blast
  have "rest ?m (fw t1)" unfolding t1(3) by (rule rt)
  then obtain u where u: "fetch_packets env (packet_sizes (length data)) t1 = Some (mem_read ?m (unat a) (length data), u)" "rest ?m (fw u)"
    using step_storage.download_ok [OF storage fns(2) t1(2) _ _ room(2)] room(1) by blast
  have "host_upload env hw w data s = Some (replicate (length (packets_of data) - 1) False @ [True], t)"
    using s1(1) t(1) by (simp add: host_upload_def)
  moreover have "host_download env hw r (length data) t = Some (data, u)" using t1(1) u(1) by (simp add: host_download_def)
  ultimately show ?thesis using rt t(4) u(2) by blast
qed

text \<open>A board whose programs are in an I2C memory of 2 KB, with a firmware that does nothing else.\<close>

definition demo_firmware :: "at24_chip line_device twi_lines i2c_state firmware" where
  "demo_firmware = \<lparr>fw_Fill_KeyboardReport = \<lambda>b f. (b, f), fw_Fill_MouseReport = \<lambda>b f. (b, f), fw_Process_KeyboardLEDReport = \<lambda>x f. f,
     fw_Update_Millis = \<lambda>x f. f, fw_buzzer_start = \<lambda>x f. f, fw_vm_init = \<lambda>f. f, fw_config_get_flags = \<lambda>f. 0,
     fw_config_save_flags = \<lambda>x f. f, fw_config_reset_defaults = \<lambda>f. f, fw_config_reset_fully = \<lambda>f. f,
     fw_avr_eeprom_write_step = \<lambda>a d l k f. Some (0, f), fw_i2c_eeprom_write_step = i2c_step (bitbang_port (device_wires at24_dev)),
     fw_avr_eeprom_read = \<lambda>a l f. Some (0, [], f), fw_avr_pgm_read = \<lambda>a l f. Some (0, [], f),
     fw_i2c_eeprom_read = i2c_eeprom_read (bitbang_port (device_wires at24_dev))\<rparr>"

definition demo_board :: board where
  "demo_board = \<lparr>board_PROGRAM_COUNT = 6, board_LAYOUT_ID = 1, board_NUM_LOGICAL_KEYS = 172, board_MACRO_MAX_KEYS = 4,
     board_PROGRAM_SIZE = 1024, board_MACRO_INDEX_SIZE = 300, board_MACROS_SIZE = 1024, board_PROGRAM_STORAGE = storage_i2c_eeprom,
     board_MACRO_INDEX_STORAGE = storage_avr_eeprom, board_MACROS_STORAGE = storage_i2c_eeprom, board_MAPPING_STORAGE = storage_avr_eeprom,
     board_CONSTANT_STORAGE = storage_avr_pgm, programs_address = 0x400, macro_index_address = 0, macros_address = 0,
     mapping_address = 0x200, default_mapping_address = 0x1000, wheel = (\<lambda>r. r ! 3)\<rparr>"

definition demo_vusb :: "'f \<Rightarrow> 'f vusb_state" where
  "demo_vusb f = \<lparr>kbd_idleRate = 0, mouse_idleRate = 0, reportProtocol = 1, KeyboardReportData = replicate 8 0,
     PrevKeyboardHIDReportBuffer = replicate 8 0, MouseReportData = replicate 5 0, PrevMouseHIDReportBuffer = replicate 5 0,
     transfer_type = 0, transfer_storage = 0, transfer_addr = 0, transfer_remaining = 0, transfer_callback = False,
     usbMsgPtr = at_transfer_byte, keyboard_idle_ms = 0, mouse_idle_ms = 0, uptime_remainder = 0, TCNT1 = 0, in_poll = False,
     sending_keyboard = False, sending_mouse = False, sent_keyboard = [], sent_mouse = [], fw = f\<rparr>"

lemma eight_byte_steps: "a mod 16 = 0 \<Longrightarrow> n \<le> 8 \<Longrightarrow> (a + 8 * k) mod 16 + n \<le> (16 :: nat)"
proof -
  assume a: "a mod 16 = 0" and n: "n \<le> 8"
  have "(a + 8 * k) mod 16 = (a mod 16 + 8 * k) mod 16" by (simp only: mod_add_left_eq)
  also have "\<dots> = 8 * (k mod 2)" using mult_mod_right [of 8 k 2] by (simp add: a)
  finally have e: "(a + 8 * k) mod 16 = 8 * (k mod 2)" .
  have "k mod 2 < 2" by simp
  then have "8 * (k mod 2) \<le> 8" by linarith
  then show ?thesis using n e by linarith
qed

theorem vusb_upload_roundtrip_witness:
  "\<exists>t u. host_upload demo_firmware demo_board request_WRITE_PROGRAMS (map of_nat [0..<20]) (demo_vusb fresh_i2c)
       = Some ([False, False, True], t)
     \<and> host_download demo_firmware demo_board request_READ_PROGRAMS 20 t = Some (map of_nat [0..<20], u)"
proof -
  note chip = at24.on_lines.stepwise
  have "at24.on_lines.holds (at_cells fresh_at24) fresh_i2c"
    using fresh_rest by (auto simp: at24.on_lines.holds_def)
  then have h: "at24.on_lines.holds (at_cells fresh_at24) (fw (demo_vusb fresh_i2c))" by (simp add: demo_vusb_def)
  have f: "write_step_fn demo_firmware storage_i2c_eeprom = Some (i2c_step (bitbang_port (device_wires at24_dev)))"
    "read_fn demo_firmware storage_i2c_eeprom = Some (i2c_eeprom_read (bitbang_port (device_wires at24_dev)))"
    "fw_vm_init demo_firmware g = g" for g
    by (simp_all add: write_step_fn_def read_fn_def demo_firmware_def transfer_codes)
  have a: "(request_WRITE_PROGRAMS, request_READ_PROGRAMS, storage_i2c_eeprom, 0x400) \<in> set (area_requests demo_board)"
    by (simp add: area_requests_def demo_board_def)
  have p: "length (packets_of (map of_nat [0..<20] :: u8 list)) = 3" by (simp add: packets_of.simps)
  have "\<exists>t u. host_upload demo_firmware demo_board request_WRITE_PROGRAMS (map of_nat [0..<20]) (demo_vusb fresh_i2c)
       = Some (replicate (length (packets_of (map of_nat [0..<20] :: u8 list)) - 1) False @ [True], t)
     \<and> at24.on_lines.holds (mem_write (at_cells fresh_at24) (unat (0x400 :: u16)) (map of_nat [0..<20])) (fw t) \<and> \<not> transfer_callback t
     \<and> host_download demo_firmware demo_board request_READ_PROGRAMS (length (map of_nat [0..<20] :: u8 list)) t = Some (map of_nat [0..<20], u)
     \<and> at24.on_lines.holds (mem_write (at_cells fresh_at24) (unat (0x400 :: u16)) (map of_nat [0..<20])) (fw u)"
    by (rule vusb_upload_roundtrip [OF chip f(1,2) a _ _ _ _ _ h])
      (use f(3) in \<open>auto simp: request_WRITE_MAPPING_def request_WRITE_PROGRAMS_def intro: eight_byte_steps [of "0x400"]\<close>)
  then show ?thesis unfolding p by (auto simp: eval_nat_numeral)
qed

subsection \<open>Time\<close>

text \<open>The timer read at the end of each interval of a list.\<close>

definition run_clock :: "'f firmware \<Rightarrow> u16 list \<Rightarrow> 'f vusb_state \<Rightarrow> 'f vusb_state" where
  "run_clock env ts s = fold (\<lambda>x s. update_uptimems env (s\<lparr>TCNT1 := x\<rparr>)) ts s"

text \<open>The time in ticks that a clock of the firmware and the remainder show together.\<close>

definition ticks_shown :: "('f \<Rightarrow> nat) \<Rightarrow> 'f vusb_state \<Rightarrow> nat" where
  "ticks_shown clock s = 250 * clock (fw s) + unat (uptime_remainder s)"

lemma uptime_step:
  assumes clock: "\<And>x f. clock (fw_Update_Millis env x f) = clock f + unat x" and t: "unat x + unat (uptime_remainder s) < 0x10000"
  shows "uptime_remainder (update_uptimems env (s\<lparr>TCNT1 := x\<rparr>)) < 250"
    "ticks_shown clock (update_uptimems env (s\<lparr>TCNT1 := x\<rparr>)) + (if unat x + unat (uptime_remainder s) < 64000 then 0 else 64000)
      = ticks_shown clock s + unat x"
proof -
  let ?t = "unat x + unat (uptime_remainder s)" and ?u = "update_uptimems env (s\<lparr>TCNT1 := x\<rparr>)"
  have e: "unat (x + ucast (uptime_remainder s)) = ?t"
    using t unat_add_lem [of x "ucast (uptime_remainder s)"] by (simp add: unat_ucast_8_16)
  have q: "unat ((x + ucast (uptime_remainder s)) div 250) = ?t div 250" by (simp add: unat_div_distrib e)
  have r: "unat ((x + ucast (uptime_remainder s)) mod 250) = ?t mod 250" by (simp add: unat_mod_distrib e)
  have "?t mod 250 < 250" by simp
  then have rem: "unat (uptime_remainder ?u) = ?t mod 250"
    by (simp add: update_uptimems_def Let_def on_fw_def unat_ucast_16_8 r)
  then show "uptime_remainder ?u < 250" using \<open>?t mod 250 < 250\<close> by (simp add: word_less_nat_alt)
  have "clock (fw ?u) = clock (fw s) + ?t div 250 mod 256"
  proof (cases "(x + ucast (uptime_remainder s)) div 250 > 0")
    case True
    then show ?thesis by (simp add: update_uptimems_def Let_def on_fw_def clock unat_ucast_16_8 q)
  next
    case False
    then have "?t div 250 = 0" using q by (metis neq0_conv unat_eq_0 unat_gt_0 word_gt_0)
    with False show ?thesis by (simp add: update_uptimems_def Let_def on_fw_def)
  qed
  moreover have "?t div 250 mod 256 = (if ?t < 64000 then ?t div 250 else ?t div 250 - 256)"
  proof (cases "?t < 64000")
    case False
    then have "256 \<le> ?t div 250" "?t div 250 < 512" using t by auto
    then show ?thesis using False by (simp add: mod_if)
  qed auto
  moreover have "250 * (?t div 250) + ?t mod 250 = ?t" by simp
  moreover have "\<not> ?t < 64000 \<Longrightarrow> 256 \<le> ?t div 250" by auto
  ultimately show "ticks_shown clock ?u + (if ?t < 64000 then 0 else 64000) = ticks_shown clock s + unat x"
    unfolding ticks_shown_def rem by (cases "?t < 64000") (simp_all add: algebra_simps)
qed

text \<open>
  C36: the clock of the V-USB boards loses no time while the timer is read at least every 255 milliseconds: over
  any sequence of passes of at most 63750 ticks each, the milliseconds handed to \<open>Update_Millis\<close> and the remainder
  that is carried over add up to the ticks that have passed. A pass of 64000 ticks or more loses exactly
  256 milliseconds, because \<open>Update_Millis\<close> takes a byte, although the timer itself counts up to 262.
\<close>

theorem vusb_clock_keeps_time:
  assumes clock: "\<And>x f. clock (fw_Update_Millis env x f) = clock f + unat x" and rem: "uptime_remainder s < 250"
  shows "((\<forall>x \<in> set ts. unat x \<le> 63750) \<longrightarrow>
      ticks_shown clock (run_clock env ts s) = ticks_shown clock s + (\<Sum>x \<leftarrow> ts. unat x) \<and> uptime_remainder (run_clock env ts s) < 250)
    \<and> (64000 \<le> unat x + unat (uptime_remainder s) \<and> unat x + unat (uptime_remainder s) < 65536 \<longrightarrow>
      ticks_shown clock (run_clock env [x] s) + 256 * 250 = ticks_shown clock s + unat x)"
proof (intro conjI impI)
  assume "\<forall>x \<in> set ts. unat x \<le> 63750"
  then have "ticks_shown clock (run_clock env ts s) = ticks_shown clock s + (\<Sum>x \<leftarrow> ts. unat x) \<and> uptime_remainder (run_clock env ts s) < 250"
    using rem
  proof (induction ts arbitrary: s)
    case (Cons x ts)
    have "unat (uptime_remainder s) < 250" using Cons.prems(2) by (simp add: word_less_nat_alt)
    then have t: "unat x + unat (uptime_remainder s) < 64000" using Cons.prems(1) by auto
    then have "unat x + unat (uptime_remainder s) < 0x10000" by linarith
    note u = uptime_step [OF clock this]
    from Cons.IH [of "update_uptimems env (s\<lparr>TCNT1 := x\<rparr>)"] Cons.prems(1) u t show ?case by (simp add: run_clock_def)
  qed (simp add: run_clock_def)
  then show "ticks_shown clock (run_clock env ts s) = ticks_shown clock s + (\<Sum>x \<leftarrow> ts. unat x)"
    "uptime_remainder (run_clock env ts s) < 250" by auto
next
  assume x: "64000 \<le> unat x + unat (uptime_remainder s) \<and> unat x + unat (uptime_remainder s) < 65536"
  then have "unat x + unat (uptime_remainder s) < 0x10000" by simp
  from uptime_step(2) [OF clock this] x show "ticks_shown clock (run_clock env [x] s) + 256 * 250 = ticks_shown clock s + unat x"
    by (simp add: run_clock_def)
qed

text \<open>A firmware that only counts the milliseconds.\<close>

definition counting_firmware :: "nat firmware" where
  "counting_firmware = \<lparr>fw_Fill_KeyboardReport = \<lambda>b f. (replicate 8 0, f), fw_Fill_MouseReport = \<lambda>b f. (replicate 5 0, f),
     fw_Process_KeyboardLEDReport = \<lambda>x f. f, fw_Update_Millis = \<lambda>x f. f + unat x, fw_buzzer_start = \<lambda>x f. f, fw_vm_init = \<lambda>f. f,
     fw_config_get_flags = \<lambda>f. 0, fw_config_save_flags = \<lambda>x f. f, fw_config_reset_defaults = \<lambda>f. f, fw_config_reset_fully = \<lambda>f. f,
     fw_avr_eeprom_write_step = \<lambda>a d l k f. Some (0, f), fw_i2c_eeprom_write_step = \<lambda>a d l k f. Some (0, f),
     fw_avr_eeprom_read = \<lambda>a l f. Some (0, [], f), fw_avr_pgm_read = \<lambda>a l f. Some (0, [], f), fw_i2c_eeprom_read = \<lambda>a l f. Some (0, [], f)\<rparr>"

theorem vusb_clock_keeps_time_witness:
  "ticks_shown (\<lambda>f. f) (run_clock counting_firmware [300, 63000, 449] (demo_vusb 0)) = 63749
    \<and> ticks_shown (\<lambda>f. f) (run_clock counting_firmware [65000] (demo_vusb 0)) = 1000"
proof -
  have "fw_Update_Millis counting_firmware x f = f + unat x" for x f by (simp add: counting_firmware_def)
  moreover have r: "uptime_remainder (demo_vusb (0 :: nat)) = 0" "fw (demo_vusb (0 :: nat)) = 0" by (simp_all add: demo_vusb_def)
  ultimately show ?thesis
    using vusb_clock_keeps_time [of "\<lambda>f. f" counting_firmware "demo_vusb 0" "[300, 63000, 449]" 65000]
    by (simp add: ticks_shown_def)
qed

subsection \<open>Idle reports\<close>

lemma update_keyboard_unchanged:
  assumes "\<And>b. fw_Fill_KeyboardReport env b (fw s) = (rep, fw s)" "PrevKeyboardHIDReportBuffer s = rep" "\<not> sending_keyboard s"
  shows "update_keyboard env True s =
    (if kbd_idleRate s \<noteq> 0 \<and> keyboard_idle_ms s = 0
     then s\<lparr>KeyboardReportData := rep, sent_keyboard := sent_keyboard s @ [rep], sending_keyboard := False, keyboard_idle_ms := kbd_idleRate s * 4\<rparr>
     else s\<lparr>KeyboardReportData := rep, sending_keyboard := False\<rparr>)"
  using assms by (cases s) (simp add: update_keyboard_def update_and_compare_def)

text \<open>
  While the report does not change and no time passes, the main loop sends the report once for an idle rate
  below 64, as the rate asks, and then waits. The product with 4 that sets the countdown is kept in a byte,
  however: for the rates 64, 128 and 192, which ask for a report every 256, 512 or 768 milliseconds, it is
  zero, and the report is sent in every pass.
\<close>

theorem vusb_idle_rate_wraps:
  assumes unchanged: "\<And>b. fw_Fill_KeyboardReport env b (fw s) = (rep, fw s)" "PrevKeyboardHIDReportBuffer s = rep" "\<not> sending_keyboard s"
    and due: "kbd_idleRate s \<noteq> 0" "keyboard_idle_ms s = 0"
  shows "sent_keyboard ((update_keyboard env True ^^ n) s)
    = sent_keyboard s @ replicate (if kbd_idleRate s \<in> {64, 128, 192} then n else min n 1) rep"
proof -
  let ?r = "kbd_idleRate s"
  have wraps: "?r * 4 = 0 \<longleftrightarrow> ?r \<in> {64, 128, 192}"
  proof -
    have "unat (?r * 4) = unat ?r * 4 mod 256" by (simp add: unat_word_ariths(2))
    then have z: "?r * 4 = 0 \<longleftrightarrow> unat ?r * 4 mod 256 = 0" by (metis unat_0 unat_eq_0)
    have "unat ?r < 256" "0 < unat ?r" using unsigned_less [of ?r] due(1) by (simp_all add: unat_gt_0)
    then have "unat ?r * 4 mod 256 = 0 \<longleftrightarrow> unat ?r = 64 \<or> unat ?r = 128 \<or> unat ?r = 192" by presburger
    then show ?thesis unfolding z by (simp add: word_unat_eq_iff)
  qed
  have "\<exists>u. (update_keyboard env True ^^ n) s = u \<and> fw u = fw s \<and> PrevKeyboardHIDReportBuffer u = rep \<and> \<not> sending_keyboard u
    \<and> kbd_idleRate u = ?r \<and> keyboard_idle_ms u = (if n = 0 then 0 else ?r * 4)
    \<and> sent_keyboard u = sent_keyboard s @ replicate (if ?r * 4 = 0 then n else min n 1) rep"
  proof (induction n)
    case (Suc n)
    then obtain u where u: "(update_keyboard env True ^^ n) s = u" "fw u = fw s" "PrevKeyboardHIDReportBuffer u = rep" "\<not> sending_keyboard u"
      "kbd_idleRate u = ?r" "keyboard_idle_ms u = (if n = 0 then 0 else ?r * 4)"
      "sent_keyboard u = sent_keyboard s @ replicate (if ?r * 4 = 0 then n else min n 1) rep" by blast
    have "fw_Fill_KeyboardReport env b (fw u) = (rep, fw u)" for b using unchanged(1) u(2) by simp
    note step = update_keyboard_unchanged [OF this u(3,4)]
    show ?case using u due(1) by (simp add: step replicate_append_same)
  qed (use unchanged due in auto)
  then show ?thesis using wraps by auto
qed

theorem vusb_idle_rate_wraps_witness:
  "sent_keyboard ((update_keyboard counting_firmware True ^^ 3) ((demo_vusb 0)\<lparr>kbd_idleRate := 64\<rparr>)) = replicate 3 (replicate 8 0)
    \<and> sent_keyboard ((update_keyboard counting_firmware True ^^ 3) ((demo_vusb 0)\<lparr>kbd_idleRate := 125\<rparr>)) = [replicate 8 0]"
proof -
  have f: "fw_Fill_KeyboardReport counting_firmware b g = (replicate 8 0, g)" for b g by (simp add: counting_firmware_def)
  show ?thesis
    using vusb_idle_rate_wraps [of counting_firmware "(demo_vusb 0)\<lparr>kbd_idleRate := 64\<rparr>" "replicate 8 0" 3, OF f]
      vusb_idle_rate_wraps [of counting_firmware "(demo_vusb 0)\<lparr>kbd_idleRate := 125\<rparr>" "replicate 8 0" 3, OF f]
    by (simp add: demo_vusb_def)
qed

text \<open>
  \<open>SET_PROTOCOL\<close> carries the protocol, 0 or 1, in the lower byte of its value; the upper byte is stored, so that
  the answer to \<open>GET_PROTOCOL\<close> is 0 from then on.
\<close>

theorem vusb_protocol_from_wrong_byte:
  assumes "rq_bRequest rq = USBRQ_HID_SET_PROTOCOL" "unat (rq_wValue rq) < 256"
  shows "reportProtocol (snd (class_request env rq s)) = 0"
proof -
  have "drop_bit 8 (rq_wValue rq) = 0" using assms(2) by (simp add: drop_bit_eq_div unat_div_distrib flip: unat_eq_0)
  then show ?thesis using assms(1)
    by (simp add: class_request_def value_high_def USBRQ_HID_SET_PROTOCOL_def USBRQ_HID_GET_REPORT_def USBRQ_HID_SET_REPORT_def
      USBRQ_HID_GET_IDLE_def USBRQ_HID_SET_IDLE_def USBRQ_HID_GET_PROTOCOL_def)
qed

text \<open>
  An upload of programs that ends early leaves the callback set: the next change of the keyboard LEDs, which is a
  transfer of its own, restarts the programs that were only partly written.
\<close>

theorem vusb_callback_outlives_upload:
  assumes "rq_bmRequestType rq AND USBRQ_TYPE_MASK \<noteq> USBRQ_TYPE_CLASS" "rq_bRequest rq = request_WRITE_PROGRAMS"
    "rq_bmRequestType lq AND USBRQ_TYPE_MASK = USBRQ_TYPE_CLASS" "rq_bRequest lq = USBRQ_HID_SET_REPORT" "rq_wIndex lq = 1" "rq_wLength lq = 1"
    and t: "t = snd (usbFunctionSetup env hw lq (snd (usbFunctionSetup env hw rq s)))"
  shows "usbFunctionWrite env [leds] 1 t
    = Some (True, t\<lparr>fw := fw_vm_init env (fw_Process_KeyboardLEDReport env leds (fw s)), transfer_callback := False\<rparr>)"
  using assms(1-6) unfolding t
  by (simp add: usbFunctionSetup_def vendor_request_vusb_def request_codes class_request_def USBRQ_HID_SET_REPORT_def
    USBRQ_HID_GET_REPORT_def set_transfer_state_def usbFunctionWrite_def transfer_codes write_done_def on_fw_def)

end
