(* ===== verification/Spec2Isabelle.thy ===== *)
theory Spec2Isabelle
  imports Sort Hardware Buzzer ExtraReport Printing MacroIndex MacroDefaults Storage Macro Config ConfigInit
    Keystate KeystateCorrect Interpreter InterpreterCorrect Board Keyboard Frames ConfigInvariant KeyboardInvariant
    KeyboardCorrect PanelCorrect Behaviour SpiEeprom SpiEepromCorrect UsbStream UsbStreamCorrect UsbDevice UsbDeviceCorrect
    Descriptors DescriptorsCorrect Twi TwiCorrect I2cEeprom I2cEepromCorrect BusWaits I2cSteps I2cStream
    KatyMatrix KatyMatrixCorrect OtherBoards OtherBoardsCorrect K80cs K80csCorrect VusbMain VusbCorrect
begin

text \<open>
  A verification library for the firmware of a programmable USB keyboard, in the build of the default
  makefile: the K84CS board with an XMEGA controller and the LUFA USB stack. Besides it are modelled what the
  other builds put in its place: the boards Ergodox, Kinesis, Kinesis 110 and K80CS, the storage driver of the
  boards that have an I2C memory, and the main program of the boards that use V-USB.

  \<^bold>\<open>The program.\<close> \<open>lufa/lufa_main.c\<close> starts the controller and enters the endless loop of \<open>Keyboard.c\<close>.
  A pass of the loop scans the key matrix (\<open>keystate.c\<close>, with \<open>hardware/k84cs.c\<close> below it), updates the
  panel of LEDs and LCD, runs the handler of the current state (normal use, remapping, recording a macro,
  printing, playing a macro) and lets the virtual machines (\<open>interpreter.c\<close>) make a step. Between passes the
  USB library calls back for reports and for the requests of the host, and a timer advances the time and the
  buzzer (\<open>buzzer.c\<close>). The settings, the key mapping and the saved layouts are in \<open>config.c\<close>, the macros in
  \<open>macro.c\<close> with an index in \<open>macro_index.c\<close> sorted with \<open>sort.c\<close>; \<open>printing.c\<close> types messages and
  \<open>extrareport.c\<close> keeps the keys pressed by macros and programs. What must survive a power cycle is in two
  memories: the internal EEPROM (\<open>storage/avr_eeprom.c\<close>) and a serial one behind \<open>storage/spi_eeprom.c\<close>.
  In another build a file of \<open>hardware\<close> for another board, \<open>storage/i2c_eeprom.c\<close> over \<open>twi.c\<close>, or
  \<open>vusb/vusb_main.c\<close> takes the place of its counterpart; the rest is the same.

  \<^bold>\<open>Data.\<close> Bytes, shorts and words of the program are \<open>u8\<close>, \<open>u16\<close> and \<open>u32\<close> of \<open>Prelude\<close>, so that
  arithmetic wraps as in C; arrays are lists or functions from their index. The static variables of all
  components are one record: every component extends the record of the component it is built on
  (buzzer, printing, index, macros, configuration, key state, virtual machines, board, state machine), and its
  operations work on every extension of its own record. \<open>Frames\<close> collects what each operation leaves alone.
  Errors the program reports are values. What C leaves undefined is \<open>None\<close>: an access outside the stack of a
  virtual machine, a division by zero or a shift out of range in a program, a program that does not exist, an
  index outside the array of the heap sort. Two bounds are not checked by the source and are hypotheses or
  domains here: the array of the macros has \<open>MACROS_SIZE\<close> bytes (\<open>macro_room\<close>), and a request of the host stays
  within its area of the storage.

  \<^bold>\<open>Theories.\<close>
  \<^item> \<open>Sort\<close>: \<open>insertionsort_uint8\<close> and \<open>heapsort_uint8\<close> of \<open>sort.c\<close> sort and agree. The heap sort has the indices
    of the source, 16 bits wide, and is right for fewer than \<open>0x8000\<close> elements, where they do not wrap.
  \<^item> \<open>Hardware\<close>, \<open>Board\<close>: sizes, tables, number formatting, panel and light sensor of the board.
  \<^item> \<open>KatyMatrix\<close>, \<open>KatyMatrixCorrect\<close>: how the board selects and reads the matrix, over ports, wires and the
    scan loop. Locale \<open>left_wires\<close> is what the shift registers of the left hand do, \<open>matrix_driver\<close> what the
    scan needs of a board, \<open>two_hands\<close> how a board of this family provides it; the scan finds the keys held.
  \<^item> \<open>Buzzer\<close>: the timer registers behind a tone, and how long a tone lasts.
  \<^item> \<open>ExtraReport\<close>: the virtual report implements a set of keys (locale \<open>virtual_keys\<close>).
  \<^item> \<open>Printing\<close>: which keys type a character, and that a message is typed in order.
  \<^item> \<open>MacroIndex\<close>, \<open>MacroDefaults\<close>: the sorted index implements a finite map (locale \<open>keyed_index\<close>).
  \<^item> \<open>Storage\<close>: blocks of bytes; the loops of the internal EEPROM implement them.
  \<^item> \<open>Macro\<close>: the heap of recorded macros with its offsets in the index; recording, deleting and playing
    back act on a map from key combinations to events, as long as the array has room; what is recorded beyond
    it is written behind the array. Any call of the storage may fail.
  \<^item> \<open>Config\<close>, \<open>ConfigInit\<close>: mapping, flags, the packed table of saved layouts, resets and the first start.
  \<^item> \<open>Keystate\<close>, \<open>KeystateCorrect\<close>: scanning, debouncing, layers, the fourteen slots and the reports. The
    change hook is a client under the contract of locale \<open>change_hook\<close>; the recorder is an instance.
  \<^item> \<open>Interpreter\<close>, \<open>InterpreterCorrect\<close>: all instructions; the operators against a specification on integers
    (\<open>op_spec\<close>), with the operands of a frame as a list; calls and returns, waiting, independence of the machines.
  \<^item> \<open>Keyboard\<close>: the state machine, the callbacks and a pass of the main loop.
  \<^item> \<open>Frames\<close>, \<open>ConfigInvariant\<close>, \<open>KeyboardInvariant\<close>: the invariant of the whole firmware and its
    preservation by every handler and callback.
  \<^item> \<open>KeyboardCorrect\<close>: the firmware as a transition system and what holds in every reachable state. The host may
    write anything; what depends on the layer and program keys holds until it moves one of them.
  \<^item> \<open>PanelCorrect\<close>: the LCD read as a screen; the panel shows layer, locks and mode of the keyboard.
  \<^item> \<open>Behaviour\<close>: what a user can do: remapping, setting numbers, recording.
  \<^item> \<open>SpiEeprom\<close>, \<open>SpiEepromCorrect\<close>: the driver of the serial memory over a bus parameter. What the
    documentation of the chip says of whole transactions is the locale \<open>spi_eeprom_chip\<close>, which a model of
    a chip satisfies; under it the driver implements a byte memory.
  \<^item> \<open>UsbStream\<close>, \<open>UsbStreamCorrect\<close>: the control transfers of the library as instantiated for the
    storage, over any trace of what they see of the bus.
  \<^item> \<open>UsbDevice\<close>, \<open>UsbDeviceCorrect\<close>: the events, report callbacks and vendor requests of \<open>lufa_main.c\<close>, with the
    mapping, the programs and the macro index in the internal EEPROM and the macros in the chip on the SPI bus.
  \<^item> \<open>Descriptors\<close>, \<open>DescriptorsCorrect\<close>: the descriptors of \<open>Descriptors.c\<close>, both lookups, and what a host reads
    from them when it enumerates the device.
  \<^item> \<open>Twi\<close>, \<open>TwiCorrect\<close>: both implementations of the two-wire bus of \<open>twi.c\<close>, one that drives the lines by
    hand and one that programs the peripheral. Locale \<open>i2c_bus\<close> says that a bus carries start and stop
    conditions, bytes and acknowledgements to a device (locale \<open>i2c_listener\<close>); both are shown to be one.
  \<^item> \<open>I2cEeprom\<close>, \<open>I2cEepromCorrect\<close>: the driver of the I2C memory over the bus interface. The protocol of
    the chip is locale \<open>at24_protocol\<close>, which a model of a 2 KB chip satisfies; with a bus it is
    \<open>i2c_eeprom_chip\<close>, under which the driver implements a byte memory and reports a missing chip.
  \<^item> \<open>BusWaits\<close>: the loops that wait for a memory, a clock line or the bus peripheral, as one contract
    (locale \<open>polling\<close>): when they return, and that otherwise they do not.
  \<^item> \<open>I2cSteps\<close>, \<open>I2cStream\<close>: locale \<open>step_storage\<close>, a storage written in steps of a transfer, which the I2C
    driver is; control transfers to and from it (\<open>lufa/eeext_endpoint_stream.c\<close>).
  \<^item> \<open>OtherBoards\<close>, \<open>OtherBoardsCorrect\<close>: the port registers and tables of Ergodox, Kinesis and Kinesis 110; the
    left hand of the Ergodox behind a port expander (locale \<open>mcp23018\<close>), plugged in or not.
  \<^item> \<open>K80cs\<close>, \<open>K80csCorrect\<close>: tables, both matrix drivers and the light sensor of the K80CS.
  \<^item> \<open>VusbMain\<close>, \<open>VusbCorrect\<close>: the requests, data packets, clock and reports of \<open>vusb/vusb_main.c\<close> over a record
    of firmware functions; uploads to any storage of locale \<open>step_storage\<close> come back in downloads.

  \<^bold>\<open>Properties.\<close> Each property is a theorem with a text block that numbers and explains it. The central ones:
  in every state reachable by any interleaving of passes, callbacks, timer ticks and host requests the settings,
  the slots and the control state are consistent; scanning implements debouncing of sets of keys; recording acts
  on the stored macros as a map update; a saved layout comes back when it is loaded; the instructions of the
  virtual machine compute the operators of integers on a list of operands; the serial memories behave as memories, from the levels of the bus
  lines up, also under uploads from the host in all three of its forms; the scan of the ports finds the keys that
  are held. Some theorems pin down behaviour that is not intended: the stack check of the virtual machine that
  comes a byte too late, a cancelled macro trigger that is used again, a mouse divisor that stops the mouse, a
  block move that misses its destination, return values that say the opposite of their description, keys that
  stick when a hand is unplugged, a clock and an idle rate that overflow a byte, a recording that runs over the
  end of its array, operands in the other order than the description of the virtual machine has them.

  \<^bold>\<open>Loops.\<close> Loops are recursive functions with a measure where the source bounds them. Waiting for the serial
  memory may last forever on a broken chip, and so may waiting for a stretched clock or for the bus peripheral:
  these are partial functions, shown to return exactly for a chip whose write cycle ends, a device that
  releases the clock and a peripheral that finishes its job. The transfer loops run over a list of observations, and are shown to complete for every
  list in which the host does its part. The endless main loop is a relation between the states of its passes.

  \<^bold>\<open>Not modelled.\<close> The set-up of clocks, timers and converters, of the ports of the XMEGA boards beyond the
  matrix, and of the pulse width computed in floating point; the library routines of LUFA other than the transfer
  loops, the V-USB driver and the LCD library, which are third-party code; the time that passes within a pass, which
  matters only where the source reads the clock twice; debug code that is not compiled in (\<open>KATY_DEBUG\<close>,
  \<open>DEBUG\<close>), the test routines of the EEPROM drivers and \<open>interpreter_harness.c\<close>; the programs of the host
  (clients and compiler). \<open>USB_KeepAlive\<close> inside storage operations lets the library run, but no report or
  request is handled in between. The panel of the K80CS is the text of \<open>k84cs.c\<close> again and not repeated.
\<close>

end
